(* ===== verification/Prelude.thy ===== *)
theory Prelude
  imports Main "HOL-Library.Word" "HOL-Library.Char_ord" "HOL-Library.List_Lexorder"
    "HOL-Library.Sublist"
begin

text \<open>
  Shared vocabulary of the development: names for the machine integers, the
  operations of Rust's \<open>str\<close>, \<open>char\<close> and integer formatting that the sources
  call, and the generic list and word lemmas the component theories use.

  A Rust \<open>String\<close> is its sequence of UTF-8 bytes: \<^typ>\<open>string\<close> is a list of
  \<^typ>\<open>char\<close>, and a \<^typ>\<open>char\<close> of HOL is one byte. Every operation below acts on
  bytes, as Rust's does on the bytes behind a \<open>&str\<close>.
\<close>

section \<open>Collections of facts\<close>

named_theorems wf_keep \<open>an operation keeps the well-formedness invariant of its component\<close>
named_theorems obs_simps \<open>what an operation changes, seen through the observers of its state\<close>

section \<open>Machine integers\<close>

type_synonym u8 = "8 word"
type_synonym u16 = "16 word"
type_synonym u32 = "32 word"
type_synonym u64 = "64 word"

text \<open>An \<open>AtomicI64\<close> wraps like a word; \<^const>\<open>sint\<close> reads its value.\<close>

type_synonym i64 = "64 word"

section \<open>ASCII\<close>

definition byte_of :: "char \<Rightarrow> nat" where
  "byte_of c = of_char c"

definition is_ascii_uppercase :: "char \<Rightarrow> bool" where
  "is_ascii_uppercase c \<longleftrightarrow> 65 \<le> byte_of c \<and> byte_of c \<le> 90"

definition is_ascii_lowercase :: "char \<Rightarrow> bool" where
  "is_ascii_lowercase c \<longleftrightarrow> 97 \<le> byte_of c \<and> byte_of c \<le> 122"

definition is_ascii_digit :: "char \<Rightarrow> bool" where
  "is_ascii_digit c \<longleftrightarrow> 48 \<le> byte_of c \<and> byte_of c \<le> 57"

definition is_ascii_alphabetic :: "char \<Rightarrow> bool" where
  "is_ascii_alphabetic c \<longleftrightarrow> is_ascii_uppercase c \<or> is_ascii_lowercase c"

definition is_ascii_alphanumeric :: "char \<Rightarrow> bool" where
  "is_ascii_alphanumeric c \<longleftrightarrow> is_ascii_alphabetic c \<or> is_ascii_digit c"

definition to_ascii_lowercase :: "char \<Rightarrow> char" where
  "to_ascii_lowercase c = (if is_ascii_uppercase c then char_of (byte_of c + 32) else c)"

definition str_to_ascii_lowercase :: "string \<Rightarrow> string" where
  "str_to_ascii_lowercase = map to_ascii_lowercase"

definition eq_ignore_ascii_case :: "string \<Rightarrow> string \<Rightarrow> bool" where
  "eq_ignore_ascii_case a b \<longleftrightarrow> str_to_ascii_lowercase a = str_to_ascii_lowercase b"

lemma byte_of_less: "byte_of c < 256"
  by (simp add: byte_of_def)

lemma byte_of_char_of: "n < 256 \<Longrightarrow> byte_of (char_of n) = n"
  by (simp add: byte_of_def)

lemma to_ascii_lowercase_idem [simp]:
  "to_ascii_lowercase (to_ascii_lowercase c) = to_ascii_lowercase c"
  by (auto simp: to_ascii_lowercase_def is_ascii_uppercase_def byte_of_char_of)

lemma str_to_ascii_lowercase_idem [simp]:
  "str_to_ascii_lowercase (str_to_ascii_lowercase s) = str_to_ascii_lowercase s"
  by (simp add: str_to_ascii_lowercase_def)

lemma length_str_to_ascii_lowercase [simp]: "length (str_to_ascii_lowercase s) = length s"
  by (simp add: str_to_ascii_lowercase_def)

lemma str_to_ascii_lowercase_append [simp]:
  "str_to_ascii_lowercase (s @ t) = str_to_ascii_lowercase s @ str_to_ascii_lowercase t"
  by (simp add: str_to_ascii_lowercase_def)

lemma eq_ignore_ascii_case_refl [simp]: "eq_ignore_ascii_case s s"
  by (simp add: eq_ignore_ascii_case_def)

lemma eq_ignore_ascii_case_sym: "eq_ignore_ascii_case s t \<longleftrightarrow> eq_ignore_ascii_case t s"
  by (auto simp: eq_ignore_ascii_case_def)

lemma eq_ignore_ascii_case_trans:
  "eq_ignore_ascii_case s t \<Longrightarrow> eq_ignore_ascii_case t u \<Longrightarrow> eq_ignore_ascii_case s u"
  by (simp add: eq_ignore_ascii_case_def)

lemma eq_ignore_ascii_case_length: "eq_ignore_ascii_case s t \<Longrightarrow> length s = length t"
  unfolding eq_ignore_ascii_case_def by (metis length_str_to_ascii_lowercase)

section \<open>Searching strings\<close>

definition starts_with :: "string \<Rightarrow> string \<Rightarrow> bool" where
  "starts_with s p \<longleftrightarrow> take (length p) s = p"

definition ends_with :: "string \<Rightarrow> string \<Rightarrow> bool" where
  "ends_with s p \<longleftrightarrow> length p \<le> length s \<and> drop (length s - length p) s = p"

fun str_contains :: "string \<Rightarrow> string \<Rightarrow> bool" where
  "str_contains [] p = (p = [])"
| "str_contains (c # s) p = (starts_with (c # s) p \<or> str_contains s p)"

lemma starts_with_iff: "starts_with s p \<longleftrightarrow> prefix p s"
  unfolding starts_with_def prefix_def by (metis append_eq_conv_conj append_take_drop_id)

lemma ends_with_iff: "ends_with s p \<longleftrightarrow> suffix p s"
  unfolding ends_with_def suffix_def
  by (metis append_take_drop_id diff_diff_cancel length_append length_drop
      add_diff_cancel_right' append_eq_conv_conj le_add2)

lemma str_contains_iff: "str_contains s p \<longleftrightarrow> (\<exists>a b. s = a @ p @ b)"
proof (induction s)
  case Nil
  then show ?case by auto
next
  case (Cons c s)
  show ?case
  proof
    assume "str_contains (c # s) p"
    with Cons show "\<exists>a b. c # s = a @ p @ b"
      by (metis append_Cons append_Nil prefixE starts_with_iff str_contains.simps(2))
  next
    assume "\<exists>a b. c # s = a @ p @ b"
    then obtain a b where ab: "c # s = a @ p @ b" by blast
    then show "str_contains (c # s) p"
    proof (cases a)
      case Nil
      with ab have "starts_with (c # s) p" by (simp add: starts_with_iff)
      then show ?thesis by simp
    next
      case (Cons d a')
      with ab have "s = a' @ p @ b" by simp
      then have "str_contains s p" using Cons.IH by blast
      then show ?thesis by simp
    qed
  qed
qed

text \<open>
  Slicing a \<open>str\<close> by byte offset succeeds only on a character boundary: an offset
  that is in range and does not point into the middle of a multi-byte sequence
  (a continuation byte is \<open>0x80\<close> to \<open>0xBF\<close>).
\<close>

definition is_char_boundary :: "string \<Rightarrow> nat \<Rightarrow> bool" where
  "is_char_boundary s i \<longleftrightarrow>
     i = 0 \<or> i = length s \<or> (i < length s \<and> \<not> (128 \<le> byte_of (s ! i) \<and> byte_of (s ! i) < 192))"

definition str_get_to :: "string \<Rightarrow> nat \<Rightarrow> string option" where
  "str_get_to s n = (if is_char_boundary s n then Some (take n s) else None)"

definition str_get_from :: "string \<Rightarrow> nat \<Rightarrow> string option" where
  "str_get_from s n = (if is_char_boundary s n then Some (drop n s) else None)"

lemma is_char_boundary_le: "is_char_boundary s i \<Longrightarrow> i \<le> length s"
  by (auto simp: is_char_boundary_def)

section \<open>Decimal formatting\<close>

definition digit_char :: "nat \<Rightarrow> char" where
  "digit_char d = char_of (48 + d)"

fun show_nat :: "nat \<Rightarrow> string" where
  "show_nat n = (if n < 10 then [digit_char n] else show_nat (n div 10) @ [digit_char (n mod 10)])"

declare show_nat.simps [simp del]

definition show_int :: "int \<Rightarrow> string" where
  "show_int i = (if i < 0 then CHR ''-'' # show_nat (nat (- i)) else show_nat (nat i))"

definition digit_val :: "char \<Rightarrow> nat" where
  "digit_val c = byte_of c - 48"

definition read_nat :: "string \<Rightarrow> nat" where
  "read_nat s = foldl (\<lambda>n c. 10 * n + digit_val c) 0 s"

lemma digit_val_digit_char [simp]: "d < 10 \<Longrightarrow> digit_val (digit_char d) = d"
  by (simp add: digit_val_def digit_char_def byte_of_char_of)

lemma is_ascii_digit_digit_char [simp]: "d < 10 \<Longrightarrow> is_ascii_digit (digit_char d)"
  by (simp add: is_ascii_digit_def digit_char_def byte_of_char_of)

lemma read_show_nat [simp]: "read_nat (show_nat n) = n"
proof (induction n rule: show_nat.induct)
  case (1 n)
  then show ?case
    by (subst show_nat.simps) (simp add: read_nat_def)
qed

lemma show_nat_inject [simp]: "show_nat m = show_nat n \<longleftrightarrow> m = n"
  by (metis read_show_nat)

lemma show_nat_nonempty [simp]: "show_nat n \<noteq> []"
  by (subst show_nat.simps) simp

lemma show_nat_digits: "c \<in> set (show_nat n) \<Longrightarrow> is_ascii_digit c"
proof (induction n rule: show_nat.induct)
  case (1 n)
  show ?case
  proof (cases "n < 10")
    case True
    with "1.prems" show ?thesis by (simp add: show_nat.simps [of n])
  next
    case False
    with "1.prems" consider "c \<in> set (show_nat (n div 10))" | "c = digit_char (n mod 10)"
      by (auto simp: show_nat.simps [of n])
    then show ?thesis
      by cases (use False "1.IH" in auto)
  qed
qed

section \<open>Reading integers\<close>

text \<open>
  \<open>str::parse::<u64>\<close>: an optional plus sign, then at least one digit and nothing
  else, and a value below \<open>2^64\<close>.
\<close>

definition parse_digits :: "nat \<Rightarrow> string \<Rightarrow> nat option" where
  "parse_digits w s =
     (if s \<noteq> [] \<and> list_all is_ascii_digit s \<and> read_nat s < 2 ^ w then Some (read_nat s) else None)"

definition parse_unsigned :: "nat \<Rightarrow> string \<Rightarrow> nat option" where
  "parse_unsigned w s =
     (case s of
        [] \<Rightarrow> None
      | c # cs \<Rightarrow> if c = CHR ''+'' then parse_digits w cs else parse_digits w s)"

text \<open>\<open>str::parse::<i64>\<close>: an optional sign, then digits, and a value in the signed range.\<close>

definition parse_signed :: "nat \<Rightarrow> string \<Rightarrow> int option" where
  "parse_signed w s =
     (case s of
        [] \<Rightarrow> None
      | c # cs \<Rightarrow>
          if c = CHR ''-'' then
            (case parse_digits w cs of
               Some n \<Rightarrow> if n \<le> 2 ^ (w - 1) then Some (- int n) else None | None \<Rightarrow> None)
          else
            (case parse_unsigned w s of
               Some n \<Rightarrow> if n < 2 ^ (w - 1) then Some (int n) else None | None \<Rightarrow> None))"

lemma parse_digits_show [simp]: "n < 2 ^ w \<Longrightarrow> parse_digits w (show_nat n) = Some n"
  by (auto simp: parse_digits_def list_all_iff show_nat_digits)

lemma parse_unsigned_show [simp]: "n < 2 ^ w \<Longrightarrow> parse_unsigned w (show_nat n) = Some n"
proof -
  assume n: "n < 2 ^ w"
  obtain c cs where s: "show_nat n = c # cs" by (cases "show_nat n") auto
  then have "is_ascii_digit c" using show_nat_digits [of c n] by simp
  then have "c \<noteq> CHR ''+''" by (auto simp: is_ascii_digit_def byte_of_def)
  with s n show ?thesis using parse_digits_show [OF n] by (simp add: parse_unsigned_def)
qed

lemma parse_unsigned_bound: "parse_unsigned w s = Some n \<Longrightarrow> n < 2 ^ w"
  by (auto simp: parse_unsigned_def parse_digits_def split: list.splits if_splits)

section \<open>Early returns\<close>

text \<open>A sequence of checks, each of which may return an error: the first error wins.\<close>

fun checks :: "('e + unit) list \<Rightarrow> 'e + unit" where
  "checks [] = Inr ()"
| "checks (Inl e # cs) = Inl e"
| "checks (Inr u # cs) = checks cs"

definition reject_if :: "bool \<Rightarrow> 'e \<Rightarrow> 'e + unit" where
  "reject_if b e = (if b then Inl e else Inr ())"

definition on_some :: "('a \<Rightarrow> 'e + unit) \<Rightarrow> 'a option \<Rightarrow> 'e + unit" where
  "on_some f x = (case x of None \<Rightarrow> Inr () | Some a \<Rightarrow> f a)"

lemma checks_ok [simp]: "checks cs = Inr () \<longleftrightarrow> (\<forall>c \<in> set cs. c = Inr ())"
  by (induction cs rule: checks.induct) auto

lemma checks_err: "checks cs = Inl e \<Longrightarrow> Inl e \<in> set cs"
  by (induction cs rule: checks.induct) auto

lemma reject_if_ok [simp]: "reject_if b e = Inr () \<longleftrightarrow> \<not> b"
  by (simp add: reject_if_def)

lemma on_some_ok [simp]: "on_some f x = Inr () \<longleftrightarrow> (\<forall>a. x = Some a \<longrightarrow> f a = Inr ())"
  by (simp add: on_some_def split: option.splits)

text \<open>A mapping over a list that stops at the first error (\<open>?\<close> inside a loop).\<close>

fun traverse :: "('a \<Rightarrow> 'e + 'b) \<Rightarrow> 'a list \<Rightarrow> 'e + 'b list" where
  "traverse f [] = Inr []"
| "traverse f (x # xs) =
     (case f x of
        Inl e \<Rightarrow> Inl e
      | Inr y \<Rightarrow> (case traverse f xs of Inl e \<Rightarrow> Inl e | Inr ys \<Rightarrow> Inr (y # ys)))"

lemma traverse_ok: "traverse f xs = Inr ys \<Longrightarrow> list_all2 (\<lambda>x y. f x = Inr y) xs ys"
  by (induction xs arbitrary: ys) (auto split: sum.splits)

lemma traverse_set:
  "traverse f xs = Inr ys \<Longrightarrow> y \<in> set ys \<Longrightarrow> \<exists>x \<in> set xs. f x = Inr y"
  by (induction xs arbitrary: ys) (auto split: sum.splits)

lemma traverse_Nil [simp]: "traverse f xs = Inr [] \<longleftrightarrow> xs = []"
  by (cases xs) (auto split: sum.splits)

text \<open>
  Iterator methods whose closure may panic (\<open>None\<close>): \<open>all\<close>, \<open>any\<close> and \<open>position\<close> stop at
  the element that decides, and a panic before it is the result.
\<close>

fun all_opt :: "('a \<Rightarrow> bool option) \<Rightarrow> 'a list \<Rightarrow> bool option" where
  "all_opt f [] = Some True"
| "all_opt f (x # xs) =
     (case f x of None \<Rightarrow> None | Some False \<Rightarrow> Some False | Some True \<Rightarrow> all_opt f xs)"

fun position_opt :: "('a \<Rightarrow> bool option) \<Rightarrow> 'a list \<Rightarrow> nat option option" where
  "position_opt f [] = Some None"
| "position_opt f (x # xs) =
     (case f x of
        None \<Rightarrow> None
      | Some True \<Rightarrow> Some (Some 0)
      | Some False \<Rightarrow> map_option (map_option Suc) (position_opt f xs))"

fun find_opt :: "('a \<Rightarrow> bool option) \<Rightarrow> 'a list \<Rightarrow> 'a option option" where
  "find_opt f [] = Some None"
| "find_opt f (x # xs) =
     (case f x of None \<Rightarrow> None | Some True \<Rightarrow> Some (Some x) | Some False \<Rightarrow> find_opt f xs)"

fun any_opt :: "('a \<Rightarrow> bool option) \<Rightarrow> 'a list \<Rightarrow> bool option" where
  "any_opt f [] = Some False"
| "any_opt f (x # xs) =
     (case f x of None \<Rightarrow> None | Some True \<Rightarrow> Some True | Some False \<Rightarrow> any_opt f xs)"

lemma all_opt_cong [fundef_cong]:
  "xs = ys \<Longrightarrow> (\<And>x. x \<in> set ys \<Longrightarrow> f x = g x) \<Longrightarrow> all_opt f xs = all_opt g ys"
  by (induction xs arbitrary: ys) (auto split: option.splits bool.splits)

lemma any_opt_cong [fundef_cong]:
  "xs = ys \<Longrightarrow> (\<And>x. x \<in> set ys \<Longrightarrow> f x = g x) \<Longrightarrow> any_opt f xs = any_opt g ys"
  by (induction xs arbitrary: ys) (auto split: option.splits bool.splits)

lemma traverse_cong [fundef_cong]:
  "xs = ys \<Longrightarrow> (\<And>x. x \<in> set ys \<Longrightarrow> f x = g x) \<Longrightarrow> traverse f xs = traverse g ys"
  by (induction xs arbitrary: ys) (auto split: sum.splits)

lemma all_opt_total: "(\<And>x. x \<in> set xs \<Longrightarrow> f x \<noteq> None) \<Longrightarrow> all_opt f xs = Some (\<forall>x \<in> set xs. f x = Some True)"
proof (induction xs)
  case (Cons x xs)
  then show ?case using Cons.prems [of x] by (cases "f x") (auto split: bool.splits)
qed simp

lemma any_opt_total:
  "(\<And>x. x \<in> set xs \<Longrightarrow> f x \<noteq> None) \<Longrightarrow> any_opt f xs = Some (\<exists>x \<in> set xs. f x = Some True)"
proof (induction xs)
  case (Cons x xs)
  then show ?case using Cons.prems [of x] by (cases "f x") (auto split: bool.splits)
qed simp

lemma find_opt_total: "(\<And>x. x \<in> set xs \<Longrightarrow> f x \<noteq> None) \<Longrightarrow> find_opt f xs = Some (find (\<lambda>x. f x = Some True) xs)"
proof (induction xs)
  case (Cons x xs)
  then show ?case using Cons.prems [of x] by (cases "f x") (auto split: bool.splits)
qed simp

text \<open>\<open>position\<close> then indexing is \<open>find\<close>.\<close>

lemma find_opt_position:
  "find_opt f xs = map_option (map_option ((!) xs)) (position_opt f xs)"
proof (induction xs)
  case (Cons x xs)
  show ?case
    by (cases "f x")
      (auto simp: Cons.IH option.map_comp comp_def split: bool.splits)
qed simp

lemma position_opt_less: "position_opt f xs = Some (Some i) \<Longrightarrow> i < length xs"
  by (induction xs arbitrary: i) (auto split: option.splits bool.splits)

section \<open>Splitting and trimming\<close>

fun split_on :: "char \<Rightarrow> string \<Rightarrow> string list" where
  "split_on sep [] = [[]]"
| "split_on sep (c # s) =
     (if c = sep then [] # split_on sep s
      else case split_on sep s of [] \<Rightarrow> [[c]] | w # ws \<Rightarrow> (c # w) # ws)"

lemma split_on_nonempty [simp]: "split_on sep s \<noteq> []"
  by (induction sep s rule: split_on.induct) (auto split: list.splits)

lemma split_on_none: "sep \<notin> set s \<Longrightarrow> split_on sep s = [s]"
  by (induction s) auto

lemma split_on_append: "split_on sep (a @ sep # b) = split_on sep a @ split_on sep b"
  by (induction a) (auto split: list.splits simp: Cons_eq_append_conv)

text \<open>\<open>split_once\<close>: around the first separator.\<close>

fun split_once :: "char \<Rightarrow> string \<Rightarrow> (string \<times> string) option" where
  "split_once sep [] = None"
| "split_once sep (c # s) =
     (if c = sep then Some ([], s) else map_option (\<lambda>(a, b). (c # a, b)) (split_once sep s))"

lemma split_once_Some: "split_once sep s = Some (a, b) \<Longrightarrow> s = a @ sep # b \<and> sep \<notin> set a"
  by (induction s arbitrary: a) (auto split: if_splits)

lemma split_once_None: "split_once sep s = None \<longleftrightarrow> sep \<notin> set s"
  by (induction s) auto

lemma split_once_append: "sep \<notin> set a \<Longrightarrow> split_once sep (a @ sep # b) = Some (a, b)"
  by (induction a) auto

text \<open>
  The characters \<open>str::trim\<close> removes (the Unicode White_Space property), as the byte
  sequences that encode them.
\<close>

definition white_space :: "nat list list" where
  "white_space =
     [[9], [10], [11], [12], [13], [32], [194, 133], [194, 160], [225, 154, 128]]
     @ map (\<lambda>b. [226, 128, b]) [128, 129, 130, 131, 132, 133, 134, 135, 136, 137, 138, 168, 169, 175]
     @ [[226, 129, 159], [227, 128, 128]]"

function trim_start :: "nat list list \<Rightarrow> string \<Rightarrow> string" where
  "trim_start seqs s =
     (case find (\<lambda>w. w \<noteq> [] \<and> map byte_of (take (length w) s) = w) seqs of
        None \<Rightarrow> s
      | Some w \<Rightarrow> trim_start seqs (drop (length w) s))"
  by pat_completeness auto
termination
proof (relation "measure (\<lambda>(_, s). length s)")
  fix seqs s w
  assume "find (\<lambda>w. w \<noteq> [] \<and> map byte_of (take (length w) s) = w) seqs = Some w"
  then have w: "w \<noteq> [] \<and> map byte_of (take (length w) s) = w"
    by (auto simp: find_Some_iff)
  then have "s \<noteq> []" by auto
  with w show "((seqs, drop (length w) s), (seqs, s)) \<in> measure (\<lambda>(_, s). length s)"
    by simp
qed simp

declare trim_start.simps [simp del]

definition str_trim :: "string \<Rightarrow> string" where
  "str_trim s = rev (trim_start (map rev white_space) (rev (trim_start white_space s)))"

section \<open>Lists\<close>

lemma filter_upt_eq_Nil: "filter P [0..<n] = [] \<longleftrightarrow> (\<forall>i<n. \<not> P i)"
  by (auto simp: filter_empty_conv)

lemma nth_mod_in_set: "xs \<noteq> [] \<Longrightarrow> xs ! (i mod length xs) \<in> set xs"
  by (simp add: nth_mem)

lemma sorted_map_fst_unique:
  fixes m :: "('k::linorder \<times> 'v) list"
  assumes "sorted_wrt (<) (map fst m)"
  shows "distinct (map fst m)"
  using assms strict_sorted_iff by blast

lemma length_filter_update:
  assumes "i < length xs"
  shows "int (length (filter P (xs[i := y]))) =
    int (length (filter P xs)) + (if P y then 1 else 0) - (if P (xs ! i) then 1 else 0)"
  using assms
proof (induction xs arbitrary: i)
  case Nil
  then show ?case by simp
next
  case (Cons x xs)
  show ?case
  proof (cases i)
    case 0
    then show ?thesis by simp
  next
    case (Suc j)
    with Cons.prems have "j < length xs" by simp
    from Cons.IH [OF this] Suc show ?thesis by (simp split: if_splits)
  qed
qed

section \<open>Function updates\<close>

lemma fun_upd_first_of_two: "a \<noteq> b \<Longrightarrow> (f(a := x, b := y))(a := z) = f(a := z, b := y)"
  by (simp add: fun_eq_iff)

lemma fun_upd_const: "(\<lambda>_. c)(a := c) = (\<lambda>_. c)"
  by (simp add: fun_eq_iff)

section \<open>Words\<close>

lemma unat_lt_max_plus1: "unat (w :: 'a::len word) < m \<Longrightarrow> m < 2 ^ LENGTH('a) \<Longrightarrow>
  unat (w + 1) = unat w + 1"
  by (simp add: unat_word_ariths)

end
