(* ===== verification/Ordered_Map.thy ===== *)
theory Ordered_Map
  imports Prelude
begin

text \<open>
  The standard library's \<open>BTreeMap\<close>, as the sources use it: a map that iterates
  in ascending key order. The stats registry, the runtime snapshot, endpoint
  metadata and the dynamic metadata of a request are all such maps.

  \<open>ordered_map\<close> is the interface the components rely on; the model of the map is
  an association list with strictly ascending keys, and the interpretation \<open>bt\<close>
  shows that it satisfies the interface.
\<close>

section \<open>The interface\<close>

lemma assoc_list_eqI:
  assumes "map fst xs = map fst ys" "set xs = set ys" "distinct (map fst xs)"
  shows "xs = ys"
proof (rule nth_equalityI)
  show len: "length xs = length ys" using assms(1) map_eq_imp_length_eq by blast
  fix i assume i: "i < length xs"
  then have f: "fst (xs ! i) = fst (ys ! i)" using assms(1) len by (metis nth_map)
  have "ys ! i \<in> set xs" using assms(2) i len by simp
  then have "map_of xs (fst (xs ! i)) = Some (snd (ys ! i))"
    using assms(3) f by (metis map_of_is_SomeI prod.collapse)
  moreover have "map_of xs (fst (xs ! i)) = Some (snd (xs ! i))"
    using assms(3) i by (metis map_of_is_SomeI nth_mem prod.collapse)
  ultimately show "xs ! i = ys ! i" using f by (simp add: prod_eq_iff)
qed

locale ordered_map =
  fixes empty :: 'm
    and insert :: "'k::linorder \<Rightarrow> 'v \<Rightarrow> 'm \<Rightarrow> 'm"
    and get :: "'m \<Rightarrow> 'k \<Rightarrow> 'v option"
    and entries :: "'m \<Rightarrow> ('k \<times> 'v) list"
    and wf :: "'m \<Rightarrow> bool"
  assumes wf_empty: "wf empty"
    and wf_insert: "wf m \<Longrightarrow> wf (insert k v m)"
    and get_empty: "get empty = (\<lambda>_. None)"
    and get_insert: "wf m \<Longrightarrow> get (insert k v m) = (get m)(k \<mapsto> v)"
    and entries_sorted: "wf m \<Longrightarrow> sorted_wrt (<) (map fst (entries m))"
    and entries_get: "wf m \<Longrightarrow> map_of (entries m) = get m"
begin

lemma keys_distinct: "wf m \<Longrightarrow> distinct (map fst (entries m))"
  by (rule sorted_map_fst_unique) (rule entries_sorted)

lemma entries_iff: "wf m \<Longrightarrow> (k, v) \<in> set (entries m) \<longleftrightarrow> get m k = Some v"
  by (metis entries_get keys_distinct map_of_eq_Some_iff)

lemma keys_dom: "wf m \<Longrightarrow> set (map fst (entries m)) = dom (get m)"
  by (metis dom_map_of_conv_image_fst entries_get list.set_map)

text \<open>Two maps with the same contents iterate in the same order.\<close>

lemma entries_unique:
  assumes "wf m" "wf m'" "get m = get m'"
  shows "entries m = entries m'"
proof -
  have "map fst (entries m) = map fst (entries m')"
    using assms entries_sorted keys_dom
    by (metis sorted_list_of_set.idem_if_sorted_distinct strict_sorted_iff)
  moreover have "set (entries m) = set (entries m')"
    using assms entries_iff by auto
  ultimately show ?thesis
    using keys_distinct [OF assms(1)] assoc_list_eqI by blast
qed

lemma insert_shadow: "wf m \<Longrightarrow> get (insert k v' (insert k v m)) = get (insert k v' m)"
  by (simp add: get_insert wf_insert)

end

section \<open>The model\<close>

type_synonym ('k, 'v) btmap = "('k \<times> 'v) list"

definition bt_empty :: "('k, 'v) btmap" where
  "bt_empty = []"

fun bt_insert :: "'k::linorder \<Rightarrow> 'v \<Rightarrow> ('k, 'v) btmap \<Rightarrow> ('k, 'v) btmap" where
  "bt_insert k v [] = [(k, v)]"
| "bt_insert k v ((k', v') # m) =
     (if k < k' then (k, v) # (k', v') # m
      else if k = k' then (k, v) # m
      else (k', v') # bt_insert k v m)"

definition bt_get :: "('k, 'v) btmap \<Rightarrow> 'k \<Rightarrow> 'v option" where
  "bt_get m k = map_of m k"

definition bt_entries :: "('k, 'v) btmap \<Rightarrow> ('k \<times> 'v) list" where
  "bt_entries m = m"

definition bt_keys :: "('k, 'v) btmap \<Rightarrow> 'k list" where
  "bt_keys m = map fst m"

definition bt_wf :: "('k::linorder, 'v) btmap \<Rightarrow> bool" where
  "bt_wf m \<longleftrightarrow> sorted_wrt (<) (map fst m)"

definition bt_of_list :: "('k::linorder \<times> 'v) list \<Rightarrow> ('k, 'v) btmap" where
  "bt_of_list kvs = foldl (\<lambda>m (k, v). bt_insert k v m) bt_empty kvs"

lemma bt_insert_keys: "set (map fst (bt_insert k v m)) = insert k (set (map fst m))"
  by (induction k v m rule: bt_insert.induct) auto

lemma bt_wf_insert: "bt_wf m \<Longrightarrow> bt_wf (bt_insert k v m)"
proof (induction k v m rule: bt_insert.induct)
  case (2 k v k' v' m)
  then show ?case
    using bt_insert_keys [of k v m] by (fastforce simp: bt_wf_def)
qed (simp add: bt_wf_def)

lemma map_of_bt_insert: "bt_wf m \<Longrightarrow> map_of (bt_insert k v m) = (map_of m)(k \<mapsto> v)"
  by (induction k v m rule: bt_insert.induct) (auto simp: bt_wf_def fun_eq_iff)

interpretation bt: ordered_map bt_empty bt_insert bt_get bt_entries bt_wf
  by unfold_locales (simp add: bt_wf_def bt_empty_def,
    simp_all add: bt_wf_insert bt_get_def [abs_def] bt_empty_def bt_entries_def map_of_bt_insert,
    simp add: bt_wf_def)

lemmas bt_simps [simp] = bt.get_empty bt.wf_empty

lemma bt_get_insert [simp]:
  "bt_wf m \<Longrightarrow> bt_get (bt_insert k v m) j = (if j = k then Some v else bt_get m j)"
  by (simp add: bt.get_insert)

lemma bt_wf_of_list: "bt_wf (bt_of_list kvs)"
proof -
  have "bt_wf m \<Longrightarrow> bt_wf (foldl (\<lambda>m (k, v). bt_insert k v m) m kvs)" for m
    by (induction kvs arbitrary: m) (auto simp: bt_wf_insert)
  then show ?thesis by (simp add: bt_of_list_def)
qed

lemma bt_get_of_list: "bt_get (bt_of_list kvs) = map_of (rev kvs)"
proof -
  have "bt_wf m \<Longrightarrow>
      bt_get (foldl (\<lambda>m (k, v). bt_insert k v m) m kvs) = bt_get m ++ map_of (rev kvs)" for m
    by (induction kvs arbitrary: m)
      (auto simp: bt_wf_insert bt.get_insert map_add_def fun_eq_iff split: option.splits)
  then show ?thesis by (simp add: bt_of_list_def)
qed

lemma bt_keys_dom: "bt_wf m \<Longrightarrow> set (bt_keys m) = dom (bt_get m)"
  by (metis bt.keys_dom bt_entries_def bt_keys_def)

end
