(* ===== verification/Stats.thy ===== *)
theory Stats
  imports Ordered_Map
begin

text \<open>
  The crate \<open>envoy-stats\<close>: counters, gauges, the registry that hands out shared
  handles to them by name, and the Prometheus text exposition.

  An \<open>Arc<Counter>\<close> or \<open>Arc<Gauge>\<close> is the index of its cell: two handles are
  the same \<open>Arc\<close> iff they are the same index. \<open>stats\<close> holds the registry's name
  map together with the cells it has allocated, so that an increment through a
  handle is visible to every holder of that handle and to the next scrape.
\<close>

section \<open>Counters and gauges (counter.rs, gauge.rs)\<close>

definition counter_new :: u64 where
  "counter_new = 0"

definition counter_add_val :: "u64 \<Rightarrow> u64 \<Rightarrow> u64" where
  "counter_add_val n c = c + n"

definition counter_inc_val :: "u64 \<Rightarrow> u64" where
  "counter_inc_val c = c + 1"

definition counter_value :: "u64 \<Rightarrow> int" where
  "counter_value c = uint c"

definition gauge_new :: i64 where
  "gauge_new = 0"

definition gauge_set_val :: "i64 \<Rightarrow> i64 \<Rightarrow> i64" where
  "gauge_set_val v g = v"

definition gauge_inc_val :: "i64 \<Rightarrow> i64" where
  "gauge_inc_val g = g + 1"

definition gauge_dec_val :: "i64 \<Rightarrow> i64" where
  "gauge_dec_val g = g - 1"

definition gauge_value :: "i64 \<Rightarrow> int" where
  "gauge_value g = sint g"

section \<open>The registry (registry.rs)\<close>

datatype stat_handle = HCounter nat | HGauge nat

fun kind_str :: "stat_handle \<Rightarrow> string" where
  "kind_str (HCounter _) = ''counter''"
| "kind_str (HGauge _) = ''gauge''"

datatype stats_error =
    ConflictingKind string string string
  | InvalidName string string

record stats =
  reg_map :: "(string, stat_handle) btmap"
  counters :: "u64 list"
  gauges :: "i64 list"

definition registry_new :: stats where
  "registry_new = \<lparr>reg_map = bt_empty, counters = [], gauges = []\<rparr>"

definition valid_first :: "char \<Rightarrow> bool" where
  "valid_first c \<longleftrightarrow> is_ascii_alphabetic c \<or> c = CHR ''_'' \<or> c = CHR '':''"

definition valid_rest :: "char \<Rightarrow> bool" where
  "valid_rest c \<longleftrightarrow>
     is_ascii_alphanumeric c \<or> c = CHR ''_'' \<or> c = CHR '':'' \<or> c = CHR ''.'' \<or> c = CHR ''-''"

fun is_valid_name :: "string \<Rightarrow> bool" where
  "is_valid_name [] = False"
| "is_valid_name (c # cs) = (valid_first c \<and> list_all valid_rest cs)"

definition name_rule :: string where
  "name_rule = ''must match [a-zA-Z_:][a-zA-Z0-9_:.-]*''"

definition register_counter :: "string \<Rightarrow> stats \<Rightarrow> (stats_error + nat) \<times> stats" where
  "register_counter name st =
     (if \<not> is_valid_name name then (Inl (InvalidName name name_rule), st)
      else case bt_get (reg_map st) name of
        Some (HCounter a) \<Rightarrow> (Inr a, st)
      | Some (HGauge _) \<Rightarrow> (Inl (ConflictingKind name ''counter'' ''gauge''), st)
      | None \<Rightarrow>
          let a = length (counters st) in
          (Inr a, st\<lparr>reg_map := bt_insert name (HCounter a) (reg_map st),
                     counters := counters st @ [counter_new]\<rparr>))"

definition register_gauge :: "string \<Rightarrow> stats \<Rightarrow> (stats_error + nat) \<times> stats" where
  "register_gauge name st =
     (if \<not> is_valid_name name then (Inl (InvalidName name name_rule), st)
      else case bt_get (reg_map st) name of
        Some (HGauge a) \<Rightarrow> (Inr a, st)
      | Some (HCounter _) \<Rightarrow> (Inl (ConflictingKind name ''gauge'' ''counter''), st)
      | None \<Rightarrow>
          let a = length (gauges st) in
          (Inr a, st\<lparr>reg_map := bt_insert name (HGauge a) (reg_map st),
                     gauges := gauges st @ [gauge_new]\<rparr>))"

definition snapshot :: "stats \<Rightarrow> (string \<times> stat_handle) list" where
  "snapshot st = bt_entries (reg_map st)"

text \<open>The operations through a shared handle.\<close>

definition counter_inc :: "nat \<Rightarrow> stats \<Rightarrow> stats" where
  "counter_inc a st = st\<lparr>counters := (counters st)[a := counter_inc_val (counters st ! a)]\<rparr>"

definition counter_add :: "nat \<Rightarrow> u64 \<Rightarrow> stats \<Rightarrow> stats" where
  "counter_add a n st = st\<lparr>counters := (counters st)[a := counter_add_val n (counters st ! a)]\<rparr>"

definition gauge_set :: "nat \<Rightarrow> i64 \<Rightarrow> stats \<Rightarrow> stats" where
  "gauge_set a v st = st\<lparr>gauges := (gauges st)[a := gauge_set_val v (gauges st ! a)]\<rparr>"

definition gauge_inc :: "nat \<Rightarrow> stats \<Rightarrow> stats" where
  "gauge_inc a st = st\<lparr>gauges := (gauges st)[a := gauge_inc_val (gauges st ! a)]\<rparr>"

definition gauge_dec :: "nat \<Rightarrow> stats \<Rightarrow> stats" where
  "gauge_dec a st = st\<lparr>gauges := (gauges st)[a := gauge_dec_val (gauges st ! a)]\<rparr>"

section \<open>The Prometheus exposition (prometheus.rs)\<close>

definition nl :: string where
  "nl = [CHR 0x0A]"

definition prom_char :: "char \<Rightarrow> char" where
  "prom_char c = (if c = CHR ''.'' \<or> c = CHR ''-'' then CHR ''_'' else c)"

definition to_prometheus_name :: "string \<Rightarrow> string" where
  "to_prometheus_name envoy_name = ''envoy_'' @ map prom_char envoy_name"

definition handle_value :: "stats \<Rightarrow> stat_handle \<Rightarrow> int" where
  "handle_value st h = (case h of HCounter a \<Rightarrow> counter_value (counters st ! a)
                                | HGauge a \<Rightarrow> gauge_value (gauges st ! a))"

definition expose_one :: "stats \<Rightarrow> string \<times> stat_handle \<Rightarrow> string" where
  "expose_one st nh =
     (let prom_name = to_prometheus_name (fst nh); kind = kind_str (snd nh) in
      ''# HELP '' @ prom_name @ '' envoy-rust '' @ kind @ ''.'' @ nl @
      ''# TYPE '' @ prom_name @ '' '' @ kind @ nl @
      prom_name @ '' '' @ show_int (handle_value st (snd nh)) @ nl)"

definition write_exposition :: "stats \<Rightarrow> string" where
  "write_exposition st = concat (map (expose_one st) (snapshot st))"

section \<open>Well-formedness and observation\<close>

text \<open>
  \<open>stats_wf\<close>: names are valid and in order, every handle points to an allocated
  cell, and no two names share a cell.
\<close>

definition handle_ok :: "stats \<Rightarrow> stat_handle \<Rightarrow> bool" where
  "handle_ok st h = (case h of HCounter a \<Rightarrow> a < length (counters st)
                             | HGauge a \<Rightarrow> a < length (gauges st))"

definition stats_wf :: "stats \<Rightarrow> bool" where
  "stats_wf st \<longleftrightarrow> bt_wf (reg_map st)
     \<and> (\<forall>n h. bt_get (reg_map st) n = Some h \<longrightarrow> is_valid_name n \<and> handle_ok st h)
     \<and> (\<forall>n m h. bt_get (reg_map st) n = Some h \<longrightarrow> bt_get (reg_map st) m = Some h \<longrightarrow> n = m)"

definition stat_value :: "stats \<Rightarrow> string \<Rightarrow> int option" where
  "stat_value st n = map_option (handle_value st) (bt_get (reg_map st) n)"

lemma stats_wf_new [wf_keep]: "stats_wf registry_new"
  by (simp add: stats_wf_def registry_new_def)

lemma handle_ok_mono:
  "handle_ok st h \<Longrightarrow> length (counters st) \<le> length (counters st') \<Longrightarrow>
   length (gauges st) \<le> length (gauges st') \<Longrightarrow> handle_ok st' h"
  by (auto simp: handle_ok_def split: stat_handle.splits)

lemma wf_handle_ok: "stats_wf st \<Longrightarrow> bt_get (reg_map st) n = Some h \<Longrightarrow> handle_ok st h"
  by (simp add: stats_wf_def)

lemma fresh_handle:
  assumes "stats_wf st"
  shows "bt_get (reg_map st) n \<noteq> Some (HCounter (length (counters st)))"
    and "bt_get (reg_map st) n \<noteq> Some (HGauge (length (gauges st)))"
  using wf_handle_ok [OF assms, of n] by (auto simp: handle_ok_def)

lemma register_counter_wf [wf_keep]:
  assumes "stats_wf st" shows "stats_wf (snd (register_counter n st))"
proof (cases "is_valid_name n \<and> bt_get (reg_map st) n = None")
  case True
  with assms fresh_handle [OF assms] show ?thesis
    by (auto simp: register_counter_def Let_def stats_wf_def bt_wf_insert handle_ok_def
        split: stat_handle.splits intro: less_SucI)
next
  case False
  with assms show ?thesis
    by (auto simp: register_counter_def split: option.splits stat_handle.splits)
qed

lemma register_gauge_wf [wf_keep]:
  assumes "stats_wf st" shows "stats_wf (snd (register_gauge n st))"
proof (cases "is_valid_name n \<and> bt_get (reg_map st) n = None")
  case True
  with assms fresh_handle [OF assms] show ?thesis
    by (auto simp: register_gauge_def Let_def stats_wf_def bt_wf_insert handle_ok_def
        split: stat_handle.splits intro: less_SucI)
next
  case False
  with assms show ?thesis
    by (auto simp: register_gauge_def split: option.splits stat_handle.splits)
qed

lemma cell_update_wf:
  assumes "stats_wf st" "reg_map st' = reg_map st"
    "length (counters st') = length (counters st)" "length (gauges st') = length (gauges st)"
  shows "stats_wf st'"
  using assms handle_ok_mono [of st _ st'] by (simp add: stats_wf_def)

lemma cell_ops_wf [wf_keep]:
  assumes "stats_wf st"
  shows "stats_wf (counter_inc a st)" "stats_wf (counter_add a k st)"
    "stats_wf (gauge_set a v st)" "stats_wf (gauge_inc a st)" "stats_wf (gauge_dec a st)"
  using assms
  by (auto simp: counter_inc_def counter_add_def gauge_set_def gauge_inc_def gauge_dec_def
      intro: cell_update_wf)

section \<open>Isolation: what each operation changes\<close>

lemma handle_value_append:
  "handle_ok st h \<Longrightarrow> handle_value (st\<lparr>counters := counters st @ cs, gauges := gauges st @ gs\<rparr>) h
     = handle_value st h"
  by (auto simp: handle_value_def handle_ok_def nth_append split: stat_handle.splits)

lemma register_counter_value [obs_simps]:
  assumes "stats_wf st"
  shows "stat_value (snd (register_counter n st)) m =
    (if m = n \<and> is_valid_name n \<and> bt_get (reg_map st) n = None then Some 0 else stat_value st m)"
  using assms wf_handle_ok [OF assms, of m]
  by (cases "bt_get (reg_map st) m")
    (auto simp: register_counter_def stat_value_def Let_def stats_wf_def handle_value_def
      handle_ok_def counter_value_def counter_new_def nth_append
      split: option.splits stat_handle.splits)

lemma register_gauge_value [obs_simps]:
  assumes "stats_wf st"
  shows "stat_value (snd (register_gauge n st)) m =
    (if m = n \<and> is_valid_name n \<and> bt_get (reg_map st) n = None then Some 0 else stat_value st m)"
  using assms wf_handle_ok [OF assms, of m]
  by (cases "bt_get (reg_map st) m")
    (auto simp: register_gauge_def stat_value_def Let_def stats_wf_def handle_value_def
      handle_ok_def gauge_value_def gauge_new_def nth_append
      split: option.splits stat_handle.splits)

lemma counter_cell_value:
  assumes "stats_wf st" "bt_get (reg_map st) n = Some (HCounter a)"
  shows "stat_value (st\<lparr>counters := (counters st)[a := c]\<rparr>) m =
    (if m = n then Some (uint c) else stat_value st m)"
  using assms wf_handle_ok [OF assms]
  by (cases "bt_get (reg_map st) m")
    (auto simp: stat_value_def stats_wf_def handle_value_def handle_ok_def counter_value_def
      nth_list_update split: stat_handle.splits)

lemma gauge_cell_value:
  assumes "stats_wf st" "bt_get (reg_map st) n = Some (HGauge a)"
  shows "stat_value (st\<lparr>gauges := (gauges st)[a := c]\<rparr>) m =
    (if m = n then Some (sint c) else stat_value st m)"
  using assms wf_handle_ok [OF assms]
  by (cases "bt_get (reg_map st) m")
    (auto simp: stat_value_def stats_wf_def handle_value_def handle_ok_def gauge_value_def
      nth_list_update split: stat_handle.splits)

section \<open>Properties of the registry\<close>

lemma register_counter_handle:
  assumes "stats_wf st" "register_counter n st = (Inr a, st')"
  shows "bt_get (reg_map st') n = Some (HCounter a)"
  using assms
  by (auto simp: register_counter_def Let_def stats_wf_def
      split: if_splits option.splits stat_handle.splits)

lemma register_valid: "register_counter n st = (Inr a, st') \<Longrightarrow> is_valid_name n"
  by (auto simp: register_counter_def split: if_splits)

text \<open>
  Registration is idempotent: once a counter has been registered under a
  name, registering that name again returns the same handle and changes
  nothing, however many stats are registered or bumped in between as long as the
  name map keeps the entry.
\<close>

theorem register_counter_idempotent:
  assumes "stats_wf st" and "register_counter n st = (Inr a, st')"
    and "bt_get (reg_map st'') n = bt_get (reg_map st') n"
  shows "register_counter n st'' = (Inr a, st'')"
  using register_counter_handle [OF assms(1,2)] register_valid [OF assms(2)] assms(3)
  by (simp add: register_counter_def)

theorem register_counter_idempotent_witness:
  "stats_wf registry_new \<and>
   register_counter ''a.b'' (snd (register_counter ''a.b'' registry_new)) =
     (Inr 0, snd (register_counter ''a.b'' registry_new))"
proof -
  have r: "register_counter ''a.b'' registry_new = (Inr 0, snd (register_counter ''a.b'' registry_new))"
    by (simp add: register_counter_def registry_new_def Let_def valid_first_def valid_rest_def
        is_ascii_alphabetic_def is_ascii_alphanumeric_def is_ascii_lowercase_def
        is_ascii_uppercase_def byte_of_def)
  show ?thesis
    using register_counter_idempotent [OF stats_wf_new r refl] stats_wf_new by simp
qed

text \<open>
  Handles are isolated: adding to a counter through the handle registered
  for \<open>n\<close> adds to the value of \<open>n\<close> (modulo \<open>2^64\<close>, as \<open>fetch_add\<close> wraps) and
  leaves the value of every other stat as it was.
\<close>

theorem counter_add_isolated:
  assumes "stats_wf st" and "register_counter n st = (Inr a, st')"
  shows "stat_value (counter_add a k st') m =
    (if m = n then map_option (\<lambda>v. (v + uint k) mod 2 ^ 64) (stat_value st' n)
     else stat_value st m)"
proof -
  have wf': "stats_wf st'" using register_counter_wf [OF assms(1), of n] assms(2) by simp
  note h = register_counter_handle [OF assms]
  have "stat_value st' m = stat_value st m" if "m \<noteq> n"
    using register_counter_value [OF assms(1), of n m] assms(2) that by simp
  moreover have "stat_value st' n = Some (uint (counters st' ! a))"
    using h by (simp add: stat_value_def handle_value_def counter_value_def)
  ultimately show ?thesis
    using counter_cell_value [OF wf' h]
    by (simp add: counter_add_def counter_add_val_def uint_word_ariths)
qed

theorem counter_add_isolated_witness:
  "stat_value (counter_add 0 5 (snd (register_counter ''c'' registry_new))) ''c'' = Some 5"
proof -
  have r: "register_counter ''c'' registry_new = (Inr 0, snd (register_counter ''c'' registry_new))"
    and v: "stat_value (snd (register_counter ''c'' registry_new)) ''c'' = Some 0"
    by (simp_all add: register_counter_def registry_new_def Let_def valid_first_def
        is_ascii_alphabetic_def is_ascii_lowercase_def is_ascii_uppercase_def byte_of_def
        stat_value_def handle_value_def counter_value_def counter_new_def)
  show ?thesis
    using counter_add_isolated [OF stats_wf_new r, of 5 "''c''"] v by simp
qed

text \<open>
  A failed registration (invalid name, or the name taken by the other kind)
  leaves the registry untouched, and a name never changes kind: whatever is
  registered afterwards, a counter stays the same counter.
\<close>

theorem register_error_no_effect:
  assumes "stats_wf st"
  shows "(\<forall>e st'. register_counter n st = (Inl e, st') \<longrightarrow> st' = st)
    \<and> (\<forall>e st'. register_gauge n st = (Inl e, st') \<longrightarrow> st' = st)
    \<and> (\<forall>m h. bt_get (reg_map st) m = Some h \<longrightarrow>
        bt_get (reg_map (snd (register_counter n st))) m = Some h
        \<and> bt_get (reg_map (snd (register_gauge n st))) m = Some h)"
  using assms
  by (auto simp: register_counter_def register_gauge_def Let_def stats_wf_def
      split: if_splits option.splits stat_handle.splits)

theorem register_error_no_effect_witness:
  "stats_wf registry_new \<and> register_counter [] registry_new = (Inl (InvalidName [] name_rule), registry_new)"
proof -
  have r: "register_counter [] registry_new =
      (Inl (InvalidName [] name_rule), snd (register_counter [] registry_new))"
    by (simp add: register_counter_def)
  have "snd (register_counter [] registry_new) = registry_new"
    using register_error_no_effect [OF stats_wf_new, of "[]"] r by blast
  with r show ?thesis by (simp add: stats_wf_new)
qed

section \<open>Properties of the exposition\<close>

text \<open>A name accepted by the registry is translated to a Prometheus metric name.\<close>

definition prom_valid_rest :: "char \<Rightarrow> bool" where
  "prom_valid_rest c \<longleftrightarrow> is_ascii_alphanumeric c \<or> c = CHR ''_'' \<or> c = CHR '':''"

lemma prom_char_valid: "valid_rest c \<Longrightarrow> prom_valid_rest (prom_char c)"
  by (auto simp: valid_rest_def prom_valid_rest_def prom_char_def)

lemma valid_first_rest: "valid_first c \<Longrightarrow> valid_rest c"
  by (auto simp: valid_first_def valid_rest_def is_ascii_alphanumeric_def)

lemma to_prometheus_name_valid:
  assumes "is_valid_name n"
  shows "starts_with (to_prometheus_name n) ''envoy_''"
    and "list_all prom_valid_rest (to_prometheus_name n)"
proof -
  have "list_all prom_valid_rest (map prom_char n)"
    using assms by (cases n) (auto simp: list_all_iff prom_char_valid valid_first_rest)
  moreover have "list_all prom_valid_rest ''envoy_''" by code_simp
  ultimately show "list_all prom_valid_rest (to_prometheus_name n)"
    by (simp add: to_prometheus_name_def)
  show "starts_with (to_prometheus_name n) ''envoy_''"
    by (simp add: to_prometheus_name_def starts_with_def)
qed

text \<open>
  The scrape lists the stats in strictly ascending name order, lists exactly
  the registered names with their current values, and every metric name it
  prints is \<open>envoy_\<close> followed by characters of \<open>[a-zA-Z0-9_:]\<close> only.
\<close>

theorem exposition_sound:
  assumes "stats_wf st"
  shows "sorted_wrt (<) (map fst (snapshot st))
    \<and> (\<forall>n h. (n, h) \<in> set (snapshot st) \<longleftrightarrow> bt_get (reg_map st) n = Some h)
    \<and> (\<forall>(n, h) \<in> set (snapshot st). starts_with (to_prometheus_name n) ''envoy_''
         \<and> list_all prom_valid_rest (to_prometheus_name n))"
proof (intro conjI allI ballI)
  have wf: "bt_wf (reg_map st)" using assms by (simp add: stats_wf_def)
  show "sorted_wrt (<) (map fst (snapshot st))"
    using wf by (simp add: snapshot_def bt.entries_sorted)
  show iff: "(n, h) \<in> set (snapshot st) \<longleftrightarrow> bt_get (reg_map st) n = Some h" for n h
    using wf by (simp add: snapshot_def bt.entries_iff)
  fix nh assume a: "nh \<in> set (snapshot st)"
  obtain n h where nh: "nh = (n, h)" by force
  with a have "is_valid_name n" using assms iff by (simp add: stats_wf_def)
  with nh show "case nh of (n, h) \<Rightarrow> starts_with (to_prometheus_name n) ''envoy_''
      \<and> list_all prom_valid_rest (to_prometheus_name n)"
    by (simp add: to_prometheus_name_valid)
qed

theorem exposition_sound_witness:
  "stats_wf (snd (register_counter ''a.b'' registry_new)) \<and>
   snapshot (snd (register_counter ''a.b'' registry_new)) = [(''a.b'', HCounter 0)] \<and>
   to_prometheus_name ''a.b'' = ''envoy_a_b'' \<and>
   sorted_wrt (<) (map fst (snapshot (snd (register_counter ''a.b'' registry_new))))"
proof -
  let ?st = "snd (register_counter ''a.b'' registry_new)"
  have wf: "stats_wf ?st" by (rule register_counter_wf [OF stats_wf_new])
  moreover have "snapshot ?st = [(''a.b'', HCounter 0)]" by code_simp
  moreover have "to_prometheus_name ''a.b'' = ''envoy_a_b''" by code_simp
  ultimately show ?thesis using exposition_sound [OF wf] by blast
qed

end
