(* ===== verification/Edge_Gauge.thy ===== *)
theory Edge_Gauge
  imports Stats
begin

text \<open>
  A cluster-level gauge shared by per-endpoint state machines, each of which
  bumps it only on the edges of its own flag. \<open>membership_healthy\<close> (health.rs) and
  \<open>ejections_active\<close> (ejection.rs) are both kept this way: nobody ever recounts.

  The locale states what such a machine promises about one step; inside it, the
  gauge is shown to be the number of raised flags after any interleaving of steps
  of any endpoints.
\<close>

definition flag_edge :: "bool \<Rightarrow> bool \<Rightarrow> i64 \<Rightarrow> i64" where
  "flag_edge before after g =
     (if after \<and> \<not> before then gauge_inc_val g
      else if before \<and> \<not> after then gauge_dec_val g else g)"

definition member_step :: "('e \<Rightarrow> 's \<times> i64 \<Rightarrow> 's \<times> i64) \<Rightarrow> nat \<times> 'e \<Rightarrow> 's list \<times> i64 \<Rightarrow> 's list \<times> i64"
where
  "member_step step ie m =
     (if fst ie < length (fst m)
      then let (s', g') = step (snd ie) (fst m ! fst ie, snd m) in ((fst m)[fst ie := s'], g')
      else m)"

definition member_run :: "('e \<Rightarrow> 's \<times> i64 \<Rightarrow> 's \<times> i64) \<Rightarrow> (nat \<times> 'e) list \<Rightarrow> 's list \<times> i64 \<Rightarrow> 's list \<times> i64"
where
  "member_run step ies m = fold (member_step step) ies m"

definition raised :: "('s \<Rightarrow> bool) \<Rightarrow> 's list \<Rightarrow> nat" where
  "raised flag ss = length (filter flag ss)"

lemma raised_le: "raised flag ss \<le> length ss"
  by (simp add: raised_def)

lemma of_nat_raised_update:
  assumes "i < length ss"
  shows "(of_nat (raised flag (ss[i := s'])) :: i64) =
    flag_edge (flag (ss ! i)) (flag s') (of_nat (raised flag ss))"
proof -
  have "int (raised flag (ss[i := s'])) =
      int (raised flag ss) + (if flag s' then 1 else 0) - (if flag (ss ! i) then 1 else 0)"
    unfolding raised_def by (rule length_filter_update [OF assms])
  then have "(of_int (int (raised flag (ss[i := s']))) :: i64) =
      of_int (int (raised flag ss) + (if flag s' then 1 else 0) - (if flag (ss ! i) then 1 else 0))"
    by (rule arg_cong)
  then show ?thesis
    by (auto simp: flag_edge_def gauge_inc_val_def gauge_dec_val_def)
qed

lemma gauge_value_of_nat: "n < 2 ^ 63 \<Longrightarrow> gauge_value (of_nat n) = int n"
  by (simp add: gauge_value_def signed_of_nat signed_take_bit_int_eq_self)

locale edge_gauge =
  fixes flag :: "'s \<Rightarrow> bool"
    and step :: "'e \<Rightarrow> 's \<times> i64 \<Rightarrow> 's \<times> i64"
  assumes step_edge: "snd (step e (s, g)) = flag_edge (flag s) (flag (fst (step e (s, g)))) g"
begin

lemma member_step_counts:
  assumes "snd m = of_nat (raised flag (fst m))"
  shows "snd (member_step step ie m) = of_nat (raised flag (fst (member_step step ie m)))
    \<and> length (fst (member_step step ie m)) = length (fst m)"
proof (cases "fst ie < length (fst m)")
  case True
  obtain s' g' where st: "step (snd ie) (fst m ! fst ie, snd m) = (s', g')" by fastforce
  with step_edge [of "snd ie" "fst m ! fst ie" "snd m"]
  have "g' = flag_edge (flag (fst m ! fst ie)) (flag s') (snd m)" by simp
  with True st assms of_nat_raised_update [OF True, of flag s'] show ?thesis
    by (simp add: member_step_def)
next
  case False
  with assms show ?thesis by (simp add: member_step_def)
qed

lemma member_run_counts:
  assumes "snd m = of_nat (raised flag (fst m))"
  shows "snd (member_run step ies m) = of_nat (raised flag (fst (member_run step ies m)))
    \<and> length (fst (member_run step ies m)) = length (fst m)"
  using assms
proof (induction ies arbitrary: m)
  case Nil
  then show ?case by (simp add: member_run_def)
next
  case (Cons ie ies)
  from member_step_counts [OF Cons.prems, of ie]
    Cons.IH [of "member_step step ie m"]
  show ?case by (simp add: member_run_def)
qed

text \<open>The gauge reads as the number of raised flags.\<close>

lemma gauge_is_count:
  assumes "snd m = of_nat (raised flag (fst m))" "length (fst m) < 2 ^ 63"
  shows "gauge_value (snd (member_run step ies m)) =
    int (raised flag (fst (member_run step ies m)))"
proof -
  note c = member_run_counts [OF assms(1), of ies]
  have "raised flag (fst (member_run step ies m)) < 2 ^ 63"
    using c assms(2) raised_le [of flag "fst (member_run step ies m)"] by simp
  with c show ?thesis by (simp add: gauge_value_of_nat)
qed

end

end
