(* ===== verification/Health.thy ===== *)
theory Health
  imports Edge_Gauge
begin

text \<open>
  \<open>envoy-cluster/src/health.rs\<close>: the active-health-check state of one endpoint,
  driven by one probe task, with the cluster's shared \<open>membership_healthy\<close> gauge.
  Counters are \<open>u32\<close> and wrap, as \<open>fetch_add\<close> does.
\<close>

section \<open>State and operations\<close>

record endpoint_health =
  h_healthy :: bool
  consecutive_success :: u32
  consecutive_failure :: u32
  healthy_threshold :: u32
  unhealthy_threshold :: u32

definition health_new :: "u32 \<Rightarrow> u32 \<Rightarrow> endpoint_health" where
  "health_new ht ut =
     \<lparr>h_healthy = False, consecutive_success = 0, consecutive_failure = 0,
      healthy_threshold = ht, unhealthy_threshold = ut\<rparr>"

definition record_success :: "endpoint_health \<times> i64 \<Rightarrow> endpoint_health \<times> i64" where
  "record_success hg =
     (let (h, g) = hg;
          n = consecutive_success h + 1;
          h' = h\<lparr>consecutive_failure := 0, consecutive_success := n\<rparr>
      in if \<not> h_healthy h \<and> healthy_threshold h \<le> n
         then (h'\<lparr>h_healthy := True\<rparr>, gauge_inc_val g)
         else (h', g))"

definition record_failure :: "endpoint_health \<times> i64 \<Rightarrow> endpoint_health \<times> i64" where
  "record_failure hg =
     (let (h, g) = hg;
          n = consecutive_failure h + 1;
          h' = h\<lparr>consecutive_success := 0, consecutive_failure := n\<rparr>
      in if h_healthy h \<and> unhealthy_threshold h \<le> n
         then (h'\<lparr>h_healthy := False\<rparr>, gauge_dec_val g)
         else (h', g))"

definition is_healthy :: "endpoint_health \<Rightarrow> bool" where
  "is_healthy h = h_healthy h"

datatype probe = ProbeSuccess | ProbeFailure

fun health_step :: "probe \<Rightarrow> endpoint_health \<times> i64 \<Rightarrow> endpoint_health \<times> i64" where
  "health_step ProbeSuccess hg = record_success hg"
| "health_step ProbeFailure hg = record_failure hg"

interpretation hg: edge_gauge is_healthy health_step
proof
  fix e s g
  show "snd (health_step e (s, g)) =
      flag_edge (is_healthy s) (is_healthy (fst (health_step e (s, g)))) g"
    by (cases e) (auto simp: record_success_def record_failure_def flag_edge_def is_healthy_def Let_def)
qed

section \<open>The shared gauge\<close>

lemma fresh_cluster_gauge:
  "snd (replicate n (health_new ht ut), gauge_new) =
     of_nat (raised is_healthy (fst (replicate n (health_new ht ut), gauge_new)))"
  by (simp add: raised_def health_new_def is_healthy_def gauge_new_def)

text \<open>
  After any interleaving of probe results of a cluster's endpoints, starting from
  the state \<open>from_bootstrap\<close> builds, \<open>membership_healthy\<close> reads exactly the number
  of endpoints that \<open>pick\<close> sees as healthy.
\<close>

theorem membership_healthy_counts:
  assumes "n < 2 ^ 63"
    and "(hs, g) = member_run health_step ies (replicate n (health_new ht ut), gauge_new)"
  shows "gauge_value g = int (length (filter is_healthy hs)) \<and> length hs = n"
proof -
  let ?m = "(replicate n (health_new ht ut), gauge_new)"
  note f = fresh_cluster_gauge [of n ht ut]
  have "gauge_value (snd (member_run health_step ies ?m)) =
      int (raised is_healthy (fst (member_run health_step ies ?m)))"
    using assms(1) by (intro hg.gauge_is_count f) simp
  moreover have "length (fst (member_run health_step ies ?m)) = n"
    using hg.member_run_counts [OF f, of ies] by simp
  ultimately show ?thesis using assms(2) [symmetric] by (simp add: raised_def)
qed

theorem membership_healthy_counts_witness:
  "\<exists>hs g. (hs, g) = member_run health_step [(0, ProbeSuccess), (1, ProbeFailure), (0, ProbeSuccess)]
      (replicate 2 (health_new 2 3), gauge_new) \<and> gauge_value g = int (length (filter is_healthy hs))"
proof -
  have n: "(2 :: nat) < 2 ^ 63" by simp
  obtain hs g where r: "(hs, g) = member_run health_step
      [(0, ProbeSuccess), (1, ProbeFailure), (0, ProbeSuccess)]
      (replicate 2 (health_new 2 3), gauge_new)" by (metis surj_pair)
  show ?thesis using membership_healthy_counts [OF n r] r by blast
qed

section \<open>Thresholds and hysteresis\<close>

definition health_run :: "u32 \<Rightarrow> u32 \<Rightarrow> probe list \<Rightarrow> endpoint_health" where
  "health_run ht ut es = fst (fold health_step es (health_new ht ut, gauge_new))"

definition streak :: "probe \<Rightarrow> probe list \<Rightarrow> nat" where
  "streak e es = length (takeWhile (\<lambda>x. x = e) (rev es))"

lemma streak_snoc: "streak e (es @ [x]) = (if x = e then Suc (streak e es) else 0)"
  by (simp add: streak_def)

lemma streak_le: "streak e es \<le> length es"
  by (metis length_rev length_takeWhile_le streak_def)

lemma health_run_snoc:
  "\<exists>g. health_run ht ut (es @ [e]) = fst (health_step e (health_run ht ut es, g))"
  by (auto simp: health_run_def intro: exI [of _ "snd (fold health_step es (health_new ht ut, gauge_new))"])

lemma health_run_counters:
  assumes "length es < 2 ^ 32"
  shows "unat (consecutive_success (health_run ht ut es)) = streak ProbeSuccess es
    \<and> unat (consecutive_failure (health_run ht ut es)) = streak ProbeFailure es
    \<and> healthy_threshold (health_run ht ut es) = ht \<and> unhealthy_threshold (health_run ht ut es) = ut"
  using assms
proof (induction es rule: rev_induct)
  case Nil
  then show ?case by (simp add: health_run_def health_new_def streak_def)
next
  case (snoc e es)
  obtain g where g: "health_run ht ut (es @ [e]) = fst (health_step e (health_run ht ut es, g))"
    using health_run_snoc by blast
  have "streak ProbeSuccess es < 2 ^ 32 - 1" "streak ProbeFailure es < 2 ^ 32 - 1"
    using snoc.prems streak_le [of ProbeSuccess es] streak_le [of ProbeFailure es] by simp_all
  with snoc show ?case
    unfolding g by (cases e) (auto simp: record_success_def record_failure_def Let_def streak_snoc
        unat_word_ariths)
qed

lemma health_starts_unhealthy: "\<not> is_healthy (health_run ht ut [])"
  by (simp add: health_run_def health_new_def is_healthy_def)

text \<open>
  C35. Hysteresis, as a function of the probe history: a success makes the endpoint
  healthy exactly when it already was or the run of successes ending here has
  reached \<open>healthy_threshold\<close>; a failure keeps a healthy endpoint healthy exactly
  while the run of failures is below \<open>unhealthy_threshold\<close>. The endpoint starts
  unhealthy. (The history is shorter than \<open>2^32\<close> probes, where the \<open>u32\<close>
  counters wrap.)
\<close>

theorem health_hysteresis:
  assumes "length (es @ [e]) < 2 ^ 32"
  shows "is_healthy (health_run ht ut (es @ [e])) \<longleftrightarrow>
      (case e of
         ProbeSuccess \<Rightarrow> is_healthy (health_run ht ut es) \<or> unat ht \<le> streak ProbeSuccess (es @ [e])
       | ProbeFailure \<Rightarrow> is_healthy (health_run ht ut es) \<and> streak ProbeFailure (es @ [e]) < unat ut)"
proof -
  obtain g where g: "health_run ht ut (es @ [e]) = fst (health_step e (health_run ht ut es, g))"
    using health_run_snoc by blast
  have len: "length es < 2 ^ 32 - 1" using assms by simp
  then have c: "unat (consecutive_success (health_run ht ut es)) = streak ProbeSuccess es"
    "unat (consecutive_failure (health_run ht ut es)) = streak ProbeFailure es"
    "healthy_threshold (health_run ht ut es) = ht" "unhealthy_threshold (health_run ht ut es) = ut"
    using health_run_counters [of es ht ut] by simp_all
  have "unat (consecutive_success (health_run ht ut es) + 1) = Suc (streak ProbeSuccess es)"
    "unat (consecutive_failure (health_run ht ut es) + 1) = Suc (streak ProbeFailure es)"
    using c(1,2) len streak_le [of ProbeSuccess es] streak_le [of ProbeFailure es]
    by (simp_all add: unat_word_ariths)
  then show "is_healthy (health_run ht ut (es @ [e])) \<longleftrightarrow>
      (case e of
         ProbeSuccess \<Rightarrow> is_healthy (health_run ht ut es) \<or> unat ht \<le> streak ProbeSuccess (es @ [e])
       | ProbeFailure \<Rightarrow> is_healthy (health_run ht ut es) \<and> streak ProbeFailure (es @ [e]) < unat ut)"
    using c unfolding g by (cases e) (auto simp: record_success_def record_failure_def Let_def streak_snoc
        is_healthy_def word_le_nat_alt)
qed

theorem health_hysteresis_witness:
  "is_healthy (health_run 2 3 [ProbeFailure, ProbeSuccess, ProbeSuccess])
   \<and> \<not> is_healthy (health_run 2 3 [])"
proof -
  have len: "length ([ProbeFailure, ProbeSuccess] @ [ProbeSuccess]) < 2 ^ 32" by simp
  have "2 \<le> streak ProbeSuccess ([ProbeFailure, ProbeSuccess] @ [ProbeSuccess])"
    by (simp add: streak_def)
  then show ?thesis
    using health_hysteresis [OF len, of 2 3] health_starts_unhealthy by simp
qed

end
