(* ===== verification/Outlier.thy ===== *)
theory Outlier
  imports Edge_Gauge
begin

text \<open>
  Passive outlier detection: \<open>envoy-cluster/src/ejection.rs\<close> (the per-endpoint
  state machine), \<open>Cluster::record_response\<close> of \<open>cluster.rs\<close> (the cap on ejected
  endpoints) and \<open>outlier.rs\<close> (the sweeper that lifts ejections).

  An \<open>Instant\<close> is a \<^typ>\<open>nat\<close> number of ticks; \<open>t.elapsed()\<close> is \<open>now - t\<close>. The
  stat handles shared by a cluster's endpoints are the record \<open>ejection_stats\<close>.
\<close>

section \<open>One endpoint (ejection.rs)\<close>

record ejection_stats =
  ejections_active :: i64
  ejections_enforced_total :: u64
  ejections_detected_5xx :: u64
  ejections_enforced_5xx :: u64
  ejections_detected_gateway_failure :: u64
  ejections_enforced_gateway_failure :: u64

datatype DetectorType = Consecutive5xx | ConsecutiveGatewayFailure

record EjectionDecision =
  crossed_5xx :: bool
  crossed_gateway_failure :: bool

definition decision_any :: "EjectionDecision \<Rightarrow> bool" where
  "decision_any d \<longleftrightarrow> crossed_5xx d \<or> crossed_gateway_failure d"

definition no_decision :: EjectionDecision where
  "no_decision = \<lparr>crossed_5xx = False, crossed_gateway_failure = False\<rparr>"

record endpoint_ejection =
  ejected :: bool
  consecutive_5xx :: u32
  consecutive_gf :: u32
  threshold_5xx :: u32
  threshold_gf :: u32
  ejected_at :: "nat option"

definition ejection_new :: "u32 \<Rightarrow> u32 \<Rightarrow> endpoint_ejection" where
  "ejection_new t5 tg =
     \<lparr>ejected = False, consecutive_5xx = 0, consecutive_gf = 0,
      threshold_5xx = t5, threshold_gf = tg, ejected_at = None\<rparr>"

definition is_gateway_failure :: "nat \<Rightarrow> bool" where
  "is_gateway_failure status \<longleftrightarrow> 502 \<le> status \<and> status \<le> 504"

definition ej_record_response :: "nat \<Rightarrow> endpoint_ejection \<times> ejection_stats
    \<Rightarrow> EjectionDecision \<times> endpoint_ejection \<times> ejection_stats" where
  "ej_record_response status es =
     (let (ep, st) = es in
      if ejected ep then (no_decision, ep, st)
      else if status div 100 = 5 then
        let n5 = consecutive_5xx ep + 1;
            c5 = (0 < threshold_5xx ep \<and> threshold_5xx ep \<le> n5);
            gf = is_gateway_failure status;
            ngf = consecutive_gf ep + 1;
            cgf = (gf \<and> 0 < threshold_gf ep \<and> threshold_gf ep \<le> ngf);
            ep' = ep\<lparr>consecutive_5xx := n5,
                     consecutive_gf := (if gf then ngf else consecutive_gf ep)\<rparr>;
            st' = (if c5 then st\<lparr>ejections_detected_5xx := counter_inc_val (ejections_detected_5xx st)\<rparr>
                   else st);
            st'' = (if cgf then st'\<lparr>ejections_detected_gateway_failure :=
                       counter_inc_val (ejections_detected_gateway_failure st')\<rparr> else st')
        in (\<lparr>crossed_5xx = c5, crossed_gateway_failure = cgf\<rparr>, ep', st'')
      else (no_decision, ep\<lparr>consecutive_5xx := 0, consecutive_gf := 0\<rparr>, st))"

definition eject :: "DetectorType \<Rightarrow> endpoint_ejection \<times> ejection_stats
    \<Rightarrow> endpoint_ejection \<times> ejection_stats" where
  "eject detector es =
     (let (ep, st) = es; ep' = ep\<lparr>ejected := True\<rparr> in
      if ejected ep then (ep', st)
      else
        let st' = st\<lparr>ejections_active := gauge_inc_val (ejections_active st),
                     ejections_enforced_total := counter_inc_val (ejections_enforced_total st)\<rparr>
        in (ep', case detector of
              Consecutive5xx \<Rightarrow>
                st'\<lparr>ejections_enforced_5xx := counter_inc_val (ejections_enforced_5xx st')\<rparr>
            | ConsecutiveGatewayFailure \<Rightarrow>
                st'\<lparr>ejections_enforced_gateway_failure :=
                      counter_inc_val (ejections_enforced_gateway_failure st')\<rparr>))"

definition try_un_eject :: "endpoint_ejection \<times> ejection_stats
    \<Rightarrow> bool \<times> endpoint_ejection \<times> ejection_stats" where
  "try_un_eject es =
     (let (ep, st) = es in
      if ejected ep then
        (True, ep\<lparr>ejected := False, consecutive_5xx := 0, consecutive_gf := 0\<rparr>,
         st\<lparr>ejections_active := gauge_dec_val (ejections_active st)\<rparr>)
      else (False, ep\<lparr>ejected := False\<rparr>, st))"

section \<open>The cluster (cluster.rs, outlier.rs)\<close>

record outlier_detection =
  od_endpoints :: "endpoint_ejection list"
  max_ejection_percent :: nat
  ejections_overflow :: u64
  od_base_ejection_time :: nat
  od_interval_len :: nat
  od_stats :: ejection_stats

definition active_count :: "outlier_detection \<Rightarrow> nat" where
  "active_count od = length (filter ejected (od_endpoints od))"

definition cap_count :: "nat \<Rightarrow> outlier_detection \<Rightarrow> nat" where
  "cap_count host_count od = (host_count * max_ejection_percent od) div 100"

definition od_put :: "nat \<Rightarrow> endpoint_ejection \<times> ejection_stats \<Rightarrow> outlier_detection \<Rightarrow> outlier_detection"
where
  "od_put i es od = od\<lparr>od_endpoints := (od_endpoints od)[i := fst es], od_stats := snd es\<rparr>"

text \<open>
  \<open>Cluster::record_response\<close> from the point where the endpoint's index is known:
  record, check the cap, eject and stamp, all under the endpoint's lock.
\<close>

definition od_record_at :: "nat \<Rightarrow> nat \<Rightarrow> nat \<Rightarrow> nat \<Rightarrow> outlier_detection \<Rightarrow> outlier_detection" where
  "od_record_at now host_count i status od =
     (let (d, ep, st) = ej_record_response status (od_endpoints od ! i, od_stats od);
          od1 = od_put i (ep, st) od
      in if \<not> decision_any d then od1
         else if active_count od1 \<ge> cap_count host_count od1 then
           od1\<lparr>ejections_overflow := counter_inc_val (ejections_overflow od1)\<rparr>
         else
           let detector = (if crossed_5xx d then Consecutive5xx else ConsecutiveGatewayFailure);
               (ep2, st2) = eject detector (ep, st)
           in od_put i (ep2\<lparr>ejected_at := Some now\<rparr>, st2) od1)"

fun position :: "'a \<Rightarrow> 'a list \<Rightarrow> nat option" where
  "position x [] = None"
| "position x (y # ys) = (if y = x then Some 0 else map_option Suc (position x ys))"

definition cluster_record_response ::
    "nat \<Rightarrow> 'addr list \<Rightarrow> 'addr \<Rightarrow> nat \<Rightarrow> outlier_detection option \<Rightarrow> outlier_detection option" where
  "cluster_record_response now eps endpoint status od =
     (case od of
        None \<Rightarrow> None
      | Some o' \<Rightarrow>
          (case position endpoint eps of
             None \<Rightarrow> Some o'
           | Some idx \<Rightarrow> Some (od_record_at now (length eps) idx status o')))"

definition sweep_endpoint :: "nat \<Rightarrow> nat \<Rightarrow> nat \<Rightarrow> outlier_detection \<Rightarrow> outlier_detection" where
  "sweep_endpoint now base i od =
     (let ep = od_endpoints od ! i in
      case ejected_at ep of
        Some t \<Rightarrow>
          if base \<le> now - t then
            let (_, ep', st') = try_un_eject (ep, od_stats od)
            in od_put i (ep'\<lparr>ejected_at := None\<rparr>, st') od
          else od
      | None \<Rightarrow> od)"

definition sweep_once :: "nat \<Rightarrow> nat \<Rightarrow> outlier_detection \<Rightarrow> outlier_detection" where
  "sweep_once now base od = fold (sweep_endpoint now base) [0..<length (od_endpoints od)] od"

definition outlier_new :: "nat \<Rightarrow> u32 \<Rightarrow> u32 \<Rightarrow> nat \<Rightarrow> nat \<Rightarrow> nat \<Rightarrow> outlier_detection" where
  "outlier_new n t5 tg pct base ival =
     \<lparr>od_endpoints = replicate n (ejection_new t5 tg), max_ejection_percent = pct,
      ejections_overflow = 0, od_base_ejection_time = base, od_interval_len = ival,
      od_stats = \<lparr>ejections_active = 0, ejections_enforced_total = 0, ejections_detected_5xx = 0,
        ejections_enforced_5xx = 0, ejections_detected_gateway_failure = 0,
        ejections_enforced_gateway_failure = 0\<rparr>\<rparr>"

section \<open>The gauge counts ejected endpoints\<close>

datatype ej_event = EjRecord nat | EjEject DetectorType | EjUnEject

fun ej_step :: "ej_event \<Rightarrow> endpoint_ejection \<times> ejection_stats \<Rightarrow> endpoint_ejection \<times> ejection_stats" where
  "ej_step (EjRecord status) es = snd (ej_record_response status es)"
| "ej_step (EjEject d) es = eject d es"
| "ej_step EjUnEject es = snd (try_un_eject es)"

text \<open>The same step with only the gauge of the shared stats, the shape \<open>edge_gauge\<close> asks for.\<close>

definition ej_gauge_step :: "ejection_stats \<Rightarrow> ej_event \<Rightarrow> endpoint_ejection \<times> i64
    \<Rightarrow> endpoint_ejection \<times> i64" where
  "ej_gauge_step st e eg =
     (let (ep, st') = ej_step e (fst eg, st\<lparr>ejections_active := snd eg\<rparr>) in (ep, ejections_active st'))"

lemma ej_step_active:
  "ejections_active (snd (ej_step e (ep, st))) =
     flag_edge (ejected ep) (ejected (fst (ej_step e (ep, st)))) (ejections_active st)"
  by (cases e) (auto simp: ej_record_response_def eject_def try_un_eject_def flag_edge_def Let_def
      no_decision_def split: DetectorType.splits)

interpretation eg: edge_gauge ejected "ej_gauge_step st" for st
  by unfold_locales (simp add: ej_gauge_step_def case_prod_beta ej_step_active)


section \<open>The invariant of a cluster's outlier detection\<close>

text \<open>
  The gauge is the number of ejected endpoints; an endpoint is stamped exactly
  while it is ejected; every enforced ejection is attributed to one detector.
\<close>

definition enforced_split :: "ejection_stats \<Rightarrow> bool" where
  "enforced_split st \<longleftrightarrow> ejections_enforced_total st =
     ejections_enforced_5xx st + ejections_enforced_gateway_failure st"

definition od_inv :: "outlier_detection \<Rightarrow> bool" where
  "od_inv od \<longleftrightarrow> ejections_active (od_stats od) = of_nat (active_count od)
     \<and> (\<forall>ep \<in> set (od_endpoints od). ejected ep \<longleftrightarrow> ejected_at ep \<noteq> None)
     \<and> enforced_split (od_stats od)"

lemma od_put_simps [simp]:
  "length (od_endpoints (od_put i es od)) = length (od_endpoints od)"
  "max_ejection_percent (od_put i es od) = max_ejection_percent od"
  "od_stats (od_put i es od) = snd es"
  "od_endpoints (od_put i es od) = (od_endpoints od)[i := fst es]"
  "od_put i es (od_put i es' od) = od_put i es od"
  by (simp_all add: od_put_def)

lemma active_count_put:
  assumes "i < length (od_endpoints od)"
  shows "int (active_count (od_put i es od)) = int (active_count od)
    + (if ejected (fst es) then 1 else 0) - (if ejected (od_endpoints od ! i) then 1 else 0)"
  using length_filter_update [OF assms, of ejected "fst es"] by (simp add: active_count_def)

lemma od_put_inv:
  assumes "od_inv od" "i < length (od_endpoints od)"
    and "ejections_active st = flag_edge (ejected (od_endpoints od ! i)) (ejected ep)
           (ejections_active (od_stats od))"
    and "ejected ep \<longleftrightarrow> ejected_at ep \<noteq> None" and "enforced_split st"
  shows "od_inv (od_put i (ep, st) od)"
  using assms of_nat_raised_update [OF assms(2), of ejected ep]
    set_update_subset_insert [of "od_endpoints od" i ep]
  unfolding od_inv_def active_count_def raised_def by auto

lemma ej_record_response_frame:
  assumes "ej_record_response status (ep, st) = (d, ep', st')"
  shows "ejected ep' = ejected ep" "ejected_at ep' = ejected_at ep"
    "ejections_active st' = ejections_active st" "enforced_split st' = enforced_split st"
    "decision_any d \<Longrightarrow> \<not> ejected ep"
  using assms
  by (auto simp: ej_record_response_def Let_def no_decision_def decision_any_def enforced_split_def
      split: if_splits)

lemma eject_effect:
  assumes "\<not> ejected ep" "eject d (ep, st) = (ep', st')"
  shows "ejected ep'" "ejections_active st' = gauge_inc_val (ejections_active st)"
    "enforced_split st \<Longrightarrow> enforced_split st'"
  using assms
  by (auto simp: eject_def Let_def enforced_split_def counter_inc_val_def split: DetectorType.splits)

text \<open>One response, in the case that ejects and in the others.\<close>

lemma od_record_at_cases:
  assumes i: "i < length (od_endpoints od)" and inv: "od_inv od"
  obtains (keep) "od_inv (od_record_at now n i status od)"
      "active_count (od_record_at now n i status od) = active_count od"
    | (eject) "od_inv (od_record_at now n i status od)"
      "active_count (od_record_at now n i status od) = Suc (active_count od)"
      "active_count od < cap_count n od"
proof -
  obtain d ep st where r: "ej_record_response status (od_endpoints od ! i, od_stats od) = (d, ep, st)"
    by (metis prod_cases3)
  note f = ej_record_response_frame [OF r]
  have stamp: "ejected (od_endpoints od ! i) \<longleftrightarrow> ejected_at (od_endpoints od ! i) \<noteq> None"
    and es: "enforced_split (od_stats od)" using inv i by (auto simp: od_inv_def)
  let ?od1 = "od_put i (ep, st) od"
  have inv1: "od_inv ?od1"
    using f stamp es by (intro od_put_inv [OF inv i]) (auto simp: flag_edge_def)
  have cnt1: "active_count ?od1 = active_count od"
    using active_count_put [OF i, of "(ep, st)"] f(1) by (simp split: if_splits)
  have cap1: "cap_count n ?od1 = cap_count n od" by (simp add: cap_count_def)
  show thesis
  proof (cases "decision_any d \<and> active_count od < cap_count n od")
    case False
    then have "od_record_at now n i status od = ?od1
        \<or> od_record_at now n i status od =
            ?od1\<lparr>ejections_overflow := counter_inc_val (ejections_overflow ?od1)\<rparr>"
      using r cnt1 cap1 by (auto simp: od_record_at_def Let_def not_less)
    with inv1 cnt1 show thesis by (intro keep) (auto simp: od_inv_def active_count_def)
  next
    case True
    define det where "det = (if crossed_5xx d then Consecutive5xx else ConsecutiveGatewayFailure)"
    obtain ep2 st2 where e: "eject det (ep, st) = (ep2, st2)" by fastforce
    have ne: "\<not> ejected ep" using f True by simp
    note g = eject_effect [OF ne e]
    have eq: "od_record_at now n i status od = od_put i (ep2\<lparr>ejected_at := Some now\<rparr>, st2) ?od1"
      using r True e cnt1 cap1 by (simp add: od_record_at_def Let_def det_def not_le)
    have i1: "i < length (od_endpoints ?od1)" using i by simp
    have "od_inv (od_put i (ep2\<lparr>ejected_at := Some now\<rparr>, st2) ?od1)"
      using g ne i f(4) es by (intro od_put_inv [OF inv1 i1]) (auto simp: flag_edge_def)
    moreover have "active_count (od_put i (ep2\<lparr>ejected_at := Some now\<rparr>, st2) ?od1) = Suc (active_count od)"
      using active_count_put [OF i1, of "(ep2\<lparr>ejected_at := Some now\<rparr>, st2)"] g ne i cnt1 by simp
    ultimately show thesis using True by (intro eject) (simp_all only: eq)
  qed
qed

lemma od_record_at_frame [simp]:
  "length (od_endpoints (od_record_at now n i status od)) = length (od_endpoints od)"
  "max_ejection_percent (od_record_at now n i status od) = max_ejection_percent od"
  by (auto simp: od_record_at_def Let_def split: prod.splits)

lemma sweep_endpoint_inv:
  assumes "od_inv od" "i < length (od_endpoints od)"
  shows "od_inv (sweep_endpoint now base i od)
    \<and> active_count (sweep_endpoint now base i od) \<le> active_count od
    \<and> length (od_endpoints (sweep_endpoint now base i od)) = length (od_endpoints od)
    \<and> max_ejection_percent (sweep_endpoint now base i od) = max_ejection_percent od"
proof -
  let ?ep = "od_endpoints od ! i"
  show ?thesis
  proof (cases "\<exists>t. ejected_at ?ep = Some t \<and> base \<le> now - t")
    case False
    then have "sweep_endpoint now base i od = od"
      by (auto simp: sweep_endpoint_def Let_def split: option.splits)
    with assms show ?thesis by simp
  next
    case True
    then have ej: "ejected ?ep" using assms by (auto simp: od_inv_def)
    define ep' st' where "ep' = fst (snd (try_un_eject (?ep, od_stats od)))\<lparr>ejected_at := None\<rparr>"
      and "st' = snd (snd (try_un_eject (?ep, od_stats od)))"
    have eq: "sweep_endpoint now base i od = od_put i (ep', st') od"
      using True by (auto simp: sweep_endpoint_def Let_def ep'_def st'_def case_prod_beta)
    have e: "\<not> ejected ep'" "ejected_at ep' = None"
      "ejections_active st' = gauge_dec_val (ejections_active (od_stats od))"
      "enforced_split st' = enforced_split (od_stats od)"
      using ej by (auto simp: ep'_def st'_def try_un_eject_def enforced_split_def)
    have "od_inv (od_put i (ep', st') od)"
      using e ej assms(1) by (intro od_put_inv [OF assms]) (auto simp: flag_edge_def od_inv_def)
    moreover have "active_count (od_put i (ep', st') od) \<le> active_count od"
      using active_count_put [OF assms(2), of "(ep', st')"] e ej by simp
    ultimately show ?thesis by (simp add: eq)
  qed
qed

lemma sweep_fold_inv:
  assumes "od_inv od" "\<forall>i \<in> set is. i < length (od_endpoints od)"
  shows "od_inv (fold (sweep_endpoint now base) is od)
    \<and> active_count (fold (sweep_endpoint now base) is od) \<le> active_count od
    \<and> length (od_endpoints (fold (sweep_endpoint now base) is od)) = length (od_endpoints od)
    \<and> max_ejection_percent (fold (sweep_endpoint now base) is od) = max_ejection_percent od"
  using assms
proof (induction "is" arbitrary: od)
  case Nil
  then show ?case by simp
next
  case (Cons i "is")
  have s: "od_inv (sweep_endpoint now base i od)
      \<and> active_count (sweep_endpoint now base i od) \<le> active_count od
      \<and> length (od_endpoints (sweep_endpoint now base i od)) = length (od_endpoints od)
      \<and> max_ejection_percent (sweep_endpoint now base i od) = max_ejection_percent od"
    using Cons.prems by (intro sweep_endpoint_inv) auto
  with Cons.prems(2) Cons.IH [of "sweep_endpoint now base i od"] show ?case by fastforce
qed

lemmas sweep_once_inv = sweep_fold_inv [of od "[0..<length (od_endpoints od)]" now base for od now base,
  simplified, folded sweep_once_def]


section \<open>Runs of a cluster\<close>

datatype 'addr od_op = Respond nat 'addr nat | Sweep nat nat

fun od_apply :: "'addr list \<Rightarrow> 'addr od_op \<Rightarrow> outlier_detection option \<Rightarrow> outlier_detection option" where
  "od_apply eps (Respond now addr status) od = cluster_record_response now eps addr status od"
| "od_apply eps (Sweep now base) od = map_option (sweep_once now base) od"

lemma position_less: "position x xs = Some i \<Longrightarrow> i < length xs \<and> xs ! i = x"
  by (induction xs arbitrary: i) (auto split: if_splits)

lemma position_None: "position x xs = None \<longleftrightarrow> x \<notin> set xs"
  by (induction xs) auto

definition od_good :: "nat \<Rightarrow> nat \<Rightarrow> outlier_detection \<Rightarrow> bool" where
  "od_good n pct od \<longleftrightarrow> od_inv od \<and> length (od_endpoints od) = n \<and> max_ejection_percent od = pct
     \<and> active_count od \<le> n * pct div 100"

lemma od_good_new: "od_good n pct (outlier_new n t5 tg pct base ival)"
  by (auto simp: od_good_def od_inv_def outlier_new_def active_count_def ejection_new_def
      enforced_split_def)

lemma od_apply_good:
  assumes "od_good (length eps) pct od"
  shows "\<exists>od'. od_apply eps op (Some od) = Some od' \<and> od_good (length eps) pct od'"
proof (cases op)
  case (Respond now addr status)
  show ?thesis
  proof (cases "position addr eps")
    case None
    with Respond assms show ?thesis by (simp add: cluster_record_response_def)
  next
    case (Some i)
    then have i: "i < length (od_endpoints od)"
      using position_less assms by (fastforce simp: od_good_def)
    have inv: "od_inv od" using assms by (simp add: od_good_def)
    let ?od' = "od_record_at now (length eps) i status od"
    from i inv have "od_inv ?od' \<and> active_count ?od' \<le> length eps * pct div 100"
      using assms by (cases rule: od_record_at_cases [of i od now "length eps" status])
        (auto simp: od_good_def cap_count_def)
    with assms Respond Some show ?thesis by (simp add: cluster_record_response_def od_good_def)
  qed
next
  case (Sweep now base)
  then show ?thesis using assms sweep_once_inv [of od now base] by (auto simp: od_good_def)
qed

lemma od_run_good:
  assumes "od_good (length eps) pct od"
  shows "\<exists>od'. fold (od_apply eps) ops (Some od) = Some od' \<and> od_good (length eps) pct od'"
  using assms
proof (induction ops arbitrary: od)
  case Nil
  then show ?case by simp
next
  case (Cons op ops)
  from od_apply_good [OF Cons.prems, of op] Cons.IH show ?case by auto
qed

text \<open>
  C30. Whatever responses (from any endpoints, known or not) and sweeps a cluster
  processes one after the other, at most \<open>floor(hosts * max_ejection_percent / 100)\<close>
  endpoints are ejected; the \<open>ejections_active\<close> gauge is their number; exactly the
  ejected endpoints carry a timestamp; and \<open>ejections_enforced_total\<close> is the sum of
  the two per-detector counters.
\<close>

theorem outlier_cap_and_gauge:
  assumes "length eps < 2 ^ 63"
  shows "\<exists>od. fold (od_apply eps) ops (Some (outlier_new (length eps) t5 tg pct base ival)) = Some od
    \<and> active_count od \<le> length eps * pct div 100
    \<and> gauge_value (ejections_active (od_stats od)) = int (active_count od)
    \<and> (\<forall>ep \<in> set (od_endpoints od). ejected ep \<longleftrightarrow> ejected_at ep \<noteq> None)
    \<and> ejections_enforced_total (od_stats od) =
        ejections_enforced_5xx (od_stats od) + ejections_enforced_gateway_failure (od_stats od)"
proof -
  obtain od where r: "fold (od_apply eps) ops (Some (outlier_new (length eps) t5 tg pct base ival)) = Some od"
    and g: "od_good (length eps) pct od"
    using od_run_good [OF od_good_new] by metis
  have "active_count od < 2 ^ 63"
    using g assms raised_le [of ejected "od_endpoints od"]
    by (simp add: od_good_def active_count_def raised_def)
  then have "gauge_value (ejections_active (od_stats od)) = int (active_count od)"
    using g by (simp add: od_good_def od_inv_def gauge_value_of_nat)
  with r g show ?thesis by (auto simp: od_good_def od_inv_def enforced_split_def)
qed

theorem outlier_cap_and_gauge_witness:
  "\<exists>od. fold (od_apply [1, 2 :: nat]) [Respond 0 1 503, Respond 1 2 500, Sweep 9 5]
      (Some (outlier_new 2 1 1 50 30 10)) = Some od \<and> active_count od \<le> 1"
proof -
  have l: "length [1, 2 :: nat] < 2 ^ 63" by simp
  show ?thesis
    using outlier_cap_and_gauge [OF l, of "[Respond 0 1 503, Respond 1 2 500, Sweep 9 5]" 1 1 50 30 10]
    by (auto simp: numeral_2_eq_2)
qed

section \<open>The sweeper lifts every expired ejection\<close>

definition swept :: "nat \<Rightarrow> nat \<Rightarrow> endpoint_ejection \<Rightarrow> endpoint_ejection" where
  "swept now base ep =
     (case ejected_at ep of
        Some t \<Rightarrow> if base \<le> now - t
          then if ejected ep
            then ep\<lparr>ejected := False, consecutive_5xx := 0, consecutive_gf := 0, ejected_at := None\<rparr>
            else ep\<lparr>ejected := False, ejected_at := None\<rparr>
          else ep
      | None \<Rightarrow> ep)"

lemma sweep_endpoint_swept:
  "i < length (od_endpoints od) \<Longrightarrow>
   od_endpoints (sweep_endpoint now base i od) = (od_endpoints od)[i := swept now base (od_endpoints od ! i)]"
  by (auto simp: sweep_endpoint_def swept_def try_un_eject_def Let_def split: option.splits)

lemma sweep_prefix_swept:
  "k \<le> length (od_endpoints od) \<Longrightarrow>
   od_endpoints (fold (sweep_endpoint now base) [0..<k] od) =
     map (swept now base) (take k (od_endpoints od)) @ drop k (od_endpoints od)"
proof (induction k)
  case 0
  then show ?case by simp
next
  case (Suc k)
  let ?es = "map (swept now base) (take k (od_endpoints od)) @ drop k (od_endpoints od)"
  let ?od = "fold (sweep_endpoint now base) [0..<k] od"
  have es: "od_endpoints ?od = ?es" using Suc by simp
  with Suc.prems have k: "k < length (od_endpoints ?od)" "?es ! k = od_endpoints od ! k"
    by (simp_all add: nth_append)
  have "drop k (od_endpoints od) = od_endpoints od ! k # drop (Suc k) (od_endpoints od)"
    using Suc.prems by (simp add: Cons_nth_drop_Suc)
  with sweep_endpoint_swept [OF k(1), of now base] es k(2) Suc.prems show ?case
    by (simp add: list_update_append take_Suc_conv_app_nth min_def)
qed

text \<open>
  After one sweep, the endpoints still ejected are those whose ejection is younger
  than \<open>base_ejection_time\<close>: no ejection outlives the first tick after it expires.
  An endpoint that was lifted starts over with both streak counters at zero.
\<close>

theorem sweep_lifts_expired:
  assumes "od_inv od" and "i < length (od_endpoints od)"
  shows "let before = od_endpoints od ! i; after = od_endpoints (sweep_once now base od) ! i in
    (ejected after \<longleftrightarrow> (\<exists>t. ejected_at before = Some t \<and> now - t < base))
    \<and> (ejected before \<and> \<not> ejected after \<longrightarrow> consecutive_5xx after = 0 \<and> consecutive_gf after = 0)"
proof -
  have "od_endpoints (sweep_once now base od) = map (swept now base) (od_endpoints od)"
    using sweep_prefix_swept [of "length (od_endpoints od)" od now base] by (simp add: sweep_once_def)
  then have "od_endpoints (sweep_once now base od) ! i = swept now base (od_endpoints od ! i)"
    using assms(2) by simp
  moreover have "ejected (od_endpoints od ! i) \<longleftrightarrow> ejected_at (od_endpoints od ! i) \<noteq> None"
    using assms by (simp add: od_inv_def)
  ultimately show ?thesis
    by (auto simp: Let_def swept_def not_le split: option.splits)
qed

theorem sweep_lifts_expired_witness:
  "let od = od_record_at 5 1 0 500 (outlier_new 1 1 1 100 30 10) in
     ejected (od_endpoints od ! 0) \<and> ejected (od_endpoints (sweep_once 20 30 od) ! 0)
     \<and> \<not> ejected (od_endpoints (sweep_once 40 30 od) ! 0)"
proof -
  let ?init = "outlier_new 1 1 1 100 30 10"
  let ?od = "od_record_at 5 1 0 500 ?init"
  have i0: "od_inv ?init" "0 < length (od_endpoints ?init)"
    using od_good_new [of 1 100 1 1 30 10] by (simp_all add: od_good_def)
  have inv: "od_inv ?od" by (rule od_record_at_cases [OF i0(2,1), of 5 1 500])
  have l: "0 < length (od_endpoints ?od)" and e: "ejected (od_endpoints ?od ! 0)"
    and t: "ejected_at (od_endpoints ?od ! 0) = Some 5"
    by code_simp+
  show ?thesis
    using sweep_lifts_expired [OF inv l, of 20 30] sweep_lifts_expired [OF inv l, of 40 30] e t
    by (simp add: Let_def)
qed

section \<open>Concurrent responses\<close>

text \<open>
  In the running proxy the compound of \<open>Cluster::record_response\<close> is serialised per
  endpoint only: each endpoint has its own \<open>ejected_at\<close> mutex, and the cap check
  reads the other endpoints' flags without any lock. The step relation interleaves
  the compound's three parts for different endpoints; a sweep of an endpoint takes
  the same mutex, so it needs the endpoint's compound to be idle.
\<close>

datatype od_phase = Idle | Recorded EjectionDecision | Approved DetectorType

record od_conc =
  conc_od :: outlier_detection
  conc_phase :: "nat \<Rightarrow> od_phase"

inductive od_conc_step :: "nat \<Rightarrow> od_conc \<Rightarrow> od_conc \<Rightarrow> bool" for n :: nat where
  record_quiet: "\<lbrakk>i < n; conc_phase c i = Idle;
      ej_record_response status (od_endpoints (conc_od c) ! i, od_stats (conc_od c)) = (d, es);
      \<not> decision_any d\<rbrakk>
    \<Longrightarrow> od_conc_step n c (c\<lparr>conc_od := od_put i es (conc_od c)\<rparr>)"
| record_crossed: "\<lbrakk>i < n; conc_phase c i = Idle;
      ej_record_response status (od_endpoints (conc_od c) ! i, od_stats (conc_od c)) = (d, es);
      decision_any d\<rbrakk>
    \<Longrightarrow> od_conc_step n c (c\<lparr>conc_od := od_put i es (conc_od c),
          conc_phase := (conc_phase c)(i := Recorded d)\<rparr>)"
| check_overflow: "\<lbrakk>i < n; conc_phase c i = Recorded d;
      active_count (conc_od c) \<ge> cap_count n (conc_od c)\<rbrakk>
    \<Longrightarrow> od_conc_step n c (c\<lparr>conc_od := (conc_od c)\<lparr>ejections_overflow :=
          counter_inc_val (ejections_overflow (conc_od c))\<rparr>,
          conc_phase := (conc_phase c)(i := Idle)\<rparr>)"
| check_pass: "\<lbrakk>i < n; conc_phase c i = Recorded d;
      active_count (conc_od c) < cap_count n (conc_od c)\<rbrakk>
    \<Longrightarrow> od_conc_step n c (c\<lparr>conc_phase := (conc_phase c)(i := Approved
          (if crossed_5xx d then Consecutive5xx else ConsecutiveGatewayFailure))\<rparr>)"
| act: "\<lbrakk>i < n; conc_phase c i = Approved det;
      eject det (od_endpoints (conc_od c) ! i, od_stats (conc_od c)) = (ep, st)\<rbrakk>
    \<Longrightarrow> od_conc_step n c (c\<lparr>conc_od := od_put i (ep\<lparr>ejected_at := Some now\<rparr>, st) (conc_od c),
          conc_phase := (conc_phase c)(i := Idle)\<rparr>)"
| sweep: "\<lbrakk>i < n; conc_phase c i = Idle\<rbrakk>
    \<Longrightarrow> od_conc_step n c (c\<lparr>conc_od := sweep_endpoint now base i (conc_od c)\<rparr>)"

inductive od_conc_reach :: "nat \<Rightarrow> outlier_detection \<Rightarrow> od_conc \<Rightarrow> bool"
  for n :: nat and od :: outlier_detection where
  start: "od_conc_reach n od \<lparr>conc_od = od, conc_phase = (\<lambda>_. Idle)\<rparr>"
| step: "od_conc_reach n od c \<Longrightarrow> od_conc_step n c c' \<Longrightarrow> od_conc_reach n od c'"

definition conc_inv :: "nat \<Rightarrow> od_conc \<Rightarrow> bool" where
  "conc_inv n c \<longleftrightarrow> od_inv (conc_od c) \<and> length (od_endpoints (conc_od c)) = n
     \<and> (\<forall>i<n. conc_phase c i \<noteq> Idle \<longrightarrow> \<not> ejected (od_endpoints (conc_od c) ! i))"

lemma od_put_same_flag_inv:
  assumes "od_inv od" "i < length (od_endpoints od)"
    "ej_record_response status (od_endpoints od ! i, od_stats od) = (d, es)"
  shows "od_inv (od_put i es od)" "ejected (fst es) = ejected (od_endpoints od ! i)"
    "decision_any d \<Longrightarrow> \<not> ejected (od_endpoints od ! i)"
proof -
  note f = ej_record_response_frame [of status "od_endpoints od ! i" "od_stats od" d "fst es" "snd es"]
  have r: "ej_record_response status (od_endpoints od ! i, od_stats od) = (d, fst es, snd es)"
    using assms(3) by simp
  have "od_inv (od_put i (fst es, snd es) od)"
    using f [OF r] assms by (intro od_put_inv [OF assms(1,2)]) (auto simp: flag_edge_def od_inv_def)
  then show "od_inv (od_put i es od)" by simp
  show "ejected (fst es) = ejected (od_endpoints od ! i)"
    "decision_any d \<Longrightarrow> \<not> ejected (od_endpoints od ! i)" using f [OF r] by auto
qed

lemma conc_step_inv:
  assumes "od_conc_step n c c'" "conc_inv n c"
  shows "conc_inv n c'"
  using assms
proof (induction rule: od_conc_step.induct)
  case (record_quiet i c status d es)
  then show ?case
    using od_put_same_flag_inv [of "conc_od c" i status d es]
    by (auto simp: conc_inv_def nth_list_update)
next
  case (record_crossed i c status d es)
  then show ?case
    using od_put_same_flag_inv [of "conc_od c" i status d es]
    by (auto simp: conc_inv_def nth_list_update)
next
  case (check_overflow i c d)
  then show ?case by (auto simp: conc_inv_def od_inv_def active_count_def)
next
  case (check_pass i c d)
  then show ?case by (auto simp: conc_inv_def)
next
  case (act i c det ep st now)
  then have ne: "\<not> ejected (od_endpoints (conc_od c) ! i)" and inv: "od_inv (conc_od c)"
    and i: "i < length (od_endpoints (conc_od c))" by (auto simp: conc_inv_def)
  note e = eject_effect [OF ne act.hyps(3)]
  have "od_inv (od_put i (ep\<lparr>ejected_at := Some now\<rparr>, st) (conc_od c))"
    using e ne inv by (intro od_put_inv [OF inv i]) (auto simp: flag_edge_def od_inv_def)
  with act show ?case by (auto simp: conc_inv_def nth_list_update)
next
  case (sweep i c now base)
  then have inv: "od_inv (conc_od c)" and i: "i < length (od_endpoints (conc_od c))"
    by (auto simp: conc_inv_def)
  have sw: "\<not> ejected (swept now base ep)" if "\<not> ejected ep" for ep
    using that by (auto simp: swept_def split: option.splits)
  from sweep sweep_endpoint_inv [OF inv i, of now base] sweep_endpoint_swept [OF i, of now base] sw
  show ?case by (auto simp: conc_inv_def nth_list_update)
qed

lemma conc_reach_inv:
  assumes "od_conc_reach n (outlier_new n t5 tg pct base ival) c"
  shows "conc_inv n c"
  using assms
proof (induction rule: od_conc_reach.induct)
  case start
  show ?case
    using od_good_new [of n pct t5 tg] by (simp add: conc_inv_def od_good_def)
next
  case (step c c')
  then show ?case by (blast intro: conc_step_inv)
qed

text \<open>
  Under concurrency the gauge stays exact: in every reachable state of any
  interleaving, \<open>ejections_active\<close> is the number of ejected endpoints and the
  stamped endpoints are the ejected ones.
\<close>

theorem outlier_gauge_concurrent:
  assumes "od_conc_reach n (outlier_new n t5 tg pct base ival) c"
  shows "ejections_active (od_stats (conc_od c)) = of_nat (active_count (conc_od c))
    \<and> (\<forall>ep \<in> set (od_endpoints (conc_od c)). ejected ep \<longleftrightarrow> ejected_at ep \<noteq> None)"
  using conc_reach_inv [OF assms] by (simp add: conc_inv_def od_inv_def)

theorem outlier_gauge_concurrent_witness:
  "ejections_active (od_stats (outlier_new 2 1 1 50 30 10)) = of_nat (active_count (outlier_new 2 1 1 50 30 10))"
  using outlier_gauge_concurrent [OF od_conc_reach.start [of 2 "outlier_new 2 1 1 50 30 10"]] by simp

lemma race_record:
  "ej_record_response 500 (ejection_new 1 1, st) =
     (\<lparr>crossed_5xx = True, crossed_gateway_failure = False\<rparr>,
      (ejection_new 1 1)\<lparr>consecutive_5xx := 1\<rparr>,
      st\<lparr>ejections_detected_5xx := counter_inc_val (ejections_detected_5xx st)\<rparr>)"
  by (simp add: ej_record_response_def ejection_new_def is_gateway_failure_def)

lemma race_od:
  "od_endpoints (outlier_new 2 t5 tg pct base ival) = [ejection_new t5 tg, ejection_new t5 tg]"
  by (simp add: outlier_new_def numeral_2_eq_2)

abbreviation race_ep :: endpoint_ejection where
  "race_ep \<equiv> (ejection_new 1 1)\<lparr>consecutive_5xx := 1\<rparr>"

abbreviation race_phases :: "od_phase \<Rightarrow> od_phase \<Rightarrow> nat \<Rightarrow> od_phase" where
  "race_phases a b \<equiv> (\<lambda>_. Idle)(0 := a, 1 := b)"

lemma race_both_approved:
  "\<exists>od. od_conc_reach 2 (outlier_new 2 1 1 50 30 10)
       \<lparr>conc_od = od, conc_phase = race_phases (Approved Consecutive5xx) (Approved Consecutive5xx)\<rparr>
     \<and> od_endpoints od = [race_ep, race_ep] \<and> cap_count 2 od = 1"
proof -
  let ?d = "\<lparr>crossed_5xx = True, crossed_gateway_failure = False\<rparr>"
  define od0 where "od0 = outlier_new 2 1 1 50 30 10"
  define st1 where "st1 = snd (snd (ej_record_response 500 (ejection_new 1 1, od_stats od0)))"
  define st2 where "st2 = snd (snd (ej_record_response 500 (ejection_new 1 1, st1)))"
  define od2 where "od2 = od_put 1 (race_ep, st2) (od_put 0 (race_ep, st1) od0)"
  have es0: "od_endpoints od0 = [ejection_new 1 1, ejection_new 1 1]" by (simp add: od0_def race_od)
  have es2: "od_endpoints od2 = [race_ep, race_ep]" by (simp add: od2_def es0)
  have cnt: "active_count od2 = 0" "cap_count 2 od2 = 1"
    by (simp_all add: active_count_def cap_count_def es2 ejection_new_def)
      (simp add: od2_def od0_def outlier_new_def)
  have c0: "od_conc_reach 2 od0 \<lparr>conc_od = od0, conc_phase = (\<lambda>_. Idle)\<rparr>" by (rule od_conc_reach.start)
  have "od_conc_reach 2 od0 \<lparr>conc_od = od_put 0 (race_ep, st1) od0, conc_phase = (\<lambda>_. Idle)(0 := Recorded ?d)\<rparr>"
    by (rule od_conc_reach.step [OF c0])
      (use record_crossed [of 0 2 "\<lparr>conc_od = od0, conc_phase = (\<lambda>_. Idle)\<rparr>" 500 ?d "(race_ep, st1)"]
        in \<open>simp add: es0 race_record st1_def decision_any_def\<close>)
  then have "od_conc_reach 2 od0 \<lparr>conc_od = od2, conc_phase = race_phases (Recorded ?d) (Recorded ?d)\<rparr>"
    by (rule od_conc_reach.step)
      (use record_crossed [of 1 2 "\<lparr>conc_od = od_put 0 (race_ep, st1) od0,
          conc_phase = (\<lambda>_. Idle)(0 := Recorded ?d)\<rparr>" 500 ?d "(race_ep, st2)"]
        in \<open>simp add: es0 race_record st2_def od2_def decision_any_def\<close>)
  then have "od_conc_reach 2 od0
      \<lparr>conc_od = od2, conc_phase = race_phases (Approved Consecutive5xx) (Recorded ?d)\<rparr>"
    by (rule od_conc_reach.step)
      (use check_pass [of 0 2 "\<lparr>conc_od = od2, conc_phase = race_phases (Recorded ?d) (Recorded ?d)\<rparr>" ?d]
        in \<open>simp add: cnt fun_upd_first_of_two\<close>)
  then have "od_conc_reach 2 od0
      \<lparr>conc_od = od2, conc_phase = race_phases (Approved Consecutive5xx) (Approved Consecutive5xx)\<rparr>"
    by (rule od_conc_reach.step)
      (use check_pass [of 1 2 "\<lparr>conc_od = od2,
          conc_phase = race_phases (Approved Consecutive5xx) (Recorded ?d)\<rparr>" ?d] in \<open>simp add: cnt\<close>)
  with es2 cnt show ?thesis unfolding od0_def by blast
qed

text \<open>
  The cap, however, is not an invariant of the concurrent system: with two
  endpoints and \<open>max_ejection_percent\<close> 50 (a cap of one), two responses handled at
  the same time for the two endpoints both pass the check before either ejects, and
  both endpoints end up ejected.
\<close>

theorem outlier_cap_race:
  "\<exists>c. od_conc_reach 2 (outlier_new 2 1 1 50 30 10) c
     \<and> active_count (conc_od c) = 2 \<and> cap_count 2 (conc_od c) = 1"
proof -
  let ?A = "Approved Consecutive5xx"
  let ?x = "race_ep\<lparr>ejected := True\<rparr>"
  obtain od where r: "od_conc_reach 2 (outlier_new 2 1 1 50 30 10) \<lparr>conc_od = od, conc_phase = race_phases ?A ?A\<rparr>"
    and es: "od_endpoints od = [race_ep, race_ep]" and cap: "cap_count 2 od = 1"
    using race_both_approved by blast
  have ej: "\<exists>st'. eject Consecutive5xx (race_ep, st) = (?x, st')" for st
    by (simp add: eject_def ejection_new_def)
  obtain st3 where e3: "eject Consecutive5xx (race_ep, od_stats od) = (?x, st3)" using ej by blast
  obtain st4 where e4: "eject Consecutive5xx (race_ep, st3) = (?x, st4)" using ej by blast
  let ?od3 = "od_put 0 (?x\<lparr>ejected_at := Some 0\<rparr>, st3) od"
  let ?od4 = "od_put 1 (?x\<lparr>ejected_at := Some 0\<rparr>, st4) ?od3"
  from r have "od_conc_reach 2 (outlier_new 2 1 1 50 30 10) \<lparr>conc_od = ?od3, conc_phase = race_phases Idle ?A\<rparr>"
    by (rule od_conc_reach.step)
      (use act [of 0 2 "\<lparr>conc_od = od, conc_phase = race_phases ?A ?A\<rparr>" Consecutive5xx ?x st3 0]
        in \<open>simp add: es e3 fun_upd_first_of_two\<close>)
  then have "od_conc_reach 2 (outlier_new 2 1 1 50 30 10) \<lparr>conc_od = ?od4, conc_phase = race_phases Idle Idle\<rparr>"
    by (rule od_conc_reach.step)
      (use act [of 1 2 "\<lparr>conc_od = ?od3, conc_phase = race_phases Idle ?A\<rparr>" Consecutive5xx ?x st4 0]
        in \<open>simp add: es e4\<close>)
  moreover have "active_count ?od4 = 2" "cap_count 2 ?od4 = 1"
    using cap by (simp_all add: active_count_def es cap_count_def)
  ultimately show ?thesis by (intro exI conjI) (assumption, simp_all)
qed

end
