(* ===== verification/Subset_Lb.thy ===== *)
theory Subset_Lb
  imports Ordered_Map
begin

text \<open>
  \<open>envoy-cluster/src/subset.rs\<close>: metadata-based subset load balancing. An index
  is built once per cluster from the endpoints' metadata; a route's
  \<open>metadata_match\<close> is resolved against it to the eligible endpoint indices.

  A \<open>BTreeSet<String>\<close> is its ascending list of elements.
\<close>

section \<open>Data\<close>

type_synonym lb_metadata = "(string, string) btmap"

datatype LbSubsetFallbackPolicy = NoFallback | AnyEndpoint | DefaultSubset

record LbSubsetConfig =
  cfg_fallback_policy :: LbSubsetFallbackPolicy
  cfg_subset_selectors :: "string list list"
  cfg_default_subset :: "lb_metadata option"

record SelectorIndex =
  sel_keys :: "string list"
  sel_subsets :: "(string list, nat list) btmap"

record SubsetIndex =
  ix_fallback :: LbSubsetFallbackPolicy
  ix_default_subset :: "lb_metadata option"
  ix_selectors :: "SelectorIndex list"

datatype eligible = EligibleAll | EligibleSome "nat list" | EligibleNone

section \<open>Operations\<close>

definition btset_of :: "string list \<Rightarrow> string list" where
  "btset_of ks = sort (remdups ks)"

definition value_tuple :: "string list \<Rightarrow> lb_metadata \<Rightarrow> string list" where
  "value_tuple ks meta = map (\<lambda>k. the (bt_get meta k)) ks"

definition has_keys :: "string list \<Rightarrow> lb_metadata \<Rightarrow> bool" where
  "has_keys ks meta \<longleftrightarrow> list_all (\<lambda>k. bt_get meta k \<noteq> None) ks"

definition push_index :: "string list \<Rightarrow> nat \<Rightarrow> (string list, nat list) btmap
    \<Rightarrow> (string list, nat list) btmap" where
  "push_index tuple i m =
     bt_insert tuple ((case bt_get m tuple of None \<Rightarrow> [] | Some is \<Rightarrow> is) @ [i]) m"

fun index_endpoints :: "string list \<Rightarrow> nat \<Rightarrow> lb_metadata list
    \<Rightarrow> (string list, nat list) btmap \<Rightarrow> (string list, nat list) btmap" where
  "index_endpoints keyset i [] subsets = subsets"
| "index_endpoints keyset i (meta # metas) subsets =
     index_endpoints keyset (Suc i) metas
       (if has_keys keyset meta then push_index (value_tuple keyset meta) i subsets else subsets)"

definition build_selector :: "lb_metadata list \<Rightarrow> string list \<Rightarrow> SelectorIndex" where
  "build_selector metas keys =
     (let keyset = btset_of keys in
      \<lparr>sel_keys = keyset, sel_subsets = index_endpoints keyset 0 metas bt_empty\<rparr>)"

definition subset_build :: "LbSubsetConfig \<Rightarrow> lb_metadata list \<Rightarrow> SubsetIndex" where
  "subset_build cfg endpoint_metadata =
     \<lparr>ix_fallback = cfg_fallback_policy cfg,
      ix_default_subset = cfg_default_subset cfg,
      ix_selectors = map (build_selector endpoint_metadata) (cfg_subset_selectors cfg)\<rparr>"

definition subset_lookup :: "SubsetIndex \<Rightarrow> lb_metadata \<Rightarrow> nat list option" where
  "subset_lookup ix m =
     (case find (\<lambda>s. sel_keys s = bt_keys m) (ix_selectors ix) of
        None \<Rightarrow> None
      | Some selector \<Rightarrow> bt_get (sel_subsets selector) (value_tuple (sel_keys selector) m))"

definition subset_fallback :: "SubsetIndex \<Rightarrow> eligible" where
  "subset_fallback ix =
     (case ix_fallback ix of
        NoFallback \<Rightarrow> EligibleNone
      | AnyEndpoint \<Rightarrow> EligibleAll
      | DefaultSubset \<Rightarrow>
          (case ix_default_subset ix of
             None \<Rightarrow> EligibleAll
           | Some d \<Rightarrow>
               if d = bt_empty then EligibleAll
               else case subset_lookup ix d of
                 Some idxs \<Rightarrow> EligibleSome idxs
               | None \<Rightarrow> EligibleNone))"

definition subset_resolve :: "SubsetIndex \<Rightarrow> lb_metadata option \<Rightarrow> eligible" where
  "subset_resolve ix metadata_match =
     (if ix_selectors ix = [] then EligibleAll
      else case metadata_match of
        Some m \<Rightarrow>
          if m \<noteq> bt_empty then
            (case subset_lookup ix m of
               Some idxs \<Rightarrow> EligibleSome idxs
             | None \<Rightarrow> subset_fallback ix)
          else subset_fallback ix
      | None \<Rightarrow> subset_fallback ix)"

section \<open>What the index holds\<close>

lemma push_index_get:
  "bt_wf m \<Longrightarrow> bt_get (push_index t i m) t' =
     (if t' = t then Some ((case bt_get m t of None \<Rightarrow> [] | Some is \<Rightarrow> is) @ [i]) else bt_get m t')"
  by (simp add: push_index_def)

lemma push_index_wf: "bt_wf m \<Longrightarrow> bt_wf (push_index t i m)"
  by (simp add: push_index_def bt_wf_insert)

text \<open>Endpoint \<open>i\<close> (counted from \<open>k\<close>) belongs to the subset of \<open>t\<close>.\<close>

definition in_subset :: "string list \<Rightarrow> string list \<Rightarrow> lb_metadata \<Rightarrow> bool" where
  "in_subset ks t meta \<longleftrightarrow> has_keys ks meta \<and> value_tuple ks meta = t"

definition opt_append :: "'a list option \<Rightarrow> 'a list \<Rightarrow> 'a list option" where
  "opt_append o' xs = (if xs = [] then o' else Some ((case o' of None \<Rightarrow> [] | Some ys \<Rightarrow> ys) @ xs))"

lemma index_endpoints_get:
  assumes "bt_wf subsets"
  shows "bt_get (index_endpoints ks i metas subsets) t =
    opt_append (bt_get subsets t)
      (map ((+) i) (filter (\<lambda>j. in_subset ks t (metas ! j)) [0..<length metas]))"
  using assms
proof (induction metas arbitrary: i subsets)
  case Nil
  then show ?case by (simp add: opt_append_def)
next
  case (Cons meta metas)
  let ?s = "if has_keys ks meta then push_index (value_tuple ks meta) i subsets else subsets"
  have wf: "bt_wf ?s" using Cons.prems by (simp add: push_index_wf)
  have s: "bt_get ?s t = opt_append (bt_get subsets t) (if in_subset ks t meta then [i] else [])"
    using Cons.prems by (auto simp: push_index_get in_subset_def opt_append_def split: option.splits)
  have "[0..<length (meta # metas)] = 0 # map Suc [0..<length metas]"
    by (simp add: upt_conv_Cons map_Suc_upt del: upt_Suc)
  then have f: "filter (\<lambda>j. in_subset ks t ((meta # metas) ! j)) [0..<length (meta # metas)] =
      (if in_subset ks t meta then [0] else []) @
      map Suc (filter (\<lambda>j. in_subset ks t (metas ! j)) [0..<length metas])"
    by (simp add: filter_map o_def)
  show ?case
    unfolding index_endpoints.simps Cons.IH [OF wf] s f
    by (auto simp: opt_append_def o_def split: option.splits)
qed

section \<open>The abstract specification\<close>

text \<open>
  Endpoint metadata matches \<open>m\<close> when it is a superset of it. The subset of \<open>m\<close>
  is the list of all matching endpoints, in endpoint order.
\<close>

definition superset_match :: "lb_metadata \<Rightarrow> lb_metadata \<Rightarrow> bool" where
  "superset_match m meta \<longleftrightarrow> (\<forall>k \<in> set (bt_keys m). bt_get meta k = bt_get m k)"

definition matching :: "lb_metadata list \<Rightarrow> lb_metadata \<Rightarrow> nat list" where
  "matching metas m = filter (\<lambda>i. superset_match m (metas ! i)) [0..<length metas]"

definition selector_for :: "LbSubsetConfig \<Rightarrow> lb_metadata \<Rightarrow> bool" where
  "selector_for cfg m \<longleftrightarrow> (\<exists>ks \<in> set (cfg_subset_selectors cfg). set ks = set (bt_keys m))"

definition lookup_spec :: "LbSubsetConfig \<Rightarrow> lb_metadata list \<Rightarrow> lb_metadata \<Rightarrow> nat list option" where
  "lookup_spec cfg metas m =
     (if selector_for cfg m \<and> matching metas m \<noteq> [] then Some (matching metas m) else None)"

definition fallback_spec :: "LbSubsetConfig \<Rightarrow> lb_metadata list \<Rightarrow> eligible" where
  "fallback_spec cfg metas =
     (case cfg_fallback_policy cfg of
        NoFallback \<Rightarrow> EligibleNone
      | AnyEndpoint \<Rightarrow> EligibleAll
      | DefaultSubset \<Rightarrow>
          (case cfg_default_subset cfg of
             None \<Rightarrow> EligibleAll
           | Some d \<Rightarrow> if d = bt_empty then EligibleAll
               else case lookup_spec cfg metas d of
                 Some idxs \<Rightarrow> EligibleSome idxs | None \<Rightarrow> EligibleNone))"

section \<open>Refinement\<close>

lemma btset_of_eq_keys:
  assumes "bt_wf m"
  shows "btset_of ks = bt_keys m \<longleftrightarrow> set ks = set (bt_keys m)"
proof -
  have "sorted (bt_keys m) \<and> distinct (bt_keys m)"
    using assms strict_sorted_iff by (auto simp: bt_wf_def bt_keys_def)
  moreover have "sorted (btset_of ks)" "distinct (btset_of ks)" "set (btset_of ks) = set ks"
    by (simp_all add: btset_of_def)
  ultimately show ?thesis using sorted_distinct_set_unique by metis
qed

lemma bt_get_key: "bt_wf m \<Longrightarrow> k \<in> set (bt_keys m) \<Longrightarrow> bt_get m k \<noteq> None"
  by (metis bt_keys_dom domIff)

lemma in_subset_superset:
  assumes "bt_wf m"
  shows "in_subset (bt_keys m) (value_tuple (bt_keys m) m) meta \<longleftrightarrow> superset_match m meta"
  using bt_get_key [OF assms]
  by (fastforce simp: in_subset_def superset_match_def has_keys_def value_tuple_def list_all_iff)

lemma find_selector:
  assumes "bt_wf m"
  shows "find (\<lambda>s. sel_keys s = bt_keys m) (map (build_selector metas) sels) =
    (if \<exists>ks \<in> set sels. set ks = set (bt_keys m)
     then Some \<lparr>sel_keys = bt_keys m, sel_subsets = index_endpoints (bt_keys m) 0 metas bt_empty\<rparr>
     else None)"
proof (induction sels)
  case Nil
  then show ?case by simp
next
  case (Cons ks sels)
  then show ?case
    using btset_of_eq_keys [OF assms, of ks]
    by (cases "set ks = set (bt_keys m)") (simp_all add: build_selector_def Let_def)
qed

lemma plus_0_fun: "map ((+) (0::nat)) xs = xs"
  by (simp add: map_idI)

lemma subset_build_simps [simp]:
  "ix_fallback (subset_build cfg metas) = cfg_fallback_policy cfg"
  "ix_default_subset (subset_build cfg metas) = cfg_default_subset cfg"
  "ix_selectors (subset_build cfg metas) = map (build_selector metas) (cfg_subset_selectors cfg)"
  by (simp_all add: subset_build_def)

lemma subset_lookup_refines:
  assumes "bt_wf m"
  shows "subset_lookup (subset_build cfg metas) m = lookup_spec cfg metas m"
  using index_endpoints_get [of bt_empty "bt_keys m" 0 metas "value_tuple (bt_keys m) m"] assms
  by (auto simp: subset_lookup_def find_selector lookup_spec_def selector_for_def
      matching_def in_subset_superset opt_append_def plus_0_fun)

lemma subset_fallback_refines:
  assumes "\<forall>d. cfg_default_subset cfg = Some d \<longrightarrow> bt_wf d"
  shows "subset_fallback (subset_build cfg metas) = fallback_spec cfg metas"
  using assms
  by (auto simp: subset_fallback_def fallback_spec_def subset_lookup_refines
      split: LbSubsetFallbackPolicy.splits option.splits)

lemma subset_resolve_spec:
  assumes "\<forall>d. cfg_default_subset cfg = Some d \<longrightarrow> bt_wf d"
    and "\<forall>m. metadata_match = Some m \<longrightarrow> bt_wf m"
  shows "subset_resolve (subset_build cfg metas) metadata_match =
    (if cfg_subset_selectors cfg = [] then EligibleAll
     else case metadata_match of
       None \<Rightarrow> fallback_spec cfg metas
     | Some m \<Rightarrow>
         if m \<noteq> bt_empty \<and> selector_for cfg m \<and> matching metas m \<noteq> []
         then EligibleSome (matching metas m) else fallback_spec cfg metas)"
  using assms subset_fallback_refines [OF assms(1), of metas]
  by (auto simp: subset_resolve_def subset_lookup_refines lookup_spec_def split: option.splits)

text \<open>
  C33. Resolving a route's \<open>metadata_match\<close> against the built index gives exactly what
  the subset policy promises: with no selectors every endpoint; for a non-empty
  match whose key set is some selector's, and which some endpoint satisfies, all
  the endpoints whose metadata is a superset of the match, in endpoint order;
  otherwise the configured fallback. The order in which a selector declares its
  keys does not matter.
\<close>

theorem subset_resolve_refines:
  assumes "\<forall>d. cfg_default_subset cfg = Some d \<longrightarrow> bt_wf d"
    and "\<forall>m. metadata_match = Some m \<longrightarrow> bt_wf m"
  shows "subset_resolve (subset_build cfg metas) metadata_match =
    (if cfg_subset_selectors cfg = [] then EligibleAll
     else case metadata_match of
       None \<Rightarrow> fallback_spec cfg metas
     | Some m \<Rightarrow>
         if m \<noteq> bt_empty \<and> selector_for cfg m \<and> matching metas m \<noteq> []
         then EligibleSome (matching metas m) else fallback_spec cfg metas)"
  using assms by (rule subset_resolve_spec)

theorem subset_resolve_refines_witness:
  "subset_resolve (subset_build
      \<lparr>cfg_fallback_policy = NoFallback, cfg_subset_selectors = [[''v'', ''s'']], cfg_default_subset = None\<rparr>
      [[(''s'', ''p''), (''v'', ''1'')], [(''s'', ''q''), (''v'', ''1'')], [(''s'', ''p''), (''v'', ''1''), (''x'', ''y'')]])
    (Some [(''s'', ''p''), (''v'', ''1'')]) = EligibleSome [0, 2]"
proof -
  let ?cfg = "\<lparr>cfg_fallback_policy = NoFallback, cfg_subset_selectors = [[''v'', ''s'']],
    cfg_default_subset = None\<rparr>"
  let ?m = "[(''s'', ''p''), (''v'', ''1'')]"
  have d: "\<forall>d. cfg_default_subset ?cfg = Some d \<longrightarrow> bt_wf d" by simp
  have m: "\<forall>m. Some ?m = Some m \<longrightarrow> bt_wf m" by (simp add: bt_wf_def)
  show ?thesis
    by (subst subset_resolve_refines [OF d m])
      (auto simp: selector_for_def matching_def superset_match_def bt_keys_def bt_get_def bt_empty_def
        upt_rec)
qed

text \<open>The eligible indices are always in range, and an eligible list is never empty.\<close>

lemma subset_resolve_in_range:
  assumes "subset_resolve (subset_build cfg metas) metadata_match = EligibleSome idxs"
    and "\<forall>d. cfg_default_subset cfg = Some d \<longrightarrow> bt_wf d"
    and "\<forall>m. metadata_match = Some m \<longrightarrow> bt_wf m"
  shows "idxs \<noteq> [] \<and> sorted_wrt (<) idxs \<and> (\<forall>i \<in> set idxs. i < length metas)"
proof -
  have "\<exists>m. idxs = matching metas m \<and> matching metas m \<noteq> []"
    using assms(1) unfolding subset_resolve_spec [OF assms(2,3)]
    by (auto simp: fallback_spec_def lookup_spec_def
        split: if_splits option.splits LbSubsetFallbackPolicy.splits)
  then show ?thesis by (auto simp: matching_def sorted_wrt_filter)
qed

end
