(* ===== verification/Xxhash.thy ===== *)
theory Xxhash
  imports Prelude
begin

unbundle bit_operations_syntax

text \<open>
  \<open>envoy-cluster/src/xxhash.rs\<close>: the seeded xxHash64 behind the ring and Maglev
  load balancers. The input is a byte list; a loop that consumes the slice
  \<open>input\<close> is a recursive function on the remaining bytes.
\<close>

section \<open>The algorithm\<close>

type_synonym bytes = "u8 list"

definition as_bytes :: "string \<Rightarrow> bytes" where
  "as_bytes s = map of_char s"

definition PRIME64_1 :: u64 where "PRIME64_1 = 0x9E3779B185EBCA87"
definition PRIME64_2 :: u64 where "PRIME64_2 = 0xC2B2AE3D27D4EB4F"
definition PRIME64_3 :: u64 where "PRIME64_3 = 0x165667B19E3779F9"
definition PRIME64_4 :: u64 where "PRIME64_4 = 0x85EBCA77C2B2AE63"
definition PRIME64_5 :: u64 where "PRIME64_5 = 0x27D4EB2F165667C5"

definition rotate_left :: "nat \<Rightarrow> u64 \<Rightarrow> u64" where
  "rotate_left k x = push_bit k x OR drop_bit (64 - k) x"

definition from_le_bytes :: "bytes \<Rightarrow> u64" where
  "from_le_bytes bs = foldr (\<lambda>b acc. ucast b + 256 * acc) bs 0"

definition xxh_round :: "u64 \<Rightarrow> u64 \<Rightarrow> u64" where
  "xxh_round acc input = rotate_left 31 (acc + input * PRIME64_2) * PRIME64_1"

definition merge_round :: "u64 \<Rightarrow> u64 \<Rightarrow> u64" where
  "merge_round h acc = (h XOR xxh_round 0 acc) * PRIME64_1 + PRIME64_4"

text \<open>The 32-byte stripes: the four lanes and what is left of the input.\<close>

function stripe_loop :: "u64 \<times> u64 \<times> u64 \<times> u64 \<Rightarrow> bytes \<Rightarrow> (u64 \<times> u64 \<times> u64 \<times> u64) \<times> bytes" where
  "stripe_loop (v1, v2, v3, v4) input =
     (if 32 \<le> length input then
        stripe_loop
          (xxh_round v1 (from_le_bytes (take 8 input)),
           xxh_round v2 (from_le_bytes (take 8 (drop 8 input))),
           xxh_round v3 (from_le_bytes (take 8 (drop 16 input))),
           xxh_round v4 (from_le_bytes (take 8 (drop 24 input))))
          (drop 32 input)
      else ((v1, v2, v3, v4), input))"
  by pat_completeness auto
termination by (relation "measure (\<lambda>(_, input). length input)") auto

definition merge_lanes :: "u64 \<times> u64 \<times> u64 \<times> u64 \<Rightarrow> u64" where
  "merge_lanes v = (case v of (v1, v2, v3, v4) \<Rightarrow>
     let acc = rotate_left 1 v1 + rotate_left 7 v2 + rotate_left 12 v3 + rotate_left 18 v4
     in merge_round (merge_round (merge_round (merge_round acc v1) v2) v3) v4)"

definition tail8_step :: "u64 \<Rightarrow> bytes \<Rightarrow> u64" where
  "tail8_step h chunk =
     rotate_left 27 (h XOR xxh_round 0 (from_le_bytes chunk)) * PRIME64_1 + PRIME64_4"

function tail8_loop :: "u64 \<Rightarrow> bytes \<Rightarrow> u64 \<times> bytes" where
  "tail8_loop h input =
     (if 8 \<le> length input then tail8_loop (tail8_step h (take 8 input)) (drop 8 input)
      else (h, input))"
  by pat_completeness auto
termination by (relation "measure (\<lambda>(_, input). length input)") auto

definition tail4 :: "u64 \<Rightarrow> bytes \<Rightarrow> u64 \<times> bytes" where
  "tail4 h input =
     (if 4 \<le> length input then
        (rotate_left 23 (h XOR from_le_bytes (take 4 input) * PRIME64_1) * PRIME64_2 + PRIME64_3,
         drop 4 input)
      else (h, input))"

definition tail1_step :: "u64 \<Rightarrow> u8 \<Rightarrow> u64" where
  "tail1_step h b = rotate_left 11 (h XOR ucast b * PRIME64_5) * PRIME64_1"

definition avalanche :: "u64 \<Rightarrow> u64" where
  "avalanche h =
     (let h1 = (h XOR drop_bit 33 h) * PRIME64_2;
          h2 = (h1 XOR drop_bit 29 h1) * PRIME64_3
      in h2 XOR drop_bit 32 h2)"

definition xxh64_init :: "u64 \<Rightarrow> bytes \<Rightarrow> u64 \<times> bytes" where
  "xxh64_init seed data =
     (if 32 \<le> length data then
        (let (v, rest) = stripe_loop
               (seed + PRIME64_1 + PRIME64_2, seed + PRIME64_2, seed, seed - PRIME64_1) data
         in (merge_lanes v, rest))
      else (seed + PRIME64_5, data))"

definition xxh64_seed :: "bytes \<Rightarrow> u64 \<Rightarrow> u64" where
  "xxh64_seed data seed =
     (let (h0, input0) = xxh64_init seed data;
          (h1, input1) = tail8_loop (h0 + of_nat (length data)) input0;
          (h2, input2) = tail4 h1 input1
      in avalanche (foldl tail1_step h2 input2))"

definition xxh64 :: "bytes \<Rightarrow> u64" where
  "xxh64 data = xxh64_seed data 0"

declare stripe_loop.simps [simp del] tail8_loop.simps [simp del]

section \<open>Every mixing step is invertible\<close>


lemma mult_unit_inject:
  fixes p q x y :: "'a::len word"
  assumes "p * q = 1"
  shows "x * p = y * p \<longleftrightarrow> x = y"
  by (metis assms mult.assoc mult.right_neutral)

lemma prime_units:
  "PRIME64_1 * 0x0887493432BADB37 = 1"
  "PRIME64_2 * 0x0BA79078168D4BAF = 1"
  "PRIME64_3 * 0xE9E9F4C41D6DF849 = 1"
  by (simp_all add: PRIME64_1_def PRIME64_2_def PRIME64_3_def)

lemmas prime_mult_inject [simp] = prime_units [THEN mult_unit_inject]

lemma xor_inject [simp]:
  fixes a b c :: "'a::len word"
  shows "a XOR c = b XOR c \<longleftrightarrow> a = b" and "c XOR a = c XOR b \<longleftrightarrow> a = b"
  by (metis xor.assoc xor.commute xor_self_eq xor.right_neutral)+

lemma rotate_left_inject [simp]:
  assumes "0 < k" "k < 64"
  shows "rotate_left k x = rotate_left k y \<longleftrightarrow> x = y"
proof
  assume eq: "rotate_left k x = rotate_left k y"
  show "x = y"
  proof (rule bit_eqI)
    fix n assume "possible_bit TYPE(u64) n"
    then have n: "n < 64" by simp
    show "bit x n = bit y n"
    proof (cases "n + k < 64")
      case True
      have "bit (rotate_left k z) (n + k) = bit z n" for z
        using True assms by (auto simp: rotate_left_def bit_simps dest: bit_imp_le_length)
      with eq show ?thesis by metis
    next
      case False
      have "bit (rotate_left k z) (n + k - 64) = bit z n" for z
        using False n assms by (auto simp: rotate_left_def bit_simps)
      with eq show ?thesis by metis
    qed
  qed
qed simp

lemma xorshift_inject:
  fixes x y :: u64
  assumes "0 < k" and eq: "x XOR drop_bit k x = y XOR drop_bit k y"
  shows "x = y"
proof (rule bit_eqI)
  fix n assume "possible_bit TYPE(u64) n"
  show "bit x n = bit y n"
  proof (induction "64 - n" arbitrary: n rule: less_induct)
    case less
    show ?case
    proof (cases "n < 64")
      case True
      with assms(1) have "bit x (n + k) = bit y (n + k)" by (intro less) auto
      moreover have "bit (x XOR drop_bit k x) n = bit (y XOR drop_bit k y) n" by (simp add: eq)
      ultimately show ?thesis by (auto simp: bit_simps add.commute)
    next
      case False
      then show ?thesis by (auto dest: bit_imp_le_length)
    qed
  qed
qed

lemma avalanche_inject [simp]: "avalanche x = avalanche y \<longleftrightarrow> x = y"
  by (auto simp: avalanche_def Let_def dest!: xorshift_inject [rotated])

lemma xxh_round_inject [simp]: "xxh_round acc x = xxh_round acc y \<longleftrightarrow> x = y"
  by (simp add: xxh_round_def)
lemma xxh_round_inject_acc [simp]: "xxh_round a x = xxh_round b x \<longleftrightarrow> a = b"
  by (simp add: xxh_round_def)

lemma tail1_step_inject [simp]: "tail1_step h b = tail1_step h' b \<longleftrightarrow> h = h'"
  by (simp add: tail1_step_def)

lemma tail8_step_inject [simp]: "tail8_step h c = tail8_step h' c \<longleftrightarrow> h = h'"
  by (simp add: tail8_step_def)

lemma tail8_step_inject_chunk:
  "tail8_step h c = tail8_step h c' \<longleftrightarrow> from_le_bytes c = from_le_bytes c'"
  by (simp add: tail8_step_def)

lemma unat_u8: "unat (b :: u8) < 256"
proof -
  have "unat b < 2 ^ LENGTH(8)" by (rule unsigned_less)
  then show ?thesis by simp
qed

lemma from_le_bytes_unat:
  "length bs \<le> 8 \<Longrightarrow> unat (from_le_bytes bs) = foldr (\<lambda>b acc. unat b + 256 * acc) bs 0
     \<and> foldr (\<lambda>b acc. unat b + 256 * acc) bs (0::nat) < 256 ^ length bs"
proof (induction bs)
  case Nil
  then show ?case by (simp add: from_le_bytes_def)
next
  case (Cons b bs)
  let ?v = "foldr (\<lambda>b acc. unat b + 256 * acc) bs (0::nat)"
  have IH: "unat (from_le_bytes bs) = ?v" "?v < 256 ^ length bs" using Cons by simp_all
  have b: "unat b < 256" by (rule unat_u8)
  have bound: "unat b + 256 * ?v < 256 ^ Suc (length bs)"
    using IH(2) b by simp
  also have "\<dots> \<le> 256 ^ 8" using Cons.prems by (intro power_increasing) auto
  finally have "unat b + 256 * ?v < 2 ^ 64" by simp
  moreover have "from_le_bytes (b # bs) = ucast b + 256 * from_le_bytes bs"
    by (simp add: from_le_bytes_def)
  ultimately show ?case
    using IH(1) bound using unat_u8 [of b] by (simp add: unat_word_ariths unsigned_ucast_eq take_bit_nat_eq_self)
qed

lemma foldr_base256_inject:
  "length xs = length ys \<Longrightarrow>
   foldr (\<lambda>b acc. unat b + 256 * acc) xs (0::nat) = foldr (\<lambda>b acc. unat b + 256 * acc) ys 0
   \<Longrightarrow> xs = (ys :: bytes)"
proof (induction xs ys rule: list_induct2)
  case (Cons x xs y ys)
  let ?f = "\<lambda>zs. foldr (\<lambda>b acc. unat (b::u8) + 256 * acc) zs (0::nat)"
  have lt: "unat x < 256" "unat y < 256" by (rule unat_u8)+
  have eq: "unat x + 256 * ?f xs = unat y + 256 * ?f ys" using Cons.prems by simp
  then have "(unat x + 256 * ?f xs) mod 256 = (unat y + 256 * ?f ys) mod 256" by simp
  then have "unat x = unat y" using lt by simp
  with eq Cons.IH show ?case by (simp add: word_unat_eq_iff)
qed simp

lemma from_le_bytes_inject:
  "length xs \<le> 8 \<Longrightarrow> length ys = length xs \<Longrightarrow> from_le_bytes xs = from_le_bytes ys \<longleftrightarrow> xs = ys"
  by (metis from_le_bytes_unat foldr_base256_inject)

lemma xxh64_seed_8:
  assumes "length d = 8"
  shows "xxh64_seed d s = avalanche (tail8_step (s + PRIME64_5 + 8) d)"
  using assms
  by (simp add: xxh64_seed_def xxh64_init_def tail8_loop.simps [of _ d]
      tail8_loop.simps [of _ "[]"] tail4_def)

lemma tail8_loop_inject:
  "fst (tail8_loop h d) = fst (tail8_loop h' d) \<longleftrightarrow> h = h'"
proof (induction h d arbitrary: h' rule: tail8_loop.induct)
  case (1 h input)
  then show ?case
    by (simp add: tail8_loop.simps [of _ input])
qed

lemma tail8_loop_rest: "snd (tail8_loop h d) = snd (tail8_loop h' d)"
proof (induction h d arbitrary: h' rule: tail8_loop.induct)
  case (1 h input)
  show ?case
  proof (cases "8 \<le> length input")
    case True
    have "snd (tail8_loop (tail8_step h (take 8 input)) (drop 8 input)) =
        snd (tail8_loop (tail8_step h' (take 8 input)) (drop 8 input))"
      by (rule 1 [OF True])
    then show ?thesis
      using True by (simp only: tail8_loop.simps [of h input] tail8_loop.simps [of h' input] if_True)
  next
    case False
    then show ?thesis by (simp add: tail8_loop.simps [of _ input])
  qed
qed

lemma tail4_inject: "fst (tail4 h d) = fst (tail4 h' d) \<longleftrightarrow> h = h'"
  by (simp add: tail4_def)

lemma tail4_rest: "snd (tail4 h d) = snd (tail4 h' d)"
  by (simp add: tail4_def)

lemma tail1_foldl_inject: "foldl tail1_step h d = foldl tail1_step h' d \<longleftrightarrow> h = h'"
  by (induction d arbitrary: h h') auto

section \<open>Properties\<close>

text \<open>
  The implementation reproduces the locked test vectors of xxHash64: the empty
  input, a short tail, one 32-byte stripe with a tail, the key of a ring entry,
  and the seed-1 hash of a Maglev host key.
\<close>

theorem xxh64_vectors:
  "xxh64 [] = 0xEF46DB3751D8E999
   \<and> xxh64 (as_bytes ''abc'') = 0x44BC2CF5AD770999
   \<and> xxh64 (as_bytes ''The quick brown fox jumps over the lazy dog'') = 0x0B242D361FDA71BC
   \<and> xxh64 (as_bytes ''172.22.0.2:5678_0'') = 0xFB4D13869ECAFECD
   \<and> xxh64_seed (as_bytes ''172.31.0.2:5678'') 1 = 0x57A56BCE7E3AE555"
  by (intro conjI) code_simp+

text \<open>
  Two different 8-byte inputs never collide, whatever the seed.
\<close>

theorem xxh64_injective_on_8_bytes:
  assumes "length a = 8" "length b = 8"
  shows "xxh64_seed a s = xxh64_seed b s \<longleftrightarrow> a = b"
  using assms
  by (simp add: xxh64_seed_8 tail8_step_inject_chunk from_le_bytes_inject)

theorem xxh64_injective_on_8_bytes_witness:
  "xxh64_seed (as_bytes ''10.0.0.1'') 1 \<noteq> xxh64_seed (as_bytes ''10.0.0.2'') 1"
proof -
  have l: "length (as_bytes ''10.0.0.1'') = 8" "length (as_bytes ''10.0.0.2'') = 8"
    and ne: "as_bytes ''10.0.0.1'' \<noteq> as_bytes ''10.0.0.2''"
    by (simp_all add: as_bytes_def)
  show ?thesis using xxh64_injective_on_8_bytes [OF l, of 1] ne by simp
qed

text \<open>
  For an input of fewer than 32 bytes (every IPv4 \<open>ip:port\<close> host key), distinct
  seeds give distinct hashes: the seed-0 and the seed-1 hash of a Maglev host key
  are never the same value.
\<close>

theorem xxh64_seed_separates:
  assumes "length d < 32"
  shows "xxh64_seed d s = xxh64_seed d s' \<longleftrightarrow> s = s'"
proof -
  let ?t = "\<lambda>s. tail8_loop (s + PRIME64_5 + of_nat (length d)) d"
  have eq: "xxh64_seed d s = avalanche (foldl tail1_step (fst (tail4 (fst (?t s)) (snd (?t s))))
      (snd (tail4 (fst (?t s)) (snd (?t s)))))" for s
    using assms by (simp add: xxh64_seed_def xxh64_init_def case_prod_beta)
  have r: "snd (?t s) = snd (?t s')" by (rule tail8_loop_rest)
  have r4: "snd (tail4 (fst (?t s)) (snd (?t s'))) = snd (tail4 (fst (?t s')) (snd (?t s')))"
    by (rule tail4_rest)
  show ?thesis
    unfolding eq r r4 by (simp add: tail1_foldl_inject tail4_inject tail8_loop_inject)
qed

theorem xxh64_seed_separates_witness:
  "xxh64_seed (as_bytes ''172.31.0.2:5678'') 0 \<noteq> xxh64_seed (as_bytes ''172.31.0.2:5678'') 1"
proof -
  have l: "length (as_bytes ''172.31.0.2:5678'') < 32" by (simp add: as_bytes_def)
  show ?thesis using xxh64_seed_separates [OF l, of 0 1] by simp
qed

end
