(* ===== verification/Ring_Hash.thy ===== *)
theory Ring_Hash
  imports Xxhash "HOL-Library.Multiset"
begin

text \<open>
  \<open>envoy-cluster/src/ring_hash.rs\<close>: the consistent-hashing ring of the
  \<open>RING_HASH\<close> load balancer, an ascending list of (hash, host index) entries.
\<close>

section \<open>The ring\<close>

type_synonym hash_ring = "(u64 \<times> nat) list"

definition ring_key :: "string \<Rightarrow> nat \<Rightarrow> string" where
  "ring_key address i = address @ ''_'' @ show_nat i"

definition host_entries :: "nat \<Rightarrow> nat \<times> string \<Rightarrow> (u64 \<times> nat) list" where
  "host_entries replicas h =
     map (\<lambda>i. (xxh64 (as_bytes (ring_key (snd h) i)), fst h)) [0..<replicas]"

definition ring_entries :: "string list \<Rightarrow> nat \<Rightarrow> hash_ring" where
  "ring_entries addresses replicas = sort_key fst (concat (map (host_entries replicas) (enumerate 0 addresses)))"

text \<open>
  \<open>None\<close> is the panic of \<open>Vec::with_capacity\<close>: an entry takes sixteen bytes and no allocation may reach
  \<open>isize::MAX + 1\<close> bytes. The size is a \<open>u64\<close>; the product of hosts and replicas is at most the size and does not wrap.
\<close>

definition ring_build :: "string list \<Rightarrow> nat \<Rightarrow> hash_ring option" where
  "ring_build addresses min_ring_size =
     (let num_hosts = length addresses in
      if num_hosts = 0 then Some []
      else let replicas = min_ring_size div num_hosts in
        if 16 * (num_hosts * replicas) \<ge> 2 ^ 63 then None
        else Some (ring_entries addresses replicas))"

text \<open>
  \<open>slice::partition_point\<close> on a slice that is partitioned by the predicate: the
  index of the first element that does not satisfy it.
\<close>

definition partition_point :: "('a \<Rightarrow> bool) \<Rightarrow> 'a list \<Rightarrow> nat" where
  "partition_point P xs = length (takeWhile P xs)"

definition ring_lookup :: "hash_ring \<Rightarrow> u64 \<Rightarrow> nat option" where
  "ring_lookup entries key_hash =
     (if entries = [] then None
      else let pos = partition_point (\<lambda>e. fst e < key_hash) entries;
               idx = (if pos = length entries then 0 else pos)
           in Some (snd (entries ! idx)))"

section \<open>The entries\<close>

lemma set_ring_entries:
  "set (ring_entries addresses r) =
     {(xxh64 (as_bytes (ring_key (addresses ! h) i)), h) | h i. h < length addresses \<and> i < r}"
proof -
  have "set (ring_entries addresses r) = (\<Union>h \<in> set (enumerate 0 addresses). set (host_entries r h))"
    by (simp add: ring_entries_def)
  also have "set (enumerate 0 addresses) = {(h, addresses ! h) | h. h < length addresses}"
    by (auto simp: in_set_enumerate_eq)
  finally show ?thesis by (auto simp: host_entries_def)
qed

lemma ring_build_Some:
  assumes "ring_build addresses m = Some ring"
  shows "ring = ring_entries addresses (m div length addresses)"
  using assms by (auto simp: ring_build_def ring_entries_def Let_def split: if_splits)

text \<open>A ring below \<open>2 ^ 59\<close> entries is always built.\<close>

lemma ring_build_small:
  assumes "m < 2 ^ 59"
  shows "ring_build addresses m = Some (ring_entries addresses (m div length addresses))"
proof -
  have "length addresses * (m div length addresses) \<le> m" by simp
  moreover have "(2::nat) ^ 63 = 16 * 2 ^ 59" by simp
  ultimately have "16 * (length addresses * (m div length addresses)) < 2 ^ 63" using assms by linarith
  then show ?thesis by (auto simp: ring_build_def ring_entries_def Let_def mult.commute)
qed

lemma sum_list_replicate_const: "sum_list (map (\<lambda>_. c) xs) = length xs * (c::nat)"
  by (induction xs) auto

lemma count_hosts:
  "length (filter (\<lambda>e. snd e = h) (concat (map (host_entries r) (enumerate k addresses)))) =
     (if k \<le> h \<and> h < k + length addresses then r else 0)"
proof (induction addresses arbitrary: k)
  case Nil
  then show ?case by simp
next
  case (Cons a addresses)
  have "filter (\<lambda>e. snd e = h) (host_entries r (k, a)) = (if h = k then host_entries r (k, a) else [])"
    by (auto simp: host_entries_def filter_empty_conv intro: filter_True)
  then show ?case using Cons.IH [of "Suc k"] by (auto simp: host_entries_def)
qed

lemma ring_entries_count:
  "length (filter (\<lambda>e. snd e = h) (ring_entries addresses r)) = (if h < length addresses then r else 0)"
proof -
  let ?es = "concat (map (host_entries r) (enumerate 0 addresses))"
  have "mset (filter (\<lambda>e. snd e = h) (sort_key fst ?es)) = mset (filter (\<lambda>e. snd e = h) ?es)" by simp
  then have "length (filter (\<lambda>e. snd e = h) (sort_key fst ?es)) = length (filter (\<lambda>e. snd e = h) ?es)" by (metis size_mset)
  then show ?thesis using count_hosts [of h r 0 addresses] by (simp add: ring_entries_def)
qed

section \<open>The lookup\<close>

lemma partition_point_nth:
  "partition_point P xs < length xs \<Longrightarrow> \<not> P (xs ! partition_point P xs)"
  by (simp add: partition_point_def nth_length_takeWhile)

lemma partition_point_le: "partition_point P xs \<le> length xs"
  by (simp add: partition_point_def length_takeWhile_le)

lemma partition_point_before: "i < partition_point P xs \<Longrightarrow> P (xs ! i)"
  unfolding partition_point_def by (metis nth_mem set_takeWhileD takeWhile_nth)

text \<open>
  The clockwise successor: the host of an entry whose hash is the smallest one not below the key, or of an entry with the
  smallest hash of all when the key is above every entry.
\<close>

definition clockwise_host :: "(u64 \<times> nat) set \<Rightarrow> u64 \<Rightarrow> nat \<Rightarrow> bool" where
  "clockwise_host ring k h \<longleftrightarrow> (\<exists>e \<in> ring. snd e = h \<and>
     (if \<exists>e' \<in> ring. k \<le> fst e'
      then k \<le> fst e \<and> (\<forall>e' \<in> ring. k \<le> fst e' \<longrightarrow> fst e \<le> fst e')
      else \<forall>e' \<in> ring. fst e \<le> fst e'))"

lemma ring_lookup_successor:
  assumes "sorted (map fst ring)" and "ring \<noteq> []"
  shows "\<exists>h. ring_lookup ring k = Some h \<and> clockwise_host (set ring) k h"
proof -
  let ?P = "\<lambda>e. fst e < k"
  let ?pos = "partition_point ?P ring"
  have mono: "fst (ring ! i) \<le> fst (ring ! j)" if "i \<le> j" "j < length ring" for i j
    using sorted_nth_mono [OF assms(1), of i j] that by simp
  have lt: "i < ?pos \<Longrightarrow> fst (ring ! i) < k" for i
    using partition_point_before [of i ?P ring] by simp
  show ?thesis
  proof (cases "?pos = length ring")
    case True
    then have none: "\<not> (\<exists>e' \<in> set ring. k \<le> fst e')"
      using lt by (metis in_set_conv_nth not_le)
    have "\<forall>e' \<in> set ring. fst (ring ! 0) \<le> fst e'"
      using mono by (metis in_set_conv_nth le0)
    with True none assms(2) show ?thesis
      by (intro exI [of _ "snd (ring ! 0)"] conjI)
        (auto simp: ring_lookup_def Let_def clockwise_host_def intro!: bexI [of _ "ring ! 0"])
  next
    case False
    then have less: "?pos < length ring" using partition_point_le [of ?P ring] by simp
    then have ge: "k \<le> fst (ring ! ?pos)" using partition_point_nth [of ?P ring] by (simp add: not_less)
    have "fst (ring ! ?pos) \<le> fst e'" if "e' \<in> set ring" "k \<le> fst e'" for e'
    proof -
      from that obtain j where j: "j < length ring" "e' = ring ! j" by (auto simp: in_set_conv_nth)
      with that have "\<not> j < ?pos" using lt [of j] by auto
      with j mono show ?thesis by simp
    qed
    with less ge False show ?thesis
      by (intro exI [of _ "snd (ring ! ?pos)"] conjI)
        (auto simp: ring_lookup_def Let_def clockwise_host_def intro!: bexI [of _ "ring ! ?pos"])
  qed
qed

lemma ring_lookup_in_ring: "ring_lookup ring k = Some h \<Longrightarrow> h \<in> snd ` set ring"
  using partition_point_le [of "\<lambda>e. fst e < k" ring]
  by (auto simp: ring_lookup_def Let_def split: if_splits)

lemma ring_lookup_host: "ring_lookup (ring_entries addresses r) k = Some h \<Longrightarrow> h < length addresses"
  by (drule ring_lookup_in_ring) (auto simp: set_ring_entries)

text \<open>
  C34. The ring of a host set. It is built exactly while its entries fit the address space; each host then has
  \<open>minimum_ring_size div num_hosts\<close> entries, the entry \<open>i\<close> of a host at the hash of \<open>address_i\<close>, and a key is served by its
  clockwise successor among them. There is no host for a key only when there is no entry: without hosts, or with more
  hosts than the minimum size.
\<close>

theorem ring_hash_successor:
  "case ring_build addresses m of
     None \<Rightarrow> 2 ^ 59 \<le> m
   | Some ring \<Rightarrow>
       set ring = {(xxh64 (as_bytes (ring_key (addresses ! h) i)), h) | h i.
         h < length addresses \<and> i < m div length addresses}
       \<and> (\<forall>h. length (filter (\<lambda>e. snd e = h) ring) = (if h < length addresses then m div length addresses else 0))
       \<and> (case ring_lookup ring k of
            None \<Rightarrow> m < length addresses \<or> addresses = []
          | Some h \<Rightarrow> h < length addresses \<and> clockwise_host (set ring) k h)"
proof (cases "ring_build addresses m")
  case None
  then have "\<not> m < 2 ^ 59" using ring_build_small [of m addresses] by auto
  with None show ?thesis by simp
next
  case (Some ring)
  note ring = ring_build_Some [OF Some]
  have sorted: "sorted (map fst ring)" by (simp add: ring ring_entries_def)
  show ?thesis
  proof (cases "ring = []")
    case True
    then have e: "set (ring_entries addresses (m div length addresses)) = {}" by (simp add: ring)
    have "m < length addresses \<or> addresses = []"
    proof (rule ccontr)
      assume "\<not> (m < length addresses \<or> addresses = [])"
      then have "0 < length addresses \<and> 0 < m div length addresses" by (simp add: div_greater_zero_iff)
      then show False using e unfolding set_ring_entries by blast
    qed
    then show ?thesis
      using True Some set_ring_entries [of addresses "m div length addresses"]
        ring_entries_count [of _ addresses "m div length addresses"]
      by (simp add: ring ring_lookup_def)
  next
    case False
    from ring_lookup_successor [OF sorted this, of k] obtain h where
      h: "ring_lookup ring k = Some h" "clockwise_host (set ring) k h" by blast
    then have "h < length addresses" using ring_lookup_host [of addresses] unfolding ring by blast
    with Some h show ?thesis
      using set_ring_entries [of addresses "m div length addresses"]
        ring_entries_count [of _ addresses "m div length addresses"]
      by (simp add: ring)
  qed
qed

text \<open>A minimum size that the validator accepts makes the allocation panic.\<close>

lemma oversized_ring_panics: "addresses \<noteq> [] \<Longrightarrow> length addresses dvd m \<Longrightarrow> 2 ^ 59 \<le> m \<Longrightarrow> ring_build addresses m = None"
  by (simp add: ring_build_def Let_def)

lemma ring_build_undersized: "m < length addresses \<Longrightarrow> ring_build addresses m = Some []"
  using ring_build_small [of m addresses] set_ring_entries [of addresses 0]
  by (auto simp: ring_build_def Let_def)

end
