(* ===== verification/Lb_Config.thy ===== *)
theory Lb_Config
  imports Prelude Complex_Main
begin

text \<open>
  The load-balancer part of the cluster configuration
  (\<open>envoy-config/src/bootstrap.rs\<close>): the policy, the RING_HASH and MAGLEV knobs
  with their serde defaults, and the checks \<open>validate_cluster\<close> makes of them.
  A \<open>u64\<close> read from the configuration is its value as a \<^typ>\<open>nat\<close>.
\<close>

section \<open>Schema\<close>

datatype LbPolicy = RoundRobin | RingHash | Maglev

datatype HashFunction = XxHash | MurmurHash2

record RingHashLbConfig =
  minimum_ring_size :: nat
  maximum_ring_size :: nat
  hash_function :: HashFunction

definition default_ring_hash_lb_config :: RingHashLbConfig where
  "default_ring_hash_lb_config =
     \<lparr>minimum_ring_size = 1024, maximum_ring_size = 8388608, hash_function = XxHash\<rparr>"

record MaglevLbConfig =
  table_size :: nat

definition default_maglev_table_size :: nat where
  "default_maglev_table_size = 65537"

datatype RoutingPriority = DefaultPriority | HighPriority

text \<open>
  The variants of \<open>ConfigError\<close> that the checks can return. The ones of the filter checks
  form a group of their own, which the constructor \<open>HttpFilterConfig\<close> embeds; a free-text
  detail that only repeats another field is left out.
\<close>

datatype (plugins only: code) HttpFilterConfigError =
    EmptyHttpFilters string
  | UnsupportedHttpFilter string
  | DuplicateRouterFilter string
  | RouterNotTerminal string nat
  | EmptyHeaderMutationKey string nat
  | InvalidHeaderMutationKey string nat string
  | UnsupportedHeaderMutationAppendAction string nat string
  | EmptyLocalRateLimitStatPrefix string
  | TokenBucketMaxTokensMustBePositive string
  | InvalidTokenBucketFillInterval string
  | UnsupportedLocalRateLimitStatusCode string nat
  | InvalidFaultAbortStatus string nat
  | FaultPercentageOutOfRange string nat nat
  | UnsupportedFractionalFaultPercentage string nat nat
  | CdnLoopEmptyCdnId string
  | CdnLoopInvalidCdnId string string
  | UnsupportedHealthCheckField string string
  | UnsupportedHealthCheckPseudoHeader string string
  | SetMetadataEmptyNamespace string
  | HeaderToMetadataInvalidRule string string
  | JwtAuthnNoProviders string
  | JwtAuthnInvalidJwks string string
  | JwtAuthnUnknownProvider string string
  | UnsupportedRuntimeFractionInJwtRule string
  | EmptyRbacPolicies string
  | EmptyRbacPolicyPermissions string string
  | EmptyRbacPolicyPrincipals string string
  | RbacTreeTooDeep string string nat
  | EmptyRbacPermissionSet string string string
  | EmptyRbacPrincipalSet string string string
  | RbacMetadataMatcherInvalid string string string
  | EmptyNetworkRbacStatPrefix string
  | UnsupportedNetworkRbacMatcher string string string string
  | InvalidCidrRange string string string

datatype (plugins only: code) ConfigError =
    UnsupportedHashFunction string
  | RingSizeInversion string nat nat
  | MaglevTableSizeTooLarge string nat
  | MaglevTableSizeNotPrime string nat
  | InvalidClusterIdleTimeout string
  | MissingEdsClusterConfig string
  | MissingLoadAssignment string
  | EdsConfigOnNonEdsCluster string
  | LoadAssignmentNameMismatch string string
  | EmptyClusterEndpoints string
  | UnknownTransportSocketName string
  | InvalidAlpnProtocol string nat nat
  | EmptyTlsCertificates string
  | MissingValidationContext
  | UnsupportedDataSource string string
  | EmptyUpstreamSni
  | MismatchedTransportSocketDirection string string
  | UnsupportedTypedConfigUrl string string
  | MutuallyExclusiveExplicitHttpConfig string
  | Http2ProtocolOptionsOutOfRange string nat "nat \<times> nat"
  | UnsupportedMultipleHealthChecks string
  | MultipleHealthCheckers string
  | UnsupportedHealthCheckType string
  | GrpcHealthCheckRequiresHttp2 string
  | InvalidHealthCheckThreshold string string
  | InvalidHealthCheckTiming string string
  | EmptyHealthCheckPath string
  | InvalidInt64Range int int
  | InvalidHealthCheckPayloadHex string string
  | InvalidHealthCheckPayloadBase64 string string
  | EmptyHealthCheckPayload string
  | InvalidPanicThreshold string rat
  | UnsupportedMultipleCircuitBreakerThresholds string
  | UnsupportedCircuitBreakerPriority string RoutingPriority
  | InvalidMaxConnections string nat
  | UnsupportedNonZeroMaxPendingRequests string nat
  | InvalidOutlierDetectionThreshold string string
  | InvalidOutlierDetectionTiming string string
  | InvalidMaxEjectionPercent string nat
  | LoadAssignmentOnEdsCluster string
  | EmptyHeaderName
  | InvalidRegex string
  | EmptyRuntimeLayerName nat
  | RuntimeLayerMissingSpecifier string
  | UnsupportedRuntimeLayerType string string
  | RuntimeLayerMultipleSpecifiers string
  | DuplicateRuntimeLayerName string
  | UnsupportedNonDeterministicRuntimeFraction string string string string
  | UnsupportedMapShapedRuntimeKey string string string
  | UnsupportedNonDeterministicRuntimeFractionDefault string string nat nat
  | UnsupportedRouteMatcher string
  | UnsupportedDomainMatcher string
  | EmptyVirtualHosts string
  | EmptyRoutes string
  | EmptyDomains string
  | InvalidStatusCode nat
  | UnknownCluster string
  | Http2ClusterFromHttp1Listener string string
  | PerRouteConfigForAbsentFilter string
  | RedirectPathRewriteConflict string string
  | RedirectSchemeRewriteConflict string string
  | UnsupportedHashPolicy string
  | UnsupportedRuntimeKeyedCsrfFilterEnabled string
  | UnsupportedNonDeterministicCsrfFilterEnabled string
  | HttpFilterConfig HttpFilterConfigError

section \<open>The checks\<close>

function is_prime_loop :: "nat \<Rightarrow> nat \<Rightarrow> bool" where
  "is_prime_loop n d =
     (if d * d \<le> n then (if d dvd n then False else is_prime_loop n (d + 2)) else True)"
  by pat_completeness auto
termination
proof (relation "measure (\<lambda>(n, d). n + 2 - d)")
  fix n d :: nat
  assume "d * d \<le> n"
  then have "d \<le> n" by (meson le_square le_trans)
  then show "((n, d + 2), (n, d)) \<in> measure (\<lambda>(n, d). n + 2 - d)" by simp
qed simp

definition is_prime :: "nat \<Rightarrow> bool" where
  "is_prime n = (if n < 2 then False else if 2 dvd n then n = 2 else is_prime_loop n 3)"

definition MAGLEV_MAX_TABLE_SIZE :: nat where
  "MAGLEV_MAX_TABLE_SIZE = 5000011"

definition validate_lb :: "string \<Rightarrow> LbPolicy \<Rightarrow> RingHashLbConfig option \<Rightarrow> MaglevLbConfig option
    \<Rightarrow> ConfigError + unit" where
  "validate_lb cluster policy ring maglev =
     (case (if policy = RingHash then ring else None) of
        Some cfg \<Rightarrow>
          if hash_function cfg = MurmurHash2 then Inl (UnsupportedHashFunction cluster)
          else if minimum_ring_size cfg > maximum_ring_size cfg then
            Inl (RingSizeInversion cluster (minimum_ring_size cfg) (maximum_ring_size cfg))
          else Inr ()
      | None \<Rightarrow>
          (case (if policy = Maglev then maglev else None) of
             Some cfg \<Rightarrow>
               if table_size cfg > MAGLEV_MAX_TABLE_SIZE then
                 Inl (MaglevTableSizeTooLarge cluster (table_size cfg))
               else if \<not> is_prime (table_size cfg) then
                 Inl (MaglevTableSizeNotPrime cluster (table_size cfg))
               else Inr ()
           | None \<Rightarrow> Inr ()))"

text \<open>The table size \<open>from_bootstrap\<close> builds with: the configured one or the default.\<close>

definition maglev_table_size :: "MaglevLbConfig option \<Rightarrow> nat" where
  "maglev_table_size maglev = (case maglev of Some c \<Rightarrow> table_size c | None \<Rightarrow> 65537)"

definition ring_minimum_size :: "RingHashLbConfig option \<Rightarrow> nat" where
  "ring_minimum_size ring = (case ring of Some c \<Rightarrow> minimum_ring_size c | None \<Rightarrow> 1024)"

section \<open>Primality\<close>

definition prime_nat :: "nat \<Rightarrow> bool" where
  "prime_nat n \<longleftrightarrow> 2 \<le> n \<and> (\<forall>d. d dvd n \<longrightarrow> d = 1 \<or> d = n)"

declare is_prime_loop.simps [simp del]

lemma is_prime_loop_iff: "is_prime_loop n d \<longleftrightarrow> (\<forall>k. (d + 2 * k) * (d + 2 * k) \<le> n \<longrightarrow> \<not> (d + 2 * k) dvd n)"
proof (induction n d rule: is_prime_loop.induct)
  case (1 n d)
  have shift: "(\<forall>k. P (d + 2 * k)) \<longleftrightarrow> P d \<and> (\<forall>k. P (d + 2 + 2 * k))" for P :: "nat \<Rightarrow> bool"
  proof
    assume a: "\<forall>k. P (d + 2 * k)"
    have "P (d + 2 + 2 * k)" for k using a [rule_format, of "Suc k"] by (simp add: algebra_simps)
    then show "P d \<and> (\<forall>k. P (d + 2 + 2 * k))" using a [rule_format, of 0] by simp
  next
    assume "P d \<and> (\<forall>k. P (d + 2 + 2 * k))"
    then have "P (d + 2 * k)" for k by (cases k) (auto simp: algebra_simps)
    then show "\<forall>k. P (d + 2 * k)" by simp
  qed
  show ?case
  proof (cases "d * d \<le> n \<and> \<not> d dvd n")
    case True
    with 1 show ?thesis
      using shift [of "\<lambda>e. e * e \<le> n \<longrightarrow> \<not> e dvd n"] by (simp add: is_prime_loop.simps [of n d])
  next
    case False
    moreover have "\<not> (d + 2 * k) * (d + 2 * k) \<le> n" if "\<not> d * d \<le> n" for k
      using that mult_le_mono [of d "d + 2 * k" d "d + 2 * k"] by simp
    ultimately show ?thesis
      using shift [of "\<lambda>e. e * e \<le> n \<longrightarrow> \<not> e dvd n"] by (auto simp: is_prime_loop.simps [of n d])
  qed
qed

lemma least_divisor_square:
  assumes "2 \<le> n" "\<not> prime_nat n"
  shows "\<exists>e. 2 \<le> e \<and> e dvd n \<and> e * e \<le> n"
proof -
  obtain d where d: "d dvd n" "d \<noteq> 1" "d \<noteq> n" using assms by (auto simp: prime_nat_def)
  then obtain e where e: "n = d * e" by blast
  have "2 \<le> d" "2 \<le> e" using d e assms(1)
    by (metis One_nat_def Suc_1 Suc_leI less_one linorder_neqE_nat mult_eq_0_iff mult.right_neutral
        not_numeral_le_zero le_0_eq)+
  moreover have "d * d \<le> n \<or> e * e \<le> n"
    using e by (metis mult_le_mono le_cases order_refl)
  ultimately show ?thesis using d(1) e by (metis dvd_triv_right)
qed

lemma prime_nat_2: "prime_nat 2"
proof -
  have "d = 1 \<or> d = 2" if "d dvd 2" for d :: nat
    using that dvd_imp_le [of d 2] by (cases "d = 0") auto
  then show ?thesis by (simp add: prime_nat_def)
qed

text \<open>
  The trial-division test accepts exactly the primes.
\<close>

lemma is_prime_correct: "is_prime n \<longleftrightarrow> prime_nat n"
proof (cases "n < 2 \<or> 2 dvd n")
  case True
  then show ?thesis
  proof
    assume "n < 2"
    then show ?thesis by (simp add: is_prime_def prime_nat_def)
  next
    assume "2 dvd n"
    then have "prime_nat n \<longleftrightarrow> n = 2"
      using prime_nat_2 by (auto simp: prime_nat_def)
    with \<open>2 dvd n\<close> show ?thesis
      by (simp add: is_prime_def)
  qed
next
  case False
  then have odd: "odd n" and n: "2 \<le> n" by auto
  have "prime_nat n" if loop: "is_prime_loop n 3"
  proof (rule ccontr)
    assume "\<not> prime_nat n"
    with n obtain e where e: "2 \<le> e" "e dvd n" "e * e \<le> n" using least_divisor_square by blast
    with odd have "odd e" using dvd_trans by blast
    then obtain j where j: "e = 2 * j + 1" by (elim oddE)
    with e(1) have "e = 3 + 2 * (j - 1)" by (cases j) auto
    with loop e show False unfolding is_prime_loop_iff by metis
  qed
  moreover have "is_prime_loop n 3" if p: "prime_nat n"
    unfolding is_prime_loop_iff
  proof (intro allI impI notI)
    fix k assume sq: "(3 + 2 * k) * (3 + 2 * k) \<le> n" and dvd: "3 + 2 * k dvd n"
    then have "3 + 2 * k = n" using p by (auto simp: prime_nat_def)
    with sq show False by (simp add: algebra_simps)
  qed
  ultimately show ?thesis using False by (auto simp: is_prime_def)
qed

text \<open>
  The validator accepts a configured MAGLEV table size exactly when it is a prime no
  larger than 5000011, and otherwise names the size in the error of the violated rule,
  the size limit first.
\<close>

theorem maglev_validation_exact:
  "validate_lb cl Maglev ring (Some \<lparr>table_size = n\<rparr>) =
     (if n > 5000011 then Inl (MaglevTableSizeTooLarge cl n)
      else if prime_nat n then Inr ()
      else Inl (MaglevTableSizeNotPrime cl n))"
  by (simp add: validate_lb_def MAGLEV_MAX_TABLE_SIZE_def is_prime_correct)

end
