(* ===== verification/Maglev_Table.thy ===== *)
theory Maglev_Table
  imports Xxhash Lb_Config
begin

text \<open>
  \<open>envoy-cluster/src/maglev.rs\<close>: the lookup table of the \<open>MAGLEV\<close> load balancer.
  Slots hold \<open>None\<close> where the code has \<open>usize::MAX\<close> (unclaimed) and \<open>Some h\<close>
  once host \<open>h\<close> has claimed them. All hashing and cursor arithmetic is on \<open>u64\<close>
  words, so that the overflow remark of the source is a theorem here.

  Neither loop of \<open>build\<close> ends for every input: the probe runs forever when a
  host's permutation misses every free slot. Both are \<open>partial_function (option)\<close>,
  with \<open>None\<close> for not returning, and the termination for every size the validator
  accepts is proved below.
\<close>

section \<open>The table\<close>

record maglev_table =
  mg_table :: "nat list"
  mg_size :: u64

datatype maglev_panic = RemByZero

definition maglev_slot :: "u64 \<Rightarrow> u64 \<Rightarrow> u64 \<Rightarrow> u64 \<Rightarrow> nat" where
  "maglev_slot M off sk j = unat ((off + j * sk) mod M)"

partial_function (option) maglev_probe ::
    "nat option list \<Rightarrow> u64 \<Rightarrow> u64 \<Rightarrow> u64 \<Rightarrow> u64 \<Rightarrow> (u64 \<times> nat) option" where
  "maglev_probe table M off sk j =
     (let c = maglev_slot M off sk j in
      if table ! c \<noteq> None then maglev_probe table M off sk (j + 1) else Some (j, c))"

partial_function (option) maglev_claim ::
    "u64 \<Rightarrow> u64 list \<Rightarrow> u64 list \<Rightarrow> nat \<Rightarrow> u64 list \<Rightarrow> nat option list \<Rightarrow> nat
      \<Rightarrow> nat option list option" where
  "maglev_claim M offs sks host nxt table filled =
     (case maglev_probe table M (offs ! host) (sks ! host) (nxt ! host) of
        None \<Rightarrow> None
      | Some (j, c) \<Rightarrow>
          let table' = table[c := Some host];
              nxt' = nxt[host := j + 1];
              filled' = filled + 1
          in if filled' = length table then Some table'
             else maglev_claim M offs sks (if host + 1 < length offs then host + 1 else 0)
                    nxt' table' filled')"

definition maglev_build :: "string list \<Rightarrow> u64 \<Rightarrow> (maglev_panic + maglev_table) option" where
  "maglev_build addresses M =
     (let m = unat M; n = length addresses in
      if n = 0 \<or> m = 0 then Some (Inr \<lparr>mg_table = [], mg_size = M\<rparr>)
      else if M - 1 = 0 then Some (Inl RemByZero)
      else
        let offs = map (\<lambda>a. xxh64_seed (as_bytes a) 0 mod M) addresses;
            sks = map (\<lambda>a. xxh64_seed (as_bytes a) 1 mod (M - 1) + 1) addresses
        in map_option (\<lambda>t. Inr \<lparr>mg_table = map the t, mg_size = M\<rparr>)
             (maglev_claim M offs sks 0 (replicate n 0) (replicate m None) 0))"

definition maglev_lookup :: "maglev_table \<Rightarrow> u64 \<Rightarrow> nat option" where
  "maglev_lookup t key_hash =
     (if mg_table t = [] then None
      else Some (mg_table t ! unat (key_hash mod mg_size t)))"

section \<open>The permutation of one host\<close>

text \<open>
  For a prime size \<open>M\<close> and a skip in \<open>1..M-1\<close>, the first \<open>M\<close> probes of a host
  visit every slot exactly once.
\<close>

lemma prime_coprime: "prime_nat M \<Longrightarrow> 0 < s \<Longrightarrow> s < M \<Longrightarrow> coprime s M"
  unfolding prime_nat_def
  by (metis coprime_iff_gcd_eq_1 dvd_imp_le gcd_dvd1 gcd_dvd2 not_less)

lemma probe_inj:
  assumes "prime_nat M" "0 < s" "s < M"
  shows "inj_on (\<lambda>j. (off + j * s) mod M) {..<M}"
proof (rule inj_onI)
  fix i j assume i: "i \<in> {..<M}" and j: "j \<in> {..<M}"
    and eq: "(off + i * s) mod M = (off + j * s) mod M"
  have "M dvd (i - j) * s \<and> M dvd (j - i) * s"
    using eq mod_eq_dvd_iff_nat [of "off + j * s" "off + i * s" M]
      mod_eq_dvd_iff_nat [of "off + i * s" "off + j * s" M]
    by (cases "i \<le> j") (auto simp: diff_mult_distrib)
  moreover have "coprime M s" using prime_coprime [OF assms] by (simp add: coprime_commute)
  ultimately have "M dvd i - j" "M dvd j - i" by (auto simp: coprime_dvd_mult_left_iff)
  moreover have "i - j < M" "j - i < M" using i j by auto
  ultimately have "i - j = 0" "j - i = 0" by (auto dest: dvd_imp_le)
  then show "i = j" by simp
qed

lemma probe_surj:
  assumes "prime_nat M" "0 < s" "s < M" "c < M"
  shows "\<exists>j<M. (off + j * s) mod M = c"
proof -
  have M: "0 < M" using assms(4) by simp
  have "(\<lambda>j. (off + j * s) mod M) ` {..<M} = {..<M}"
    using probe_inj [OF assms(1-3)] M by (intro endo_inj_surj) auto
  then have "c \<in> (\<lambda>j. (off + j * s) mod M) ` {..<M}" using assms(4) by (simp only: lessThan_iff)
  then show ?thesis by blast
qed

text \<open>
  Within the validator's bound no product overflows: the word computation is the
  computation on numbers.
\<close>

lemma maglev_slot_nat:
  assumes "unat M \<le> 5000011" "unat off < unat M" "unat sk < unat M" "unat j \<le> unat M"
  shows "maglev_slot M off sk j = (unat off + unat j * unat sk) mod unat M"
proof -
  have "unat j * unat sk \<le> 5000011 * 5000011"
    using assms by (intro mult_le_mono) auto
  then have b: "unat off + unat j * unat sk < 2 ^ 64"
    using assms by simp
  then have "unat (off + j * sk) = unat off + unat j * unat sk"
    by (simp add: unat_word_ariths)
  then show ?thesis by (simp add: maglev_slot_def unat_mod)
qed

lemma maglev_slot_less: "0 < unat M \<Longrightarrow> maglev_slot M off sk j < unat M"
  by (simp add: maglev_slot_def unat_mod)


section \<open>The probe returns\<close>

definition host_ok :: "u64 \<Rightarrow> u64 \<Rightarrow> u64 \<Rightarrow> bool" where
  "host_ok M off sk \<longleftrightarrow> prime_nat (unat M) \<and> unat M \<le> 5000011
     \<and> unat off < unat M \<and> 0 < unat sk \<and> unat sk < unat M"

text \<open>The slots a host with cursor \<open>j\<close> has already tried are all claimed.\<close>

definition tried_claimed :: "nat option list \<Rightarrow> u64 \<Rightarrow> u64 \<Rightarrow> u64 \<Rightarrow> nat \<Rightarrow> bool" where
  "tried_claimed table M off sk j \<longleftrightarrow>
     (\<forall>i<j. table ! ((unat off + i * unat sk) mod unat M) \<noteq> None)"

lemma maglev_probe_returns:
  assumes ok: "host_ok M off sk"
    and tried: "tried_claimed table M off sk (unat j)" and jM: "unat j \<le> unat M"
    and free: "c < unat M" "table ! c = None"
  shows "\<exists>i d. maglev_probe table M off sk j = Some (i, d) \<and> unat i < unat M \<and> d < unat M
    \<and> d = (unat off + unat i * unat sk) mod unat M
    \<and> table ! d = None \<and> tried_claimed table M off sk (unat i)"
proof -
  let ?slot = "\<lambda>i. (unat off + i * unat sk) mod unat M"
  have M: "0 < unat M" using free by simp
  obtain t where t: "t < unat M" "table ! ?slot t = None"
    using probe_surj [of "unat M" "unat sk" c "unat off"] ok free by (auto simp: host_ok_def)
  have "unat j \<le> t" using tried t(2) by (meson not_less tried_claimed_def)
  then show ?thesis
    using tried jM
  proof (induction "t - unat j" arbitrary: j rule: less_induct)
    case less
    have slot: "maglev_slot M off sk j = ?slot (unat j)"
      using ok less.prems by (intro maglev_slot_nat) (auto simp: host_ok_def)
    show ?case
    proof (cases "table ! ?slot (unat j) = None")
      case True
      then have "maglev_probe table M off sk j = Some (j, ?slot (unat j))"
        by (simp add: maglev_probe.simps [of table M off sk j] slot)
      with True less.prems t(1) M show ?thesis by auto
    next
      case False
      with t(2) have jt: "unat j \<noteq> t" by auto
      with less.prems(1) t(1) ok have suc: "unat (j + 1) = Suc (unat j)"
        using unat_lt_max_plus1 [of j "unat M"] by (simp add: host_ok_def)
      have "tried_claimed table M off sk (unat (j + 1))"
        using less.prems(2) False by (auto simp: tried_claimed_def suc less_Suc_eq)
      then have "\<exists>i d. maglev_probe table M off sk (j + 1) = Some (i, d) \<and> unat i < unat M
          \<and> d < unat M \<and> d = ?slot (unat i) \<and> table ! d = None \<and> tried_claimed table M off sk (unat i)"
        using less.prems jt t(1) by (intro less.hyps) (auto simp: suc)
      then show ?thesis
        using False by (simp add: maglev_probe.simps [of table M off sk j] slot)
    qed
  qed
qed

section \<open>The claim loop\<close>

definition share :: "nat \<Rightarrow> nat \<Rightarrow> nat \<Rightarrow> nat" where
  "share n h k = k div n + (if h < k mod n then 1 else 0)"

lemma share_Suc:
  assumes "0 < n" "h < n"
  shows "share n h (Suc k) = share n h k + (if h = k mod n then 1 else 0)"
proof (cases "Suc (k mod n) = n")
  case True
  then have "Suc k div n = Suc (k div n)" "Suc k mod n = 0"
    by (simp_all add: div_Suc mod_Suc)
  with True assms show ?thesis by (auto simp: share_def)
next
  case False
  then have "Suc k div n = k div n" "Suc k mod n = Suc (k mod n)"
    by (simp_all add: div_Suc mod_Suc)
  with assms show ?thesis by (auto simp: share_def)
qed

lemma next_host: "0 < n \<Longrightarrow> (if k mod n + 1 < n then k mod n + 1 else 0) = Suc k mod n"
  using mod_less_divisor [of n k] by (auto simp: mod_Suc simp del: mod_less_divisor)

definition claim_inv :: "u64 \<Rightarrow> u64 list \<Rightarrow> u64 list \<Rightarrow> u64 list \<Rightarrow> nat option list \<Rightarrow> nat \<Rightarrow> bool" where
  "claim_inv M offs sks nxt table filled \<longleftrightarrow>
     length table = unat M \<and> length sks = length offs \<and> length nxt = length offs \<and> offs \<noteq> []
     \<and> (\<forall>h<length offs. host_ok M (offs ! h) (sks ! h) \<and> unat (nxt ! h) \<le> unat M
          \<and> tried_claimed table M (offs ! h) (sks ! h) (unat (nxt ! h)))
     \<and> length (filter (\<lambda>x. x \<noteq> None) table) = filled
     \<and> (\<forall>h<length offs. length (filter (\<lambda>x. x = Some h) table) = share (length offs) h filled)
     \<and> (\<forall>h. Some h \<in> set table \<longrightarrow> h < length offs)"

lemma free_slot:
  assumes "length (filter (\<lambda>x. x \<noteq> None) table) < length table"
  shows "\<exists>c<length table. table ! c = None"
proof (rule ccontr)
  assume "\<not> ?thesis"
  then have "\<forall>x\<in>set table. x \<noteq> None" by (auto simp: in_set_conv_nth)
  then have "filter (\<lambda>x. x \<noteq> None) table = table" by (simp add: filter_id_conv)
  with assms show False by simp
qed

lemma tried_claimed_update:
  "tried_claimed table M off sk j \<Longrightarrow> tried_claimed (table[c := Some h]) M off sk j"
  by (cases "c < length table") (auto simp: tried_claimed_def nth_list_update list_update_beyond)

lemma filter_claim:
  assumes "c < length table" "table ! c = None"
  shows "length (filter (\<lambda>x. x \<noteq> None) (table[c := Some h])) = Suc (length (filter (\<lambda>x. x \<noteq> None) table))"
    and "length (filter (\<lambda>x. x = Some h') (table[c := Some h])) =
      length (filter (\<lambda>x. x = Some h') table) + (if h' = h then 1 else 0)"
  using length_filter_update [OF assms(1), of "\<lambda>x. x \<noteq> None" "Some h"]
    length_filter_update [OF assms(1), of "\<lambda>x. x = Some h'" "Some h"] assms(2)
  by (auto split: if_splits)

lemma maglev_claim_step:
  assumes inv: "claim_inv M offs sks nxt table filled" and less: "filled < unat M"
  defines "h \<equiv> filled mod length offs"
  shows "\<exists>j c. maglev_probe table M (offs ! h) (sks ! h) (nxt ! h) = Some (j, c) \<and>
    claim_inv M offs sks (nxt[h := j + 1]) (table[c := Some h]) (Suc filled)"
proof -
  have n: "0 < length offs" using inv by (simp add: claim_inv_def)
  then have h: "h < length offs" by (simp add: h_def)
  have ok: "host_ok M (offs ! h) (sks ! h)" using inv h by (simp add: claim_inv_def)
  obtain c0 where "c0 < unat M" "table ! c0 = None"
    using free_slot [of table] inv less by (auto simp: claim_inv_def)
  then obtain j c where probe: "maglev_probe table M (offs ! h) (sks ! h) (nxt ! h) = Some (j, c)"
    and jM: "unat j < unat M" and cM: "c < unat M"
    and c: "c = (unat (offs ! h) + unat j * unat (sks ! h)) mod unat M"
    and free: "table ! c = None" and tried: "tried_claimed table M (offs ! h) (sks ! h) (unat j)"
    using maglev_probe_returns [OF ok, of table "nxt ! h" c0] inv h by (auto simp: claim_inv_def)
  have suc: "unat (j + 1) = Suc (unat j)"
    using unat_lt_max_plus1 [of j "unat M"] jM ok by (simp add: host_ok_def)
  have len: "length table = unat M" using inv by (simp add: claim_inv_def)
  have own: "tried_claimed (table[c := Some h]) M (offs ! h) (sks ! h) (unat (j + 1))"
    using tried_claimed_update [OF tried, of c h] cM len
    by (auto simp: tried_claimed_def suc less_Suc_eq c)
  have cnt: "length (filter (\<lambda>x. x \<noteq> None) (table[c := Some h])) = Suc filled"
    using inv cM free len by (subst filter_claim) (auto simp only: claim_inv_def)
  have "claim_inv M offs sks (nxt[h := j + 1]) (table[c := Some h]) (Suc filled)"
    unfolding claim_inv_def
  proof (intro conjI allI impI)
    fix k assume k: "k < length offs"
    show "unat (nxt[h := j + 1] ! k) \<le> unat M"
      using inv h k jM suc by (auto simp: claim_inv_def nth_list_update)
    show "tried_claimed (table[c := Some h]) M (offs ! k) (sks ! k) (unat (nxt[h := j + 1] ! k))"
      using inv h k own by (auto simp: claim_inv_def nth_list_update intro: tried_claimed_update)
    show "length (filter (\<lambda>x. x = Some k) (table[c := Some h])) = share (length offs) k (Suc filled)"
      using inv k n cM free len by (simp add: claim_inv_def filter_claim share_Suc h_def)
  next
    fix k assume "Some k \<in> set (table[c := Some h])"
    then show "k < length offs"
      using set_update_subset_insert [of table c "Some h"] inv h by (auto simp: claim_inv_def)
  qed (use inv cnt in \<open>simp_all add: claim_inv_def\<close>)
  with probe show ?thesis by blast
qed

lemma maglev_claim_fills:
  assumes "claim_inv M offs sks nxt table filled" "filled < unat M"
  shows "\<exists>t nxt'. maglev_claim M offs sks (filled mod length offs) nxt table filled = Some t
    \<and> claim_inv M offs sks nxt' t (unat M)"
  using assms
proof (induction "unat M - filled" arbitrary: nxt table filled rule: less_induct)
  case less
  let ?h = "filled mod length offs"
  from maglev_claim_step [OF less.prems] obtain j c where
    probe: "maglev_probe table M (offs ! ?h) (sks ! ?h) (nxt ! ?h) = Some (j, c)" and
    inv: "claim_inv M offs sks (nxt[?h := j + 1]) (table[c := Some ?h]) (Suc filled)" by blast
  have n: "0 < length offs" and len: "length table = unat M"
    using less.prems(1) by (simp_all add: claim_inv_def)
  note eq = maglev_claim.simps [of M offs sks ?h nxt table filled]
  show ?case
  proof (cases "Suc filled = unat M")
    case True
    with probe len have "maglev_claim M offs sks ?h nxt table filled = Some (table[c := Some ?h])"
      by (simp add: eq)
    with inv True show ?thesis by auto
  next
    case False
    then have "Suc filled < unat M" using less.prems(2) by simp
    then have "\<exists>t nxt'. maglev_claim M offs sks (Suc filled mod length offs)
        (nxt[?h := j + 1]) (table[c := Some ?h]) (Suc filled) = Some t
        \<and> claim_inv M offs sks nxt' t (unat M)"
      using less.prems(2) by (intro less.hyps inv) auto
    then show ?thesis using probe False len next_host [OF n, of filled] by (simp add: eq)
  qed
qed


section \<open>Building and looking up\<close>

definition maglev_offs :: "string list \<Rightarrow> u64 \<Rightarrow> u64 list" where
  "maglev_offs addresses M = map (\<lambda>a. xxh64_seed (as_bytes a) 0 mod M) addresses"

definition maglev_sks :: "string list \<Rightarrow> u64 \<Rightarrow> u64 list" where
  "maglev_sks addresses M = map (\<lambda>a. xxh64_seed (as_bytes a) 1 mod (M - 1) + 1) addresses"

lemma skip_range:
  assumes "2 \<le> unat (M :: u64)"
  shows "0 < unat (x mod (M - 1) + 1)" "unat (x mod (M - 1) + 1) < unat M"
proof -
  have M1: "unat (M - 1) = unat M - 1"
    using assms by (intro unat_minus_one) auto
  have lt: "unat (x mod (M - 1)) < unat M - 1"
    using assms M1 by (simp add: unat_mod)
  moreover have "unat M < 2 ^ 64" using unsigned_less [of M] by simp
  ultimately have "unat (x mod (M - 1) + 1) = unat (x mod (M - 1)) + 1"
    by (simp add: unat_word_ariths)
  with lt show "0 < unat (x mod (M - 1) + 1)" "unat (x mod (M - 1) + 1) < unat M" by simp_all
qed

lemma claim_inv_init:
  assumes "addresses \<noteq> []" "prime_nat (unat M)" "unat M \<le> 5000011"
  shows "claim_inv M (maglev_offs addresses M) (maglev_sks addresses M)
    (replicate (length addresses) 0) (replicate (unat M) None) 0"
proof -
  have "2 \<le> unat M" using assms(2) by (simp add: prime_nat_def)
  moreover from this have "0 < unat M" by simp
  ultimately have "host_ok M (maglev_offs addresses M ! h) (maglev_sks addresses M ! h)"
    if "h < length addresses" for h
    using that assms skip_range [of M]
    by (simp add: host_ok_def maglev_offs_def maglev_sks_def unat_mod)
  with assms(1) show ?thesis
    by (auto simp: claim_inv_def tried_claimed_def share_def maglev_offs_def maglev_sks_def)
qed

lemma default_table_size_prime: "is_prime 65537"
  by (simp add: is_prime_def is_prime_loop.simps)

lemma validated_size:
  assumes "validate_lb cl Maglev ring cfg = Inr ()"
  shows "prime_nat (maglev_table_size cfg)" "maglev_table_size cfg \<le> 5000011"
  using assms default_table_size_prime
  by (auto simp: validate_lb_def maglev_table_size_def MAGLEV_MAX_TABLE_SIZE_def
      is_prime_correct [symmetric] split: option.splits if_splits)

lemma full_table_entries:
  assumes inv: "claim_inv M offs sks nxt t (unat M)"
  shows "None \<notin> set t" "set (map the t) \<subseteq> {..<length offs}"
    "h < length offs \<Longrightarrow> count_list (map the t) h = share (length offs) h (unat M)"
proof -
  have len: "length t = unat M" and full: "length (filter (\<lambda>x. x \<noteq> None) t) = unat M"
    using inv by (simp_all add: claim_inv_def)
  then show none: "None \<notin> set t"
    by (metis (mono_tags, lifting) length_filter_less less_irrefl)
  show "set (map the t) \<subseteq> {..<length offs}"
  proof
    fix x assume "x \<in> set (map the t)"
    then obtain y where "y \<in> set t" "x = the y" by auto
    with none have "Some x \<in> set t" by (cases y) auto
    with inv show "x \<in> {..<length offs}" by (simp add: claim_inv_def)
  qed
  have "filter (\<lambda>y. h = the y) t = filter (\<lambda>x. x = Some h) t"
    using none by (intro filter_cong refl) (metis option.collapse option.sel)
  then have "count_list (map the t) h = length (filter (\<lambda>x. x = Some h) t)"
    by (simp add: count_list_eq_length_filter filter_map o_def)
  then show "h < length offs \<Longrightarrow> count_list (map the t) h = share (length offs) h (unat M)"
    using inv by (simp add: claim_inv_def)
qed

lemma maglev_build_validated:
  assumes "addresses \<noteq> []" and "validate_lb cl Maglev ring cfg = Inr ()"
    and "M = of_nat (maglev_table_size cfg)"
  shows "\<exists>t. maglev_build addresses M = Some (Inr t) \<and> mg_size t = M
    \<and> length (mg_table t) = maglev_table_size cfg
    \<and> set (mg_table t) \<subseteq> {..<length addresses}
    \<and> (\<forall>h<length addresses. count_list (mg_table t) h =
         maglev_table_size cfg div length addresses +
         (if h < maglev_table_size cfg mod length addresses then 1 else 0))"
proof -
  note v = validated_size [OF assms(2)]
  then have "2 \<le> maglev_table_size cfg" by (simp add: prime_nat_def)
  with v assms(3) have M: "unat M = maglev_table_size cfg" "2 \<le> unat M"
    by (simp_all add: unat_of_nat take_bit_nat_eq_self)
  then have ne: "unat M \<noteq> 0" "M - 1 \<noteq> 0" by auto
  let ?offs = "maglev_offs addresses M"
  have len: "length ?offs = length addresses" by (simp add: maglev_offs_def)
  have "claim_inv M ?offs (maglev_sks addresses M)
      (replicate (length addresses) 0) (replicate (unat M) None) 0"
    using claim_inv_init [OF assms(1), of M] v by (simp only: M(1))
  from maglev_claim_fills [OF this] M obtain t nxt where
    t: "maglev_claim M ?offs (maglev_sks addresses M) 0 (replicate (length addresses) 0)
          (replicate (unat M) None) 0 = Some t" and
    inv: "claim_inv M ?offs (maglev_sks addresses M) nxt t (unat M)" by auto
  have "maglev_build addresses M = Some (Inr \<lparr>mg_table = map the t, mg_size = M\<rparr>)"
    using t assms(1) ne by (simp add: maglev_build_def Let_def maglev_offs_def maglev_sks_def)
  moreover have "length t = unat M" using inv by (simp add: claim_inv_def)
  ultimately show ?thesis
    using full_table_entries [OF inv] M len by (simp add: share_def)
qed

text \<open>
  C29. For every table size the configuration validator accepts (and for the default
  when none is configured) the build returns: no division by zero, no endless
  probe, no overflow. Every one of the \<open>M\<close> slots names a host, and the table is
  balanced: each host owns \<open>M div n\<close> slots, and the first \<open>M mod n\<close> hosts own one
  more.
\<close>

theorem maglev_build_balanced:
  assumes "addresses \<noteq> []" and "validate_lb cl Maglev ring cfg = Inr ()"
    and "M = of_nat (maglev_table_size cfg)"
  shows "\<exists>t. maglev_build addresses M = Some (Inr t) \<and> mg_size t = M
    \<and> length (mg_table t) = maglev_table_size cfg
    \<and> set (mg_table t) \<subseteq> {..<length addresses}
    \<and> (\<forall>h<length addresses. count_list (mg_table t) h =
         maglev_table_size cfg div length addresses +
         (if h < maglev_table_size cfg mod length addresses then 1 else 0))"
  using assms by (rule maglev_build_validated)

theorem maglev_build_balanced_witness:
  "\<exists>t. maglev_build [''10.0.0.1:80'', ''10.0.0.2:80''] 65537 = Some (Inr t) \<and> mg_size t = 65537
    \<and> length (mg_table t) = 65537 \<and> count_list (mg_table t) 0 = 32769"
proof -
  have v: "validate_lb ''c'' Maglev None None = Inr ()" by (simp add: validate_lb_def)
  have s: "maglev_table_size None = 65537" by (simp add: maglev_table_size_def)
  have M: "(65537 :: u64) = of_nat (maglev_table_size None)" by (simp add: s)
  have ne: "[''10.0.0.1:80'', ''10.0.0.2:80''] \<noteq> []" by simp
  have len: "length [''10.0.0.1:80'', ''10.0.0.2:80''] = 2" by simp
  show ?thesis
    using maglev_build_balanced [OF ne v M, unfolded s len] by (auto simp del: One_nat_def)
qed

lemma maglev_build_size_1: "maglev_build [a] 1 = Some (Inl RemByZero)"
  by (simp add: maglev_build_def)

lemma maglev_lookup_range:
  assumes "mg_table t \<noteq> []" "length (mg_table t) = unat (mg_size t)" "set (mg_table t) \<subseteq> {..<n}"
  shows "\<exists>h<n. maglev_lookup t k = Some h"
proof -
  have "0 < unat (mg_size t)" using assms(1,2) by (metis length_greater_0_conv)
  then have "unat (k mod mg_size t) < length (mg_table t)" using assms(2) by (simp add: unat_mod)
  then have "mg_table t ! unat (k mod mg_size t) \<in> set (mg_table t)" by simp
  with assms show ?thesis by (auto simp: maglev_lookup_def)
qed

end
