(* ===== verification/Budget.thy ===== *)
theory Budget
  imports Stats
begin

text \<open>
  \<open>envoy-cluster/src/budget.rs\<close>: the circuit-breaker budgets of a cluster. A
  \<open>BudgetState\<close> has two sides, retries and requests, with the same fields and the
  same code up to names; \<open>budget_side\<close> is one of them. Counters and gauges are
  handles into the \<open>stats\<close> of the registry. The \<open>AtomicI64\<close> of in-flight
  operations is an \<^typ>\<open>int\<close>: it stays between 0 and the \<open>u32\<close> cap, as proved below.
\<close>

section \<open>State\<close>

record budget_side =
  bs_max :: nat
  bs_active :: int
  bs_overflow :: nat
  bs_open :: nat
  bs_remaining :: "nat option"

record budget_state =
  retry_side :: budget_side
  request_side :: budget_side

section \<open>Construction\<close>

definition reg_then :: "(stats_error + 'a) \<times> stats \<Rightarrow> ('a \<Rightarrow> stats \<Rightarrow> (stats_error + 'b) \<times> stats)
    \<Rightarrow> (stats_error + 'b) \<times> stats" where
  "reg_then r f = (case r of (Inl e, st) \<Rightarrow> (Inl e, st) | (Inr a, st) \<Rightarrow> f a st)"

definition reg_remaining :: "bool \<Rightarrow> string \<Rightarrow> nat \<Rightarrow> stats \<Rightarrow> (stats_error + nat option) \<times> stats" where
  "reg_remaining track_remaining name cap st =
     (if track_remaining
      then reg_then (register_gauge name st)
             (\<lambda>g st. (Inr (Some g), gauge_set g (of_nat cap) st))
      else (Inr None, st))"

definition budget_new :: "nat \<Rightarrow> nat \<Rightarrow> bool \<Rightarrow> string \<Rightarrow> stats \<Rightarrow> (stats_error + budget_state) \<times> stats" where
  "budget_new max_retries max_requests track_remaining cluster_name st =
     (let pfx = ''cluster.'' @ cluster_name;
          cb_prefix = ''cluster.'' @ cluster_name @ ''.circuit_breakers.default''
      in reg_then (register_counter (pfx @ ''.upstream_rq_retry_overflow'') st) (\<lambda>rq_retry_overflow st.
         reg_then (register_counter (pfx @ ''.upstream_rq_pending_overflow'') st) (\<lambda>rq_pending_overflow st.
         reg_then (register_gauge (cb_prefix @ ''.rq_retry_open'') st) (\<lambda>rq_retry_open st.
         reg_then (register_gauge (cb_prefix @ ''.rq_open'') st) (\<lambda>rq_open st.
         reg_then (reg_remaining track_remaining (cb_prefix @ ''.remaining_retries'') max_retries st)
           (\<lambda>remaining_retries st.
         reg_then (reg_remaining track_remaining (cb_prefix @ ''.remaining_rq'') max_requests st)
           (\<lambda>remaining_rq st.
             (Inr \<lparr>retry_side = \<lparr>bs_max = max_retries, bs_active = 0, bs_overflow = rq_retry_overflow,
                      bs_open = rq_retry_open, bs_remaining = remaining_retries\<rparr>,
                   request_side = \<lparr>bs_max = max_requests, bs_active = 0, bs_overflow = rq_pending_overflow,
                      bs_open = rq_open, bs_remaining = remaining_rq\<rparr>\<rparr>, st))))))))"

section \<open>Acquire and release, one caller at a time\<close>

definition update_gauges :: "budget_side \<Rightarrow> int \<Rightarrow> stats \<Rightarrow> stats" where
  "update_gauges b active st =
     (let st1 = gauge_set (bs_open b) (if active > 0 \<and> active \<ge> int (bs_max b) then 1 else 0) st
      in case bs_remaining b of
           None \<Rightarrow> st1
         | Some g \<Rightarrow> gauge_set g (of_int (max (int (bs_max b) - active) 0)) st1)"

text \<open>
  Without contention the compare-exchange succeeds on the first iteration. The
  boolean says whether a guard is returned.
\<close>

definition try_acquire :: "budget_side \<times> stats \<Rightarrow> bool \<times> budget_side \<times> stats" where
  "try_acquire bst =
     (let (b, st) = bst; cur = bs_active b in
      if cur \<ge> int (bs_max b)
      then (False, b, update_gauges b cur (counter_inc (bs_overflow b) st))
      else (True, b\<lparr>bs_active := cur + 1\<rparr>, update_gauges b (cur + 1) st))"

definition release :: "budget_side \<times> stats \<Rightarrow> budget_side \<times> stats" where
  "release bst =
     (let (b, st) = bst; prev = bs_active b in
      (b\<lparr>bs_active := prev - 1\<rparr>, update_gauges b (prev - 1) st))"

definition try_acquire_retry :: "budget_state \<times> stats \<Rightarrow> bool \<times> budget_state \<times> stats" where
  "try_acquire_retry bst =
     (let (ok, b, st) = try_acquire (retry_side (fst bst), snd bst)
      in (ok, (fst bst)\<lparr>retry_side := b\<rparr>, st))"

definition try_acquire_request :: "budget_state \<times> stats \<Rightarrow> bool \<times> budget_state \<times> stats" where
  "try_acquire_request bst =
     (let (ok, b, st) = try_acquire (request_side (fst bst), snd bst)
      in (ok, (fst bst)\<lparr>request_side := b\<rparr>, st))"

definition drop_retry_guard :: "budget_state \<times> stats \<Rightarrow> budget_state \<times> stats" where
  "drop_retry_guard bst =
     (let (b, st) = release (retry_side (fst bst), snd bst) in ((fst bst)\<lparr>retry_side := b\<rparr>, st))"

definition drop_request_guard :: "budget_state \<times> stats \<Rightarrow> budget_state \<times> stats" where
  "drop_request_guard bst =
     (let (b, st) = release (request_side (fst bst), snd bst) in ((fst bst)\<lparr>request_side := b\<rparr>, st))"

datatype BudgetAcquisition = Unlimited | Acquired | Rejected

text \<open>\<open>Cluster::try_acquire_retry\<close> and \<open>Cluster::try_acquire_request\<close>.\<close>

definition cluster_try_acquire_retry :: "budget_state option \<times> stats
    \<Rightarrow> BudgetAcquisition \<times> budget_state option \<times> stats" where
  "cluster_try_acquire_retry bst =
     (case bst of
        (None, st) \<Rightarrow> (Unlimited, None, st)
      | (Some b, st) \<Rightarrow>
          (let (ok, b', st') = try_acquire_retry (b, st)
           in (if ok then Acquired else Rejected, Some b', st')))"

definition cluster_try_acquire_request :: "budget_state option \<times> stats
    \<Rightarrow> BudgetAcquisition \<times> budget_state option \<times> stats" where
  "cluster_try_acquire_request bst =
     (case bst of
        (None, st) \<Rightarrow> (Unlimited, None, st)
      | (Some b, st) \<Rightarrow>
          (let (ok, b', st') = try_acquire_request (b, st)
           in (if ok then Acquired else Rejected, Some b', st')))"

section \<open>Concurrent callers\<close>

text \<open>
  Any number of tasks share one side. A task is between calls, has loaded the
  counter, has counted an overflow and still has to write the gauges, has won the
  compare-exchange and still has to write the gauges, holds its guard, or has
  decremented the counter in \<open>drop\<close> and still has to write the gauges. Each step
  is one atomic operation of the source.
\<close>

datatype budget_pc =
    BIdle | BLoop | BLoaded int | BRejecting int | BAcquired int | BHolding | BReleasing int

record budget_sys =
  sys_side :: budget_side
  sys_stats :: stats
  sys_pc :: "nat \<Rightarrow> budget_pc"

definition set_pc :: "nat \<Rightarrow> budget_pc \<Rightarrow> budget_sys \<Rightarrow> budget_sys" where
  "set_pc t p s = s\<lparr>sys_pc := (sys_pc s)(t := p)\<rparr>"

definition set_active :: "int \<Rightarrow> budget_sys \<Rightarrow> budget_sys" where
  "set_active a s = s\<lparr>sys_side := (sys_side s)\<lparr>bs_active := a\<rparr>\<rparr>"

definition write_gauges :: "int \<Rightarrow> budget_sys \<Rightarrow> budget_sys" where
  "write_gauges a s = s\<lparr>sys_stats := update_gauges (sys_side s) a (sys_stats s)\<rparr>"

inductive budget_step :: "budget_sys \<Rightarrow> budget_sys \<Rightarrow> bool" where
  load: "sys_pc s t = BIdle \<or> sys_pc s t = BLoop \<Longrightarrow>
    budget_step s (set_pc t (BLoaded (bs_active (sys_side s))) s)"
| overflow: "sys_pc s t = BLoaded cur \<Longrightarrow> cur \<ge> int (bs_max (sys_side s)) \<Longrightarrow>
    budget_step s (set_pc t (BRejecting cur)
      (s\<lparr>sys_stats := counter_inc (bs_overflow (sys_side s)) (sys_stats s)\<rparr>))"
| reject: "sys_pc s t = BRejecting cur \<Longrightarrow>
    budget_step s (set_pc t BIdle (write_gauges cur s))"
| cas_ok: "sys_pc s t = BLoaded cur \<Longrightarrow> cur < int (bs_max (sys_side s)) \<Longrightarrow>
    bs_active (sys_side s) = cur \<Longrightarrow>
    budget_step s (set_pc t (BAcquired (cur + 1)) (set_active (cur + 1) s))"
| cas_contended: "sys_pc s t = BLoaded cur \<Longrightarrow> cur < int (bs_max (sys_side s)) \<Longrightarrow>
    bs_active (sys_side s) \<noteq> cur \<Longrightarrow> budget_step s (set_pc t BLoop s)"
| acquired: "sys_pc s t = BAcquired a \<Longrightarrow> budget_step s (set_pc t BHolding (write_gauges a s))"
| drop_guard: "sys_pc s t = BHolding \<Longrightarrow>
    budget_step s (set_pc t (BReleasing (bs_active (sys_side s) - 1))
      (set_active (bs_active (sys_side s) - 1) s))"
| released: "sys_pc s t = BReleasing a \<Longrightarrow> budget_step s (set_pc t BIdle (write_gauges a s))"

inductive budget_reach :: "budget_side \<Rightarrow> stats \<Rightarrow> budget_sys \<Rightarrow> bool" for b :: budget_side and st :: stats
where
  start: "budget_reach b st \<lparr>sys_side = b\<lparr>bs_active := 0\<rparr>, sys_stats = st, sys_pc = (\<lambda>_. BIdle)\<rparr>"
| step: "budget_reach b st s \<Longrightarrow> budget_step s s' \<Longrightarrow> budget_reach b st s'"

definition holds_slot :: "budget_pc \<Rightarrow> bool" where
  "holds_slot p \<longleftrightarrow> (case p of BAcquired _ \<Rightarrow> True | BHolding \<Rightarrow> True | _ \<Rightarrow> False)"

definition holders :: "budget_sys \<Rightarrow> nat set" where
  "holders s = {t. holds_slot (sys_pc s t)}"

definition budget_inv :: "budget_sys \<Rightarrow> bool" where
  "budget_inv s \<longleftrightarrow> finite (holders s) \<and> bs_active (sys_side s) = int (card (holders s))
     \<and> card (holders s) \<le> bs_max (sys_side s)"

lemma sys_simps [simp]:
  "sys_pc (set_pc t p s) = (sys_pc s)(t := p)" "sys_side (set_pc t p s) = sys_side s"
  "sys_stats (set_pc t p s) = sys_stats s"
  "sys_pc (set_active a s) = sys_pc s" "sys_side (set_active a s) = (sys_side s)\<lparr>bs_active := a\<rparr>"
  "sys_stats (set_active a s) = sys_stats s"
  "sys_pc (write_gauges a s) = sys_pc s" "sys_side (write_gauges a s) = sys_side s"
  by (simp_all add: set_pc_def set_active_def write_gauges_def)

lemma holders_upd:
  "holders (set_pc t p s) = (if holds_slot p then insert t (holders s) else holders s - {t})"
  by (auto simp: holders_def)

lemma holders_frame [simp]: "holders (set_active a s) = holders s" "holders (write_gauges a s) = holders s"
  "holders (s\<lparr>sys_stats := st\<rparr>) = holders s"
  by (simp_all add: holders_def)

lemma holders_same:
  "holds_slot p = holds_slot (sys_pc s t) \<Longrightarrow> holders (set_pc t p s) = holders s"
  by (auto simp: holders_def)

lemma holds_slot_simps [simp]:
  "\<not> holds_slot BIdle" "\<not> holds_slot BLoop" "\<not> holds_slot (BLoaded c)" "\<not> holds_slot (BRejecting c)"
  "holds_slot (BAcquired c)" "holds_slot BHolding" "\<not> holds_slot (BReleasing c)"
  by (simp_all add: holds_slot_def)

lemma budget_step_inv:
  assumes "budget_step s s'" "budget_inv s"
  shows "budget_inv s' \<and> bs_max (sys_side s') = bs_max (sys_side s)"
  using assms
proof (induction rule: budget_step.induct)
  case (load s t)
  then have "holders (set_pc t (BLoaded (bs_active (sys_side s))) s) = holders s"
    by (intro holders_same) auto
  with load show ?case by (simp add: budget_inv_def)
next
  case (cas_ok s t cur)
  then have "t \<notin> holders s" by (simp add: holders_def)
  with cas_ok show ?case by (simp add: budget_inv_def holders_upd)
next
  case (drop_guard s t)
  then have "t \<in> holders s" by (simp add: holders_def)
  moreover from this drop_guard have "0 < card (holders s)"
    by (auto simp: budget_inv_def card_gt_0_iff)
  ultimately show ?case
    using drop_guard by (auto simp: budget_inv_def holders_upd)
qed (simp_all add: budget_inv_def holders_same)

lemma budget_reach_inv:
  assumes "budget_reach b st s"
  shows "budget_inv s \<and> bs_max (sys_side s) = bs_max b"
  using assms
proof (induction rule: budget_reach.induct)
  case start
  show ?case by (simp add: budget_inv_def holders_def)
next
  case (step s s')
  then show ?case using budget_step_inv [of s s'] by simp
qed

text \<open>
  C31. In every reachable state of every interleaving of acquires and drops, the number
  of tasks that hold a slot is at most the cap and is what the \<open>active\<close> counter
  says. The compare-exchange loop never lets the budget be exceeded, and with a cap
  of zero no task ever holds a slot.
\<close>

theorem budget_never_exceeded:
  assumes "budget_reach b st s"
  shows "finite (holders s) \<and> card (holders s) \<le> bs_max b
    \<and> bs_active (sys_side s) = int (card (holders s))"
  using budget_reach_inv [OF assms] by (auto simp: budget_inv_def)

theorem budget_never_exceeded_witness:
  "\<exists>s. budget_reach \<lparr>bs_max = 1, bs_active = 0, bs_overflow = 0, bs_open = 0, bs_remaining = None\<rparr>
      registry_new s \<and> card (holders s) \<le> 1"
  using budget_never_exceeded [OF budget_reach.start [of
      "\<lparr>bs_max = 1, bs_active = 0, bs_overflow = 0, bs_open = 0, bs_remaining = None\<rparr>" registry_new]]
    budget_reach.start by (metis (no_types, lifting) budget_side.select_convs(1))

section \<open>The gauges\<close>

text \<open>One caller at a time, the gauges always describe the counter.\<close>

definition side_wf :: "budget_side \<Rightarrow> stats \<Rightarrow> bool" where
  "side_wf b st \<longleftrightarrow> bs_open b < length (gauges st)
     \<and> (\<forall>g. bs_remaining b = Some g \<longrightarrow> g < length (gauges st) \<and> g \<noteq> bs_open b)
     \<and> bs_overflow b < length (counters st)
     \<and> 0 \<le> bs_active b \<and> bs_active b \<le> int (bs_max b)"

definition gauges_describe :: "budget_side \<Rightarrow> stats \<Rightarrow> bool" where
  "gauges_describe b st \<longleftrightarrow>
     gauges st ! bs_open b = (if 0 < bs_active b \<and> int (bs_max b) \<le> bs_active b then 1 else 0)
     \<and> (\<forall>g. bs_remaining b = Some g \<longrightarrow> gauges st ! g = of_int (int (bs_max b) - bs_active b))"

lemma update_gauges_frame [simp]:
  "counters (update_gauges b a st) = counters st"
  "length (gauges (update_gauges b a st)) = length (gauges st)"
  by (auto simp: update_gauges_def gauge_set_def Let_def split: option.splits)

lemma update_gauges_cong:
  "bs_max b = bs_max b' \<Longrightarrow> bs_open b = bs_open b' \<Longrightarrow> bs_remaining b = bs_remaining b' \<Longrightarrow>
   update_gauges b a st = update_gauges b' a st"
  by (simp add: update_gauges_def Let_def split: option.splits)

lemma update_gauges_describe:
  assumes "side_wf b st" "a = bs_active b"
  shows "gauges_describe b (update_gauges b a st)"
  using assms
  by (auto simp: update_gauges_def gauge_set_def gauge_set_val_def gauges_describe_def side_wf_def
      Let_def nth_list_update max_def split: option.splits)

text \<open>
  Acquiring succeeds exactly when fewer than \<open>max\<close> slots are taken; a refusal adds
  one to the overflow counter and takes no slot; in both cases, and after a drop,
  the \<open>open\<close> gauge is 1 iff the budget is exhausted by live holders, and the
  \<open>remaining\<close> gauge is the number of free slots.
\<close>

theorem try_acquire_spec:
  assumes "side_wf b st" and "try_acquire (b, st) = (ok, b', st')"
  shows "(ok \<longleftrightarrow> bs_active b < int (bs_max b)) \<and> side_wf b' st' \<and> gauges_describe b' st'
    \<and> bs_active b' = bs_active b + (if ok then 1 else 0)
    \<and> counters st' ! bs_overflow b = counters st ! bs_overflow b + (if ok then 0 else 1)"
proof (cases "bs_active b < int (bs_max b)")
  case True
  then have r: "ok" "b' = b\<lparr>bs_active := bs_active b + 1\<rparr>" "st' = update_gauges b (bs_active b + 1) st"
    using assms(2) by (auto simp: try_acquire_def Let_def)
  have wf: "side_wf b' st" using assms(1) True by (simp add: side_wf_def r)
  have eq: "st' = update_gauges b' (bs_active b') st"
    unfolding r(3) by (subst update_gauges_cong [of b b']) (simp_all add: r)
  with wf r True update_gauges_describe [OF wf refl] show ?thesis
    by (auto simp: side_wf_def)
next
  case False
  then have r: "\<not> ok" "b' = b" "st' = update_gauges b (bs_active b) (counter_inc (bs_overflow b) st)"
    using assms(2) by (auto simp: try_acquire_def Let_def)
  have wf: "side_wf b (counter_inc (bs_overflow b) st)"
    using assms(1) by (simp add: side_wf_def counter_inc_def)
  have "counters st' ! bs_overflow b = counters st ! bs_overflow b + 1"
    using assms(1) by (simp add: r(3) counter_inc_def counter_inc_val_def side_wf_def)
  with wf r False update_gauges_describe [OF wf refl] show ?thesis by (auto simp: side_wf_def)
qed

abbreviation demo_side :: budget_side where
  "demo_side \<equiv> \<lparr>bs_max = 1, bs_active = 0, bs_overflow = 0, bs_open = 0, bs_remaining = None\<rparr>"

abbreviation demo_stats :: stats where
  "demo_stats \<equiv> \<lparr>reg_map = bt_empty, counters = [0], gauges = [0]\<rparr>"

theorem try_acquire_spec_witness:
  "side_wf demo_side demo_stats \<and> fst (try_acquire (demo_side, demo_stats))"
proof -
  have wf: "side_wf demo_side demo_stats" by (simp add: side_wf_def)
  obtain ok b' st' where r: "try_acquire (demo_side, demo_stats) = (ok, b', st')"
    by (metis prod_cases3)
  show ?thesis using try_acquire_spec [OF wf r] r wf by simp
qed

text \<open>
  Under concurrency the gauges can be left stale with nobody active: a refused
  acquire that has read the full counter writes the \<open>open\<close> gauge after the holder's
  drop has cleared it. No task is then inside any operation, no slot is taken, and
  the gauge still reports an open breaker until some later call rewrites it.
\<close>

theorem open_gauge_left_stale:
  "\<exists>s. budget_reach demo_side demo_stats s \<and> (\<forall>t. sys_pc s t = BIdle)
     \<and> bs_active (sys_side s) = 0 \<and> gauges (sys_stats s) ! bs_open (sys_side s) = 1"
proof -
  let ?R = "budget_reach demo_side demo_stats"
  let ?b1 = "demo_side\<lparr>bs_active := 1\<rparr>"
  let ?st = "\<lambda>o' g. demo_stats\<lparr>counters := [o'], gauges := [g]\<rparr>"
  let ?s = "\<lambda>b st p q. \<lparr>sys_side = b, sys_stats = st, sys_pc = (\<lambda>_. BIdle)(0 := p, Suc 0 := q)\<rparr>"
  note defs = set_pc_def set_active_def write_gauges_def update_gauges_def gauge_set_def
    gauge_set_val_def counter_inc_def counter_inc_val_def fun_upd_first_of_two
  have "?R (?s demo_side demo_stats BIdle BIdle)"
    using budget_reach.start [of demo_side demo_stats] by (simp add: fun_upd_const)
  then have "?R (?s demo_side demo_stats (BLoaded 0) BIdle)"
    by (rule budget_reach.step) (use load [of "?s demo_side demo_stats BIdle BIdle" 0] in \<open>simp add: defs\<close>)
  then have "?R (?s ?b1 demo_stats (BAcquired 1) BIdle)"
    by (rule budget_reach.step)
      (use cas_ok [of "?s demo_side demo_stats (BLoaded 0) BIdle" 0 0] in \<open>simp add: defs\<close>)
  then have "?R (?s ?b1 (?st 0 1) BHolding BIdle)"
    by (rule budget_reach.step)
      (use acquired [of "?s ?b1 demo_stats (BAcquired 1) BIdle" 0 1] in \<open>simp add: defs\<close>)
  then have "?R (?s ?b1 (?st 0 1) BHolding (BLoaded 1))"
    by (rule budget_reach.step) (use load [of "?s ?b1 (?st 0 1) BHolding BIdle" "Suc 0"] in \<open>simp add: defs\<close>)
  then have "?R (?s ?b1 (?st 1 1) BHolding (BRejecting 1))"
    by (rule budget_reach.step)
      (use overflow [of "?s ?b1 (?st 0 1) BHolding (BLoaded 1)" "Suc 0" 1] in \<open>simp add: defs\<close>)
  then have "?R (?s demo_side (?st 1 1) (BReleasing 0) (BRejecting 1))"
    by (rule budget_reach.step)
      (use drop_guard [of "?s ?b1 (?st 1 1) BHolding (BRejecting 1)" 0] in \<open>simp add: defs\<close>)
  then have "?R (?s demo_side (?st 1 0) BIdle (BRejecting 1))"
    by (rule budget_reach.step)
      (use released [of "?s demo_side (?st 1 1) (BReleasing 0) (BRejecting 1)" 0 0] in \<open>simp add: defs\<close>)
  then have "?R (?s demo_side (?st 1 1) BIdle BIdle)"
    by (rule budget_reach.step)
      (use reject [of "?s demo_side (?st 1 0) BIdle (BRejecting 1)" "Suc 0" 1] in \<open>simp add: defs\<close>)
  then show ?thesis by (intro exI conjI) (assumption, simp_all)
qed

end
