(* ===== verification/Float64.thy ===== *)
theory Float64
  imports Complex_Main
begin

text \<open>
  Rust's \<open>f64\<close> arithmetic where the load balancer uses it: a finite \<open>f64\<close> is its
  rational value, and every operation is the exact result rounded to nearest, ties
  to even, with 53 significant bits. The values are counts and percentages, far from
  the subnormal and the overflow range, which the model does not have.
\<close>

type_synonym f64 = rat

fun flog2 :: "nat \<Rightarrow> nat" where
  "flog2 n = (if n < 2 then 0 else Suc (flog2 (n div 2)))"

declare flog2.simps [simp del]

definition round_half_even :: "rat \<Rightarrow> int" where
  "round_half_even x =
     (let f = \<lfloor>x\<rfloor>; d = x - of_int f in
      if d < 1 / 2 then f else if 1 / 2 < d then f + 1 else if even f then f else f + 1)"

text \<open>The binary exponent of a positive fraction: \<open>2^e \<le> a / b < 2^(e + 1)\<close>.\<close>

definition binary_exp :: "nat \<Rightarrow> nat \<Rightarrow> int" where
  "binary_exp a b =
     (let k = int (flog2 a) - int (flog2 b) in
      if 2 powi k \<le> (of_nat a / of_nat b :: rat) then k else k - 1)"

definition f64_round :: "rat \<Rightarrow> f64" where
  "f64_round q =
     (if q = 0 then 0
      else let ab = quotient_of \<bar>q\<bar>;
               e = binary_exp (nat (fst ab)) (nat (snd ab));
               m = round_half_even (\<bar>q\<bar> * 2 powi (52 - e))
           in sgn q * of_int m * 2 powi (e - 52))"

definition f64_of_nat :: "nat \<Rightarrow> f64" where
  "f64_of_nat n = f64_round (of_nat n)"

definition f64_mult :: "f64 \<Rightarrow> f64 \<Rightarrow> f64" where
  "f64_mult x y = f64_round (x * y)"

definition f64_div :: "f64 \<Rightarrow> f64 \<Rightarrow> f64" where
  "f64_div x y = f64_round (x / y)"

section \<open>Rounding is exact on small integers and keeps the sign\<close>

lemma flog2_bounds: "0 < n \<Longrightarrow> 2 ^ flog2 n \<le> n \<and> n < 2 ^ Suc (flog2 n)"
proof (induction n rule: flog2.induct)
  case (1 n)
  show ?case
  proof (cases "n < 2")
    case True
    with "1.prems" have "n = 1" by simp
    then show ?thesis by (simp add: flog2.simps)
  next
    case False
    then have IH: "2 ^ flog2 (n div 2) \<le> n div 2" "n div 2 < 2 ^ Suc (flog2 (n div 2))"
      using "1.IH" by auto
    have "(2 :: nat) ^ flog2 n = 2 * 2 ^ flog2 (n div 2)" using False by (subst flog2.simps) simp
    with IH show ?thesis by auto
  qed
qed

lemma flog2_less: "0 < n \<Longrightarrow> n < 2 ^ k \<Longrightarrow> flog2 n < k"
  using flog2_bounds [of n] by (metis le_less_trans power_less_imp_less_exp one_less_numeral_iff semiring_norm(76))

lemma round_half_even_of_int [simp]: "round_half_even (of_int i) = i"
  by (simp add: round_half_even_def)

lemma round_half_even_nonneg: "0 \<le> x \<Longrightarrow> 0 \<le> round_half_even x"
  by (simp add: round_half_even_def Let_def)

lemma binary_exp_one: "0 < n \<Longrightarrow> binary_exp n (Suc 0) = int (flog2 n)"
proof -
  assume n: "0 < n"
  have "flog2 (Suc 0) = 0" by (simp add: flog2.simps)
  moreover have "(2 :: rat) powi int (flog2 n) \<le> of_nat n"
  proof -
    have "of_nat (2 ^ flog2 n) \<le> (of_nat n :: rat)"
      using flog2_bounds [OF n] by (simp only: of_nat_le_iff)
    then show ?thesis by simp
  qed
  ultimately show ?thesis by (simp add: binary_exp_def)
qed

lemma quotient_of_nat: "quotient_of (of_nat n) = (int n, 1)"
  using quotient_of_int [of "int n"] by (simp add: Rat.of_int_def)

lemma f64_round_of_nat: "n < 2 ^ 53 \<Longrightarrow> f64_round (of_nat n) = of_nat n"
proof (cases "n = 0")
  case True
  then show ?thesis by (simp add: f64_round_def)
next
  case False
  assume n: "n < 2 ^ 53"
  then have e: "flog2 n \<le> 52" using flog2_less [of n 53] False by simp
  let ?k = "52 - flog2 n"
  have p: "(2 :: rat) powi (52 - int (flog2 n)) = 2 ^ ?k"
    using e by (metis of_nat_diff of_nat_numeral power_int_of_nat)
  have m: "(2 :: rat) powi (int (flog2 n) - 52) = inverse (2 ^ ?k)"
    using p power_int_minus [of "2 :: rat" "52 - int (flog2 n)"] by simp
  have "round_half_even (of_nat n * 2 ^ ?k) = int n * 2 ^ ?k"
    using round_half_even_of_int [of "int n * 2 ^ ?k"] by simp
  with False p m show ?thesis
    by (simp add: f64_round_def quotient_of_nat binary_exp_one Let_def)
qed

lemma f64_round_nonneg: "0 \<le> q \<Longrightarrow> 0 \<le> f64_round q"
  by (auto simp: f64_round_def Let_def intro!: mult_nonneg_nonneg round_half_even_nonneg)

lemma f64_of_nat_exact: "n < 2 ^ 53 \<Longrightarrow> f64_of_nat n = of_nat n"
  by (simp add: f64_of_nat_def f64_round_of_nat)

section \<open>Percentages\<close>

definition f64_percent :: "nat \<Rightarrow> nat \<Rightarrow> f64" where
  "f64_percent part whole = f64_div (f64_mult 100 (f64_of_nat part)) (f64_of_nat whole)"

lemma f64_percent_nonneg: "0 \<le> f64_percent part whole"
  by (simp add: f64_percent_def f64_div_def f64_mult_def f64_of_nat_def f64_round_nonneg)

lemma f64_percent_0: "f64_percent 0 whole = 0"
  by (simp add: f64_percent_def f64_div_def f64_mult_def f64_of_nat_def f64_round_def)

lemma f64_percent_all:
  assumes "0 < n" "100 * n < 2 ^ 53"
  shows "f64_percent n n = 100"
proof -
  have "f64_mult 100 (f64_of_nat n) = of_nat (100 * n)"
    using assms f64_round_of_nat [of "100 * n"] by (simp add: f64_mult_def f64_of_nat_exact)
  moreover have "f64_round 100 = 100" using f64_round_of_nat [of 100] by simp
  ultimately show ?thesis using assms by (simp add: f64_percent_def f64_div_def f64_of_nat_exact)
qed

end
