(* ===== verification/Cluster_Pick.thy ===== *)
theory Cluster_Pick
  imports Health Outlier Subset_Lb Ring_Hash Maglev_Table Budget Float64 "HOL-Library.Multiset"
begin

text \<open>
  \<open>Cluster::pick\<close> of \<open>envoy-cluster/src/cluster.rs\<close>: how a cluster chooses the
  endpoint of a request from its subset index, its consistent-hash table, its health
  and outlier state and its round-robin cursor. A \<open>SocketAddr\<close> is an element of the
  type parameter; indexing a per-endpoint array past its end is the panic it is in
  Rust.
\<close>

section \<open>Consistent-hash dispatch\<close>

text \<open>What \<open>pick\<close> relies on in a lookup structure: host indices are in range.\<close>

locale host_lookup =
  fixes lookup :: "'lb \<Rightarrow> u64 \<Rightarrow> nat option"
    and built_for :: "nat \<Rightarrow> 'lb \<Rightarrow> bool"
  assumes lookup_in_range: "built_for n lb \<Longrightarrow> lookup lb k = Some h \<Longrightarrow> h < n"
begin

lemma lookup_endpoint:
  "built_for (length eps) lb \<Longrightarrow> lookup lb k = Some h \<Longrightarrow> eps ! h \<in> set eps"
  by (simp add: lookup_in_range)

end

definition ring_built_for :: "nat \<Rightarrow> hash_ring \<Rightarrow> bool" where
  "ring_built_for n r \<longleftrightarrow> (\<exists>addresses m. length addresses = n \<and> ring_build addresses m = Some r)"

definition maglev_built_for :: "nat \<Rightarrow> maglev_table \<Rightarrow> bool" where
  "maglev_built_for n t \<longleftrightarrow> length (mg_table t) = unat (mg_size t) \<and> set (mg_table t) \<subseteq> {..<n}"

interpretation ring: host_lookup ring_lookup ring_built_for
  by unfold_locales (auto simp: ring_built_for_def dest!: ring_build_Some dest: ring_lookup_host)

interpretation mag: host_lookup maglev_lookup maglev_built_for
proof
  fix n t k h
  assume b: "maglev_built_for n t" and l: "maglev_lookup t k = Some h"
  then have "mg_table t \<noteq> []" by (auto simp: maglev_lookup_def)
  with b l show "h < n"
    using maglev_lookup_range [of t n k] by (auto simp: maglev_built_for_def)
qed

datatype HashLb = Ring hash_ring | MaglevLb maglev_table

fun hash_lookup :: "HashLb \<Rightarrow> u64 \<Rightarrow> nat option" where
  "hash_lookup (Ring r) kh = ring_lookup r kh"
| "hash_lookup (MaglevLb t) kh = maglev_lookup t kh"

fun hash_built_for :: "nat \<Rightarrow> HashLb \<Rightarrow> bool" where
  "hash_built_for n (Ring r) = ring_built_for n r"
| "hash_built_for n (MaglevLb t) = maglev_built_for n t"

interpretation hlb: host_lookup hash_lookup hash_built_for
proof
  fix n lb k h
  show "hash_built_for n lb \<Longrightarrow> hash_lookup lb k = Some h \<Longrightarrow> h < n"
    by (cases lb) (auto intro: ring.lookup_in_range mag.lookup_in_range)
qed

section \<open>The cluster\<close>

text \<open>
  The fields of \<open>Cluster\<close> in the order of the source. A counter or gauge handle is an
  index into the \<open>stats\<close> of the registry; the gauges shared by the endpoints' health
  and ejection states are kept with those states.
\<close>

datatype UpstreamProtocol = Http1 | Http2

record EdsReloadState =
  eds_path :: string
  selection_name :: string
  update_attempt :: nat
  update_success :: nat
  update_failure :: nat
  update_empty :: nat
  update_rejected :: nat

record 'addr cluster =
  cl_name :: string
  cl_endpoints :: "'addr list"
  cl_cursor :: u64
  cl_upstream_protocol :: UpstreamProtocol
  cx_total :: nat
  cx_active :: nat
  upstream_rq_total :: nat
  upstream_rq_5xx :: nat
  upstream_rq_retry :: nat
  upstream_rq_retry_success :: nat
  upstream_rq_retry_limit_exceeded :: nat
  upstream_rq_retry_overflow :: nat
  cl_budget :: "budget_state option"
  cl_health :: "endpoint_health list option"
  cl_panic_threshold :: f64
  cl_outlier :: "outlier_detection option"
  cl_hash_lb :: "HashLb option"
  cl_subset :: "SubsetIndex option"
  eds_reload :: "EdsReloadState option"

datatype 'addr pick_result = Picked 'addr | NoEndpoint | IndexPanic

definition index_ok :: "'addr cluster \<Rightarrow> nat \<Rightarrow> bool" where
  "index_ok c i \<longleftrightarrow>
     (case cl_health c of None \<Rightarrow> True | Some h \<Rightarrow> i < length h)
     \<and> (case cl_outlier c of None \<Rightarrow> True | Some od \<Rightarrow> i < length (od_endpoints od))"

definition endpoint_eligible :: "'addr cluster \<Rightarrow> nat \<Rightarrow> bool" where
  "endpoint_eligible c i \<longleftrightarrow>
     (case cl_health c of None \<Rightarrow> True | Some h \<Rightarrow> is_healthy (h ! i))
     \<and> (case cl_outlier c of None \<Rightarrow> True | Some od \<Rightarrow> \<not> ejected (od_endpoints od ! i))"

definition bump_cursor :: "'addr cluster \<Rightarrow> 'addr cluster" where
  "bump_cursor c = c\<lparr>cl_cursor := cl_cursor c + 1\<rparr>"

text \<open>\<open>eps[idxs[cursor.fetch_add(1) % idxs.len()]]\<close>\<close>

definition pick_rr :: "'addr cluster \<Rightarrow> nat list \<Rightarrow> 'addr pick_result \<times> 'addr cluster" where
  "pick_rr c idxs =
     (Picked (cl_endpoints c ! (idxs ! (unat (cl_cursor c) mod length idxs))), bump_cursor c)"

definition pick_subset :: "'addr cluster \<Rightarrow> nat list \<Rightarrow> 'addr pick_result \<times> 'addr cluster" where
  "pick_subset c idxs =
     (let in_range = filter (\<lambda>i. i < length (cl_endpoints c)) idxs in
      if \<not> list_all (index_ok c) in_range then (IndexPanic, c)
      else let sub = filter (endpoint_eligible c) in_range in
        if sub = [] then (NoEndpoint, c) else pick_rr c sub)"

definition pick_cursor :: "'addr cluster \<Rightarrow> 'addr pick_result \<times> 'addr cluster" where
  "pick_cursor c =
     (let n = length (cl_endpoints c) in
      if cl_health c = None \<and> cl_outlier c = None then pick_rr c [0..<n]
      else if \<not> list_all (index_ok c) [0..<n] then (IndexPanic, c)
      else
        let eligible_idx = filter (endpoint_eligible c) [0..<n] in
        if f64_percent (length eligible_idx) n < cl_panic_threshold c then pick_rr c [0..<n]
        else if eligible_idx = [] then (NoEndpoint, c)
        else pick_rr c eligible_idx)"

definition pick_hash :: "'addr cluster \<Rightarrow> u64 option \<Rightarrow> 'addr option" where
  "pick_hash c key_hash =
     (case (cl_hash_lb c, key_hash) of
        (Some hlb, Some kh) \<Rightarrow>
          (case hash_lookup hlb kh of
             Some hi \<Rightarrow> if hi < length (cl_endpoints c) then Some (cl_endpoints c ! hi) else None
           | None \<Rightarrow> None)
      | _ \<Rightarrow> None)"

definition pick_all :: "'addr cluster \<Rightarrow> u64 option \<Rightarrow> 'addr pick_result \<times> 'addr cluster" where
  "pick_all c key_hash =
     (case pick_hash c key_hash of Some e \<Rightarrow> (Picked e, c) | None \<Rightarrow> pick_cursor c)"

definition pick :: "'addr cluster \<Rightarrow> u64 option \<Rightarrow> lb_metadata option
    \<Rightarrow> 'addr pick_result \<times> 'addr cluster" where
  "pick c key_hash subset_match =
     (if cl_endpoints c = [] then (NoEndpoint, c)
      else case cl_subset c of
        None \<Rightarrow> pick_all c key_hash
      | Some ix \<Rightarrow>
          (case subset_resolve ix subset_match of
             EligibleAll \<Rightarrow> pick_all c key_hash
           | EligibleSome idxs \<Rightarrow> pick_subset c idxs
           | EligibleNone \<Rightarrow> (NoEndpoint, c)))"

definition store_endpoints :: "'addr list \<Rightarrow> 'addr cluster \<Rightarrow> 'addr cluster" where
  "store_endpoints eps c = c\<lparr>cl_endpoints := eps\<rparr>"

definition hash_request_key :: "bytes \<Rightarrow> u64" where
  "hash_request_key v = xxh64 v"

section \<open>Safety\<close>

text \<open>The per-endpoint arrays are aligned with the endpoints, as \<open>from_bootstrap\<close> builds them.\<close>

definition cluster_wf :: "'addr cluster \<Rightarrow> bool" where
  "cluster_wf c \<longleftrightarrow>
     (\<forall>h. cl_health c = Some h \<longrightarrow> length h = length (cl_endpoints c))
     \<and> (\<forall>od. cl_outlier c = Some od \<longrightarrow> length (od_endpoints od) = length (cl_endpoints c))"

lemma cluster_wf_index_ok: "cluster_wf c \<Longrightarrow> i < length (cl_endpoints c) \<Longrightarrow> index_ok c i"
  by (auto simp: cluster_wf_def index_ok_def split: option.splits)

lemma pick_rr_in:
  assumes "idxs \<noteq> []" "\<forall>i \<in> set idxs. i < length (cl_endpoints c)"
  shows "\<exists>i \<in> set idxs. fst (pick_rr c idxs) = Picked (cl_endpoints c ! i)"
  using assms nth_mod_in_set [OF assms(1)] by (auto simp: pick_rr_def)

text \<open>A cursor choice, classified: panic routing, or an eligible endpoint, or none.\<close>

lemma pick_cursor_cases:
  assumes "cluster_wf c" "cl_endpoints c \<noteq> []"
  obtains (picked) i where "i < length (cl_endpoints c)" "fst (pick_cursor c) = Picked (cl_endpoints c ! i)"
      "endpoint_eligible c i"
    | (panic) i where "i < length (cl_endpoints c)" "fst (pick_cursor c) = Picked (cl_endpoints c ! i)"
      "f64_percent (length (filter (endpoint_eligible c) [0..<length (cl_endpoints c)]))
         (length (cl_endpoints c)) < cl_panic_threshold c"
    | (none) "fst (pick_cursor c) = NoEndpoint" "\<forall>i<length (cl_endpoints c). \<not> endpoint_eligible c i"
      "cl_panic_threshold c \<le> 0"
proof -
  let ?n = "length (cl_endpoints c)"
  let ?el = "filter (endpoint_eligible c) [0..<?n]"
  have ok: "list_all (index_ok c) [0..<?n]"
    using cluster_wf_index_ok [OF assms(1)] by (auto simp: list_all_iff)
  obtain j where j: "j < ?n" "fst (pick_rr c [0..<?n]) = Picked (cl_endpoints c ! j)"
    using pick_rr_in [of "[0..<?n]" c] assms(2) by auto
  consider "cl_health c = None \<and> cl_outlier c = None"
    | "\<not> (cl_health c = None \<and> cl_outlier c = None)" "f64_percent (length ?el) ?n < cl_panic_threshold c"
    | "\<not> (cl_health c = None \<and> cl_outlier c = None)" "\<not> f64_percent (length ?el) ?n < cl_panic_threshold c"
    by blast
  then show thesis
  proof cases
    case 1
    then have "endpoint_eligible c j" by (simp add: endpoint_eligible_def)
    with 1 j show thesis by (intro picked [of j]) (simp_all add: pick_cursor_def)
  next
    case 2
    with ok j show thesis by (intro panic [of j]) (auto simp: pick_cursor_def Let_def)
  next
    case 3
    show thesis
    proof (cases "?el = []")
      case True
      with 3 ok show thesis
        by (intro none) (auto simp: pick_cursor_def Let_def filter_upt_eq_Nil f64_percent_0)
    next
      case False
      with 3 ok have eq: "pick_cursor c = pick_rr c ?el" by (auto simp: pick_cursor_def Let_def)
      obtain i where "i \<in> set ?el" "fst (pick_rr c ?el) = Picked (cl_endpoints c ! i)"
        using pick_rr_in [OF False, of c] by auto
      with eq show thesis by (intro picked [of i]) auto
    qed
  qed
qed

lemma pick_cursor_endpoint:
  assumes "cluster_wf c" "cl_endpoints c \<noteq> []"
  shows "fst (pick_cursor c) = NoEndpoint \<or> (\<exists>e \<in> set (cl_endpoints c). fst (pick_cursor c) = Picked e)"
  using assms by (cases rule: pick_cursor_cases) auto

lemma pick_subset_endpoint:
  assumes "cluster_wf c"
  shows "fst (pick_subset c idxs) = NoEndpoint \<or>
    (\<exists>i \<in> set idxs. i < length (cl_endpoints c) \<and> endpoint_eligible c i
       \<and> fst (pick_subset c idxs) = Picked (cl_endpoints c ! i))"
proof -
  let ?r = "filter (\<lambda>i. i < length (cl_endpoints c)) idxs"
  let ?s = "filter (endpoint_eligible c) ?r"
  have ok: "list_all (index_ok c) ?r"
    using cluster_wf_index_ok [OF assms] by (auto simp: list_all_iff)
  show ?thesis
  proof (cases "?s = []")
    case True
    with ok show ?thesis by (simp add: pick_subset_def)
  next
    case False
    then obtain i where "i \<in> set ?s" "fst (pick_rr c ?s) = Picked (cl_endpoints c ! i)"
      using pick_rr_in [OF False, of c] by auto
    with ok False show ?thesis by (auto simp: pick_subset_def Let_def)
  qed
qed

lemma pick_hash_endpoint: "pick_hash c kh = Some e \<Longrightarrow> e \<in> set (cl_endpoints c)"
  by (auto simp: pick_hash_def split: option.splits if_splits)

lemma pick_all_endpoint:
  assumes "cluster_wf c" "cl_endpoints c \<noteq> []"
  shows "fst (pick_all c kh) = NoEndpoint \<or> (\<exists>e \<in> set (cl_endpoints c). fst (pick_all c kh) = Picked e)"
  using assms pick_cursor_endpoint pick_hash_endpoint by (auto simp: pick_all_def split: option.splits)

text \<open>
  C1. On every cluster whose per-endpoint arrays are aligned with its endpoint set, a pick
  never indexes out of bounds, and what it returns is one of the current endpoints: an
  index left over from an older endpoint set is never dereferenced.
\<close>

theorem pick_safe:
  assumes "cluster_wf c"
  shows "fst (pick c key_hash subset_match) = NoEndpoint \<or>
    (\<exists>e \<in> set (cl_endpoints c). fst (pick c key_hash subset_match) = Picked e)"
  using pick_all_endpoint [OF assms, of key_hash] pick_subset_endpoint [OF assms]
  by (auto simp: pick_def split: option.splits eligible.splits) (metis nth_mem)+

definition plain :: "'addr list \<Rightarrow> 'addr cluster" where
  "plain eps = \<lparr>cl_name = ''c'', cl_endpoints = eps, cl_cursor = 0, cl_upstream_protocol = Http1,
     cx_total = 0, cx_active = 0, upstream_rq_total = 1, upstream_rq_5xx = 2, upstream_rq_retry = 3,
     upstream_rq_retry_success = 4, upstream_rq_retry_limit_exceeded = 5,
     upstream_rq_retry_overflow = 6, cl_budget = None, cl_health = None, cl_panic_threshold = 50,
     cl_outlier = None, cl_hash_lb = None, cl_subset = None, eds_reload = None\<rparr>"

text \<open>A hash table left over from a larger endpoint set.\<close>

theorem pick_safe_witness:
  "fst (pick ((plain [1 :: nat])\<lparr>cl_hash_lb := Some (MaglevLb \<lparr>mg_table = [5, 5], mg_size = 2\<rparr>)\<rparr>)
      (Some 1) None) = Picked 1"
  using pick_safe [of "(plain [1 :: nat])\<lparr>cl_hash_lb := Some (MaglevLb \<lparr>mg_table = [5, 5], mg_size = 2\<rparr>)\<rparr>"
      "Some 1" None]
  by (simp add: plain_def cluster_wf_def pick_def pick_all_def pick_cursor_def pick_hash_def pick_rr_def
      maglev_lookup_def)

definition eligible_idx :: "'addr cluster \<Rightarrow> nat list" where
  "eligible_idx c = filter (endpoint_eligible c) [0..<length (cl_endpoints c)]"

definition panicking :: "'addr cluster \<Rightarrow> bool" where
  "panicking c \<longleftrightarrow>
     f64_percent (length (eligible_idx c)) (length (cl_endpoints c)) < cl_panic_threshold c"

text \<open>
  C2. A request that no hash table answers is never sent to an unhealthy or ejected endpoint
  unless the eligible share is below the panic threshold; and inside a subset not even
  then, nor to an endpoint outside the subset.
\<close>

theorem pick_respects_eligibility:
  assumes "cluster_wf c" and "pick_hash c key_hash = None"
    and "fst (pick c key_hash subset_match) = Picked e"
  shows "\<exists>i<length (cl_endpoints c). e = cl_endpoints c ! i \<and>
    (case cl_subset c of
       None \<Rightarrow> endpoint_eligible c i \<or> panicking c
     | Some ix \<Rightarrow>
         (case subset_resolve ix subset_match of
            EligibleAll \<Rightarrow> endpoint_eligible c i \<or> panicking c
          | EligibleSome idxs \<Rightarrow> i \<in> set idxs \<and> endpoint_eligible c i
          | EligibleNone \<Rightarrow> False))"
proof -
  have ne: "cl_endpoints c \<noteq> []" using assms(3) by (auto simp: pick_def)
  have cur: "\<exists>i<length (cl_endpoints c). e = cl_endpoints c ! i \<and> (endpoint_eligible c i \<or> panicking c)"
    if "fst (pick_cursor c) = Picked e"
    using assms(1) ne
    by (cases rule: pick_cursor_cases) (use that in \<open>auto simp: panicking_def eligible_idx_def\<close>)
  show ?thesis
    using assms(2,3) ne cur pick_subset_endpoint [OF assms(1)]
    by (auto simp: pick_def pick_all_def split: option.splits eligible.splits) (metis pick_result.distinct(1) pick_result.inject)
qed

definition half_down :: "nat cluster" where
  "half_down = (plain [1, 2])\<lparr>cl_health :=
     Some [health_new 1 1, (health_new 1 1)\<lparr>h_healthy := True\<rparr>]\<rparr>"

theorem pick_respects_eligibility_witness:
  "fst (pick half_down None None) = Picked 2 \<and>
    (\<exists>i<length (cl_endpoints half_down). 2 = cl_endpoints half_down ! i \<and> (endpoint_eligible half_down i \<or> panicking half_down))"
proof -
  have wf: "cluster_wf half_down" by (simp add: cluster_wf_def half_down_def plain_def)
  have h: "pick_hash half_down None = None" by (simp add: pick_hash_def half_down_def plain_def)
  have p: "fst (pick half_down None None) = Picked 2"
    by code_simp
  have "cl_subset half_down = None" by (simp add: half_down_def plain_def)
  with p show ?thesis using pick_respects_eligibility [OF wf h p] by simp
qed


lemma pick_cursor_none_iff:
  assumes "cluster_wf c" "cl_endpoints c \<noteq> []"
  shows "fst (pick_cursor c) = NoEndpoint \<longleftrightarrow>
    (cl_health c \<noteq> None \<or> cl_outlier c \<noteq> None) \<and> eligible_idx c = [] \<and> cl_panic_threshold c \<le> 0"
proof -
  have "list_all (index_ok c) [0..<length (cl_endpoints c)]"
    using cluster_wf_index_ok [OF assms(1)] by (auto simp: list_all_iff)
  then show ?thesis
    by (auto simp: pick_cursor_def Let_def pick_rr_def eligible_idx_def f64_percent_0)
qed

text \<open>
  When does a plain request get no endpoint (and the client a 503)? Exactly when a
  reload has emptied the cluster, or a health or outlier filter leaves nobody eligible
  and panic routing is switched off. With any positive panic threshold a non-empty
  cluster always answers.
\<close>

theorem pick_none_iff:
  assumes "cluster_wf c" and "cl_subset c = None" and "pick_hash c key_hash = None"
  shows "fst (pick c key_hash subset_match) = NoEndpoint \<longleftrightarrow>
    cl_endpoints c = [] \<or>
    (cl_health c \<noteq> None \<or> cl_outlier c \<noteq> None) \<and> eligible_idx c = [] \<and> cl_panic_threshold c \<le> 0"
  using assms pick_cursor_none_iff [OF assms(1)] by (auto simp: pick_def pick_all_def)

theorem pick_none_iff_witness:
  "fst (pick ((plain [1 :: nat])\<lparr>cl_health := Some [health_new 1 1], cl_panic_threshold := 0\<rparr>) None None)
     = NoEndpoint"
  by (subst pick_none_iff)
    (auto simp: plain_def cluster_wf_def pick_hash_def eligible_idx_def endpoint_eligible_def
      is_healthy_def health_new_def)

section \<open>Round-robin fairness\<close>

fun picks :: "nat \<Rightarrow> 'addr cluster \<Rightarrow> 'addr pick_result list \<times> 'addr cluster" where
  "picks 0 c = ([], c)"
| "picks (Suc m) c =
     (let (r, c') = pick c None None; (rs, c'') = picks m c' in (r # rs, c''))"

text \<open>The indices the cursor rotates over.\<close>

definition rotation :: "'addr cluster \<Rightarrow> nat list" where
  "rotation c =
     (if cl_health c = None \<and> cl_outlier c = None \<or> panicking c
      then [0..<length (cl_endpoints c)] else eligible_idx c)"

lemma bump_cursor_same [simp]:
  "cl_endpoints (bump_cursor c) = cl_endpoints c" "cl_health (bump_cursor c) = cl_health c"
  "cl_outlier (bump_cursor c) = cl_outlier c" "cl_subset (bump_cursor c) = cl_subset c"
  "cl_panic_threshold (bump_cursor c) = cl_panic_threshold c" "cl_cursor (bump_cursor c) = cl_cursor c + 1"
  "cluster_wf (bump_cursor c) = cluster_wf c" "endpoint_eligible (bump_cursor c) = endpoint_eligible c"
  by (auto simp: bump_cursor_def cluster_wf_def endpoint_eligible_def)

lemma rotation_bump [simp]: "rotation (bump_cursor c) = rotation c"
  by (simp add: rotation_def eligible_idx_def panicking_def)

lemma pick_rotation:
  assumes "cluster_wf c" "cl_subset c = None" "cl_endpoints c \<noteq> []" "rotation c \<noteq> []"
  shows "pick c None None = pick_rr c (rotation c)"
proof -
  have "list_all (index_ok c) [0..<length (cl_endpoints c)]"
    using cluster_wf_index_ok [OF assms(1)] by (auto simp: list_all_iff)
  moreover have "pick_hash c None = None" by (simp add: pick_hash_def split: option.splits)
  ultimately show ?thesis
    using assms(2-4)
    by (auto simp: pick_def pick_all_def pick_cursor_def rotation_def Let_def panicking_def eligible_idx_def)
qed

lemma picks_rotation:
  assumes "cluster_wf c" "cl_subset c = None" "cl_endpoints c \<noteq> []" "rotation c \<noteq> []"
    and "unat (cl_cursor c) + m < 2 ^ 64"
  shows "fst (picks m c) = map (\<lambda>k. Picked (cl_endpoints c !
    (rotation c ! ((unat (cl_cursor c) + k) mod length (rotation c))))) [0..<m]"
  using assms
proof (induction m arbitrary: c)
  case (Suc m)
  have u: "unat (cl_cursor c + 1) = Suc (unat (cl_cursor c))"
    using Suc.prems(5) by (simp add: unat_word_ariths)
  have "fst (picks m (bump_cursor c)) = map (\<lambda>k. Picked (cl_endpoints c !
      (rotation c ! ((Suc (unat (cl_cursor c)) + k) mod length (rotation c))))) [0..<m]"
    using Suc.IH [of "bump_cursor c"] Suc.prems by (simp add: u)
  then show ?case
    using pick_rotation [OF Suc.prems(1-4)]
    by (simp add: pick_rr_def split_def upt_conv_Cons map_Suc_upt [symmetric] o_def del: upt_Suc)
qed simp

lemma mset_rotate_map: "mset (map (\<lambda>k. xs ! ((a + k) mod length xs)) [0..<length xs]) = mset xs"
proof -
  have "map (\<lambda>k. xs ! ((a + k) mod length xs)) [0..<length xs] = rotate a xs"
    by (rule nth_equalityI) (auto simp: nth_rotate add.commute)
  moreover have "mset (rotate a xs) = mset xs"
    by (metis append_take_drop_id mset_append add.commute rotate_drop_take)
  ultimately show ?thesis by simp
qed

lemma mset_cycle:
  "mset (map (\<lambda>k. xs ! ((a + k) mod length xs)) [0..<r * length xs]) = repeat_mset r (mset xs)"
proof (induction r arbitrary: a)
  case (Suc r)
  have "[0..<Suc r * length xs] = [0..<length xs] @ map (\<lambda>k. length xs + k) [0..<r * length xs]"
    by (simp add: map_add_upt upt_add_eq_append [of 0 "length xs"] add.commute)
  moreover have "(a + (length xs + k)) mod length xs = (a + k) mod length xs" for k
    by (metis add.left_commute mod_add_self1)
  ultimately show ?case
    using Suc.IH mset_rotate_map [of xs a] by (simp add: o_def)
qed simp

text \<open>
  C32. In a cluster without subsets, over \<open>r\<close> full turns of picks without a hash key, from any cursor position from which the
  cursor does not wrap at \<open>2^64\<close> within these turns,
  every member of the rotation (all endpoints of a plain or panicking cluster, the
  eligible ones otherwise) is picked exactly \<open>r\<close> times.
\<close>

theorem round_robin_fair:
  assumes "cluster_wf c" and "cl_subset c = None" and "rotation c \<noteq> []"
    and "unat (cl_cursor c) + r * length (rotation c) < 2 ^ 64"
  shows "mset (fst (picks (r * length (rotation c)) c)) =
    repeat_mset r (mset (map (\<lambda>i. Picked (cl_endpoints c ! i)) (rotation c)))"
proof -
  have "cl_endpoints c \<noteq> []" using assms(3) by (auto simp: rotation_def eligible_idx_def)
  note p = picks_rotation [OF assms(1,2) this assms(3,4)]
  let ?f = "\<lambda>i. Picked (cl_endpoints c ! i)"
  have "fst (picks (r * length (rotation c)) c) =
      map (\<lambda>k. map ?f (rotation c) ! ((unat (cl_cursor c) + k) mod length (map ?f (rotation c))))
        [0..<r * length (map ?f (rotation c))]"
    unfolding p using assms(3) by simp
  then show ?thesis by (simp only: mset_cycle)
qed

theorem round_robin_fair_witness:
  "mset (fst (picks 4 ((plain [7 :: nat, 8])\<lparr>cl_cursor := 5\<rparr>))) =
     {#Picked 7, Picked 8, Picked 7, Picked 8#}"
proof -
  let ?c = "(plain [7 :: nat, 8])\<lparr>cl_cursor := 5\<rparr>"
  have r: "rotation ?c = [0, 1]" by (simp add: rotation_def plain_def)
  have wf: "cluster_wf ?c" and sub: "cl_subset ?c = None" and ne: "rotation ?c \<noteq> []"
    and cur: "unat (cl_cursor ?c) + 2 * length (rotation ?c) < 2 ^ 64"
    by (simp_all add: cluster_wf_def r) (simp_all add: plain_def)
  have m: "map (\<lambda>i. Picked (cl_endpoints ?c ! i)) [0, 1] = [Picked 7, Picked 8]"
    by (simp add: plain_def)
  have n: "2 * length [0 :: nat, 1] = 4" by simp
  show ?thesis
    using round_robin_fair [OF wf sub ne cur] unfolding r m n by (simp add: numeral_2_eq_2)
qed

section \<open>Consistent hashing\<close>

lemma pick_hash_hit:
  assumes "cl_endpoints c \<noteq> []" "cl_subset c = None" "cl_hash_lb c = Some lb"
    and "hash_lookup lb k = Some h" "h < length (cl_endpoints c)"
  shows "pick c (Some k) subset_match = (Picked (cl_endpoints c ! h), c)"
  using assms by (simp add: pick_def pick_all_def pick_hash_def)

text \<open>
  A MAGLEV cluster with a validated table size answers every key, always with the same
  endpoint for the same key, whatever the cursor, the health and the ejection state,
  and without moving the cursor.
\<close>

theorem maglev_pick_sticky:
  assumes "validate_lb cl Maglev ring cfg = Inr ()"
    and "maglev_build addresses (of_nat (maglev_table_size cfg)) = Some (Inr t)"
    and "addresses \<noteq> []" and "length (cl_endpoints c) = length addresses"
    and "cl_hash_lb c = Some (MaglevLb t)" and "cl_subset c = None"
  shows "\<exists>h<length addresses. \<forall>cur health od.
    let c' = c\<lparr>cl_cursor := cur, cl_health := health, cl_outlier := od\<rparr>
    in pick c' (Some k) subset_match = (Picked (cl_endpoints c ! h), c')"
proof -
  have "maglev_built_for (length addresses) t" "mg_table t \<noteq> []"
    using maglev_build_validated [OF assms(3,1) refl] assms(2) validated_size [OF assms(1)]
    by (auto simp: maglev_built_for_def unat_of_nat take_bit_nat_eq_self prime_nat_def)
  then obtain h where h: "h < length addresses" "maglev_lookup t k = Some h"
    using maglev_lookup_range [of t "length addresses" k] by (auto simp: maglev_built_for_def)
  then have "pick (c\<lparr>cl_cursor := cur, cl_health := health, cl_outlier := od\<rparr>) (Some k) subset_match =
      (Picked (cl_endpoints c ! h), c\<lparr>cl_cursor := cur, cl_health := health, cl_outlier := od\<rparr>)"
    for cur health od
    using assms(3-6) by (subst pick_hash_hit [where lb = "MaglevLb t" and h = h]) auto
  with h(1) show ?thesis unfolding Let_def by blast
qed

theorem maglev_pick_sticky_witness:
  "\<exists>t h. maglev_build [''10.0.0.1:80'', ''10.0.0.2:80''] 65537 = Some (Inr t) \<and> h < 2 \<and>
     (\<forall>cur. fst (pick ((plain [1 :: nat, 2])\<lparr>cl_hash_lb := Some (MaglevLb t), cl_cursor := cur\<rparr>)
        (Some 7) None) = Picked ([1, 2] ! h))"
proof -
  let ?as = "[''10.0.0.1:80'', ''10.0.0.2:80'']"
  have v: "validate_lb ''c'' Maglev None None = Inr ()" by (simp add: validate_lb_def)
  have M: "of_nat (maglev_table_size None) = (65537 :: u64)" by (simp add: maglev_table_size_def)
  have ne: "?as \<noteq> []" by simp
  obtain t where t: "maglev_build ?as 65537 = Some (Inr t)"
    using maglev_build_validated [OF ne v refl] unfolding M by blast
  let ?c = "(plain [1 :: nat, 2])\<lparr>cl_hash_lb := Some (MaglevLb t)\<rparr>"
  have len: "length (cl_endpoints ?c) = length ?as" and lb: "cl_hash_lb ?c = Some (MaglevLb t)"
    and sub: "cl_subset ?c = None" by (simp_all add: plain_def)
  obtain h where h: "h < length ?as" and p: "\<And>cur health od.
      pick (?c\<lparr>cl_cursor := cur, cl_health := health, cl_outlier := od\<rparr>) (Some 7) None =
      (Picked (cl_endpoints ?c ! h), ?c\<lparr>cl_cursor := cur, cl_health := health, cl_outlier := od\<rparr>)"
    using maglev_pick_sticky [OF v _ ne len lb sub, of 7 None] t unfolding M Let_def by blast
  have "fst (pick (?c\<lparr>cl_cursor := cur\<rparr>) (Some 7) None) = Picked ([1, 2] ! h)" for cur
    using p [where cur = cur and health = None and od = None] by (simp add: plain_def)
  moreover have "h < 2" using h by simp
  ultimately show ?thesis using t by blast
qed

text \<open>
  A RING_HASH cluster with more endpoints than its minimum ring size ignores the key:
  the ring is empty and the request is balanced by the cursor.
\<close>

theorem undersized_ring_ignores_key:
  assumes "m < length addresses" and "ring_build addresses m = Some ring" "cl_hash_lb c = Some (Ring ring)"
  shows "pick c (Some k) subset_match = pick c None subset_match"
proof -
  have "pick_hash c (Some k) = None" "pick_hash c None = None"
    using assms by (simp_all add: pick_hash_def ring_build_undersized ring_lookup_def)
  then show ?thesis by (simp add: pick_def pick_all_def split: option.splits eligible.splits)
qed

end
