(* ===== verification/Duration.thy ===== *)
theory Duration
  imports Prelude
begin

text \<open>
  \<open>parse_duration\<close> and \<open>parse_positive_duration\<close> of \<open>envoy-config/src/bootstrap.rs\<close>,
  the reader of every duration in the configuration. A \<open>std::time::Duration\<close> is its
  length in microseconds, the finest unit the format has. An error message is the
  constructor of the branch that builds it.
\<close>

datatype duration_error =
    EmptyDuration
  | InvalidMillisecond string
  | InvalidMicrosecond string
  | InvalidSecond string
  | UnsupportedUnit string

definition strip_suffix :: "string \<Rightarrow> string \<Rightarrow> string option" where
  "strip_suffix s suf = (if ends_with s suf then Some (take (length s - length suf) s) else None)"

definition scaled :: "nat \<Rightarrow> (string \<Rightarrow> duration_error) \<Rightarrow> string \<Rightarrow> duration_error + nat" where
  "scaled unit bad num = (case parse_unsigned 64 num of Some n \<Rightarrow> Inr (n * unit) | None \<Rightarrow> Inl (bad num))"

definition parse_duration :: "string \<Rightarrow> duration_error + nat" where
  "parse_duration s =
     (if s = [] then Inl EmptyDuration
      else case strip_suffix s ''ms'' of
        Some num \<Rightarrow> scaled 1000 InvalidMillisecond num
      | None \<Rightarrow> (case strip_suffix s ''us'' of
          Some num \<Rightarrow> scaled 1 InvalidMicrosecond num
        | None \<Rightarrow> (case strip_suffix s ''s'' of
            Some num \<Rightarrow> scaled 1000000 InvalidSecond num
          | None \<Rightarrow> Inl (UnsupportedUnit s))))"

definition parse_positive_duration :: "string \<Rightarrow> nat option" where
  "parse_positive_duration raw =
     (case parse_duration raw of Inl _ \<Rightarrow> None | Inr d \<Rightarrow> if d = 0 then None else Some d)"

section \<open>Facts\<close>

lemma strip_suffix_Some: "strip_suffix s suf = Some t \<longleftrightarrow> s = t @ suf"
  by (auto simp: strip_suffix_def ends_with_iff suffix_def)

lemma strip_suffix_append [simp]: "strip_suffix (s @ suf) suf = Some s"
  by (simp add: strip_suffix_Some)

lemma digits_suffix_ne:
  assumes "list_all is_ascii_digit (butlast (d @ u))" "\<not> is_ascii_digit c"
  shows "d @ u \<noteq> t @ [c, e]"
proof
  assume "d @ u = t @ [c, e]"
  then have "butlast (d @ u) = t @ [c]" by (simp add: butlast_append)
  with assms show False by simp
qed

text \<open>
  Every value prints to a string that parses back to it, in each of the three units;
  a value that does not fit 64 bits is refused, never wrapped.
\<close>

theorem parse_duration_roundtrip:
  "parse_duration (show_nat n @ ''s'') = (if n < 2 ^ 64 then Inr (n * 1000000) else Inl (InvalidSecond (show_nat n)))
   \<and> parse_duration (show_nat n @ ''ms'') = (if n < 2 ^ 64 then Inr (n * 1000) else Inl (InvalidMillisecond (show_nat n)))
   \<and> parse_duration (show_nat n @ ''us'') = (if n < 2 ^ 64 then Inr n else Inl (InvalidMicrosecond (show_nat n)))"
proof -
  have dig: "list_all is_ascii_digit (show_nat n)" by (auto simp: list_all_iff show_nat_digits)
  have big: "parse_unsigned 64 (show_nat n) = (if n < 2 ^ 64 then Some n else None)"
  proof (cases "n < 2 ^ 64")
    case False
    obtain c cs where s: "show_nat n = c # cs" by (cases "show_nat n") auto
    moreover have "is_ascii_digit c" using dig s by simp
    then have "c \<noteq> CHR ''+''" by (auto simp: is_ascii_digit_def byte_of_def)
    ultimately show ?thesis using False read_show_nat [of n]
      by (simp add: parse_unsigned_def parse_digits_def)
  qed simp
  have m: "\<not> is_ascii_digit CHR ''m''" and u: "\<not> is_ascii_digit CHR ''u''"
    by (simp_all add: is_ascii_digit_def byte_of_def)
  have no_ms: "strip_suffix (show_nat n @ ''s'') ''ms'' = None"
    and no_us: "strip_suffix (show_nat n @ ''s'') ''us'' = None"
    using digits_suffix_ne [of "show_nat n" "''s''"] dig m u
    by (auto simp: not_Some_eq [symmetric] strip_suffix_Some butlast_append simp del: not_Some_eq)
  have us_ms: "strip_suffix (show_nat n @ ''us'') ''ms'' = None"
    by (auto simp: not_Some_eq [symmetric] strip_suffix_Some simp del: not_Some_eq)
  show ?thesis
    using no_ms no_us us_ms big
    by (simp add: parse_duration_def scaled_def)
qed

end
