(* ===== verification/Cluster_Config.thy ===== *)
theory Cluster_Config
  imports Lb_Config Duration Subset_Lb Float64 Xxhash
begin

text \<open>
  The cluster part of the bootstrap schema (\<open>envoy-config/src/bootstrap.rs\<close>) and
  \<open>validate_cluster\<close> with the checks it calls. Unsigned integers read from YAML are
  their values; a \<open>Percent\<close> is a double. The base64 decoder is a third-party crate and
  an argument of the definitions that use it.
\<close>

section \<open>Schema\<close>

datatype ClusterType = Static | StrictDns | Eds

record SocketAddress =
  sa_address :: string
  sa_port :: nat

record LbEndpoint =
  lbe_socket_address :: SocketAddress
  lbe_metadata :: "lb_metadata option"

record LoadAssignment =
  la_cluster_name :: string
  la_endpoints :: "LbEndpoint list list"

record EdsClusterConfig =
  eds_config_path :: string
  service_name :: "string option"

record DataSource =
  ds_filename :: "string option"
  ds_inline_string :: "string option"

record TlsCertificate =
  certificate_chain :: DataSource
  private_key :: DataSource

record CommonTlsContext =
  tls_certificates :: "TlsCertificate list"
  trusted_ca :: "DataSource option"
  alpn_protocols :: "string list"

datatype TransportSocketTypedConfig =
    DownstreamTls CommonTlsContext
  | UpstreamTls CommonTlsContext string

record TransportSocket =
  ts_name :: string
  ts_typed_config :: TransportSocketTypedConfig

record Http2ProtocolOptions =
  max_concurrent_streams :: "nat option"
  initial_stream_window_size :: "nat option"
  initial_connection_window_size :: "nat option"
  max_frame_size :: "nat option"

record TypedExtensionProtocolOptions =
  teo_type_url :: string
  http1_options :: "unit option"
  http2_options :: "Http2ProtocolOptions option"

record HealthCheckPayload =
  payload_text :: "string option"
  payload_binary :: "string option"

record HttpHealthCheck =
  hhc_path :: string
  hhc_host :: "string option"
  expected_statuses :: "(int \<times> int) list"

record TcpHealthCheck =
  tcp_send :: "HealthCheckPayload option"
  tcp_receive :: "HealthCheckPayload list"

text \<open>The \<open>initial_metadata\<close> of a gRPC check is parsed and never read.\<close>

record GrpcHealthCheck =
  ghc_service_name :: string
  ghc_authority :: string

record HealthCheck =
  hc_timeout :: string
  hc_interval :: string
  hc_healthy_threshold :: nat
  hc_unhealthy_threshold :: nat
  http_health_check :: "HttpHealthCheck option"
  tcp_health_check :: "TcpHealthCheck option"
  grpc_health_check :: "GrpcHealthCheck option"

record Thresholds =
  th_priority :: "RoutingPriority option"
  max_connections :: "nat option"
  max_pending_requests :: "nat option"
  max_requests :: "nat option"
  max_retries :: "nat option"
  track_remaining :: "bool option"

record OutlierDetection =
  cfg_consecutive_5xx :: "nat option"
  cfg_consecutive_gateway_failure :: "nat option"
  od_interval :: "string option"
  base_ejection_time :: "string option"
  cfg_max_ejection_percent :: "nat option"

record ClusterConfig =
  cc_name :: string
  cluster_type :: ClusterType
  lb_policy :: LbPolicy
  load_assignment :: "LoadAssignment option"
  eds_cluster_config :: "EdsClusterConfig option"
  transport_socket :: "TransportSocket option"
  typed_extension_protocol_options :: "TypedExtensionProtocolOptions option"
  health_checks :: "HealthCheck list"
  healthy_panic_threshold :: "f64 option"
  circuit_breakers :: "Thresholds list option"
  idle_timeout :: "string option"
  cc_outlier_detection :: "OutlierDetection option"
  ring_hash_lb_config :: "RingHashLbConfig option"
  maglev_lb_config :: "MaglevLbConfig option"
  lb_subset_config :: "LbSubsetConfig option"

section \<open>Health-check payloads\<close>

datatype PayloadDecodeError = InvalidHex string | InvalidBase64 string | EmptyPayload

definition to_digit16 :: "char \<Rightarrow> nat option" where
  "to_digit16 c =
     (let n = byte_of c in
      if 48 \<le> n \<and> n \<le> 57 then Some (n - 48)
      else if 97 \<le> n \<and> n \<le> 102 then Some (n - 87)
      else if 65 \<le> n \<and> n \<le> 70 then Some (n - 55)
      else None)"

fun decode_hex_pairs :: "string \<Rightarrow> bytes option" where
  "decode_hex_pairs [] = Some []"
| "decode_hex_pairs [c] = None"
| "decode_hex_pairs (c # d # s) =
     (case (to_digit16 c, to_digit16 d) of
        (Some hi, Some lo) \<Rightarrow> map_option ((#) (of_nat (hi * 16 + lo))) (decode_hex_pairs s)
      | _ \<Rightarrow> None)"

definition decode_hex :: "string \<Rightarrow> bytes option" where
  "decode_hex s = (if odd (length s) then None else decode_hex_pairs s)"

definition payload_decode :: "(string \<Rightarrow> bytes option) \<Rightarrow> HealthCheckPayload \<Rightarrow> PayloadDecodeError + bytes" where
  "payload_decode b64_decode p =
     (case (payload_text p, payload_binary p) of
        (Some hex, None) \<Rightarrow> (case decode_hex hex of Some bs \<Rightarrow> Inr bs | None \<Rightarrow> Inl (InvalidHex hex))
      | (None, Some b64) \<Rightarrow> (case b64_decode b64 of Some bs \<Rightarrow> Inr bs | None \<Rightarrow> Inl (InvalidBase64 b64))
      | _ \<Rightarrow> Inl EmptyPayload)"

section \<open>The checks\<close>

definition validate_payload :: "(string \<Rightarrow> bytes option) \<Rightarrow> string \<Rightarrow> HealthCheckPayload \<Rightarrow> ConfigError + unit" where
  "validate_payload b64_decode cluster p =
     (case payload_decode b64_decode p of
        Inr _ \<Rightarrow> Inr ()
      | Inl (InvalidHex v) \<Rightarrow> Inl (InvalidHealthCheckPayloadHex cluster v)
      | Inl (InvalidBase64 v) \<Rightarrow> Inl (InvalidHealthCheckPayloadBase64 cluster v)
      | Inl EmptyPayload \<Rightarrow> Inl (EmptyHealthCheckPayload cluster))"

definition is_h2 :: "ClusterConfig \<Rightarrow> bool" where
  "is_h2 c = (case typed_extension_protocol_options c of None \<Rightarrow> False | Some teo \<Rightarrow> http2_options teo \<noteq> None)"

definition check_timing :: "(string \<Rightarrow> ConfigError) \<Rightarrow> string \<times> string \<Rightarrow> ConfigError + unit" where
  "check_timing err fr = reject_if (parse_positive_duration (snd fr) = None) (err (fst fr))"

definition validate_health_check :: "(string \<Rightarrow> bytes option) \<Rightarrow> ClusterConfig \<Rightarrow> HealthCheck \<Rightarrow> ConfigError + unit" where
  "validate_health_check b64_decode c hc =
     (let n_set = length (filter id [http_health_check hc \<noteq> None, tcp_health_check hc \<noteq> None,
                    grpc_health_check hc \<noteq> None]) in
      checks
        [reject_if (n_set > 1) (MultipleHealthCheckers (cc_name c)),
         reject_if (n_set = 0) (UnsupportedHealthCheckType (cc_name c)),
         reject_if (grpc_health_check hc \<noteq> None \<and> \<not> is_h2 c) (GrpcHealthCheckRequiresHttp2 (cc_name c)),
         reject_if (hc_healthy_threshold hc < 1) (InvalidHealthCheckThreshold (cc_name c) ''healthy_threshold''),
         reject_if (hc_unhealthy_threshold hc < 1) (InvalidHealthCheckThreshold (cc_name c) ''unhealthy_threshold''),
         check_timing (InvalidHealthCheckTiming (cc_name c)) (''timeout'', hc_timeout hc),
         check_timing (InvalidHealthCheckTiming (cc_name c)) (''interval'', hc_interval hc),
         on_some (\<lambda>http. checks
             (reject_if (hhc_path http = []) (EmptyHealthCheckPath (cc_name c))
              # map (\<lambda>(start, end'). reject_if (start \<ge> end') (InvalidInt64Range start end'))
                  (expected_statuses http)))
           (http_health_check hc),
         on_some (\<lambda>tcp. checks
             (on_some (validate_payload b64_decode (cc_name c)) (tcp_send tcp)
              # map (validate_payload b64_decode (cc_name c)) (tcp_receive tcp)))
           (tcp_health_check hc)])"

definition validate_health_checks :: "(string \<Rightarrow> bytes option) \<Rightarrow> ClusterConfig \<Rightarrow> ConfigError + unit" where
  "validate_health_checks b64_decode c =
     checks
       [reject_if (length (health_checks c) > 1) (UnsupportedMultipleHealthChecks (cc_name c)),
        (case health_checks c of [] \<Rightarrow> Inr () | hc # _ \<Rightarrow> validate_health_check b64_decode c hc),
        on_some (\<lambda>p. reject_if (\<not> (0 \<le> p \<and> p \<le> 100)) (InvalidPanicThreshold (cc_name c) p))
          (healthy_panic_threshold c)]"

definition validate_circuit_breakers :: "ClusterConfig \<Rightarrow> ConfigError + unit" where
  "validate_circuit_breakers c =
     on_some (\<lambda>ths. checks
         [reject_if (length ths > 1) (UnsupportedMultipleCircuitBreakerThresholds (cc_name c)),
          (case ths of
             [] \<Rightarrow> Inr ()
           | t # _ \<Rightarrow> checks
               [on_some (\<lambda>p. reject_if (p \<noteq> DefaultPriority) (UnsupportedCircuitBreakerPriority (cc_name c) p))
                  (th_priority t),
                on_some (\<lambda>v. reject_if (v = 0) (InvalidMaxConnections (cc_name c) v)) (max_connections t),
                on_some (\<lambda>v. reject_if (v > 0) (UnsupportedNonZeroMaxPendingRequests (cc_name c) v))
                  (max_pending_requests t)])])
       (circuit_breakers c)"

definition validate_outlier_detection :: "ClusterConfig \<Rightarrow> ConfigError + unit" where
  "validate_outlier_detection c =
     on_some (\<lambda>od. checks
         [on_some (\<lambda>v. reject_if (v < 1) (InvalidOutlierDetectionThreshold (cc_name c) ''consecutive_5xx''))
            (cfg_consecutive_5xx od),
          on_some (\<lambda>v. reject_if (v < 1)
              (InvalidOutlierDetectionThreshold (cc_name c) ''consecutive_gateway_failure''))
            (cfg_consecutive_gateway_failure od),
          on_some (\<lambda>raw. check_timing (InvalidOutlierDetectionTiming (cc_name c)) (''interval'', raw))
            (od_interval od),
          on_some (\<lambda>raw. check_timing (InvalidOutlierDetectionTiming (cc_name c)) (''base_ejection_time'', raw))
            (base_ejection_time od),
          on_some (\<lambda>v. reject_if (v > 100) (InvalidMaxEjectionPercent (cc_name c) v))
            (cfg_max_ejection_percent od)])
       (cc_outlier_detection c)"

definition validate_http2_protocol_options_ranges :: "Http2ProtocolOptions \<Rightarrow> ConfigError + unit" where
  "validate_http2_protocol_options_ranges opts =
     checks
       [on_some (\<lambda>v. reject_if (\<not> (16384 \<le> v \<and> v \<le> 16777215))
            (Http2ProtocolOptionsOutOfRange ''max_frame_size'' v (16384, 16777215))) (max_frame_size opts),
        on_some (\<lambda>v. reject_if (v > 2147483647)
            (Http2ProtocolOptionsOutOfRange ''initial_stream_window_size'' v (0, 2147483647)))
          (initial_stream_window_size opts),
        on_some (\<lambda>v. reject_if (v > 2147483647)
            (Http2ProtocolOptionsOutOfRange ''initial_connection_window_size'' v (0, 2147483647)))
          (initial_connection_window_size opts)]"

definition validate_alpn_protocols :: "CommonTlsContext \<Rightarrow> string \<Rightarrow> ConfigError + unit" where
  "validate_alpn_protocols ctx side =
     checks (map (\<lambda>(index, proto). reject_if (length proto > 255) (InvalidAlpnProtocol side index (length proto)))
       (List.enumerate 0 (alpn_protocols ctx)))"

datatype Required = Filename | InlineString

fun required_str :: "Required \<Rightarrow> string" where
  "required_str Filename = ''filename''"
| "required_str InlineString = ''inline_string''"

definition validate_data_source :: "DataSource \<Rightarrow> string \<Rightarrow> Required \<Rightarrow> ConfigError + unit" where
  "validate_data_source ds field requires =
     (let has_file = ds_filename ds \<noteq> None; has_inline = ds_inline_string ds \<noteq> None in
      checks
        [reject_if (has_file = has_inline) (UnsupportedDataSource field (required_str requires)),
         reject_if (\<not> (case requires of Filename \<Rightarrow> has_file | InlineString \<Rightarrow> has_inline))
           (UnsupportedDataSource field (required_str requires))])"

definition validate_transport_socket :: "TransportSocket \<Rightarrow> ConfigError + unit" where
  "validate_transport_socket ts =
     checks
       [reject_if (ts_name ts \<noteq> ''envoy.transport_sockets.tls'') (UnknownTransportSocketName (ts_name ts)),
        (case ts_typed_config ts of
           UpstreamTls ctx sni \<Rightarrow>
             checks
               [validate_alpn_protocols ctx ''cluster'',
                reject_if (tls_certificates ctx \<noteq> []) (EmptyTlsCertificates ''cluster''),
                (case trusted_ca ctx of
                   None \<Rightarrow> Inl MissingValidationContext
                 | Some ca \<Rightarrow> validate_data_source ca ''validation_context.trusted_ca'' Filename),
                reject_if (sni = []) EmptyUpstreamSni]
         | DownstreamTls _ \<Rightarrow> Inl (MismatchedTransportSocketDirection ''cluster'' ''DownstreamTlsContext''))]"

definition EXPECTED_TYPE_URL :: string where
  "EXPECTED_TYPE_URL =
     ''type.googleapis.com/envoy.extensions.upstreams.http.v3.HttpProtocolOptions''"

definition validate_typed_extension :: "string \<Rightarrow> TypedExtensionProtocolOptions \<Rightarrow> ConfigError + unit" where
  "validate_typed_extension cluster teo =
     checks
       [reject_if (teo_type_url teo \<noteq> EXPECTED_TYPE_URL)
          (UnsupportedTypedConfigUrl (teo_type_url teo) EXPECTED_TYPE_URL),
        reject_if (http1_options teo \<noteq> None \<and> http2_options teo \<noteq> None)
          (MutuallyExclusiveExplicitHttpConfig cluster),
        on_some validate_http2_protocol_options_ranges (http2_options teo)]"

definition validate_endpoint_source :: "ClusterConfig \<Rightarrow> ConfigError + unit" where
  "validate_endpoint_source c =
     (case (cluster_type c = Eds, load_assignment c \<noteq> None, eds_cluster_config c \<noteq> None) of
        (True, _, False) \<Rightarrow> Inl (MissingEdsClusterConfig (cc_name c))
      | (False, False, _) \<Rightarrow> Inl (MissingLoadAssignment (cc_name c))
      | (False, _, True) \<Rightarrow> Inl (EdsConfigOnNonEdsCluster (cc_name c))
      | _ \<Rightarrow> Inr ())"

definition total_endpoints :: "LoadAssignment \<Rightarrow> nat" where
  "total_endpoints la = sum_list (map length (la_endpoints la))"

definition validate_cluster :: "(string \<Rightarrow> bytes option) \<Rightarrow> ClusterConfig \<Rightarrow> ConfigError + unit" where
  "validate_cluster b64_decode c =
     checks
       [on_some (\<lambda>raw. reject_if (parse_positive_duration raw = None) (InvalidClusterIdleTimeout (cc_name c)))
          (idle_timeout c),
        validate_lb (cc_name c) (lb_policy c) (ring_hash_lb_config c) (maglev_lb_config c),
        validate_endpoint_source c,
        on_some (\<lambda>la. checks
            [reject_if (cluster_type c \<noteq> Eds \<and> la_cluster_name la \<noteq> cc_name c)
               (LoadAssignmentNameMismatch (cc_name c) (la_cluster_name la)),
             reject_if (total_endpoints la = 0) (EmptyClusterEndpoints (cc_name c)),
             on_some validate_transport_socket (transport_socket c),
             on_some (validate_typed_extension (cc_name c)) (typed_extension_protocol_options c),
             validate_health_checks b64_decode c,
             validate_circuit_breakers c,
             validate_outlier_detection c])
          (load_assignment c)]"

definition check_endpoint_sources :: "ClusterConfig list \<Rightarrow> ConfigError + unit" where
  "check_endpoint_sources cs =
     checks (map (\<lambda>c. reject_if (cluster_type c = Eds \<and> load_assignment c \<noteq> None)
       (LoadAssignmentOnEdsCluster (cc_name c))) cs)"

end
