(* ===== verification/Cluster_Manager.thy ===== *)
theory Cluster_Manager
  imports Cluster_Pick Cluster_Config
begin

text \<open>
  Building the clusters: \<open>from_bootstrap\<close> and \<open>ClusterManager\<close> of
  \<open>envoy-cluster/src/cluster.rs\<close>. Socket addresses, their parsing and printing, and the
  name resolver are the platform's: the record \<open>net\<close> of functions over an address type.
  The statistics registry is threaded through. A \<open>?\<close> is an early return of a
  \<open>ClusterError\<close>; the panics of \<open>expect\<close> and of a division by zero, and a table build
  that never ends, are outcomes of their own.
\<close>

section \<open>Outcomes\<close>

datatype ClusterError =
    EmptyCluster string
  | DuplicateClusterName string
  | EndpointParse string string
  | DnsResolutionFailed string string
  | StatsRegistration string stats_error

datatype boot_stop = Fail ClusterError | ExpectFailed | DividedByZero | Diverged | CapacityOverflow

type_synonym 'a boot = "stats \<Rightarrow> (boot_stop + 'a) \<times> stats"

definition boot_ok :: "'a \<Rightarrow> 'a boot" where
  "boot_ok a st = (Inr a, st)"

definition boot_stopped :: "boot_stop \<Rightarrow> 'a boot" where
  "boot_stopped e st = (Inl e, st)"

definition boot_then :: "'a boot \<Rightarrow> ('a \<Rightarrow> 'b boot) \<Rightarrow> 'b boot" where
  "boot_then m f st = (case m st of (Inl e, st') \<Rightarrow> (Inl e, st') | (Inr a, st') \<Rightarrow> f a st')"

definition boot_reg :: "string \<Rightarrow> (stats \<Rightarrow> (stats_error + 'a) \<times> stats) \<Rightarrow> 'a boot" where
  "boot_reg cluster m st =
     (case m st of
        (Inl e, st') \<Rightarrow> (Inl (Fail (StatsRegistration cluster e)), st')
      | (Inr a, st') \<Rightarrow> (Inr a, st'))"

definition boot_tick :: "(stats \<Rightarrow> stats) \<Rightarrow> unit boot" where
  "boot_tick f st = (Inr (), f st)"

section \<open>Endpoints\<close>

record 'addr net =
  parse_socket_addr :: "string \<Rightarrow> 'addr option"
  lookup_host :: "string \<Rightarrow> 'addr list option"
  addr_to_string :: "'addr \<Rightarrow> string"

definition host_port :: "string \<Rightarrow> nat \<Rightarrow> string" where
  "host_port address port_value = address @ '':'' @ show_nat port_value"

definition parse_numeric_endpoint :: "'addr net \<Rightarrow> string \<Rightarrow> string \<Rightarrow> nat \<Rightarrow> ClusterError + 'addr" where
  "parse_numeric_endpoint net cluster address port_value =
     (let addr_str = host_port address port_value in
      case parse_socket_addr net addr_str of
        Some a \<Rightarrow> Inr a
      | None \<Rightarrow> Inl (EndpointParse cluster addr_str))"

definition resolve_endpoint :: "'addr net \<Rightarrow> ClusterConfig \<Rightarrow> LbEndpoint
    \<Rightarrow> ClusterError + ('addr \<times> lb_metadata) list" where
  "resolve_endpoint net cfg lbe =
     (let sa = lbe_socket_address lbe;
          md = (case lbe_metadata lbe of Some m \<Rightarrow> m | None \<Rightarrow> bt_empty)
      in if cluster_type cfg = StrictDns
         then (case lookup_host net (host_port (sa_address sa) (sa_port sa)) of
                 None \<Rightarrow> Inl (DnsResolutionFailed (cc_name cfg) (sa_address sa))
               | Some resolved \<Rightarrow>
                   if resolved = [] then Inl (DnsResolutionFailed (cc_name cfg) (sa_address sa))
                   else Inr (map (\<lambda>a. (a, md)) resolved))
         else (case parse_numeric_endpoint net (cc_name cfg) (sa_address sa) (sa_port sa) of
                 Inl e \<Rightarrow> Inl e
               | Inr a \<Rightarrow> Inr [(a, md)]))"

fun resolve_endpoints :: "'addr net \<Rightarrow> ClusterConfig \<Rightarrow> LbEndpoint list
    \<Rightarrow> ClusterError + ('addr \<times> lb_metadata) list" where
  "resolve_endpoints net cfg [] = Inr []"
| "resolve_endpoints net cfg (lbe # lbes) =
     (case resolve_endpoint net cfg lbe of
        Inl e \<Rightarrow> Inl e
      | Inr as \<Rightarrow> (case resolve_endpoints net cfg lbes of
          Inl e \<Rightarrow> Inl e
        | Inr bs \<Rightarrow> Inr (as @ bs)))"

section \<open>One cluster\<close>

definition cluster_stat :: "ClusterConfig \<Rightarrow> string \<Rightarrow> string" where
  "cluster_stat cfg sfx = ''cluster.'' @ cc_name cfg @ ''.'' @ sfx"

definition reg_counter :: "ClusterConfig \<Rightarrow> string \<Rightarrow> nat boot" where
  "reg_counter cfg sfx = boot_reg (cc_name cfg) (register_counter (cluster_stat cfg sfx))"

definition reg_gauge :: "ClusterConfig \<Rightarrow> string \<Rightarrow> nat boot" where
  "reg_gauge cfg sfx = boot_reg (cc_name cfg) (register_gauge (cluster_stat cfg sfx))"

definition build_protocol :: "ClusterConfig \<Rightarrow> UpstreamProtocol" where
  "build_protocol cfg =
     (case typed_extension_protocol_options cfg of
        None \<Rightarrow> Http1
      | Some teo \<Rightarrow> (case (http1_options teo, http2_options teo) of
          (_, Some _) \<Rightarrow> Http2
        | (Some _, None) \<Rightarrow> Http1
        | (None, None) \<Rightarrow> Http1))"

definition build_budget :: "ClusterConfig \<Rightarrow> budget_state option boot" where
  "build_budget cfg =
     (case circuit_breakers cfg of
        None \<Rightarrow> boot_ok None
      | Some ths \<Rightarrow>
          let t = (case ths of [] \<Rightarrow> None | t # _ \<Rightarrow> Some t);
              max_retries = (case Option.bind t max_retries of Some n \<Rightarrow> n | None \<Rightarrow> 3);
              max_requests = (case Option.bind t max_requests of Some n \<Rightarrow> n | None \<Rightarrow> 1024);
              track = (case Option.bind t track_remaining of Some b \<Rightarrow> b | None \<Rightarrow> False)
          in boot_then (boot_reg (cc_name cfg) (budget_new max_retries max_requests track (cc_name cfg)))
               (\<lambda>b. boot_ok (Some b)))"

definition build_health :: "ClusterConfig \<Rightarrow> nat \<Rightarrow> endpoint_health list option boot" where
  "build_health cfg n =
     (case health_checks cfg of
        [] \<Rightarrow> boot_ok None
      | hc # _ \<Rightarrow>
          boot_then (reg_gauge cfg ''membership_healthy'')
            (\<lambda>_. boot_ok (Some (replicate n
               (health_new (of_nat (hc_healthy_threshold hc)) (of_nat (hc_unhealthy_threshold hc)))))))"

definition build_eds :: "ClusterConfig \<Rightarrow> EdsReloadState option boot" where
  "build_eds cfg =
     (if cluster_type cfg = Eds
      then boot_then (reg_counter cfg ''update_attempt'') (\<lambda>attempt.
           boot_then (reg_counter cfg ''update_success'') (\<lambda>success.
           boot_then (reg_counter cfg ''update_failure'') (\<lambda>failure.
           boot_then (reg_counter cfg ''update_empty'') (\<lambda>empty.
           boot_then (reg_counter cfg ''update_rejected'') (\<lambda>rejected.
           boot_then (boot_tick (counter_add attempt 1)) (\<lambda>_.
           boot_then (boot_tick (counter_add success 1)) (\<lambda>_.
             (case eds_cluster_config cfg of
                None \<Rightarrow> boot_stopped ExpectFailed
              | Some eds_cfg \<Rightarrow> boot_ok (Some
                  \<lparr>eds_path = eds_config_path eds_cfg,
                   selection_name = (case service_name eds_cfg of Some s \<Rightarrow> s | None \<Rightarrow> cc_name cfg),
                   update_attempt = attempt, update_success = success, update_failure = failure,
                   update_empty = empty, update_rejected = rejected\<rparr>)))))))))
      else boot_ok None)"

definition duration_or :: "nat \<Rightarrow> string option \<Rightarrow> nat" where
  "duration_or d raw =
     (case raw of None \<Rightarrow> d | Some s \<Rightarrow> (case parse_duration s of Inl _ \<Rightarrow> d | Inr us \<Rightarrow> us))"

definition od_suffix :: "string \<Rightarrow> string" where
  "od_suffix s = ''outlier_detection.'' @ s"

definition build_outlier :: "ClusterConfig \<Rightarrow> nat \<Rightarrow> outlier_detection option boot" where
  "build_outlier cfg n =
     (case cc_outlier_detection cfg of
        None \<Rightarrow> boot_ok None
      | Some od \<Rightarrow>
          boot_then (reg_gauge cfg (od_suffix ''ejections_active'')) (\<lambda>_.
          boot_then (reg_counter cfg (od_suffix ''ejections_enforced_total'')) (\<lambda>_.
          boot_then (reg_counter cfg (od_suffix ''ejections_detected_consecutive_5xx'')) (\<lambda>_.
          boot_then (reg_counter cfg (od_suffix ''ejections_enforced_consecutive_5xx'')) (\<lambda>_.
          boot_then (reg_counter cfg (od_suffix ''ejections_detected_consecutive_gateway_failure'')) (\<lambda>_.
          boot_then (reg_counter cfg (od_suffix ''ejections_enforced_consecutive_gateway_failure'')) (\<lambda>_.
          boot_then (reg_counter cfg (od_suffix ''ejections_overflow'')) (\<lambda>_.
            boot_ok (Some (outlier_new n
              (of_nat (case cfg_consecutive_5xx od of Some v \<Rightarrow> v | None \<Rightarrow> 5))
              (of_nat (case cfg_consecutive_gateway_failure od of Some v \<Rightarrow> v | None \<Rightarrow> 5))
              (case cfg_max_ejection_percent od of Some v \<Rightarrow> v | None \<Rightarrow> 10)
              (duration_or 30000000 (base_ejection_time od))
              (duration_or 10000000 (od_interval od))))))))))))"

definition build_hash_lb :: "ClusterConfig \<Rightarrow> string list \<Rightarrow> HashLb option boot" where
  "build_hash_lb cfg addrs =
     (case lb_policy cfg of
        RingHash \<Rightarrow>
          (case ring_build addrs (ring_minimum_size (ring_hash_lb_config cfg)) of
             None \<Rightarrow> boot_stopped CapacityOverflow
           | Some ring \<Rightarrow> boot_ok (Some (Ring ring)))
      | Maglev \<Rightarrow>
          (case maglev_build addrs (of_nat (maglev_table_size (maglev_lb_config cfg))) of
             None \<Rightarrow> boot_stopped Diverged
           | Some (Inl RemByZero) \<Rightarrow> boot_stopped DividedByZero
           | Some (Inr t) \<Rightarrow> boot_ok (Some (MaglevLb t)))
      | RoundRobin \<Rightarrow> boot_ok None)"

text \<open>The body of the loop of \<open>from_bootstrap\<close>, once the endpoints are known.\<close>

definition assemble_cluster :: "'addr net \<Rightarrow> ClusterConfig \<Rightarrow> 'addr list \<Rightarrow> lb_metadata list
    \<Rightarrow> 'addr cluster boot" where
  "assemble_cluster net cfg endpoints metas =
     (let subset = map_option (\<lambda>sc. subset_build sc metas) (lb_subset_config cfg) in
      boot_then (reg_counter cfg ''upstream_cx_total'') (\<lambda>cx_total.
      boot_then (reg_gauge cfg ''upstream_cx_active'') (\<lambda>cx_active.
      boot_then (reg_counter cfg ''upstream_rq_total'') (\<lambda>rq_total.
      boot_then (reg_counter cfg ''upstream_rq_5xx'') (\<lambda>rq_5xx.
      boot_then (reg_counter cfg ''upstream_rq_retry'') (\<lambda>rq_retry.
      boot_then (reg_counter cfg ''upstream_rq_retry_success'') (\<lambda>rq_retry_success.
      boot_then (reg_counter cfg ''upstream_rq_retry_limit_exceeded'') (\<lambda>rq_retry_limit.
      boot_then (reg_counter cfg ''upstream_rq_retry_overflow'') (\<lambda>rq_retry_overflow.
      boot_then (build_budget cfg) (\<lambda>budget.
      boot_then (build_health cfg (length endpoints)) (\<lambda>health.
      boot_then (build_eds cfg) (\<lambda>eds.
      boot_then (build_outlier cfg (length endpoints)) (\<lambda>od.
      boot_then (build_hash_lb cfg (map (addr_to_string net) endpoints)) (\<lambda>hash_lb.
        boot_ok \<lparr>cl_name = cc_name cfg, cl_endpoints = endpoints, cl_cursor = 0,
          cl_upstream_protocol = build_protocol cfg, cx_total = cx_total, cx_active = cx_active,
          upstream_rq_total = rq_total, upstream_rq_5xx = rq_5xx, upstream_rq_retry = rq_retry,
          upstream_rq_retry_success = rq_retry_success,
          upstream_rq_retry_limit_exceeded = rq_retry_limit,
          upstream_rq_retry_overflow = rq_retry_overflow, cl_budget = budget, cl_health = health,
          cl_panic_threshold = (case healthy_panic_threshold cfg of Some p \<Rightarrow> p | None \<Rightarrow> 50),
          cl_outlier = od, cl_hash_lb = hash_lb, cl_subset = subset, eds_reload = eds\<rparr>))))))))))))))"

definition build_cluster :: "'addr net \<Rightarrow> ClusterConfig \<Rightarrow> 'addr cluster boot" where
  "build_cluster net cfg =
     (case load_assignment cfg of
        None \<Rightarrow> boot_stopped ExpectFailed
      | Some la \<Rightarrow>
          (case resolve_endpoints net cfg (concat (la_endpoints la)) of
             Inl e \<Rightarrow> boot_stopped (Fail e)
           | Inr eps \<Rightarrow>
               if eps = [] then boot_stopped (Fail (EmptyCluster (cc_name cfg)))
               else assemble_cluster net cfg (map fst eps) (map snd eps)))"

section \<open>The manager\<close>

text \<open>
  The \<open>HashMap\<close> from names to clusters is only read by name and listed in name order;
  it is the ordered map of its entries.
\<close>

type_synonym 'addr cluster_manager = "(string, 'addr cluster) btmap"

record Bootstrap =
  static_clusters :: "ClusterConfig list"
  dynamic_clusters :: "ClusterConfig list option"
  cds_config :: bool

definition all_clusters :: "Bootstrap \<Rightarrow> ClusterConfig list" where
  "all_clusters b = static_clusters b @ (case dynamic_clusters b of None \<Rightarrow> [] | Some cs \<Rightarrow> cs)"

fun build_clusters :: "'addr net \<Rightarrow> ClusterConfig list \<Rightarrow> 'addr cluster_manager \<Rightarrow> 'addr cluster_manager boot" where
  "build_clusters net [] m = boot_ok m"
| "build_clusters net (cfg # cfgs) m =
     boot_then (build_cluster net cfg) (\<lambda>c.
       if bt_get m (cc_name cfg) \<noteq> None then boot_stopped (Fail (DuplicateClusterName (cc_name cfg)))
       else build_clusters net cfgs (bt_insert (cc_name cfg) c m))"

definition named_counter :: "string \<Rightarrow> nat boot" where
  "named_counter name = boot_reg name (register_counter name)"

definition cds_stats :: "nat \<Rightarrow> unit boot" where
  "cds_stats n =
     boot_then (named_counter ''cluster_manager.cds.update_attempt'') (\<lambda>h.
     boot_then (boot_tick (counter_add h 1)) (\<lambda>_.
     boot_then (named_counter ''cluster_manager.cds.update_success'') (\<lambda>h.
     boot_then (boot_tick (counter_add h 1)) (\<lambda>_.
     boot_then (named_counter ''cluster_manager.cds.update_failure'') (\<lambda>_.
     boot_then (named_counter ''cluster_manager.cds.update_rejected'') (\<lambda>_.
     boot_then (named_counter ''cluster_manager.cluster_added'') (\<lambda>h.
     boot_then (boot_tick (counter_add h (of_nat n))) (\<lambda>_.
     boot_then (boot_reg ''cluster_manager.active_clusters''
         (register_gauge ''cluster_manager.active_clusters'')) (\<lambda>g.
       boot_tick (gauge_set g (of_nat n))))))))))) "

definition from_bootstrap :: "'addr net \<Rightarrow> Bootstrap \<Rightarrow> 'addr cluster_manager boot" where
  "from_bootstrap net b =
     boot_then (build_clusters net (all_clusters b) bt_empty) (\<lambda>m.
       if cds_config b then boot_then (cds_stats (length (bt_entries m))) (\<lambda>_. boot_ok m)
       else boot_ok m)"

definition cm_get :: "'addr cluster_manager \<Rightarrow> string \<Rightarrow> 'addr cluster option" where
  "cm_get m name = bt_get m name"

definition cm_clusters :: "'addr cluster_manager \<Rightarrow> 'addr cluster list" where
  "cm_clusters m = map snd (bt_entries m)"

section \<open>Sequencing\<close>

lemma boot_then_Inr:
  "boot_then m f st = (Inr b, st') \<longleftrightarrow> (\<exists>a st1. m st = (Inr a, st1) \<and> f a st1 = (Inr b, st'))"
  by (auto simp: boot_then_def split: prod.splits sum.splits)

lemma boot_ok_Inr: "boot_ok a st = (Inr b, st') \<longleftrightarrow> b = a \<and> st' = st"
  by (auto simp: boot_ok_def)

lemma boot_stopped_Inr [simp]: "boot_stopped e st \<noteq> (Inr b, st')"
  by (simp add: boot_stopped_def)

lemma boot_tick_Inr: "boot_tick f st = (Inr u, st') \<longleftrightarrow> st' = f st"
  by (auto simp: boot_tick_def)

lemmas boot_inr = boot_then_Inr boot_ok_Inr boot_tick_Inr

text \<open>A step that can only stop with a \<open>ClusterError\<close>.\<close>

definition graceful :: "'a boot \<Rightarrow> bool" where
  "graceful m \<longleftrightarrow> (\<forall>st e st'. m st = (Inl e, st') \<longrightarrow> e \<in> range Fail)"

lemma graceful_ok [intro]: "graceful (boot_ok a)"
  by (simp add: graceful_def boot_ok_def)

lemma graceful_fail [intro]: "graceful (boot_stopped (Fail e))"
  by (simp add: graceful_def boot_stopped_def)

lemma graceful_tick [intro]: "graceful (boot_tick f)"
  by (simp add: graceful_def boot_tick_def)

lemma graceful_reg [intro]: "graceful (boot_reg cl m)"
  by (auto simp: graceful_def boot_reg_def split: prod.splits sum.splits)

lemma graceful_then: "graceful m \<Longrightarrow> (\<And>a. graceful (f a)) \<Longrightarrow> graceful (boot_then m f)"
  by (fastforce simp: graceful_def boot_then_def split: prod.splits sum.splits)

lemma graceful_regs [intro]: "graceful (reg_counter cfg s)" "graceful (reg_gauge cfg s)" "graceful (named_counter n)"
  by (auto simp: reg_counter_def reg_gauge_def named_counter_def)

lemmas gracefuls = graceful_ok graceful_fail graceful_tick graceful_reg graceful_then graceful_regs

section \<open>What validation rules out\<close>

lemma validate_cluster_lb:
  "validate_cluster b64 cfg = Inr () \<Longrightarrow>
     validate_lb (cc_name cfg) (lb_policy cfg) (ring_hash_lb_config cfg) (maglev_lb_config cfg) = Inr ()"
  by (simp add: validate_cluster_def)

lemma validate_cluster_eds:
  "validate_cluster b64 cfg = Inr () \<Longrightarrow> cluster_type cfg = Eds \<Longrightarrow> eds_cluster_config cfg \<noteq> None"
  by (auto simp: validate_cluster_def validate_endpoint_source_def split: bool.splits)

lemma validated_maglev:
  assumes "validate_cluster b64 cfg = Inr ()" "lb_policy cfg = Maglev" "addrs \<noteq> []"
  shows "\<exists>t. maglev_build addrs (of_nat (maglev_table_size (maglev_lb_config cfg))) = Some (Inr t)
    \<and> maglev_built_for (length addrs) t"
proof -
  note v = validate_cluster_lb [OF assms(1), unfolded assms(2)]
  have "maglev_table_size (maglev_lb_config cfg) < 2 ^ 64" using validated_size [OF v] by simp
  then show ?thesis
    using maglev_build_validated [OF assms(3) v refl]
    by (auto simp: maglev_built_for_def unat_of_nat take_bit_nat_eq_self)
qed

text \<open>The validator does not bound the ring; below \<open>2 ^ 59\<close> entries its allocation fits the address space.\<close>

definition ring_fits :: "ClusterConfig \<Rightarrow> bool" where
  "ring_fits cfg \<longleftrightarrow> (lb_policy cfg = RingHash \<longrightarrow> ring_minimum_size (ring_hash_lb_config cfg) < 2 ^ 59)"

lemma graceful_hash_lb:
  assumes "validate_cluster b64 cfg = Inr ()" "addrs \<noteq> []" "ring_fits cfg"
  shows "graceful (build_hash_lb cfg addrs)"
  using validated_maglev [OF assms(1) _ assms(2)] assms(3)
  by (cases "lb_policy cfg") (auto simp: build_hash_lb_def ring_fits_def ring_build_small)

lemma graceful_build:
  assumes "validate_cluster b64 cfg = Inr ()" "load_assignment cfg \<noteq> None" "ring_fits cfg"
  shows "graceful (build_cluster net cfg)"
proof -
  have eds: "graceful (build_eds cfg)"
    using validate_cluster_eds [OF assms(1)]
    by (cases "eds_cluster_config cfg") (auto simp: build_eds_def intro!: gracefuls)
  have "graceful (assemble_cluster net cfg eps metas)" if "eps \<noteq> []" for eps metas
    unfolding assemble_cluster_def Let_def
    by (intro graceful_then graceful_regs eds graceful_hash_lb [OF assms(1) _ assms(3)] graceful_ok)
      (use that in \<open>auto simp: build_budget_def build_health_def build_outlier_def Let_def
         intro!: gracefuls split: option.splits list.splits\<close>)
  then show ?thesis
    using assms(2) by (auto simp: build_cluster_def split: sum.splits)
qed

lemma graceful_builds:
  assumes "\<forall>cfg \<in> set cfgs. validate_cluster b64 cfg = Inr () \<and> load_assignment cfg \<noteq> None \<and> ring_fits cfg"
  shows "graceful (build_clusters net cfgs m)"
  using assms
proof (induction cfgs arbitrary: m)
  case (Cons cfg cfgs)
  then show ?case by (auto intro!: graceful_then graceful_build)
qed auto

text \<open>
  C38. Startup neither panics nor runs forever on a validated configuration whose minimum ring sizes are below \<open>2 ^ 59\<close>:
  \<open>from_bootstrap\<close> either returns a manager or a \<open>ClusterError\<close>. The \<open>expect\<close>s on the load assignment and the EDS source hold,
  every Maglev table build ends, and the rings fit the address space. That the machine has the memory for them is not
  part of the model.
\<close>

theorem bootstrap_never_panics:
  assumes "\<forall>cfg \<in> set (all_clusters b). validate_cluster b64 cfg = Inr () \<and> load_assignment cfg \<noteq> None \<and> ring_fits cfg"
  shows "(\<exists>m. fst (from_bootstrap net b st) = Inr m) \<or> (\<exists>e. fst (from_bootstrap net b st) = Inl (Fail e))"
proof -
  have "graceful (from_bootstrap net b)"
    using graceful_builds [OF assms]
    by (auto simp: from_bootstrap_def cds_stats_def intro!: graceful_then gracefuls)
  then show ?thesis
    unfolding graceful_def
    by (cases "from_bootstrap net b st"; cases "fst (from_bootstrap net b st)") fastforce+
qed


definition demo_cfg :: "LbPolicy \<Rightarrow> ClusterConfig" where
  "demo_cfg policy = \<lparr>cc_name = ''c'', cluster_type = Static, lb_policy = policy,
     load_assignment = Some \<lparr>la_cluster_name = ''c'',
       la_endpoints = [[\<lparr>lbe_socket_address = \<lparr>sa_address = ''10.0.0.1'', sa_port = 80\<rparr>, lbe_metadata = None\<rparr>]]\<rparr>,
     eds_cluster_config = None, transport_socket = None, typed_extension_protocol_options = None,
     health_checks = [], healthy_panic_threshold = None, circuit_breakers = None, idle_timeout = None,
     cc_outlier_detection = None, ring_hash_lb_config = None, maglev_lb_config = None,
     lb_subset_config = None\<rparr>"

definition demo_net :: "string net" where
  "demo_net = \<lparr>parse_socket_addr = Some, lookup_host = (\<lambda>_. None), addr_to_string = id\<rparr>"

definition demo_bootstrap :: "LbPolicy \<Rightarrow> Bootstrap" where
  "demo_bootstrap policy = \<lparr>static_clusters = [demo_cfg policy], dynamic_clusters = None, cds_config = True\<rparr>"

lemma demo_validated: "\<forall>cfg \<in> set (all_clusters (demo_bootstrap policy)).
    validate_cluster (\<lambda>_. None) cfg = Inr () \<and> load_assignment cfg \<noteq> None \<and> ring_fits cfg"
  by (cases policy) (simp_all add: ring_fits_def ring_minimum_size_def demo_bootstrap_def all_clusters_def demo_cfg_def validate_cluster_def validate_lb_def
      validate_endpoint_source_def total_endpoints_def validate_health_checks_def
      validate_circuit_breakers_def validate_outlier_detection_def)

theorem bootstrap_never_panics_witness:
  "(\<exists>m. fst (from_bootstrap demo_net (demo_bootstrap Maglev) registry_new) = Inr m)
   \<or> (\<exists>e. fst (from_bootstrap demo_net (demo_bootstrap Maglev) registry_new) = Inl (Fail e))"
  by (rule bootstrap_never_panics [OF demo_validated])

section \<open>The clusters it builds\<close>

definition cluster_ready :: "ClusterConfig \<Rightarrow> 'addr cluster \<Rightarrow> bool" where
  "cluster_ready cfg c \<longleftrightarrow>
     cl_name c = cc_name cfg \<and> cl_endpoints c \<noteq> [] \<and> cl_cursor c = 0 \<and> cluster_wf c
     \<and> (cl_hash_lb c \<noteq> None \<longleftrightarrow> lb_policy cfg \<noteq> RoundRobin)
     \<and> (\<forall>lb. cl_hash_lb c = Some lb \<longrightarrow> hash_built_for (length (cl_endpoints c)) lb)
     \<and> (cl_health c \<noteq> None \<longleftrightarrow> health_checks cfg \<noteq> [])
     \<and> (cl_outlier c \<noteq> None \<longleftrightarrow> cc_outlier_detection cfg \<noteq> None)
     \<and> (eds_reload c \<noteq> None \<longleftrightarrow> cluster_type cfg = Eds)"

lemma build_health_Inr:
  "build_health cfg n st = (Inr h, st') \<Longrightarrow>
     (h \<noteq> None \<longleftrightarrow> health_checks cfg \<noteq> []) \<and> (\<forall>hs. h = Some hs \<longrightarrow> length hs = n)"
  by (auto simp: build_health_def boot_inr split: list.splits)

lemma build_outlier_Inr:
  "build_outlier cfg n st = (Inr od, st') \<Longrightarrow>
     (od \<noteq> None \<longleftrightarrow> cc_outlier_detection cfg \<noteq> None)
     \<and> (\<forall>o'. od = Some o' \<longrightarrow> length (od_endpoints o') = n)"
  by (auto simp: build_outlier_def boot_inr outlier_new_def split: option.splits)

lemma build_eds_Inr:
  "build_eds cfg st = (Inr eds, st') \<Longrightarrow> eds \<noteq> None \<longleftrightarrow> cluster_type cfg = Eds"
  by (auto simp: build_eds_def boot_inr split: option.splits if_splits)

lemma build_hash_lb_Inr:
  assumes "build_hash_lb cfg addrs st = (Inr lb, st')" "validate_cluster b64 cfg = Inr ()" "addrs \<noteq> []"
  shows "(lb \<noteq> None \<longleftrightarrow> lb_policy cfg \<noteq> RoundRobin) \<and> (\<forall>l. lb = Some l \<longrightarrow> hash_built_for (length addrs) l)"
  using assms(1) validated_maglev [OF assms(2) _ assms(3)]
  by (cases "lb_policy cfg") (auto simp: build_hash_lb_def boot_inr ring_built_for_def split: option.splits)

lemma assemble_cluster_Inr:
  assumes "assemble_cluster net cfg eps metas st = (Inr c, st')" "validate_cluster b64 cfg = Inr ()" "eps \<noteq> []"
  shows "cluster_ready cfg c"
proof -
  obtain h od eds lb s1 s2 s3 s4 s5 s6 s7 s8 where
    c: "cl_name c = cc_name cfg" "cl_endpoints c = eps" "cl_cursor c = 0" "cl_health c = h"
      "cl_outlier c = od" "cl_hash_lb c = lb" "eds_reload c = eds"
    and p: "build_health cfg (length eps) s1 = (Inr h, s2)" "build_eds cfg s3 = (Inr eds, s4)"
      "build_outlier cfg (length eps) s5 = (Inr od, s6)"
      "build_hash_lb cfg (map (addr_to_string net) eps) s7 = (Inr lb, s8)"
    using assms(1) unfolding assemble_cluster_def Let_def boot_inr by clarsimp
  show ?thesis
    using build_health_Inr [OF p(1)] build_eds_Inr [OF p(2)] build_outlier_Inr [OF p(3)]
      build_hash_lb_Inr [OF p(4) assms(2)] assms(3) c
    by (auto simp: cluster_ready_def cluster_wf_def)
qed

lemma build_cluster_Inr:
  assumes "build_cluster net cfg st = (Inr c, st')" "validate_cluster b64 cfg = Inr ()"
  shows "cluster_ready cfg c"
  using assms assemble_cluster_Inr
  by (fastforce simp: build_cluster_def split: option.splits sum.splits if_splits)

lemma build_clusters_Inr:
  assumes "build_clusters net cfgs m st = (Inr m', st')" "bt_wf m"
    and "\<forall>cfg \<in> set cfgs. validate_cluster b64 cfg = Inr ()"
  shows "bt_wf m' \<and> distinct (map cc_name cfgs)
    \<and> (\<forall>cfg \<in> set cfgs. bt_get m (cc_name cfg) = None
         \<and> (\<exists>c. bt_get m' (cc_name cfg) = Some c \<and> cluster_ready cfg c))
    \<and> (\<forall>n. n \<notin> cc_name ` set cfgs \<longrightarrow> bt_get m' n = bt_get m n)"
  using assms
proof (induction cfgs arbitrary: m st)
  case Nil
  then show ?case by (simp add: boot_inr)
next
  case (Cons cfg cfgs)
  then obtain c st1 where c: "build_cluster net cfg st = (Inr c, st1)" "bt_get m (cc_name cfg) = None"
    and r: "build_clusters net cfgs (bt_insert (cc_name cfg) c m) st1 = (Inr m', st')"
    by (auto simp: boot_inr split: if_splits)
  have wf: "bt_wf (bt_insert (cc_name cfg) c m)" using Cons.prems(2) by (rule bt.wf_insert)
  note ih = Cons.IH [OF r wf] 
  have get: "bt_get (bt_insert (cc_name cfg) c m) n = (if n = cc_name cfg then Some c else bt_get m n)" for n
    using Cons.prems(2) by (simp add: bt_get_insert)
  have nin: "cc_name cfg \<notin> cc_name ` set cfgs" using ih Cons.prems(3) by (auto simp: get)
  have "cluster_ready cfg c" using build_cluster_Inr [OF c(1), of b64] Cons.prems(3) by simp
  then show ?case using ih c(2) nin Cons.prems(3) by (auto simp: get split: if_splits)
qed

text \<open>
  C39. What a successful startup hands to the proxy, for validated clusters: exactly one
  cluster per configured name, each with at least one endpoint and with its health,
  ejection and hash tables aligned with its endpoints, so that no later pick can index
  out of bounds.
\<close>

theorem bootstrap_clusters_ready:
  assumes "\<forall>cfg \<in> set (all_clusters b). validate_cluster b64 cfg = Inr ()"
    and "from_bootstrap net b st = (Inr m, st')"
  shows "distinct (map cc_name (all_clusters b))
    \<and> (\<forall>cfg \<in> set (all_clusters b). \<exists>c. cm_get m (cc_name cfg) = Some c \<and> cluster_ready cfg c)
    \<and> (\<forall>n. n \<notin> cc_name ` set (all_clusters b) \<longrightarrow> cm_get m n = None)"
proof -
  obtain st1 where r: "build_clusters net (all_clusters b) bt_empty st = (Inr m, st1)"
    using assms(2) by (auto simp: from_bootstrap_def boot_inr split: if_splits)
  then show ?thesis
    using build_clusters_Inr [OF r _ assms(1)] by (simp add: cm_get_def bt.wf_empty bt.get_empty)
qed


lemma demo_started:
  "\<exists>m st'. from_bootstrap demo_net (demo_bootstrap RoundRobin) registry_new = (Inr m, st')"
proof -
  have "case fst (from_bootstrap demo_net (demo_bootstrap RoundRobin) registry_new) of
      Inl _ \<Rightarrow> False | Inr _ \<Rightarrow> True"
    by code_simp
  then show ?thesis
    by (cases "from_bootstrap demo_net (demo_bootstrap RoundRobin) registry_new") (auto split: sum.splits)
qed

theorem bootstrap_clusters_ready_witness:
  "\<exists>m st' c. from_bootstrap demo_net (demo_bootstrap RoundRobin) registry_new = (Inr m, st')
     \<and> cm_get m ''c'' = Some c \<and> cluster_ready (demo_cfg RoundRobin) c"
proof -
  obtain m st' where r: "from_bootstrap demo_net (demo_bootstrap RoundRobin) registry_new = (Inr m, st')"
    using demo_started by blast
  have v: "\<forall>cfg \<in> set (all_clusters (demo_bootstrap RoundRobin)). validate_cluster (\<lambda>_. None) cfg = Inr ()"
    using demo_validated by blast
  have "demo_cfg RoundRobin \<in> set (all_clusters (demo_bootstrap RoundRobin))" "cc_name (demo_cfg RoundRobin) = ''c''"
    by (simp_all add: demo_bootstrap_def all_clusters_def demo_cfg_def)
  with bootstrap_clusters_ready [OF v r] r show ?thesis by metis
qed

end
