(* ===== verification/Eds_Reload.thy ===== *)
theory Eds_Reload
  imports Cluster_Manager
begin

text \<open>
  Hot reload of endpoint files: the poll loop of \<open>envoy-cluster/src/xds_watch.rs\<close> and
  the reload pipeline of \<open>envoy-cluster/src/eds_reload.rs\<close>. What the file system says at
  a tick (the modification time) and what reading the file gives are inputs; the YAML
  reader is a third-party crate and an argument.
\<close>

section \<open>The poll loop\<close>

text \<open>
  One tick: the observed modification time, \<open>None\<close> when the file is missing or
  unreadable; what the reload closure would read at that moment; and the last seen time
  with the state the closure works on.
\<close>

definition watch_tick :: "('i \<Rightarrow> 's \<Rightarrow> 's) \<Rightarrow> nat option \<times> 'i \<Rightarrow> nat option \<times> 's \<Rightarrow> nat option \<times> 's" where
  "watch_tick reload tick ls =
     (case fst tick of
        None \<Rightarrow> ls
      | Some now \<Rightarrow> if fst ls \<noteq> Some now then (Some now, reload (snd tick) (snd ls)) else ls)"

text \<open>\<open>watch_loop\<close> up to its cancellation: the seed and the ticks that follow.\<close>

definition watch_loop :: "('i \<Rightarrow> 's \<Rightarrow> 's) \<Rightarrow> nat option \<Rightarrow> (nat option \<times> 'i) list \<Rightarrow> 's \<Rightarrow> 's" where
  "watch_loop reload seed ticks s = snd (fold (watch_tick reload) ticks (seed, s))"

text \<open>The ticks at which the modification time differs from the last one seen.\<close>

fun changed_inputs :: "nat option \<Rightarrow> (nat option \<times> 'i) list \<Rightarrow> 'i list" where
  "changed_inputs seen [] = []"
| "changed_inputs seen ((None, x) # ts) = changed_inputs seen ts"
| "changed_inputs seen ((Some t, x) # ts) =
     (if seen = Some t then changed_inputs seen ts else x # changed_inputs (Some t) ts)"

lemma watch_fold: "snd (fold (watch_tick reload) ts (seen, s)) = fold reload (changed_inputs seen ts) s"
  by (induction seen ts arbitrary: s rule: changed_inputs.induct) (auto simp: watch_tick_def)

text \<open>
  The loop runs the reload exactly once per observed change of the modification time,
  counted from the seed taken at spawn and in order; a stable or vanished file causes
  none.
\<close>

theorem watch_loop_once_per_change:
  "watch_loop reload seed ticks s = fold reload (changed_inputs seed ticks) s"
  by (simp add: watch_loop_def watch_fold)

section \<open>The reload pipeline\<close>

datatype EdsReloadError =
    IoOrParse
  | NoMatchingCla
  | EdsEndpointParse ClusterError
  | EmptyEnvelope

fun candidate_endpoints :: "'addr net \<Rightarrow> string \<Rightarrow> LbEndpoint list \<Rightarrow> ClusterError + 'addr list" where
  "candidate_endpoints net name [] = Inr []"
| "candidate_endpoints net name (lbe # lbes) =
     (case parse_numeric_endpoint net name (sa_address (lbe_socket_address lbe))
             (sa_port (lbe_socket_address lbe)) of
        Inl e \<Rightarrow> Inl e
      | Inr a \<Rightarrow> (case candidate_endpoints net name lbes of Inl e \<Rightarrow> Inl e | Inr as \<Rightarrow> Inr (a # as)))"

text \<open>
  \<open>parse_eds_file\<close>: the envelope's resources, all of the one type the tagged enum
  admits; \<open>yaml\<close> gives them or fails.
\<close>

definition parse_eds_file :: "(string \<Rightarrow> LoadAssignment list option) \<Rightarrow> string \<Rightarrow> LoadAssignment list option" where
  "parse_eds_file yaml contents = yaml contents"

text \<open>
  \<open>reload\<close>: \<open>contents\<close> is what \<open>read_to_string\<close> gives. The outer \<open>None\<close> is the panic of
  the \<open>expect\<close> on a cluster that is not an EDS cluster.
\<close>

definition reload :: "'addr net \<Rightarrow> (string \<Rightarrow> LoadAssignment list option) \<Rightarrow> string option
    \<Rightarrow> 'addr cluster \<times> stats \<Rightarrow> ((EdsReloadError + unit) \<times> 'addr cluster \<times> stats) option" where
  "reload net yaml contents cst =
     (let (c, st) = cst in
      case eds_reload c of
        None \<Rightarrow> None
      | Some eds \<Rightarrow>
          let st = counter_add (update_attempt eds) 1 st in
          Some (case contents of
            None \<Rightarrow> (Inl IoOrParse, c, counter_add (update_failure eds) 1 st)
          | Some text \<Rightarrow> (case parse_eds_file yaml text of
              None \<Rightarrow> (Inl IoOrParse, c, counter_add (update_failure eds) 1 st)
            | Some clas \<Rightarrow>
                if clas = [] then (Inl EmptyEnvelope, c, counter_add (update_empty eds) 1 st)
                else (case find (\<lambda>la. la_cluster_name la = selection_name eds) clas of
                  None \<Rightarrow> (Inl NoMatchingCla, c, counter_add (update_rejected eds) 1 st)
                | Some cla \<Rightarrow>
                    (case candidate_endpoints net (cl_name c) (concat (la_endpoints cla)) of
                       Inl e \<Rightarrow> (Inl (EdsEndpointParse e), c, counter_add (update_rejected eds) 1 st)
                     | Inr candidate \<Rightarrow>
                         (Inr (), store_endpoints candidate c,
                          counter_add (update_success eds) 1 st))))))"

text \<open>\<open>build_eds_watch_targets\<close>: which clusters are watched; the closure drops the result.\<close>

definition is_plain_eds :: "'addr cluster \<Rightarrow> bool" where
  "is_plain_eds c \<longleftrightarrow> eds_reload c \<noteq> None \<and> cl_health c = None \<and> cl_outlier c = None"

definition build_eds_watch_targets :: "'addr cluster_manager \<Rightarrow> (string \<times> 'addr cluster) list" where
  "build_eds_watch_targets m =
     map (\<lambda>c. (case eds_reload c of Some eds \<Rightarrow> eds_path eds | None \<Rightarrow> [], c))
       (filter is_plain_eds (cm_clusters m))"

definition reload_closure :: "'addr net \<Rightarrow> (string \<Rightarrow> LoadAssignment list option) \<Rightarrow> string option
    \<Rightarrow> 'addr cluster \<times> stats \<Rightarrow> 'addr cluster \<times> stats" where
  "reload_closure net yaml contents cst =
     (case reload net yaml contents cst of Some (_, cst') \<Rightarrow> cst' | None \<Rightarrow> cst)"

section \<open>What a reload does\<close>

text \<open>The taxonomy on its own: the outcome of one file content.\<close>

definition eds_outcome :: "'addr net \<Rightarrow> (string \<Rightarrow> LoadAssignment list option) \<Rightarrow> string \<Rightarrow> EdsReloadState
    \<Rightarrow> string option \<Rightarrow> EdsReloadError + 'addr list" where
  "eds_outcome net yaml name eds contents =
     (case Option.bind contents yaml of
        None \<Rightarrow> Inl IoOrParse
      | Some [] \<Rightarrow> Inl EmptyEnvelope
      | Some clas \<Rightarrow> (case find (\<lambda>la. la_cluster_name la = selection_name eds) clas of
          None \<Rightarrow> Inl NoMatchingCla
        | Some cla \<Rightarrow> (case candidate_endpoints net name (concat (la_endpoints cla)) of
            Inl e \<Rightarrow> Inl (EdsEndpointParse e)
          | Inr eps \<Rightarrow> Inr eps)))"

fun outcome_handle :: "EdsReloadState \<Rightarrow> EdsReloadError + 'a \<Rightarrow> nat" where
  "outcome_handle eds (Inl IoOrParse) = update_failure eds"
| "outcome_handle eds (Inl EmptyEnvelope) = update_empty eds"
| "outcome_handle eds (Inl NoMatchingCla) = update_rejected eds"
| "outcome_handle eds (Inl (EdsEndpointParse _)) = update_rejected eds"
| "outcome_handle eds (Inr _) = update_success eds"

lemma reload_closure_eq:
  assumes "eds_reload c = Some eds"
  shows "reload_closure net yaml contents (c, st) =
    (case eds_outcome net yaml (cl_name c) eds contents of Inl _ \<Rightarrow> c | Inr eps \<Rightarrow> store_endpoints eps c,
     counter_add (outcome_handle eds (eds_outcome net yaml (cl_name c) eds contents)) 1
       (counter_add (update_attempt eds) 1 st))"
  using assms
  by (cases contents)
    (auto simp: reload_closure_def reload_def parse_eds_file_def eds_outcome_def
      split: option.splits list.splits sum.splits)

definition eds_handles :: "EdsReloadState \<Rightarrow> nat list" where
  "eds_handles eds = [update_attempt eds, update_success eds, update_failure eds, update_empty eds,
     update_rejected eds]"

text \<open>How often each counter of the cluster has to move over a sequence of contents.\<close>

definition eds_ticks :: "EdsReloadState \<Rightarrow> (EdsReloadError + 'a) list \<Rightarrow> nat \<Rightarrow> nat" where
  "eds_ticks eds outcomes h =
     (if h = update_attempt eds then length outcomes else count_list (map (outcome_handle eds) outcomes) h)"

definition last_good :: "(EdsReloadError + 'addr list) list \<Rightarrow> 'addr list \<Rightarrow> 'addr list" where
  "last_good outcomes eps = fold (\<lambda>r eps. case r of Inl _ \<Rightarrow> eps | Inr new \<Rightarrow> new) outcomes eps"

lemma counter_add_nth:
  "h < length (counters st) \<Longrightarrow>
     counters (counter_add a k st) ! h = counters st ! h + (if h = a then k else 0)"
  by (simp add: counter_add_def counter_add_val_def nth_list_update)

lemma counter_add_length [simp]: "length (counters (counter_add a k st)) = length (counters st)"
  by (simp add: counter_add_def)

lemma outcome_handle_in: "outcome_handle eds r \<in> set (eds_handles eds)"
  by (cases "(eds, r)" rule: outcome_handle.cases) (auto simp: eds_handles_def)

lemma outcome_handle_not_attempt: "distinct (eds_handles eds) \<Longrightarrow> outcome_handle eds r \<noteq> update_attempt eds"
  by (cases "(eds, r)" rule: outcome_handle.cases) (auto simp: eds_handles_def)

lemma store_endpoints_same [simp]:
  "eds_reload (store_endpoints eps c) = eds_reload c" "cl_name (store_endpoints eps c) = cl_name c"
  "cl_endpoints (store_endpoints eps c) = eps"
  by (simp_all add: store_endpoints_def)

lemma eds_run:
  assumes "eds_reload c = Some eds" "distinct (eds_handles eds)"
    and "set (eds_handles eds) \<subseteq> {..<length (counters st)}"
    and "outcomes = map (eds_outcome net yaml (cl_name c) eds) inputs"
    and "fold (reload_closure net yaml) inputs (c, st) = (c', st')"
  shows "cl_endpoints c' = last_good outcomes (cl_endpoints c) \<and> length (counters st') = length (counters st)
    \<and> (\<forall>h < length (counters st). counters st' ! h = counters st ! h + of_nat (eds_ticks eds outcomes h))
    \<and> reg_map st' = reg_map st \<and> gauges st' = gauges st"
  using assms
proof (induction inputs arbitrary: c st outcomes)
  case Nil
  then show ?case by (simp add: last_good_def eds_ticks_def)
next
  case (Cons i ins)
  let ?r = "eds_outcome net yaml (cl_name c) eds i"
  let ?c1 = "case ?r of Inl _ \<Rightarrow> c | Inr eps \<Rightarrow> store_endpoints eps c"
  let ?st1 = "counter_add (outcome_handle eds ?r) 1 (counter_add (update_attempt eds) 1 st)"
  have c1: "eds_reload ?c1 = Some eds" "cl_name ?c1 = cl_name c"
    "cl_endpoints ?c1 = (case ?r of Inl _ \<Rightarrow> cl_endpoints c | Inr new \<Rightarrow> new)"
    using Cons.prems(1) by (auto split: sum.splits)
  have run: "fold (reload_closure net yaml) ins (?c1, ?st1) = (c', st')"
    using Cons.prems(1,5) by (simp add: reload_closure_eq)
  have ne: "outcome_handle eds ?r \<noteq> update_attempt eds"
    using outcome_handle_not_attempt [OF Cons.prems(2)] .
  have st1: "counters ?st1 ! h = counters st ! h + (if h = update_attempt eds then 1 else 0)
      + (if h = outcome_handle eds ?r then 1 else 0)" if "h < length (counters st)" for h
    using that by (simp add: counter_add_nth)
  have rest: "set (eds_handles eds) \<subseteq> {..<length (counters ?st1)}" using Cons.prems(3) by simp
  have "reg_map ?st1 = reg_map st" "gauges ?st1 = gauges st" by (simp_all add: counter_add_def)
  then show ?case
    using Cons.IH [OF c1(1) Cons.prems(2) rest refl run] st1 ne c1 Cons.prems(4)
    by (auto simp: last_good_def eds_ticks_def)
qed

text \<open>
  C40. Accounting over any history of file contents: the live endpoints are those of the last
  content that was applied (an empty assignment included) and otherwise untouched; every
  reload ticks \<open>update_attempt\<close> and exactly the counter of its outcome class; no other
  statistic moves.
\<close>

theorem eds_reload_accounting:
  assumes "eds_reload c = Some eds" and "distinct (eds_handles eds)"
    and "set (eds_handles eds) \<subseteq> {..<length (counters st)}"
    and "outcomes = map (eds_outcome net yaml (cl_name c) eds) inputs"
    and "fold (reload_closure net yaml) inputs (c, st) = (c', st')"
  shows "cl_endpoints c' = last_good outcomes (cl_endpoints c)
    \<and> (\<forall>h < length (counters st). counters st' ! h = counters st ! h + of_nat (eds_ticks eds outcomes h))
    \<and> reg_map st' = reg_map st \<and> gauges st' = gauges st"
  using eds_run [OF assms] by simp

definition demo_eds :: EdsReloadState where
  "demo_eds = \<lparr>eds_path = ''eds.yaml'', selection_name = ''c'', update_attempt = 0, update_success = 1,
     update_failure = 2, update_empty = 3, update_rejected = 4\<rparr>"

definition demo_lbe :: "string \<Rightarrow> string \<Rightarrow> LbEndpoint" where
  "demo_lbe host v = \<lparr>lbe_socket_address = \<lparr>sa_address = host, sa_port = 80\<rparr>, lbe_metadata = Some [(''v'', v)]\<rparr>"

definition demo_la :: "LbEndpoint list \<Rightarrow> LoadAssignment" where
  "demo_la lbes = \<lparr>la_cluster_name = ''c'', la_endpoints = [lbes]\<rparr>"

theorem eds_reload_accounting_witness:
  "let yaml = (\<lambda>text. if text = ''good'' then Some [demo_la [demo_lbe ''b'' ''2'']] else None);
       c = (plain [''a:80''])\<lparr>eds_reload := Some demo_eds\<rparr>;
       st = registry_new\<lparr>counters := [1, 1, 0, 0, 0]\<rparr>;
       (c', st') = fold (reload_closure demo_net yaml) [Some ''bad'', Some ''good'', None] (c, st)
   in cl_endpoints c' = [''b:80''] \<and> counters st' ! 0 = 4 \<and> counters st' ! 2 = 2"
proof -
  let ?yaml = "\<lambda>text. if text = ''good'' then Some [demo_la [demo_lbe ''b'' ''2'']] else None"
  let ?c = "(plain [''a:80''])\<lparr>eds_reload := Some demo_eds\<rparr>"
  let ?st = "registry_new\<lparr>counters := [1, 1, 0, 0, 0]\<rparr>"
  let ?ins = "[Some ''bad'', Some ''good'', None]"
  obtain c' st' where run: "fold (reload_closure demo_net ?yaml) ?ins (?c, ?st) = (c', st')"
    by (meson surj_pair)
  have e: "eds_reload ?c = Some demo_eds" by simp
  have d: "distinct (eds_handles demo_eds)" by (simp add: eds_handles_def demo_eds_def)
  have l: "set (eds_handles demo_eds) \<subseteq> {..<length (counters ?st)}"
    by (simp add: eds_handles_def demo_eds_def)
  have o: "map (eds_outcome demo_net ?yaml (cl_name ?c) demo_eds) ?ins =
      [Inl IoOrParse, Inr [''b:80''], Inl IoOrParse]"
    by code_simp
  have t: "eds_ticks demo_eds [Inl IoOrParse, Inr [''b:80''], Inl IoOrParse] 0 = 3"
    "eds_ticks demo_eds [Inl IoOrParse, Inr [''b:80''], Inl IoOrParse] 2 = 2"
    "last_good [Inl IoOrParse, Inr [''b:80''], Inl IoOrParse] (cl_endpoints ?c) = [''b:80'']"
    by code_simp+
  have len: "0 < length (counters ?st)" "2 < length (counters ?st)" by simp_all
  show ?thesis
    using eds_reload_accounting [OF e d l o [symmetric] run] t len unfolding Let_def run
    by simp
qed

text \<open>The subset configuration of the scenario: one selector on the key \<open>v\<close>.\<close>

definition stale_cfg :: ClusterConfig where
  "stale_cfg = (demo_cfg RoundRobin)\<lparr>cluster_type := Eds,
     load_assignment := Some (demo_la [demo_lbe ''a'' ''1'', demo_lbe ''b'' ''2'']),
     eds_cluster_config := Some \<lparr>eds_config_path = ''eds.yaml'', service_name = None\<rparr>,
     lb_subset_config := Some \<lparr>cfg_fallback_policy = NoFallback, cfg_subset_selectors = [[''v'']],
       cfg_default_subset = None\<rparr>\<rparr>"

definition stale_new :: LoadAssignment where
  "stale_new = demo_la [demo_lbe ''b'' ''2'', demo_lbe ''a'' ''1'']"

text \<open>
  A subset cluster fed by EDS is watched and reloaded, but its subset index is not
  rebuilt: after a reload that only reorders the two endpoints, a request for \<open>v = 1\<close>
  goes to the endpoint that the assignment labels \<open>v = 2\<close>.
\<close>

theorem eds_reload_stale_subset:
  "case from_bootstrap demo_net \<lparr>static_clusters = [stale_cfg], dynamic_clusters = None, cds_config = False\<rparr>
      registry_new of
    (Inl _, _) \<Rightarrow> False
  | (Inr m, st) \<Rightarrow>
      (case build_eds_watch_targets m of
         [(path, c)] \<Rightarrow>
           let c' = fst (reload_closure demo_net (\<lambda>_. Some [stale_new]) (Some []) (c, st)) in
           validate_cluster (\<lambda>_. None) stale_cfg = Inr ()
           \<and> fst (pick c None (Some [(''v'', ''1'')])) = Picked ''a:80''
           \<and> cl_endpoints c' = [''b:80'', ''a:80'']
           \<and> fst (pick c' None (Some [(''v'', ''1'')])) = Picked ''b:80''
       | _ \<Rightarrow> False)"
  by code_simp

end
