(* ===== verification/Matcher.thy ===== *)
theory Matcher
  imports Ordered_Map Lb_Config
begin

text \<open>
  \<open>envoy-config/src/matcher.rs\<close>: the header, string and metadata matchers that routes,
  RBAC policies and access-log filters share, with their schema and their validation in
  \<open>bootstrap.rs\<close>. The regex engine is a third-party crate: compiling a pattern is an
  argument \<open>regex_new\<close>, and a compiled regex is the predicate it decides. A matcher
  whose regex was never compiled panics when asked, and that is the result \<open>None\<close>.
\<close>

section \<open>Schema\<close>

record SafeRegex =
  sr_regex :: string
  sr_compiled :: "(string \<Rightarrow> bool) option"

datatype StringMatcherMode =
    Exact string
  | Prefix string
  | Suffix string
  | SafeRegexMode SafeRegex
  | Contains string

record StringMatcher =
  sm_mode :: StringMatcherMode
  sm_ignore_case :: bool

record Int64Range =
  range_start :: int
  range_end :: int

datatype HeaderMatcherMode =
    ExactMatch string
  | PrefixMatch string
  | SuffixMatch string
  | SafeRegexMatch SafeRegex
  | RangeMatch Int64Range
  | PresentMatch bool
  | StringMatch StringMatcher

record HeaderMatcher =
  hm_name :: string
  hm_mode :: HeaderMatcherMode
  hm_invert_match :: bool

datatype ValueMatcher = ValueString StringMatcher | ValuePresent bool

record MetadataMatcher =
  mm_filter :: string
  mm_path :: "string list"
  mm_value :: ValueMatcher

type_synonym headers = "(string \<times> string) list"

type_synonym dynamic_metadata = "(string, (string, string) btmap) btmap"

section \<open>Matching\<close>

definition regex_is_match :: "SafeRegex \<Rightarrow> string \<Rightarrow> bool option" where
  "regex_is_match sr v = map_option (\<lambda>re. re v) (sr_compiled sr)"

definition string_matches :: "StringMatcher \<Rightarrow> string \<Rightarrow> bool option" where
  "string_matches sm value =
     (case sm_mode sm of
        Exact lit \<Rightarrow>
          Some (if sm_ignore_case sm then eq_ignore_ascii_case value lit else value = lit)
      | Prefix lit \<Rightarrow>
          Some (if sm_ignore_case sm then
                  (case str_get_to value (length lit) of
                     None \<Rightarrow> False | Some pre \<Rightarrow> eq_ignore_ascii_case pre lit)
                else starts_with value lit)
      | Suffix lit \<Rightarrow>
          Some (if sm_ignore_case sm then
                  (case str_get_from value (length value - length lit) of
                     None \<Rightarrow> False | Some suf \<Rightarrow> eq_ignore_ascii_case suf lit)
                else ends_with value lit)
      | SafeRegexMode sr \<Rightarrow> regex_is_match sr value
      | Contains lit \<Rightarrow>
          Some (if sm_ignore_case sm
                then str_contains (str_to_ascii_lowercase value) (str_to_ascii_lowercase lit)
                else str_contains value lit))"

text \<open>The first header of a name, names compared without case.\<close>

definition find_header :: "headers \<Rightarrow> string \<Rightarrow> string option" where
  "find_header hs name = map_option snd (find (\<lambda>(n, _). eq_ignore_ascii_case n name) hs)"

definition xor_invert :: "bool \<Rightarrow> bool option \<Rightarrow> bool option" where
  "xor_invert flip = map_option (\<lambda>b. b \<noteq> flip)"

definition header_matches :: "HeaderMatcher \<Rightarrow> headers \<Rightarrow> bool option" where
  "header_matches hm hs =
     (let value = find_header hs (hm_name hm); invert = xor_invert (hm_invert_match hm) in
      case hm_mode hm of
        PresentMatch want \<Rightarrow> invert (Some ((value \<noteq> None) = want))
      | mode \<Rightarrow>
          (case value of
             None \<Rightarrow> Some False
           | Some v \<Rightarrow>
               invert (case mode of
                  ExactMatch lit \<Rightarrow> Some (v = lit)
                | PrefixMatch lit \<Rightarrow> Some (starts_with v lit)
                | SuffixMatch lit \<Rightarrow> Some (ends_with v lit)
                | SafeRegexMatch sr \<Rightarrow> regex_is_match sr v
                | RangeMatch r \<Rightarrow>
                    Some (case parse_signed 64 v of
                       None \<Rightarrow> False | Some n \<Rightarrow> range_start r \<le> n \<and> n < range_end r)
                | PresentMatch want \<Rightarrow> Some want
                | StringMatch sm \<Rightarrow> string_matches sm v)))"

definition value_matches :: "ValueMatcher \<Rightarrow> string \<Rightarrow> bool option" where
  "value_matches vm value =
     (case vm of ValueString sm \<Rightarrow> string_matches sm value | ValuePresent want \<Rightarrow> Some want)"

definition value_matches_resolved :: "ValueMatcher \<Rightarrow> string option \<Rightarrow> bool option" where
  "value_matches_resolved vm resolved =
     (case vm of
        ValueString sm \<Rightarrow> (case resolved of None \<Rightarrow> Some False | Some v \<Rightarrow> string_matches sm v)
      | ValuePresent want \<Rightarrow> Some (resolved \<noteq> None \<and> want))"

text \<open>
  The outer \<open>option\<close> is the panic; the inner one is the code's: \<open>None\<close> for a path that
  does not resolve.
\<close>

definition metadata_matches :: "MetadataMatcher \<Rightarrow> dynamic_metadata \<Rightarrow> bool option option" where
  "metadata_matches mm md =
     (case mm_path mm of
        [] \<Rightarrow> Some None
      | key # _ \<Rightarrow>
          (case bt_get md (mm_filter mm) of
             None \<Rightarrow> Some None
           | Some ns \<Rightarrow>
               (case bt_get ns key of
                  None \<Rightarrow> Some None
                | Some v \<Rightarrow> map_option Some (value_matches (mm_value mm) v))))"

section \<open>Validation\<close>

definition compile_safe_regex ::
  "(string \<Rightarrow> (string \<Rightarrow> bool) option) \<Rightarrow> SafeRegex \<Rightarrow> ConfigError + SafeRegex" where
  "compile_safe_regex regex_new sr =
     (case regex_new (sr_regex sr) of
        Some re \<Rightarrow> Inr (sr\<lparr>sr_compiled := Some re\<rparr>)
      | None \<Rightarrow> Inl (InvalidRegex (sr_regex sr)))"

definition compile_string_matcher ::
  "(string \<Rightarrow> (string \<Rightarrow> bool) option) \<Rightarrow> StringMatcher \<Rightarrow> ConfigError + StringMatcher" where
  "compile_string_matcher regex_new sm =
     (case sm_mode sm of
        SafeRegexMode sr \<Rightarrow>
          (case compile_safe_regex regex_new sr of
             Inl e \<Rightarrow> Inl e | Inr sr' \<Rightarrow> Inr (sm\<lparr>sm_mode := SafeRegexMode sr'\<rparr>))
      | _ \<Rightarrow> Inr sm)"

definition compile_header_matcher ::
  "(string \<Rightarrow> (string \<Rightarrow> bool) option) \<Rightarrow> HeaderMatcher \<Rightarrow> ConfigError + HeaderMatcher" where
  "compile_header_matcher regex_new hm =
     (case hm_mode hm of
        SafeRegexMatch sr \<Rightarrow>
          (case compile_safe_regex regex_new sr of
             Inl e \<Rightarrow> Inl e | Inr sr' \<Rightarrow> Inr (hm\<lparr>hm_mode := SafeRegexMatch sr'\<rparr>))
      | StringMatch sm \<Rightarrow>
          (case compile_string_matcher regex_new sm of
             Inl e \<Rightarrow> Inl e | Inr sm' \<Rightarrow> Inr (hm\<lparr>hm_mode := StringMatch sm'\<rparr>))
      | _ \<Rightarrow> Inr hm)"

definition compile_value_matcher ::
  "(string \<Rightarrow> (string \<Rightarrow> bool) option) \<Rightarrow> ValueMatcher \<Rightarrow> ConfigError + ValueMatcher" where
  "compile_value_matcher regex_new vm =
     (case vm of
        ValueString sm \<Rightarrow>
          (case compile_string_matcher regex_new sm of
             Inl e \<Rightarrow> Inl e | Inr sm' \<Rightarrow> Inr (ValueString sm'))
      | ValuePresent want \<Rightarrow> Inr vm)"

definition validate_header_matcher ::
  "(string \<Rightarrow> (string \<Rightarrow> bool) option) \<Rightarrow> HeaderMatcher \<Rightarrow> ConfigError + HeaderMatcher" where
  "validate_header_matcher regex_new hm =
     (if hm_name hm = [] then Inl EmptyHeaderName
      else case hm_mode hm of
        SafeRegexMatch sr \<Rightarrow>
          (case compile_safe_regex regex_new sr of
             Inl e \<Rightarrow> Inl e | Inr sr' \<Rightarrow> Inr (hm\<lparr>hm_mode := SafeRegexMatch sr'\<rparr>))
      | RangeMatch r \<Rightarrow>
          if range_end r \<le> range_start r then Inl (InvalidInt64Range (range_start r) (range_end r))
          else Inr hm
      | StringMatch sm \<Rightarrow>
          (case sm_mode sm of
             SafeRegexMode sr \<Rightarrow>
               (case compile_safe_regex regex_new sr of
                  Inl e \<Rightarrow> Inl e
                | Inr sr' \<Rightarrow> Inr (hm\<lparr>hm_mode := StringMatch (sm\<lparr>sm_mode := SafeRegexMode sr'\<rparr>)\<rparr>))
           | _ \<Rightarrow> Inr hm)
      | _ \<Rightarrow> Inr hm)"

section \<open>A validated matcher always answers\<close>

definition sm_ready :: "StringMatcher \<Rightarrow> bool" where
  "sm_ready sm = (case sm_mode sm of SafeRegexMode sr \<Rightarrow> sr_compiled sr \<noteq> None | _ \<Rightarrow> True)"

definition hm_ready :: "HeaderMatcher \<Rightarrow> bool" where
  "hm_ready hm =
     (case hm_mode hm of
        SafeRegexMatch sr \<Rightarrow> sr_compiled sr \<noteq> None | StringMatch sm \<Rightarrow> sm_ready sm | _ \<Rightarrow> True)"

lemma string_matches_ready: "sm_ready sm \<Longrightarrow> string_matches sm v \<noteq> None"
  by (auto simp: sm_ready_def string_matches_def regex_is_match_def split: StringMatcherMode.splits)

lemma header_matches_ready: "hm_ready hm \<Longrightarrow> header_matches hm hs \<noteq> None"
  using string_matches_ready
  by (auto simp: hm_ready_def header_matches_def Let_def xor_invert_def regex_is_match_def
      split: HeaderMatcherMode.splits option.splits)

lemma compile_safe_regex_ready:
  "compile_safe_regex rx sr = Inr sr' \<Longrightarrow> sr_compiled sr' \<noteq> None"
  by (auto simp: compile_safe_regex_def split: option.splits)

lemma compile_string_matcher_ready: "compile_string_matcher rx sm = Inr sm' \<Longrightarrow> sm_ready sm'"
  using compile_safe_regex_ready
  by (fastforce simp: compile_string_matcher_def sm_ready_def split: StringMatcherMode.splits sum.splits)

lemma compile_header_matcher_ready: "compile_header_matcher rx hm = Inr hm' \<Longrightarrow> hm_ready hm'"
  using compile_safe_regex_ready compile_string_matcher_ready
  by (fastforce simp: compile_header_matcher_def hm_ready_def split: HeaderMatcherMode.splits sum.splits)

text \<open>The two ways the sources prepare a header matcher compile the same regexes.\<close>

lemma validate_header_matcher_compile:
  "validate_header_matcher rx hm = Inr hm' \<Longrightarrow> compile_header_matcher rx hm = Inr hm'"
  by (auto simp: validate_header_matcher_def compile_header_matcher_def compile_string_matcher_def
      split: HeaderMatcherMode.splits StringMatcherMode.splits sum.splits if_splits)

lemma validate_header_matcher_ready: "validate_header_matcher rx hm = Inr hm' \<Longrightarrow> hm_ready hm'"
  using validate_header_matcher_compile compile_header_matcher_ready by blast

section \<open>What the matchers decide\<close>

lemma find_header_append:
  "find_header (xs @ ys) n = (case find_header xs n of None \<Rightarrow> find_header ys n | Some v \<Rightarrow> Some v)"
  by (induction xs) (auto simp: find_header_def)

lemma find_header_Nil [simp]: "find_header [] n = None"
  by (simp add: find_header_def)

lemma find_header_Cons [simp]:
  "find_header ((m, v) # hs) n = (if eq_ignore_ascii_case m n then Some v else find_header hs n)"
  by (simp add: find_header_def)

lemma find_header_None: "find_header hs n = None \<longleftrightarrow> (\<forall>(m, v) \<in> set hs. \<not> eq_ignore_ascii_case m n)"
  by (induction hs) (auto split: if_splits)

lemma find_header_case: "eq_ignore_ascii_case n n' \<Longrightarrow> find_header hs n = find_header hs n'"
  by (induction hs) (auto simp: eq_ignore_ascii_case_def)

lemma header_matches_invert:
  assumes "hm_ready hm"
  shows "header_matches (hm\<lparr>hm_invert_match := \<not> hm_invert_match hm\<rparr>) hs =
    (if (\<exists>w. hm_mode hm = PresentMatch w) \<or> find_header hs (hm_name hm) \<noteq> None
     then map_option Not (header_matches hm hs) else Some False)"
  by (cases "hm_mode hm"; cases "find_header hs (hm_name hm)")
    (auto simp: header_matches_def Let_def xor_invert_def option.map_comp comp_def
      split: option.splits intro!: option.map_cong)

text \<open>Matching without case is matching of the lower-cased strings.\<close>

definition lower_sm :: "StringMatcher \<Rightarrow> StringMatcher" where
  "lower_sm sm =
     (case sm_mode sm of
        Exact lit \<Rightarrow> \<lparr>sm_mode = Exact (str_to_ascii_lowercase lit), sm_ignore_case = False\<rparr>
      | Prefix lit \<Rightarrow> \<lparr>sm_mode = Prefix (str_to_ascii_lowercase lit), sm_ignore_case = False\<rparr>
      | Suffix lit \<Rightarrow> \<lparr>sm_mode = Suffix (str_to_ascii_lowercase lit), sm_ignore_case = False\<rparr>
      | Contains lit \<Rightarrow> \<lparr>sm_mode = Contains (str_to_ascii_lowercase lit), sm_ignore_case = False\<rparr>
      | SafeRegexMode sr \<Rightarrow> sm)"

definition is_ascii :: "string \<Rightarrow> bool" where
  "is_ascii = list_all (\<lambda>c. byte_of c < 128)"

lemma is_ascii_boundary: "is_ascii s \<Longrightarrow> is_char_boundary s i \<longleftrightarrow> i \<le> length s"
  unfolding is_ascii_def list_all_length is_char_boundary_def
  by (metis le_neq_implies_less not_le order.order_iff_strict zero_le)

lemma take_str_to_ascii_lowercase:
  "take n (str_to_ascii_lowercase s) = str_to_ascii_lowercase (take n s)"
  by (simp add: str_to_ascii_lowercase_def take_map)

lemma drop_str_to_ascii_lowercase:
  "drop n (str_to_ascii_lowercase s) = str_to_ascii_lowercase (drop n s)"
  by (simp add: str_to_ascii_lowercase_def drop_map)

lemma lower_take_eq_length:
  "str_to_ascii_lowercase (take n s) = str_to_ascii_lowercase t \<Longrightarrow> length t = n \<Longrightarrow> n \<le> length s"
  using length_str_to_ascii_lowercase [of "take n s"] length_str_to_ascii_lowercase [of t]
  by (simp del: length_str_to_ascii_lowercase)

lemma lower_drop_eq_length:
  assumes "str_to_ascii_lowercase (drop (length s - length t) s) = str_to_ascii_lowercase t"
  shows "length t \<le> length s"
  using arg_cong [OF assms, of length] by simp

text \<open>
  A matcher with \<open>ignore_case\<close> decides exactly what the case-sensitive matcher decides
  on the lower-cased value and literal, in every mode that honours the flag.
\<close>

lemma ignore_case_lowers:
  assumes "sm_ignore_case sm" "\<And>sr. sm_mode sm \<noteq> SafeRegexMode sr" "is_ascii v"
  shows "string_matches sm v = string_matches (lower_sm sm) (str_to_ascii_lowercase v)"
proof (cases "sm_mode sm")
  case (Exact lit)
  then show ?thesis using assms(1) by (simp add: string_matches_def lower_sm_def eq_ignore_ascii_case_def)
next
  case (Prefix lit)
  then show ?thesis using assms(1,3) lower_take_eq_length [of "length lit" v lit]
    by (auto simp: string_matches_def lower_sm_def eq_ignore_ascii_case_def str_get_to_def
        is_ascii_boundary starts_with_def take_str_to_ascii_lowercase)
next
  case (Suffix lit)
  then show ?thesis using assms(1,3) lower_drop_eq_length [of v lit]
    by (auto simp: string_matches_def lower_sm_def eq_ignore_ascii_case_def str_get_from_def
        is_ascii_boundary ends_with_def drop_str_to_ascii_lowercase)
next
  case (SafeRegexMode sr)
  then show ?thesis using assms(2) by simp
next
  case (Contains lit)
  then show ?thesis using assms(1) by (simp add: string_matches_def lower_sm_def)
qed

text \<open>
  Header matching after validation: a validated matcher answers on every request
  (its regexes are compiled), it is the value of the first header of that name that
  decides, and switching \<open>invert_match\<close> negates the answer unless a value mode meets an
  absent header, which never matches.
\<close>

lemma header_matching_table:
  assumes "validate_header_matcher regex_new hm = Inr hm'"
  shows "\<exists>b. header_matches hm' hs = Some b \<and>
    header_matches (hm'\<lparr>hm_invert_match := \<not> hm_invert_match hm'\<rparr>) hs =
      Some (if (\<exists>w. hm_mode hm' = PresentMatch w) \<or> find_header hs (hm_name hm') \<noteq> None
            then \<not> b else False) \<and>
    ((\<forall>w. hm_mode hm' \<noteq> PresentMatch w) \<and> find_header hs (hm_name hm') = None \<longrightarrow> \<not> b)"
proof -
  have ready: "hm_ready hm'" using assms validate_header_matcher_ready by blast
  then obtain b where b: "header_matches hm' hs = Some b" using header_matches_ready by blast
  have "(\<forall>w. hm_mode hm' \<noteq> PresentMatch w) \<and> find_header hs (hm_name hm') = None \<longrightarrow> \<not> b"
    using b by (cases "hm_mode hm'") (auto simp: header_matches_def Let_def)
  then show ?thesis using b header_matches_invert [OF ready, of hs] by simp
qed

lemma header_matching_table_witness:
  "\<exists>b. header_matches \<lparr>hm_name = ''x-a'', hm_mode = SafeRegexMatch
         \<lparr>sr_regex = ''1'', sr_compiled = Some (\<lambda>v. v = ''1'')\<rparr>, hm_invert_match = True\<rparr>
         [(''X-A'', ''2'')] = Some b"
proof -
  let ?hm = "\<lparr>hm_name = ''x-a'', hm_mode = SafeRegexMatch \<lparr>sr_regex = ''1'', sr_compiled = None\<rparr>,
    hm_invert_match = True\<rparr>"
  let ?hm' = "\<lparr>hm_name = ''x-a'', hm_mode = SafeRegexMatch
    \<lparr>sr_regex = ''1'', sr_compiled = Some (\<lambda>v. v = ''1'')\<rparr>, hm_invert_match = True\<rparr>"
  have "validate_header_matcher (\<lambda>r. Some (\<lambda>v. v = r)) ?hm = Inr ?hm'"
    by (simp add: validate_header_matcher_def compile_safe_regex_def)
  from header_matching_table [OF this, of "[(''X-A'', ''2'')]"] show ?thesis by blast
qed

end
