(* ===== verification/Runtime.thy ===== *)
theory Runtime
  imports Ordered_Map Lb_Config Float64
begin

text \<open>
  The layered runtime: the schema and its checks (\<open>bootstrap.rs\<close>), and the snapshot
  store with its one consumer, the \<open>runtime_fraction\<close> gate of a route
  (\<open>envoy-config/src/runtime.rs\<close>). Reading and printing \<open>f64\<close> are Rust's: correctly
  rounded, and the shortest decimal that reads back as the same number.
\<close>

section \<open>Decimal text of a double\<close>

text \<open>Rounding with the subnormal range and overflow, which is \<open>None\<close>.\<close>

definition f64_nearest :: "rat \<Rightarrow> f64 option" where
  "f64_nearest q =
     (let r = if \<bar>q\<bar> < 2 powi (-1022) then of_int (round_half_even (q * 2 ^ 1074)) / 2 ^ 1074
              else f64_round q in
      if 2 ^ 1024 \<le> \<bar>r\<bar> then None else Some r)"

definition split_sign :: "string \<Rightarrow> bool \<times> string" where
  "split_sign s =
     (case s of
        [] \<Rightarrow> (False, [])
      | c # cs \<Rightarrow> if c = CHR ''-'' then (True, cs) else if c = CHR ''+'' then (False, cs) else (False, s))"

definition parse_exponent :: "string \<Rightarrow> int option" where
  "parse_exponent s =
     (case s of
        [] \<Rightarrow> Some 0
      | c # cs \<Rightarrow>
          if to_ascii_lowercase c = CHR ''e'' then
            (let (neg, ds) = split_sign cs in
             if ds \<noteq> [] \<and> list_all is_ascii_digit ds
             then Some (if neg then - int (read_nat ds) else int (read_nat ds)) else None)
          else None)"

definition parse_decimal :: "string \<Rightarrow> rat option" where
  "parse_decimal s =
     (let (neg, body) = split_sign s;
          ip = takeWhile is_ascii_digit body;
          rest = dropWhile is_ascii_digit body;
          (fp, rest') =
            (case rest of
               [] \<Rightarrow> ([], [])
             | c # cs \<Rightarrow>
                 if c = CHR ''.'' then (takeWhile is_ascii_digit cs, dropWhile is_ascii_digit cs)
                 else ([], rest)) in
      if ip @ fp = [] then None
      else case parse_exponent rest' of
        None \<Rightarrow> None
      | Some e \<Rightarrow>
          Some ((if neg then - 1 else 1) * of_nat (read_nat (ip @ fp)) * 10 powi (e - int (length fp))))"

text \<open>
  \<open>s.parse::<f64>()\<close> when it is \<open>Ok\<close> and finite: the words for infinity and NaN parse to
  non-finite numbers, and everything else outside the grammar is an error.
\<close>

definition parse_finite_f64 :: "string \<Rightarrow> f64 option" where
  "parse_finite_f64 s = Option.bind (parse_decimal s) f64_nearest"

definition f64_decimal_exp :: "rat \<Rightarrow> int" where
  "f64_decimal_exp x =
     (if 1 \<le> x then int (length (show_nat (nat \<lfloor>x\<rfloor>)))
      else case find (\<lambda>k. 1 \<le> x * 10 ^ k) [1..<330] of Some k \<Rightarrow> 1 - int k | None \<Rightarrow> 0)"

definition f64_digits :: "rat \<Rightarrow> int \<Rightarrow> nat \<Rightarrow> nat option" where
  "f64_digits x e n =
     (let scale = 10 powi (int n - e);
          lo = nat \<lfloor>x * scale\<rfloor>;
          ok = (\<lambda>d. f64_nearest (of_nat d / scale) = Some x) in
      if ok lo \<and> (x * scale - of_nat lo \<le> 1 / 2 \<or> \<not> ok (lo + 1)) then Some lo
      else if ok (lo + 1) then Some (lo + 1) else None)"

definition pad_zeros :: "nat \<Rightarrow> string \<Rightarrow> string" where
  "pad_zeros n s = replicate (n - length s) CHR ''0'' @ s"

definition show_pos_f64 :: "rat \<Rightarrow> string" where
  "show_pos_f64 x =
     (let e = f64_decimal_exp x in
      case find (\<lambda>n. f64_digits x e n \<noteq> None) [1..<18] of
        None \<Rightarrow> []
      | Some n \<Rightarrow>
          let d = the (f64_digits x e n) in
          if int n \<le> e then show_nat (d * 10 ^ nat (e - int n))
          else let m = nat (int n - e) in
               show_nat (d div 10 ^ m) @ ''.'' @ pad_zeros m (show_nat (d mod 10 ^ m)))"

datatype yaml_f64 = Fin rat | NegZero | PosInf | NegInf | NaN

definition show_f64 :: "yaml_f64 \<Rightarrow> string" where
  "show_f64 f =
     (case f of
        Fin x \<Rightarrow>
          if x = 0 then ''0'' else if x < 0 then ''-'' @ show_pos_f64 (- x) else show_pos_f64 x
      | NegZero \<Rightarrow> ''-0'' | PosInf \<Rightarrow> ''inf'' | NegInf \<Rightarrow> ''-inf'' | NaN \<Rightarrow> ''NaN'')"

section \<open>Schema and its checks\<close>

datatype RuntimeValue =
    RtBool bool
  | RtInt int
  | RtFloat yaml_f64
  | RtStr string
  | RtMap "(string \<times> RuntimeValue) list"

text \<open>
  The unimplemented arms hold arbitrary YAML that is only tested for presence; the type
  parameter is that YAML.
\<close>

record 'y RuntimeLayer =
  rl_name :: string
  rl_static_layer :: "(string \<times> RuntimeValue) list option"
  rl_disk_layer :: "'y option"
  rl_rtds_layer :: "'y option"
  rl_admin_layer :: "'y option"

definition stringify :: "RuntimeValue \<Rightarrow> string" where
  "stringify v =
     (case v of
        RtBool b \<Rightarrow> if b then ''true'' else ''false''
      | RtInt i \<Rightarrow> show_int i
      | RtFloat f \<Rightarrow> show_f64 f
      | RtStr s \<Rightarrow> s
      | RtMap _ \<Rightarrow> [])"

definition layer_arms :: "'y RuntimeLayer \<Rightarrow> string list" where
  "layer_arms l =
     map snd (filter fst
       [(rl_static_layer l \<noteq> None, ''static_layer''), (rl_disk_layer l \<noteq> None, ''disk_layer''),
        (rl_rtds_layer l \<noteq> None, ''rtds_layer''), (rl_admin_layer l \<noteq> None, ''admin_layer'')])"

fun validate_layers :: "nat \<Rightarrow> string list \<Rightarrow> 'y RuntimeLayer list \<Rightarrow> ConfigError + unit" where
  "validate_layers position seen [] = Inr ()"
| "validate_layers position seen (l # ls) =
     (if rl_name l = [] then Inl (EmptyRuntimeLayerName position)
      else case layer_arms l of
        [] \<Rightarrow> Inl (RuntimeLayerMissingSpecifier (rl_name l))
      | [arm] \<Rightarrow>
          if arm \<noteq> ''static_layer'' then Inl (UnsupportedRuntimeLayerType (rl_name l) arm)
          else if rl_name l \<in> set seen then Inl (DuplicateRuntimeLayerName (rl_name l))
          else validate_layers (position + 1) (rl_name l # seen) ls
      | _ \<Rightarrow> Inl (RuntimeLayerMultipleSpecifiers (rl_name l)))"

definition validate_layered_runtime :: "'y RuntimeLayer list \<Rightarrow> ConfigError + unit" where
  "validate_layered_runtime layers = validate_layers 0 [] layers"

section \<open>The snapshot\<close>

record RuntimeEntry =
  layer_values :: "string list"
  final_value :: string

record RuntimeSnapshot =
  layer_names :: "string list"
  snap_entries :: "(string, RuntimeEntry) btmap"

fun flatten_into :: "string \<Rightarrow> RuntimeValue \<Rightarrow> (string, string) btmap \<Rightarrow> (string, string) btmap"
  and flatten_map ::
    "string \<Rightarrow> (string \<times> RuntimeValue) list \<Rightarrow> (string, string) btmap \<Rightarrow> (string, string) btmap"
where
  "flatten_into pre (RtMap inner) out = flatten_map pre inner out"
| "flatten_into pre (RtBool b) out = bt_insert pre (stringify (RtBool b)) out"
| "flatten_into pre (RtInt i) out = bt_insert pre (stringify (RtInt i)) out"
| "flatten_into pre (RtFloat f) out = bt_insert pre (stringify (RtFloat f)) out"
| "flatten_into pre (RtStr s) out = bt_insert pre (stringify (RtStr s)) out"
| "flatten_map pre [] out = out"
| "flatten_map pre ((key, sub) # kvs) out =
     flatten_map pre kvs (flatten_into (pre @ ''.'' @ key) sub out)"

definition flatten_layer :: "'y RuntimeLayer \<Rightarrow> (string, string) btmap" where
  "flatten_layer l =
     (case rl_static_layer l of
        None \<Rightarrow> bt_empty
      | Some m \<Rightarrow> foldl (\<lambda>out (key, v). flatten_into key v out) bt_empty m)"

definition or_insert_slot :: "nat \<Rightarrow> (string, RuntimeEntry) btmap \<Rightarrow> string \<Rightarrow> (string, RuntimeEntry) btmap"
where
  "or_insert_slot slots es key =
     (case bt_get es key of
        None \<Rightarrow> bt_insert key \<lparr>layer_values = replicate slots [], final_value = []\<rparr> es
      | Some _ \<Rightarrow> es)"

definition set_slot :: "nat \<Rightarrow> (string, RuntimeEntry) btmap \<Rightarrow> string \<times> string \<Rightarrow> (string, RuntimeEntry) btmap"
where
  "set_slot index es kv =
     (case bt_get es (fst kv) of
        None \<Rightarrow> es
      | Some e \<Rightarrow>
          if index < length (layer_values e)
          then bt_insert (fst kv) (e\<lparr>layer_values := (layer_values e)[index := snd kv]\<rparr>) es
          else es)"

definition last_non_empty :: "string list \<Rightarrow> string" where
  "last_non_empty vs = (case find (\<lambda>v. v \<noteq> []) (rev vs) of None \<Rightarrow> [] | Some v \<Rightarrow> v)"

definition from_layers :: "string list \<Rightarrow> 'y RuntimeLayer list \<Rightarrow> RuntimeSnapshot" where
  "from_layers names layers =
     (let flattened = map flatten_layer layers;
          e0 = foldl (\<lambda>es per. foldl (or_insert_slot (length names)) es (bt_keys per)) bt_empty flattened;
          e1 = foldl (\<lambda>es (index, per). foldl (set_slot index) es (bt_entries per)) e0
                 (enumerate 0 flattened);
          e2 = map (\<lambda>(k, e). (k, e\<lparr>final_value := last_non_empty (layer_values e)\<rparr>)) e1 in
      \<lparr>layer_names = names, snap_entries = e2\<rparr>)"

text \<open>\<open>layered_runtime\<close> of the bootstrap: absent, or a list of layers.\<close>

definition runtime_from_bootstrap :: "'y RuntimeLayer list option \<Rightarrow> RuntimeSnapshot" where
  "runtime_from_bootstrap lr =
     (case lr of
        None \<Rightarrow> \<lparr>layer_names = [], snap_entries = bt_empty\<rparr>
      | Some layers \<Rightarrow>
          if layers = [] then from_layers [[]] ([] :: 'y RuntimeLayer list)
          else from_layers (map rl_name layers) layers)"

definition num_layers :: "RuntimeSnapshot \<Rightarrow> nat" where
  "num_layers rs = length (layer_names rs)"

definition num_keys :: "RuntimeSnapshot \<Rightarrow> nat" where
  "num_keys rs = length (snap_entries rs)"

section \<open>The route gate\<close>

datatype DenominatorType = Hundred | TenThousand | Million

definition denominator_value :: "DenominatorType \<Rightarrow> nat" where
  "denominator_value d = (case d of Hundred \<Rightarrow> 100 | TenThousand \<Rightarrow> 10000 | Million \<Rightarrow> 1000000)"

record FractionalPercent =
  numerator :: nat
  denominator :: DenominatorType

definition selects_deterministic :: "FractionalPercent \<Rightarrow> bool" where
  "selects_deterministic p \<longleftrightarrow> numerator p = denominator_value (denominator p)"

record RuntimeFractionalPercent =
  default_value :: FractionalPercent
  runtime_key :: "string option"

datatype FractionGate = Always | Never

datatype FractionGateError =
    NondeterministicValue string string
  | MapShapedKey string
  | NondeterministicDefault nat nat

definition default_gate :: "FractionalPercent \<Rightarrow> FractionGateError + FractionGate" where
  "default_gate p =
     (if numerator p = 0 then Inr Never
      else if numerator p = denominator_value (denominator p) then Inr Always
      else Inl (NondeterministicDefault (numerator p) (denominator_value (denominator p))))"

definition keyed_gate ::
  "RuntimeSnapshot \<Rightarrow> string \<Rightarrow> FractionalPercent \<Rightarrow> FractionGateError + FractionGate" where
  "keyed_gate rs key p =
     (let pre = key @ ''.'' in
      if (case find (\<lambda>(name, _). pre \<le> name) (bt_entries (snap_entries rs)) of
            None \<Rightarrow> False | Some (name, _) \<Rightarrow> starts_with name pre)
      then Inl (MapShapedKey key)
      else case bt_get (snap_entries rs) key of
        None \<Rightarrow> default_gate p
      | Some e \<Rightarrow>
          (case parse_finite_f64 (final_value e) of
             None \<Rightarrow> default_gate p
           | Some v \<Rightarrow>
               if v = 0 then Inr Never
               else if 100 \<le> v then Inr Always
               else if 0 < v then Inl (NondeterministicValue key (final_value e))
               else default_gate p))"

definition route_fraction_gate ::
  "RuntimeSnapshot \<Rightarrow> RuntimeFractionalPercent \<Rightarrow> FractionGateError + FractionGate" where
  "route_fraction_gate rs rf =
     (case runtime_key rf of
        None \<Rightarrow> default_gate (default_value rf)
      | Some key \<Rightarrow> if key = [] then default_gate (default_value rf)
                    else keyed_gate rs key (default_value rf))"

definition route_fraction_passes :: "RuntimeSnapshot \<Rightarrow> RuntimeFractionalPercent \<Rightarrow> bool" where
  "route_fraction_passes rs rf =
     (case route_fraction_gate rs rf of
        Inr Always \<Rightarrow> True
      | Inr Never \<Rightarrow> False
      | Inl _ \<Rightarrow> numerator (default_value rf) \<noteq> 0)"

section \<open>What the snapshot holds\<close>

text \<open>The leaves of a value in iteration order, under their dotted names.\<close>

fun leaves :: "string \<Rightarrow> RuntimeValue \<Rightarrow> (string \<times> string) list"
  and map_leaves :: "string \<Rightarrow> (string \<times> RuntimeValue) list \<Rightarrow> (string \<times> string) list"
where
  "leaves pre (RtMap inner) = map_leaves pre inner"
| "leaves pre (RtBool b) = [(pre, stringify (RtBool b))]"
| "leaves pre (RtInt i) = [(pre, stringify (RtInt i))]"
| "leaves pre (RtFloat f) = [(pre, stringify (RtFloat f))]"
| "leaves pre (RtStr s) = [(pre, stringify (RtStr s))]"
| "map_leaves pre [] = []"
| "map_leaves pre ((key, sub) # kvs) = leaves (pre @ ''.'' @ key) sub @ map_leaves pre kvs"

definition layer_leaves :: "'y RuntimeLayer \<Rightarrow> (string \<times> string) list" where
  "layer_leaves l =
     (case rl_static_layer l of None \<Rightarrow> [] | Some m \<Rightarrow> concat (map (\<lambda>(key, v). leaves key v) m))"

lemma flatten_into_leaves:
  "flatten_into pre v out = foldl (\<lambda>m (k, v). bt_insert k v m) out (leaves pre v)"
  "flatten_map pre kvs out = foldl (\<lambda>m (k, v). bt_insert k v m) out (map_leaves pre kvs)"
  by (induction pre v out and pre kvs out rule: flatten_into_flatten_map.induct) auto

lemma flatten_layer_leaves: "flatten_layer l = bt_of_list (layer_leaves l)"
proof -
  have "foldl (\<lambda>out (key, v). flatten_into key v out) out m =
      foldl (\<lambda>m (k, v). bt_insert k v m) out (concat (map (\<lambda>(key, v). leaves key v) m))" for out m
    by (induction m arbitrary: out) (auto simp: flatten_into_leaves)
  then show ?thesis
    by (simp add: flatten_layer_def layer_leaves_def bt_of_list_def split: option.splits)
qed

lemma bt_wf_flatten_layer [simp]: "bt_wf (flatten_layer l)"
  by (simp add: flatten_layer_leaves bt_wf_of_list)

lemma bt_get_flatten_layer: "bt_get (flatten_layer l) k = map_of (rev (layer_leaves l)) k"
  by (simp add: flatten_layer_leaves bt_get_of_list)

lemma bt_get_keys: "bt_wf m \<Longrightarrow> k \<in> set (bt_keys m) \<longleftrightarrow> bt_get m k \<noteq> None"
  by (simp add: bt_keys_dom dom_def)

abbreviation blank_entry :: "nat \<Rightarrow> RuntimeEntry" where
  "blank_entry slots \<equiv> \<lparr>layer_values = replicate slots [], final_value = []\<rparr>"

lemma or_insert_slot_get:
  "bt_wf es \<Longrightarrow> bt_get (or_insert_slot n es key) k =
    (if k = key \<and> bt_get es k = None then Some (blank_entry n) else bt_get es k)"
  by (auto simp: or_insert_slot_def split: option.splits)

lemma or_insert_slot_wf: "bt_wf es \<Longrightarrow> bt_wf (or_insert_slot n es key)"
  by (simp add: or_insert_slot_def bt_wf_insert split: option.splits)

lemma or_insert_slots:
  assumes "bt_wf es"
  shows "bt_wf (foldl (or_insert_slot n) es ks) \<and>
    bt_get (foldl (or_insert_slot n) es ks) k =
      (if k \<in> set ks \<and> bt_get es k = None then Some (blank_entry n) else bt_get es k)"
  using assms by (induction ks arbitrary: es) (auto simp: or_insert_slot_get or_insert_slot_wf)

lemma or_insert_layers:
  assumes "bt_wf es" "\<forall>per \<in> set flats. bt_wf per"
  shows "bt_wf (foldl (\<lambda>es per. foldl (or_insert_slot n) es (bt_keys per)) es flats) \<and>
    bt_get (foldl (\<lambda>es per. foldl (or_insert_slot n) es (bt_keys per)) es flats) k =
      (if (\<exists>per \<in> set flats. bt_get per k \<noteq> None) \<and> bt_get es k = None
       then Some (blank_entry n) else bt_get es k)"
  using assms
proof (induction flats arbitrary: es)
  case Nil
  then show ?case by simp
next
  case (Cons per flats)
  have es': "bt_wf (foldl (or_insert_slot n) es (bt_keys per))"
    using or_insert_slots [OF Cons.prems(1)] by blast
  show ?case
    using Cons.IH [OF es'] Cons.prems or_insert_slots [OF Cons.prems(1), of n "bt_keys per" k]
    by (auto simp: bt_get_keys)
qed

lemma set_slot_get:
  "bt_wf es \<Longrightarrow> bt_get (set_slot i es (key, v)) k =
    (if k = key then map_option (\<lambda>e. e\<lparr>layer_values := (layer_values e)[i := v]\<rparr>) (bt_get es k)
     else bt_get es k)"
  by (auto simp: set_slot_def list_update_beyond split: option.splits)

lemma set_slot_wf: "bt_wf es \<Longrightarrow> bt_wf (set_slot i es kv)"
  by (simp add: set_slot_def bt_wf_insert split: option.splits)

definition put_slot :: "nat \<Rightarrow> string option \<Rightarrow> string list \<Rightarrow> string list" where
  "put_slot i v vs = (case v of None \<Rightarrow> vs | Some x \<Rightarrow> vs[i := x])"

lemma set_slots:
  assumes "bt_wf es" "distinct (map fst per)"
  shows "bt_wf (foldl (set_slot i) es per) \<and>
    bt_get (foldl (set_slot i) es per) k =
      map_option (\<lambda>e. e\<lparr>layer_values := put_slot i (map_of per k) (layer_values e)\<rparr>) (bt_get es k)"
  using assms
proof (induction per arbitrary: es)
  case Nil
  then show ?case by (simp add: put_slot_def option.map_ident)
next
  case (Cons kv per)
  obtain key v where kv: "kv = (key, v)" by fastforce
  have es': "bt_wf (set_slot i es kv)" using Cons.prems(1) by (rule set_slot_wf)
  have "key \<notin> fst ` set per" using Cons.prems(2) kv by auto
  then have "map_of per key = None" by (simp add: map_of_eq_None_iff)
  then show ?case
    using Cons.IH [OF es'] Cons.prems
    by (auto simp: kv set_slot_get put_slot_def option.map_comp comp_def split: option.splits)
qed

fun fill_slots :: "nat \<Rightarrow> (string, string) btmap list \<Rightarrow> string \<Rightarrow> string list \<Rightarrow> string list" where
  "fill_slots n [] k vs = vs"
| "fill_slots n (per # flats) k vs = fill_slots (Suc n) flats k (put_slot n (bt_get per k) vs)"

lemma set_layers:
  assumes "bt_wf es" "\<forall>per \<in> set flats. bt_wf per"
  shows "bt_wf (foldl (\<lambda>es (index, per). foldl (set_slot index) es (bt_entries per)) es
           (enumerate n flats)) \<and>
    bt_get (foldl (\<lambda>es (index, per). foldl (set_slot index) es (bt_entries per)) es
       (enumerate n flats)) k =
     map_option (\<lambda>e. e\<lparr>layer_values := fill_slots n flats k (layer_values e)\<rparr>) (bt_get es k)"
  using assms
proof (induction flats arbitrary: es n)
  case Nil
  then show ?case by (simp add: option.map_ident)
next
  case (Cons per flats)
  have d: "distinct (map fst per)" using Cons.prems(2) sorted_map_fst_unique by (auto simp: bt_wf_def)
  have es': "bt_wf (foldl (set_slot n) es per)" using set_slots [OF Cons.prems(1) d] by blast
  show ?case
    using Cons.IH [OF es', of "Suc n"] Cons.prems set_slots [OF Cons.prems(1) d, of n k]
    by (simp add: bt_entries_def bt_get_def [of per] option.map_comp comp_def)
qed

lemma fill_slots_nth:
  "j < length vs \<Longrightarrow> fill_slots n flats k vs ! j =
    (if n \<le> j \<and> j < n + length flats
     then (case bt_get (flats ! (j - n)) k of None \<Rightarrow> vs ! j | Some v \<Rightarrow> v) else vs ! j)"
proof (induction n flats k vs rule: fill_slots.induct)
  case (2 n per flats k vs)
  then show ?case
    by (cases "j = n") (auto simp: put_slot_def nth_Cons' Suc_diff_Suc split: option.splits)
qed auto

lemma fill_slots_length [simp]: "length (fill_slots n flats k vs) = length vs"
  by (induction n flats k vs rule: fill_slots.induct) (auto simp: put_slot_def split: option.splits)

lemma fill_blank:
  assumes "length flats = slots"
  shows "fill_slots 0 flats k (replicate slots []) =
    map (\<lambda>per. case bt_get per k of None \<Rightarrow> [] | Some v \<Rightarrow> v) flats"
  by (rule nth_equalityI) (use assms in \<open>simp_all add: fill_slots_nth split: option.splits\<close>)

lemma bt_get_map_values: "bt_get (map (\<lambda>(k, e). (k, f e)) m) k = map_option f (bt_get m k)"
  by (induction m) (auto simp: bt_get_def)

definition slot_of :: "string \<Rightarrow> 'y RuntimeLayer \<Rightarrow> string" where
  "slot_of k l = (case map_of (rev (layer_leaves l)) k of None \<Rightarrow> [] | Some v \<Rightarrow> v)"

lemma runtime_entry_lookup:
  assumes "length names = length layers"
  shows "bt_get (snap_entries (from_layers names layers)) k =
    (if \<forall>l \<in> set layers. k \<notin> fst ` set (layer_leaves l) then None
     else Some \<lparr>layer_values = map (slot_of k) layers,
                final_value = last_non_empty (map (slot_of k) layers)\<rparr>)"
proof -
  let ?flats = "map flatten_layer layers"
  let ?e0 = "foldl (\<lambda>es per. foldl (or_insert_slot (length names)) es (bt_keys per)) bt_empty ?flats"
  have wf: "\<forall>per \<in> set ?flats. bt_wf per" by auto
  have leaf: "bt_get (flatten_layer l) k = None \<longleftrightarrow> k \<notin> fst ` set (layer_leaves l)" for l :: "'a RuntimeLayer"
    by (simp add: bt_get_flatten_layer map_of_eq_None_iff)
  have ex: "(\<exists>per \<in> set ?flats. bt_get per k \<noteq> None) \<longleftrightarrow>
      \<not> (\<forall>l \<in> set layers. k \<notin> fst ` set (layer_leaves l))"
    unfolding leaf [symmetric] by simp
  have e0: "bt_wf ?e0" "bt_get ?e0 k =
      (if \<forall>l \<in> set layers. k \<notin> fst ` set (layer_leaves l) then None else Some (blank_entry (length names)))"
    using or_insert_layers [OF bt.wf_empty wf, of "length names" k] unfolding ex by auto
  have "fill_slots 0 ?flats k (replicate (length names) []) = map (slot_of k) layers"
    using fill_blank [of ?flats "length names" k] assms
    by (simp add: slot_of_def [abs_def] bt_get_flatten_layer comp_def)
  then show ?thesis
    using set_layers [OF e0(1) wf, of 0 k] e0(2)
    by (simp add: from_layers_def Let_def bt_get_map_values comp_def)
qed

text \<open>
  The snapshot of a layer stack: a key is present iff it is a leaf of some layer; it has
  one slot per layer in configuration order, the empty string where the layer lacks it;
  and its final value is the last non-empty slot.
\<close>

theorem runtime_entry_spec:
  assumes "length names = length layers"
  shows "bt_get (snap_entries (from_layers names layers)) k =
    (if \<forall>l \<in> set layers. k \<notin> fst ` set (layer_leaves l) then None
     else Some \<lparr>layer_values = map (slot_of k) layers,
                final_value = last_non_empty (map (slot_of k) layers)\<rparr>)"
  using assms by (rule runtime_entry_lookup)

lemma last_non_empty_append:
  "last_non_empty (vs @ [v]) = (if v = [] then last_non_empty vs else v)"
  by (simp add: last_non_empty_def)

section \<open>What the gate decides\<close>

lemma prefix_squeeze:
  fixes p a s :: string
  assumes "p \<le> a" "a \<le> p @ s"
  shows "prefix p a"
  using assms
proof (induction p arbitrary: a)
  case (Cons c p)
  then obtain d b where a: "a = d # b" by (cases a) auto
  with Cons.prems have "c = d" "p \<le> b" "b \<le> p @ s" by auto
  with Cons.IH a show ?case by simp
qed simp

lemma prefix_le: "prefix p (a :: string) \<Longrightarrow> p \<le> a"
proof (induction p arbitrary: a)
  case (Cons c p)
  then show ?case by (cases a) auto
qed simp

lemma find_sorted_first:
  fixes m :: "('k::linorder \<times> 'v) list"
  assumes "sorted_wrt (<) (map fst m)" "find (\<lambda>(n, _). p \<le> n) m = Some (n, x)"
  shows "n \<in> set (map fst m) \<and> p \<le> n \<and> (\<forall>n' \<in> set (map fst m). p \<le> n' \<longrightarrow> n \<le> n')"
  using assms by (induction m) (fastforce split: if_splits)+

text \<open>
  The range scan looks at one entry only, the first at or after the prefix. In a sorted
  map that entry has the prefix iff any entry has it.
\<close>

lemma range_scan_exact:
  fixes m :: "(string \<times> 'v) list"
  assumes "sorted_wrt (<) (map fst m)"
  shows "(case find (\<lambda>(n, _). p \<le> n) m of None \<Rightarrow> False | Some (n, _) \<Rightarrow> starts_with n p) \<longleftrightarrow>
    (\<exists>n \<in> set (map fst m). starts_with n p)"
proof (cases "find (\<lambda>(n, _). p \<le> n) m")
  case None
  have "\<not> p \<le> n" if "n \<in> set (map fst m)" for n
    using None that by (induction m) (auto split: if_splits)
  then show ?thesis using None prefix_le by (auto simp: starts_with_iff)
next
  case (Some nx)
  obtain n x where nx: "nx = (n, x)" by fastforce
  note first = find_sorted_first [OF assms Some [unfolded nx]]
  have "starts_with n p" if "n' \<in> set (map fst m)" "starts_with n' p" for n'
    using that first prefix_le [of p n'] prefix_squeeze [of p n]
    by (auto simp: starts_with_iff prefix_def)
  then show ?thesis using first Some nx by auto
qed

lemma from_layers_wf: "bt_wf (snap_entries (from_layers names layers))"
proof -
  let ?flats = "map flatten_layer layers"
  have wf: "\<forall>per \<in> set ?flats. bt_wf per" by auto
  have "bt_wf (map (\<lambda>(k, e). (k, f e)) m)" if "bt_wf m" for f :: "RuntimeEntry \<Rightarrow> RuntimeEntry" and m :: "(string, RuntimeEntry) btmap"
    using that by (simp add: bt_wf_def comp_def case_prod_beta)
  then show ?thesis
    using set_layers [OF conjunct1 [OF or_insert_layers [OF bt.wf_empty wf]] wf]
    by (simp add: from_layers_def Let_def)
qed

lemma from_layers_keys:
  assumes "length names = length layers"
  shows "set (map fst (snap_entries (from_layers names layers))) =
    (\<Union>l \<in> set layers. fst ` set (layer_leaves l))"
proof -
  have "set (map fst (snap_entries (from_layers names layers))) =
      dom (bt_get (snap_entries (from_layers names layers)))"
    using bt_keys_dom [OF from_layers_wf, of names layers] by (simp add: bt_keys_def)
  then show ?thesis unfolding dom_def by (auto simp: runtime_entry_lookup [OF assms] split: if_splits)
qed

text \<open>
  A route's fraction is rejected as map-shaped exactly when some layer has a leaf below
  the consulted key, although the code looks at a single entry of the snapshot.
\<close>

lemma map_shaped_exact:
  assumes "runtime_key rf = Some key" "key \<noteq> []"
  shows "route_fraction_gate (runtime_from_bootstrap (Some layers)) rf = Inl (MapShapedKey key) \<longleftrightarrow>
    (\<exists>l \<in> set layers. \<exists>n \<in> fst ` set (layer_leaves l). starts_with n (key @ ''.''))"
proof (cases "layers = []")
  case True
  then show ?thesis using assms
    by (simp add: route_fraction_gate_def keyed_gate_def runtime_from_bootstrap_def from_layers_def
        default_gate_def bt_entries_def bt_empty_def bt_get_def)
next
  case False
  let ?es = "snap_entries (from_layers (map rl_name layers) layers)"
  have scan: "(case find (\<lambda>(n, _). key @ ''.'' \<le> n) ?es of None \<Rightarrow> False
      | Some (n, _) \<Rightarrow> starts_with n (key @ ''.'')) \<longleftrightarrow>
      (\<exists>l \<in> set layers. \<exists>n \<in> fst ` set (layer_leaves l). starts_with n (key @ ''.''))"
    using range_scan_exact [OF from_layers_wf [unfolded bt_wf_def], of "key @ ''.''" "map rl_name layers" layers]
    unfolding from_layers_keys [OF length_map] by blast
  show ?thesis
    using assms False
    by (simp add: route_fraction_gate_def keyed_gate_def runtime_from_bootstrap_def Let_def
        bt_entries_def scan default_gate_def split: option.splits)
qed

lemma map_shaped_exact_witness:
  "route_fraction_gate
     (runtime_from_bootstrap (Some
        [\<lparr>rl_name = ''base'', rl_static_layer = Some [(''a'', RtInt 1), (''a'', RtMap [(''numerator'', RtInt 0)])],
          rl_disk_layer = None :: unit option, rl_rtds_layer = None, rl_admin_layer = None\<rparr>]))
     \<lparr>default_value = \<lparr>numerator = 100, denominator = Hundred\<rparr>, runtime_key = Some ''a''\<rparr> =
   Inl (MapShapedKey ''a'')"
  by (subst map_shaped_exact) (simp_all add: layer_leaves_def starts_with_def)

text \<open>\<open>final_value\<close> on a concrete stack: an empty string in a later layer does not override.\<close>

lemma runtime_entry_spec_witness:
  "bt_get (snap_entries (from_layers [''base'', ''over'']
     [\<lparr>rl_name = ''base'', rl_static_layer = Some [(''a'', RtMap [(''b'', RtBool True)])],
        rl_disk_layer = None :: unit option, rl_rtds_layer = None, rl_admin_layer = None\<rparr>,
      \<lparr>rl_name = ''over'', rl_static_layer = Some [(''a.b'', RtStr [])],
        rl_disk_layer = None, rl_rtds_layer = None, rl_admin_layer = None\<rparr>])) ''a.b'' =
   Some \<lparr>layer_values = [''true'', []], final_value = ''true''\<rparr>"
  by (subst runtime_entry_spec)
    (simp_all add: layer_leaves_def slot_of_def stringify_def last_non_empty_def)

end
