(* ===== verification/Route_Config.thy ===== *)
theory Route_Config
  imports Cluster_Config Matcher Runtime
begin

text \<open>
  The route part of the bootstrap schema (\<open>envoy-config/src/bootstrap.rs\<close>) and the route
  walk of \<open>validate_hcm\<close>, which also compiles the regexes of the header matchers. The
  specifiers of a hash policy that are only recognised to be rejected hold arbitrary YAML
  of which the code tests the presence.
\<close>

section \<open>Schema\<close>

datatype RedirectResponseCode =
  MovedPermanently | Found | SeeOther | TemporaryRedirect | PermanentRedirect

definition redirect_status :: "RedirectResponseCode \<Rightarrow> nat" where
  "redirect_status c =
     (case c of MovedPermanently \<Rightarrow> 301 | Found \<Rightarrow> 302 | SeeOther \<Rightarrow> 303
      | TemporaryRedirect \<Rightarrow> 307 | PermanentRedirect \<Rightarrow> 308)"

record RedirectAction =
  host_redirect :: "string option"
  port_redirect :: "nat option"
  path_redirect :: "string option"
  prefix_rewrite :: "string option"
  https_redirect :: "bool option"
  scheme_redirect :: "string option"
  strip_query :: bool
  response_code :: RedirectResponseCode

record HashPolicy =
  hp_header :: "string option"
  hp_cookie :: "unit option"
  hp_connection_properties :: "unit option"
  hp_query_parameter :: "unit option"
  hp_filter_state :: "unit option"

record RetryPolicy =
  retry_on :: string
  rp_num_retries :: "nat option"
  rp_retriable_status_codes :: "nat list"

record RouteAction_Route =
  ar_cluster :: string
  ar_retry_policy :: "RetryPolicy option"
  ar_hash_policy :: "HashPolicy list"
  ar_metadata_match :: "lb_metadata option"

record DirectResponse =
  dr_status :: nat
  dr_body :: DataSource

datatype RouteAction =
    ActDirectResponse DirectResponse
  | ActRoute RouteAction_Route
  | ActRedirect RedirectAction

record RouteMatch =
  rm_prefix :: "string option"
  rm_path :: "string option"
  rm_headers :: "HeaderMatcher list"
  rm_runtime_fraction :: "RuntimeFractionalPercent option"

record CsrfPolicy =
  filter_enabled :: RuntimeFractionalPercent
  additional_origins :: "StringMatcher list"

record CorsPolicy =
  allow_origin_string_match :: "StringMatcher list"
  allow_methods :: "string option"
  allow_headers :: "string option"
  expose_headers :: "string option"
  max_age :: "string option"
  allow_credentials :: "bool option"

record BufferPerRoute =
  bpr_disabled :: bool
  bpr_max_request_bytes :: "nat option"

datatype PerFilterConfig = PfcCors CorsPolicy | PfcCsrf CsrfPolicy | PfcBuffer BufferPerRoute

record Route =
  route_name :: string
  route_match :: RouteMatch
  route_action :: RouteAction
  typed_per_filter_config :: "(string, PerFilterConfig) btmap"

record VirtualHost =
  vh_name :: string
  vh_domains :: "string list"
  vh_routes :: "Route list"
  include_attempt_count_in_response :: bool

record RouteConfiguration =
  rc_name :: string
  virtual_hosts :: "VirtualHost list"
  validate_clusters :: "bool option"

datatype CodecType = AUTO | HTTP1 | HTTP2 | HTTP3

section \<open>The checks\<close>

definition validate_hash_policy :: "HashPolicy \<Rightarrow> ConfigError + unit" where
  "validate_hash_policy hp =
     (let unsupported =
        if hp_cookie hp \<noteq> None then Some ''cookie''
        else if hp_connection_properties hp \<noteq> None then Some ''connection_properties''
        else if hp_query_parameter hp \<noteq> None then Some ''query_parameter''
        else if hp_filter_state hp \<noteq> None then Some ''filter_state''
        else if hp_header hp = None then Some ''<none>''
        else None in
      case unsupported of None \<Rightarrow> Inr () | Some specifier \<Rightarrow> Inl (UnsupportedHashPolicy specifier))"

definition validate_redirect_oneofs :: "RedirectAction \<Rightarrow> string \<Rightarrow> string \<Rightarrow> ConfigError + unit" where
  "validate_redirect_oneofs rd ctxt route =
     checks
       [reject_if (path_redirect rd \<noteq> None \<and> prefix_rewrite rd \<noteq> None)
          (RedirectPathRewriteConflict ctxt route),
        reject_if (https_redirect rd \<noteq> None \<and> scheme_redirect rd \<noteq> None)
          (RedirectSchemeRewriteConflict ctxt route)]"

definition validate_route_match_cardinality :: "bool \<Rightarrow> bool \<Rightarrow> ConfigError + unit" where
  "validate_route_match_cardinality prefix_set path_set =
     (if prefix_set \<and> path_set then Inl (UnsupportedRouteMatcher ''both prefix and path are set'')
      else if \<not> prefix_set \<and> \<not> path_set then Inl (UnsupportedRouteMatcher ''neither prefix nor path is set'')
      else Inr ())"

definition validate_route_runtime_fraction ::
  "RouteMatch \<Rightarrow> RuntimeSnapshot \<Rightarrow> string \<Rightarrow> string \<Rightarrow> ConfigError + unit" where
  "validate_route_runtime_fraction m runtime listener route =
     (case rm_runtime_fraction m of
        None \<Rightarrow> Inr ()
      | Some rf \<Rightarrow>
          (case route_fraction_gate runtime rf of
             Inr _ \<Rightarrow> Inr ()
           | Inl (NondeterministicValue key val) \<Rightarrow>
               Inl (UnsupportedNonDeterministicRuntimeFraction listener route key val)
           | Inl (MapShapedKey key) \<Rightarrow> Inl (UnsupportedMapShapedRuntimeKey listener route key)
           | Inl (NondeterministicDefault num den) \<Rightarrow>
               Inl (UnsupportedNonDeterministicRuntimeFractionDefault listener route num den)))"

definition validate_csrf_config :: "CsrfPolicy \<Rightarrow> string \<Rightarrow> ConfigError + unit" where
  "validate_csrf_config cfg listener =
     (let p = default_value (filter_enabled cfg) in
      checks
        [reject_if (runtime_key (filter_enabled cfg) \<noteq> None) (UnsupportedRuntimeKeyedCsrfFilterEnabled listener),
         reject_if (numerator p \<noteq> 0 \<and> numerator p \<noteq> denominator_value (denominator p))
           (UnsupportedNonDeterministicCsrfFilterEnabled listener)])"

definition is_valid_dns_label :: "string \<Rightarrow> bool" where
  "is_valid_dns_label label \<longleftrightarrow>
     label \<noteq> [] \<and> length label \<le> 63 \<and> list_all (\<lambda>b. is_ascii_alphanumeric b \<or> b = CHR ''-'') label \<and>
     \<not> starts_with label ''-'' \<and> \<not> ends_with label ''-''"

definition is_valid_dns_name :: "string \<Rightarrow> bool" where
  "is_valid_dns_name name =
     (if name = [] \<or> length name > 253 then False
      else if starts_with name ''*'' then False
      else list_all is_valid_dns_label (split_on CHR ''.'' name))"

text \<open>
  What the route walk reads of its surroundings: the clusters, the codec, the listener's
  name, whether cluster references are deferred, the runtime snapshot and the names of the
  HTTP filters of the chain.
\<close>

record route_scope =
  rs_clusters :: "ClusterConfig list"
  rs_codec_type :: CodecType
  rs_listener_name :: string
  rs_defer_cluster_refs :: bool
  rs_runtime :: RuntimeSnapshot
  rs_filter_names :: "string list"

definition validate_action :: "route_scope \<Rightarrow> Route \<Rightarrow> ConfigError + unit" where
  "validate_action sc r =
     (case route_action r of
        ActDirectResponse dr \<Rightarrow>
          checks
            [reject_if (\<not> (100 \<le> dr_status dr \<and> dr_status dr \<le> 599)) (InvalidStatusCode (dr_status dr)),
             validate_data_source (dr_body dr) ''direct_response.body'' InlineString]
      | ActRedirect rd \<Rightarrow> validate_redirect_oneofs rd (rs_listener_name sc) (route_name r)
      | ActRoute ar \<Rightarrow>
          checks
            [reject_if (\<not> rs_defer_cluster_refs sc \<and>
                \<not> list_ex (\<lambda>c. cc_name c = ar_cluster ar) (rs_clusters sc))
               (UnknownCluster (ar_cluster ar)),
             reject_if (rs_codec_type sc \<in> {HTTP1, AUTO} \<and>
                 (case find (\<lambda>c. cc_name c = ar_cluster ar) (rs_clusters sc) of
                    None \<Rightarrow> False | Some c \<Rightarrow> is_h2 c))
               (Http2ClusterFromHttp1Listener (rs_listener_name sc) (ar_cluster ar))])"

definition validate_per_filter :: "route_scope \<Rightarrow> Route \<Rightarrow> (ConfigError + unit) list" where
  "validate_per_filter sc r =
     map (\<lambda>f. reject_if (f \<notin> set (rs_filter_names sc)) (PerRouteConfigForAbsentFilter f))
       (bt_keys (typed_per_filter_config r))
     @ map (\<lambda>(_, pfc). case pfc of PfcCsrf p \<Rightarrow> validate_csrf_config p (rs_listener_name sc) | _ \<Rightarrow> Inr ())
         (bt_entries (typed_per_filter_config r))"

definition validate_retry_policy :: "Route \<Rightarrow> ConfigError + unit" where
  "validate_retry_policy r = Inr ()"

definition validate_route ::
  "(string \<Rightarrow> (string \<Rightarrow> bool) option) \<Rightarrow> route_scope \<Rightarrow> Route \<Rightarrow> ConfigError + Route" where
  "validate_route regex_new sc r =
     (let m = route_match r in
      case checks
        ([validate_route_match_cardinality (rm_prefix m \<noteq> None) (rm_path m \<noteq> None),
          validate_route_runtime_fraction m (rs_runtime sc) (rs_listener_name sc) (route_name r),
          validate_action sc r] @ validate_per_filter sc r) of
        Inl e \<Rightarrow> Inl e
      | Inr _ \<Rightarrow>
          (case traverse (validate_header_matcher regex_new) (rm_headers m) of
             Inl e \<Rightarrow> Inl e
           | Inr hms \<Rightarrow>
               (case checks (validate_retry_policy r #
                   (case route_action r of
                      ActRoute ar \<Rightarrow> map validate_hash_policy (ar_hash_policy ar) | _ \<Rightarrow> [])) of
                  Inl e \<Rightarrow> Inl e
                | Inr _ \<Rightarrow> Inr (r\<lparr>route_match := m\<lparr>rm_headers := hms\<rparr>\<rparr>))))"

definition validate_virtual_host ::
  "(string \<Rightarrow> (string \<Rightarrow> bool) option) \<Rightarrow> route_scope \<Rightarrow> VirtualHost \<Rightarrow> ConfigError + VirtualHost" where
  "validate_virtual_host regex_new sc vh =
     (case checks
        (reject_if (vh_domains vh = []) (EmptyDomains (vh_name vh))
         # map (\<lambda>d. reject_if (d \<noteq> ''*'' \<and> \<not> is_valid_dns_name d) (UnsupportedDomainMatcher d)) (vh_domains vh)
         @ [reject_if (vh_routes vh = []) (EmptyRoutes (vh_name vh))]) of
        Inl e \<Rightarrow> Inl e
      | Inr _ \<Rightarrow>
          (case traverse (validate_route regex_new sc) (vh_routes vh) of
             Inl e \<Rightarrow> Inl e | Inr rs \<Rightarrow> Inr (vh\<lparr>vh_routes := rs\<rparr>)))"

definition validate_route_config ::
  "(string \<Rightarrow> (string \<Rightarrow> bool) option) \<Rightarrow> route_scope \<Rightarrow> RouteConfiguration \<Rightarrow> ConfigError + RouteConfiguration" where
  "validate_route_config regex_new sc rc =
     (if virtual_hosts rc = [] then Inl (EmptyVirtualHosts (rc_name rc))
      else case traverse (validate_virtual_host regex_new sc) (virtual_hosts rc) of
        Inl e \<Rightarrow> Inl e | Inr vhs \<Rightarrow> Inr (rc\<lparr>virtual_hosts := vhs\<rparr>))"

section \<open>What a validated route configuration guarantees\<close>

text \<open>
  A route the request path can rely on: one kind of path match, a fraction the snapshot
  decides, and header matchers that answer.
\<close>

definition route_ready :: "RuntimeSnapshot \<Rightarrow> Route \<Rightarrow> bool" where
  "route_ready runtime r \<longleftrightarrow>
     (rm_prefix (route_match r) = None \<longleftrightarrow> rm_path (route_match r) \<noteq> None) \<and>
     (\<forall>rf. rm_runtime_fraction (route_match r) = Some rf \<longrightarrow> (\<exists>g. route_fraction_gate runtime rf = Inr g)) \<and>
     (\<forall>hm \<in> set (rm_headers (route_match r)). hm_ready hm)"

definition rc_ready :: "RuntimeSnapshot \<Rightarrow> RouteConfiguration \<Rightarrow> bool" where
  "rc_ready runtime rc \<longleftrightarrow>
     virtual_hosts rc \<noteq> [] \<and>
     (\<forall>vh \<in> set (virtual_hosts rc). vh_domains vh \<noteq> [] \<and> vh_routes vh \<noteq> [] \<and>
        (\<forall>r \<in> set (vh_routes vh). route_ready runtime r))"

lemma validate_route_ready:
  assumes "validate_route regex_new sc r = Inr r'"
  shows "route_ready (rs_runtime sc) r'"
proof -
  let ?m = "route_match r"
  from assms obtain hms where
    card: "validate_route_match_cardinality (rm_prefix ?m \<noteq> None) (rm_path ?m \<noteq> None) = Inr ()" and
    frac: "validate_route_runtime_fraction ?m (rs_runtime sc) (rs_listener_name sc) (route_name r) = Inr ()" and
    hms: "traverse (validate_header_matcher regex_new) (rm_headers ?m) = Inr hms" and
    r': "r' = r\<lparr>route_match := ?m\<lparr>rm_headers := hms\<rparr>\<rparr>"
    unfolding validate_route_def Let_def
    by (auto split: sum.splits simp del: split_paired_All)
  have "hm_ready hm" if "hm \<in> set hms" for hm
    using traverse_set [OF hms that] validate_header_matcher_ready by blast
  with card frac r' show ?thesis
    by (auto simp: route_ready_def validate_route_match_cardinality_def
        validate_route_runtime_fraction_def split: if_splits sum.splits FractionGateError.splits)
qed

lemma validate_virtual_host_ready:
  assumes "validate_virtual_host regex_new sc vh = Inr vh'"
  shows "vh_domains vh' \<noteq> [] \<and> vh_routes vh' \<noteq> [] \<and> (\<forall>r \<in> set (vh_routes vh'). route_ready (rs_runtime sc) r)"
  using assms traverse_set [of "validate_route regex_new sc" "vh_routes vh"] validate_route_ready
  unfolding validate_virtual_host_def by (fastforce split: sum.splits)

lemma validate_route_config_ready:
  assumes "validate_route_config regex_new sc rc = Inr rc'"
  shows "rc_ready (rs_runtime sc) rc'"
  using assms traverse_set [of "validate_virtual_host regex_new sc" "virtual_hosts rc"]
    validate_virtual_host_ready
  unfolding validate_route_config_def rc_ready_def
  by (fastforce split: sum.splits if_splits)

end
