(* ===== verification/Retry_Policy.thy ===== *)
theory Retry_Policy
  imports Route_Config
begin

text \<open>
  The resolved retry policy of a route (\<open>RetryConfig\<close> of \<open>envoy-config/src/bootstrap.rs\<close>):
  parsing of \<open>retry_on\<close>, classification of an attempt, and the back-off schedule.
\<close>

datatype AttemptOutcome = OutcomeResponse | ConnectFailure | OutcomeReset

record RetryOn =
  on_5xx :: bool
  on_gateway_error :: bool
  on_connect_failure :: bool
  on_reset :: bool
  on_retriable_status_codes :: bool

record RetryConfig =
  rcfg_on :: RetryOn
  num_retries :: nat
  retriable_status_codes :: "nat list"

definition retry_on_default :: RetryOn where
  "retry_on_default =
     \<lparr>on_5xx = False, on_gateway_error = False, on_connect_failure = False, on_reset = False,
      on_retriable_status_codes = False\<rparr>"

definition enable_condition :: "RetryOn \<Rightarrow> string \<Rightarrow> RetryOn" where
  "enable_condition on tok =
     (if tok = ''5xx'' then on\<lparr>on_5xx := True\<rparr>
      else if tok = ''gateway-error'' then on\<lparr>on_gateway_error := True\<rparr>
      else if tok = ''connect-failure'' then on\<lparr>on_connect_failure := True\<rparr>
      else if tok = ''reset'' then on\<lparr>on_reset := True\<rparr>
      else if tok = ''retriable-status-codes'' then on\<lparr>on_retriable_status_codes := True\<rparr>
      else on)"

definition retry_tokens :: "string \<Rightarrow> string list" where
  "retry_tokens s = filter (\<lambda>t. t \<noteq> []) (map str_trim (split_on CHR '','' s))"

definition retry_config_from :: "RetryPolicy \<Rightarrow> RetryConfig" where
  "retry_config_from p =
     \<lparr>rcfg_on = foldl enable_condition retry_on_default (retry_tokens (retry_on p)),
      num_retries = (case rp_num_retries p of None \<Rightarrow> 1 | Some n \<Rightarrow> n),
      retriable_status_codes = rp_retriable_status_codes p\<rparr>"

definition is_retriable :: "RetryConfig \<Rightarrow> nat \<Rightarrow> AttemptOutcome \<Rightarrow> bool" where
  "is_retriable c status outcome =
     (case outcome of
        ConnectFailure \<Rightarrow> on_connect_failure (rcfg_on c)
      | OutcomeReset \<Rightarrow> on_reset (rcfg_on c)
      | OutcomeResponse \<Rightarrow>
          (on_5xx (rcfg_on c) \<and> 500 \<le> status \<and> status \<le> 599) \<or>
          (on_gateway_error (rcfg_on c) \<and> 502 \<le> status \<and> status \<le> 504) \<or>
          (on_retriable_status_codes (rcfg_on c) \<and> status \<in> set (retriable_status_codes c)))"

text \<open>The delay after the given failed attempt, in milliseconds.\<close>

definition backoff :: "nat \<Rightarrow> nat option" where
  "backoff attempt =
     (if attempt = 0 then None
      else let shift = attempt - 1 in
        Some (if shift \<ge> 4 then 250 else min (unat (push_bit shift (25 :: u64))) 250))"

section \<open>What the policy decides\<close>

lemma enable_condition_fold:
  "on_5xx (foldl enable_condition on toks) \<longleftrightarrow> on_5xx on \<or> ''5xx'' \<in> set toks"
  "on_gateway_error (foldl enable_condition on toks) \<longleftrightarrow> on_gateway_error on \<or> ''gateway-error'' \<in> set toks"
  "on_connect_failure (foldl enable_condition on toks) \<longleftrightarrow> on_connect_failure on \<or> ''connect-failure'' \<in> set toks"
  "on_reset (foldl enable_condition on toks) \<longleftrightarrow> on_reset on \<or> ''reset'' \<in> set toks"
  "on_retriable_status_codes (foldl enable_condition on toks) \<longleftrightarrow>
     on_retriable_status_codes on \<or> ''retriable-status-codes'' \<in> set toks"
  by (induction toks arbitrary: on) (auto simp: enable_condition_def)

lemma gateway_error_implied_by_5xx:
  "on_5xx (rcfg_on c) \<Longrightarrow> is_retriable (c\<lparr>rcfg_on := (rcfg_on c)\<lparr>on_gateway_error := b\<rparr>\<rparr>) st out = is_retriable c st out"
  by (auto simp: is_retriable_def split: AttemptOutcome.splits)

lemma backoff_closed: "backoff (Suc n) = Some (min 250 (25 * 2 ^ n))"
proof (cases "n \<ge> 4")
  case True
  then have "(2 :: nat) ^ 4 \<le> 2 ^ n" by (simp only: power_increasing)
  then show ?thesis using True by (simp add: backoff_def min_def)
next
  case False
  then have "n = 0 \<or> n = 1 \<or> n = 2 \<or> n = 3" by auto
  then show ?thesis by (auto simp: backoff_def push_bit_eq_mult)
qed

end
