(* ===== verification/Routing.thy ===== *)
theory Routing
  imports Retry_Policy
begin

text \<open>
  Routing of one request in the HTTP connection manager (\<open>envoy-http1/src/hcm.rs\<close>):
  virtual-host and route matching, the redirect plan, the synthesized responses and the
  framing of local replies. The value of the \<open>date\<close> header is an argument; a matcher that
  panics is the result \<open>None\<close>.
\<close>

section \<open>Requests and responses\<close>

datatype HttpVersion = Http10 | Http11

record Request =
  req_method :: string
  req_path :: string
  req_version :: HttpVersion
  req_headers :: headers
  req_bytes_consumed :: nat
  req_body :: "bytes option"

record Response =
  resp_status :: nat
  resp_reason :: "string option"
  resp_headers :: headers
  resp_body :: bytes

datatype BuildOutcome =
    Synth Response "string option"
  | Proxy (px_cluster: string) (px_retry_config: "RetryConfig option") (px_attempt_count: bool)
      (px_hash_key: "u64 option") (px_subset_match: "lb_metadata option")

section \<open>Matching\<close>

fun strip_port_rev :: "string \<Rightarrow> string option" where
  "strip_port_rev [] = None"
| "strip_port_rev (c # s) = (if c = CHR '':'' then Some s else strip_port_rev s)"

text \<open>Everything before the last colon.\<close>

definition strip_port :: "string \<Rightarrow> string" where
  "strip_port host = (case strip_port_rev (rev host) of None \<Rightarrow> host | Some s \<Rightarrow> rev s)"

definition vh_matches :: "string \<Rightarrow> VirtualHost \<Rightarrow> bool" where
  "vh_matches host vh = list_ex (\<lambda>d. if d = ''*'' then True else eq_ignore_ascii_case d host) (vh_domains vh)"

definition path_matches :: "RouteMatch \<Rightarrow> string \<Rightarrow> bool" where
  "path_matches m path =
     (case (rm_prefix m, rm_path m) of
        (Some p, None) \<Rightarrow> starts_with path p
      | (None, Some p) \<Rightarrow> path = p
      | _ \<Rightarrow> False)"

definition route_matches :: "RuntimeSnapshot \<Rightarrow> string \<Rightarrow> headers \<Rightarrow> Route \<Rightarrow> bool option" where
  "route_matches runtime path hs r =
     (let m = route_match r in
      if (case rm_runtime_fraction m of None \<Rightarrow> False | Some rf \<Rightarrow> \<not> route_fraction_passes runtime rf)
      then Some False
      else if \<not> path_matches m path then Some False
      else all_opt (\<lambda>hm. header_matches hm hs) (rm_headers m))"

text \<open>The \<open>Host\<close> header, absent when empty.\<close>

definition request_host :: "Request \<Rightarrow> string option" where
  "request_host req =
     (case find_header (req_headers req) ''host'' of
        None \<Rightarrow> None | Some h \<Rightarrow> if h = [] then None else Some h)"

text \<open>
  A resolved route is the pair of indices into the snapshot it was resolved against. The
  first \<open>option\<close> is the panic, the second the code's.
\<close>

definition resolve_route_in ::
  "RouteConfiguration \<Rightarrow> Request \<Rightarrow> RuntimeSnapshot \<Rightarrow> (nat \<times> nat) option option" where
  "resolve_route_in rc req runtime =
     (case request_host req of
        None \<Rightarrow> Some None
      | Some host_raw \<Rightarrow>
          (case position_opt (\<lambda>vh. Some (vh_matches (strip_port host_raw) vh)) (virtual_hosts rc) of
             None \<Rightarrow> None
           | Some None \<Rightarrow> Some None
           | Some (Some vh_idx) \<Rightarrow>
               (case position_opt (route_matches runtime (req_path req) (req_headers req))
                   (vh_routes (virtual_hosts rc ! vh_idx)) of
                  None \<Rightarrow> None
                | Some None \<Rightarrow> Some None
                | Some (Some route_idx) \<Rightarrow> Some (Some (vh_idx, route_idx)))))"

definition resolved_route :: "RouteConfiguration \<Rightarrow> nat \<times> nat \<Rightarrow> Route" where
  "resolved_route rc ij = vh_routes (virtual_hosts rc ! fst ij) ! snd ij"

section \<open>Synthesized responses\<close>

definition connection_value :: "bool \<Rightarrow> string" where
  "connection_value close = (if close then ''close'' else ''keep-alive'')"

definition synth_with :: "string \<Rightarrow> nat \<Rightarrow> bytes \<Rightarrow> bool \<Rightarrow> Response" where
  "synth_with date status body close =
     \<lparr>resp_status = status, resp_reason = None,
      resp_headers =
        [(''server'', ''envoy-rust''), (''date'', date), (''content-length'', show_nat (length body)),
         (''content-type'', ''text/plain''), (''connection'', connection_value close)],
      resp_body = body\<rparr>"

definition synth_direct_response :: "string \<Rightarrow> DirectResponse \<Rightarrow> bool \<Rightarrow> Response" where
  "synth_direct_response date dr close =
     synth_with date (dr_status dr)
       (as_bytes (case ds_inline_string (dr_body dr) of None \<Rightarrow> [] | Some s \<Rightarrow> s)) close"

definition synth_status :: "string \<Rightarrow> nat \<Rightarrow> bool \<Rightarrow> Response" where
  "synth_status date status close = synth_with date status [] close"

definition synth_no_healthy_upstream :: "string \<Rightarrow> bool \<Rightarrow> Response" where
  "synth_no_healthy_upstream date close = synth_with date 503 (as_bytes ''no healthy upstream'') close"

definition synth_overflow :: "string \<Rightarrow> bool \<Rightarrow> Response" where
  "synth_overflow date close =
     (let resp = synth_with date 503 (as_bytes
        ''upstream connect error or disconnect/reset before headers. reset reason: overflow'') close in
      resp\<lparr>resp_headers := resp_headers resp @ [(''x-envoy-overloaded'', ''true'')]\<rparr>)"

definition synth_redirect :: "string \<Rightarrow> nat \<Rightarrow> string \<Rightarrow> bool \<Rightarrow> Response" where
  "synth_redirect date status location close =
     \<lparr>resp_status = status, resp_reason = None,
      resp_headers =
        [(''location'', location), (''date'', date), (''server'', ''envoy-rust''),
         (''connection'', connection_value close), (''content-length'', ''0'')],
      resp_body = []\<rparr>"

section \<open>Redirects\<close>

record RedirectPlan =
  plan_location :: string
  plan_status :: nat
  plan_rewritten_path :: "string option"

definition split_query :: "string \<Rightarrow> string \<times> string option" where
  "split_query target =
     (case split_once CHR ''?'' target of Some (p, q) \<Rightarrow> (p, Some q) | None \<Rightarrow> (target, None))"

definition redirect_scheme :: "RedirectAction \<Rightarrow> string" where
  "redirect_scheme rd =
     (case (scheme_redirect rd, https_redirect rd) of
        (Some s, _) \<Rightarrow> s | (None, Some True) \<Rightarrow> ''https'' | (None, _) \<Rightarrow> ''http'')"

definition redirect_authority :: "string \<Rightarrow> RedirectAction \<Rightarrow> string" where
  "redirect_authority authority rd =
     (let host_part = (case host_redirect rd of Some h \<Rightarrow> h | None \<Rightarrow> authority) in
      case port_redirect rd of
        Some port \<Rightarrow> strip_port host_part @ '':'' @ show_nat port
      | None \<Rightarrow> host_part)"

definition redirect_path ::
  "string \<Rightarrow> string option \<Rightarrow> string option \<Rightarrow> RedirectAction \<Rightarrow> string \<times> string option" where
  "redirect_path path query matched_prefix rd =
     (case (case path_redirect rd of Some p \<Rightarrow> if p = [] then None else Some p | None \<Rightarrow> None,
            prefix_rewrite rd) of
        (Some p, _) \<Rightarrow> (p, None)
      | (None, Some pr) \<Rightarrow>
          let matched_len = (case matched_prefix of None \<Rightarrow> length path | Some m \<Rightarrow> length m);
              rewritten = pr @ (case str_get_from path matched_len of None \<Rightarrow> [] | Some tail \<Rightarrow> tail) in
          (rewritten, Some (case query of Some q \<Rightarrow> rewritten @ ''?'' @ q | None \<Rightarrow> rewritten))
      | (None, None) \<Rightarrow> (path, None))"

definition plan_redirect :: "string \<Rightarrow> string \<Rightarrow> string option \<Rightarrow> RedirectAction \<Rightarrow> RedirectPlan" where
  "plan_redirect authority target matched_prefix rd =
     (let (path, query) = split_query target;
          (new_path, rewritten_path) = redirect_path path query matched_prefix rd;
          query_suffix = (case (strip_query rd, query) of (False, Some q) \<Rightarrow> ''?'' @ q | _ \<Rightarrow> []) in
      \<lparr>plan_location =
         redirect_scheme rd @ ''://'' @ redirect_authority authority rd @ new_path @ query_suffix,
       plan_status = redirect_status (response_code rd),
       plan_rewritten_path = rewritten_path\<rparr>)"

section \<open>Dispatch\<close>

fun first_header_policy :: "HashPolicy list \<Rightarrow> string option" where
  "first_header_policy [] = None"
| "first_header_policy (p # ps) = (case hp_header p of Some h \<Rightarrow> Some h | None \<Rightarrow> first_header_policy ps)"

definition request_hash_key :: "HashPolicy list \<Rightarrow> headers \<Rightarrow> u64 option" where
  "request_hash_key policies hs =
     (case first_header_policy policies of
        None \<Rightarrow> None
      | Some name \<Rightarrow> map_option (\<lambda>v. xxh64 (as_bytes v)) (find_header hs name))"

definition dispatch_action ::
  "string \<Rightarrow> bool \<Rightarrow> VirtualHost \<Rightarrow> Route \<Rightarrow> Request \<Rightarrow> BuildOutcome \<times> Request" where
  "dispatch_action date close vh r req =
     (case route_action r of
        ActDirectResponse dr \<Rightarrow> (Synth (synth_direct_response date dr close) (Some ''direct_response''), req)
      | ActRedirect rd \<Rightarrow>
          (let authority = (case find_header (req_headers req) ''host'' of None \<Rightarrow> [] | Some h \<Rightarrow> h);
               plan = plan_redirect authority (req_path req) (rm_prefix (route_match r)) rd;
               req' = (case plan_rewritten_path plan of None \<Rightarrow> req | Some p \<Rightarrow> req\<lparr>req_path := p\<rparr>) in
           (Synth (synth_redirect date (plan_status plan) (plan_location plan) close) (Some ''direct_response''),
            req'))
      | ActRoute ar \<Rightarrow>
          (Proxy (ar_cluster ar) (map_option retry_config_from (ar_retry_policy ar))
             (include_attempt_count_in_response vh)
             (request_hash_key (ar_hash_policy ar) (req_headers req)) (ar_metadata_match ar), req))"

definition build_response_in ::
  "string \<Rightarrow> RouteConfiguration \<Rightarrow> Request \<Rightarrow> bool \<Rightarrow> RuntimeSnapshot \<Rightarrow> (BuildOutcome \<times> Request) option" where
  "build_response_in date rc req close runtime =
     (case request_host req of
        None \<Rightarrow> Some (Synth (synth_status date 400 close) None, req)
      | Some host_raw \<Rightarrow>
          (case find (vh_matches (strip_port host_raw)) (virtual_hosts rc) of
             None \<Rightarrow> Some (Synth (synth_status date 404 close) (Some ''route_not_found''), req)
           | Some vh \<Rightarrow>
               (case find_opt (route_matches runtime (req_path req) (req_headers req)) (vh_routes vh) of
                  None \<Rightarrow> None
                | Some None \<Rightarrow> Some (Synth (synth_status date 404 close) (Some ''route_not_found''), req)
                | Some (Some r) \<Rightarrow> Some (dispatch_action date close vh r req))))"

section \<open>Framing\<close>

datatype Http1Error =
    MalformedRequestLine
  | MalformedHeader
  | HeadersTooLarge nat
  | BodyTooLarge nat
  | UnexpectedEof
  | Io
  | UpstreamConnect
  | MalformedResponseLine
  | MalformedChunkedFraming
  | StatsRegistration string string
  | AccessLogOpen string
  | AccessLogFormat string
  | FilterPipelineError string

definition is_header :: "string \<Rightarrow> string \<times> string \<Rightarrow> bool" where
  "is_header name kv = eq_ignore_ascii_case (fst kv) name"

definition has_header :: "string \<Rightarrow> headers \<Rightarrow> bool" where
  "has_header name hs = list_ex (is_header name) hs"

definition has_chunked_transfer_encoding :: "headers \<Rightarrow> bool" where
  "has_chunked_transfer_encoding hs =
     list_ex (\<lambda>(name, v). eq_ignore_ascii_case name ''transfer-encoding'' \<and>
       list_ex (\<lambda>token. eq_ignore_ascii_case (str_trim token) ''chunked'') (split_on CHR '','' v)) hs"

fun content_length_scan :: "nat option \<Rightarrow> headers \<Rightarrow> Http1Error + nat" where
  "content_length_scan seen [] = Inr (case seen of None \<Rightarrow> 0 | Some n \<Rightarrow> n)"
| "content_length_scan seen ((name, v) # hs) =
     (if \<not> eq_ignore_ascii_case name ''content-length'' then content_length_scan seen hs
      else case parse_unsigned 64 v of
        None \<Rightarrow> Inl MalformedHeader
      | Some parsed \<Rightarrow>
          (case seen of
             Some prev \<Rightarrow> if prev \<noteq> parsed then Inl MalformedHeader else content_length_scan (Some parsed) hs
           | None \<Rightarrow> content_length_scan (Some parsed) hs))"

definition parse_content_length :: "headers \<Rightarrow> Http1Error + nat" where
  "parse_content_length hs = content_length_scan None hs"

fun set_first_header :: "string \<Rightarrow> string \<Rightarrow> headers \<Rightarrow> headers option" where
  "set_first_header name v [] = None"
| "set_first_header name v (kv # hs) =
     (if is_header name kv then Some ((fst kv, v) # hs) else map_option ((#) kv) (set_first_header name v hs))"

definition add_if_missing :: "headers \<Rightarrow> string \<times> string \<Rightarrow> headers" where
  "add_if_missing hs kv = (if has_header (fst kv) hs then hs else hs @ [kv])"

definition add_standard_filter_reply_headers :: "string \<Rightarrow> Response \<Rightarrow> string option \<Rightarrow> Response" where
  "add_standard_filter_reply_headers date resp connection =
     (let hs = (if \<not> has_header ''content-type'' (resp_headers resp) \<and> resp_body resp \<noteq> []
                then resp_headers resp @ [(''content-type'', ''text/plain'')] else resp_headers resp);
          standards = [(''server'', ''envoy-rust''), (''date'', date)]
            @ (case connection of None \<Rightarrow> [] | Some c \<Rightarrow> [(''connection'', c)]) in
      resp\<lparr>resp_headers := foldl add_if_missing hs standards\<rparr>)"

definition decorate_filter_synth_response :: "string \<Rightarrow> Response \<Rightarrow> string option \<Rightarrow> Response" where
  "decorate_filter_synth_response date resp connection =
     (let cl_value = show_nat (length (resp_body resp));
          hs = (case set_first_header ''content-length'' cl_value (resp_headers resp) of
                  Some hs' \<Rightarrow> hs' | None \<Rightarrow> resp_headers resp @ [(''content-length'', cl_value)]) in
      add_standard_filter_reply_headers date (resp\<lparr>resp_headers := hs\<rparr>) connection)"

definition decorate_filter_reply :: "string \<Rightarrow> Response \<Rightarrow> bool \<Rightarrow> string option \<Rightarrow> Response" where
  "decorate_filter_reply date resp headers_only connection =
     (if \<not> headers_only then decorate_filter_synth_response date resp connection
      else add_standard_filter_reply_headers date
        (resp\<lparr>resp_headers := filter (\<lambda>kv. \<not> is_header ''content-length'' kv \<and>
            \<not> is_header ''transfer-encoding'' kv) (resp_headers resp)\<rparr>) connection)"

definition settle_headers_only_framing :: "Response \<Rightarrow> bool \<Rightarrow> bool \<Rightarrow> Response" where
  "settle_headers_only_framing resp head_request grpc_transformed =
     (let hs1 = (if head_request \<and> grpc_transformed
                 then filter (\<lambda>kv. \<not> is_header ''content-length'' kv) (resp_headers resp) else resp_headers resp);
          hs2 = filter (\<lambda>kv. \<not> is_header ''transfer-encoding'' kv) hs1;
          hs3 = (if \<not> has_header ''content-length'' hs2
                 then hs2 @ [if head_request then (''transfer-encoding'', ''chunked'') else (''content-length'', ''0'')]
                 else hs2) in
      resp\<lparr>resp_headers := hs3\<rparr>)"

section \<open>Routing is one decision\<close>

lemma find_position:
  "position_opt (\<lambda>x. Some (P x)) xs = Some o' \<Longrightarrow> find P xs = map_option ((!) xs) o'"
  using find_opt_position [of "\<lambda>x. Some (P x)" xs] find_opt_total [of xs "\<lambda>x. Some (P x)"] by simp

lemma position_opt_pure_total: "\<exists>o'. position_opt (\<lambda>x. Some (P x)) xs = Some o'"
  by (induction xs) (auto split: bool.splits)

text \<open>
  C4. The up-front resolution that configures the filters and the response builder that
  routes the request take the same decision: the builder answers 400 or 404 exactly when
  the resolution finds nothing, and otherwise dispatches on the route it found.
\<close>

theorem resolve_build_agree:
  "build_response_in date rc req close runtime =
     (case resolve_route_in rc req runtime of
        None \<Rightarrow> None
      | Some None \<Rightarrow>
          Some (if request_host req = None then Synth (synth_status date 400 close) None
                else Synth (synth_status date 404 close) (Some ''route_not_found''), req)
      | Some (Some ij) \<Rightarrow>
          Some (dispatch_action date close (virtual_hosts rc ! fst ij) (resolved_route rc ij) req))"
proof (cases "request_host req")
  case None
  then show ?thesis by (simp add: build_response_in_def resolve_route_in_def)
next
  case (Some host)
  obtain o' where o': "position_opt (\<lambda>vh. Some (vh_matches (strip_port host) vh)) (virtual_hosts rc) = Some o'"
    using position_opt_pure_total by blast
  note vh = find_position [OF o']
  show ?thesis
  proof (cases o')
    case None
    with vh o' Some show ?thesis by (simp add: build_response_in_def resolve_route_in_def)
  next
    case (Some i)
    with vh o' \<open>request_host req = Some host\<close> show ?thesis
      by (auto simp: build_response_in_def resolve_route_in_def resolved_route_def find_opt_position
          split: option.splits)
  qed
qed

section \<open>Validated configurations are routed without panic, first match first\<close>

lemma route_matches_ready:
  "route_ready runtime r \<Longrightarrow> route_matches runtime path hs r \<noteq> None"
  using all_opt_total [of "rm_headers (route_match r)" "\<lambda>hm. header_matches hm hs"] header_matches_ready
  by (auto simp: route_matches_def route_ready_def Let_def split: option.splits)

lemma position_opt_first:
  assumes "\<And>x. x \<in> set xs \<Longrightarrow> f x \<noteq> None"
  shows "\<exists>o'. position_opt f xs = Some o' \<and>
    (case o' of
       None \<Rightarrow> \<forall>x \<in> set xs. f x = Some False
     | Some i \<Rightarrow> i < length xs \<and> f (xs ! i) = Some True \<and> (\<forall>j < i. f (xs ! j) = Some False))"
  using assms
proof (induction xs)
  case (Cons x xs)
  from Cons.prems [of x] obtain b where b: "f x = Some b" by auto
  from Cons obtain o' where o': "position_opt f xs = Some o'"
    "case o' of None \<Rightarrow> \<forall>x \<in> set xs. f x = Some False
      | Some i \<Rightarrow> i < length xs \<and> f (xs ! i) = Some True \<and> (\<forall>j < i. f (xs ! j) = Some False)"
    by auto
  show ?case
  proof (cases b)
    case False
    with b o' show ?thesis by (cases o') (auto simp: nth_Cons' less_Suc_eq_0_disj)
  qed (use b in simp)
qed simp

definition first_match :: "('a \<Rightarrow> bool) \<Rightarrow> 'a list \<Rightarrow> nat \<Rightarrow> bool" where
  "first_match P xs i \<longleftrightarrow> i < length xs \<and> P (xs ! i) \<and> (\<forall>j < i. \<not> P (xs ! j))"

definition route_hits :: "RuntimeSnapshot \<Rightarrow> Request \<Rightarrow> Route \<Rightarrow> bool" where
  "route_hits runtime req r \<longleftrightarrow> route_matches runtime (req_path req) (req_headers req) r = Some True"

text \<open>
  C3. Routing under a validated configuration: the request path never panics, and the route
  that serves the request is the first matching route of the first virtual host whose
  domains match the \<open>Host\<close> header, or there is none.
\<close>

theorem routing_first_match:
  assumes "validate_route_config regex_new sc rc = Inr rc'"
  shows "\<exists>res. resolve_route_in rc' req (rs_runtime sc) = Some res \<and>
    (case res of
       Some (i, j) \<Rightarrow>
         (\<exists>host. request_host req = Some host \<and>
            first_match (vh_matches (strip_port host)) (virtual_hosts rc') i) \<and>
         first_match (route_hits (rs_runtime sc) req) (vh_routes (virtual_hosts rc' ! i)) j
     | None \<Rightarrow>
         \<forall>host. request_host req = Some host \<longrightarrow>
           (\<forall>i. first_match (vh_matches (strip_port host)) (virtual_hosts rc') i \<longrightarrow>
              (\<forall>r \<in> set (vh_routes (virtual_hosts rc' ! i)). \<not> route_hits (rs_runtime sc) req r)))"
proof (cases "request_host req")
  case None
  then show ?thesis by (simp add: resolve_route_in_def)
next
  case (Some host)
  let ?P = "vh_matches (strip_port host)"
  have ready: "rc_ready (rs_runtime sc) rc'"
    using assms(1) by (rule validate_route_config_ready)
  obtain o' where o': "position_opt (\<lambda>vh. Some (?P vh)) (virtual_hosts rc') = Some o'"
    "case o' of None \<Rightarrow> \<forall>vh \<in> set (virtual_hosts rc'). \<not> ?P vh
      | Some i \<Rightarrow> first_match ?P (virtual_hosts rc') i"
    using position_opt_first [of "virtual_hosts rc'" "\<lambda>vh. Some (?P vh)"]
    by (fastforce simp: first_match_def split: option.splits)
  show ?thesis
  proof (cases o')
    case None
    with o' Some show ?thesis by (auto simp: resolve_route_in_def first_match_def)
  next
    case (Some i)
    with o'(2) have i: "first_match ?P (virtual_hosts rc') i" by simp
    have uniq: "i' = i" if "first_match ?P (virtual_hosts rc') i'" for i'
      using that i by (metis first_match_def linorder_neqE_nat)
    let ?f = "route_matches (rs_runtime sc) (req_path req) (req_headers req)"
    have "virtual_hosts rc' ! i \<in> set (virtual_hosts rc')" using i by (simp add: first_match_def)
    then have "?f r \<noteq> None" if "r \<in> set (vh_routes (virtual_hosts rc' ! i))" for r
      using ready that route_matches_ready unfolding rc_ready_def by blast
    from position_opt_first [of "vh_routes (virtual_hosts rc' ! i)" ?f, OF this] obtain j' where
      j': "position_opt ?f (vh_routes (virtual_hosts rc' ! i)) = Some j'"
      "case j' of None \<Rightarrow> \<forall>r \<in> set (vh_routes (virtual_hosts rc' ! i)). ?f r = Some False
        | Some j \<Rightarrow> j < length (vh_routes (virtual_hosts rc' ! i)) \<and>
            ?f (vh_routes (virtual_hosts rc' ! i) ! j) = Some True \<and>
            (\<forall>k < j. ?f (vh_routes (virtual_hosts rc' ! i) ! k) = Some False)"
      by blast
    have res: "resolve_route_in rc' req (rs_runtime sc) = Some (map_option (Pair i) j')"
      using \<open>request_host req = Some host\<close> Some o'(1) j'(1)
      by (simp add: resolve_route_in_def split: option.splits)
    show ?thesis
    proof (cases j')
      case None
      with j'(2) have "\<not> route_hits (rs_runtime sc) req r" if "r \<in> set (vh_routes (virtual_hosts rc' ! i))" for r
        using that by (simp add: route_hits_def)
      with res None uniq \<open>request_host req = Some host\<close> show ?thesis by auto
    next
      case (Some j)
      with j'(2) have "first_match (route_hits (rs_runtime sc) req) (vh_routes (virtual_hosts rc' ! i)) j"
        by (simp add: first_match_def route_hits_def)
      with res Some i \<open>request_host req = Some host\<close> show ?thesis by auto
    qed
  qed
qed

text \<open>A demonstration configuration: one catch-all host, an API route before a default one.\<close>

definition demo_match :: "string \<Rightarrow> RouteMatch" where
  "demo_match p = \<lparr>rm_prefix = Some p, rm_path = None, rm_headers = [], rm_runtime_fraction = None\<rparr>"

definition demo_route :: "string \<Rightarrow> nat \<Rightarrow> Route" where
  "demo_route p status =
     \<lparr>route_name = [], route_match = demo_match p,
      route_action = ActDirectResponse
        \<lparr>dr_status = status, dr_body = \<lparr>ds_filename = None, ds_inline_string = Some ''ok''\<rparr>\<rparr>,
      typed_per_filter_config = []\<rparr>"

definition demo_rc :: RouteConfiguration where
  "demo_rc =
     \<lparr>rc_name = ''r'',
      virtual_hosts =
        [\<lparr>vh_name = ''v'', vh_domains = [''*''], vh_routes = [demo_route ''/api'' 201, demo_route ''/'' 200],
          include_attempt_count_in_response = False\<rparr>],
      validate_clusters = None\<rparr>"

definition demo_scope :: route_scope where
  "demo_scope =
     \<lparr>rs_clusters = [], rs_codec_type = HTTP1, rs_listener_name = ''l'', rs_defer_cluster_refs = False,
      rs_runtime = \<lparr>layer_names = [], snap_entries = []\<rparr>, rs_filter_names = []\<rparr>"

lemma demo_rc_valid: "validate_route_config regex_new demo_scope demo_rc = Inr demo_rc"
  by (simp add: validate_route_config_def demo_rc_def validate_virtual_host_def validate_route_def
      demo_route_def demo_match_def validate_route_match_cardinality_def Let_def reject_if_def
      validate_route_runtime_fraction_def validate_action_def validate_data_source_def
      validate_per_filter_def bt_keys_def bt_entries_def validate_retry_policy_def)

theorem routing_first_match_witness:
  "\<exists>res. resolve_route_in demo_rc
     \<lparr>req_method = ''GET'', req_path = ''/api/x'', req_version = Http11,
       req_headers = [(''Host'', ''a.b:80'')], req_bytes_consumed = 40, req_body = None\<rparr>
     (rs_runtime demo_scope) = Some res \<and> res = Some (0, 0)"
proof -
  let ?req = "\<lparr>req_method = ''GET'', req_path = ''/api/x'', req_version = Http11,
       req_headers = [(''Host'', ''a.b:80'')], req_bytes_consumed = 40, req_body = None\<rparr>"
  have "resolve_route_in demo_rc ?req (rs_runtime demo_scope) = Some (Some (0, 0))"
    by code_simp
  with routing_first_match [where req = ?req, OF demo_rc_valid] show ?thesis by auto
qed

section \<open>Redirects\<close>

lemma split_query_target:
  "split_query target = (path, query) \<Longrightarrow>
    target = path @ (case query of None \<Rightarrow> [] | Some q \<Rightarrow> ''?'' @ q) \<and> CHR ''?'' \<notin> set path"
  using split_once_Some [of "CHR ''?''" target] split_once_None [of "CHR ''?''" target]
  by (auto simp: split_query_def split: option.splits)

text \<open>
  A prefix rewrite replaces exactly the matched prefix: a request for \<open>prefix @ rest\<close>
  is redirected to \<open>rewrite @ rest\<close> on the chosen scheme and authority, the query kept
  unless it is stripped, and the path the access log sees is rewritten with its query.
  The authority is the \<open>Host\<close> header with its port unless the action overrides it.
\<close>

theorem redirect_rewrites_prefix:
  assumes "prefix_rewrite rd = Some pr" "path_redirect rd = None"
    and "target = pre @ rest @ (case query of None \<Rightarrow> [] | Some q \<Rightarrow> ''?'' @ q)"
    and "CHR ''?'' \<notin> set (pre @ rest)" "is_char_boundary (pre @ rest) (length pre)"
  shows "plan_redirect authority target (Some pre) rd =
    \<lparr>plan_location = redirect_scheme rd @ ''://'' @ redirect_authority authority rd @ pr @ rest
        @ (case query of None \<Rightarrow> [] | Some q \<Rightarrow> if strip_query rd then [] else ''?'' @ q),
     plan_status = redirect_status (response_code rd),
     plan_rewritten_path = Some (pr @ rest @ (case query of None \<Rightarrow> [] | Some q \<Rightarrow> ''?'' @ q))\<rparr>"
proof -
  have "split_query target = (pre @ rest, query)"
  proof (cases query)
    case None
    then show ?thesis using assms(3,4) split_once_None [of "CHR ''?''" "pre @ rest"]
      by (simp add: split_query_def split: option.splits)
  next
    case (Some q)
    then show ?thesis using assms(3,4) split_once_append [of "CHR ''?''" "pre @ rest" q]
      by (simp add: split_query_def)
  qed
  then show ?thesis using assms(1,2,5)
    by (simp add: plan_redirect_def redirect_path_def str_get_from_def Let_def split: option.splits bool.splits)
qed

theorem redirect_rewrites_prefix_witness:
  "plan_location (plan_redirect ''h:8080'' ''/old/x?a=1'' (Some ''/old'')
     \<lparr>host_redirect = None, port_redirect = None, path_redirect = None, prefix_rewrite = Some ''/new'',
      https_redirect = Some True, scheme_redirect = None, strip_query = False, response_code = Found\<rparr>) =
   ''https://h:8080/new/x?a=1''"
  by (subst redirect_rewrites_prefix [where pr = "''/new''" and rest = "''/x''" and query = "Some ''a=1''"])
    (simp_all add: is_char_boundary_def byte_of_def redirect_scheme_def redirect_authority_def)

text \<open>
  \<open>port_redirect\<close> replaces everything after the last colon of the authority, which in an
  IPv6 literal without a port is inside the brackets.
\<close>

lemma redirect_port_breaks_ipv6:
  "plan_location (plan_redirect ''[::1]'' ''/'' (Some ''/'')
     \<lparr>host_redirect = None, port_redirect = Some 8443, path_redirect = None, prefix_rewrite = None,
      https_redirect = None, scheme_redirect = None, strip_query = False, response_code = Found\<rparr>) =
   ''http://[::'' @ show_nat 8443 @ ''/''"
  by (simp add: plan_redirect_def split_query_def redirect_path_def redirect_scheme_def
      redirect_authority_def strip_port_def)

section \<open>Framing\<close>

definition content_length_rows :: "headers \<Rightarrow> nat option list" where
  "content_length_rows hs = map (\<lambda>kv. parse_unsigned 64 (snd kv)) (filter (is_header ''content-length'') hs)"

lemma content_length_scan_spec:
  "content_length_scan seen hs =
     (case seen of
        Some n \<Rightarrow> if \<forall>r \<in> set (content_length_rows hs). r = Some n then Inr n else Inl MalformedHeader
      | None \<Rightarrow>
          (case content_length_rows hs of
             [] \<Rightarrow> Inr 0
           | r # rs \<Rightarrow>
               (case r of None \<Rightarrow> Inl MalformedHeader
                | Some n \<Rightarrow> if \<forall>r \<in> set rs. r = Some n then Inr n else Inl MalformedHeader)))"
  by (induction seen hs rule: content_length_scan.induct)
    (auto simp: content_length_rows_def is_header_def split: option.splits list.splits)

text \<open>
  The length a request body is framed with: a request is accepted only when every
  \<open>Content-Length\<close> row reads as the same number, so no two readers of its rows can
  disagree about where it ends; without rows the body is empty.
\<close>

theorem content_length_unambiguous:
  "parse_content_length hs = Inr n \<longleftrightarrow>
     (\<forall>r \<in> set (content_length_rows hs). r = Some n) \<and> (content_length_rows hs = [] \<longrightarrow> n = 0)"
  unfolding parse_content_length_def content_length_scan_spec
  by (auto split: list.splits option.splits)

theorem content_length_unambiguous_witness:
  "parse_content_length [(''content-length'', ''7''), (''host'', ''h''), (''content-length'', ''7'')] = Inr 7"
  by (subst content_length_unambiguous)
    (auto simp: content_length_rows_def is_header_def parse_unsigned_def parse_digits_def read_nat_def
      digit_val_def is_ascii_digit_def byte_of_def dest: eq_ignore_ascii_case_length)

text \<open>Rust's integer reader takes a leading plus sign, which the header's grammar excludes.\<close>

theorem content_length_accepts_plus:
  "parse_content_length [(''Content-Length'', ''+5'')] = Inr 5"
proof -
  have "eq_ignore_ascii_case ''Content-Length'' ''content-length''" by code_simp
  moreover have "parse_unsigned 64 ''+5'' = Some 5"
    by (simp add: parse_unsigned_def parse_digits_def read_nat_def digit_val_def is_ascii_digit_def byte_of_def)
  ultimately show ?thesis by (simp add: parse_content_length_def)
qed

lemma has_header_append [simp]: "has_header n (xs @ ys) \<longleftrightarrow> has_header n xs \<or> has_header n ys"
  by (simp add: has_header_def)

lemma has_header_filter_out [simp]: "\<not> has_header n (filter (\<lambda>kv. \<not> is_header n kv) hs)"
  by (auto simp: has_header_def list_ex_iff)

lemma header_names_differ [simp]:
  "\<not> is_header ''transfer-encoding'' (''content-length'', v)"
  "\<not> is_header ''content-length'' (''transfer-encoding'', v)"
  "is_header n (n, v)"
  by (auto simp: is_header_def dest: eq_ignore_ascii_case_length)

lemma cl_not_te: "is_header ''content-length'' kv \<Longrightarrow> \<not> is_header ''transfer-encoding'' kv"
  by (auto simp: is_header_def dest!: eq_ignore_ascii_case_length)

lemma settled_headers:
  "has_header ''transfer-encoding'' (resp_headers (settle_headers_only_framing resp head grpc)) \<longleftrightarrow>
     head \<and> (grpc \<or> \<not> has_header ''content-length'' (resp_headers resp))"
  "has_header ''content-length'' (resp_headers (settle_headers_only_framing resp head grpc)) \<longleftrightarrow>
     \<not> (head \<and> (grpc \<or> \<not> has_header ''content-length'' (resp_headers resp)))"
proof -
  have te: "has_header ''transfer-encoding'' [(''content-length'', v)] = False"
    "has_header ''content-length'' [(''transfer-encoding'', v)] = False"
    "has_header ''content-length'' [(''content-length'', v)] = True"
    "has_header ''transfer-encoding'' [(''transfer-encoding'', v)] = True" for v
    by (simp_all add: has_header_def)
  have keep: "has_header ''content-length'' (filter (\<lambda>kv. \<not> is_header ''transfer-encoding'' kv) hs) \<longleftrightarrow>
      has_header ''content-length'' hs" for hs
    using cl_not_te by (induction hs) (auto simp: has_header_def)
  have drop: "\<not> has_header ''content-length'' (filter (\<lambda>kv. \<not> is_header ''content-length'' kv \<and>
      \<not> is_header ''transfer-encoding'' kv) hs)" for hs
    by (auto simp: has_header_def list_ex_iff)
  show "has_header ''transfer-encoding'' (resp_headers (settle_headers_only_framing resp head grpc)) \<longleftrightarrow>
     head \<and> (grpc \<or> \<not> has_header ''content-length'' (resp_headers resp))"
    by (cases head; cases grpc) (auto simp: settle_headers_only_framing_def Let_def te keep drop)
  show "has_header ''content-length'' (resp_headers (settle_headers_only_framing resp head grpc)) \<longleftrightarrow>
     \<not> (head \<and> (grpc \<or> \<not> has_header ''content-length'' (resp_headers resp)))"
    by (cases head; cases grpc) (auto simp: settle_headers_only_framing_def Let_def te keep drop)
qed

text \<open>
  A settled headers-only reply carries exactly one kind of framing header, and it is
  \<open>transfer-encoding\<close> exactly when the reply answers a \<open>HEAD\<close> request and no later stage
  chose a \<open>content-length\<close>.
\<close>

theorem headers_only_framing_exclusive:
  "has_header ''content-length'' (resp_headers (settle_headers_only_framing resp head grpc)) \<noteq>
     has_header ''transfer-encoding'' (resp_headers (settle_headers_only_framing resp head grpc)) \<and>
   has_header ''transfer-encoding'' (resp_headers (settle_headers_only_framing resp head grpc)) =
     (if grpc then head else head \<and> \<not> has_header ''content-length'' (resp_headers resp))"
  unfolding settled_headers by auto

end
