(* ===== verification/Token_Bucket.thy ===== *)
theory Token_Bucket
  imports Prelude
begin

text \<open>
  The token bucket of \<open>envoy-filter/src/local_rate_limit.rs\<close>. An \<open>Instant\<close> is a number of
  nanoseconds on the monotonic clock and a \<open>Duration\<close> its length in nanoseconds; the
  clock reading that \<open>refill\<close> makes is an argument. The mutex is held for the whole
  of \<open>try_acquire\<close>, so every history of the bucket is a sequence of whole calls.
\<close>

section \<open>The bucket\<close>

record TokenBucketState =
  tb_tokens :: u64
  tb_last_fill :: nat

definition bucket_new :: "nat \<Rightarrow> u64 \<Rightarrow> TokenBucketState" where
  "bucket_new now max_tokens = \<lparr>tb_tokens = max_tokens, tb_last_fill = now\<rparr>"

definition saturating_add :: "u64 \<Rightarrow> u64 \<Rightarrow> u64" where
  "saturating_add a b = (if unat a + unat b < 2 ^ 64 then a + b else - 1)"

definition saturating_mul :: "u64 \<Rightarrow> u64 \<Rightarrow> u64" where
  "saturating_mul a b = (if unat a * unat b < 2 ^ 64 then a * b else - 1)"

text \<open>\<open>Duration::MAX\<close> in nanoseconds.\<close>

definition duration_max :: nat where
  "duration_max = (2 ^ 64 - 1) * 1000000000 + 999999999"

definition refill :: "nat \<Rightarrow> u64 \<Rightarrow> nat \<Rightarrow> u64 \<Rightarrow> u64 \<Rightarrow> nat \<Rightarrow> u64 \<times> nat" where
  "refill now current last_fill max_tokens tokens_per_fill fill_interval =
     (if tokens_per_fill = 0 then (current, last_fill)
      else let elapsed = now - last_fill in
        if fill_interval = 0 \<or> elapsed div fill_interval = 0 then (current, last_fill)
        else let intervals = of_nat (elapsed div fill_interval) :: u64;
                 refilled = saturating_add current (saturating_mul intervals tokens_per_fill);
                 capped = min refilled max_tokens;
                 advance = min (fill_interval * min (unat intervals) (2 ^ 32 - 1)) duration_max
          in (capped, last_fill + advance))"

definition try_acquire :: "nat \<Rightarrow> u64 \<Rightarrow> u64 \<Rightarrow> nat \<Rightarrow> TokenBucketState \<Rightarrow> bool \<times> TokenBucketState" where
  "try_acquire now max_tokens tokens_per_fill fill_interval tb =
     (case refill now (tb_tokens tb) (tb_last_fill tb) max_tokens tokens_per_fill fill_interval of
        (available, new_last_fill) \<Rightarrow>
          if available = 0 then (False, tb)
          else (True, \<lparr>tb_tokens = available - 1, tb_last_fill = new_last_fill\<rparr>))"

text \<open>The calls of a history, made at the given clock readings, and how many were granted.\<close>

fun acquire_all :: "u64 \<Rightarrow> u64 \<Rightarrow> nat \<Rightarrow> nat list \<Rightarrow> TokenBucketState \<Rightarrow> nat \<times> TokenBucketState" where
  "acquire_all mx per ival [] tb = (0, tb)"
| "acquire_all mx per ival (t # ts) tb =
     (case try_acquire t mx per ival tb of
        (ok, tb') \<Rightarrow> (case acquire_all mx per ival ts tb' of
           (n, tb'') \<Rightarrow> ((if ok then n + 1 else n), tb'')))"

section \<open>How many requests are let through\<close>

lemma unat_u64_max: "unat (- 1 :: u64) = 2 ^ 64 - 1"
  by (simp add: unsigned_minus_1_eq_mask mask_eq_exp_minus_1)

lemma unat_saturating_add: "unat (saturating_add a b) = min (unat a + unat b) (2 ^ 64 - 1)"
proof (cases "unat a + unat b < 2 ^ 64")
  case True
  then show ?thesis by (simp add: saturating_add_def unat_word_ariths)
next
  case False
  with unat_u64_max show ?thesis by (simp add: saturating_add_def)
qed

lemma unat_saturating_mul: "unat (saturating_mul a b) = min (unat a * unat b) (2 ^ 64 - 1)"
proof (cases "unat a * unat b < 2 ^ 64")
  case True
  then show ?thesis by (simp add: saturating_mul_def unat_word_ariths)
next
  case False
  with unat_u64_max show ?thesis by (simp add: saturating_mul_def)
qed

lemma unat_min: "unat (min a b) = min (unat a) (unat (b :: 'a::len word))"
  by (simp add: min_def word_le_nat_alt)

text \<open>While the counts fit their widths, a refill is the arithmetic one expects.\<close>

lemma refill_exact:
  assumes "per \<noteq> 0" "0 < ival" "(now - lf) div ival < 2 ^ 32" "now - lf \<le> duration_max"
  shows "refill now cur lf mx per ival =
    (let n = (now - lf) div ival in
     ((if n = 0 then cur else min (saturating_add cur (saturating_mul (of_nat n) per)) mx), lf + ival * n))"
proof -
  define n where "n = (now - lf) div ival"
  have n: "n < 2 ^ 32" using assms(3) by (simp add: n_def)
  then have u: "unat (of_nat n :: u64) = n" by (simp add: unat_of_nat)
  have "ival * n \<le> duration_max"
    unfolding n_def by (rule order_trans [OF times_div_less_eq_dividend assms(4)])
  moreover have "min n (2 ^ 32 - 1) = n" using n by (simp add: min_def)
  ultimately show ?thesis
    using assms(1,2) by (simp add: refill_def Let_def u flip: n_def)
qed

lemma refill_bounds:
  assumes "unat cur \<le> unat mx" "lf \<le> now" "(now - lf) div ival < 2 ^ 32" "now - lf \<le> duration_max"
    "refill now cur lf mx per ival = (av, lf')" "0 < ival"
  shows "unat av + unat per * ((T - lf') div ival) \<le> unat cur + unat per * ((T - lf) div ival) \<or> T < now"
    "unat av \<le> unat mx" "lf \<le> lf'" "lf' \<le> now" "per \<noteq> 0 \<Longrightarrow> now - lf' < ival"
proof -
  define n where "n = (now - lf) div ival"
  have n_le: "ival * n \<le> now - lf"
    using div_times_less_eq_dividend [of "now - lf" ival] by (simp add: n_def mult.commute)
  have rem: "now - lf - ival * n < ival"
    using \<open>0 < ival\<close> by (simp add: n_def minus_mult_div_eq_mod)
  show "unat av \<le> unat mx" "lf \<le> lf'" "lf' \<le> now" "per \<noteq> 0 \<Longrightarrow> now - lf' < ival"
    using assms n_le rem refill_exact [OF _ assms(6,3,4), of per cur mx]
    by (cases "per = 0"; auto simp: refill_def Let_def unat_min simp flip: n_def split: if_splits)+
  show "unat av + unat per * ((T - lf') div ival) \<le> unat cur + unat per * ((T - lf) div ival) \<or> T < now"
  proof (cases "per = 0 \<or> T < now")
    case True
    then show ?thesis using assms(5) by (auto simp: refill_def)
  next
    case False
    then have per: "per \<noteq> 0" and T: "now \<le> T" by auto
    have eq: "lf' = lf + ival * n" "unat av \<le> unat cur + n * unat per"
    proof -
      have "n < 2 ^ 32" using assms(3) by (simp add: n_def)
      then have "unat (of_nat n :: u64) = n" by (simp add: unat_of_nat)
      then show "lf' = lf + ival * n" "unat av \<le> unat cur + n * unat per"
        using assms(5) refill_exact [OF per assms(6,3,4), of cur mx]
        by (auto simp: Let_def unat_min unat_saturating_add unat_saturating_mul
            simp flip: n_def split: if_splits)
    qed
    have "(T - lf') div ival + n = (T - lf) div ival"
    proof -
      have "T - lf = (T - lf') + ival * n" using eq(1) n_le T assms(2) by simp
      then show ?thesis using \<open>0 < ival\<close> by simp
    qed
    then have "unat per * ((T - lf) div ival) = unat per * ((T - lf') div ival) + n * unat per"
      by (metis distrib_left mult.commute)
    with eq(2) show ?thesis by simp
  qed
qed

text \<open>
  The assumptions the bounds make on a history: the clock does not run backwards, and
  the bucket has not been idle for more than the \<open>2^32\<close> intervals a \<open>u32\<close> counts.
\<close>

definition bucket_history :: "u64 \<Rightarrow> nat \<Rightarrow> nat \<Rightarrow> nat list \<Rightarrow> TokenBucketState \<Rightarrow> bool" where
  "bucket_history mx ival T ts tb \<longleftrightarrow>
     0 < ival \<and> sorted ts \<and> list_all (\<lambda>t. tb_last_fill tb \<le> t \<and> t \<le> T) ts
     \<and> unat (tb_tokens tb) \<le> unat mx
     \<and> (T - tb_last_fill tb) div ival < 2 ^ 32 \<and> T - tb_last_fill tb \<le> duration_max"

lemma try_acquire_history:
  assumes h: "bucket_history mx ival T (t # ts) tb" and a: "try_acquire t mx per ival tb = (ok, tb')"
  shows "bucket_history mx ival T ts tb'"
    "ok \<Longrightarrow> unat (tb_tokens tb') + 1 + unat per * ((T - tb_last_fill tb') div ival)
           \<le> unat (tb_tokens tb) + unat per * ((T - tb_last_fill tb) div ival)"
    "ok \<Longrightarrow> unat (tb_tokens tb') + 1 \<le> unat mx"
    "ok \<Longrightarrow> per \<noteq> 0 \<Longrightarrow> t - tb_last_fill tb' < ival"
    "ok \<Longrightarrow> tb_last_fill tb' \<le> t"
    "\<not> ok \<Longrightarrow> tb' = tb"
proof -
  obtain av lf where r: "refill t (tb_tokens tb) (tb_last_fill tb) mx per ival = (av, lf)"
    by (cases "refill t (tb_tokens tb) (tb_last_fill tb) mx per ival") auto
  have lt: "tb_last_fill tb \<le> t" "t \<le> T" "0 < ival" "unat (tb_tokens tb) \<le> unat mx"
    using h by (auto simp: bucket_history_def)
  have gap: "(t - tb_last_fill tb) div ival < 2 ^ 32" "t - tb_last_fill tb \<le> duration_max"
    using h lt(2) order_le_less_trans [OF div_le_mono [of "t - tb_last_fill tb" "T - tb_last_fill tb" ival]]
    by (simp_all add: bucket_history_def order_trans [OF diff_le_mono])
  note rb = refill_bounds [OF lt(4) lt(1) gap r lt(3)]
  have av: "ok \<longleftrightarrow> av \<noteq> 0" "ok \<Longrightarrow> tb' = \<lparr>tb_tokens = av - 1, tb_last_fill = lf\<rparr>"
    using a r by (auto simp: try_acquire_def split: if_splits)
  have dec: "ok \<Longrightarrow> unat (tb_tokens tb') + 1 = unat av"
    using av by (metis TokenBucketState.select_convs(1) Suc_eq_plus1 unat_minus_one unat_gt_0 Suc_pred')
  show "ok \<Longrightarrow> unat (tb_tokens tb') + 1 + unat per * ((T - tb_last_fill tb') div ival)
           \<le> unat (tb_tokens tb) + unat per * ((T - tb_last_fill tb) div ival)"
    using rb(1) [of T] dec av(2) lt(2) by simp
  show "ok \<Longrightarrow> unat (tb_tokens tb') + 1 \<le> unat mx" using rb(2) dec by simp
  show "ok \<Longrightarrow> per \<noteq> 0 \<Longrightarrow> t - tb_last_fill tb' < ival" using rb(5) av(2) by simp
  show "ok \<Longrightarrow> tb_last_fill tb' \<le> t" using rb(4) av(2) by simp
  show same: "\<not> ok \<Longrightarrow> tb' = tb" using a r av(1) by (simp add: try_acquire_def)
  show "bucket_history mx ival T ts tb'"
  proof (cases ok)
    case True
    have "(T - lf) div ival \<le> (T - tb_last_fill tb) div ival" using rb(3) by (simp add: div_le_mono)
    moreover have "list_all (\<lambda>u. lf \<le> u \<and> u \<le> T) ts"
      using h rb(4) by (auto simp: bucket_history_def list_all_iff)
    moreover have "unat (tb_tokens tb') \<le> unat mx" using dec [OF True] rb(2) by simp
    ultimately show ?thesis using h rb(3) av(2) [OF True] by (auto simp: bucket_history_def)
  next
    case False
    with same h show ?thesis by (simp add: bucket_history_def)
  qed
qed

lemma acquire_all_potential:
  "bucket_history mx ival T ts tb \<Longrightarrow>
   fst (acquire_all mx per ival ts tb)
     \<le> unat (tb_tokens tb) + unat per * ((T - tb_last_fill tb) div ival)"
proof (induction ts arbitrary: tb)
  case (Cons t ts)
  obtain ok tb' where a: "try_acquire t mx per ival tb = (ok, tb')"
    by (cases "try_acquire t mx per ival tb") auto
  note th = try_acquire_history [OF Cons.prems a]
  from Cons.IH [OF th(1)] th(2,6) a show ?case
    by (cases ok) (auto split: prod.splits)
qed simp

lemma window_div:
  assumes "t - lf < ival" "lf \<le> t" "t0 \<le> t" "0 < (ival::nat)" "t \<le> T"
  shows "(T - lf) div ival \<le> (T - t0) div ival + 1"
proof -
  have "T - lf \<le> (T - t0) + ival" using assms by linarith
  then have "(T - lf) div ival \<le> ((T - t0) + ival) div ival" by (rule div_le_mono)
  also have "\<dots> = (T - t0) div ival + 1" using assms(4) by (simp add: div_add_self2)
  finally show ?thesis .
qed

lemma acquire_all_window:
  assumes "bucket_history mx ival T ts tb" "list_all (\<lambda>t. t0 \<le> t) ts"
  shows "fst (acquire_all mx per ival ts tb) \<le> unat mx + unat per * ((T - t0) div ival + 1)"
  using assms
proof (induction ts arbitrary: tb)
  case (Cons t ts)
  obtain ok tb' where a: "try_acquire t mx per ival tb = (ok, tb')"
    by (cases "try_acquire t mx per ival tb") auto
  note th = try_acquire_history [OF Cons.prems(1) a]
  show ?case
  proof (cases ok)
    case False
    with Cons.IH [OF th(1)] Cons.prems(2) a show ?thesis by (auto split: prod.splits)
  next
    case True
    have "fst (acquire_all mx per ival ts tb') + 1
        \<le> unat mx + unat per * ((T - tb_last_fill tb') div ival)"
      using acquire_all_potential [OF th(1), of per] th(3) [OF True] by simp
    also have "\<dots> \<le> unat mx + unat per * ((T - t0) div ival + 1)"
    proof (cases "per = 0")
      case False
      have "(T - tb_last_fill tb') div ival \<le> (T - t0) div ival + 1"
        using Cons.prems window_div [OF th(4) [OF True False] th(5) [OF True]]
        by (auto simp: bucket_history_def)
      then show ?thesis by (intro add_left_mono mult_le_mono2)
    qed simp
    finally show ?thesis using True a by (auto split: prod.splits)
  qed
qed simp

text \<open>
  C25. However the calls of a window \<open>[t0, T]\<close> fall, it lets through at most a full bucket and one fill per interval that
  the window touches, provided that fewer than \<open>2^32\<close> fill intervals lie between the last fill before the window and its
  end (\<open>bucket_history\<close>); after a longer idle time it can fail (\<open>idle_bucket_overfills\<close>).
\<close>

theorem rate_limit_window_bound:
  assumes "bucket_history mx ival T ts tb" "list_all (\<lambda>t. t0 \<le> t) ts"
  shows "fst (acquire_all mx per ival ts tb) \<le> unat mx + unat per * ((T - t0) div ival + 1)"
  using assms by (rule acquire_all_window)

theorem rate_limit_window_bound_witness:
  "fst (acquire_all 2 1 10 [100, 101, 102, 109, 110, 111] (bucket_new 95 2)) \<le> 2 + 1 * ((111 - 100) div 10 + 1)
   \<and> fst (acquire_all 2 1 10 [100, 101, 102, 109, 110, 111] (bucket_new 95 2)) = 3"
proof -
  have "bucket_history 2 10 111 [100, 101, 102, 109, 110, 111] (bucket_new 95 2)"
    by (simp add: bucket_history_def bucket_new_def duration_max_def)
  moreover have "list_all (\<lambda>t. (100::nat) \<le> t) [100, 101, 102, 109, 110, 111]" by simp
  ultimately have "fst (acquire_all 2 1 10 [100, 101, 102, 109, 110, 111] (bucket_new 95 2))
      \<le> unat (2::u64) + unat (1::u64) * ((111 - 100) div 10 + 1)"
    by (rule rate_limit_window_bound)
  moreover have "fst (acquire_all 2 1 10 [100, 101, 102, 109, 110, 111] (bucket_new 95 2)) = 3"
    by (simp add: try_acquire_def refill_def bucket_new_def duration_max_def Let_def
        saturating_add_def saturating_mul_def)
  ultimately show ?thesis by simp
qed

section \<open>A refused client is served again\<close>

text \<open>
  Once an interval has passed since the last fill, a token is there: with a positive
  capacity, fill and interval, no bucket refuses for longer than one interval.
\<close>

theorem rate_limit_recovers:
  assumes "mx \<noteq> 0" "per \<noteq> 0" "0 < ival" "tb_last_fill tb + ival \<le> t"
    "(t - tb_last_fill tb) div ival < 2 ^ 64"
  shows "fst (try_acquire t mx per ival tb)"
proof -
  let ?k = "(t - tb_last_fill tb) div ival"
  have k: "?k \<noteq> 0" using assms(3,4) by (simp add: div_greater_zero_iff)
  have "unat (of_nat ?k :: u64) = ?k" using assms(5) by (simp add: unat_of_nat)
  moreover have "unat per \<noteq> 0" using assms(2) by (simp add: unat_eq_0)
  ultimately have "unat (saturating_mul (of_nat ?k) per) \<noteq> 0"
    using k by (simp add: unat_saturating_mul min_def)
  then have "unat (saturating_add (tb_tokens tb) (saturating_mul (of_nat ?k) per)) \<noteq> 0"
    by (simp add: unat_saturating_add min_def)
  moreover have "unat mx \<noteq> 0" using assms(1) by (simp add: unat_eq_0)
  ultimately have "unat (min (saturating_add (tb_tokens tb) (saturating_mul (of_nat ?k) per)) mx) \<noteq> 0"
    by (simp add: unat_min min_def)
  then have "min (saturating_add (tb_tokens tb) (saturating_mul (of_nat ?k) per)) mx \<noteq> 0"
    by (metis unat_0)
  with k assms(2,3) show ?thesis
    by (simp add: try_acquire_def refill_def Let_def del: of_nat_div)
qed

theorem rate_limit_recovers_witness:
  "fst (try_acquire 110 3 1 10 \<lparr>tb_tokens = 0, tb_last_fill = 100\<rparr>)
   \<and> \<not> fst (try_acquire 109 3 1 10 \<lparr>tb_tokens = 0, tb_last_fill = 100\<rparr>)"
proof
  show "fst (try_acquire 110 3 1 10 \<lparr>tb_tokens = 0, tb_last_fill = 100\<rparr>)"
    by (rule rate_limit_recovers) simp_all
  show "\<not> fst (try_acquire 109 3 1 10 \<lparr>tb_tokens = 0, tb_last_fill = 100\<rparr>)"
    by (simp add: try_acquire_def refill_def)
qed

section \<open>The idle bucket\<close>

text \<open>
  After \<open>2^33\<close> intervals without a request the time stamp moves by only \<open>2^32 - 1\<close>
  intervals, so the second request of a burst refills the bucket once more: a bucket of
  two tokens lets three requests of the same nanosecond through.
\<close>

lemma idle_bucket_overfills:
  "fst (acquire_all 2 2 1000 [2 ^ 33 * 1000, 2 ^ 33 * 1000, 2 ^ 33 * 1000] (bucket_new 0 2)) = 3"
  by (simp add: try_acquire_def refill_def bucket_new_def duration_max_def Let_def
      saturating_add_def saturating_mul_def)
end
