(* ===== verification/Filter_Types.thy ===== *)
theory Filter_Types
  imports Routing Token_Bucket Stats
begin

text \<open>
  What the HTTP filters of \<open>envoy-filter\<close> share (\<open>types.rs\<close>, \<open>error.rs\<close>, the
  \<open>Decision\<close> of \<open>pipeline.rs\<close>): the request and response they see, the decision they
  return, and the state they reach through shared handles.
\<close>

section \<open>Requests, responses, decisions\<close>

record FilterRequest =
  fr_method :: string
  fr_path :: string
  fr_headers :: headers
  fr_body :: "bytes option"
  fr_dynamic_metadata :: dynamic_metadata

record FilterResponse =
  fs_status :: nat
  fs_reason :: "string option"
  fs_headers :: headers
  fs_body :: bytes
  fs_details :: "string option"
  fs_headers_only :: bool

datatype Decision = Continue | StopAndSend FilterResponse

definition static_reply :: "nat \<Rightarrow> string option \<Rightarrow> string \<Rightarrow> FilterResponse" where
  "static_reply status reason body =
     \<lparr>fs_status = status, fs_reason = reason, fs_headers = [], fs_body = as_bytes body,
      fs_details = None, fs_headers_only = False\<rparr>"

definition header_ci :: "headers \<Rightarrow> string \<Rightarrow> string option" where
  "header_ci headers name =
     map_option snd (find (\<lambda>(k, _). eq_ignore_ascii_case k name) headers)"

section \<open>Errors of the construction\<close>

text \<open>
  The message of \<open>InvalidConfig\<close> is the branch that builds it, with the values it shows.
\<close>

datatype AppendAction = AppendIfExistsOrAdd | OverwriteIfExistsOrAdd | AddIfAbsent | OverwriteIfExists

datatype config_message =
    StatsRegistryMsg stats_error
  | FillIntervalNotString
  | FillIntervalMsg duration_error
  | UnsupportedAppendAction AppendAction
  | RegexMsg ConfigError
  | L4OnlyMatcher
  | ProviderMsg string

datatype FilterError = EmptyChain | InvalidConfig config_message

definition filter_register_counter :: "stats \<Rightarrow> string \<Rightarrow> (FilterError + nat) \<times> stats" where
  "filter_register_counter registry name =
     (case register_counter name registry of
        (Inr a, st) \<Rightarrow> (Inr a, st)
      | (Inl e, st) \<Rightarrow> (Inl (InvalidConfig (StatsRegistryMsg e)), st))"

text \<open>Registration of several counters in order, the first failure ending it (\<open>?\<close>).\<close>

fun register_all :: "stats \<Rightarrow> string list \<Rightarrow> (FilterError + nat list) \<times> stats" where
  "register_all st [] = (Inr [], st)"
| "register_all st (n # ns) =
     (case filter_register_counter st n of
        (Inl e, st') \<Rightarrow> (Inl e, st')
      | (Inr a, st') \<Rightarrow>
          (case register_all st' ns of
             (Inl e, st'') \<Rightarrow> (Inl e, st'')
           | (Inr as, st'') \<Rightarrow> (Inr (a # as), st'')))"

section \<open>What filters share\<close>

text \<open>
  The state behind the \<open>Arc\<close>s of the filters: the counters and the token buckets, a
  bucket being named by its index. The two clocks are the readings the filter would make:
  nanoseconds on the monotonic clock and seconds since the epoch.
\<close>

record world =
  w_stats :: stats
  w_buckets :: "TokenBucketState list"
  w_now :: nat
  w_unix :: nat

definition w_inc :: "nat \<Rightarrow> world \<Rightarrow> world" where
  "w_inc a w = w\<lparr>w_stats := counter_inc a (w_stats w)\<rparr>"

section \<open>Facts\<close>

lemma header_ci_Nil [simp]: "header_ci [] n = None"
  by (simp add: header_ci_def)

lemma header_ci_Cons [simp]:
  "header_ci ((k, v) # hs) n = (if eq_ignore_ascii_case k n then Some v else header_ci hs n)"
  by (simp add: header_ci_def)

text \<open>The lookup of the filters and the one of the matchers are the same.\<close>

lemma header_ci_find_header: "header_ci hs n = find_header hs n"
  by (induction hs) auto

lemma header_ci_append:
  "header_ci (xs @ ys) n = (case header_ci xs n of None \<Rightarrow> header_ci ys n | Some v \<Rightarrow> Some v)"
  by (induction xs) auto

lemma filter_register_counter_wf:
  "stats_wf st \<Longrightarrow> filter_register_counter st n = (r, st') \<Longrightarrow> stats_wf st'"
  using register_counter_wf [of st n]
  by (auto simp: filter_register_counter_def split: prod.splits sum.splits)

lemma register_all_wf [wf_keep]:
  "stats_wf st \<Longrightarrow> register_all st ns = (r, st') \<Longrightarrow> stats_wf st'"
proof (induction ns arbitrary: st r)
  case (Cons n ns)
  obtain r1 st1 where r1: "filter_register_counter st n = (r1, st1)"
    by (cases "filter_register_counter st n") auto
  note w = filter_register_counter_wf [OF Cons.prems(1) r1]
  with Cons.prems(2) Cons.IH [OF w] r1 show ?case
    by (cases r1) (auto split: prod.splits sum.splits)
qed simp

lemma register_all_length: "register_all st ns = (Inr as, st') \<Longrightarrow> length as = length ns"
  by (induction st ns arbitrary: as st' rule: register_all.induct)
    (auto split: prod.splits sum.splits)

end
