(* ===== verification/Http_Filters.thy ===== *)
theory Http_Filters
  imports Filter_Types
begin

text \<open>
  The filters of \<open>envoy-filter\<close> that have no parser or policy engine of their own: router,
  header mutation, local rate limit, fault injection, CORS, CSRF, buffer, set-metadata,
  header-to-metadata and health check. Each has its configuration (\<open>bootstrap.rs\<close>), its
  construction, its decode and encode step and the check the validator makes. A step that
  can hit the \<open>expect\<close> of an uncompiled regex returns \<open>None\<close> there.
\<close>

definition filter_stat :: "string \<Rightarrow> string \<Rightarrow> string" where
  "filter_stat hcm_stat_prefix s = ''http.'' @ hcm_stat_prefix @ ''.'' @ s"

section \<open>Header mutation (header_mutation.rs)\<close>

record HeaderValueOption =
  hv_key :: string
  hv_value :: string
  hv_append_action :: AppendAction

record HeaderMutationConfig =
  hm_request_mutations :: "HeaderValueOption list"
  hm_response_mutations :: "HeaderValueOption list"

datatype RuntimeAppendAction = Append | Overwrite

record RuntimeHeaderMutation =
  mut_key :: string
  mut_value :: string
  mut_action :: RuntimeAppendAction

record HeaderMutationFilter =
  request_mutations :: "RuntimeHeaderMutation list"
  response_mutations :: "RuntimeHeaderMutation list"

definition map_entry :: "HeaderValueOption \<Rightarrow> FilterError + RuntimeHeaderMutation" where
  "map_entry entry =
     (let mk = (\<lambda>a. \<lparr>mut_key = str_to_ascii_lowercase (hv_key entry), mut_value = hv_value entry,
                     mut_action = a\<rparr>) in
      case hv_append_action entry of
        AppendIfExistsOrAdd \<Rightarrow> Inr (mk Append)
      | OverwriteIfExistsOrAdd \<Rightarrow> Inr (mk Overwrite)
      | unsupported \<Rightarrow> Inl (InvalidConfig (UnsupportedAppendAction unsupported)))"

definition header_mutation_build :: "HeaderMutationConfig \<Rightarrow> FilterError + HeaderMutationFilter" where
  "header_mutation_build cfg =
     (case traverse map_entry (hm_request_mutations cfg) of
        Inl e \<Rightarrow> Inl e
      | Inr reqs \<Rightarrow> (case traverse map_entry (hm_response_mutations cfg) of
          Inl e \<Rightarrow> Inl e
        | Inr resps \<Rightarrow> Inr \<lparr>request_mutations = reqs, response_mutations = resps\<rparr>))"

definition apply_mutation :: "headers \<Rightarrow> RuntimeHeaderMutation \<Rightarrow> headers" where
  "apply_mutation hs m =
     (case mut_action m of
        Append \<Rightarrow> hs @ [(mut_key m, mut_value m)]
      | Overwrite \<Rightarrow>
          filter (\<lambda>(k, _). str_to_ascii_lowercase k \<noteq> mut_key m) hs @ [(mut_key m, mut_value m)])"

definition apply_mutations :: "headers \<Rightarrow> RuntimeHeaderMutation list \<Rightarrow> headers" where
  "apply_mutations hs ms = foldl apply_mutation hs ms"

definition header_mutation_decode :: "HeaderMutationFilter \<Rightarrow> FilterRequest \<Rightarrow> FilterRequest" where
  "header_mutation_decode f req = req\<lparr>fr_headers := apply_mutations (fr_headers req) (request_mutations f)\<rparr>"

definition header_mutation_encode :: "HeaderMutationFilter \<Rightarrow> FilterResponse \<Rightarrow> FilterResponse" where
  "header_mutation_encode f resp = resp\<lparr>fs_headers := apply_mutations (fs_headers resp) (response_mutations f)\<rparr>"

section \<open>Local rate limit (local_rate_limit.rs)\<close>

text \<open>\<open>lrl_fill_interval\<close> is \<open>as_str\<close> of the YAML value.\<close>

record LocalRateLimitConfig =
  lrl_stat_prefix :: string
  lrl_max_tokens :: nat
  lrl_tokens_per_fill :: nat
  lrl_fill_interval :: "string option"
  lrl_response_headers_to_add :: "HeaderValueOption list"
  lrl_status :: nat

record LocalRateLimitFilter =
  lf_bucket :: nat
  lf_max_tokens :: u64
  lf_tokens_per_fill :: u64
  lf_fill_interval :: nat
  lf_response_headers_to_add :: headers
  lf_enabled :: nat
  lf_ok :: nat
  lf_rate_limited :: nat
  lf_enforced :: nat

definition local_rate_limit_build ::
    "LocalRateLimitConfig \<Rightarrow> world \<Rightarrow> (FilterError + LocalRateLimitFilter) \<times> world" where
  "local_rate_limit_build cfg w =
     (case lrl_fill_interval cfg of
        None \<Rightarrow> (Inl (InvalidConfig FillIntervalNotString), w)
      | Some fill_str \<Rightarrow> (case parse_duration fill_str of
          Inl m \<Rightarrow> (Inl (InvalidConfig (FillIntervalMsg m)), w)
        | Inr micros \<Rightarrow>
            (case register_all (w_stats w)
                    (map (\<lambda>s. ''http_local_rate_limit.'' @ lrl_stat_prefix cfg @ ''.'' @ s)
                       [''enabled'', ''ok'', ''rate_limited'', ''enforced'']) of
               (Inr cs, st) \<Rightarrow>
                 (Inr \<lparr>lf_bucket = length (w_buckets w), lf_max_tokens = of_nat (lrl_max_tokens cfg),
                       lf_tokens_per_fill = of_nat (lrl_tokens_per_fill cfg),
                       lf_fill_interval = micros * 1000,
                       lf_response_headers_to_add =
                         map (\<lambda>h. (hv_key h, hv_value h)) (lrl_response_headers_to_add cfg),
                       lf_enabled = cs ! 0, lf_ok = cs ! 1, lf_rate_limited = cs ! 2, lf_enforced = cs ! 3\<rparr>,
                  w\<lparr>w_stats := st,
                    w_buckets := w_buckets w @ [bucket_new (w_now w) (of_nat (lrl_max_tokens cfg))]\<rparr>)
             | (Inl e, st) \<Rightarrow> (Inl e, w\<lparr>w_stats := st\<rparr>))))"

definition local_rate_limit_decode :: "LocalRateLimitFilter \<Rightarrow> world \<Rightarrow> Decision \<times> world" where
  "local_rate_limit_decode f w0 =
     (let w = w_inc (lf_enabled f) w0;
          (ok, tb) = try_acquire (w_now w) (lf_max_tokens f) (lf_tokens_per_fill f)
                       (lf_fill_interval f) (w_buckets w ! lf_bucket f);
          w' = w\<lparr>w_buckets := (w_buckets w)[lf_bucket f := tb]\<rparr> in
      if ok then (Continue, w_inc (lf_ok f) w')
      else (StopAndSend
              \<lparr>fs_status = 429, fs_reason = Some ''Too Many Requests'',
               fs_headers = lf_response_headers_to_add f, fs_body = as_bytes ''local_rate_limited'',
               fs_details = None, fs_headers_only = False\<rparr>,
            w_inc (lf_enforced f) (w_inc (lf_rate_limited f) w')))"

section \<open>Fault injection (fault.rs)\<close>

record FaultConfig =
  fault_http_status :: nat
  fault_percentage :: FractionalPercent
  fault_headers :: "HeaderMatcher list"

record FaultFilter =
  abort_status :: nat
  abort_selects :: bool
  header_gate :: "HeaderMatcher list"
  aborts_injected :: nat

definition fault_build :: "FaultConfig \<Rightarrow> string \<Rightarrow> stats \<Rightarrow> (FilterError + FaultFilter) \<times> stats" where
  "fault_build cfg pfx st =
     (case filter_register_counter st (filter_stat pfx ''fault.aborts_injected'') of
        (Inl e, st') \<Rightarrow> (Inl e, st')
      | (Inr a, st') \<Rightarrow>
          (Inr \<lparr>abort_status = fault_http_status cfg,
                abort_selects = selects_deterministic (fault_percentage cfg),
                header_gate = fault_headers cfg, aborts_injected = a\<rparr>, st'))"

definition header_gate_matches :: "HeaderMatcher list \<Rightarrow> FilterRequest \<Rightarrow> bool option" where
  "header_gate_matches gate req = all_opt (\<lambda>m. header_matches m (fr_headers req)) gate"

definition fault_decode :: "FaultFilter \<Rightarrow> FilterRequest \<Rightarrow> world \<Rightarrow> (Decision \<times> world) option" where
  "fault_decode f req w =
     (case header_gate_matches (header_gate f) req of
        None \<Rightarrow> None
      | Some b \<Rightarrow>
          if b \<and> abort_selects f then
            Some (StopAndSend (static_reply (abort_status f) None ''fault filter abort''),
                  w_inc (aborts_injected f) w)
          else Some (Continue, w))"

section \<open>CORS (cors.rs)\<close>

record CompiledCorsPolicy =
  ccp_allow_origin :: "StringMatcher list"
  ccp_allow_methods :: "string option"
  ccp_allow_headers :: "string option"
  ccp_expose_headers :: "string option"
  ccp_max_age :: "string option"
  ccp_allow_credentials :: bool

definition compiled_cors_from :: "CorsPolicy \<Rightarrow> CompiledCorsPolicy" where
  "compiled_cors_from p =
     \<lparr>ccp_allow_origin = allow_origin_string_match p, ccp_allow_methods = allow_methods p,
      ccp_allow_headers = allow_headers p, ccp_expose_headers = expose_headers p,
      ccp_max_age = max_age p,
      ccp_allow_credentials = (case allow_credentials p of None \<Rightarrow> False | Some b \<Rightarrow> b)\<rparr>"

record CorsFilter =
  origin_valid :: nat
  origin_invalid :: nat
  cors_active_policy :: "CompiledCorsPolicy option"
  decorate_origin :: "string option"

definition cors_build :: "string \<Rightarrow> stats \<Rightarrow> (FilterError + CorsFilter) \<times> stats" where
  "cors_build pfx st =
     (case filter_register_counter st (filter_stat pfx ''cors.origin_valid'') of
        (Inl e, st') \<Rightarrow> (Inl e, st')
      | (Inr a, st') \<Rightarrow>
          (case filter_register_counter st' (filter_stat pfx ''cors.origin_invalid'') of
             (Inl e, st'') \<Rightarrow> (Inl e, st'')
           | (Inr b, st'') \<Rightarrow>
               (Inr \<lparr>origin_valid = a, origin_invalid = b, cors_active_policy = None,
                     decorate_origin = None\<rparr>, st'')))"

definition per_filter :: "Route option \<Rightarrow> string \<Rightarrow> PerFilterConfig option" where
  "per_filter route name = Option.bind route (\<lambda>r. bt_get (typed_per_filter_config r) name)"

definition cors_apply_route :: "CorsFilter \<Rightarrow> Route option \<Rightarrow> CorsFilter" where
  "cors_apply_route f route =
     f\<lparr>cors_active_policy :=
        (case per_filter route ''envoy.filters.http.cors'' of
           Some (PfcCors p) \<Rightarrow> Some (compiled_cors_from p)
         | _ \<Rightarrow> None)\<rparr>"

definition opt_header :: "string \<Rightarrow> string option \<Rightarrow> headers" where
  "opt_header k v = (case v of None \<Rightarrow> [] | Some x \<Rightarrow> [(k, x)])"

definition credentials_header :: "CompiledCorsPolicy \<Rightarrow> headers" where
  "credentials_header p =
     (if ccp_allow_credentials p then [(''access-control-allow-credentials'', ''true'')] else [])"

definition build_preflight_response :: "CompiledCorsPolicy \<Rightarrow> string \<Rightarrow> FilterResponse" where
  "build_preflight_response p origin =
     \<lparr>fs_status = 200, fs_reason = Some ''OK'',
      fs_headers =
        [(''access-control-allow-origin'', origin)] @ credentials_header p
        @ opt_header ''access-control-allow-methods'' (ccp_allow_methods p)
        @ opt_header ''access-control-allow-headers'' (ccp_allow_headers p)
        @ opt_header ''access-control-max-age'' (ccp_max_age p)
        @ opt_header ''access-control-expose-headers'' (ccp_expose_headers p),
      fs_body = [], fs_details = None, fs_headers_only = False\<rparr>"

definition cors_decode ::
    "CorsFilter \<Rightarrow> FilterRequest \<Rightarrow> world \<Rightarrow> (Decision \<times> CorsFilter \<times> world) option" where
  "cors_decode f req w =
     (case cors_active_policy f of
        None \<Rightarrow> Some (Continue, f, w)
      | Some policy \<Rightarrow>
          (case header_ci (fr_headers req) ''origin'' of
             None \<Rightarrow> Some (Continue, f, w)
           | Some origin \<Rightarrow>
               (case any_opt (\<lambda>m. string_matches m origin) (ccp_allow_origin policy) of
                  None \<Rightarrow> None
                | Some allowed \<Rightarrow>
                    let w' = w_inc (if allowed then origin_valid f else origin_invalid f) w;
                        is_preflight = eq_ignore_ascii_case (fr_method req) ''OPTIONS''
                          \<and> header_ci (fr_headers req) ''access-control-request-method'' \<noteq> None in
                    if is_preflight \<and> allowed
                    then Some (StopAndSend (build_preflight_response policy origin), f, w')
                    else if allowed \<and> \<not> is_preflight
                    then Some (Continue, f\<lparr>decorate_origin := Some origin\<rparr>, w')
                    else Some (Continue, f, w'))))"

text \<open>The origin is taken out of the filter even when no policy is active.\<close>

definition cors_encode :: "CorsFilter \<Rightarrow> FilterResponse \<Rightarrow> CorsFilter \<times> FilterResponse" where
  "cors_encode f resp =
     (f\<lparr>decorate_origin := None\<rparr>,
      (case (cors_active_policy f, decorate_origin f) of
         (Some p, Some origin) \<Rightarrow>
           resp\<lparr>fs_headers := fs_headers resp @ [(''access-control-allow-origin'', origin)]
                  @ credentials_header p
                  @ opt_header ''access-control-expose-headers'' (ccp_expose_headers p)\<rparr>
       | _ \<Rightarrow> resp))"

section \<open>CSRF (csrf.rs)\<close>

record CompiledCsrfPolicy =
  csp_enabled :: bool
  csp_additional_origins :: "StringMatcher list"

definition compiled_csrf_from :: "CsrfPolicy \<Rightarrow> CompiledCsrfPolicy" where
  "compiled_csrf_from p =
     \<lparr>csp_enabled = selects_deterministic (default_value (filter_enabled p)),
      csp_additional_origins = additional_origins p\<rparr>"

record CsrfFilter =
  request_valid :: nat
  request_invalid :: nat
  missing_source_origin :: nat
  csrf_base_policy :: CompiledCsrfPolicy
  csrf_active_policy :: CompiledCsrfPolicy

definition csrf_build :: "CsrfPolicy \<Rightarrow> string \<Rightarrow> stats \<Rightarrow> (FilterError + CsrfFilter) \<times> stats" where
  "csrf_build cfg pfx st =
     (case register_all st (map (\<lambda>s. filter_stat pfx (''csrf.'' @ s))
             [''request_valid'', ''request_invalid'', ''missing_source_origin'']) of
        (Inl e, st') \<Rightarrow> (Inl e, st')
      | (Inr cs, st') \<Rightarrow>
          (Inr \<lparr>request_valid = cs ! 0, request_invalid = cs ! 1, missing_source_origin = cs ! 2,
                csrf_base_policy = compiled_csrf_from cfg,
                csrf_active_policy = compiled_csrf_from cfg\<rparr>, st'))"

definition csrf_apply_route :: "CsrfFilter \<Rightarrow> Route option \<Rightarrow> CsrfFilter" where
  "csrf_apply_route f route =
     f\<lparr>csrf_active_policy :=
        (case per_filter route ''envoy.filters.http.csrf'' of
           Some (PfcCsrf p) \<Rightarrow> compiled_csrf_from p
         | _ \<Rightarrow> csrf_base_policy f)\<rparr>"

definition MODIFY_METHODS :: "string list" where
  "MODIFY_METHODS = [''POST'', ''PUT'', ''DELETE'', ''PATCH'']"

definition failure_response :: FilterResponse where
  "failure_response = static_reply 403 (Some ''Forbidden'') ''Invalid origin''"

fun split_once_str :: "string \<Rightarrow> string \<Rightarrow> (string \<times> string) option" where
  "split_once_str sep [] = (if sep = [] then Some ([], []) else None)"
| "split_once_str sep (c # s) =
     (if starts_with (c # s) sep then Some ([], drop (length sep) (c # s))
      else map_option (\<lambda>(a, b). (c # a, b)) (split_once_str sep s))"

definition host_and_port :: "string \<Rightarrow> string" where
  "host_and_port value =
     (case split_once_str ''://'' value of
        Some (_, rest) \<Rightarrow> takeWhile (\<lambda>c. c \<notin> {CHR ''/'', CHR ''?'', CHR ''#''}) rest
      | None \<Rightarrow> value)"

definition csrf_source :: "headers \<Rightarrow> string option" where
  "csrf_source hs =
     (case (case header_ci hs ''origin'' of Some v \<Rightarrow> Some v | None \<Rightarrow> header_ci hs ''referer'') of
        None \<Rightarrow> None
      | Some v \<Rightarrow> if host_and_port v = [] then None else Some (host_and_port v))"

definition csrf_target :: "headers \<Rightarrow> string" where
  "csrf_target hs = (case header_ci hs ''host'' of None \<Rightarrow> [] | Some v \<Rightarrow> host_and_port v)"

definition csrf_decode :: "CsrfFilter \<Rightarrow> FilterRequest \<Rightarrow> world \<Rightarrow> (Decision \<times> world) option" where
  "csrf_decode f req w =
     (if \<not> csp_enabled (csrf_active_policy f) then Some (Continue, w)
      else if \<not> list_ex (\<lambda>m. fr_method req = m) MODIFY_METHODS then Some (Continue, w)
      else case csrf_source (fr_headers req) of
        None \<Rightarrow> Some (StopAndSend failure_response, w_inc (missing_source_origin f) w)
      | Some source \<Rightarrow>
          (case (if source = csrf_target (fr_headers req) then Some True
                 else any_opt (\<lambda>m. string_matches m source)
                        (csp_additional_origins (csrf_active_policy f))) of
             None \<Rightarrow> None
           | Some True \<Rightarrow> Some (Continue, w_inc (request_valid f) w)
           | Some False \<Rightarrow> Some (StopAndSend failure_response, w_inc (request_invalid f) w)))"

section \<open>Buffer (buffer.rs)\<close>

datatype Effective = Disabled | Limit nat

record BufferFilter =
  base_max :: nat
  effective :: Effective

definition buffer_new :: "nat \<Rightarrow> BufferFilter" where
  "buffer_new max_request_bytes = \<lparr>base_max = max_request_bytes, effective = Limit max_request_bytes\<rparr>"

definition buffer_apply_route :: "BufferFilter \<Rightarrow> Route option \<Rightarrow> BufferFilter" where
  "buffer_apply_route f route =
     f\<lparr>effective :=
        (case per_filter route ''envoy.filters.http.buffer'' of
           Some (PfcBuffer bpr) \<Rightarrow>
             if bpr_disabled bpr then Disabled
             else (case bpr_max_request_bytes bpr of Some n \<Rightarrow> Limit n | None \<Rightarrow> Limit (base_max f))
         | _ \<Rightarrow> Limit (base_max f))\<rparr>"

definition over_limit_response :: FilterResponse where
  "over_limit_response = static_reply 413 (Some ''Payload Too Large'') ''Payload Too Large''"

definition buffer_decode :: "BufferFilter \<Rightarrow> FilterRequest \<Rightarrow> Decision" where
  "buffer_decode f req =
     (case effective f of
        Disabled \<Rightarrow> Continue
      | Limit limit \<Rightarrow>
          if (case fr_body req of None \<Rightarrow> 0 | Some b \<Rightarrow> length b) > limit
          then StopAndSend over_limit_response else Continue)"

section \<open>Set metadata (set_metadata.rs)\<close>

record MetadataEntry =
  me_namespace :: string
  me_value :: "(string, string) btmap"
  me_allow_overwrite :: bool

definition md_namespace :: "dynamic_metadata \<Rightarrow> string \<Rightarrow> (string, string) btmap" where
  "md_namespace md ns = (case bt_get md ns of None \<Rightarrow> bt_empty | Some m \<Rightarrow> m)"

definition set_metadata_entry :: "dynamic_metadata \<Rightarrow> MetadataEntry \<Rightarrow> dynamic_metadata" where
  "set_metadata_entry md e =
     bt_insert (me_namespace e)
       (foldl (\<lambda>ns (k, v). if me_allow_overwrite e \<or> bt_get ns k = None then bt_insert k v ns else ns)
          (md_namespace md (me_namespace e)) (bt_entries (me_value e)))
       md"

definition set_metadata_decode :: "MetadataEntry list \<Rightarrow> FilterRequest \<Rightarrow> FilterRequest" where
  "set_metadata_decode entries req =
     req\<lparr>fr_dynamic_metadata := foldl set_metadata_entry (fr_dynamic_metadata req) entries\<rparr>"

section \<open>Header to metadata (header_to_metadata.rs)\<close>

record HeaderToMetadataKeyValue =
  kv_namespace :: string
  kv_key :: string
  kv_value :: "string option"

record HeaderToMetadataRule =
  rule_header :: string
  on_header_present :: "HeaderToMetadataKeyValue option"
  on_header_missing :: "HeaderToMetadataKeyValue option"

definition h2m_action :: "headers \<Rightarrow> HeaderToMetadataRule \<Rightarrow> (HeaderToMetadataKeyValue \<times> string) option" where
  "h2m_action hs rule =
     (case header_ci hs (rule_header rule) of
        Some v \<Rightarrow> if v \<noteq> [] then map_option (\<lambda>kv. (kv, v)) (on_header_present rule) else None
      | None \<Rightarrow> map_option (\<lambda>kv. (kv, case kv_value kv of None \<Rightarrow> [] | Some v \<Rightarrow> v)) (on_header_missing rule))"

definition h2m_rule :: "headers \<Rightarrow> dynamic_metadata \<Rightarrow> HeaderToMetadataRule \<Rightarrow> dynamic_metadata" where
  "h2m_rule hs md rule =
     (case h2m_action hs rule of
        None \<Rightarrow> md
      | Some (kv, header_value) \<Rightarrow>
          bt_insert (kv_namespace kv)
            (bt_insert (kv_key kv) (case kv_value kv of Some v \<Rightarrow> v | None \<Rightarrow> header_value)
               (md_namespace md (kv_namespace kv)))
            md)"

definition header_to_metadata_decode :: "HeaderToMetadataRule list \<Rightarrow> FilterRequest \<Rightarrow> FilterRequest" where
  "header_to_metadata_decode rules req =
     req\<lparr>fr_dynamic_metadata := foldl (h2m_rule (fr_headers req)) (fr_dynamic_metadata req) rules\<rparr>"

section \<open>Health check (health_check.rs)\<close>

record HealthCheckFilterConfig =
  pass_through_mode :: bool
  hc_headers :: "HeaderMatcher list"
  cache_time_set :: bool
  cluster_min_healthy_percentages_set :: bool
  hc_local_cluster :: string

record HealthCheckFilter =
  hcf_headers :: "HeaderMatcher list"
  local_cluster :: string
  request_total :: nat
  hcf_ok :: nat

definition STAT_NAMES :: "string list" where
  "STAT_NAMES = [''cached_response'', ''degraded'', ''failed'', ''failed_cluster_empty'',
     ''failed_cluster_not_found'', ''failed_cluster_unhealthy'', ''ok'', ''request_total'']"

definition lift_regex :: "ConfigError + 'a \<Rightarrow> FilterError + 'a" where
  "lift_regex r = (case r of Inl e \<Rightarrow> Inl (InvalidConfig (RegexMsg e)) | Inr x \<Rightarrow> Inr x)"

text \<open>The counters \<open>request_total\<close> and \<open>ok\<close> are the last and the last but one.\<close>

definition health_check_build ::
    "(string \<Rightarrow> (string \<Rightarrow> bool) option) \<Rightarrow> HealthCheckFilterConfig \<Rightarrow> string \<Rightarrow> stats
     \<Rightarrow> (FilterError + HealthCheckFilter) \<times> stats" where
  "health_check_build regex_new cfg pfx st =
     (case traverse (\<lambda>m. lift_regex (compile_header_matcher regex_new m)) (hc_headers cfg) of
        Inl e \<Rightarrow> (Inl e, st)
      | Inr hs \<Rightarrow>
          (case register_all st (map (\<lambda>n. filter_stat pfx (''health_check.'' @ n)) STAT_NAMES) of
             (Inl e, st') \<Rightarrow> (Inl e, st')
           | (Inr cs, st') \<Rightarrow>
               (Inr \<lparr>hcf_headers = hs, local_cluster = hc_local_cluster cfg,
                     request_total = cs ! 7, hcf_ok = cs ! 6\<rparr>, st')))"

definition health_check_matches :: "HealthCheckFilter \<Rightarrow> FilterRequest \<Rightarrow> bool option" where
  "health_check_matches f req =
     all_opt (\<lambda>m. header_matches m
        (if eq_ignore_ascii_case (hm_name m) '':path'' then [('':path'', fr_path req)]
         else fr_headers req)) (hcf_headers f)"

definition health_check_decode ::
    "HealthCheckFilter \<Rightarrow> FilterRequest \<Rightarrow> world \<Rightarrow> (Decision \<times> world) option" where
  "health_check_decode f req w =
     (case health_check_matches f req of
        None \<Rightarrow> None
      | Some False \<Rightarrow> Some (Continue, w)
      | Some True \<Rightarrow>
          Some (StopAndSend
                  \<lparr>fs_status = 200, fs_reason = None,
                   fs_headers = [(''x-envoy-upstream-healthchecked-cluster'', local_cluster f)],
                   fs_body = [], fs_details = Some ''health_check_ok'', fs_headers_only = True\<rparr>,
                w_inc (hcf_ok f) (w_inc (request_total f) w)))"

definition answered_by_health_check :: "string option \<Rightarrow> bool" where
  "answered_by_health_check details \<longleftrightarrow> details = Some ''health_check_ok''"
end
