(* ===== verification/Rbac.thy ===== *)
theory Rbac
  imports Http_Filters
begin

text \<open>
  Role-based access control: the policy schema and its validation
  (\<open>envoy-config/src/bootstrap.rs\<close>), the HTTP filter that lowers the policies to matchers and
  evaluates them (\<open>envoy-filter/src/rbac.rs\<close>), and the network filter that evaluates the
  same policies on a connection (\<open>envoy-bin/src/network_rbac.rs\<close>).
\<close>

section \<open>Address ranges\<close>

text \<open>An \<open>IpAddr\<close> is its octets: four for IPv4, sixteen for IPv6.\<close>

datatype IpAddr = V4 "u8 list" | V6 "u8 list"

fun ip_wf :: "IpAddr \<Rightarrow> bool" where
  "ip_wf (V4 os) = (length os = 4)"
| "ip_wf (V6 os) = (length os = 16)"

record CidrRange =
  address_prefix :: IpAddr
  prefix_len :: u8

definition mapped_prefix :: "u8 list" where
  "mapped_prefix = replicate 10 0 @ [255, 255]"

fun canonical_ip :: "IpAddr \<Rightarrow> IpAddr" where
  "canonical_ip (V6 os) = (if take 12 os = mapped_prefix then V4 (drop 12 os) else V6 os)"
| "canonical_ip (V4 os) = V4 os"

definition cidr_validate :: "CidrRange \<Rightarrow> bool" where
  "cidr_validate c \<longleftrightarrow>
     (case canonical_ip (address_prefix c) of
        V4 _ \<Rightarrow> prefix_len c \<le> 32 | V6 _ \<Rightarrow> prefix_len c \<le> 128)"

text \<open>
  Indexing out of range panics (\<open>None\<close>). The guard of the source excludes \<open>full > len\<close>, which
  leaves \<open>full = len\<close> with a remainder.
\<close>

definition prefix_match :: "u8 list \<Rightarrow> u8 list \<Rightarrow> u8 \<Rightarrow> bool option" where
  "prefix_match net addr plen =
     (let bits = unat plen; full = bits div 8; rem = bits mod 8 in
      if full > length net \<or> full > length addr then Some False
      else if take full net \<noteq> take full addr then Some False
      else if rem = 0 then Some True
      else if full < length net \<and> full < length addr then
        let mask = push_bit (8 - rem) (255 :: u8) in
        Some (and (net ! full) mask = and (addr ! full) mask)
      else None)"

definition cidr_contains :: "CidrRange \<Rightarrow> IpAddr \<Rightarrow> bool option" where
  "cidr_contains c addr =
     (case (canonical_ip (address_prefix c), canonical_ip addr) of
        (V4 net, V4 a) \<Rightarrow> prefix_match net a (prefix_len c)
      | (V6 net, V6 a) \<Rightarrow> prefix_match net a (prefix_len c)
      | _ \<Rightarrow> Some False)"

section \<open>Policies\<close>

datatype Action = Allow | Deny

datatype Permission =
    PermAny bool
  | PermHeader HeaderMatcher
  | AndRules "Permission list"
  | OrRules "Permission list"
  | NotRule Permission
  | PermMetadata MetadataMatcher
  | PermUrlPath StringMatcher
  | DestinationIp CidrRange
  | DestinationPort nat

datatype Principal =
    PrinAny bool
  | PrinHeader HeaderMatcher
  | AndIds "Principal list"
  | OrIds "Principal list"
  | NotId Principal
  | PrinMetadata MetadataMatcher
  | PrinUrlPath StringMatcher
  | DirectRemoteIp CidrRange
  | RemoteIp CidrRange
  | SourceIp CidrRange

record Policy =
  permissions :: "Permission list"
  principals :: "Principal list"

record Rules =
  rules_action :: Action
  policies :: "(string, Policy) btmap"

section \<open>Validation\<close>

definition RBAC_TREE_MAX_DEPTH :: nat where
  "RBAC_TREE_MAX_DEPTH = 16"

definition validate_metadata_matcher :: "MetadataMatcher \<Rightarrow> string \<Rightarrow> string \<Rightarrow> string \<Rightarrow> ConfigError + unit" where
  "validate_metadata_matcher m listener policy path =
     (if mm_filter m = [] \<or> length (mm_path m) \<noteq> 1
      then Inl (HttpFilterConfig (RbacMetadataMatcherInvalid listener policy path))
      else Inr ())"

definition idx_seg :: "string \<Rightarrow> string \<Rightarrow> nat \<Rightarrow> string" where
  "idx_seg path field i = path @ ''.'' @ field @ ''['' @ show_nat i @ '']''"

fun validate_permission_tree :: "Permission \<Rightarrow> string \<Rightarrow> string \<Rightarrow> string \<Rightarrow> nat \<Rightarrow> ConfigError + unit"
and validate_permission_list :: "Permission list \<Rightarrow> nat \<Rightarrow> string \<Rightarrow> string \<Rightarrow> string \<Rightarrow> nat \<Rightarrow> ConfigError + unit" where
  "validate_permission_tree node listener policy path depth =
     (if depth > RBAC_TREE_MAX_DEPTH then Inl (HttpFilterConfig (RbacTreeTooDeep listener policy depth))
      else case node of
        AndRules kids \<Rightarrow>
          if kids = [] then Inl (HttpFilterConfig (EmptyRbacPermissionSet listener policy path))
          else validate_permission_list kids 0 listener policy path (depth + 1)
      | OrRules kids \<Rightarrow>
          if kids = [] then Inl (HttpFilterConfig (EmptyRbacPermissionSet listener policy path))
          else validate_permission_list kids 0 listener policy path (depth + 1)
      | NotRule child \<Rightarrow> validate_permission_tree child listener policy (path @ ''.not_rule'') (depth + 1)
      | PermMetadata m \<Rightarrow> validate_metadata_matcher m listener policy path
      | _ \<Rightarrow> Inr ())"
| "validate_permission_list [] i listener policy path depth = Inr ()"
| "validate_permission_list (c # cs) i listener policy path depth =
     (case validate_permission_tree c listener policy (idx_seg path ''rules'' i) depth of
        Inl e \<Rightarrow> Inl e
      | Inr _ \<Rightarrow> validate_permission_list cs (i + 1) listener policy path depth)"

fun validate_principal_tree :: "Principal \<Rightarrow> string \<Rightarrow> string \<Rightarrow> string \<Rightarrow> nat \<Rightarrow> ConfigError + unit"
and validate_principal_list :: "Principal list \<Rightarrow> nat \<Rightarrow> string \<Rightarrow> string \<Rightarrow> string \<Rightarrow> nat \<Rightarrow> ConfigError + unit" where
  "validate_principal_tree node listener policy path depth =
     (if depth > RBAC_TREE_MAX_DEPTH then Inl (HttpFilterConfig (RbacTreeTooDeep listener policy depth))
      else case node of
        AndIds kids \<Rightarrow>
          if kids = [] then Inl (HttpFilterConfig (EmptyRbacPrincipalSet listener policy path))
          else validate_principal_list kids 0 listener policy path (depth + 1)
      | OrIds kids \<Rightarrow>
          if kids = [] then Inl (HttpFilterConfig (EmptyRbacPrincipalSet listener policy path))
          else validate_principal_list kids 0 listener policy path (depth + 1)
      | NotId child \<Rightarrow> validate_principal_tree child listener policy (path @ ''.not_id'') (depth + 1)
      | PrinMetadata m \<Rightarrow> validate_metadata_matcher m listener policy path
      | _ \<Rightarrow> Inr ())"
| "validate_principal_list [] i listener policy path depth = Inr ()"
| "validate_principal_list (c # cs) i listener policy path depth =
     (case validate_principal_tree c listener policy (idx_seg path ''ids'' i) depth of
        Inl e \<Rightarrow> Inl e
      | Inr _ \<Rightarrow> validate_principal_list cs (i + 1) listener policy path depth)"

text \<open>The checks of a list in order, each with the index of its element.\<close>

definition checks_idx :: "(nat \<Rightarrow> 'a \<Rightarrow> 'e + unit) \<Rightarrow> 'a list \<Rightarrow> 'e + unit" where
  "checks_idx f xs = checks (map (\<lambda>i. f i (xs ! i)) [0..<length xs])"

definition top_seg :: "string \<Rightarrow> nat \<Rightarrow> string" where
  "top_seg field i = field @ ''['' @ show_nat i @ '']''"

definition validate_rbac_policy :: "string \<Rightarrow> string \<times> Policy \<Rightarrow> ConfigError + unit" where
  "validate_rbac_policy listener np =
     (case np of (name, policy) \<Rightarrow>
        if permissions policy = [] then Inl (HttpFilterConfig (EmptyRbacPolicyPermissions listener name))
        else if principals policy = [] then Inl (HttpFilterConfig (EmptyRbacPolicyPrincipals listener name))
        else checks
          [checks_idx (\<lambda>i p. validate_permission_tree p listener name (top_seg ''permissions'' i) 1) (permissions policy),
           checks_idx (\<lambda>i p. validate_principal_tree p listener name (top_seg ''principals'' i) 1) (principals policy)])"

definition validate_rbac_rules :: "Rules \<Rightarrow> string \<Rightarrow> ConfigError + unit" where
  "validate_rbac_rules rules listener =
     (if policies rules = [] then Inl (HttpFilterConfig (EmptyRbacPolicies listener))
      else checks (map (validate_rbac_policy listener) (bt_entries (policies rules))))"

fun validate_l4_permission :: "Permission \<Rightarrow> string \<Rightarrow> string \<Rightarrow> string \<Rightarrow> ConfigError + unit"
and validate_l4_permissions :: "Permission list \<Rightarrow> nat \<Rightarrow> string \<Rightarrow> string \<Rightarrow> string \<Rightarrow> ConfigError + unit" where
  "validate_l4_permission (PermAny _) listener policy path = Inr ()"
| "validate_l4_permission (PermHeader _) listener policy path =
     Inl (HttpFilterConfig (UnsupportedNetworkRbacMatcher listener policy ''header'' path))"
| "validate_l4_permission (PermMetadata _) listener policy path =
     Inl (HttpFilterConfig (UnsupportedNetworkRbacMatcher listener policy ''metadata'' path))"
| "validate_l4_permission (PermUrlPath _) listener policy path =
     Inl (HttpFilterConfig (UnsupportedNetworkRbacMatcher listener policy ''url_path'' path))"
| "validate_l4_permission (DestinationPort _) listener policy path = Inr ()"
| "validate_l4_permission (DestinationIp cidr) listener policy path =
     (if cidr_validate cidr then Inr () else Inl (HttpFilterConfig (InvalidCidrRange listener policy path)))"
| "validate_l4_permission (AndRules kids) listener policy path = validate_l4_permissions kids 0 listener policy path"
| "validate_l4_permission (OrRules kids) listener policy path = validate_l4_permissions kids 0 listener policy path"
| "validate_l4_permission (NotRule child) listener policy path =
     validate_l4_permission child listener policy (path @ ''.not_rule'')"
| "validate_l4_permissions [] i listener policy path = Inr ()"
| "validate_l4_permissions (c # cs) i listener policy path =
     (case validate_l4_permission c listener policy (idx_seg path ''rules'' i) of
        Inl e \<Rightarrow> Inl e | Inr _ \<Rightarrow> validate_l4_permissions cs (i + 1) listener policy path)"

fun validate_l4_principal :: "Principal \<Rightarrow> string \<Rightarrow> string \<Rightarrow> string \<Rightarrow> ConfigError + unit"
and validate_l4_principals :: "Principal list \<Rightarrow> nat \<Rightarrow> string \<Rightarrow> string \<Rightarrow> string \<Rightarrow> ConfigError + unit" where
  "validate_l4_principal (PrinAny _) listener policy path = Inr ()"
| "validate_l4_principal (PrinHeader _) listener policy path =
     Inl (HttpFilterConfig (UnsupportedNetworkRbacMatcher listener policy ''header'' path))"
| "validate_l4_principal (PrinMetadata _) listener policy path =
     Inl (HttpFilterConfig (UnsupportedNetworkRbacMatcher listener policy ''metadata'' path))"
| "validate_l4_principal (PrinUrlPath _) listener policy path =
     Inl (HttpFilterConfig (UnsupportedNetworkRbacMatcher listener policy ''url_path'' path))"
| "validate_l4_principal (DirectRemoteIp cidr) listener policy path =
     (if cidr_validate cidr then Inr () else Inl (HttpFilterConfig (InvalidCidrRange listener policy path)))"
| "validate_l4_principal (RemoteIp cidr) listener policy path =
     (if cidr_validate cidr then Inr () else Inl (HttpFilterConfig (InvalidCidrRange listener policy path)))"
| "validate_l4_principal (SourceIp cidr) listener policy path =
     (if cidr_validate cidr then Inr () else Inl (HttpFilterConfig (InvalidCidrRange listener policy path)))"
| "validate_l4_principal (AndIds kids) listener policy path = validate_l4_principals kids 0 listener policy path"
| "validate_l4_principal (OrIds kids) listener policy path = validate_l4_principals kids 0 listener policy path"
| "validate_l4_principal (NotId child) listener policy path =
     validate_l4_principal child listener policy (path @ ''.not_id'')"
| "validate_l4_principals [] i listener policy path = Inr ()"
| "validate_l4_principals (c # cs) i listener policy path =
     (case validate_l4_principal c listener policy (idx_seg path ''ids'' i) of
        Inl e \<Rightarrow> Inl e | Inr _ \<Rightarrow> validate_l4_principals cs (i + 1) listener policy path)"

record NetworkRbacConfig =
  nr_stat_prefix :: string
  nr_rules :: "Rules option"

definition validate_l4_policy :: "string \<Rightarrow> string \<times> Policy \<Rightarrow> ConfigError + unit" where
  "validate_l4_policy listener np =
     (case np of (name, policy) \<Rightarrow> checks
        [checks_idx (\<lambda>i p. validate_l4_permission p listener name (top_seg ''permissions'' i)) (permissions policy),
         checks_idx (\<lambda>i p. validate_l4_principal p listener name (top_seg ''principals'' i)) (principals policy)])"

definition validate_network_rbac_config :: "NetworkRbacConfig \<Rightarrow> string \<Rightarrow> ConfigError + unit" where
  "validate_network_rbac_config cfg listener =
     (if nr_stat_prefix cfg = [] then Inl (HttpFilterConfig (EmptyNetworkRbacStatPrefix listener))
      else case nr_rules cfg of
        None \<Rightarrow> Inr ()
      | Some rules \<Rightarrow> checks
          (validate_rbac_rules rules listener
           # map (validate_l4_policy listener) (bt_entries (policies rules))))"

section \<open>The HTTP filter\<close>

datatype RuntimeMatcher =
    MAny bool
  | MHeader HeaderMatcher
  | MAnd "RuntimeMatcher list"
  | MOr "RuntimeMatcher list"
  | MNot RuntimeMatcher
  | MMetadata MetadataMatcher
  | MUrlPath StringMatcher

definition strip_query :: "string \<Rightarrow> string" where
  "strip_query path = takeWhile (\<lambda>c. c \<noteq> CHR ''?'') path"

definition eval_metadata :: "MetadataMatcher \<Rightarrow> FilterRequest \<Rightarrow> bool option" where
  "eval_metadata m req =
     (case bt_get (fr_dynamic_metadata req) (mm_filter m) of
        None \<Rightarrow> value_matches_resolved (mm_value m) None
      | Some ns \<Rightarrow> (case mm_path m of
          [] \<Rightarrow> None
        | k # _ \<Rightarrow> value_matches_resolved (mm_value m) (bt_get ns k)))"

fun eval :: "RuntimeMatcher \<Rightarrow> FilterRequest \<Rightarrow> bool option" where
  "eval (MAny b) req = Some b"
| "eval (MHeader hm) req = header_matches hm (fr_headers req)"
| "eval (MAnd ms) req = all_opt (\<lambda>m. eval m req) ms"
| "eval (MOr ms) req = any_opt (\<lambda>m. eval m req) ms"
| "eval (MNot m) req = map_option Not (eval m req)"
| "eval (MMetadata mm) req = eval_metadata mm req"
| "eval (MUrlPath sm) req = string_matches sm (strip_query (fr_path req))"

record RuntimePolicy =
  rp_name :: string
  rp_permissions :: "RuntimeMatcher list"
  rp_principals :: "RuntimeMatcher list"

record RbacFilter =
  rf_action :: Action
  rf_policies :: "RuntimePolicy list"
  allowed_counter :: nat
  denied_counter :: nat

type_synonym regex_new = "string \<Rightarrow> (string \<Rightarrow> bool) option"

definition compile_header :: "regex_new \<Rightarrow> HeaderMatcher \<Rightarrow> FilterError + HeaderMatcher" where
  "compile_header rx m = lift_regex (compile_header_matcher rx m)"

definition compile_metadata :: "regex_new \<Rightarrow> MetadataMatcher \<Rightarrow> FilterError + MetadataMatcher" where
  "compile_metadata rx m =
     (case compile_value_matcher rx (mm_value m) of
        Inl e \<Rightarrow> Inl (InvalidConfig (RegexMsg e)) | Inr v \<Rightarrow> Inr (m\<lparr>mm_value := v\<rparr>))"

definition compile_url_path :: "regex_new \<Rightarrow> StringMatcher \<Rightarrow> FilterError + StringMatcher" where
  "compile_url_path rx sm = lift_regex (compile_string_matcher rx sm)"

definition map_ok :: "('a \<Rightarrow> 'b) \<Rightarrow> 'e + 'a \<Rightarrow> 'e + 'b" where
  "map_ok f r = (case r of Inl e \<Rightarrow> Inl e | Inr x \<Rightarrow> Inr (f x))"

lemma map_ok_Inr [simp]: "map_ok f r = Inr y \<longleftrightarrow> (\<exists>x. r = Inr x \<and> y = f x)"
  by (auto simp: map_ok_def split: sum.splits)

fun lower_permission :: "regex_new \<Rightarrow> Permission \<Rightarrow> FilterError + RuntimeMatcher" where
  "lower_permission rx (PermAny b) = Inr (MAny b)"
| "lower_permission rx (PermHeader m) = map_ok MHeader (compile_header rx m)"
| "lower_permission rx (AndRules ps) = map_ok MAnd (traverse (lower_permission rx) ps)"
| "lower_permission rx (OrRules ps) = map_ok MOr (traverse (lower_permission rx) ps)"
| "lower_permission rx (NotRule p) = map_ok MNot (lower_permission rx p)"
| "lower_permission rx (PermMetadata m) = map_ok MMetadata (compile_metadata rx m)"
| "lower_permission rx (PermUrlPath sm) = map_ok MUrlPath (compile_url_path rx sm)"
| "lower_permission rx (DestinationIp _) = Inl (InvalidConfig L4OnlyMatcher)"
| "lower_permission rx (DestinationPort _) = Inl (InvalidConfig L4OnlyMatcher)"

fun lower_principal :: "regex_new \<Rightarrow> Principal \<Rightarrow> FilterError + RuntimeMatcher" where
  "lower_principal rx (PrinAny b) = Inr (MAny b)"
| "lower_principal rx (PrinHeader m) = map_ok MHeader (compile_header rx m)"
| "lower_principal rx (AndIds ps) = map_ok MAnd (traverse (lower_principal rx) ps)"
| "lower_principal rx (OrIds ps) = map_ok MOr (traverse (lower_principal rx) ps)"
| "lower_principal rx (NotId p) = map_ok MNot (lower_principal rx p)"
| "lower_principal rx (PrinMetadata m) = map_ok MMetadata (compile_metadata rx m)"
| "lower_principal rx (PrinUrlPath sm) = map_ok MUrlPath (compile_url_path rx sm)"
| "lower_principal rx (DirectRemoteIp _) = Inl (InvalidConfig L4OnlyMatcher)"
| "lower_principal rx (RemoteIp _) = Inl (InvalidConfig L4OnlyMatcher)"
| "lower_principal rx (SourceIp _) = Inl (InvalidConfig L4OnlyMatcher)"

definition lower_policy :: "regex_new \<Rightarrow> string \<times> Policy \<Rightarrow> FilterError + RuntimePolicy" where
  "lower_policy rx np =
     (case traverse (lower_permission rx) (permissions (snd np)) of
        Inl e \<Rightarrow> Inl e
      | Inr perms \<Rightarrow> map_ok (\<lambda>prins. \<lparr>rp_name = fst np, rp_permissions = perms, rp_principals = prins\<rparr>)
                     (traverse (lower_principal rx) (principals (snd np))))"

definition rbac_build ::
    "regex_new \<Rightarrow> Rules \<Rightarrow> string \<Rightarrow> stats \<Rightarrow> (FilterError + RbacFilter) \<times> stats" where
  "rbac_build rx rules pfx st =
     (case traverse (lower_policy rx) (bt_entries (policies rules)) of
        Inl e \<Rightarrow> (Inl e, st)
      | Inr ps \<Rightarrow>
          (case register_all st [filter_stat pfx ''rbac.allowed'', filter_stat pfx ''rbac.denied''] of
             (Inl e, st') \<Rightarrow> (Inl e, st')
           | (Inr cs, st') \<Rightarrow>
               (Inr \<lparr>rf_action = rules_action rules, rf_policies = ps,
                     allowed_counter = cs ! 0, denied_counter = cs ! 1\<rparr>, st')))"

text \<open>Both sides of a policy are evaluated before they are combined.\<close>

definition policy_matches :: "RuntimePolicy \<Rightarrow> FilterRequest \<Rightarrow> bool option" where
  "policy_matches p req =
     (case any_opt (\<lambda>x. eval x req) (rp_permissions p) of
        None \<Rightarrow> None
      | Some perm_match \<Rightarrow>
          map_option (\<lambda>prin_match. perm_match \<and> prin_match) (any_opt (\<lambda>x. eval x req) (rp_principals p)))"

definition rbac_denied :: FilterResponse where
  "rbac_denied = static_reply 403 (Some ''Forbidden'') ''RBAC: access denied''"

definition rbac_decode :: "RbacFilter \<Rightarrow> FilterRequest \<Rightarrow> world \<Rightarrow> (Decision \<times> world) option" where
  "rbac_decode f req w =
     (case any_opt (\<lambda>p. policy_matches p req) (rf_policies f) of
        None \<Rightarrow> None
      | Some matched \<Rightarrow>
          if (rf_action f, matched) = (Allow, True) \<or> (rf_action f, matched) = (Deny, False)
          then Some (Continue, w_inc (allowed_counter f) w)
          else Some (StopAndSend rbac_denied, w_inc (denied_counter f) w))"

section \<open>The network filter\<close>

record ConnectionInfo =
  local_ip :: IpAddr
  local_port :: nat
  peer_ip :: IpAddr

text \<open>The three HTTP-only arms answer \<open>false\<close> in a release build.\<close>

fun permission_matches :: "ConnectionInfo \<Rightarrow> Permission \<Rightarrow> bool option" where
  "permission_matches conn (PermAny b) = Some b"
| "permission_matches conn (AndRules ps) = all_opt (permission_matches conn) ps"
| "permission_matches conn (OrRules ps) = any_opt (permission_matches conn) ps"
| "permission_matches conn (NotRule p) = map_option Not (permission_matches conn p)"
| "permission_matches conn (DestinationIp cidr) = cidr_contains cidr (local_ip conn)"
| "permission_matches conn (DestinationPort port) = Some (local_port conn = port)"
| "permission_matches conn (PermHeader _) = Some False"
| "permission_matches conn (PermMetadata _) = Some False"
| "permission_matches conn (PermUrlPath _) = Some False"

fun principal_matches :: "ConnectionInfo \<Rightarrow> Principal \<Rightarrow> bool option" where
  "principal_matches conn (PrinAny b) = Some b"
| "principal_matches conn (AndIds ps) = all_opt (principal_matches conn) ps"
| "principal_matches conn (OrIds ps) = any_opt (principal_matches conn) ps"
| "principal_matches conn (NotId p) = map_option Not (principal_matches conn p)"
| "principal_matches conn (DirectRemoteIp cidr) = cidr_contains cidr (peer_ip conn)"
| "principal_matches conn (RemoteIp cidr) = cidr_contains cidr (peer_ip conn)"
| "principal_matches conn (SourceIp cidr) = cidr_contains cidr (peer_ip conn)"
| "principal_matches conn (PrinHeader _) = Some False"
| "principal_matches conn (PrinMetadata _) = Some False"
| "principal_matches conn (PrinUrlPath _) = Some False"

definition engine_allows :: "Rules \<Rightarrow> ConnectionInfo \<Rightarrow> bool option" where
  "engine_allows rules conn =
     map_option (\<lambda>matched. case rules_action rules of Allow \<Rightarrow> matched | Deny \<Rightarrow> \<not> matched)
       (any_opt (\<lambda>(_, policy).
           case any_opt (permission_matches conn) (permissions policy) of
             None \<Rightarrow> None
           | Some False \<Rightarrow> Some False
           | Some True \<Rightarrow> any_opt (principal_matches conn) (principals policy))
         (bt_entries (policies rules)))"

datatype NetworkFilterStatus = NfContinue | NfStopIteration

record NetworkRbacFilter =
  nf_rules :: "Rules option"
  nf_allowed :: nat
  nf_denied :: nat

definition network_rbac_new :: "NetworkRbacConfig \<Rightarrow> stats \<Rightarrow> (FilterError + NetworkRbacFilter) \<times> stats" where
  "network_rbac_new cfg st =
     (case register_all st (map (\<lambda>s. nr_stat_prefix cfg @ ''.rbac.'' @ s)
             [''allowed'', ''denied'', ''shadow_allowed'', ''shadow_denied'']) of
        (Inl e, st') \<Rightarrow> (Inl e, st')
      | (Inr cs, st') \<Rightarrow>
          (Inr \<lparr>nf_rules = nr_rules cfg, nf_allowed = cs ! 0, nf_denied = cs ! 1\<rparr>, st'))"

definition on_new_connection ::
    "NetworkRbacFilter \<Rightarrow> ConnectionInfo \<Rightarrow> stats \<Rightarrow> (NetworkFilterStatus \<times> stats) option" where
  "on_new_connection f conn st =
     (case nf_rules f of
        None \<Rightarrow> Some (NfContinue, st)
      | Some rules \<Rightarrow>
          map_option (\<lambda>ok. if ok then (NfContinue, counter_inc (nf_allowed f) st)
                           else (NfStopIteration, counter_inc (nf_denied f) st))
            (engine_allows rules conn))"

section \<open>The HTTP filter decides what the policies say\<close>

text \<open>What a permission or principal means, read off the configuration.\<close>

definition header_holds :: "regex_new \<Rightarrow> headers \<Rightarrow> HeaderMatcher \<Rightarrow> bool" where
  "header_holds rx hs m =
     (case compile_header_matcher rx m of Inl _ \<Rightarrow> False | Inr m' \<Rightarrow> header_matches m' hs = Some True)"

definition path_holds :: "regex_new \<Rightarrow> string \<Rightarrow> StringMatcher \<Rightarrow> bool" where
  "path_holds rx path sm =
     (case compile_string_matcher rx sm of
        Inl _ \<Rightarrow> False | Inr sm' \<Rightarrow> string_matches sm' (strip_query path) = Some True)"

definition metadata_holds :: "regex_new \<Rightarrow> dynamic_metadata \<Rightarrow> MetadataMatcher \<Rightarrow> bool" where
  "metadata_holds rx md m =
     (case compile_value_matcher rx (mm_value m) of
        Inl _ \<Rightarrow> False
      | Inr v \<Rightarrow> value_matches_resolved v
                 (Option.bind (bt_get md (mm_filter m)) (\<lambda>ns. bt_get ns (hd (mm_path m)))) = Some True)"

fun perm_holds :: "regex_new \<Rightarrow> FilterRequest \<Rightarrow> Permission \<Rightarrow> bool" where
  "perm_holds rx req (PermAny b) = b"
| "perm_holds rx req (PermHeader m) = header_holds rx (fr_headers req) m"
| "perm_holds rx req (AndRules ps) = list_all (perm_holds rx req) ps"
| "perm_holds rx req (OrRules ps) = list_ex (perm_holds rx req) ps"
| "perm_holds rx req (NotRule p) = (\<not> perm_holds rx req p)"
| "perm_holds rx req (PermMetadata m) = metadata_holds rx (fr_dynamic_metadata req) m"
| "perm_holds rx req (PermUrlPath sm) = path_holds rx (fr_path req) sm"
| "perm_holds rx req _ = False"

fun prin_holds :: "regex_new \<Rightarrow> FilterRequest \<Rightarrow> Principal \<Rightarrow> bool" where
  "prin_holds rx req (PrinAny b) = b"
| "prin_holds rx req (PrinHeader m) = header_holds rx (fr_headers req) m"
| "prin_holds rx req (AndIds ps) = list_all (prin_holds rx req) ps"
| "prin_holds rx req (OrIds ps) = list_ex (prin_holds rx req) ps"
| "prin_holds rx req (NotId p) = (\<not> prin_holds rx req p)"
| "prin_holds rx req (PrinMetadata m) = metadata_holds rx (fr_dynamic_metadata req) m"
| "prin_holds rx req (PrinUrlPath sm) = path_holds rx (fr_path req) sm"
| "prin_holds rx req _ = False"

definition rules_match :: "regex_new \<Rightarrow> Rules \<Rightarrow> FilterRequest \<Rightarrow> bool" where
  "rules_match rx rules req =
     list_ex (\<lambda>(_, p). list_ex (perm_holds rx req) (permissions p) \<and> list_ex (prin_holds rx req) (principals p))
       (bt_entries (policies rules))"

text \<open>The metadata matchers of a tree name a key.\<close>

fun perm_paths :: "Permission \<Rightarrow> bool" where
  "perm_paths (AndRules ps) = list_all perm_paths ps"
| "perm_paths (OrRules ps) = list_all perm_paths ps"
| "perm_paths (NotRule p) = perm_paths p"
| "perm_paths (PermMetadata m) = (mm_path m \<noteq> [])"
| "perm_paths _ = True"

fun prin_paths :: "Principal \<Rightarrow> bool" where
  "prin_paths (AndIds ps) = list_all prin_paths ps"
| "prin_paths (OrIds ps) = list_all prin_paths ps"
| "prin_paths (NotId p) = prin_paths p"
| "prin_paths (PrinMetadata m) = (mm_path m \<noteq> [])"
| "prin_paths _ = True"

lemma validate_metadata_path: "validate_metadata_matcher m l n p = Inr () \<Longrightarrow> mm_path m \<noteq> []"
  by (auto simp: validate_metadata_matcher_def split: if_splits)

lemma validate_permission_paths:
  "validate_permission_tree p l n path d = Inr () \<Longrightarrow> perm_paths p"
  "validate_permission_list ps i l n path d = Inr () \<Longrightarrow> list_all perm_paths ps"
proof (induction p l n path d and ps i l n path d
    rule: validate_permission_tree_validate_permission_list.induct)
  case (1 p l n path d)
  then show ?case
    by (cases p) (auto split: if_splits dest: validate_metadata_path)
next
  case (3 c cs i l n path d)
  then show ?case by (auto split: sum.splits)
qed simp

lemma validate_principal_paths:
  "validate_principal_tree p l n path d = Inr () \<Longrightarrow> prin_paths p"
  "validate_principal_list ps i l n path d = Inr () \<Longrightarrow> list_all prin_paths ps"
proof (induction p l n path d and ps i l n path d
    rule: validate_principal_tree_validate_principal_list.induct)
  case (1 p l n path d)
  then show ?case
    by (cases p) (auto split: if_splits dest: validate_metadata_path)
next
  case (3 c cs i l n path d)
  then show ?case by (auto split: sum.splits)
qed simp

lemma compile_header_holds:
  "compile_header rx m = Inr m' \<Longrightarrow> header_matches m' hs = Some (header_holds rx hs m)"
  using header_matches_ready [of m' hs] compile_header_matcher_ready [of rx m m']
  by (auto simp: compile_header_def lift_regex_def header_holds_def split: sum.splits)

lemma compile_url_path_holds:
  "compile_url_path rx sm = Inr sm' \<Longrightarrow> string_matches sm' (strip_query p) = Some (path_holds rx p sm)"
  using string_matches_ready [of sm' "strip_query p"] compile_string_matcher_ready [of rx sm sm']
  by (auto simp: compile_url_path_def lift_regex_def path_holds_def split: sum.splits)

lemma compile_string_total:
  "compile_string_matcher rx sm = Inr sm' \<Longrightarrow> \<exists>b. string_matches sm' x = Some b"
  using string_matches_ready [of sm' x] compile_string_matcher_ready [of rx sm sm'] by auto

lemma compile_value_total:
  "compile_value_matcher rx v = Inr v' \<Longrightarrow> value_matches_resolved v' r \<noteq> None"
  by (cases v; cases r)
    (auto simp: compile_value_matcher_def value_matches_resolved_def value_matches_def
      split: sum.splits option.splits intro: compile_string_total)

lemma compile_metadata_holds:
  assumes "compile_metadata rx m = Inr m'" "mm_path m \<noteq> []"
  shows "eval_metadata m' req = Some (metadata_holds rx (fr_dynamic_metadata req) m)"
proof -
  obtain v where v: "compile_value_matcher rx (mm_value m) = Inr v" "m' = m\<lparr>mm_value := v\<rparr>"
    using assms(1) by (auto simp: compile_metadata_def split: sum.splits)
  obtain k ks where k: "mm_path m = k # ks" using assms(2) by (cases "mm_path m") auto
  let ?r = "Option.bind (bt_get (fr_dynamic_metadata req) (mm_filter m)) (\<lambda>ns. bt_get ns k)"
  obtain b where "value_matches_resolved v ?r = Some b"
    using compile_value_total [OF v(1)] by blast
  with v k show ?thesis
    by (auto simp: eval_metadata_def metadata_holds_def split: option.splits)
qed

lemma all_opt_Some_list:
  "list_all2 (\<lambda>x y. g y = Some (P x)) xs ys \<Longrightarrow> all_opt g ys = Some (list_all P xs)"
  by (induction rule: list_all2_induct) (auto split: bool.splits)

lemma any_opt_Some_list:
  "list_all2 (\<lambda>x y. g y = Some (P x)) xs ys \<Longrightarrow> any_opt g ys = Some (list_ex P xs)"
  by (induction rule: list_all2_induct) (auto split: bool.splits)

lemma traverse_all2:
  assumes "traverse f xs = Inr ys" "list_all Q xs" "\<And>x y. x \<in> set xs \<Longrightarrow> f x = Inr y \<Longrightarrow> Q x \<Longrightarrow> R x y"
  shows "list_all2 R xs ys"
  using assms
proof (induction xs arbitrary: ys)
  case (Cons x xs)
  then show ?case by (auto split: sum.splits)
qed simp

lemma lower_permission_holds:
  "lower_permission rx p = Inr m \<Longrightarrow> perm_paths p \<Longrightarrow> eval m req = Some (perm_holds rx req p)"
proof (induction rx p arbitrary: m rule: lower_permission.induct)
  case (3 rx ps)
  then show ?case
    by (auto intro!: all_opt_Some_list traverse_all2 [where f = "lower_permission rx" and Q = perm_paths])
next
  case (4 rx ps)
  then show ?case
    by (auto intro!: any_opt_Some_list traverse_all2 [where f = "lower_permission rx" and Q = perm_paths])
qed (auto simp: compile_header_holds compile_url_path_holds compile_metadata_holds)

lemma lower_principal_holds:
  "lower_principal rx p = Inr m \<Longrightarrow> prin_paths p \<Longrightarrow> eval m req = Some (prin_holds rx req p)"
proof (induction rx p arbitrary: m rule: lower_principal.induct)
  case (3 rx ps)
  then show ?case
    by (auto intro!: all_opt_Some_list traverse_all2 [where f = "lower_principal rx" and Q = prin_paths])
next
  case (4 rx ps)
  then show ?case
    by (auto intro!: any_opt_Some_list traverse_all2 [where f = "lower_principal rx" and Q = prin_paths])
qed (auto simp: compile_header_holds compile_url_path_holds compile_metadata_holds)

lemma checks_idx_ok: "checks_idx f xs = Inr () \<longleftrightarrow> (\<forall>i < length xs. f i (xs ! i) = Inr ())"
  by (auto simp: checks_idx_def)

lemma validate_rbac_policy_paths:
  assumes "validate_rbac_policy l (n, p) = Inr ()"
  shows "list_all perm_paths (permissions p)" "list_all prin_paths (principals p)"
  using assms validate_permission_paths(1) validate_principal_paths(1)
  by (fastforce simp: validate_rbac_policy_def checks_idx_ok list_all_length split: if_splits)+

lemma lower_policy_holds:
  assumes "lower_policy rx (n, p) = Inr rp" "validate_rbac_policy l (n, p) = Inr ()"
  shows "policy_matches rp req =
    Some (list_ex (perm_holds rx req) (permissions p) \<and> list_ex (prin_holds rx req) (principals p))"
proof -
  obtain perms prins where lp: "traverse (lower_permission rx) (permissions p) = Inr perms"
      "traverse (lower_principal rx) (principals p) = Inr prins"
      "rp = \<lparr>rp_name = n, rp_permissions = perms, rp_principals = prins\<rparr>"
    using assms(1) by (auto simp: lower_policy_def split: sum.splits)
  have "any_opt (\<lambda>x. eval x req) perms = Some (list_ex (perm_holds rx req) (permissions p))"
    by (rule any_opt_Some_list)
      (rule traverse_all2 [OF lp(1) validate_rbac_policy_paths(1) [OF assms(2)]],
        rule lower_permission_holds)
  moreover have "any_opt (\<lambda>x. eval x req) prins = Some (list_ex (prin_holds rx req) (principals p))"
    by (rule any_opt_Some_list)
      (rule traverse_all2 [OF lp(2) validate_rbac_policy_paths(2) [OF assms(2)]],
        rule lower_principal_holds)
  ultimately show ?thesis using lp(3) by (simp add: policy_matches_def)
qed

text \<open>
  C23. For rules the validator accepts, the filter never panics and decides as the configured
  policies read: an ALLOW filter passes exactly the requests some policy matches, a DENY
  filter exactly the others, and each decision counts once.
\<close>

theorem rbac_filter_refines_policies:
  assumes "validate_rbac_rules rules l = Inr ()" "rbac_build rx rules pfx st = (Inr f, st')"
  shows "rbac_decode f req w =
    Some (if (rules_action rules = Allow) = rules_match rx rules req
          then (Continue, w_inc (allowed_counter f) w)
          else (StopAndSend rbac_denied, w_inc (denied_counter f) w))"
proof -
  obtain ps where ps: "traverse (lower_policy rx) (bt_entries (policies rules)) = Inr ps"
      "rf_policies f = ps" "rf_action f = rules_action rules"
    using assms(2) by (auto simp: rbac_build_def split: sum.splits prod.splits)
  have val: "list_all (\<lambda>np. validate_rbac_policy l np = Inr ()) (bt_entries (policies rules))"
    using assms(1) by (auto simp: validate_rbac_rules_def list_all_iff split: if_splits)
  have "any_opt (\<lambda>p. policy_matches p req) ps = Some (rules_match rx rules req)"
    unfolding rules_match_def
  proof (rule any_opt_Some_list, rule traverse_all2 [OF ps(1) val])
    fix np rp
    assume "lower_policy rx np = Inr rp" "validate_rbac_policy l np = Inr ()"
    then show "policy_matches rp req =
        Some (case np of (_, p) \<Rightarrow> list_ex (perm_holds rx req) (permissions p) \<and> list_ex (prin_holds rx req) (principals p))"
      using lower_policy_holds by (cases np) auto
  qed
  then show ?thesis using ps(2,3)
    by (cases "rules_action rules") (auto simp: rbac_decode_def)
qed

definition demo_rules :: Rules where
  "demo_rules = \<lparr>rules_action = Allow, policies = bt_of_list
     [(''admin'',
       \<lparr>permissions = [AndRules [PermUrlPath \<lparr>sm_mode = Prefix ''/admin'', sm_ignore_case = False\<rparr>,
                              NotRule (PermHeader \<lparr>hm_name = ''x-debug'', hm_mode = PresentMatch True,
                                                   hm_invert_match = False\<rparr>)]],
        principals = [PrinMetadata \<lparr>mm_filter = ''jwt'', mm_path = [''sub''],
                        mm_value = ValueString \<lparr>sm_mode = Exact ''root'', sm_ignore_case = False\<rparr>\<rparr>]\<rparr>)]\<rparr>"

definition demo_rbac_request :: "string \<Rightarrow> FilterRequest" where
  "demo_rbac_request sub =
     \<lparr>fr_method = ''GET'', fr_path = ''/admin?x=1'', fr_headers = [(''host'', ''h'')], fr_body = None,
      fr_dynamic_metadata = [(''jwt'', [(''sub'', sub)])]\<rparr>"

theorem rbac_filter_refines_policies_witness:
  "let f = projr (fst (rbac_build (\<lambda>_. None) demo_rules ''p'' registry_new));
       w = \<lparr>w_stats = snd (rbac_build (\<lambda>_. None) demo_rules ''p'' registry_new), w_buckets = [], w_now = 0, w_unix = 0\<rparr> in
   map_option fst (rbac_decode f (demo_rbac_request ''root'') w) = Some Continue
   \<and> map_option fst (rbac_decode f (demo_rbac_request ''user'') w) = Some (StopAndSend rbac_denied)"
proof -
  let ?b = "rbac_build (\<lambda>_. None) demo_rules ''p'' registry_new"
  have v: "validate_rbac_rules demo_rules ''l'' = Inr ()" by code_simp
  have "\<not> isl (fst ?b)" by code_simp
  then obtain f st' where b: "?b = (Inr f, st')" by (metis prod.collapse sum.collapse(2))
  note d = rbac_filter_refines_policies [OF v b]
  have m: "rules_match (\<lambda>_. None) demo_rules (demo_rbac_request ''root'')"
      "\<not> rules_match (\<lambda>_. None) demo_rules (demo_rbac_request ''user'')"
      "rules_action demo_rules = Allow"
    by code_simp+
  show ?thesis unfolding Let_def b by (simp add: d m)
qed

section \<open>Address ranges compare the leading bits\<close>

definition ip_bit :: "u8 list \<Rightarrow> nat \<Rightarrow> bool" where
  "ip_bit os i = bit (os ! (i div 8)) (7 - i mod 8)"

lemma mask_agree:
  fixes a b :: u8
  assumes "r < 8"
  shows "and a (push_bit (8 - r) 255) = and b (push_bit (8 - r) 255) \<longleftrightarrow> (\<forall>i < r. bit a (7 - i) = bit b (7 - i))"
proof -
  have m: "bit (push_bit (8 - r) (255 :: u8)) j \<longleftrightarrow> 8 - r \<le> j \<and> j < 8" for j
  proof -
    have e: "(255 :: u8) = - 1" by simp
    show ?thesis unfolding e using assms
      by (auto simp: bit_not_iff bit_mask_iff possible_bit_word)
  qed
  have "and a (push_bit (8 - r) 255) = and b (push_bit (8 - r) 255) \<longleftrightarrow>
      (\<forall>j. 8 - r \<le> j \<and> j < 8 \<longrightarrow> bit a j = bit b j)"
    by (auto simp: bit_eq_iff bit_and_iff m)
  also have "\<dots> \<longleftrightarrow> (\<forall>i < r. bit a (7 - i) = bit b (7 - i))"
  proof
    assume h: "\<forall>j. 8 - r \<le> j \<and> j < 8 \<longrightarrow> bit a j = bit b j"
    show "\<forall>i < r. bit a (7 - i) = bit b (7 - i)"
    proof (intro allI impI)
      fix i assume "i < r"
      then have "8 - r \<le> 7 - i \<and> 7 - i < 8" using assms by arith
      then show "bit a (7 - i) = bit b (7 - i)" using h by blast
    qed
  next
    assume h: "\<forall>i < r. bit a (7 - i) = bit b (7 - i)"
    show "\<forall>j. 8 - r \<le> j \<and> j < 8 \<longrightarrow> bit a j = bit b j"
    proof (intro allI impI)
      fix j assume "8 - r \<le> j \<and> j < 8"
      then have "7 - j < r" "7 - (7 - j) = j" using assms by arith+
      then show "bit a j = bit b j" using h by metis
    qed
  qed
  finally show ?thesis .
qed

lemma take_bits_agree:
  assumes "8 * n \<le> 8 * length xs" "length ys = length xs"
  shows "take n xs = take n ys \<longleftrightarrow> (\<forall>i < 8 * n. ip_bit xs i = ip_bit ys i)"
proof
  assume t: "take n xs = take n ys"
  show "\<forall>i < 8 * n. ip_bit xs i = ip_bit ys i"
  proof (intro allI impI)
    fix i assume "i < 8 * n"
    then have "i div 8 < n" by (simp add: less_mult_imp_div_less mult.commute)
    then have "xs ! (i div 8) = ys ! (i div 8)" using t by (metis nth_take)
    then show "ip_bit xs i = ip_bit ys i" by (simp add: ip_bit_def)
  qed
next
  assume b: "\<forall>i < 8 * n. ip_bit xs i = ip_bit ys i"
  show "take n xs = take n ys"
  proof (rule nth_equalityI)
    show "length (take n xs) = length (take n ys)" using assms by simp
    fix k assume "k < length (take n xs)"
    then have k: "k < n" by simp
    have "bit (xs ! k) j = bit (ys ! k) j" if "j < 8" for j
    proof -
      define i where "i = 7 - j"
      have i8: "i < 8" and j: "7 - i = j" using that by (simp_all add: i_def)
      have "8 * k + i < 8 * n" using k i8 by linarith
      then have "ip_bit xs (8 * k + i) = ip_bit ys (8 * k + i)" using b by blast
      then show ?thesis using i8 j by (simp add: ip_bit_def)
    qed
    then have "xs ! k = ys ! k" by (intro bit_word_eqI) simp
    with k show "take n xs ! k = take n ys ! k" by simp
  qed
qed

lemma all_less_add: "(\<forall>i < m + r. P i) \<longleftrightarrow> (\<forall>i < m. P i) \<and> (\<forall>i < r. P (m + i))" for m r :: nat
proof (intro iffI conjI allI impI)
  fix i assume h: "(\<forall>i < m. P i) \<and> (\<forall>i < r. P (m + i))" and "i < m + r"
  then show "P i" using h [THEN conjunct2, rule_format, of "i - m"] by (cases "i < m") auto
qed auto

lemma prefix_match_bits:
  assumes len: "length addr = length net" and plen: "unat plen \<le> 8 * length net"
  shows "prefix_match net addr plen = Some (\<forall>i < unat plen. ip_bit net i = ip_bit addr i)"
proof -
  define full r where "full = unat plen div 8" and "r = unat plen mod 8"
  have bits: "unat plen = 8 * full + r" and r8: "r < 8" by (simp_all add: full_def r_def)
  have fl: "full \<le> length net" using plen bits by linarith
  have top: "take full net = take full addr \<longleftrightarrow> (\<forall>i < 8 * full. ip_bit net i = ip_bit addr i)"
    by (rule take_bits_agree) (use fl len in auto)
  have low: "ip_bit os (8 * full + i) = bit (os ! full) (7 - i)" if "i < r" for os i
    using that r8 by (simp add: ip_bit_def)
  have split: "(\<forall>i < unat plen. ip_bit net i = ip_bit addr i) \<longleftrightarrow>
      (\<forall>i < 8 * full. ip_bit net i = ip_bit addr i) \<and> (\<forall>i < r. bit (net ! full) (7 - i) = bit (addr ! full) (7 - i))"
    unfolding bits all_less_add using low by simp
  show ?thesis
  proof (cases "r = 0")
    case True
    then show ?thesis using fl len top split
      by (simp add: prefix_match_def Let_def flip: full_def r_def)
  next
    case False
    then have "full < length net" using plen bits by linarith
    then show ?thesis using False fl len top split mask_agree [OF r8, of "net ! full" "addr ! full"]
      by (simp add: prefix_match_def Let_def flip: full_def r_def)
  qed
qed

definition ip_octets :: "IpAddr \<Rightarrow> u8 list" where
  "ip_octets ip = (case ip of V4 os \<Rightarrow> os | V6 os \<Rightarrow> os)"

definition same_family :: "IpAddr \<Rightarrow> IpAddr \<Rightarrow> bool" where
  "same_family a b = (case (a, b) of (V4 _, V4 _) \<Rightarrow> True | (V6 _, V6 _) \<Rightarrow> True | _ \<Rightarrow> False)"

lemma canonical_ip_wf: "ip_wf ip \<Longrightarrow> ip_wf (canonical_ip ip)"
  by (cases ip) auto

text \<open>
  A range the validator accepts never panics: it contains an address of the same family
  exactly when the leading \<open>prefix_len\<close> bits agree, after an IPv4-mapped address is read as
  IPv4, and no address of the other family.
\<close>

theorem cidr_contains_exact:
  assumes "ip_wf (address_prefix c)" "ip_wf addr" "cidr_validate c"
  shows "cidr_contains c addr =
    Some (same_family (canonical_ip (address_prefix c)) (canonical_ip addr)
          \<and> (\<forall>i < unat (prefix_len c). ip_bit (ip_octets (canonical_ip (address_prefix c))) i
                                     = ip_bit (ip_octets (canonical_ip addr)) i))"
proof -
  note wf = canonical_ip_wf [OF assms(1)] canonical_ip_wf [OF assms(2)]
  have le: "unat (prefix_len c) \<le> 8 * length (ip_octets (canonical_ip (address_prefix c)))"
    using assms(3) wf(1)
    by (cases "canonical_ip (address_prefix c)")
      (auto simp: cidr_validate_def ip_octets_def word_le_nat_alt)
  show ?thesis
    using wf le
    by (cases "canonical_ip (address_prefix c)"; cases "canonical_ip addr")
      (auto simp: cidr_contains_def same_family_def ip_octets_def prefix_match_bits)
qed

theorem cidr_contains_exact_witness:
  "cidr_contains \<lparr>address_prefix = V4 [10, 1, 128, 0], prefix_len = 17\<rparr>
     (V6 (replicate 10 0 @ [255, 255, 10, 1, 200, 7])) = Some True"
proof -
  let ?c = "\<lparr>address_prefix = V4 [10, 1, 128, 0], prefix_len = 17\<rparr>"
  let ?a = "V6 (replicate 10 0 @ [255, 255, 10, 1, 200, 7])"
  have c: "canonical_ip ?a = V4 [10, 1, 200, 7]" by code_simp
  have "(\<forall>i < 17. ip_bit [10, 1, 128, 0] i = ip_bit [10, 1, 200, 7] i)" by code_simp
  moreover have "ip_wf (address_prefix ?c)" "ip_wf ?a" "cidr_validate ?c"
    by (simp_all add: cidr_validate_def)
  ultimately show ?thesis
    using cidr_contains_exact [of ?c ?a] c by (simp add: same_family_def ip_octets_def)
qed

text \<open>
  The bounds guard of \<open>prefix_match\<close> is one byte short: on an unvalidated range of 33 to
  39 bits an equal IPv4 address indexes past the fourth octet.
\<close>

lemma prefix_match_can_panic:
  "cidr_contains \<lparr>address_prefix = V4 [10, 0, 0, 1], prefix_len = 33\<rparr> (V4 [10, 0, 0, 1]) = None"
  by (simp add: cidr_contains_def prefix_match_def)
end
