(* ===== verification/Cdn_Loop.thy ===== *)
theory Cdn_Loop
  imports Filter_Types
begin

text \<open>
  The CDN loop detection filter (\<open>envoy-filter/src/cdn_loop.rs\<close>, RFC 8586): the parser of
  the header, the count of this proxy's identifier and the rewriting of the header, with
  the configuration check of \<open>bootstrap.rs\<close>. A byte slice is a string.
\<close>

section \<open>The parser\<close>

definition is_ows :: "char \<Rightarrow> bool" where
  "is_ows b \<longleftrightarrow> b = CHR '' '' \<or> b = CHR 0x09"

definition is_tchar :: "char \<Rightarrow> bool" where
  "is_tchar b \<longleftrightarrow>
     b \<in> {CHR ''!'', CHR ''#'', CHR ''$'', CHR ''%'', CHR ''&'', CHR 0x27, CHR ''*'', CHR ''+'',
          CHR ''-'', CHR ''.'', CHR ''^'', CHR ''_'', CHR 0x60, CHR ''|'', CHR ''~''}
     \<or> is_ascii_digit b \<or> is_ascii_lowercase b \<or> is_ascii_uppercase b"

definition trim_ows :: "string \<Rightarrow> string" where
  "trim_ows s = rev (dropWhile is_ows (rev (dropWhile is_ows s)))"

text \<open>The rest of the input after the closing quote, \<open>None\<close> when there is none.\<close>

fun consume_quoted_string :: "string \<Rightarrow> string option" where
  "consume_quoted_string [] = None"
| "consume_quoted_string (c # cs) =
     (if c = CHR 0x22 then Some cs
      else if c = CHR 0x5C then (case cs of [] \<Rightarrow> None | _ # after \<Rightarrow> consume_quoted_string after)
      else consume_quoted_string cs)"

lemma consume_quoted_string_length:
  "consume_quoted_string s = Some r \<Longrightarrow> length r < length s"
  by (induction s arbitrary: r rule: consume_quoted_string.induct)
    (auto split: if_splits list.splits simp: less_Suc_eq)

lemma length_trim_ows: "length (trim_ows s) \<le> length s"
  unfolding trim_ows_def
  by (metis length_dropWhile_le length_rev order_trans)

text \<open>One turn of the parameter loop on the text after the semicolon.\<close>

definition parse_parameter :: "string \<Rightarrow> string option" where
  "parse_parameter rest0 =
     (let rest = trim_ows rest0; name = takeWhile is_tchar rest in
      if name = [] then None
      else case trim_ows (drop (length name) rest) of
        [] \<Rightarrow> None
      | c # rest1 \<Rightarrow>
          if c \<noteq> CHR ''='' then None
          else let rest2 = trim_ows rest1 in
            if rest2 \<noteq> [] \<and> hd rest2 = CHR 0x22 then map_option trim_ows (consume_quoted_string (drop 1 rest2))
            else let v = takeWhile is_tchar rest2 in
              if v = [] then None else Some (trim_ows (drop (length v) rest2)))"

lemma parse_parameter_length: "parse_parameter s = Some r \<Longrightarrow> length r \<le> length s"
proof -
  assume a: "parse_parameter s = Some r"
  define rest where "rest = trim_ows s"
  define name where "name = takeWhile is_tchar rest"
  from a obtain c rest1 where
    c: "trim_ows (drop (length name) rest) = c # rest1" "name \<noteq> []" "c = CHR ''=''"
    by (auto simp: parse_parameter_def Let_def rest_def name_def split: if_splits list.splits)
  have l1: "length (c # rest1) \<le> length s"
    using length_trim_ows [of "drop (length name) rest"] length_trim_ows [of s] c(1)
    by (simp add: rest_def)
  consider q where "consume_quoted_string (drop 1 (trim_ows rest1)) = Some q" "r = trim_ows q"
    | n where "r = trim_ows (drop n (trim_ows rest1))"
    using a c unfolding parse_parameter_def Let_def rest_def [symmetric] name_def [symmetric]
    by (auto split: list.splits if_splits)
  then show ?thesis
  proof cases
    case 1
    have "length r \<le> length q" using 1(2) length_trim_ows by simp
    also have "\<dots> \<le> length (trim_ows rest1)" using consume_quoted_string_length [OF 1(1)] by simp
    also have "\<dots> \<le> length rest1" by (rule length_trim_ows)
    finally show ?thesis using l1 by simp
  next
    case 2
    have "length r \<le> length (trim_ows rest1)"
      using 2 length_trim_ows [of "drop n (trim_ows rest1)"] by simp
    also have "\<dots> \<le> length rest1" by (rule length_trim_ows)
    finally show ?thesis using l1 by simp
  qed
qed

text \<open>The caller passes a text that is empty or starts with a semicolon.\<close>

function parse_parameters :: "string \<Rightarrow> bool" where
  "parse_parameters [] = True"
| "parse_parameters (_ # rest) =
     (case parse_parameter rest of
        None \<Rightarrow> False
      | Some [] \<Rightarrow> True
      | Some (c # cs) \<Rightarrow> if c \<noteq> CHR '';'' then False else parse_parameters (c # cs))"
  by pat_completeness auto
termination
  by (relation "measure length") (auto dest: parse_parameter_length)

definition parse_cdn_info :: "string \<Rightarrow> string option" where
  "parse_cdn_info entry0 =
     (let entry = trim_ows entry0 in
      if entry = [] then Some []
      else let cdn_id = takeWhile is_tchar entry in
        if cdn_id = [] then None
        else case trim_ows (drop (length cdn_id) entry) of
          [] \<Rightarrow> Some cdn_id
        | c # rest \<Rightarrow>
            if c \<noteq> CHR '';'' then None
            else if parse_parameters (c # rest) then Some cdn_id else None)"

text \<open>The identifiers of all the header values, in order; \<open>None\<close> is \<open>MalformedCdnLoop\<close>.\<close>

definition all_some :: "'a option list \<Rightarrow> 'a list option" where
  "all_some xs = (if None \<in> set xs then None else Some (map the xs))"

definition parse_cdn_loop :: "string list \<Rightarrow> string list option" where
  "parse_cdn_loop values =
     all_some (map parse_cdn_info (concat (map (split_on CHR '','') values)))"

definition count_cdn_id :: "string \<Rightarrow> string list \<Rightarrow> nat" where
  "count_cdn_id cdn_id parsed = length (filter (\<lambda>c. c = cdn_id) parsed)"

section \<open>The filter\<close>

record CdnLoopFilter =
  cdn_id :: string
  max_allowed_occurrences :: nat

definition is_cdn_loop :: "string \<times> string \<Rightarrow> bool" where
  "is_cdn_loop kv = eq_ignore_ascii_case (fst kv) ''cdn-loop''"

definition loop_response :: FilterResponse where
  "loop_response = static_reply 502 (Some ''Bad Gateway'') ''The server has detected a loop between CDNs.''"

definition malformed_response :: FilterResponse where
  "malformed_response = static_reply 400 (Some ''Bad Request'') ''Invalid CDN-Loop header in request.''"

text \<open>\<open>retain_mut\<close>: the first of the headers gets the new value, the others go.\<close>

fun rewrite_cdn :: "string \<Rightarrow> bool \<Rightarrow> headers \<Rightarrow> headers" where
  "rewrite_cdn v first_done [] = []"
| "rewrite_cdn v first_done (kv # hs) =
     (if is_cdn_loop kv then
        (if first_done then rewrite_cdn v True hs else (fst kv, v) # rewrite_cdn v True hs)
      else kv # rewrite_cdn v first_done hs)"

fun join_commas :: "string list \<Rightarrow> string" where
  "join_commas [] = []"
| "join_commas [v] = v"
| "join_commas (v # vs) = v @ CHR '','' # join_commas vs"

definition cdn_decode_headers :: "CdnLoopFilter \<Rightarrow> FilterRequest \<Rightarrow> Decision \<times> FilterRequest" where
  "cdn_decode_headers f req =
     (let raw_values = map snd (filter is_cdn_loop (fr_headers req)) in
      case parse_cdn_loop raw_values of
        None \<Rightarrow> (StopAndSend malformed_response, req)
      | Some parsed \<Rightarrow>
          if count_cdn_id (cdn_id f) parsed > max_allowed_occurrences f
          then (StopAndSend loop_response, req)
          else if raw_values = [] then
            (Continue, req\<lparr>fr_headers := fr_headers req @ [(''cdn-loop'', cdn_id f)]\<rparr>)
          else
            (Continue, req\<lparr>fr_headers :=
               rewrite_cdn (join_commas raw_values @ CHR '','' # cdn_id f) False (fr_headers req)\<rparr>))"

definition validate_cdn_loop_config :: "CdnLoopFilter \<Rightarrow> string \<Rightarrow> ConfigError + unit" where
  "validate_cdn_loop_config cfg listener_name =
     (if cdn_id cfg = [] then Inl (HttpFilterConfig (CdnLoopEmptyCdnId listener_name))
      else if \<not> list_all is_tchar (cdn_id cfg)
      then Inl (HttpFilterConfig (CdnLoopInvalidCdnId listener_name (cdn_id cfg)))
      else Inr ())"

section \<open>A loop ends\<close>

lemma split_on_join: "vs \<noteq> [] \<Longrightarrow> split_on CHR '','' (join_commas vs) = concat (map (split_on CHR '','') vs)"
  by (induction vs rule: join_commas.induct) (simp_all add: split_on_append)

lemma tchar_plain: "is_tchar c \<Longrightarrow> \<not> is_ows c \<and> c \<noteq> CHR '',''"
  by (auto simp: is_tchar_def is_ows_def is_ascii_digit_def is_ascii_lowercase_def
      is_ascii_uppercase_def byte_of_def)

lemma dropWhile_ows_tchar: "list_all is_tchar s \<Longrightarrow> dropWhile is_ows s = s"
  by (cases s) (auto dest: tchar_plain)

lemma trim_ows_tchar: "list_all is_tchar s \<Longrightarrow> trim_ows s = s"
  using dropWhile_ows_tchar [of "rev s"] by (simp add: trim_ows_def dropWhile_ows_tchar list_all_rev)

lemma parse_cdn_info_id: "list_all is_tchar s \<Longrightarrow> parse_cdn_info s = Some s"
proof -
  assume t: "list_all is_tchar s"
  then have w: "takeWhile is_tchar s = s" by (simp add: list_all_iff)
  moreover have "trim_ows [] = []" by (simp add: trim_ows_def)
  ultimately show ?thesis
    unfolding parse_cdn_info_def Let_def trim_ows_tchar [OF t] w by simp
qed

lemma split_on_tchar: "list_all is_tchar s \<Longrightarrow> split_on CHR '','' s = [s]"
  by (rule split_on_none) (auto simp: list_all_iff dest: tchar_plain)

lemma all_some_snoc: "all_some (xs @ [Some y]) = map_option (\<lambda>ys. ys @ [y]) (all_some xs)"
  by (simp add: all_some_def)

lemma rewrite_cdn_values:
  "map snd (filter is_cdn_loop (rewrite_cdn v done hs)) =
     (if \<not> done \<and> filter is_cdn_loop hs \<noteq> [] then [v] else [])"
  by (induction v "done" hs rule: rewrite_cdn.induct) (auto simp: is_cdn_loop_def)

definition cdn_values :: "FilterRequest \<Rightarrow> string list" where
  "cdn_values req = map snd (filter is_cdn_loop (fr_headers req))"

text \<open>The header a request leaves with names the proxies it came with, then this one.\<close>

lemma cdn_append:
  assumes id: "list_all is_tchar (cdn_id f)" and p: "parse_cdn_loop (cdn_values req) = Some ids"
    and d: "cdn_decode_headers f req = (Continue, req')"
  shows "parse_cdn_loop (cdn_values req') = Some (ids @ [cdn_id f])"
proof (cases "cdn_values req = []")
  case True
  then have h: "filter is_cdn_loop (fr_headers req) = []" by (simp add: cdn_values_def)
  then have "cdn_values req' = [cdn_id f]"
    using d p by (auto simp: cdn_decode_headers_def cdn_values_def Let_def is_cdn_loop_def
        split: if_splits)
  moreover have "ids = []" using p True by (simp add: parse_cdn_loop_def all_some_def)
  ultimately show ?thesis
    using id by (simp add: parse_cdn_loop_def all_some_def split_on_tchar parse_cdn_info_id)
next
  case False
  then have "cdn_values req' = [join_commas (cdn_values req) @ CHR '','' # cdn_id f]"
    using d p by (auto simp: cdn_decode_headers_def cdn_values_def Let_def rewrite_cdn_values
        split: if_splits)
  with False id p show ?thesis
    by (simp add: parse_cdn_loop_def split_on_append split_on_join split_on_tchar
        parse_cdn_info_id all_some_snoc)
qed

lemma cdn_decode_parsed:
  "parse_cdn_loop (cdn_values req) = Some ids \<Longrightarrow>
   fst (cdn_decode_headers f req) =
     (if count_cdn_id (cdn_id f) ids > max_allowed_occurrences f then StopAndSend loop_response else Continue)"
  by (auto simp: cdn_decode_headers_def cdn_values_def Let_def)

text \<open>A request that comes back to the same proxy, pass after pass.\<close>

fun cdn_passes :: "nat \<Rightarrow> CdnLoopFilter \<Rightarrow> FilterRequest \<Rightarrow> Decision" where
  "cdn_passes 0 f req = Continue"
| "cdn_passes (Suc n) f req =
     (case cdn_decode_headers f req of
        (Continue, req') \<Rightarrow> cdn_passes n f req'
      | (StopAndSend r, _) \<Rightarrow> StopAndSend r)"

lemma cdn_passes_count:
  assumes "list_all is_tchar (cdn_id f)" "parse_cdn_loop (cdn_values req) = Some ids"
  shows "cdn_passes n f req =
    (if n = 0 \<or> count_cdn_id (cdn_id f) ids + n \<le> max_allowed_occurrences f + 1 then Continue
     else StopAndSend loop_response)"
  using assms(2)
proof (induction n arbitrary: req ids)
  case (Suc n)
  obtain d req' where d: "cdn_decode_headers f req = (d, req')"
    by (cases "cdn_decode_headers f req") auto
  have dec: "d = (if count_cdn_id (cdn_id f) ids > max_allowed_occurrences f
                  then StopAndSend loop_response else Continue)"
    using cdn_decode_parsed [OF Suc.prems, of f] d by simp
  show ?case
  proof (cases "count_cdn_id (cdn_id f) ids > max_allowed_occurrences f")
    case True
    with d dec show ?thesis by simp
  next
    case False
    then have c: "cdn_decode_headers f req = (Continue, req')" using d dec by simp
    have "count_cdn_id (cdn_id f) (ids @ [cdn_id f]) = count_cdn_id (cdn_id f) ids + 1"
      by (simp add: count_cdn_id_def)
    with Suc.IH [OF cdn_append [OF assms(1) Suc.prems c]] c False show ?thesis by simp
  qed
qed simp

text \<open>
  With a configured identifier that the validator accepts, a well-formed request that
  keeps coming back is answered 502 exactly after \<open>max_allowed_occurrences + 1\<close> passes,
  less the ones its header already shows.
\<close>

theorem cdn_loop_ends:
  assumes "validate_cdn_loop_config f listener = Inr ()" "parse_cdn_loop (cdn_values req) = Some ids"
  shows "cdn_passes n f req =
    (if n = 0 \<or> count_cdn_id (cdn_id f) ids + n \<le> max_allowed_occurrences f + 1 then Continue
     else StopAndSend loop_response)"
proof (rule cdn_passes_count [OF _ assms(2)])
  show "list_all is_tchar (cdn_id f)"
    using assms(1) by (simp add: validate_cdn_loop_config_def split: if_splits)
qed

theorem cdn_loop_ends_witness:
  "validate_cdn_loop_config \<lparr>cdn_id = ''edge'', max_allowed_occurrences = 1\<rparr> ''l'' = Inr ()
   \<and> cdn_passes 2 \<lparr>cdn_id = ''edge'', max_allowed_occurrences = 1\<rparr>
       \<lparr>fr_method = ''GET'', fr_path = ''/'', fr_headers = [(''CDN-Loop'', ''other; v=1, edge'')],
        fr_body = None, fr_dynamic_metadata = []\<rparr> = StopAndSend loop_response"
proof -
  let ?f = "\<lparr>cdn_id = ''edge'', max_allowed_occurrences = 1\<rparr>"
  let ?r = "\<lparr>fr_method = ''GET'', fr_path = ''/'', fr_headers = [(''CDN-Loop'', ''other; v=1, edge'')],
        fr_body = None, fr_dynamic_metadata = []\<rparr>"
  have v: "validate_cdn_loop_config ?f ''l'' = Inr ()" by code_simp
  have p: "parse_cdn_loop (cdn_values ?r) = Some [''other'', ''edge'']" by code_simp
  have c: "count_cdn_id ''edge'' [''other'', ''edge''] = 1" by (simp add: count_cdn_id_def)
  from v cdn_loop_ends [OF v p, of 2] c show ?thesis by simp
qed

end
