(* ===== verification/Jwt.thy ===== *)
theory Jwt
  imports Http_Filters
begin

unbundle bit_operations_syntax

text \<open>
  JWT verification (crate \<open>envoy-jwt\<close>: \<open>base64url.rs\<close>, \<open>jwks.rs\<close>, \<open>verify.rs\<close>) and the
  filter on top of it (\<open>envoy-filter/src/jwt_authn.rs\<close>). The JSON reader and the RSA
  signature check are third-party code: they are the fields of an environment record that
  the definitions take as an argument.
\<close>

section \<open>base64url (base64url.rs)\<close>

definition b64_val :: "char \<Rightarrow> nat option" where
  "b64_val c =
     (if is_ascii_uppercase c then Some (byte_of c - 65)
      else if is_ascii_lowercase c then Some (byte_of c - 97 + 26)
      else if is_ascii_digit c then Some (byte_of c - 48 + 52)
      else if c = CHR ''-'' then Some 62
      else if c = CHR ''_'' then Some 63
      else None)"

text \<open>
  The loop, with the 32-bit buffer shifted left as it is in the source (the high bits fall
  off); the bit count stays below 14.
\<close>

fun b64_loop :: "u32 \<Rightarrow> nat \<Rightarrow> string \<Rightarrow> bytes option" where
  "b64_loop buf bits [] = Some []"
| "b64_loop buf bits (c # cs) =
     (case b64_val c of
        None \<Rightarrow> None
      | Some v \<Rightarrow>
          let buf' = push_bit 6 buf OR of_nat v in
          if bits + 6 \<ge> 8
          then map_option (\<lambda>out. ucast (drop_bit (bits + 6 - 8) buf') # out) (b64_loop buf' (bits + 6 - 8) cs)
          else b64_loop buf' (bits + 6) cs)"

definition b64_decode :: "string \<Rightarrow> bytes option" where
  "b64_decode s = b64_loop 0 0 s"

section \<open>Key sets (jwks.rs)\<close>

datatype JwtError =
    InvalidJwks | NotInForm | BadHeaderJson | BadPayloadJson | NoMatchingKey | VerificationFails
  | IssuerMismatch | Expired | NotYetValid | AudienceNotAllowed

record RsaKey =
  key_kid :: "string option"
  key_n :: bytes
  key_e :: bytes

record RawJwk =
  raw_kty :: string
  raw_kid :: "string option"
  raw_n :: "string option"
  raw_e :: "string option"

datatype Aud = AudOne string | AudMany "string list"

fun into_vec :: "Aud \<Rightarrow> string list" where
  "into_vec (AudOne s) = [s]"
| "into_vec (AudMany v) = v"

record Claims =
  claim_iss :: "string option"
  claim_aud :: "Aud option"
  claim_exp :: "int option"
  claim_nbf :: "int option"

text \<open>
  The environment: \<open>serde_json\<close> reading the three JSON shapes (\<open>None\<close> is its error; the header
  is its \<open>alg\<close> and optional \<open>kid\<close>), and the RSA PKCS#1 SHA-256 check of a message and
  signature under a modulus and exponent.
\<close>

record jwt_env =
  json_jwks :: "string \<Rightarrow> RawJwk list option"
  json_header :: "bytes \<Rightarrow> (string \<times> string option) option"
  json_claims :: "bytes \<Rightarrow> Claims option"
  rsa_verify :: "bytes \<Rightarrow> bytes \<Rightarrow> bytes \<Rightarrow> bytes \<Rightarrow> bool"

definition strip_leading_zeros :: "bytes \<Rightarrow> bytes" where
  "strip_leading_zeros v = dropWhile (\<lambda>b. b = 0) v"

definition parse_jwk :: "RawJwk \<Rightarrow> JwtError + RsaKey" where
  "parse_jwk k =
     (case raw_n k of
        None \<Rightarrow> Inl InvalidJwks
      | Some n_str \<Rightarrow> (case b64_decode n_str of
          None \<Rightarrow> Inl InvalidJwks
        | Some n \<Rightarrow> (case raw_e k of
            None \<Rightarrow> Inl InvalidJwks
          | Some e_str \<Rightarrow> (case b64_decode e_str of
              None \<Rightarrow> Inl InvalidJwks
            | Some e \<Rightarrow> Inr \<lparr>key_kid = raw_kid k, key_n = strip_leading_zeros n,
                             key_e = strip_leading_zeros e\<rparr>))))"

definition jwks_parse :: "jwt_env \<Rightarrow> string \<Rightarrow> JwtError + RsaKey list" where
  "jwks_parse env jwks_json =
     (case json_jwks env jwks_json of
        None \<Rightarrow> Inl InvalidJwks
      | Some raw \<Rightarrow>
          (case traverse parse_jwk (filter (\<lambda>k. raw_kty k = ''RSA'') raw) of
             Inl e \<Rightarrow> Inl e
           | Inr keys \<Rightarrow> if keys = [] then Inl InvalidJwks else Inr keys))"

section \<open>Verification (verify.rs)\<close>

record VerifiedJwt =
  vj_iss :: "string option"
  vj_aud :: "string list"
  vj_exp :: "int option"
  vj_nbf :: "int option"

definition split_token :: "string \<Rightarrow> (string \<times> string \<times> string) option" where
  "split_token token =
     (case split_on CHR ''.'' token of
        [h, p, s] \<Rightarrow> if h \<noteq> [] \<and> p \<noteq> [] \<and> s \<noteq> [] then Some (h, p, s) else None
      | _ \<Rightarrow> None)"

definition key_candidates :: "RsaKey list \<Rightarrow> string option \<Rightarrow> RsaKey list" where
  "key_candidates keys kid =
     (case kid of Some k \<Rightarrow> filter (\<lambda>key. key_kid key = Some k) keys | None \<Rightarrow> keys)"

definition check_claims :: "Claims \<Rightarrow> string \<Rightarrow> string list \<Rightarrow> int \<Rightarrow> JwtError + VerifiedJwt" where
  "check_claims claims expected_issuer allowed_audiences now =
     (if claim_iss claims \<noteq> Some expected_issuer then Inl IssuerMismatch
      else if (case claim_exp claims of Some expiry \<Rightarrow> now \<ge> expiry | None \<Rightarrow> False) then Inl Expired
      else if (case claim_nbf claims of Some nbf \<Rightarrow> now < nbf | None \<Rightarrow> False) then Inl NotYetValid
      else let aud = (case claim_aud claims of None \<Rightarrow> [] | Some a \<Rightarrow> into_vec a) in
        if allowed_audiences \<noteq> [] \<and> \<not> list_ex (\<lambda>a. a \<in> set allowed_audiences) aud
        then Inl AudienceNotAllowed
        else Inr \<lparr>vj_iss = claim_iss claims, vj_aud = aud, vj_exp = claim_exp claims,
                  vj_nbf = claim_nbf claims\<rparr>)"

definition verify_rs256 ::
    "jwt_env \<Rightarrow> string \<Rightarrow> RsaKey list \<Rightarrow> string \<Rightarrow> string list \<Rightarrow> int \<Rightarrow> JwtError + VerifiedJwt" where
  "verify_rs256 env token keys expected_issuer allowed_audiences now =
     (case split_token token of
        None \<Rightarrow> Inl NotInForm
      | Some (h, p, s) \<Rightarrow>
          (case b64_decode h of
             None \<Rightarrow> Inl NotInForm
           | Some header_bytes \<Rightarrow> (case json_header env header_bytes of
               None \<Rightarrow> Inl BadHeaderJson
             | Some (alg, kid) \<Rightarrow> (case b64_decode p of
                 None \<Rightarrow> Inl NotInForm
               | Some payload_bytes \<Rightarrow> (case json_claims env payload_bytes of
                   None \<Rightarrow> Inl BadPayloadJson
                 | Some claims \<Rightarrow> (case b64_decode s of
                     None \<Rightarrow> Inl NotInForm
                   | Some sig \<Rightarrow>
                       if alg \<noteq> ''RS256'' then Inl NoMatchingKey
                       else let candidates = key_candidates keys kid in
                         if candidates = [] then Inl NoMatchingKey
                         else if \<not> list_ex (\<lambda>k. rsa_verify env (key_n k) (key_e k)
                                    (as_bytes (take (length h + 1 + length p) token)) sig) candidates
                         then Inl VerificationFails
                         else check_claims claims expected_issuer allowed_audiences now))))))"

section \<open>The filter (jwt_authn.rs)\<close>

record JwtProvider =
  jp_issuer :: string
  jp_audiences :: "string list"
  jp_local_jwks :: DataSource
  jp_forward :: bool

record RequirementRule =
  rr_match :: RouteMatch
  rr_provider_name :: string

record JwtAuthnConfig =
  ja_providers :: "(string, JwtProvider) btmap"
  ja_rules :: "RequirementRule list"

record CompiledProvider =
  cp_issuer :: string
  cp_audiences :: "string list"
  cp_jwks :: "RsaKey list"
  cp_forward :: bool

record CompiledRule =
  cr_match :: RouteMatch
  cr_provider :: CompiledProvider

record JwtAuthnFilter =
  jf_rules :: "CompiledRule list"
  jf_allowed :: nat
  jf_denied :: nat

definition compile_provider :: "jwt_env \<Rightarrow> string \<times> JwtProvider \<Rightarrow> FilterError + string \<times> CompiledProvider" where
  "compile_provider env np =
     (case np of (name, p) \<Rightarrow>
        (case ds_inline_string (jp_local_jwks p) of
           None \<Rightarrow> Inl (InvalidConfig (ProviderMsg name))
         | Some jwks_json \<Rightarrow> (case jwks_parse env jwks_json of
             Inl _ \<Rightarrow> Inl (InvalidConfig (ProviderMsg name))
           | Inr keys \<Rightarrow> Inr (name, \<lparr>cp_issuer = jp_issuer p, cp_audiences = jp_audiences p,
                                     cp_jwks = keys, cp_forward = jp_forward p\<rparr>))))"

definition compile_rule :: "(string, CompiledProvider) btmap \<Rightarrow> RequirementRule \<Rightarrow> FilterError + CompiledRule" where
  "compile_rule compiled r =
     (case bt_get compiled (rr_provider_name r) of
        None \<Rightarrow> Inl (InvalidConfig (ProviderMsg (rr_provider_name r)))
      | Some p \<Rightarrow> Inr \<lparr>cr_match = rr_match r, cr_provider = p\<rparr>)"

definition jwt_build :: "jwt_env \<Rightarrow> JwtAuthnConfig \<Rightarrow> string \<Rightarrow> stats \<Rightarrow> (FilterError + JwtAuthnFilter) \<times> stats" where
  "jwt_build env cfg pfx st =
     (case traverse (compile_provider env) (bt_entries (ja_providers cfg)) of
        Inl e \<Rightarrow> (Inl e, st)
      | Inr nps \<Rightarrow> (case traverse (compile_rule (bt_of_list nps)) (ja_rules cfg) of
          Inl e \<Rightarrow> (Inl e, st)
        | Inr rules \<Rightarrow>
            (case register_all st [filter_stat pfx ''jwt_authn.allowed'', filter_stat pfx ''jwt_authn.denied''] of
               (Inl e, st') \<Rightarrow> (Inl e, st')
             | (Inr cs, st') \<Rightarrow>
                 (Inr \<lparr>jf_rules = rules, jf_allowed = cs ! 0, jf_denied = cs ! 1\<rparr>, st'))))"

definition bearer_token :: "headers \<Rightarrow> string option" where
  "bearer_token hs =
     (case header_ci hs ''authorization'' of
        None \<Rightarrow> None
      | Some v \<Rightarrow> if starts_with v ''Bearer '' then Some (drop 7 v) else None)"

definition strip_authorization :: "headers \<Rightarrow> headers" where
  "strip_authorization hs = filter (\<lambda>(k, _). \<not> eq_ignore_ascii_case k ''authorization'') hs"

definition realm :: "string \<Rightarrow> headers \<Rightarrow> string" where
  "realm path hs = ''http://'' @ (case header_ci hs ''host'' of None \<Rightarrow> [] | Some h \<Rightarrow> h) @ path"

definition route_match_matches :: "RouteMatch \<Rightarrow> string \<Rightarrow> headers \<Rightarrow> bool option" where
  "route_match_matches m path hs =
     (let path_ok = (case (rm_prefix m, rm_path m) of
                       (Some p, None) \<Rightarrow> starts_with path p
                     | (None, Some p) \<Rightarrow> path = p
                     | _ \<Rightarrow> False) in
      if \<not> path_ok then Some False else all_opt (\<lambda>hm. header_matches hm hs) (rm_headers m))"

definition www_authenticate :: "string \<Rightarrow> bool \<Rightarrow> string \<times> string" where
  "www_authenticate rlm with_error =
     (''www-authenticate'',
      ''Bearer realm='' @ [CHR 0x22] @ rlm @ [CHR 0x22]
      @ (if with_error then '', error='' @ [CHR 0x22] @ ''invalid_token'' @ [CHR 0x22] else []))"

definition jwt_reply :: "nat \<Rightarrow> string \<Rightarrow> bool \<Rightarrow> string \<Rightarrow> Decision" where
  "jwt_reply status rlm with_error body = StopAndSend
     \<lparr>fs_status = status, fs_reason = Some (if status = 403 then ''Forbidden'' else ''Unauthorized''),
      fs_headers = [www_authenticate rlm with_error], fs_body = as_bytes body,
      fs_details = None, fs_headers_only = False\<rparr>"

definition missing_reply :: "string \<Rightarrow> Decision" where
  "missing_reply rlm = jwt_reply 401 rlm False ''Jwt is missing''"

definition error_reply :: "JwtError \<Rightarrow> string \<Rightarrow> Decision" where
  "error_reply e rlm =
     (case e of
        NotInForm \<Rightarrow> jwt_reply 401 rlm True
          ''Jwt is not in the form of Header.Payload.Signature with two dots and 3 sections''
      | BadHeaderJson \<Rightarrow> jwt_reply 401 rlm True ''Jwt header is an invalid JSON''
      | BadPayloadJson \<Rightarrow> jwt_reply 401 rlm True ''Jwt payload is an invalid JSON''
      | NoMatchingKey \<Rightarrow> jwt_reply 401 rlm True (''Jwks doesn'' @ CHR 0x27 # ''t have key to match kid or alg from Jwt'')
      | VerificationFails \<Rightarrow> jwt_reply 401 rlm True ''Jwt verification fails''
      | IssuerMismatch \<Rightarrow> jwt_reply 401 rlm True ''Jwt issuer is not configured''
      | Expired \<Rightarrow> jwt_reply 401 rlm True ''Jwt is expired''
      | NotYetValid \<Rightarrow> jwt_reply 401 rlm True ''Jwt not yet valid''
      | AudienceNotAllowed \<Rightarrow> jwt_reply 403 rlm True ''Audiences in Jwt are not allowed''
      | InvalidJwks \<Rightarrow> jwt_reply 401 rlm True ''Jwt verification fails'')"

definition jwt_decode ::
    "jwt_env \<Rightarrow> JwtAuthnFilter \<Rightarrow> FilterRequest \<Rightarrow> world \<Rightarrow> (Decision \<times> FilterRequest \<times> world) option" where
  "jwt_decode env f req w =
     (case find_opt (\<lambda>r. route_match_matches (cr_match r) (fr_path req) (fr_headers req)) (jf_rules f) of
        None \<Rightarrow> None
      | Some None \<Rightarrow> Some (Continue, req, w_inc (jf_allowed f) w)
      | Some (Some rule) \<Rightarrow>
          let provider = cr_provider rule; rlm = realm (fr_path req) (fr_headers req) in
          (case bearer_token (fr_headers req) of
             None \<Rightarrow> Some (missing_reply rlm, req, w_inc (jf_denied f) w)
           | Some token \<Rightarrow>
               (case verify_rs256 env token (cp_jwks provider) (cp_issuer provider)
                       (cp_audiences provider) (int (w_unix w)) of
                  Inr _ \<Rightarrow>
                    Some (Continue,
                      (if \<not> cp_forward provider
                       then req\<lparr>fr_headers := strip_authorization (fr_headers req)\<rparr> else req),
                      w_inc (jf_allowed f) w)
                | Inl e \<Rightarrow> Some (error_reply e rlm, req, w_inc (jf_denied f) w))))"

definition validate_jwt_provider :: "jwt_env \<Rightarrow> string \<Rightarrow> string \<times> JwtProvider \<Rightarrow> ConfigError + unit" where
  "validate_jwt_provider env listener np =
     (let bad = HttpFilterConfig (JwtAuthnInvalidJwks listener (fst np)) in
      case ds_inline_string (jp_local_jwks (snd np)) of
        None \<Rightarrow> Inl bad
      | Some jwks \<Rightarrow> (case jwks_parse env jwks of Inl _ \<Rightarrow> Inl bad | Inr _ \<Rightarrow> Inr ()))"

definition validate_jwt_rule :: "JwtAuthnConfig \<Rightarrow> string \<Rightarrow> RequirementRule \<Rightarrow> ConfigError + unit" where
  "validate_jwt_rule cfg listener rule = checks
     [reject_if (bt_get (ja_providers cfg) (rr_provider_name rule) = None)
        (HttpFilterConfig (JwtAuthnUnknownProvider listener (rr_provider_name rule))),
      validate_route_match_cardinality (rm_prefix (rr_match rule) \<noteq> None) (rm_path (rr_match rule) \<noteq> None),
      reject_if (rm_runtime_fraction (rr_match rule) \<noteq> None)
        (HttpFilterConfig (UnsupportedRuntimeFractionInJwtRule listener))]"

definition validate_jwt_authn_config :: "jwt_env \<Rightarrow> JwtAuthnConfig \<Rightarrow> string \<Rightarrow> ConfigError + unit" where
  "validate_jwt_authn_config env cfg listener = checks
     (reject_if (ja_providers cfg = []) (HttpFilterConfig (JwtAuthnNoProviders listener))
      # map (validate_jwt_provider env listener) (bt_entries (ja_providers cfg))
      @ map (validate_jwt_rule cfg listener) (ja_rules cfg))"

section \<open>base64url round trip\<close>

text \<open>The encoder of RFC 4648, section 5, without padding.\<close>

definition b64_char :: "nat \<Rightarrow> char" where
  "b64_char v =
     (if v < 26 then char_of (65 + v) else if v < 52 then char_of (71 + v)
      else if v < 62 then char_of (v - 4) else if v = 62 then CHR ''-'' else CHR ''_'')"

fun b64_encode :: "bytes \<Rightarrow> string" where
  "b64_encode [] = []"
| "b64_encode [a] = [b64_char (unat a div 4), b64_char (unat a mod 4 * 16)]"
| "b64_encode [a, b] =
     [b64_char (unat a div 4), b64_char (unat a mod 4 * 16 + unat b div 16),
      b64_char (unat b mod 16 * 4)]"
| "b64_encode (a # b # c # bs) =
     [b64_char (unat a div 4), b64_char (unat a mod 4 * 16 + unat b div 16),
      b64_char (unat b mod 16 * 4 + unat c div 64), b64_char (unat c mod 64)]
     @ b64_encode bs"

text \<open>The loop on numbers: \<open>r\<close> is what the low \<open>bits\<close> bits of the buffer hold.\<close>

fun b64_spec :: "nat \<Rightarrow> nat \<Rightarrow> nat list \<Rightarrow> bytes" where
  "b64_spec r bits [] = []"
| "b64_spec r bits (v # vs) =
     (if bits + 6 \<ge> 8
      then of_nat ((r * 64 + v) div 2 ^ (bits + 6 - 8))
           # b64_spec ((r * 64 + v) mod 2 ^ (bits + 6 - 8)) (bits + 6 - 8) vs
      else b64_spec (r * 64 + v) (bits + 6) vs)"

lemma bit_below_64: "v < 64 \<Longrightarrow> bit (v :: nat) n \<Longrightarrow> n < 6"
proof (rule ccontr)
  assume v: "v < 64" "bit v n" and n: "\<not> n < 6"
  then have "(2 :: nat) ^ 6 \<le> 2 ^ n" by (intro power_increasing) auto
  then have "v div 2 ^ n = 0" using v(1) by simp
  with v(2) show False by (simp add: bit_iff_odd)
qed

lemma unat_buf_step:
  fixes buf :: u32
  assumes "v < 64"
  shows "unat (push_bit 6 buf OR of_nat v) = (unat buf * 64 + v) mod 2 ^ 32"
proof -
  have "push_bit 6 buf AND of_nat v = 0"
    by (rule bit_word_eqI) (auto simp: bit_and_iff bit_push_bit_iff bit_of_nat_iff dest: bit_below_64 [OF assms])
  then have "push_bit 6 buf OR of_nat v = push_bit 6 buf + of_nat v"
    by (rule disjunctive_add_eq_or [symmetric])
  also have "\<dots> = of_nat (unat buf * 64 + v)"
    by (simp add: push_bit_eq_mult)
  finally have e: "push_bit 6 buf OR of_nat v = of_nat (unat buf * 64 + v)" .
  show ?thesis unfolding e unat_of_nat by simp
qed

lemma mod_pow_small: "k \<le> 32 \<Longrightarrow> x mod 2 ^ 32 mod 2 ^ k = x mod (2 ^ k :: nat)"
  by (rule mod_mod_cancel) (rule le_imp_power_dvd)

lemma shift_mod:
  fixes x :: nat
  assumes "x mod 2 ^ k = r"
  shows "(x * 64 + v) mod 2 ^ (k + 6) = (r * 64 + v mod 2 ^ (k + 6)) mod 2 ^ (k + 6)"
proof -
  have "x * 64 mod 2 ^ (k + 6) = r * 64"
    using assms by (simp add: power_add mult_mod_left)
  then show ?thesis by (metis mod_add_left_eq mod_add_right_eq)
qed

lemma buf_window:
  fixes buf :: u32
  assumes "unat buf mod 2 ^ bits = r" "v < 64" "bits < 8"
  shows "unat (push_bit 6 buf OR of_nat v) mod 2 ^ (bits + 6) = r * 64 + v"
proof -
  have "r < 2 ^ bits" using assms(1) by (metis mod_less_divisor pos2 zero_less_power)
  then have "(r + 1) * 64 \<le> 2 ^ bits * 64" by (intro mult_le_mono1) simp
  then have "r * 64 + v < 2 ^ bits * 64" using assms(2) by (simp add: algebra_simps)
  then have lt: "r * 64 + v < 2 ^ (bits + 6)" by (simp add: power_add)
  have "unat (push_bit 6 buf OR of_nat v) mod 2 ^ (bits + 6) = (unat buf * 64 + v) mod 2 ^ (bits + 6)"
    unfolding unat_buf_step [OF assms(2)] using assms(3) by (intro mod_pow_small) simp
  also have "\<dots> = (r * 64 + v) mod 2 ^ (bits + 6)"
    using shift_mod [OF assms(1), of v] by (metis mod_add_right_eq)
  also have "\<dots> = r * 64 + v" using lt by simp
  finally show ?thesis .
qed

lemma top_byte:
  fixes b :: u32
  assumes "unat b mod 2 ^ (k + 8) = x"
  shows "(ucast (drop_bit k b) :: u8) = of_nat (x div 2 ^ k)"
proof -
  have "(ucast (drop_bit k b) :: u8) = of_nat (unat (drop_bit k b))" by simp
  also have "unat (drop_bit k b) = unat b div 2 ^ k" by (subst unat_drop_bit_eq) (rule drop_bit_eq_div)
  also have "(of_nat (unat b div 2 ^ k) :: u8) = of_nat (unat b div 2 ^ k mod 2 ^ 8)"
    by (simp add: word_of_nat_eq_iff take_bit_eq_mod)
  also have "unat b div 2 ^ k mod 2 ^ 8 = x div 2 ^ k"
    unfolding div_exp_mod_exp_eq assms ..
  finally show ?thesis .
qed

lemma b64_loop_spec:
  "list_all2 (\<lambda>c v. b64_val c = Some v \<and> v < 64) s vs \<Longrightarrow> unat buf mod 2 ^ bits = r \<Longrightarrow> bits < 8 \<Longrightarrow>
   b64_loop buf bits s = Some (b64_spec r bits vs)"
proof (induction s vs arbitrary: buf bits r rule: list_all2_induct)
  case (Cons c s v vs)
  let ?b = "push_bit 6 buf OR of_nat v"
  have v: "b64_val c = Some v" "v < 64" using Cons.hyps(1) by auto
  note win = buf_window [OF Cons.prems(1) v(2) Cons.prems(2)]
  show ?case
  proof (cases "bits + 6 \<ge> 8")
    case True
    define k where "k = bits + 6 - 8"
    have k: "bits + 6 = k + 8" "k < 8" using True Cons.prems(2) by (auto simp: k_def)
    have "unat ?b mod 2 ^ k = unat ?b mod 2 ^ (k + 8) mod 2 ^ k"
      by (rule mod_mod_cancel [symmetric]) (simp add: le_imp_power_dvd)
    then have "unat ?b mod 2 ^ k = (r * 64 + v) mod 2 ^ k" unfolding win [unfolded k(1)] .
    note ih = Cons.IH [OF this k(2)]
    have l: "b64_loop buf bits (c # s) = map_option (\<lambda>out. ucast (drop_bit k ?b) # out) (b64_loop ?b k s)"
      using True by (simp add: v(1) Let_def k_def)
    have r: "b64_spec r bits (v # vs) =
        of_nat ((r * 64 + v) div 2 ^ k) # b64_spec ((r * 64 + v) mod 2 ^ k) k vs"
      using True by (simp add: k_def)
    have "(ucast (drop_bit k ?b) :: u8) = of_nat ((r * 64 + v) div 2 ^ k)"
      by (rule top_byte) (rule win [unfolded k(1)])
    then show ?thesis unfolding l r ih by simp
  next
    case False
    from Cons.IH [OF win] False show ?thesis by (simp add: v(1) Let_def)
  qed
qed simp

lemma b64_val_char: "v < 64 \<Longrightarrow> b64_val (b64_char v) = Some v"
  by (auto simp: b64_char_def b64_val_def is_ascii_uppercase_def is_ascii_lowercase_def
      is_ascii_digit_def byte_of_char_of) (simp_all add: byte_of_def)

fun b64_groups :: "bytes \<Rightarrow> nat list" where
  "b64_groups [] = []"
| "b64_groups [a] = [unat a div 4, unat a mod 4 * 16]"
| "b64_groups [a, b] = [unat a div 4, unat a mod 4 * 16 + unat b div 16, unat b mod 16 * 4]"
| "b64_groups (a # b # c # bs) =
     [unat a div 4, unat a mod 4 * 16 + unat b div 16, unat b mod 16 * 4 + unat c div 64, unat c mod 64]
     @ b64_groups bs"

lemma byte_bounds: "unat (a :: u8) div 4 < 64" "unat a div 16 < 16" "unat a div 64 < 4"
  using unsigned_less [of a, where ?'a = nat] by auto

lemma group_sums:
  "x div 4 * 64 + (x mod 4 * 16 + q) = x * 16 + (q :: nat)"
  "y div 16 * 64 + (y mod 16 * 4 + q) = y * 4 + q"
  "z div 64 * 64 + z mod 64 = (z :: nat)"
  "x div 4 * 64 + x mod 4 * 16 = x * 16"
  "y div 16 * 64 + y mod 16 * 4 = y * 4"
  using div_mult_mod_eq [of x 4] div_mult_mod_eq [of y 16] by (linarith | simp)+

lemma b64_encode_groups:
  "list_all2 (\<lambda>c v. b64_val c = Some v \<and> v < 64) (b64_encode bs) (b64_groups bs)"
proof (induction bs rule: b64_encode.induct)
  case (2 a)
  then show ?case using byte_bounds [of a] by (simp add: b64_val_char)
next
  case (3 a b)
  have "unat a mod 4 * 16 + unat b div 16 < 64" using byte_bounds(2) [of b] by arith
  then show ?case using byte_bounds [of a] by (simp add: b64_val_char)
next
  case (4 a b c bs)
  have "unat a mod 4 * 16 + unat b div 16 < 64" "unat b mod 16 * 4 + unat c div 64 < 64"
    using byte_bounds(2) [of b] byte_bounds(3) [of c] by arith+
  then show ?case using byte_bounds [of a] 4 by (simp add: b64_val_char)
qed simp

lemma b64_spec_groups: "b64_spec 0 0 (b64_groups bs) = bs"
proof (induction bs rule: b64_groups.induct)
  case (2 a)
  then show ?case by (simp add: group_sums)
next
  case (3 a b)
  then show ?case using byte_bounds(2) [of b] by (simp add: group_sums)
next
  case (4 a b c bs)
  then show ?case using byte_bounds(2) [of b] byte_bounds(3) [of c]
    by (simp add: group_sums del: of_nat_add of_nat_mult)
qed simp

text \<open>What the RFC's encoder writes, the decoder reads back.\<close>

theorem base64url_roundtrip: "b64_decode (b64_encode bs) = Some bs"
  using b64_loop_spec [OF b64_encode_groups [of bs], of 0 0 0]
  by (simp add: b64_decode_def b64_spec_groups)

section \<open>What an accepted token proves\<close>

lemma split_on_join_dots: "split_on sep s = [a, b, c] \<Longrightarrow> s = a @ sep # b @ sep # c"
proof -
  have "s = concat (map (\<lambda>w. w @ [sep]) (butlast (split_on sep s))) @ List.last (split_on sep s)" for s
    by (induction s) (auto split: list.splits)
  from this [of s] show "split_on sep s = [a, b, c] \<Longrightarrow> ?thesis" by simp
qed

text \<open>
  A token is good for a provider at a time: its first two sections are signed under one of
  the provider's keys, its issuer is the provider's, it has not expired and is already
  valid, and one of its audiences is allowed when the provider restricts them.
\<close>

definition token_good :: "jwt_env \<Rightarrow> RsaKey list \<Rightarrow> string \<Rightarrow> string list \<Rightarrow> int \<Rightarrow> string \<Rightarrow> bool" where
  "token_good env keys issuer audiences now token \<longleftrightarrow>
     (\<exists>h p s hb pb sig kid claims key.
        token = h @ CHR ''.'' # p @ CHR ''.'' # s
        \<and> b64_decode h = Some hb \<and> json_header env hb = Some (''RS256'', kid)
        \<and> b64_decode p = Some pb \<and> json_claims env pb = Some claims
        \<and> b64_decode s = Some sig
        \<and> key \<in> set keys \<and> (kid = None \<or> key_kid key = kid)
        \<and> rsa_verify env (key_n key) (key_e key) (as_bytes (h @ CHR ''.'' # p)) sig
        \<and> claim_iss claims = Some issuer
        \<and> (claim_exp claims = None \<or> now < the (claim_exp claims))
        \<and> (claim_nbf claims = None \<or> the (claim_nbf claims) \<le> now)
        \<and> (audiences = [] \<or> (\<exists>a \<in> set audiences. \<exists>aud. claim_aud claims = Some aud \<and> a \<in> set (into_vec aud))))"

lemma check_claims_ok:
  "check_claims claims issuer audiences now = Inr v \<Longrightarrow>
     claim_iss claims = Some issuer
     \<and> (claim_exp claims = None \<or> now < the (claim_exp claims))
     \<and> (claim_nbf claims = None \<or> the (claim_nbf claims) \<le> now)
     \<and> (audiences = [] \<or> (\<exists>a \<in> set audiences. \<exists>aud. claim_aud claims = Some aud \<and> a \<in> set (into_vec aud)))"
  by (cases "claim_aud claims")
    (auto simp: check_claims_def Let_def list_ex_iff split: if_splits option.splits)

lemma verify_rs256_good:
  assumes "verify_rs256 env token keys issuer audiences now = Inr v"
  shows "token_good env keys issuer audiences now token"
proof -
  obtain h p s where sp: "split_token token = Some (h, p, s)"
    using assms by (auto simp: verify_rs256_def split: option.splits)
  then have tok: "token = h @ CHR ''.'' # p @ CHR ''.'' # s"
    by (auto simp: split_token_def split: list.splits if_splits dest: split_on_join_dots)
  obtain hb kid pb claims sig where parts:
    "b64_decode h = Some hb" "json_header env hb = Some (''RS256'', kid)" "b64_decode p = Some pb"
    "json_claims env pb = Some claims" "b64_decode s = Some sig"
    and sigd: "list_ex (\<lambda>k. rsa_verify env (key_n k) (key_e k)
        (as_bytes (take (length h + 1 + length p) token)) sig) (key_candidates keys kid)"
    and cl: "check_claims claims issuer audiences now = Inr v"
    using assms sp by (auto simp: verify_rs256_def Let_def split: option.splits if_splits)
  have "take (length h + 1 + length p) token = h @ CHR ''.'' # p" using tok by simp
  with sigd obtain key where key: "key \<in> set (key_candidates keys kid)"
      "rsa_verify env (key_n key) (key_e key) (as_bytes (h @ CHR ''.'' # p)) sig"
    by (auto simp: list_ex_iff)
  have "key \<in> set keys \<and> (kid = None \<or> key_kid key = kid)"
    using key(1) by (auto simp: key_candidates_def split: option.splits)
  with tok parts key(2) check_claims_ok [OF cl] show ?thesis unfolding token_good_def by metis
qed

lemma strip_authorization_none: "header_ci (strip_authorization hs) ''authorization'' = None"
  by (induction hs) (auto simp: strip_authorization_def)

text \<open>
  C24. A request that a rule of the filter matches continues only with a bearer token that is
  good for the rule's provider, and, unless the provider forwards it, without any
  \<open>Authorization\<close> header.
\<close>

theorem jwt_filter_sound:
  assumes "find_opt (\<lambda>r. route_match_matches (cr_match r) (fr_path req) (fr_headers req)) (jf_rules f) = Some (Some r)"
    "jwt_decode env f req w = Some (Continue, req', w')"
  shows "(\<exists>token. header_ci (fr_headers req) ''authorization'' = Some (''Bearer '' @ token)
            \<and> token_good env (cp_jwks (cr_provider r)) (cp_issuer (cr_provider r))
                 (cp_audiences (cr_provider r)) (int (w_unix w)) token)
         \<and> (cp_forward (cr_provider r) \<or> header_ci (fr_headers req') ''authorization'' = None)"
proof -
  obtain token v where t: "bearer_token (fr_headers req) = Some token"
    and v: "verify_rs256 env token (cp_jwks (cr_provider r)) (cp_issuer (cr_provider r))
              (cp_audiences (cr_provider r)) (int (w_unix w)) = Inr v"
    and r': "req' = (if \<not> cp_forward (cr_provider r)
                     then req\<lparr>fr_headers := strip_authorization (fr_headers req)\<rparr> else req)"
    using assms
    by (auto simp: jwt_decode_def Let_def missing_reply_def error_reply_def jwt_reply_def
        split: option.splits sum.splits JwtError.splits)
  have "header_ci (fr_headers req) ''authorization'' = Some (''Bearer '' @ token)"
    using t by (auto simp: bearer_token_def starts_with_iff prefix_def split: option.splits if_splits)
  moreover have "cp_forward (cr_provider r) \<or> header_ci (fr_headers req') ''authorization'' = None"
    using r' by (simp add: strip_authorization_none)
  ultimately show ?thesis using verify_rs256_good [OF v] by blast
qed

definition demo_jwt_env :: jwt_env where
  "demo_jwt_env = \<lparr>json_jwks = (\<lambda>_. None), json_header = (\<lambda>_. Some (''RS256'', None)),
     json_claims = (\<lambda>_. Some \<lparr>claim_iss = Some ''me'', claim_aud = Some (AudOne ''api''),
                              claim_exp = Some 10, claim_nbf = None\<rparr>),
     rsa_verify = (\<lambda>n e m sig. sig = n)\<rparr>"

definition demo_jwt_filter :: JwtAuthnFilter where
  "demo_jwt_filter = \<lparr>jf_rules = [\<lparr>cr_match = \<lparr>rm_prefix = Some ''/'', rm_path = None, rm_headers = [],
       rm_runtime_fraction = None\<rparr>,
     cr_provider = \<lparr>cp_issuer = ''me'', cp_audiences = [''api''],
       cp_jwks = [\<lparr>key_kid = None, key_n = [1], key_e = [3]\<rparr>], cp_forward = False\<rparr>\<rparr>],
     jf_allowed = 0, jf_denied = 1\<rparr>"

definition demo_jwt_request :: FilterRequest where
  "demo_jwt_request = \<lparr>fr_method = ''GET'', fr_path = ''/x'',
     fr_headers = [(''host'', ''h''), (''Authorization'', ''Bearer QQ.QQ.AQ'')],
     fr_body = None, fr_dynamic_metadata = []\<rparr>"

definition demo_world :: "nat \<Rightarrow> world" where
  "demo_world now = \<lparr>w_stats = \<lparr>reg_map = [], counters = [0, 0], gauges = []\<rparr>, w_buckets = [],
     w_now = 0, w_unix = now\<rparr>"

theorem jwt_filter_sound_witness:
  "token_good demo_jwt_env [\<lparr>key_kid = None, key_n = [1], key_e = [3]\<rparr>] ''me'' [''api''] 9 ''QQ.QQ.AQ''
   \<and> map_option fst (jwt_decode demo_jwt_env demo_jwt_filter demo_jwt_request (demo_world 10))
     = Some (error_reply Expired ''http://h/x'')"
proof
  let ?r = "hd (jf_rules demo_jwt_filter)"
  obtain req' w' where d: "jwt_decode demo_jwt_env demo_jwt_filter demo_jwt_request (demo_world 9) = Some (Continue, req', w')"
  proof -
    have "map_option fst (jwt_decode demo_jwt_env demo_jwt_filter demo_jwt_request (demo_world 9)) = Some Continue"
      by code_simp
    then show ?thesis using that by auto
  qed
  have a: "header_ci (fr_headers demo_jwt_request) ''authorization'' = Some ''Bearer QQ.QQ.AQ''"
    by code_simp
  have f: "find_opt (\<lambda>r. route_match_matches (cr_match r) (fr_path demo_jwt_request) (fr_headers demo_jwt_request))
      (jf_rules demo_jwt_filter) = Some (Some ?r)"
    by (simp add: demo_jwt_filter_def demo_jwt_request_def route_match_matches_def starts_with_def)
  show "token_good demo_jwt_env [\<lparr>key_kid = None, key_n = [1], key_e = [3]\<rparr>] ''me'' [''api''] 9 ''QQ.QQ.AQ''"
    using jwt_filter_sound [OF f d] a by (auto simp: demo_jwt_filter_def demo_world_def)
  show "map_option fst (jwt_decode demo_jwt_env demo_jwt_filter demo_jwt_request (demo_world 10))
     = Some (error_reply Expired ''http://h/x'')"
    by code_simp
qed

end
