(* ===== verification/Filter_Pipeline.thy ===== *)
theory Filter_Pipeline
  imports Rbac Cdn_Loop Jwt
begin

text \<open>
  The filter chain: the configuration of one filter and the check of a chain
  (\<open>bootstrap.rs\<close>), the sum of the filters (\<open>envoy-filter/src/instance.rs\<close>) and the
  pipeline that runs them (\<open>pipeline.rs\<close>), with what the HTTP/1 connection manager does
  with the pipeline over the life of a connection.
\<close>

section \<open>Configuration\<close>

datatype HttpFilterTypedConfig =
    TcRouter
  | TcHeaderMutation HeaderMutationConfig
  | TcLocalRateLimit LocalRateLimitConfig
  | TcRbac Rules
  | TcFault FaultConfig
  | TcJwtAuthn JwtAuthnConfig
  | TcCors
  | TcCsrf CsrfPolicy
  | TcBuffer nat
  | TcCdnLoop CdnLoopFilter
  | TcSetMetadata "MetadataEntry list"
  | TcHeaderToMetadata "HeaderToMetadataRule list"
  | TcHealthCheck HealthCheckFilterConfig

record HttpFilter =
  hf_name :: string
  hf_typed_config :: HttpFilterTypedConfig

fun expected_name :: "HttpFilterTypedConfig \<Rightarrow> string" where
  "expected_name TcRouter = ''envoy.filters.http.router''"
| "expected_name (TcHeaderMutation _) = ''envoy.filters.http.header_mutation''"
| "expected_name (TcLocalRateLimit _) = ''envoy.filters.http.local_ratelimit''"
| "expected_name (TcRbac _) = ''envoy.filters.http.rbac''"
| "expected_name (TcFault _) = ''envoy.filters.http.fault''"
| "expected_name (TcJwtAuthn _) = ''envoy.filters.http.jwt_authn''"
| "expected_name TcCors = ''envoy.filters.http.cors''"
| "expected_name (TcCsrf _) = ''envoy.filters.http.csrf''"
| "expected_name (TcBuffer _) = ''envoy.filters.http.buffer''"
| "expected_name (TcCdnLoop _) = ''envoy.filters.http.cdn_loop''"
| "expected_name (TcSetMetadata _) = ''envoy.filters.http.set_metadata''"
| "expected_name (TcHeaderToMetadata _) = ''envoy.filters.http.header_to_metadata''"
| "expected_name (TcHealthCheck _) = ''envoy.filters.http.health_check''"

definition is_valid_rfc7230_token :: "string \<Rightarrow> bool" where
  "is_valid_rfc7230_token s \<longleftrightarrow> s \<noteq> [] \<and> list_all is_tchar s"

definition validate_header_mutation_entry :: "string \<Rightarrow> nat \<Rightarrow> HeaderValueOption \<Rightarrow> ConfigError + unit" where
  "validate_header_mutation_entry listener i e =
     (if hv_key e = [] then Inl (HttpFilterConfig (EmptyHeaderMutationKey listener i))
      else if \<not> is_valid_rfc7230_token (hv_key e)
      then Inl (HttpFilterConfig (InvalidHeaderMutationKey listener i (hv_key e)))
      else case hv_append_action e of
        AddIfAbsent \<Rightarrow>
          Inl (HttpFilterConfig (UnsupportedHeaderMutationAppendAction listener i ''ADD_IF_ABSENT''))
      | OverwriteIfExists \<Rightarrow>
          Inl (HttpFilterConfig (UnsupportedHeaderMutationAppendAction listener i ''OVERWRITE_IF_EXISTS''))
      | _ \<Rightarrow> Inr ())"

definition validate_header_mutation_entries :: "HeaderValueOption list \<Rightarrow> string \<Rightarrow> ConfigError + unit" where
  "validate_header_mutation_entries entries listener = checks_idx (validate_header_mutation_entry listener) entries"

definition validate_local_rate_limit_config :: "LocalRateLimitConfig \<Rightarrow> string \<Rightarrow> ConfigError + unit" where
  "validate_local_rate_limit_config cfg listener =
     (if lrl_stat_prefix cfg = [] then Inl (HttpFilterConfig (EmptyLocalRateLimitStatPrefix listener))
      else if lrl_max_tokens cfg = 0 then Inl (HttpFilterConfig (TokenBucketMaxTokensMustBePositive listener))
      else case lrl_fill_interval cfg of
        None \<Rightarrow> Inl (HttpFilterConfig (InvalidTokenBucketFillInterval listener))
      | Some fill \<Rightarrow> (case parse_duration fill of
          Inl _ \<Rightarrow> Inl (HttpFilterConfig (InvalidTokenBucketFillInterval listener))
        | Inr dur \<Rightarrow>
            if dur = 0 then Inl (HttpFilterConfig (InvalidTokenBucketFillInterval listener))
            else if lrl_status cfg \<noteq> 429
            then Inl (HttpFilterConfig (UnsupportedLocalRateLimitStatusCode listener (lrl_status cfg)))
            else Inr ()))"

definition validate_fault_config :: "FaultConfig \<Rightarrow> string \<Rightarrow> ConfigError + unit" where
  "validate_fault_config cfg listener =
     (let d = denominator_value (denominator (fault_percentage cfg));
          n = numerator (fault_percentage cfg) in
      if \<not> (100 \<le> fault_http_status cfg \<and> fault_http_status cfg \<le> 599)
      then Inl (HttpFilterConfig (InvalidFaultAbortStatus listener (fault_http_status cfg)))
      else if n > d then Inl (HttpFilterConfig (FaultPercentageOutOfRange listener n d))
      else if n \<noteq> 0 \<and> n \<noteq> d then Inl (HttpFilterConfig (UnsupportedFractionalFaultPercentage listener n d))
      else Inr ())"

definition validate_health_check_config ::
    "regex_new \<Rightarrow> HealthCheckFilterConfig \<Rightarrow> string \<Rightarrow> ConfigError + unit" where
  "validate_health_check_config rx cfg listener =
     (if pass_through_mode cfg then Inl (HttpFilterConfig (UnsupportedHealthCheckField listener ''pass_through_mode: true''))
      else if cache_time_set cfg then Inl (HttpFilterConfig (UnsupportedHealthCheckField listener ''cache_time''))
      else if cluster_min_healthy_percentages_set cfg
      then Inl (HttpFilterConfig (UnsupportedHealthCheckField listener ''cluster_min_healthy_percentages''))
      else checks (map (\<lambda>hm.
        if starts_with (hm_name hm) '':'' \<and> \<not> eq_ignore_ascii_case (hm_name hm) '':path''
        then Inl (HttpFilterConfig (UnsupportedHealthCheckPseudoHeader listener (hm_name hm)))
        else case validate_header_matcher rx hm of Inl e \<Rightarrow> Inl e | Inr _ \<Rightarrow> Inr ()) (hc_headers cfg)))"

definition validate_set_metadata_config :: "MetadataEntry list \<Rightarrow> string \<Rightarrow> ConfigError + unit" where
  "validate_set_metadata_config entries listener =
     checks (map (\<lambda>e. reject_if (me_namespace e = []) (HttpFilterConfig (SetMetadataEmptyNamespace listener))) entries)"

definition opt_list :: "'a option \<Rightarrow> 'a list" where
  "opt_list x = (case x of None \<Rightarrow> [] | Some a \<Rightarrow> [a])"

definition validate_h2m_rule :: "string \<Rightarrow> HeaderToMetadataRule \<Rightarrow> ConfigError + unit" where
  "validate_h2m_rule listener rule =
     (let bad = (\<lambda>d. HttpFilterConfig (HeaderToMetadataInvalidRule listener d)); h = rule_header rule in
      checks
        [reject_if (h = []) (bad ''a rule has an empty `header`''),
         reject_if (on_header_present rule = None \<and> on_header_missing rule = None)
           (bad (''rule for header `'' @ h @ ''` has neither on_header_present nor on_header_missing'')),
         checks (map (\<lambda>kv. reject_if (kv_key kv = []) (bad (''rule for header `'' @ h @ ''` has an empty `key`'')))
           (opt_list (on_header_present rule) @ opt_list (on_header_missing rule))),
         reject_if (case on_header_missing rule of None \<Rightarrow> False | Some m \<Rightarrow> kv_value m = None)
           (bad (''on_header_missing for header `'' @ h @ ''` requires a `value`''))])"

definition validate_header_to_metadata_config :: "HeaderToMetadataRule list \<Rightarrow> string \<Rightarrow> ConfigError + unit" where
  "validate_header_to_metadata_config rules listener = checks (map (validate_h2m_rule listener) rules)"

definition validate_typed_config ::
    "regex_new \<Rightarrow> jwt_env \<Rightarrow> HttpFilterTypedConfig \<Rightarrow> string \<Rightarrow> ConfigError + unit" where
  "validate_typed_config rx jenv tc listener =
     (case tc of
        TcRouter \<Rightarrow> Inr ()
      | TcHeaderMutation cfg \<Rightarrow> checks
          [validate_header_mutation_entries (hm_request_mutations cfg) listener,
           validate_header_mutation_entries (hm_response_mutations cfg) listener]
      | TcLocalRateLimit cfg \<Rightarrow> validate_local_rate_limit_config cfg listener
      | TcRbac rules \<Rightarrow> validate_rbac_rules rules listener
      | TcFault cfg \<Rightarrow> validate_fault_config cfg listener
      | TcJwtAuthn cfg \<Rightarrow> validate_jwt_authn_config jenv cfg listener
      | TcCors \<Rightarrow> Inr ()
      | TcCsrf cfg \<Rightarrow> validate_csrf_config cfg listener
      | TcBuffer _ \<Rightarrow> Inr ()
      | TcCdnLoop cfg \<Rightarrow> validate_cdn_loop_config cfg listener
      | TcSetMetadata cfg \<Rightarrow> validate_set_metadata_config cfg listener
      | TcHeaderToMetadata cfg \<Rightarrow> validate_header_to_metadata_config cfg listener
      | TcHealthCheck cfg \<Rightarrow> validate_health_check_config rx cfg listener)"

definition validate_http_filter :: "regex_new \<Rightarrow> jwt_env \<Rightarrow> string \<Rightarrow> HttpFilter \<Rightarrow> ConfigError + unit" where
  "validate_http_filter rx jenv listener f =
     (if hf_name f \<noteq> expected_name (hf_typed_config f)
      then Inl (HttpFilterConfig (UnsupportedHttpFilter (hf_name f)))
      else validate_typed_config rx jenv (hf_typed_config f) listener)"

definition is_router :: "HttpFilterTypedConfig \<Rightarrow> bool" where
  "is_router tc = (case tc of TcRouter \<Rightarrow> True | _ \<Rightarrow> False)"

definition router_positions :: "HttpFilter list \<Rightarrow> nat list" where
  "router_positions filters = filter (\<lambda>i. is_router (hf_typed_config (filters ! i))) [0..<length filters]"

definition validate_http_filters ::
    "regex_new \<Rightarrow> jwt_env \<Rightarrow> HttpFilter list \<Rightarrow> string \<Rightarrow> ConfigError + unit" where
  "validate_http_filters rx jenv filters listener =
     (if filters = [] then Inl (HttpFilterConfig (EmptyHttpFilters listener))
      else case checks (map (validate_http_filter rx jenv listener) filters) of
        Inl e \<Rightarrow> Inl e
      | Inr _ \<Rightarrow>
          (case router_positions filters of
             [] \<Rightarrow> Inl (HttpFilterConfig (RouterNotTerminal listener (length filters - 1)))
           | [i] \<Rightarrow> if i \<noteq> length filters - 1 then Inl (HttpFilterConfig (RouterNotTerminal listener i)) else Inr ()
           | _ \<Rightarrow> Inl (HttpFilterConfig (DuplicateRouterFilter listener))))"

section \<open>Instances (instance.rs)\<close>

datatype HttpFilterInstance =
    IRouter
  | IHeaderMutation HeaderMutationFilter
  | ILocalRateLimit LocalRateLimitFilter
  | IRbac RbacFilter
  | IFault FaultFilter
  | IJwtAuthn JwtAuthnFilter
  | ICors CorsFilter
  | ICsrf CsrfFilter
  | IBuffer BufferFilter
  | ICdnLoop CdnLoopFilter
  | ISetMetadata "MetadataEntry list"
  | IHeaderToMetadata "HeaderToMetadataRule list"
  | IHealthCheck HealthCheckFilter

definition on_stats :: "('b \<Rightarrow> 'c) \<Rightarrow> (stats \<Rightarrow> (FilterError + 'b) \<times> stats) \<Rightarrow> world \<Rightarrow> (FilterError + 'c) \<times> world" where
  "on_stats k build w = (case build (w_stats w) of (r, st) \<Rightarrow> (map_ok k r, w\<lparr>w_stats := st\<rparr>))"

definition instance_build ::
    "regex_new \<Rightarrow> jwt_env \<Rightarrow> HttpFilter \<Rightarrow> string \<Rightarrow> world \<Rightarrow> (FilterError + HttpFilterInstance) \<times> world" where
  "instance_build rx jenv hf pfx w =
     (case hf_typed_config hf of
        TcRouter \<Rightarrow> (Inr IRouter, w)
      | TcHeaderMutation cfg \<Rightarrow> (map_ok IHeaderMutation (header_mutation_build cfg), w)
      | TcLocalRateLimit cfg \<Rightarrow>
          (case local_rate_limit_build cfg w of (r, w') \<Rightarrow> (map_ok ILocalRateLimit r, w'))
      | TcRbac cfg \<Rightarrow> on_stats IRbac (rbac_build rx cfg pfx) w
      | TcFault cfg \<Rightarrow> on_stats IFault (fault_build cfg pfx) w
      | TcJwtAuthn cfg \<Rightarrow> on_stats IJwtAuthn (jwt_build jenv cfg pfx) w
      | TcCors \<Rightarrow> on_stats ICors (cors_build pfx) w
      | TcCsrf cfg \<Rightarrow> on_stats ICsrf (csrf_build cfg pfx) w
      | TcBuffer cfg \<Rightarrow> (Inr (IBuffer (buffer_new cfg)), w)
      | TcCdnLoop cfg \<Rightarrow> (Inr (ICdnLoop cfg), w)
      | TcSetMetadata cfg \<Rightarrow> (Inr (ISetMetadata cfg), w)
      | TcHeaderToMetadata cfg \<Rightarrow> (Inr (IHeaderToMetadata cfg), w)
      | TcHealthCheck cfg \<Rightarrow> on_stats IHealthCheck (health_check_build rx cfg pfx) w)"

definition with_req ::
    "HttpFilterInstance \<Rightarrow> FilterRequest \<Rightarrow> (Decision \<times> world) option
     \<Rightarrow> (Decision \<times> HttpFilterInstance \<times> FilterRequest \<times> world) option" where
  "with_req i req r = map_option (\<lambda>(d, w). (d, i, req, w)) r"

definition instance_decode ::
    "jwt_env \<Rightarrow> HttpFilterInstance \<Rightarrow> FilterRequest \<Rightarrow> world
     \<Rightarrow> (Decision \<times> HttpFilterInstance \<times> FilterRequest \<times> world) option" where
  "instance_decode jenv i req w =
     (case i of
        IRouter \<Rightarrow> Some (Continue, i, req, w)
      | IHeaderMutation f \<Rightarrow> Some (Continue, i, header_mutation_decode f req, w)
      | ILocalRateLimit f \<Rightarrow> with_req i req (Some (local_rate_limit_decode f w))
      | IRbac f \<Rightarrow> with_req i req (rbac_decode f req w)
      | IFault f \<Rightarrow> with_req i req (fault_decode f req w)
      | IJwtAuthn f \<Rightarrow> map_option (\<lambda>(d, req', w'). (d, i, req', w')) (jwt_decode jenv f req w)
      | ICors f \<Rightarrow> map_option (\<lambda>(d, f', w'). (d, ICors f', req, w')) (cors_decode f req w)
      | ICsrf f \<Rightarrow> with_req i req (csrf_decode f req w)
      | IBuffer f \<Rightarrow> Some (buffer_decode f req, i, req, w)
      | ICdnLoop f \<Rightarrow> (case cdn_decode_headers f req of (d, req') \<Rightarrow> Some (d, i, req', w))
      | ISetMetadata es \<Rightarrow> Some (Continue, i, set_metadata_decode es req, w)
      | IHeaderToMetadata rs \<Rightarrow> Some (Continue, i, header_to_metadata_decode rs req, w)
      | IHealthCheck f \<Rightarrow> with_req i req (health_check_decode f req w))"

definition instance_encode :: "HttpFilterInstance \<Rightarrow> FilterResponse \<Rightarrow> Decision \<times> HttpFilterInstance \<times> FilterResponse" where
  "instance_encode i resp =
     (case i of
        IHeaderMutation f \<Rightarrow> (Continue, i, header_mutation_encode f resp)
      | ICors f \<Rightarrow> (case cors_encode f resp of (f', resp') \<Rightarrow> (Continue, ICors f', resp'))
      | _ \<Rightarrow> (Continue, i, resp))"

definition instance_apply_route :: "HttpFilterInstance \<Rightarrow> Route option \<Rightarrow> HttpFilterInstance" where
  "instance_apply_route i route =
     (case i of
        ICors f \<Rightarrow> ICors (cors_apply_route f route)
      | ICsrf f \<Rightarrow> ICsrf (csrf_apply_route f route)
      | IBuffer f \<Rightarrow> IBuffer (buffer_apply_route f route)
      | _ \<Rightarrow> i)"

section \<open>The pipeline (pipeline.rs)\<close>

type_synonym FilterPipeline = "HttpFilterInstance list"

fun pipeline_build_loop ::
    "regex_new \<Rightarrow> jwt_env \<Rightarrow> HttpFilter list \<Rightarrow> string \<Rightarrow> world \<Rightarrow> (FilterError + FilterPipeline) \<times> world" where
  "pipeline_build_loop rx jenv [] pfx w = (Inr [], w)"
| "pipeline_build_loop rx jenv (hf # hfs) pfx w =
     (case instance_build rx jenv hf pfx w of
        (Inl e, w') \<Rightarrow> (Inl e, w')
      | (Inr i, w') \<Rightarrow>
          (case pipeline_build_loop rx jenv hfs pfx w' of
             (r, w'') \<Rightarrow> (map_ok (\<lambda>is'. i # is') r, w'')))"

definition pipeline_build ::
    "regex_new \<Rightarrow> jwt_env \<Rightarrow> HttpFilter list \<Rightarrow> string \<Rightarrow> world \<Rightarrow> (FilterError + FilterPipeline) \<times> world" where
  "pipeline_build rx jenv filters pfx w =
     (if filters = [] then (Inl EmptyChain, w) else pipeline_build_loop rx jenv filters pfx w)"

definition is_router_only :: "FilterPipeline \<Rightarrow> bool" where
  "is_router_only p \<longleftrightarrow> length p = 1 \<and> (case p ! 0 of IRouter \<Rightarrow> True | _ \<Rightarrow> False)"

definition pipeline_apply_route :: "FilterPipeline \<Rightarrow> Route option \<Rightarrow> FilterPipeline" where
  "pipeline_apply_route p route = map (\<lambda>i. instance_apply_route i route) p"

fun pipeline_decode ::
    "jwt_env \<Rightarrow> FilterPipeline \<Rightarrow> FilterRequest \<Rightarrow> world
     \<Rightarrow> (Decision \<times> FilterPipeline \<times> FilterRequest \<times> world) option" where
  "pipeline_decode jenv [] req w = Some (Continue, [], req, w)"
| "pipeline_decode jenv (i # is') req w =
     (case instance_decode jenv i req w of
        None \<Rightarrow> None
      | Some (StopAndSend resp, i', req', w') \<Rightarrow> Some (StopAndSend resp, i' # is', req', w')
      | Some (Continue, i', req', w') \<Rightarrow>
          map_option (\<lambda>(d, p, req'', w''). (d, i' # p, req'', w'')) (pipeline_decode jenv is' req' w'))"

text \<open>The encode pass, from the last filter to the first.\<close>

fun encode_rev :: "FilterPipeline \<Rightarrow> FilterResponse \<Rightarrow> Decision \<times> FilterPipeline \<times> FilterResponse" where
  "encode_rev [] resp = (Continue, [], resp)"
| "encode_rev (i # is') resp =
     (case instance_encode i resp of
        (StopAndSend r, i', resp') \<Rightarrow> (StopAndSend r, i' # is', resp')
      | (Continue, i', resp') \<Rightarrow>
          (case encode_rev is' resp' of (d, p, resp'') \<Rightarrow> (d, i' # p, resp'')))"

definition pipeline_encode :: "FilterPipeline \<Rightarrow> FilterResponse \<Rightarrow> Decision \<times> FilterPipeline \<times> FilterResponse" where
  "pipeline_encode p resp = (case encode_rev (rev p) resp of (d, p', resp') \<Rightarrow> (d, rev p', resp'))"

section \<open>One pipeline serves a whole connection\<close>

text \<open>
  A stage that a connection keeps for all its requests: \<open>base\<close> is what of its state does not
  depend on the request, \<open>clean\<close> says that nothing of the last request is left in it. The
  stage may be reused for the next request instead of being cloned afresh.
\<close>

locale reusable_stage =
  fixes apply_cfg :: "'f \<Rightarrow> 'r \<Rightarrow> 'f"
    and decode :: "'f \<Rightarrow> 'q \<Rightarrow> 'w \<Rightarrow> ('d \<times> 'f \<times> 'q \<times> 'w) option"
    and encode :: "'f \<Rightarrow> 's \<Rightarrow> 'd \<times> 'f \<times> 's"
    and base :: "'f \<Rightarrow> 'f"
    and clean :: "'f \<Rightarrow> bool"
  assumes apply_by_base: "clean f \<Longrightarrow> clean g \<Longrightarrow> base f = base g \<Longrightarrow> apply_cfg f r = apply_cfg g r"
    and base_apply: "base (apply_cfg f r) = base f"
    and base_decode: "decode f q w = Some (d, f', q', w') \<Longrightarrow> base f' = base f"
    and base_encode: "encode f s = (d, f', s') \<Longrightarrow> base f' = base f"
    and clean_encode: "encode f s = (d, f', s') \<Longrightarrow> clean f'"
begin

lemma reuse:
  assumes "clean f" "decode (apply_cfg f r) q w = Some (d, f1, q', w')" "encode f1 s = (d', f2, s')"
  shows "clean f2" "apply_cfg f2 r' = apply_cfg f r'"
proof -
  show c: "clean f2" by (rule clean_encode [OF assms(3)])
  have "base f2 = base f"
    using base_encode [OF assms(3)] base_decode [OF assms(2)] base_apply by simp
  then show "apply_cfg f2 r' = apply_cfg f r'" by (rule apply_by_base [OF c assms(1)])
qed

end

fun instance_base :: "HttpFilterInstance \<Rightarrow> HttpFilterInstance" where
  "instance_base (ICors f) = ICors (f\<lparr>cors_active_policy := None, decorate_origin := None\<rparr>)"
| "instance_base (ICsrf f) = ICsrf (f\<lparr>csrf_active_policy := csrf_base_policy f\<rparr>)"
| "instance_base (IBuffer f) = IBuffer (f\<lparr>effective := Limit (base_max f)\<rparr>)"
| "instance_base i = i"

fun instance_clean :: "HttpFilterInstance \<Rightarrow> bool" where
  "instance_clean (ICors f) = (decorate_origin f = None)"
| "instance_clean i = True"

lemma cors_decode_keeps: "cors_decode f req w = Some (d, f', w') \<Longrightarrow>
    f'\<lparr>cors_active_policy := None, decorate_origin := None\<rparr> = f\<lparr>cors_active_policy := None, decorate_origin := None\<rparr>"
  by (auto simp: cors_decode_def Let_def split: option.splits if_splits)

lemma instance_apply_by_base:
  "instance_clean i \<Longrightarrow> instance_clean j \<Longrightarrow> instance_base i = instance_base j \<Longrightarrow>
   instance_apply_route i r = instance_apply_route j r"
proof (cases i; cases j)
  fix f g
  assume ij: "i = ICors f" "j = ICors g" and
    c: "instance_clean i" "instance_clean j" "instance_base i = instance_base j"
  then have "f\<lparr>cors_active_policy := x\<rparr> = g\<lparr>cors_active_policy := x\<rparr>" for x
    by (cases f, cases g) auto
  with ij show ?thesis by (simp add: instance_apply_route_def cors_apply_route_def)
next
  fix f g
  assume ij: "i = ICsrf f" "j = ICsrf g" and c: "instance_base i = instance_base j"
  then have e: "f\<lparr>csrf_active_policy := x\<rparr> = g\<lparr>csrf_active_policy := x\<rparr>" "csrf_base_policy f = csrf_base_policy g" for x
    by (cases f, cases g, auto)+
  then show ?thesis using ij
    by (simp add: instance_apply_route_def csrf_apply_route_def split: option.split PerFilterConfig.split)
next
  fix f g
  assume ij: "i = IBuffer f" "j = IBuffer g" and c: "instance_base i = instance_base j"
  then have e: "f\<lparr>effective := x\<rparr> = g\<lparr>effective := x\<rparr>" "base_max f = base_max g" for x
    by (cases f, cases g, auto)+
  then show ?thesis using ij
    by (simp add: instance_apply_route_def buffer_apply_route_def split: option.split PerFilterConfig.split)
qed auto

lemma instance_base_apply: "instance_base (instance_apply_route i r) = instance_base i"
  by (cases i)
    (simp_all add: instance_apply_route_def cors_apply_route_def csrf_apply_route_def buffer_apply_route_def)

lemma instance_base_decode:
  "instance_decode jenv i q w = Some (d, i', q', w') \<Longrightarrow> instance_base i' = instance_base i"
  by (cases i) (auto simp: instance_decode_def with_req_def split: prod.splits dest: cors_decode_keeps)

lemma instance_encode_keeps:
  assumes "instance_encode i s = (d, i', s')"
  shows "instance_base i' = instance_base i" "instance_clean i'" "d = Continue"
  using assms by (cases i; auto simp: instance_encode_def cors_encode_def)+

interpretation inst: reusable_stage instance_apply_route "instance_decode jenv" instance_encode
    instance_base instance_clean
  using instance_apply_by_base instance_base_apply instance_base_decode instance_encode_keeps(1,2)
  by unfold_locales

text \<open>A chain of reusable stages is one.\<close>

lemma pipeline_apply_by_base:
  "list_all instance_clean p \<Longrightarrow> list_all instance_clean q \<Longrightarrow> map instance_base p = map instance_base q \<Longrightarrow>
   pipeline_apply_route p r = pipeline_apply_route q r"
proof (induction p arbitrary: q)
  case (Cons i p)
  then show ?case
    by (cases q) (auto simp: pipeline_apply_route_def intro: inst.apply_by_base)
qed (simp add: pipeline_apply_route_def)

lemma pipeline_base_decode:
  "pipeline_decode jenv p q w = Some (d, p', q', w') \<Longrightarrow> map instance_base p' = map instance_base p"
proof (induction p arbitrary: q w d p' q' w')
  case (Cons i p)
  obtain d1 i1 q1 w1 where i: "instance_decode jenv i q w = Some (d1, i1, q1, w1)"
    using Cons.prems by (auto split: option.splits)
  note b = inst.base_decode [OF i]
  show ?case
  proof (cases d1)
    case Continue
    then obtain p1 where "pipeline_decode jenv p q1 w1 = Some (d, p1, q', w')" "p' = i1 # p1"
      using Cons.prems i by auto
    with Cons.IH b show ?thesis by simp
  next
    case (StopAndSend r)
    with Cons.prems i b show ?thesis by auto
  qed
qed simp

lemma encode_rev_keeps:
  "encode_rev p s = (d, p', s') \<Longrightarrow> map instance_base p' = map instance_base p \<and> list_all instance_clean p' \<and> d = Continue"
proof (induction p arbitrary: s d p' s')
  case (Cons i p)
  obtain d1 i1 s1 where i: "instance_encode i s = (d1, i1, s1)" by (cases "instance_encode i s") auto
  note k = instance_encode_keeps [OF i]
  obtain d2 p2 s2 where r: "encode_rev p s1 = (d2, p2, s2)" by (cases "encode_rev p s1") auto
  from Cons.IH [OF r] Cons.prems i k r show ?case by auto
qed simp

lemma pipeline_encode_keeps:
  assumes "pipeline_encode p s = (d, p', s')"
  shows "map instance_base p' = map instance_base p" "list_all instance_clean p'" "d = Continue"
proof -
  obtain p1 where r: "encode_rev (rev p) s = (d, p1, s')" "p' = rev p1"
    using assms by (auto simp: pipeline_encode_def split: prod.splits)
  note k = encode_rev_keeps [OF r(1)]
  show "map instance_base p' = map instance_base p"
    using k r(2) by (metis rev_map rev_rev_ident)
  show "list_all instance_clean p'" using k r(2) by simp
  show "d = Continue" using k by simp
qed

interpretation pipe: reusable_stage pipeline_apply_route "pipeline_decode jenv" pipeline_encode
    "map instance_base" "list_all instance_clean"
proof unfold_locales
  show "map instance_base (pipeline_apply_route f r) = map instance_base f" for f r
    by (simp add: pipeline_apply_route_def instance_base_apply)
qed (erule (2) pipeline_apply_by_base, erule pipeline_base_decode, erule pipeline_encode_keeps(1),
    erule pipeline_encode_keeps(2))

text \<open>
  One request of a connection, as \<open>serve_connection\<close> runs the chain: the matched route's
  configuration is applied, the request decoded, and whatever response results (a function
  of the decision and the request) encoded. \<open>ex_between\<close> is what happens to the shared
  state before the next request.
\<close>

record exchange =
  ex_route :: "Route option"
  ex_request :: FilterRequest
  ex_respond :: "Decision \<Rightarrow> FilterRequest \<Rightarrow> FilterResponse"
  ex_between :: "world \<Rightarrow> world"

definition serve_filters ::
    "jwt_env \<Rightarrow> FilterPipeline \<Rightarrow> exchange \<Rightarrow> world
     \<Rightarrow> ((Decision \<times> FilterRequest \<times> Decision \<times> FilterResponse) \<times> FilterPipeline \<times> world) option" where
  "serve_filters jenv p x w =
     (case pipeline_decode jenv (pipeline_apply_route p (ex_route x)) (ex_request x) w of
        None \<Rightarrow> None
      | Some (d, p1, req, w') \<Rightarrow>
          (case pipeline_encode p1 (ex_respond x d req) of
             (d', p2, resp) \<Rightarrow> Some ((d, req, d', resp), p2, ex_between x w')))"

fun serve_requests ::
    "jwt_env \<Rightarrow> FilterPipeline \<Rightarrow> exchange list \<Rightarrow> world
     \<Rightarrow> (Decision \<times> FilterRequest \<times> Decision \<times> FilterResponse) list option" where
  "serve_requests jenv p [] w = Some []"
| "serve_requests jenv p (x # xs) w =
     (case serve_filters jenv p x w of
        None \<Rightarrow> None
      | Some (o', p', w') \<Rightarrow> map_option (\<lambda>os. o' # os) (serve_requests jenv p' xs w'))"

text \<open>The same with a fresh clone of the configured pipeline for every request.\<close>

fun serve_fresh ::
    "jwt_env \<Rightarrow> FilterPipeline \<Rightarrow> exchange list \<Rightarrow> world
     \<Rightarrow> (Decision \<times> FilterRequest \<times> Decision \<times> FilterResponse) list option" where
  "serve_fresh jenv p [] w = Some []"
| "serve_fresh jenv p (x # xs) w =
     (case serve_filters jenv p x w of
        None \<Rightarrow> None
      | Some (o', _, w') \<Rightarrow> map_option (\<lambda>os. o' # os) (serve_fresh jenv p xs w'))"

lemma serve_filters_reuse:
  assumes "list_all instance_clean p" "serve_filters jenv p x w = Some (o', p', w')"
  shows "list_all instance_clean p'" "pipeline_apply_route p' r = pipeline_apply_route p r"
  using assms pipe.reuse [OF assms(1)]
  by (auto simp: serve_filters_def split: option.splits prod.splits)

lemma serve_filters_cong:
  "(\<And>r. pipeline_apply_route p r = pipeline_apply_route q r) \<Longrightarrow> serve_filters jenv p x w = serve_filters jenv q x w"
  by (simp add: serve_filters_def)

lemma serve_requests_fresh:
  "list_all instance_clean p \<Longrightarrow> list_all instance_clean q \<Longrightarrow>
   (\<And>r. pipeline_apply_route q r = pipeline_apply_route p r) \<Longrightarrow>
   serve_requests jenv q xs w = serve_fresh jenv p xs w"
proof (induction xs arbitrary: q w)
  case (Cons x xs)
  note same = serve_filters_cong [OF Cons.prems(3), of jenv x w]
  show ?case
  proof (cases "serve_filters jenv p x w")
    case None
    with same show ?thesis by simp
  next
    case (Some a)
    then obtain o' p' w' where s: "serve_filters jenv p x w = Some (o', p', w')" by (cases a) auto
    note k = serve_filters_reuse [OF Cons.prems(1) s]
    from Cons.IH [OF Cons.prems(1) k(1)] k(2) s same show ?thesis by simp
  qed
qed simp

lemma instance_build_clean:
  "instance_build rx jenv hf pfx w = (Inr i, w') \<Longrightarrow> instance_clean i"
  by (cases "hf_typed_config hf")
    (auto simp: instance_build_def on_stats_def cors_build_def split: prod.splits sum.splits)

lemma pipeline_build_clean:
  "pipeline_build_loop rx jenv hfs pfx w = (Inr p, w') \<Longrightarrow> list_all instance_clean p"
proof (induction hfs arbitrary: w p)
  case (Cons hf hfs)
  obtain i w1 where i: "instance_build rx jenv hf pfx w = (Inr i, w1)"
    using Cons.prems by (auto split: prod.splits sum.splits)
  obtain q where "pipeline_build_loop rx jenv hfs pfx w1 = (Inr q, w')" "p = i # q"
    using Cons.prems i by (auto split: prod.splits)
  with Cons.IH instance_build_clean [OF i] show ?case by simp
qed simp

text \<open>
  C22. Whatever requests a connection carries and however the shared state changes between
  them, the pipeline the connection cloned once decides, rewrites and decorates every
  request and response as a fresh clone for each request would: no route policy and no
  CORS origin of one request reaches the next.
\<close>

theorem pipeline_reuse_is_fresh:
  assumes "pipeline_build rx jenv filters pfx w0 = (Inr p, w1)"
  shows "serve_requests jenv p xs w = serve_fresh jenv p xs w"
proof -
  have "pipeline_build_loop rx jenv filters pfx w0 = (Inr p, w1)"
    using assms by (simp add: pipeline_build_def split: if_splits)
  then have c: "list_all instance_clean p" by (rule pipeline_build_clean)
  show ?thesis by (rule serve_requests_fresh [OF c c]) simp
qed

definition demo_filters :: "HttpFilter list" where
  "demo_filters =
     [\<lparr>hf_name = ''envoy.filters.http.cors'', hf_typed_config = TcCors\<rparr>,
      \<lparr>hf_name = ''envoy.filters.http.buffer'', hf_typed_config = TcBuffer 10\<rparr>,
      \<lparr>hf_name = ''envoy.filters.http.router'', hf_typed_config = TcRouter\<rparr>]"

definition demo_cors_route :: Route where
  "demo_cors_route = (demo_route ''/'' 200)\<lparr>typed_per_filter_config :=
     bt_of_list [(''envoy.filters.http.cors'', PfcCors
       \<lparr>allow_origin_string_match = [\<lparr>sm_mode = Exact ''http://a'', sm_ignore_case = False\<rparr>],
        allow_methods = None, allow_headers = None, expose_headers = None, max_age = None,
        allow_credentials = None\<rparr>)]\<rparr>"

definition demo_exchange :: "Route option \<Rightarrow> headers \<Rightarrow> exchange" where
  "demo_exchange route hs =
     \<lparr>ex_route = route,
      ex_request = \<lparr>fr_method = ''GET'', fr_path = ''/'', fr_headers = hs, fr_body = None,
                    fr_dynamic_metadata = []\<rparr>,
      ex_respond = (\<lambda>d req. static_reply 200 None []), ex_between = id\<rparr>"

definition demo_exchanges :: "exchange list" where
  "demo_exchanges = [demo_exchange (Some demo_cors_route) [(''origin'', ''http://a'')], demo_exchange None []]"

theorem pipeline_reuse_is_fresh_witness:
  "let p = projr (fst (pipeline_build (\<lambda>_. None) demo_jwt_env demo_filters ''p'' (demo_world 0))) in
   map_option (map (\<lambda>(_, _, _, resp). fs_headers resp)) (serve_requests demo_jwt_env p demo_exchanges (demo_world 0))
   = Some [[(''access-control-allow-origin'', ''http://a'')], []]
   \<and> serve_requests demo_jwt_env p demo_exchanges (demo_world 0) = serve_fresh demo_jwt_env p demo_exchanges (demo_world 0)"
proof -
  let ?b = "pipeline_build (\<lambda>_. None) demo_jwt_env demo_filters ''p'' (demo_world 0)"
  have "\<not> isl (fst ?b)" by code_simp
  then obtain p w where b: "?b = (Inr p, w)" by (metis prod.collapse sum.collapse(2))
  have "map_option (map (\<lambda>(_, _, _, resp). fs_headers resp))
      (serve_requests demo_jwt_env (projr (fst ?b)) demo_exchanges (demo_world 0))
    = Some [[(''access-control-allow-origin'', ''http://a'')], []]"
    by code_simp
  with pipeline_reuse_is_fresh [OF b] show ?thesis unfolding Let_def b by simp
qed

section \<open>A regex in a fault filter brings the connection down\<close>

definition uncompiled :: SafeRegex where
  "uncompiled = \<lparr>sr_regex = ''.*'', sr_compiled = None\<rparr>"

definition fault_regex_filters :: "HttpFilter list" where
  "fault_regex_filters =
     [\<lparr>hf_name = ''envoy.filters.http.fault'', hf_typed_config = TcFault
         \<lparr>fault_http_status = 503, fault_percentage = \<lparr>numerator = 0, denominator = Hundred\<rparr>,
          fault_headers = [\<lparr>hm_name = ''x-user'', hm_mode = SafeRegexMatch uncompiled, hm_invert_match = False\<rparr>]\<rparr>\<rparr>,
      \<lparr>hf_name = ''envoy.filters.http.router'', hf_typed_config = TcRouter\<rparr>]"

definition demo_pipeline :: "regex_new \<Rightarrow> HttpFilter list \<Rightarrow> FilterPipeline" where
  "demo_pipeline rx filters = projr (fst (pipeline_build rx demo_jwt_env filters ''p'' (demo_world 0)))"

text \<open>
  The validator accepts a fault filter with a \<open>safe_regex_match\<close> header gate and the
  pipeline builds, whatever the regex engine says; the first request that carries the header
  hits the \<open>expect\<close> of a regex that nothing compiled. The same holds of the origin matchers
  of a CORS route policy and of the additional origins of a CSRF policy.
\<close>

theorem fault_regex_panics:
  "validate_http_filters rx demo_jwt_env fault_regex_filters ''l'' = Inr ()
   \<and> pipeline_decode demo_jwt_env (demo_pipeline rx fault_regex_filters)
       \<lparr>fr_method = ''GET'', fr_path = ''/'', fr_headers = [(''x-user'', ''bob'')], fr_body = None,
        fr_dynamic_metadata = []\<rparr> (demo_world 0) = None"
proof
  show "validate_http_filters rx demo_jwt_env fault_regex_filters ''l'' = Inr ()" by code_simp
  have "Option.is_none (pipeline_decode demo_jwt_env (demo_pipeline rx fault_regex_filters)
       \<lparr>fr_method = ''GET'', fr_path = ''/'', fr_headers = [(''x-user'', ''bob'')], fr_body = None,
        fr_dynamic_metadata = []\<rparr> (demo_world 0))" by code_simp
  then show "pipeline_decode demo_jwt_env (demo_pipeline rx fault_regex_filters)
       \<lparr>fr_method = ''GET'', fr_path = ''/'', fr_headers = [(''x-user'', ''bob'')], fr_body = None,
        fr_dynamic_metadata = []\<rparr> (demo_world 0) = None"
    by (simp add: Option.is_none_def)
qed

end
