(* ===== verification/Filter_Handles.thy ===== *)
theory Filter_Handles
  imports Filter_Pipeline
begin

text \<open>
  The references a filter pipeline holds into the shared state: every counter and bucket
  handle of a built pipeline points at a cell, and decoding keeps it so.
\<close>

section \<open>Every handle points at a cell\<close>

text \<open>The counters and buckets an instance holds an \<open>Arc\<close> of.\<close>

fun counter_refs :: "HttpFilterInstance \<Rightarrow> nat list" where
  "counter_refs (ILocalRateLimit f) = [lf_enabled f, lf_ok f, lf_rate_limited f, lf_enforced f]"
| "counter_refs (IRbac f) = [allowed_counter f, denied_counter f]"
| "counter_refs (IFault f) = [aborts_injected f]"
| "counter_refs (IJwtAuthn f) = [jf_allowed f, jf_denied f]"
| "counter_refs (ICors f) = [origin_valid f, origin_invalid f]"
| "counter_refs (ICsrf f) = [request_valid f, request_invalid f, missing_source_origin f]"
| "counter_refs (IHealthCheck f) = [request_total f, hcf_ok f]"
| "counter_refs _ = []"

fun bucket_refs :: "HttpFilterInstance \<Rightarrow> nat list" where
  "bucket_refs (ILocalRateLimit f) = [lf_bucket f]"
| "bucket_refs _ = []"

text \<open>The cells there are: how many counters and how many buckets.\<close>

definition cells :: "world \<Rightarrow> nat \<times> nat" where
  "cells w = (length (counters (w_stats w)), length (w_buckets w))"

definition refs_ok :: "nat \<times> nat \<Rightarrow> HttpFilterInstance \<Rightarrow> bool" where
  "refs_ok n i \<longleftrightarrow> list_all (\<lambda>a. a < fst n) (counter_refs i) \<and> list_all (\<lambda>b. b < snd n) (bucket_refs i)"

lemma refs_ok_mono: "refs_ok (a, b) i \<Longrightarrow> a \<le> a' \<Longrightarrow> b \<le> b' \<Longrightarrow> refs_ok (a', b') i"
  by (auto simp: refs_ok_def list_all_iff)

lemma filter_register_counter_cell:
  assumes "stats_wf st" "filter_register_counter st n = (r, st')"
  shows "length (counters st) \<le> length (counters st')" "r = Inr a \<Longrightarrow> a < length (counters st')"
proof -
  show "length (counters st) \<le> length (counters st')"
    using assms(2) by (auto simp: filter_register_counter_def register_counter_def Let_def
        split: if_splits option.splits stat_handle.splits)
  show "r = Inr a \<Longrightarrow> a < length (counters st')"
    using assms(2) wf_handle_ok [OF assms(1), of n]
    by (auto simp: filter_register_counter_def register_counter_def Let_def handle_ok_def
        split: if_splits option.splits stat_handle.splits)
qed

lemma register_all_cells:
  assumes "stats_wf st" "register_all st ns = (r, st')"
  shows "length (counters st) \<le> length (counters st') \<and>
    (\<forall>as. r = Inr as \<longrightarrow> length as = length ns \<and> list_all (\<lambda>a. a < length (counters st')) as)"
  using assms
proof (induction ns arbitrary: st r st')
  case (Cons n ns)
  obtain r1 st1 where r1: "filter_register_counter st n = (r1, st1)"
    by (cases "filter_register_counter st n") auto
  note w = filter_register_counter_wf [OF Cons.prems(1) r1]
  note c = filter_register_counter_cell [OF Cons.prems(1) r1]
  show ?case
  proof (cases r1)
    case (Inl e)
    with Cons.prems(2) r1 c(1) show ?thesis by auto
  next
    case (Inr a)
    obtain r2 st2 where r2: "register_all st1 ns = (r2, st2)" by (cases "register_all st1 ns") auto
    from Cons.IH [OF w r2] c Inr r1 r2 Cons.prems(2) show ?thesis
      by (cases r2) auto
  qed
qed auto

lemma cells_w_inc [simp]: "cells (w_inc a w) = cells w"
  by (simp add: cells_def w_inc_def counter_inc_def)

lemma cells_w_inc_if [simp]: "cells (w_inc (if b then x else y) w) = cells w"
  by simp

lemma local_rate_limit_cells: "cells (snd (local_rate_limit_decode f w)) = cells w"
  by (auto simp: local_rate_limit_decode_def Let_def split: prod.splits)
    (auto simp: cells_def w_inc_def counter_inc_def)

lemma decode_cells:
  "rbac_decode rf req w = Some (d, w') \<Longrightarrow> cells w' = cells w"
  "fault_decode ff req w = Some (d, w') \<Longrightarrow> cells w' = cells w"
  "csrf_decode cf req w = Some (d, w') \<Longrightarrow> cells w' = cells w"
  "health_check_decode hf req w = Some (d, w') \<Longrightarrow> cells w' = cells w"
  by (auto simp: rbac_decode_def fault_decode_def csrf_decode_def health_check_decode_def
      split: option.splits if_splits bool.splits)

lemma jwt_decode_cells: "jwt_decode jenv f req w = Some (d, req', w') \<Longrightarrow> cells w' = cells w"
  by (auto simp: jwt_decode_def Let_def split: option.splits sum.splits)

lemma cors_decode_cells:
  "cors_decode f req w = Some (d, f', w') \<Longrightarrow>
   cells w' = cells w \<and> origin_valid f' = origin_valid f \<and> origin_invalid f' = origin_invalid f"
  by (auto simp: cors_decode_def Let_def split: option.splits if_splits)

lemma instance_decode_cells:
  "instance_decode jenv i req w = Some (d, i', req', w') \<Longrightarrow>
   cells w' = cells w \<and> counter_refs i' = counter_refs i \<and> bucket_refs i' = bucket_refs i"
proof (cases i)
  case (ILocalRateLimit f)
  assume "instance_decode jenv i req w = Some (d, i', req', w')"
  with ILocalRateLimit show ?thesis
    using local_rate_limit_cells [of f w] by (auto simp: instance_decode_def with_req_def split: prod.splits)
qed (auto simp: instance_decode_def with_req_def split: prod.splits
    dest: decode_cells jwt_decode_cells cors_decode_cells)

lemma instance_apply_refs:
  "counter_refs (instance_apply_route i r) = counter_refs i" "bucket_refs (instance_apply_route i r) = bucket_refs i"
  by (cases i; simp add: instance_apply_route_def cors_apply_route_def csrf_apply_route_def buffer_apply_route_def)+

lemma pipeline_decode_cells:
  "pipeline_decode jenv p req w = Some (d, p', req', w') \<Longrightarrow> list_all (refs_ok n) p \<Longrightarrow>
   cells w' = cells w \<and> list_all (refs_ok n) p'"
proof (induction p arbitrary: req w d p' req' w')
  case (Cons i p)
  obtain d1 i1 q1 w1 where i: "instance_decode jenv i req w = Some (d1, i1, q1, w1)"
    using Cons.prems by (auto split: option.splits)
  note c = instance_decode_cells [OF i]
  show ?case
  proof (cases d1)
    case Continue
    then obtain p1 where "pipeline_decode jenv p q1 w1 = Some (d, p1, req', w')" "p' = i1 # p1"
      using Cons.prems i by auto
    with Cons.IH Cons.prems(2) c show ?thesis by (auto simp: refs_ok_def)
  next
    case (StopAndSend r)
    with Cons.prems i c show ?thesis by (auto simp: refs_ok_def)
  qed
qed simp

lemma nth_in_bounds: "list_all (\<lambda>a. a < m) xs \<Longrightarrow> i < length xs \<Longrightarrow> xs ! i < (m :: nat)"
  by (simp add: list_all_length)

text \<open>What a constructor that registers counters guarantees of its result.\<close>

definition build_ok :: "stats \<Rightarrow> ('f \<Rightarrow> HttpFilterInstance) \<Rightarrow> (FilterError + 'f) \<times> stats \<Rightarrow> bool" where
  "build_ok st k rs \<longleftrightarrow>
     stats_wf (snd rs) \<and> length (counters st) \<le> length (counters (snd rs))
     \<and> (\<forall>f. fst rs = Inr f \<longrightarrow> refs_ok (length (counters (snd rs)), 0) (k f))"

lemma build_ok_register:
  assumes "stats_wf st" "\<And>m cs. list_all (\<lambda>a. a < m) cs \<Longrightarrow> length cs = length ns \<Longrightarrow> refs_ok (m, 0) (k (mk cs))"
  shows "build_ok st k (case register_all st ns of (Inl e, st') \<Rightarrow> (Inl e, st') | (Inr cs, st') \<Rightarrow> (Inr (mk cs), st'))"
proof -
  obtain r st' where r: "register_all st ns = (r, st')" by (cases "register_all st ns") auto
  show ?thesis
    using register_all_cells [OF assms(1) r] register_all_wf [OF assms(1) r] assms(2) r
    by (cases r) (auto simp: build_ok_def)
qed

lemma build_ok_error: "stats_wf st \<Longrightarrow> build_ok st k (Inl e, st)"
  by (simp add: build_ok_def)

lemma list_all_len2: "length cs = Suc (Suc 0) \<Longrightarrow> list_all P cs \<longleftrightarrow> P (cs ! 0) \<and> P (cs ! 1)"
  by (auto simp: list_all_length less_Suc_eq)

lemma filters_build_ok:
  assumes "stats_wf st"
  shows "build_ok st IRbac (rbac_build rx rules pfx st)"
    "build_ok st IJwtAuthn (jwt_build jenv jcfg pfx st)"
    "build_ok st ICsrf (csrf_build ccfg pfx st)"
    "build_ok st IHealthCheck (health_check_build rx hcfg pfx st)"
  unfolding rbac_build_def jwt_build_def csrf_build_def health_check_build_def
  using assms
  by (auto split: sum.splits intro!: build_ok_register build_ok_error
      simp: refs_ok_def nth_in_bounds STAT_NAMES_def simp del: register_all.simps)

lemma single_build_ok:
  assumes "stats_wf st"
  shows "build_ok st IFault (fault_build cfg pfx st)" "build_ok st ICors (cors_build pfx st)"
proof -
  obtain r1 st1 where r1: "filter_register_counter st (filter_stat pfx ''fault.aborts_injected'') = (r1, st1)"
    by (cases "filter_register_counter st (filter_stat pfx ''fault.aborts_injected'')") auto
  show "build_ok st IFault (fault_build cfg pfx st)"
    using filter_register_counter_wf [OF assms r1] filter_register_counter_cell [OF assms r1] r1
    by (cases r1) (auto simp: fault_build_def build_ok_def refs_ok_def)
  have "cors_build pfx st =
      (case register_all st [filter_stat pfx ''cors.origin_valid'', filter_stat pfx ''cors.origin_invalid''] of
         (Inl e, st') \<Rightarrow> (Inl e, st')
       | (Inr cs, st') \<Rightarrow> (Inr \<lparr>origin_valid = cs ! 0, origin_invalid = cs ! 1, cors_active_policy = None,
           decorate_origin = None\<rparr>, st'))"
    by (simp add: cors_build_def split: prod.splits sum.splits)
  then show "build_ok st ICors (cors_build pfx st)"
    using assms by (auto intro!: build_ok_register simp: refs_ok_def nth_in_bounds simp del: register_all.simps)
qed

lemma local_rate_limit_build_cells:
  assumes "stats_wf (w_stats w)" "local_rate_limit_build cfg w = (r, w')"
  shows "stats_wf (w_stats w') \<and> fst (cells w) \<le> fst (cells w') \<and> snd (cells w) \<le> snd (cells w')
    \<and> (\<forall>f. r = Inr f \<longrightarrow> refs_ok (cells w') (ILocalRateLimit f))"
proof -
  let ?ns = "map (\<lambda>s. ''http_local_rate_limit.'' @ lrl_stat_prefix cfg @ ''.'' @ s)
     [''enabled'', ''ok'', ''rate_limited'', ''enforced'']"
  obtain q st where q: "register_all (w_stats w) ?ns = (q, st)" by (cases "register_all (w_stats w) ?ns") auto
  note k = register_all_cells [OF assms(1) q] register_all_wf [OF assms(1) q]
  show ?thesis
  proof (cases q)
    case (Inl e)
    with assms q k show ?thesis
      by (auto simp: local_rate_limit_build_def cells_def split: option.splits sum.splits
          simp del: register_all.simps list.map)
  next
    case (Inr cs)
    with assms q k show ?thesis
      by (auto simp: local_rate_limit_build_def cells_def refs_ok_def nth_in_bounds
          split: option.splits sum.splits simp del: register_all.simps list.map)
  qed
qed

lemma on_stats_cells:
  assumes "build_ok (w_stats w) k (build (w_stats w))" "on_stats k build w = (r, w')"
  shows "stats_wf (w_stats w') \<and> fst (cells w) \<le> fst (cells w') \<and> snd (cells w) \<le> snd (cells w')
    \<and> (\<forall>i. r = Inr i \<longrightarrow> bucket_refs i = [] \<longrightarrow> refs_ok (cells w') i)"
  using assms by (auto simp: on_stats_def build_ok_def cells_def refs_ok_def split: prod.splits)

lemma on_stats_bucket:
  "on_stats k build w = (r, w') \<Longrightarrow> (\<And>f. bucket_refs (k f) = []) \<Longrightarrow> \<forall>i. r = Inr i \<longrightarrow> bucket_refs i = []"
  by (auto simp: on_stats_def split: prod.splits)

lemma instance_build_cells:
  assumes "stats_wf (w_stats w)" "instance_build rx jenv hf pfx w = (r, w')"
  shows "stats_wf (w_stats w') \<and> fst (cells w) \<le> fst (cells w') \<and> snd (cells w) \<le> snd (cells w')
    \<and> (\<forall>i. r = Inr i \<longrightarrow> refs_ok (cells w') i)"
proof (cases "hf_typed_config hf")
  case (TcLocalRateLimit cfg)
  then obtain q where q: "local_rate_limit_build cfg w = (q, w')" "r = map_ok ILocalRateLimit q"
    using assms(2) by (auto simp: instance_build_def split: prod.splits)
  from local_rate_limit_build_cells [OF assms(1) q(1)] q(2) show ?thesis by auto
next
  case (TcRbac cfg)
  then have "on_stats IRbac (rbac_build rx cfg pfx) w = (r, w')" using assms(2) by (simp add: instance_build_def)
  from on_stats_cells [OF filters_build_ok(1) [OF assms(1)] this] on_stats_bucket [OF this] show ?thesis by simp
next
  case (TcFault cfg)
  then have "on_stats IFault (fault_build cfg pfx) w = (r, w')" using assms(2) by (simp add: instance_build_def)
  from on_stats_cells [OF single_build_ok(1) [OF assms(1)] this] on_stats_bucket [OF this] show ?thesis by simp
next
  case (TcJwtAuthn cfg)
  then have "on_stats IJwtAuthn (jwt_build jenv cfg pfx) w = (r, w')" using assms(2) by (simp add: instance_build_def)
  from on_stats_cells [OF filters_build_ok(2) [OF assms(1)] this] on_stats_bucket [OF this] show ?thesis by simp
next
  case TcCors
  then have "on_stats ICors (cors_build pfx) w = (r, w')" using assms(2) by (simp add: instance_build_def)
  from on_stats_cells [OF single_build_ok(2) [OF assms(1)] this] on_stats_bucket [OF this] show ?thesis by simp
next
  case (TcCsrf cfg)
  then have "on_stats ICsrf (csrf_build cfg pfx) w = (r, w')" using assms(2) by (simp add: instance_build_def)
  from on_stats_cells [OF filters_build_ok(3) [OF assms(1)] this] on_stats_bucket [OF this] show ?thesis by simp
next
  case (TcHealthCheck cfg)
  then have "on_stats IHealthCheck (health_check_build rx cfg pfx) w = (r, w')" using assms(2) by (simp add: instance_build_def)
  from on_stats_cells [OF filters_build_ok(4) [OF assms(1)] this] on_stats_bucket [OF this] show ?thesis by simp
qed (use assms in \<open>auto simp: instance_build_def refs_ok_def\<close>)

lemma pipeline_build_cells:
  "stats_wf (w_stats w) \<Longrightarrow> pipeline_build_loop rx jenv hfs pfx w = (Inr p, w') \<Longrightarrow>
   fst (cells w) \<le> fst (cells w') \<and> snd (cells w) \<le> snd (cells w') \<and> list_all (refs_ok (cells w')) p"
proof (induction hfs arbitrary: w p)
  case (Cons hf hfs)
  obtain i w1 where i: "instance_build rx jenv hf pfx w = (Inr i, w1)"
    using Cons.prems by (auto split: prod.splits sum.splits)
  obtain q where q: "pipeline_build_loop rx jenv hfs pfx w1 = (Inr q, w')" "p = i # q"
    using Cons.prems i by (auto split: prod.splits)
  have b: "stats_wf (w_stats w1)" "fst (cells w) \<le> fst (cells w1)" "snd (cells w) \<le> snd (cells w1)"
      "refs_ok (cells w1) i"
    using instance_build_cells [OF Cons.prems(1) i] by auto
  note ih = Cons.IH [OF b(1) q(1)]
  have "refs_ok (cells w') i"
    using b(4) ih refs_ok_mono [of "fst (cells w1)" "snd (cells w1)" i] by (metis prod.collapse)
  with ih b q(2) show ?case by simp
qed simp

text \<open>
  A built pipeline holds only handles of cells that exist, through every request it
  serves: with at least the cells of its construction, the decode pass reads and bumps
  no counter and no bucket out of range, creates and drops none, and leaves a pipeline of
  which the same is true.
\<close>

theorem pipeline_handles_in_bounds:
  assumes "stats_wf (w_stats w0)" "pipeline_build rx jenv filters pfx w0 = (Inr p, w1)"
    "cells w = cells w1" "pipeline_decode jenv (pipeline_apply_route p r) req w = Some (d, p', req', w')"
  shows "list_all (refs_ok (cells w)) p \<and> cells w' = cells w \<and> list_all (refs_ok (cells w')) p'"
proof -
  have l: "pipeline_build_loop rx jenv filters pfx w0 = (Inr p, w1)"
    using assms(2) by (simp add: pipeline_build_def split: if_splits)
  have ok: "list_all (refs_ok (cells w)) p" using pipeline_build_cells [OF assms(1) l] assms(3) by simp
  then have "list_all (refs_ok (cells w)) (pipeline_apply_route p r)"
    by (simp add: pipeline_apply_route_def list_all_iff refs_ok_def instance_apply_refs)
  from pipeline_decode_cells [OF assms(4) this] ok show ?thesis by simp
qed

definition empty_world :: world where
  "empty_world = \<lparr>w_stats = registry_new, w_buckets = [], w_now = 0, w_unix = 0\<rparr>"

theorem pipeline_handles_in_bounds_witness:
  "let (r, w) = pipeline_build (\<lambda>_. None) demo_jwt_env demo_filters ''p'' empty_world in
   cells w = (2, 0) \<and> list_all (refs_ok (2, 0)) (projr r)"
proof -
  let ?b = "pipeline_build (\<lambda>_. None) demo_jwt_env demo_filters ''p'' empty_world"
  let ?q = "ex_request (demo_exchange None [])"
  have "\<not> isl (fst ?b)" by code_simp
  then obtain p w where b: "?b = (Inr p, w)" by (metis prod.collapse sum.collapse(2))
  have "cells (snd ?b) = (2, 0)" by code_simp
  then have c: "cells w = (2, 0)" by (simp add: b)
  have wf: "stats_wf (w_stats empty_world)" using stats_wf_new by (simp add: empty_world_def)
  have "\<not> Option.is_none (pipeline_decode demo_jwt_env (pipeline_apply_route (projr (fst ?b)) None) ?q (snd ?b))"
    by code_simp
  then obtain d p' q' w' where "pipeline_decode demo_jwt_env (pipeline_apply_route p None) ?q w = Some (d, p', q', w')"
    unfolding b by (auto simp: Option.is_none_def)
  from pipeline_handles_in_bounds [OF wf b refl this] c b show ?thesis by simp
qed
end
