(* ===== verification/Conn_Pool.thy ===== *)
theory Conn_Pool
  imports Cluster_Manager
begin

text \<open>
  What the HTTP/1 and the HTTP/2 connection pools share: the thresholds and stat handles
  of \<open>register_pool_cluster_stats\<close> (\<open>envoy-http1/src/pool.rs\<close>), the \<open>established\<close> map
  with its cap check and its decrement edges, and the accounting argument over
  interleavings of pool tasks. Durations are microseconds. Connections are opaque values
  of a type \<open>'s\<close>, endpoints of a type \<open>'ep\<close>.
\<close>

section \<open>Thresholds and handles\<close>

datatype 'err PoolError = Overflow string nat | PendingOverflow string | Connect 'err

record PoolClusterStats =
  pcs_max_connections :: nat
  pcs_max_pending_requests :: nat
  pcs_rq_pending_overflow :: "nat option"
  pcs_cx_overflow :: "nat option"
  pcs_cx_open :: "nat option"
  pcs_cx_destroy :: nat
  pcs_cx_proto_total :: nat
  pcs_cx_total :: nat
  pcs_cx_active :: nat

definition first_threshold :: "ClusterConfig \<Rightarrow> (Thresholds \<Rightarrow> nat option) \<Rightarrow> nat" where
  "first_threshold cfg sel =
     (case Option.bind (Option.bind (circuit_breakers cfg)
             (\<lambda>ths. case ths of [] \<Rightarrow> None | t # _ \<Rightarrow> Some t)) sel of
        None \<Rightarrow> 1024 | Some n \<Rightarrow> n)"

definition reg_if :: "bool \<Rightarrow> (stats \<Rightarrow> (stats_error + nat) \<times> stats) \<Rightarrow> stats
    \<Rightarrow> (stats_error + nat option) \<times> stats" where
  "reg_if b reg st = (if b then reg_then (reg st) (\<lambda>a st. (Inr (Some a), st)) else (Inr None, st))"

definition register_pool_cluster_stats :: "ClusterConfig \<Rightarrow> string \<Rightarrow> stats
    \<Rightarrow> (stats_error + PoolClusterStats) \<times> stats" where
  "register_pool_cluster_stats cfg protocol_counter_name st =
     (let configured = circuit_breakers cfg \<noteq> None in
      reg_then (reg_if configured (register_counter (cluster_stat cfg ''upstream_rq_pending_overflow'')) st)
        (\<lambda>rq_pending_overflow st.
      reg_then (reg_if configured (register_counter (cluster_stat cfg ''upstream_cx_overflow'')) st)
        (\<lambda>cx_overflow st.
      reg_then (reg_if configured (register_gauge (cluster_stat cfg ''circuit_breakers.default.cx_open'')) st)
        (\<lambda>cx_open st.
      reg_then (register_counter (cluster_stat cfg ''upstream_cx_destroy'') st) (\<lambda>cx_destroy st.
      reg_then (register_counter (cluster_stat cfg protocol_counter_name) st) (\<lambda>cx_proto_total st.
      reg_then (register_counter (cluster_stat cfg ''upstream_cx_total'') st) (\<lambda>cx_total st.
      reg_then (register_gauge (cluster_stat cfg ''upstream_cx_active'') st) (\<lambda>cx_active st.
        (Inr \<lparr>pcs_max_connections = first_threshold cfg max_connections,
              pcs_max_pending_requests = first_threshold cfg max_pending_requests,
              pcs_rq_pending_overflow = rq_pending_overflow, pcs_cx_overflow = cx_overflow,
              pcs_cx_open = cx_open, pcs_cx_destroy = cx_destroy, pcs_cx_proto_total = cx_proto_total,
              pcs_cx_total = cx_total, pcs_cx_active = cx_active\<rparr>, st)))))))))"

section \<open>The established map\<close>

text \<open>
  The fields both pools have; each pool extends the record with its own list of
  connections. \<open>established\<close> is only read and written by key.
\<close>

record 'ep pool_core =
  pool_cluster_name :: string
  pool_stats :: PoolClusterStats
  pool_idle_timeout :: nat
  established :: "'ep \<Rightarrow> nat option"

definition opt_inc :: "nat option \<Rightarrow> stats \<Rightarrow> stats" where
  "opt_inc h st = (case h of None \<Rightarrow> st | Some a \<Rightarrow> counter_inc a st)"

definition opt_set :: "nat option \<Rightarrow> i64 \<Rightarrow> stats \<Rightarrow> stats" where
  "opt_set g v st = (case g of None \<Rightarrow> st | Some a \<Rightarrow> gauge_set a v st)"

definition est_of :: "('ep, 'x) pool_core_scheme \<Rightarrow> 'ep \<Rightarrow> nat" where
  "est_of p e = (case established p e of None \<Rightarrow> 0 | Some n \<Rightarrow> n)"

abbreviation max_conns :: "('ep, 'x) pool_core_scheme \<Rightarrow> nat" where
  "max_conns p \<equiv> pcs_max_connections (pool_stats p)"

text \<open>
  The pending-request gate, then the cap check and the increment under the
  \<open>established\<close> lock. Looking the entry up inserts a zero.
\<close>

definition reserve :: "'ep \<Rightarrow> ('ep, 'x) pool_core_scheme \<Rightarrow> stats
    \<Rightarrow> ('err PoolError + unit) \<times> ('ep, 'x) pool_core_scheme \<times> stats" where
  "reserve e p st =
     (if pcs_max_pending_requests (pool_stats p) = 0
      then (Inl (PendingOverflow (pool_cluster_name p)), p, opt_inc (pcs_rq_pending_overflow (pool_stats p)) st)
      else let n = est_of p e in
        if n \<ge> max_conns p
        then (Inl (Overflow (pool_cluster_name p) (max_conns p)),
              p\<lparr>established := (established p)(e \<mapsto> n)\<rparr>, opt_inc (pcs_cx_overflow (pool_stats p)) st)
        else (Inr (), p\<lparr>established := (established p)(e \<mapsto> n + 1)\<rparr>,
              if n + 1 \<ge> max_conns p then opt_set (pcs_cx_open (pool_stats p)) 1 st else st))"

text \<open>A decrement edge: a connect failure or a destroyed connection takes 1, a sweep any number.\<close>

definition give_back :: "'ep \<Rightarrow> nat \<Rightarrow> ('ep, 'x) pool_core_scheme \<Rightarrow> stats
    \<Rightarrow> ('ep, 'x) pool_core_scheme \<times> stats" where
  "give_back e k p st =
     (case established p e of
        None \<Rightarrow> (p, st)
      | Some n \<Rightarrow> (p\<lparr>established := (established p)(e \<mapsto> n - k)\<rparr>,
          if n - k < max_conns p then opt_set (pcs_cx_open (pool_stats p)) 0 st else st))"

text \<open>The second half of \<open>sweep_once\<close>: the evictions found under the other lock are booked.\<close>

fun book_evictions :: "('ep \<times> nat) list \<Rightarrow> ('ep, 'x) pool_core_scheme \<Rightarrow> stats
    \<Rightarrow> ('ep, 'x) pool_core_scheme \<times> stats" where
  "book_evictions [] p st = (p, st)"
| "book_evictions ((e, k) # evs) p st =
     (let (p1, st1) = give_back e k p st
      in book_evictions evs p1 ((counter_inc (pcs_cx_destroy (pool_stats p)) ^^ k) st1))"

section \<open>Hash maps of lists\<close>

text \<open>
  A \<open>HashMap<SocketAddr, Vec<_>>\<close> is the list of its entries in iteration order. The
  order is the hasher's; nothing below depends on it.
\<close>

type_synonym ('ep, 'v) vec_map = "('ep \<times> 'v list) list"

fun vm_get :: "('ep, 'v) vec_map \<Rightarrow> 'ep \<Rightarrow> 'v list option" where
  "vm_get [] e = None"
| "vm_get ((k, vs) # m) e = (if k = e then Some vs else vm_get m e)"

fun vm_set :: "'ep \<Rightarrow> 'v list \<Rightarrow> ('ep, 'v) vec_map \<Rightarrow> ('ep, 'v) vec_map" where
  "vm_set e vs [] = [(e, vs)]"
| "vm_set e vs ((k, ws) # m) = (if k = e then (k, vs) # m else (k, ws) # vm_set e vs m)"

definition vm_push :: "'ep \<Rightarrow> 'v \<Rightarrow> ('ep, 'v) vec_map \<Rightarrow> ('ep, 'v) vec_map" where
  "vm_push e v m = vm_set e ((case vm_get m e of None \<Rightarrow> [] | Some vs \<Rightarrow> vs) @ [v]) m"

text \<open>\<open>retain\<close> on every list, with the number of entries dropped where that is not zero.\<close>

definition vm_retain :: "('v \<Rightarrow> bool) \<Rightarrow> ('ep, 'v) vec_map \<Rightarrow> ('ep, 'v) vec_map \<times> ('ep \<times> nat) list" where
  "vm_retain keep m =
     (map (\<lambda>(e, vs). (e, filter keep vs)) m,
      filter (\<lambda>(e, k). k > 0) (map (\<lambda>(e, vs). (e, length vs - length (filter keep vs))) m))"

text \<open>The connections held for the endpoints that satisfy a predicate.\<close>

definition vm_count :: "('ep \<Rightarrow> bool) \<Rightarrow> ('ep, 'v) vec_map \<Rightarrow> nat" where
  "vm_count P m = sum_list (map (\<lambda>(k, vs). if P k then length vs else 0) m)"

definition ev_count :: "('ep \<Rightarrow> bool) \<Rightarrow> ('ep \<times> nat) list \<Rightarrow> nat" where
  "ev_count P evs = sum_list (map (\<lambda>(k, n). if P k then n else 0) evs)"

lemma vm_get_set [simp]: "vm_get (vm_set e vs m) e' = (if e' = e then Some vs else vm_get m e')"
  by (induction m) auto

lemma vm_count_simps [simp]:
  "vm_count P [] = 0" "vm_count P ((k, vs) # m) = (if P k then length vs else 0) + vm_count P m"
  by (simp_all add: vm_count_def)

lemma ev_count_simps [simp]:
  "ev_count P [] = 0" "ev_count P ((k, n) # evs) = (if P k then n else 0) + ev_count P evs"
  by (simp_all add: ev_count_def)

lemma vm_count_set:
  "vm_get m e = Some ws \<Longrightarrow> vm_count P (vm_set e vs m) + (if P e then length ws else 0) =
     vm_count P m + (if P e then length vs else 0)"
  by (induction m) (auto split: if_splits)

lemma vm_count_set_new: "vm_get m e = None \<Longrightarrow>
    vm_count P (vm_set e vs m) = vm_count P m + (if P e then length vs else 0)"
  by (induction m) (auto split: if_splits)

lemma vm_count_push: "vm_count P (vm_push e v m) = vm_count P m + (if P e then 1 else 0)"
proof (cases "vm_get m e")
  case None
  then show ?thesis by (simp add: vm_push_def vm_count_set_new)
next
  case (Some ws)
  then show ?thesis using vm_count_set [OF Some, of P "ws @ [v]"] by (auto simp: vm_push_def split: if_splits)
qed

lemma vm_retain_count:
  "vm_retain keep m = (m', evs) \<Longrightarrow> vm_count P m = vm_count P m' + ev_count P evs"
proof (induction m arbitrary: m' evs)
  case (Cons x m)
  have "length (filter keep (snd x)) \<le> length (snd x)" by simp
  with Cons.IH [of "fst (vm_retain keep m)" "snd (vm_retain keep m)"] Cons.prems show ?case
    by (cases x) (auto simp: vm_retain_def not_less intro: le_antisym split: if_splits)
qed (simp add: vm_retain_def)

section \<open>What the established map counts\<close>

lemma give_back_est:
  "k \<le> est_of p e \<Longrightarrow> give_back e k p st = (p', st') \<Longrightarrow>
     est_of p' e' + (if e' = e then k else 0) = est_of p e'"
  by (auto simp: give_back_def est_of_def split: option.splits)

lemma give_back_frame [simp]:
  "pool_stats (fst (give_back e k p st)) = pool_stats p"
  "pool_core.more (fst (give_back e k p st)) = pool_core.more p"
  "pool_idle_timeout (fst (give_back e k p st)) = pool_idle_timeout p"
  by (auto simp: give_back_def split: option.splits)

lemma give_back_core:
  assumes "give_back e k p st = (p', st')"
  shows "pool_stats p' = pool_stats p" "pool_core.more p' = pool_core.more p"
  using give_back_frame(1,2) [of e k p st] by (simp_all add: assms)

lemma reserve_est:
  assumes "reserve e p st = (r, p', st')"
  shows "est_of p' e' = est_of p e' + (if e' = e \<and> r = Inr () then 1 else 0)"
    and "r = Inr () \<Longrightarrow> est_of p' e \<le> max_conns p"
    and "pool_stats p' = pool_stats p" "pool_core.more p' = pool_core.more p"
    and "pool_idle_timeout p' = pool_idle_timeout p"
  using assms by (auto simp: reserve_def est_of_def Let_def split: if_splits option.splits)

lemma book_evictions_est:
  "\<forall>e. ev_count ((=) e) evs \<le> est_of p e \<Longrightarrow> book_evictions evs p st = (p', st') \<Longrightarrow>
     est_of p' e + ev_count ((=) e) evs = est_of p e"
proof (induction evs arbitrary: p st)
  case (Cons x evs)
  obtain k n where x [simp]: "x = (k, n)" by (cases x)
  obtain p1 st1 where g: "give_back k n p st = (p1, st1)" by fastforce
  have le: "n \<le> est_of p k" using spec [OF Cons.prems(1), of k] by simp
  have "\<forall>e. ev_count ((=) e) evs \<le> est_of p1 e"
  proof
    fix e show "ev_count ((=) e) evs \<le> est_of p1 e"
      using spec [OF Cons.prems(1), of e] give_back_est [OF le g, of e] by (simp split: if_splits)
  qed
  then have "est_of p' e + ev_count ((=) e) evs = est_of p1 e"
    using Cons.IH [of p1] Cons.prems(2) by (simp add: g)
  then show ?case using give_back_est [OF le g, of e] by (simp split: if_splits)
qed simp

lemma book_evictions_frame [simp]:
  "pool_stats (fst (book_evictions evs p st)) = pool_stats p"
  "pool_core.more (fst (book_evictions evs p st)) = pool_core.more p"
  "pool_idle_timeout (fst (book_evictions evs p st)) = pool_idle_timeout p"
proof (induction evs p st rule: book_evictions.induct)
  case (2 e k evs p st)
  have f: "pool_stats (fst (give_back e k p st)) = pool_stats p"
    "pool_core.more (fst (give_back e k p st)) = pool_core.more p"
    "pool_idle_timeout (fst (give_back e k p st)) = pool_idle_timeout p" by simp_all
  { case 1 then show ?case using 2 f by (simp add: split_beta) }
  { case 2 then show ?case using "2.IH" f by (simp add: split_beta) }
  { case 3 then show ?case using "2.IH" f by (simp add: split_beta) }
qed simp_all

section \<open>The cells of a pool\<close>

definition cells_ok :: "PoolClusterStats \<Rightarrow> stats \<Rightarrow> bool" where
  "cells_ok c st \<longleftrightarrow>
     pcs_cx_total c < length (counters st) \<and> pcs_cx_destroy c < length (counters st)
     \<and> pcs_cx_active c < length (gauges st)
     \<and> distinct [pcs_cx_total c, pcs_cx_destroy c, pcs_cx_proto_total c]
     \<and> pcs_rq_pending_overflow c \<notin> {Some (pcs_cx_total c), Some (pcs_cx_destroy c)}
     \<and> pcs_cx_overflow c \<notin> {Some (pcs_cx_total c), Some (pcs_cx_destroy c)}
     \<and> (\<forall>g. pcs_cx_open c = Some g \<longrightarrow> g < length (gauges st) \<and> g \<noteq> pcs_cx_active c)"

text \<open>The cells the connection account reads are untouched.\<close>

definition same_ledger :: "PoolClusterStats \<Rightarrow> stats \<Rightarrow> stats \<Rightarrow> bool" where
  "same_ledger c st st' \<longleftrightarrow>
     length (counters st) \<le> length (counters st') \<and> length (gauges st) \<le> length (gauges st')
     \<and> counters st' ! pcs_cx_total c = counters st ! pcs_cx_total c
     \<and> counters st' ! pcs_cx_destroy c = counters st ! pcs_cx_destroy c
     \<and> gauges st' ! pcs_cx_active c = gauges st ! pcs_cx_active c"

definition open_cell :: "PoolClusterStats \<Rightarrow> stats \<Rightarrow> i64 option" where
  "open_cell c st = map_option (\<lambda>g. gauges st ! g) (pcs_cx_open c)"

lemma same_ledger_refl [simp]: "same_ledger c st st"
  by (simp add: same_ledger_def)

lemma cells_ok_mono: "cells_ok c st \<Longrightarrow> same_ledger c st st' \<Longrightarrow> cells_ok c st'"
  by (auto simp: cells_ok_def same_ledger_def)

lemma opt_inc_obs [simp]:
  "gauges (opt_inc h st) = gauges st" "length (counters (opt_inc h st)) = length (counters st)"
  "h \<noteq> Some i \<Longrightarrow> counters (opt_inc h st) ! i = counters st ! i"
  "open_cell c (opt_inc h st) = open_cell c st"
  by (cases h; simp add: opt_inc_def counter_inc_def open_cell_def)+

lemma opt_set_obs [simp]:
  "counters (opt_set g v st) = counters st" "length (gauges (opt_set g v st)) = length (gauges st)"
  "g \<noteq> Some i \<Longrightarrow> gauges (opt_set g v st) ! i = gauges st ! i"
  by (cases g; simp add: opt_set_def gauge_set_def)+

lemma cells_ok_open: "cells_ok c st \<Longrightarrow> pcs_cx_open c \<noteq> Some (pcs_cx_active c)"
  by (auto simp: cells_ok_def)

lemma open_cell_set: "cells_ok c st \<Longrightarrow>
    open_cell c (opt_set (pcs_cx_open c) v st) = map_option (\<lambda>_. v) (pcs_cx_open c)"
  by (auto simp: opt_set_def gauge_set_def gauge_set_val_def open_cell_def cells_ok_def split: option.splits)

lemma give_back_ledger:
  assumes "give_back e k p st = (p', st')" "cells_ok (pool_stats p) st"
  shows "same_ledger (pool_stats p) st st'" "counters st' = counters st"
    "length (gauges st') = length (gauges st)"
  using assms(1) cells_ok_open [OF assms(2)]
  by (auto simp: give_back_def same_ledger_def split: option.splits if_splits)

lemma reserve_ledger:
  assumes "reserve e p st = (r, p', st')" "cells_ok (pool_stats p) st"
  shows "same_ledger (pool_stats p) st st'"
  using assms(1) cells_ok_open [OF assms(2)] assms(2)
  by (auto simp: reserve_def same_ledger_def Let_def cells_ok_def [of _ st] split: if_splits)

lemma counter_inc_pow:
  "gauges ((counter_inc a ^^ k) st) = gauges st"
  "length (counters ((counter_inc a ^^ k) st)) = length (counters st)"
  "i \<noteq> a \<Longrightarrow> counters ((counter_inc a ^^ k) st) ! i = counters st ! i"
  "a < length (counters st) \<Longrightarrow> counters ((counter_inc a ^^ k) st) ! a = counters st ! a + of_nat k"
  by (induction k) (simp_all add: counter_inc_def counter_inc_val_def)

lemma book_evictions_ledger:
  assumes "book_evictions evs p st = (p', st')" "cells_ok (pool_stats p) st"
  shows "cells_ok (pool_stats p) st'
    \<and> counters st' ! pcs_cx_total (pool_stats p) = counters st ! pcs_cx_total (pool_stats p)
    \<and> counters st' ! pcs_cx_destroy (pool_stats p) =
        counters st ! pcs_cx_destroy (pool_stats p) + of_nat (ev_count (\<lambda>_. True) evs)
    \<and> gauges st' ! pcs_cx_active (pool_stats p) = gauges st ! pcs_cx_active (pool_stats p)"
  using assms
proof (induction evs arbitrary: p st)
  case (Cons x evs)
  obtain e k where x [simp]: "x = (e, k)" by (cases x)
  let ?d = "pcs_cx_destroy (pool_stats p)"
  obtain p1 st1 where g: "give_back e k p st = (p1, st1)" by fastforce
  define st2 where "st2 = (counter_inc ?d ^^ k) st1"
  note gl = give_back_ledger [OF g Cons.prems(2)]
  have p1: "pool_stats p1 = pool_stats p" using give_back_frame(1) [of e k p st] by (simp add: g)
  have b: "book_evictions evs p1 st2 = (p', st')" using Cons.prems(1) by (simp add: g st2_def)
  have st2: "gauges st2 = gauges st1" "length (counters st2) = length (counters st)"
    "counters st2 ! pcs_cx_total (pool_stats p) = counters st ! pcs_cx_total (pool_stats p)"
    "counters st2 ! ?d = counters st ! ?d + of_nat k"
    using Cons.prems(2) gl(2) by (simp_all add: st2_def counter_inc_pow cells_ok_def)
  have "cells_ok (pool_stats p1) st2"
    using Cons.prems(2) gl(3) by (auto simp: p1 cells_ok_def st2)
  then show ?case
    using Cons.IH [OF b] gl(1) by (auto simp: p1 st2 same_ledger_def)
qed simp

text \<open>What the handles of a fresh registration are.\<close>

lemma reg_then_Inr:
  "reg_then r f = (Inr b, st') \<longleftrightarrow> (\<exists>a st1. r = (Inr a, st1) \<and> f a st1 = (Inr b, st'))"
  by (auto simp: reg_then_def split: prod.splits sum.splits)

lemma reg_if_Inr:
  "reg_if b reg st = (Inr a, st') \<longleftrightarrow>
     (if b then \<exists>i. reg st = (Inr i, st') \<and> a = Some i else a = None \<and> st' = st)"
  by (auto simp: reg_if_def reg_then_Inr)

definition names_keep :: "stats \<Rightarrow> stats \<Rightarrow> bool" where
  "names_keep st st' \<longleftrightarrow> stats_wf st'
     \<and> length (counters st) \<le> length (counters st') \<and> length (gauges st) \<le> length (gauges st')
     \<and> (\<forall>n h. bt_get (reg_map st) n = Some h \<longrightarrow> bt_get (reg_map st') n = Some h)"

lemma names_keep_trans: "names_keep st st1 \<Longrightarrow> names_keep st1 st2 \<Longrightarrow> names_keep st st2"
  by (auto simp: names_keep_def)

lemma cells_ok_keep: "cells_ok c st \<Longrightarrow> names_keep st st' \<Longrightarrow> cells_ok c st'"
  by (auto simp: cells_ok_def names_keep_def)

lemma register_keeps:
  assumes "stats_wf st"
  shows "register_counter n st = (Inr a, st') \<Longrightarrow> names_keep st st' \<and> bt_get (reg_map st') n = Some (HCounter a)"
    and "register_gauge n st = (Inr a, st') \<Longrightarrow> names_keep st st' \<and> bt_get (reg_map st') n = Some (HGauge a)"
proof -
  have w: "bt_wf (reg_map st)" using assms by (simp add: stats_wf_def)
  { assume r: "register_counter n st = (Inr a, st')"
    then have "stats_wf st'" using register_counter_wf [OF assms, of n] by simp
    then show "names_keep st st' \<and> bt_get (reg_map st') n = Some (HCounter a)"
      using r w by (auto simp: names_keep_def register_counter_def Let_def
          split: if_splits option.splits stat_handle.splits) }
  { assume r: "register_gauge n st = (Inr a, st')"
    then have "stats_wf st'" using register_gauge_wf [OF assms, of n] by simp
    then show "names_keep st st' \<and> bt_get (reg_map st') n = Some (HGauge a)"
      using r w by (auto simp: names_keep_def register_gauge_def Let_def
          split: if_splits option.splits stat_handle.splits) }
qed

lemma reg_if_keeps:
  assumes "stats_wf st"
  shows "reg_if b (register_counter n) st = (Inr a, st') \<Longrightarrow> stats_wf st' \<and> names_keep st st'
      \<and> (\<forall>i. a = Some i \<longrightarrow> bt_get (reg_map st') n = Some (HCounter i))"
    and "reg_if b (register_gauge n) st = (Inr a, st') \<Longrightarrow> stats_wf st' \<and> names_keep st st'
      \<and> (\<forall>i. a = Some i \<longrightarrow> bt_get (reg_map st') n = Some (HGauge i))"
  using assms register_keeps [OF assms] by (auto simp: reg_if_Inr names_keep_def split: if_splits)

lemma cluster_stat_inject [simp]: "cluster_stat cfg a = cluster_stat cfg b \<longleftrightarrow> a = b"
  by (simp add: cluster_stat_def)

text \<open>
  Handles looked up under different names differ: the registry maps no two names to one cell.
\<close>

lemma handles_differ:
  assumes "stats_wf st" "bt_get (reg_map st) n = Some h" "bt_get (reg_map st) m = Some h'" "n \<noteq> m"
  shows "h \<noteq> h'"
  using assms unfolding stats_wf_def by blast

lemma register_pool_cells:
  assumes "stats_wf st" "register_pool_cluster_stats cfg proto st = (Inr c, st')"
    and "proto \<in> {''upstream_cx_http1_total'', ''upstream_cx_http2_total''}"
  shows "names_keep st st' \<and> cells_ok c st' \<and> pcs_max_connections c = first_threshold cfg max_connections"
proof -
  let ?n = "cluster_stat cfg"
  obtain a1 s1 a2 s2 a3 s3 d s4 q s5 t s6 g where r:
    "reg_if (circuit_breakers cfg \<noteq> None) (register_counter (?n ''upstream_rq_pending_overflow'')) st = (Inr a1, s1)"
    "reg_if (circuit_breakers cfg \<noteq> None) (register_counter (?n ''upstream_cx_overflow'')) s1 = (Inr a2, s2)"
    "reg_if (circuit_breakers cfg \<noteq> None) (register_gauge (?n ''circuit_breakers.default.cx_open'')) s2 = (Inr a3, s3)"
    "register_counter (?n ''upstream_cx_destroy'') s3 = (Inr d, s4)"
    "register_counter (?n proto) s4 = (Inr q, s5)"
    "register_counter (?n ''upstream_cx_total'') s5 = (Inr t, s6)"
    "register_gauge (?n ''upstream_cx_active'') s6 = (Inr g, st')"
    and c: "c = \<lparr>pcs_max_connections = first_threshold cfg max_connections,
      pcs_max_pending_requests = first_threshold cfg max_pending_requests,
      pcs_rq_pending_overflow = a1, pcs_cx_overflow = a2, pcs_cx_open = a3, pcs_cx_destroy = d,
      pcs_cx_proto_total = q, pcs_cx_total = t, pcs_cx_active = g\<rparr>"
    using assms(2) unfolding register_pool_cluster_stats_def Let_def reg_then_Inr by blast
  note k1 = reg_if_keeps(1) [OF assms(1) r(1)]
  note k2 = reg_if_keeps(1) [OF k1 [THEN conjunct1] r(2)]
  note k3 = reg_if_keeps(2) [OF k2 [THEN conjunct1] r(3)]
  note k4 = register_keeps(1) [OF k3 [THEN conjunct1] r(4)]
  note k5 = register_keeps(1) [OF k4 [THEN conjunct1, unfolded names_keep_def, THEN conjunct1] r(5)]
  note k6 = register_keeps(1) [OF k5 [THEN conjunct1, unfolded names_keep_def, THEN conjunct1] r(6)]
  note k7 = register_keeps(2) [OF k6 [THEN conjunct1, unfolded names_keep_def, THEN conjunct1] r(7)]
  have wf: "stats_wf st'" using k7 by (simp add: names_keep_def)
  have lk: "bt_get (reg_map st') (?n ''upstream_cx_destroy'') = Some (HCounter d)"
    "bt_get (reg_map st') (?n proto) = Some (HCounter q)"
    "bt_get (reg_map st') (?n ''upstream_cx_total'') = Some (HCounter t)"
    "bt_get (reg_map st') (?n ''upstream_cx_active'') = Some (HGauge g)"
    "\<And>i. a1 = Some i \<Longrightarrow> bt_get (reg_map st') (?n ''upstream_rq_pending_overflow'') = Some (HCounter i)"
    "\<And>i. a2 = Some i \<Longrightarrow> bt_get (reg_map st') (?n ''upstream_cx_overflow'') = Some (HCounter i)"
    "\<And>i. a3 = Some i \<Longrightarrow> bt_get (reg_map st') (?n ''circuit_breakers.default.cx_open'') = Some (HGauge i)"
    using k1 k2 k3 k4 k5 k6 k7 by (auto simp: names_keep_def)
  have "cells_ok c st'"
    unfolding cells_ok_def c
    using handles_differ [OF wf lk(1,2)] handles_differ [OF wf lk(1,3)] handles_differ [OF wf lk(2,3)]
      handles_differ [OF wf lk(5) lk(1)] handles_differ [OF wf lk(5) lk(3)]
      handles_differ [OF wf lk(6) lk(1)] handles_differ [OF wf lk(6) lk(3)]
      handles_differ [OF wf lk(7) lk(4)] wf_handle_ok [OF wf lk(1)] wf_handle_ok [OF wf lk(3)]
      wf_handle_ok [OF wf lk(4)] wf_handle_ok [OF wf lk(7)] assms(3)
    by (auto simp: handle_ok_def)
  moreover have "names_keep st st'"
    using k1 k2 k3 k4 k5 k6 k7 by (meson names_keep_trans)
  ultimately show ?thesis using c by simp
qed

section \<open>Counting tasks\<close>

definition tasks_in :: "('pc \<Rightarrow> bool) \<Rightarrow> (nat \<Rightarrow> 'pc) \<Rightarrow> nat" where
  "tasks_in P f = card {t. P (f t)}"

lemma tasks_in_upd:
  assumes "finite {t. P (f t)}"
  shows "tasks_in P (f(t := x)) + (if P (f t) then 1 else 0) = tasks_in P f + (if P x then 1 else 0)"
    and "finite {u. P ((f(t := x)) u)}"
proof -
  have eq: "{u. P ((f(t := x)) u)} = (if P x then insert t {u. P (f u)} else {u. P (f u)} - {t})"
    by auto
  show "finite {u. P ((f(t := x)) u)}" unfolding eq using assms by simp
  have "card {u. P (f u)} > 0" if "P (f t)" using assms that by (auto simp: card_gt_0_iff)
  then show "tasks_in P (f(t := x)) + (if P (f t) then 1 else 0) = tasks_in P f + (if P x then 1 else 0)"
    using assms unfolding tasks_in_def eq by (auto simp: card_insert_if insert_absorb)
qed

section \<open>A pool that keeps its account\<close>

text \<open>
  The contract both pools' step relations meet: the \<open>established\<close> count of every
  endpoint is the number of connections that exist or are being made, whatever step is
  taken, and only a reservation below the cap raises it.
\<close>

locale pool_account =
  fixes cap :: nat and init :: "'s \<Rightarrow> bool" and step :: "'s \<Rightarrow> 's \<Rightarrow> bool"
    and good :: "'s \<Rightarrow> bool" and est live :: "'s \<Rightarrow> 'ep \<Rightarrow> nat"
  assumes init_good: "init s \<Longrightarrow> good s \<and> est s e = 0 \<and> live s e = 0"
    and step_good: "step s s' \<Longrightarrow> good s \<Longrightarrow> \<forall>e. est s e = live s e \<Longrightarrow> good s'"
    and step_account: "step s s' \<Longrightarrow> good s \<Longrightarrow> \<forall>e. est s e = live s e \<Longrightarrow> est s' e = live s' e"
    and step_cap: "step s s' \<Longrightarrow> good s \<Longrightarrow> \<forall>e. est s e = live s e \<Longrightarrow> est s' e \<le> max (est s e) cap"
begin

lemma reach_account:
  assumes "init s0" "step\<^sup>*\<^sup>* s0 s"
  shows "good s \<and> (\<forall>e. est s e = live s e \<and> est s e \<le> cap)"
  using assms(2)
proof (induction rule: rtranclp_induct)
  case base
  then show ?case using init_good [OF assms(1)] by simp
next
  case (step s s')
  then have a: "good s" "\<forall>e. est s e = live s e" by auto
  have "est s' e \<le> cap" for e using step_cap [OF step.hyps(2) a, of e] step.IH by (metis max.absorb2)
  then show ?case using step_account [OF step.hyps(2) a] step_good [OF step.hyps(2) a] by blast
qed

lemma reach_live: "init s0 \<Longrightarrow> step\<^sup>*\<^sup>* s0 s \<Longrightarrow> live s e \<le> cap"
  using reach_account by metis

end

section \<open>Example handles\<close>

definition demo_pcs :: PoolClusterStats where
  "demo_pcs = \<lparr>pcs_max_connections = 1, pcs_max_pending_requests = 1024, pcs_rq_pending_overflow = Some 0,
     pcs_cx_overflow = Some 1, pcs_cx_open = Some 0, pcs_cx_destroy = 2, pcs_cx_proto_total = 3,
     pcs_cx_total = 4, pcs_cx_active = 1\<rparr>"

definition demo_pool_stats :: stats where
  "demo_pool_stats = \<lparr>reg_map = bt_empty, counters = [0, 0, 0, 0, 0], gauges = [0, 0]\<rparr>"

end
