(* ===== verification/H2_Pool.thy ===== *)
theory H2_Pool
  imports Conn_Pool "HOL-Library.Multiset"
begin

text \<open>
  \<open>envoy-http2/src/pool.rs\<close>: the HTTP/2 connection pool. A connection carries up to
  \<open>max_streams\<close> concurrent streams; the entries are shared (\<open>Arc\<close>) between the pool's
  list and the guards, so they live in a store and are named by number. The thresholds,
  the cap check and the decrement edges are those of the HTTP/1 pool.
\<close>

section \<open>State\<close>

record 's H2PoolEntry =
  client_stream :: 's
  max_streams :: nat
  active_streams :: nat
  last_idle :: "nat option"

record ('ep, 's) H2Pool = "'ep pool_core" +
  connections :: "('ep, nat) vec_map"
  entries :: "nat \<Rightarrow> 's H2PoolEntry option"
  next_entry :: nat

record 'ep H2PoolGuard =
  h2g_endpoint :: 'ep
  h2g_entry :: nat
  h2g_invalidated :: bool

definition H2Pool_new :: "string \<Rightarrow> PoolClusterStats \<Rightarrow> nat \<Rightarrow> ('ep, 's) H2Pool" where
  "H2Pool_new name stats timeout =
     \<lparr>pool_cluster_name = name, pool_stats = stats, pool_idle_timeout = timeout,
      established = (\<lambda>_. None), connections = [], entries = (\<lambda>_. None), next_entry = 0\<rparr>"

definition conns_of :: "('ep, 's) H2Pool \<Rightarrow> 'ep \<Rightarrow> nat list" where
  "conns_of p e = (case vm_get (connections p) e of None \<Rightarrow> [] | Some is \<Rightarrow> is)"

section \<open>Operations\<close>

text \<open>
  \<open>try_claim_stream_slot\<close>: the compare-exchange loop ends with one more stream, or finds
  the connection full.
\<close>

definition try_claim_stream_slot :: "'s H2PoolEntry \<Rightarrow> 's H2PoolEntry option" where
  "try_claim_stream_slot en =
     (if active_streams en \<ge> max_streams en then None
      else Some (en\<lparr>active_streams := active_streams en + 1,
                    last_idle := (if active_streams en = 0 then None else last_idle en)\<rparr>))"

definition claim_entry :: "nat \<Rightarrow> ('ep, 's) H2Pool \<Rightarrow> ('ep, 's) H2Pool option" where
  "claim_entry i p =
     (case entries p i of
        None \<Rightarrow> None
      | Some en \<Rightarrow> (case try_claim_stream_slot en of
          None \<Rightarrow> None
        | Some en' \<Rightarrow> Some (p\<lparr>entries := (entries p)(i \<mapsto> en')\<rparr>)))"

text \<open>The walk over the connections of the endpoint: the first one with a free slot.\<close>

fun claim_first :: "nat list \<Rightarrow> ('ep, 's) H2Pool \<Rightarrow> (nat \<times> ('ep, 's) H2Pool) option" where
  "claim_first [] p = None"
| "claim_first (i # is) p =
     (case claim_entry i p of Some p' \<Rightarrow> Some (i, p') | None \<Rightarrow> claim_first is p)"

text \<open>Phase 4 of \<open>acquire\<close>: counters, a new entry with one stream, the push, the gauge.\<close>

definition h2_connected :: "'ep \<Rightarrow> 's \<Rightarrow> ('ep, 's) H2Pool \<Rightarrow> stats
    \<Rightarrow> 'ep H2PoolGuard \<times> ('ep, 's) H2Pool \<times> stats" where
  "h2_connected e s p st =
     (let i = next_entry p;
          en = \<lparr>client_stream = s, max_streams = 100, active_streams = 1, last_idle = None\<rparr>
      in (\<lparr>h2g_endpoint = e, h2g_entry = i, h2g_invalidated = False\<rparr>,
          p\<lparr>connections := vm_push e i (connections p), entries := (entries p)(i \<mapsto> en), next_entry := i + 1\<rparr>,
          gauge_inc (pcs_cx_active (pool_stats p))
            (counter_inc (pcs_cx_proto_total (pool_stats p)) (counter_inc (pcs_cx_total (pool_stats p)) st))))"

definition h2_acquire :: "('ep \<Rightarrow> 'err + 's) \<Rightarrow> 'ep \<Rightarrow> ('ep, 's) H2Pool \<Rightarrow> stats
    \<Rightarrow> ('err PoolError + 'ep H2PoolGuard) \<times> ('ep, 's) H2Pool \<times> stats" where
  "h2_acquire connect e p st =
     (case claim_first (conns_of p e) p of
        Some (i, p') \<Rightarrow> (Inr \<lparr>h2g_endpoint = e, h2g_entry = i, h2g_invalidated = False\<rparr>, p',
                         gauge_inc (pcs_cx_active (pool_stats p)) st)
      | None \<Rightarrow>
          (case reserve e p st of
             (Inl err, p', st') \<Rightarrow> (Inl err, p', st')
           | (Inr _, p', st') \<Rightarrow>
               (case connect e of
                  Inl err \<Rightarrow> (let (p'', st'') = give_back e 1 p' st' in (Inl (Connect err), p'', st''))
                | Inr s \<Rightarrow> (let (g, p'', st'') = h2_connected e s p' st' in (Inr g, p'', st'')))))"

definition h2_invalidate :: "'ep H2PoolGuard \<Rightarrow> 'ep H2PoolGuard" where
  "h2_invalidate g = g\<lparr>h2g_invalidated := True\<rparr>"

text \<open>\<open>fetch_sub\<close> on the entry's stream count.\<close>

definition release_stream :: "nat \<Rightarrow> ('ep, 's) H2Pool \<Rightarrow> ('ep, 's) H2Pool" where
  "release_stream i p =
     p\<lparr>entries := (entries p)(i := map_option (\<lambda>en. en\<lparr>active_streams := active_streams en - 1\<rparr>) (entries p i))\<rparr>"

definition mark_idle :: "nat \<Rightarrow> nat \<Rightarrow> ('ep, 's) H2Pool \<Rightarrow> ('ep, 's) H2Pool" where
  "mark_idle now i p =
     p\<lparr>entries := (entries p)(i := map_option (\<lambda>en. en\<lparr>last_idle := Some now\<rparr>) (entries p i))\<rparr>"

definition stream_count :: "('ep, 's) H2Pool \<Rightarrow> nat \<Rightarrow> nat" where
  "stream_count p i = (case entries p i of None \<Rightarrow> 0 | Some en \<Rightarrow> active_streams en)"

text \<open>The part of the invalidating drop under the \<open>connections\<close> lock.\<close>

definition evict :: "'ep H2PoolGuard \<Rightarrow> ('ep, 's) H2Pool \<Rightarrow> ('ep, 's) H2Pool" where
  "evict g p =
     (let p1 = release_stream (h2g_entry g) p in
      case vm_get (connections p1) (h2g_endpoint g) of
        None \<Rightarrow> p1
      | Some is \<Rightarrow> p1\<lparr>connections := vm_set (h2g_endpoint g) (filter (\<lambda>i. i \<noteq> h2g_entry g) is) (connections p1)\<rparr>)"

text \<open>The rest of it, under the \<open>established\<close> lock, and the counter after it.\<close>

definition book_destroy :: "'ep \<Rightarrow> ('ep, 's) H2Pool \<Rightarrow> stats \<Rightarrow> ('ep, 's) H2Pool \<times> stats" where
  "book_destroy e p st =
     (let (p', st') = give_back e 1 p st
      in (p', gauge_dec (pcs_cx_active (pool_stats p)) (counter_inc (pcs_cx_destroy (pool_stats p)) st')))"

definition h2_drop :: "nat \<Rightarrow> 'ep H2PoolGuard \<Rightarrow> ('ep, 's) H2Pool \<Rightarrow> stats \<Rightarrow> ('ep, 's) H2Pool \<times> stats" where
  "h2_drop now g p st =
     (if h2g_invalidated g then book_destroy (h2g_endpoint g) (evict g p) st
      else let i = h2g_entry g; p1 = release_stream i p;
               p2 = (if stream_count p i = 1 then mark_idle now i p1 else p1)
           in (p2, gauge_dec (pcs_cx_active (pool_stats p)) st))"

definition h2_keep :: "nat \<Rightarrow> ('ep, 's) H2Pool \<Rightarrow> nat \<Rightarrow> bool" where
  "h2_keep now p i =
     (case entries p i of
        None \<Rightarrow> True
      | Some en \<Rightarrow>
          active_streams en > 0 \<or>
          (case last_idle en of Some t \<Rightarrow> now - t < pool_idle_timeout p | None \<Rightarrow> True))"

definition sweep_with :: "(nat \<Rightarrow> bool) \<Rightarrow> ('ep, 's) H2Pool \<Rightarrow> ('ep, 's) H2Pool \<times> ('ep \<times> nat) list" where
  "sweep_with keep p = (let (m, evs) = vm_retain keep (connections p) in (p\<lparr>connections := m\<rparr>, evs))"

definition h2_sweep_once :: "nat \<Rightarrow> ('ep, 's) H2Pool \<Rightarrow> stats \<Rightarrow> ('ep, 's) H2Pool \<times> stats" where
  "h2_sweep_once now p st =
     (let (p', evs) = sweep_with (h2_keep now p) p in if evs = [] then (p', st) else book_evictions evs p' st)"

fun h2_pools_for :: "'addr cluster_manager \<Rightarrow> ClusterConfig list \<Rightarrow> (string, ('ep, 's) H2Pool) btmap \<Rightarrow> stats
    \<Rightarrow> ((stats_error + (string, ('ep, 's) H2Pool) btmap) \<times> stats) option" where
  "h2_pools_for cm [] m st = Some (Inr m, st)"
| "h2_pools_for cm (cfg # cfgs) m st =
     (case cm_get cm (cc_name cfg) of
        None \<Rightarrow> None
      | Some handle \<Rightarrow>
          if cl_upstream_protocol handle \<noteq> Http2 then h2_pools_for cm cfgs m st
          else (case register_pool_cluster_stats cfg ''upstream_cx_http2_total'' st of
              (Inl e, st') \<Rightarrow> Some (Inl e, st')
            | (Inr stats, st') \<Rightarrow>
                h2_pools_for cm cfgs (bt_insert (cc_name cfg) (H2Pool_new (cc_name cfg) stats 60000000) m) st'))"

definition H2PoolManager_for_bootstrap :: "Bootstrap \<Rightarrow> 'addr cluster_manager \<Rightarrow> stats
    \<Rightarrow> ((stats_error + (string, ('ep, 's) H2Pool) btmap) \<times> stats) option" where
  "H2PoolManager_for_bootstrap b cm st = h2_pools_for cm (all_clusters b) bt_empty st"

section \<open>Interleavings\<close>

text \<open>
  The stream counts are atomics that a returning guard lowers without any lock. A walk or
  a sweep therefore sees the counts at different moments: in the step relation a walk may
  claim any connection of its endpoint that has a free slot, or miss one, and a sweep may
  evict any of the connections without streams. Every run of the code is such a run.
\<close>

datatype 'ep h2_pc =
    Out | Miss 'ep | Conn 'ep | Hold "'ep H2PoolGuard" | Idled nat | Evicted 'ep

record ('ep, 's) h2_sys =
  x_pool :: "('ep, 's) H2Pool"
  x_stats :: stats
  x_pc :: "nat \<Rightarrow> 'ep h2_pc"
  x_sweep :: "('ep \<times> nat) list"

inductive h2_step :: "('ep, 's) h2_sys \<Rightarrow> ('ep, 's) h2_sys \<Rightarrow> bool" where
  claim: "x_pc s t = Out \<Longrightarrow> i \<in> set (conns_of (x_pool s) e) \<Longrightarrow> claim_entry i (x_pool s) = Some p' \<Longrightarrow>
    h2_step s (s\<lparr>x_pool := p', x_stats := gauge_inc (pcs_cx_active (pool_stats p')) (x_stats s),
      x_pc := (x_pc s)(t := Hold \<lparr>h2g_endpoint = e, h2g_entry = i, h2g_invalidated = False\<rparr>)\<rparr>)"
| miss: "x_pc s t = Out \<Longrightarrow> h2_step s (s\<lparr>x_pc := (x_pc s)(t := Miss e)\<rparr>)"
| refused: "x_pc s t = Miss e \<Longrightarrow> reserve e (x_pool s) (x_stats s) = (Inl (err :: unit PoolError), p', st') \<Longrightarrow>
    h2_step s (s\<lparr>x_pool := p', x_stats := st', x_pc := (x_pc s)(t := Out)\<rparr>)"
| reserved: "x_pc s t = Miss e \<Longrightarrow> reserve e (x_pool s) (x_stats s) = (Inr u :: unit PoolError + unit, p', st') \<Longrightarrow>
    h2_step s (s\<lparr>x_pool := p', x_stats := st', x_pc := (x_pc s)(t := Conn e)\<rparr>)"
| connect_ok: "x_pc s t = Conn e \<Longrightarrow> h2_connected e c (x_pool s) (x_stats s) = (g, p', st') \<Longrightarrow>
    h2_step s (s\<lparr>x_pool := p', x_stats := st', x_pc := (x_pc s)(t := Hold g)\<rparr>)"
| connect_err: "x_pc s t = Conn e \<Longrightarrow> give_back e 1 (x_pool s) (x_stats s) = (p', st') \<Longrightarrow>
    h2_step s (s\<lparr>x_pool := p', x_stats := st', x_pc := (x_pc s)(t := Out)\<rparr>)"
| invalidated: "x_pc s t = Hold g \<Longrightarrow> h2_step s (s\<lparr>x_pc := (x_pc s)(t := Hold (h2_invalidate g))\<rparr>)"
| evicting: "x_pc s t = Hold g \<Longrightarrow> h2g_invalidated g \<Longrightarrow>
    h2_step s (s\<lparr>x_pool := evict g (x_pool s), x_pc := (x_pc s)(t := Evicted (h2g_endpoint g))\<rparr>)"
| destroyed: "x_pc s t = Evicted e \<Longrightarrow> book_destroy e (x_pool s) (x_stats s) = (p', st') \<Longrightarrow>
    h2_step s (s\<lparr>x_pool := p', x_stats := st', x_pc := (x_pc s)(t := Out)\<rparr>)"
| returned: "x_pc s t = Hold g \<Longrightarrow> \<not> h2g_invalidated g \<Longrightarrow> stream_count (x_pool s) (h2g_entry g) \<noteq> 1 \<Longrightarrow>
    h2_step s (s\<lparr>x_pool := release_stream (h2g_entry g) (x_pool s),
      x_stats := gauge_dec (pcs_cx_active (pool_stats (x_pool s))) (x_stats s), x_pc := (x_pc s)(t := Out)\<rparr>)"
| idled: "x_pc s t = Hold g \<Longrightarrow> \<not> h2g_invalidated g \<Longrightarrow> stream_count (x_pool s) (h2g_entry g) = 1 \<Longrightarrow>
    h2_step s (s\<lparr>x_pool := release_stream (h2g_entry g) (x_pool s), x_pc := (x_pc s)(t := Idled (h2g_entry g))\<rparr>)"
| idle_stamp: "x_pc s t = Idled i \<Longrightarrow>
    h2_step s (s\<lparr>x_pool := mark_idle now i (x_pool s),
      x_stats := gauge_dec (pcs_cx_active (pool_stats (x_pool s))) (x_stats s), x_pc := (x_pc s)(t := Out)\<rparr>)"
| sweep_collect: "x_sweep s = [] \<Longrightarrow>
    \<forall>e. \<forall>i \<in> set (conns_of (x_pool s) e). \<not> keep i \<longrightarrow> stream_count (x_pool s) i = 0 \<Longrightarrow>
    sweep_with keep (x_pool s) = (p', evs) \<Longrightarrow> h2_step s (s\<lparr>x_pool := p', x_sweep := evs\<rparr>)"
| sweep_book: "book_evictions (x_sweep s) (x_pool s) (x_stats s) = (p', st') \<Longrightarrow>
    h2_step s (s\<lparr>x_pool := p', x_stats := st', x_sweep := []\<rparr>)"

definition h2_init :: "PoolClusterStats \<Rightarrow> ('ep, 's) h2_sys \<Rightarrow> bool" where
  "h2_init c s \<longleftrightarrow> pool_stats (x_pool s) = c \<and> established (x_pool s) = (\<lambda>_. None)
     \<and> connections (x_pool s) = [] \<and> entries (x_pool s) = (\<lambda>_. None)
     \<and> x_pc s = (\<lambda>_. Out) \<and> x_sweep s = []"

section \<open>Streams per connection\<close>

definition uses_entry :: "nat \<Rightarrow> 'ep h2_pc \<Rightarrow> bool" where
  "uses_entry i pc \<longleftrightarrow> (case pc of Hold g \<Rightarrow> h2g_entry g = i | _ \<Rightarrow> False)"

fun vm_vals :: "('ep, 'v) vec_map \<Rightarrow> 'v list" where
  "vm_vals [] = []"
| "vm_vals ((e, vs) # m) = vs @ vm_vals m"

definition pooled :: "('ep, 's) H2Pool \<Rightarrow> nat list" where
  "pooled p = vm_vals (connections p)"

definition h2_good :: "PoolClusterStats \<Rightarrow> ('ep, 's) h2_sys \<Rightarrow> bool" where
  "h2_good c s \<longleftrightarrow> pool_stats (x_pool s) = c \<and> finite {t. x_pc s t \<noteq> Out}
     \<and> distinct (pooled (x_pool s))
     \<and> (\<forall>i. i \<in> set (pooled (x_pool s)) \<longrightarrow> i < next_entry (x_pool s))
     \<and> (\<forall>i. entries (x_pool s) i \<noteq> None \<longrightarrow> i < next_entry (x_pool s))
     \<and> (\<forall>i en. entries (x_pool s) i = Some en \<longrightarrow> max_streams en = 100 \<and> active_streams en \<le> 100)
     \<and> (\<forall>i. stream_count (x_pool s) i = tasks_in (uses_entry i) (x_pc s))"

lemma uses_entry_simps [simp]:
  "\<not> uses_entry i Out" "\<not> uses_entry i (Miss e)" "\<not> uses_entry i (Conn e)" "\<not> uses_entry i (Idled j)"
  "\<not> uses_entry i (Evicted e)" "uses_entry i (Hold g) = (h2g_entry g = i)"
  by (simp_all add: uses_entry_def)

lemma h2_finite:
  assumes "finite {t. f t \<noteq> Out}" "\<not> P Out"
  shows "finite {t. P (f t)}" "finite {u. (f(t := x)) u \<noteq> Out}"
proof -
  have "{t. P (f t)} \<subseteq> {t. f t \<noteq> Out}" using assms(2) by auto
  then show "finite {t. P (f t)}" using assms(1) finite_subset by blast
  have "{u. (f(t := x)) u \<noteq> Out} \<subseteq> insert t {t. f t \<noteq> Out}" by auto
  then show "finite {u. (f(t := x)) u \<noteq> Out}" using assms(1) finite_subset by blast
qed

lemma h2_tasks_upd:
  assumes "finite {t. f t \<noteq> Out}" "\<not> P Out"
  shows "tasks_in P (f(t := x)) + (if P (f t) then 1 else 0) = tasks_in P f + (if P x then 1 else 0)"
  by (rule tasks_in_upd(1) [where f = f]) (rule h2_finite(1) [where f = f and P = P, OF assms])

lemma h2_tasks_pos:
  assumes "finite {t. f t \<noteq> Out}" "\<not> P Out" "P (f t)"
  shows "0 < tasks_in P f"
  unfolding tasks_in_def using h2_finite(1) [where f = f and P = P, OF assms(1,2)] assms(3)
  by (auto simp: card_gt_0_iff)

lemma in_vec_map: "vm_get m e = Some is \<Longrightarrow> set is \<subseteq> set (vm_vals m)"
  by (induction m rule: vm_vals.induct) (auto split: if_splits)

lemma conns_pooled: "i \<in> set (conns_of p e) \<Longrightarrow> i \<in> set (pooled p)"
  by (cases "vm_get (connections p) e") (use in_vec_map [of "connections p" e] in \<open>auto simp: conns_of_def pooled_def\<close>)

lemma pooled_push: "mset (vm_vals (vm_push e i m)) = add_mset i (mset (vm_vals m))"
proof -
  have "mset (vm_vals (vm_set e (vs @ [i]) m)) = add_mset i (mset (vm_vals m))"
    if "vm_get m e = Some vs" for vs
    using that by (induction m rule: vm_vals.induct) (auto split: if_splits)
  moreover have "mset (vm_vals (vm_set e [i] m)) = add_mset i (mset (vm_vals m))"
    if "vm_get m e = None"
    using that by (induction m rule: vm_vals.induct) (auto split: if_splits)
  ultimately show ?thesis by (cases "vm_get m e") (simp_all add: vm_push_def)
qed

lemma pooled_filter_set:
  "vm_get m e = Some is \<Longrightarrow> set (vm_vals (vm_set e (filter P is) m)) \<subseteq> set (vm_vals m)"
  by (induction m rule: vm_vals.induct) (auto split: if_splits)

lemma pooled_filter_distinct:
  "vm_get m e = Some is \<Longrightarrow> distinct (vm_vals m) \<Longrightarrow> distinct (vm_vals (vm_set e (filter P is) m))"
proof (induction m rule: vm_vals.induct)
  case (2 k vs m)
  then show ?case using pooled_filter_set [of m e "is" P] by (auto split: if_splits)
qed simp

lemma retain_pooled: "vm_retain keep m = (m', evs) \<Longrightarrow> vm_vals m' = filter keep (vm_vals m)"
  by (induction m arbitrary: m' evs rule: vm_vals.induct) (auto simp: vm_retain_def)

lemma stream_count_upd:
  "stream_count (release_stream i p) j = stream_count p j - (if j = i then 1 else 0)"
  "stream_count (mark_idle now i p) j = stream_count p j"
  by (auto simp: stream_count_def release_stream_def mark_idle_def split: option.splits)

lemma evict_obs:
  "pool_stats (evict g p) = pool_stats p" "established (evict g p) = established p"
  "entries (evict g p) = entries (release_stream (h2g_entry g) p)" "next_entry (evict g p) = next_entry p"
  "set (pooled (evict g p)) \<subseteq> set (pooled p)" "distinct (pooled p) \<Longrightarrow> distinct (pooled (evict g p))"
  "stream_count (evict g p) j = stream_count p j - (if j = h2g_entry g then 1 else 0)"
proof -
  show "pool_stats (evict g p) = pool_stats p" "established (evict g p) = established p"
    "entries (evict g p) = entries (release_stream (h2g_entry g) p)" "next_entry (evict g p) = next_entry p"
    by (auto simp: evict_def release_stream_def Let_def split: option.splits)
  then show "stream_count (evict g p) j = stream_count p j - (if j = h2g_entry g then 1 else 0)"
    using stream_count_upd(1) [of "h2g_entry g" p j] by (simp add: stream_count_def)
  show "set (pooled (evict g p)) \<subseteq> set (pooled p)"
    using pooled_filter_set [of "connections p" "h2g_endpoint g"]
    by (auto simp: evict_def release_stream_def pooled_def Let_def split: option.splits)
  show "distinct (pooled p) \<Longrightarrow> distinct (pooled (evict g p))"
    using pooled_filter_distinct [of "connections p" "h2g_endpoint g"]
    by (auto simp: evict_def release_stream_def pooled_def Let_def split: option.splits)
qed

lemma claim_entryE:
  assumes "claim_entry i p = Some p'"
  obtains en where "entries p i = Some en" "active_streams en < max_streams en"
    "p' = p\<lparr>entries := (entries p)(i \<mapsto> en\<lparr>active_streams := active_streams en + 1,
       last_idle := (if active_streams en = 0 then None else last_idle en)\<rparr>)\<rparr>"
  using assms by (auto simp: claim_entry_def try_claim_stream_slot_def split: option.splits if_splits)

lemma core_more_eq:
  "pool_core.more p' = pool_core.more p \<Longrightarrow>
     connections p' = connections p \<and> entries p' = entries p \<and> next_entry p' = next_entry (p :: ('ep, 's) H2Pool)"
  by (cases p; cases p') (simp add: pool_core.defs H2Pool.defs)

lemma h2_good_cong:
  assumes "h2_good c s" "x_pc s' = (x_pc s)(t := x)" "\<forall>i. uses_entry i (x_pc s t) \<longleftrightarrow> uses_entry i x"
    "pool_stats (x_pool s') = pool_stats (x_pool s)" "pool_core.more (x_pool s') = pool_core.more (x_pool s)"
  shows "h2_good c s'"
proof -
  have fin: "finite {t. x_pc s t \<noteq> Out}" using assms(1) by (simp add: h2_good_def)
  have "tasks_in (uses_entry i) (x_pc s') = tasks_in (uses_entry i) (x_pc s)" for i
    using h2_tasks_upd [OF fin, of "uses_entry i" t x] assms(2,3) by simp
  then show ?thesis
    using assms(1,4) core_more_eq [OF assms(5)] h2_finite(2) [OF fin, of "\<lambda>_. False" t x] assms(2)
    by (simp add: h2_good_def pooled_def stream_count_def)
qed

lemma book_destroyE:
  assumes "book_destroy e p st = (p', st')"
  obtains st1 where "give_back e 1 p st = (p', st1)"
    "st' = gauge_dec (pcs_cx_active (pool_stats p)) (counter_inc (pcs_cx_destroy (pool_stats p)) st1)"
  using assms by (auto simp: book_destroy_def split: prod.splits)

lemma h2_good_release:
  assumes "h2_good c s" "x_pc s t = Hold g" "x_pc s' = (x_pc s)(t := x)" "\<forall>i. \<not> uses_entry i x"
    "pool_stats (x_pool s') = pool_stats (x_pool s)" "next_entry (x_pool s') = next_entry (x_pool s)"
    "entries (x_pool s') = entries (release_stream (h2g_entry g) (x_pool s))"
    "set (pooled (x_pool s')) \<subseteq> set (pooled (x_pool s))" "distinct (pooled (x_pool s'))"
  shows "h2_good c s'"
proof -
  note gd = assms(1) [unfolded h2_good_def]
  then have fin: "finite {t. x_pc s t \<noteq> Out}" by blast
  have "stream_count (x_pool s') j = stream_count (x_pool s) j - (if j = h2g_entry g then 1 else 0)" for j
    using assms(7) stream_count_upd(1) [of "h2g_entry g" "x_pool s" j] by (simp add: stream_count_def)
  then have "stream_count (x_pool s') j = tasks_in (uses_entry j) (x_pc s')" for j
    using gd assms(2-4) h2_tasks_upd [OF fin, of "uses_entry j" t x] by (auto split: if_splits)
  moreover have "\<forall>i. entries (x_pool s') i \<noteq> None \<longrightarrow> i < next_entry (x_pool s)"
    using gd by (auto simp: assms(7) release_stream_def split: if_splits)
  moreover have "\<forall>i en. entries (x_pool s') i = Some en \<longrightarrow> max_streams en = 100 \<and> active_streams en \<le> 100"
    using gd by (fastforce simp: assms(7) release_stream_def split: if_splits)
  ultimately show ?thesis
    using gd assms(3,5,6,8,9) h2_finite(2) [OF fin, of "\<lambda>_. False" t x] by (auto simp: h2_good_def)
qed

lemma h2_step_good:
  assumes "h2_step s s'" "h2_good c s"
  shows "h2_good c s'"
  using assms
proof (induction rule: h2_step.induct)
  case (claim s t i e p')
  note g = claim.prems [unfolded h2_good_def]
  then have fin: "finite {t. x_pc s t \<noteq> Out}" by blast
  from claim.hyps(3) obtain en where en: "entries (x_pool s) i = Some en" "active_streams en < max_streams en"
    "p' = (x_pool s)\<lparr>entries := (entries (x_pool s))(i \<mapsto> en\<lparr>active_streams := active_streams en + 1,
       last_idle := (if active_streams en = 0 then None else last_idle en)\<rparr>)\<rparr>" by (rule claim_entryE)
  have cnt: "stream_count p' j = stream_count (x_pool s) j + (if j = i then 1 else 0)" for j
    using en by (simp add: stream_count_def)
  let ?g = "Hold \<lparr>h2g_endpoint = e, h2g_entry = i, h2g_invalidated = False\<rparr>"
  have "stream_count p' j = tasks_in (uses_entry j) ((x_pc s)(t := ?g))" for j
    using cnt [of j] g claim.hyps(1) h2_tasks_upd [OF fin, of "uses_entry j" t ?g] by auto
  moreover have "max_streams en = 100" using g en(1) by blast
  ultimately show ?case
    using g en h2_finite(2) [OF fin, of "\<lambda>_. False" t ?g] by (simp add: h2_good_def pooled_def)
next
  case (miss s t e)
  then show ?case by (intro h2_good_cong [OF miss.prems, where t = t and x = "Miss e"]) simp_all
next
  case (refused s t e err p' st')
  then show ?case
    using reserve_est [OF refused.hyps(2)]
    by (intro h2_good_cong [OF refused.prems, where t = t and x = Out]) simp_all
next
  case (reserved s t e u p' st')
  then show ?case
    using reserve_est [OF reserved.hyps(2)]
    by (intro h2_good_cong [OF reserved.prems, where t = t and x = "Conn e"]) simp_all
next
  case (connect_ok s t e x g p' st')
  note gd = connect_ok.prems [unfolded h2_good_def]
  then have fin: "finite {t. x_pc s t \<noteq> Out}" by blast
  let ?n = "next_entry (x_pool s)"
  have r: "g = \<lparr>h2g_endpoint = e, h2g_entry = ?n, h2g_invalidated = False\<rparr>"
    "p' = (x_pool s)\<lparr>connections := vm_push e ?n (connections (x_pool s)),
       entries := (entries (x_pool s))(?n \<mapsto>
         \<lparr>client_stream = x, max_streams = 100, active_streams = 1, last_idle = None\<rparr>), next_entry := ?n + 1\<rparr>"
    using connect_ok.hyps(2) by (auto simp: h2_connected_def Let_def)
  have m: "mset (pooled p') = add_mset ?n (mset (pooled (x_pool s)))"
    by (simp add: pooled_def r pooled_push)
  then have ps: "set (pooled p') = insert ?n (set (pooled (x_pool s)))"
    by (metis set_mset_add_mset_insert set_mset_mset)
  have "mset (pooled p') = mset (?n # pooled (x_pool s))" by (simp add: m)
  then have "distinct (pooled p') \<longleftrightarrow> distinct (?n # pooled (x_pool s))" by (metis mset_eq_imp_distinct_iff)
  then have d: "distinct (pooled p')" using gd by auto
  have none: "entries (x_pool s) ?n = None" using gd by (metis less_irrefl)
  have cnt: "stream_count p' j = stream_count (x_pool s) j + (if j = ?n then 1 else 0)" for j
    using none by (simp add: stream_count_def r)
  have "stream_count p' j = tasks_in (uses_entry j) ((x_pc s)(t := Hold g))" for j
    using cnt [of j] gd connect_ok.hyps(1) h2_tasks_upd [OF fin, of "uses_entry j" t "Hold g"] by (auto simp: r)
  moreover have nx: "next_entry p' = Suc ?n" by (simp add: r)
  moreover have "\<forall>i. i \<in> set (pooled p') \<longrightarrow> i < next_entry p'" unfolding ps nx using gd less_SucI by blast
  moreover have "\<forall>i. entries p' i \<noteq> None \<longrightarrow> i < next_entry p'" using gd by (auto simp: r less_Suc_eq)
  moreover have "\<forall>i en. entries p' i = Some en \<longrightarrow> max_streams en = 100 \<and> active_streams en \<le> 100"
    using gd by (auto simp: r)
  moreover have "pool_stats p' = c" using gd by (simp add: r)
  ultimately show ?case
    using d h2_finite(2) [OF fin, of "\<lambda>_. False" t "Hold g"] by (simp add: h2_good_def)
next
  case (connect_err s t e p' st')
  show ?case
    using connect_err.hyps(1) give_back_core [OF connect_err.hyps(2)] by (intro h2_good_cong [OF connect_err.prems, where t = t and x = Out]) simp_all
next
  case (invalidated s t g)
  then show ?case
    by (intro h2_good_cong [OF invalidated.prems, where t = t and x = "Hold (h2_invalidate g)"])
      (simp_all add: h2_invalidate_def)
next
  case (destroyed s t e p' st')
  have "pool_stats p' = pool_stats (x_pool s)" "pool_core.more p' = pool_core.more (x_pool s)"
    using destroyed.hyps(2) by (auto elim!: book_destroyE dest: give_back_core)
  then show ?case
    using destroyed.hyps(1) by (intro h2_good_cong [OF destroyed.prems, where t = t and x = Out]) simp_all
next
  case (sweep_book s p' st')
  have "pool_stats p' = pool_stats (x_pool s)" "pool_core.more p' = pool_core.more (x_pool s)"
    using book_evictions_frame(1,2) [of "x_sweep s" "x_pool s" "x_stats s"] unfolding sweep_book.hyps by simp_all
  then show ?case
    by (intro h2_good_cong [OF sweep_book.prems, where t = 0 and x = "x_pc s 0"]) simp_all
next
  case (sweep_collect s keep p' evs)
  obtain m where m: "vm_retain keep (connections (x_pool s)) = (m, evs)" "p' = (x_pool s)\<lparr>connections := m\<rparr>"
    using sweep_collect.hyps(3) by (auto simp: sweep_with_def split: prod.splits)
  have "pooled p' = filter keep (pooled (x_pool s))" using retain_pooled [OF m(1)] by (simp add: pooled_def m(2))
  then show ?case
    using sweep_collect.prems by (auto simp: h2_good_def m(2) stream_count_def)
next
  case (evicting s t g)
  then have "distinct (pooled (x_pool s))" by (simp add: h2_good_def)
  then show ?case
    using evicting.hyps(1) evict_obs [where g = g and p = "x_pool s"]
    by (intro h2_good_release [OF evicting.prems, of t g _ "Evicted (h2g_endpoint g)"]) simp_all
next
  case (returned s t g)
  then have "distinct (pooled (x_pool s))" by (simp add: h2_good_def)
  then show ?case
    using returned.hyps(1)
    by (intro h2_good_release [OF returned.prems, of t g _ Out]) (simp_all add: release_stream_def pooled_def)
next
  case (idled s t g)
  then have "distinct (pooled (x_pool s))" by (simp add: h2_good_def)
  then show ?case
    using idled.hyps(1)
    by (intro h2_good_release [OF idled.prems, of t g _ "Idled (h2g_entry g)"])
      (simp_all add: release_stream_def pooled_def)
next
  case (idle_stamp s t i now)
  note gd = idle_stamp.prems [unfolded h2_good_def]
  then have fin: "finite {t. x_pc s t \<noteq> Out}" by blast
  have "tasks_in (uses_entry j) ((x_pc s)(t := Out)) = tasks_in (uses_entry j) (x_pc s)" for j
    using h2_tasks_upd [OF fin, of "uses_entry j" t Out] idle_stamp.hyps by simp
  moreover have "entries (mark_idle now i (x_pool s)) j = Some en \<Longrightarrow> max_streams en = 100 \<and> active_streams en \<le> 100"
    for j en using gd by (auto simp: mark_idle_def split: if_splits)
  moreover have "\<forall>j. entries (mark_idle now i (x_pool s)) j \<noteq> None \<longrightarrow> j < next_entry (x_pool s)"
    using gd by (auto simp: mark_idle_def split: if_splits)
  moreover have "pooled (mark_idle now i (x_pool s)) = pooled (x_pool s)"
    "next_entry (mark_idle now i (x_pool s)) = next_entry (x_pool s)"
    "pool_stats (mark_idle now i (x_pool s)) = pool_stats (x_pool s)"
    by (simp_all add: mark_idle_def pooled_def)
  ultimately show ?case
    using gd h2_finite(2) [OF fin, of "\<lambda>_. False" t Out] by (simp add: h2_good_def stream_count_upd)
qed

text \<open>
  C14. No connection ever carries more than its maximum of 100 streams: in every reachable
  state the stream count of a connection is the number of guards that use it, and at most
  100. In particular a count of zero, the condition under which the sweeper evicts a
  connection, means that no guard uses it.
\<close>

theorem h2_streams_bounded:
  assumes "h2_init c s0" and "h2_step\<^sup>*\<^sup>* s0 s"
  shows "stream_count (x_pool s) i = tasks_in (uses_entry i) (x_pc s) \<and> tasks_in (uses_entry i) (x_pc s) \<le> 100"
proof -
  have "h2_good c s"
    using assms(2)
  proof (induction rule: rtranclp_induct)
    case base
    then show ?case using assms(1) by (simp add: h2_init_def h2_good_def pooled_def stream_count_def tasks_in_def)
  next
    case (step s s')
    then show ?case by (blast intro: h2_step_good)
  qed
  then have g: "stream_count (x_pool s) i = tasks_in (uses_entry i) (x_pc s)"
    "\<forall>en. entries (x_pool s) i = Some en \<longrightarrow> active_streams en \<le> 100" by (auto simp: h2_good_def)
  then have "stream_count (x_pool s) i \<le> 100" by (simp add: stream_count_def split: option.splits)
  with g show ?thesis by simp
qed

section \<open>The account\<close>

definition busy :: "('ep \<Rightarrow> bool) \<Rightarrow> 'ep h2_pc \<Rightarrow> bool" where
  "busy P pc \<longleftrightarrow> (case pc of Conn e \<Rightarrow> P e | Evicted e \<Rightarrow> P e | _ \<Rightarrow> False)"

definition h2_live :: "('ep, 's) h2_sys \<Rightarrow> 'ep \<Rightarrow> nat" where
  "h2_live s e = vm_count ((=) e) (connections (x_pool s)) + ev_count ((=) e) (x_sweep s)
     + tasks_in (busy ((=) e)) (x_pc s)"

text \<open>
  The proviso of the account: an invalidated guard is dropped while its connection is
  still pooled, that is, no two guards invalidate the same connection.
\<close>

definition inval_pooled :: "('ep, 's) h2_sys \<Rightarrow> bool" where
  "inval_pooled s \<longleftrightarrow> (\<forall>t g. x_pc s t = Hold g \<and> h2g_invalidated g \<longrightarrow>
     h2g_entry g \<in> set (conns_of (x_pool s) (h2g_endpoint g)))"

definition h2_step_once :: "('ep, 's) h2_sys \<Rightarrow> ('ep, 's) h2_sys \<Rightarrow> bool" where
  "h2_step_once s s' \<longleftrightarrow> h2_step s s' \<and> inval_pooled s"

lemma busy_simps [simp]:
  "\<not> busy P Out" "\<not> busy P (Miss e)" "busy P (Conn e) = P e" "\<not> busy P (Idled i)" "busy P (Evicted e) = P e"
  "\<not> busy P (Hold g)"
  by (simp_all add: busy_def)

lemma est_of_eq: "established p' = established p \<Longrightarrow> est_of p' = est_of (p :: ('ep, 's) H2Pool)"
  by (simp add: est_of_def fun_eq_iff)

lemma vec_map_distinct: "vm_get m e = Some is \<Longrightarrow> distinct (vm_vals m) \<Longrightarrow> distinct is"
  by (induction m rule: vm_vals.induct) (auto split: if_splits)

lemma evict_count:
  assumes "h2g_entry g \<in> set (conns_of p (h2g_endpoint g))" "distinct (pooled p)"
  shows "vm_count P (connections p) = vm_count P (connections (evict g p)) + (if P (h2g_endpoint g) then 1 else 0)"
proof -
  let ?i = "h2g_entry g" and ?e = "h2g_endpoint g"
  obtain "is" where g: "vm_get (connections p) ?e = Some is" "?i \<in> set is"
    using assms(1) by (cases "vm_get (connections p) ?e") (auto simp: conns_of_def)
  have d: "distinct is" using vec_map_distinct [OF g(1)] assms(2) by (simp add: pooled_def)
  have len: "length is = Suc (length (filter (\<lambda>j. j \<noteq> ?i) is))"
  proof -
    have "filter (\<lambda>j. j \<noteq> ?i) is = remove1 ?i is"
      using d by (auto simp: distinct_remove1_removeAll removeAll_filter_not_eq intro!: filter_cong)
    then show ?thesis using g(2) length_pos_if_in_set [OF g(2)] by (simp add: length_remove1)
  qed
  have c: "connections (evict g p) = vm_set ?e (filter (\<lambda>i. i \<noteq> ?i) is) (connections p)"
    using g(1) by (simp add: evict_def release_stream_def)
  show ?thesis
    using vm_count_set [OF g(1), of P "filter (\<lambda>i. i \<noteq> ?i) is"] len by (simp add: c split: if_splits)
qed

lemma h2_step_account:
  assumes "h2_step s s'" "inval_pooled s" "h2_good c s" "\<forall>e. est_of (x_pool s) e = h2_live s e"
  shows "est_of (x_pool s') e = h2_live s' e
    \<and> est_of (x_pool s') e \<le> max (est_of (x_pool s) e) (pcs_max_connections c)"
  using assms
proof (induction rule: h2_step.induct)
  case (claim s t i e' p')
  have fin: "finite {t. x_pc s t \<noteq> Out}" using claim.prems(2) by (simp add: h2_good_def)
  have "connections p' = connections (x_pool s)" "established p' = established (x_pool s)"
    using claim.hyps(3) by (auto elim!: claim_entryE)
  with claim.prems(3) claim.hyps(1) show ?case
    using h2_tasks_upd [OF fin, of "busy ((=) e)" t "Hold \<lparr>h2g_endpoint = e', h2g_entry = i, h2g_invalidated = False\<rparr>"]
      est_of_eq [of p' "x_pool s"]
    by (simp add: h2_live_def)
next
  case (miss s t e')
  have fin: "finite {t. x_pc s t \<noteq> Out}" using miss.prems(2) by (simp add: h2_good_def)
  show ?case
    using miss.prems(3) miss.hyps h2_tasks_upd [OF fin, of "busy ((=) e)" t "Miss e'"] by (simp add: h2_live_def)
next
  case (refused s t e' err p' st')
  have fin: "finite {t. x_pc s t \<noteq> Out}" using refused.prems(2) by (simp add: h2_good_def)
  note r = reserve_est [OF refused.hyps(2)]
  show ?case
    using refused.prems(3) refused.hyps(1) r(1) [of e] core_more_eq [OF r(4)]
      h2_tasks_upd [OF fin, of "busy ((=) e)" t Out] by (simp add: h2_live_def)
next
  case (reserved s t e' u p' st')
  have fin: "finite {t. x_pc s t \<noteq> Out}" using reserved.prems(2) by (simp add: h2_good_def)
  have cap: "pool_stats (x_pool s) = c" using reserved.prems(2) by (simp add: h2_good_def)
  note r = reserve_est [OF reserved.hyps(2)]
  show ?case
    using reserved.prems(3) reserved.hyps(1) r(1) [of e] r(2) core_more_eq [OF r(4)] cap
      h2_tasks_upd [OF fin, of "busy ((=) e)" t "Conn e'"] by (auto simp: h2_live_def)
next
  case (connect_ok s t e' x g p' st')
  have fin: "finite {t. x_pc s t \<noteq> Out}" using connect_ok.prems(2) by (simp add: h2_good_def)
  have "connections p' = vm_push e' (next_entry (x_pool s)) (connections (x_pool s))"
    "established p' = established (x_pool s)"
    using connect_ok.hyps(2) by (auto simp: h2_connected_def Let_def)
  with connect_ok.prems(3) connect_ok.hyps(1) show ?case
    using h2_tasks_upd [OF fin, of "busy ((=) e)" t "Hold g"] est_of_eq [of p' "x_pool s"]
    by (auto simp: h2_live_def vm_count_push split: if_splits)
next
  case (connect_err s t e' p' st')
  have fin: "finite {t. x_pc s t \<noteq> Out}" using connect_err.prems(2) by (simp add: h2_good_def)
  have "0 < tasks_in (busy ((=) e')) (x_pc s)"
    by (rule h2_tasks_pos [OF fin, of _ t]) (simp_all add: connect_err.hyps(1))
  then have pos: "1 \<le> est_of (x_pool s) e'" using connect_err.prems(3) by (simp add: h2_live_def)
  show ?case
    using connect_err.prems(3) connect_err.hyps(1) give_back_est [OF pos connect_err.hyps(2), of e]
      core_more_eq [OF give_back_core(2) [OF connect_err.hyps(2)]]
      h2_tasks_upd [OF fin, of "busy ((=) e)" t Out]
    by (auto simp: h2_live_def split: if_splits)
next
  case (invalidated s t g)
  have fin: "finite {t. x_pc s t \<noteq> Out}" using invalidated.prems(2) by (simp add: h2_good_def)
  show ?case
    using invalidated.prems(3) invalidated.hyps
      h2_tasks_upd [OF fin, of "busy ((=) e)" t "Hold (h2_invalidate g)"] by (simp add: h2_live_def)
next
  case (evicting s t g)
  have fin: "finite {t. x_pc s t \<noteq> Out}" "distinct (pooled (x_pool s))"
    using evicting.prems(2) by (simp_all add: h2_good_def)
  have "h2g_entry g \<in> set (conns_of (x_pool s) (h2g_endpoint g))"
    using evicting.prems(1) evicting.hyps by (auto simp: inval_pooled_def)
  note ev = evict_count [OF this fin(2), of "(=) e"]
  show ?case
    using evicting.prems(3) evicting.hyps(1) ev est_of_eq [of "evict g (x_pool s)" "x_pool s"] evict_obs(2) [of g "x_pool s"]
      h2_tasks_upd [OF fin(1), of "busy ((=) e)" t "Evicted (h2g_endpoint g)"]
    by (auto simp: h2_live_def split: if_splits)
next
  case (destroyed s t e' p' st')
  have fin: "finite {t. x_pc s t \<noteq> Out}" using destroyed.prems(2) by (simp add: h2_good_def)
  obtain st1 where gb: "give_back e' 1 (x_pool s) (x_stats s) = (p', st1)"
    using destroyed.hyps(2) by (rule book_destroyE)
  have "0 < tasks_in (busy ((=) e')) (x_pc s)"
    by (rule h2_tasks_pos [OF fin, of _ t]) (simp_all add: destroyed.hyps(1))
  then have pos: "1 \<le> est_of (x_pool s) e'" using destroyed.prems(3) by (simp add: h2_live_def)
  show ?case
    using destroyed.prems(3) destroyed.hyps(1) give_back_est [OF pos gb, of e]
      core_more_eq [OF give_back_core(2) [OF gb]] h2_tasks_upd [OF fin, of "busy ((=) e)" t Out]
    by (auto simp: h2_live_def split: if_splits)
next
  case (returned s t g)
  have fin: "finite {t. x_pc s t \<noteq> Out}" using returned.prems(2) by (simp add: h2_good_def)
  show ?case
    using returned.prems(3) returned.hyps(1) h2_tasks_upd [OF fin, of "busy ((=) e)" t Out]
    by (simp add: h2_live_def release_stream_def est_of_def)
next
  case (idled s t g)
  have fin: "finite {t. x_pc s t \<noteq> Out}" using idled.prems(2) by (simp add: h2_good_def)
  show ?case
    using idled.prems(3) idled.hyps(1) h2_tasks_upd [OF fin, of "busy ((=) e)" t "Idled (h2g_entry g)"]
    by (simp add: h2_live_def release_stream_def est_of_def)
next
  case (idle_stamp s t i now)
  have fin: "finite {t. x_pc s t \<noteq> Out}" using idle_stamp.prems(2) by (simp add: h2_good_def)
  show ?case
    using idle_stamp.prems(3) idle_stamp.hyps(1) h2_tasks_upd [OF fin, of "busy ((=) e)" t Out]
    by (simp add: h2_live_def mark_idle_def est_of_def)
next
  case (sweep_collect s keep p' evs)
  obtain m where m: "vm_retain keep (connections (x_pool s)) = (m, evs)" "p' = (x_pool s)\<lparr>connections := m\<rparr>"
    using sweep_collect.hyps(3) by (auto simp: sweep_with_def split: prod.splits)
  show ?case
    using sweep_collect.prems(3) sweep_collect.hyps(1) vm_retain_count [OF m(1), of "(=) e"]
    by (simp add: h2_live_def m(2) est_of_def)
next
  case (sweep_book s p' st')
  have le: "\<forall>e. ev_count ((=) e) (x_sweep s) \<le> est_of (x_pool s) e"
    using sweep_book.prems(3) by (simp add: h2_live_def)
  have "connections p' = connections (x_pool s)"
    using book_evictions_frame(2) [of "x_sweep s" "x_pool s" "x_stats s"] core_more_eq [of p' "x_pool s"]
    unfolding sweep_book.hyps by simp
  moreover have "est_of p' e + ev_count ((=) e) (x_sweep s) = h2_live s e"
    using book_evictions_est [OF le sweep_book.hyps, of e] sweep_book.prems(3) by simp
  ultimately show ?case using sweep_book.prems(3) by (auto simp: h2_live_def)
qed

interpretation h2: pool_account "pcs_max_connections c" "h2_init c" h2_step_once "h2_good c"
    "\<lambda>s. est_of (x_pool s)" h2_live
  for c
proof
  show "h2_good c s \<and> est_of (x_pool s) e = 0 \<and> h2_live s e = 0" if "h2_init c s" for s :: "('a, 'b) h2_sys" and e
    using that
    by (simp add: h2_init_def h2_good_def est_of_def h2_live_def tasks_in_def pooled_def stream_count_def)
  fix s s' :: "('a, 'b) h2_sys" and e
  assume a: "h2_step_once s s'" "h2_good c s" "\<forall>e. est_of (x_pool s) e = h2_live s e"
  then have st: "h2_step s s'" "inval_pooled s" by (simp_all add: h2_step_once_def)
  show "h2_good c s'" by (rule h2_step_good [OF st(1) a(2)])
  show "est_of (x_pool s') e = h2_live s' e"
    "est_of (x_pool s') e \<le> max (est_of (x_pool s) e) (pcs_max_connections c)"
    using h2_step_account [OF st a(2,3), of e] by simp_all
qed

text \<open>
  As long as no connection is invalidated by two guards, the pool keeps its account: the
  \<open>established\<close> count of an endpoint is the number of its connections, those being made
  and those being torn down included, and never exceeds \<open>max_connections\<close>.
\<close>

theorem h2_pool_account:
  assumes "h2_init c s0" and "h2_step_once\<^sup>*\<^sup>* s0 s"
  shows "est_of (x_pool s) e = h2_live s e \<and> h2_live s e \<le> pcs_max_connections c"
  using h2.reach_account [OF assms] h2.reach_live [OF assms] by blast

definition demo_h2 :: "(unit, nat) h2_sys" where
  "demo_h2 = \<lparr>x_pool = H2Pool_new ''c'' demo_pcs 60000000, x_stats = demo_pool_stats,
     x_pc = (\<lambda>_. Out), x_sweep = []\<rparr>"

definition demo_h2_held :: "(unit, nat) h2_sys" where
  "demo_h2_held =
     (case reserve () (x_pool demo_h2) (x_stats demo_h2) of (_ :: unit PoolError + unit, p, st) \<Rightarrow>
        case h2_connected () 7 p st of (g, p', st') \<Rightarrow>
          demo_h2\<lparr>x_pool := p', x_stats := st', x_pc := (\<lambda>t. if t = 0 then Hold g else Out)\<rparr>)"

lemma demo_h2_run: "h2_init demo_pcs demo_h2" "h2_step_once\<^sup>*\<^sup>* demo_h2 demo_h2_held"
proof -
  show "h2_init demo_pcs demo_h2" by (simp add: h2_init_def demo_h2_def H2Pool_new_def)
  obtain p st where r: "reserve () (x_pool demo_h2) (x_stats demo_h2) = (Inr () :: unit PoolError + unit, p, st)"
    by (simp add: reserve_def demo_h2_def H2Pool_new_def demo_pcs_def est_of_def)
  obtain g p' st' where c: "h2_connected () 7 p st = (g, p', st')" by (metis prod_cases3)
  define s1 where "s1 = demo_h2\<lparr>x_pc := (x_pc demo_h2)(0 := Miss ())\<rparr>"
  define s2 where "s2 = s1\<lparr>x_pool := p, x_stats := st, x_pc := (x_pc s1)(0 := Conn ())\<rparr>"
  define s3 where "s3 = s2\<lparr>x_pool := p', x_stats := st', x_pc := (x_pc s2)(0 := Hold g)\<rparr>"
  have "h2_step demo_h2 s1" unfolding s1_def by (rule h2_step.miss) (simp add: demo_h2_def)
  moreover have "h2_step s1 s2"
    unfolding s2_def by (rule h2_step.reserved) (use r in \<open>simp_all add: s1_def\<close>)
  moreover have "h2_step s2 s3" unfolding s3_def by (rule h2_step.connect_ok) (use c in \<open>simp_all add: s2_def\<close>)
  moreover have "inval_pooled demo_h2" "inval_pooled s1" "inval_pooled s2"
    by (simp_all add: inval_pooled_def s2_def s1_def demo_h2_def)
  moreover have "s3 = demo_h2_held"
    unfolding demo_h2_held_def r s3_def s2_def s1_def by (simp add: c) (simp add: demo_h2_def fun_eq_iff)
  ultimately show "h2_step_once\<^sup>*\<^sup>* demo_h2 demo_h2_held"
    by (metis (no_types, lifting) h2_step_once_def rtranclp.simps)
qed

lemma once_is_step: "h2_step_once\<^sup>*\<^sup>* s s' \<Longrightarrow> h2_step\<^sup>*\<^sup>* s s'"
  by (rule rtranclp_mono [THEN predicate2D]) (auto simp: h2_step_once_def)

theorem h2_pool_account_witness:
  "est_of (x_pool demo_h2_held) () = h2_live demo_h2_held () \<and> h2_live demo_h2_held () \<le> 1"
  using h2_pool_account [OF demo_h2_run, of "()"] by (simp add: demo_pcs_def)

theorem h2_streams_bounded_witness:
  "stream_count (x_pool demo_h2_held) 0 = 1 \<and> tasks_in (uses_entry 0) (x_pc demo_h2_held) = 1"
proof -
  have "stream_count (x_pool demo_h2_held) 0 = 1"
    by (simp add: demo_h2_held_def demo_h2_def H2Pool_new_def reserve_def demo_pcs_def est_of_def
        h2_connected_def stream_count_def)
  then show ?thesis
    using h2_streams_bounded [OF demo_h2_run(1) once_is_step [OF demo_h2_run(2)], of 0] by simp
qed

section \<open>Two guards, one broken connection\<close>

text \<open>
  The proviso is needed. Two streams share a connection, the connection breaks and both
  guards are invalidated; between the two drops a third request opens a new connection.
  The second drop finds nothing to evict and still lowers \<open>established\<close> and counts a
  destroyed connection: the new connection is no longer counted against the cap, and as
  many connections count as destroyed as were ever made while one is open.
\<close>

definition double_invalidation :: "(unit, nat) H2Pool \<times> stats" where
  "double_invalidation =
     (let connect = (\<lambda>_. Inr 7 :: unit + nat); p0 = H2Pool_new ''c'' demo_pcs 60000000 in
      case h2_acquire connect () p0 demo_pool_stats of (Inr g1, p1, st1) \<Rightarrow>
      (case h2_acquire connect () p1 st1 of (Inr g2, p2, st2) \<Rightarrow>
       (case h2_drop 0 (h2_invalidate g1) p2 st2 of (p3, st3) \<Rightarrow>
        (case h2_acquire connect () p3 st3 of (Inr g3, p4, st4) \<Rightarrow>
           h2_drop 0 (h2_invalidate g2) p4 st4))))"

theorem double_invalidation_undercounts:
  "est_of (fst double_invalidation) () = 0 \<and> conns_of (fst double_invalidation) () = [1]
    \<and> stream_count (fst double_invalidation) 1 = 1
    \<and> counters (snd double_invalidation) ! pcs_cx_total demo_pcs = 2
    \<and> counters (snd double_invalidation) ! pcs_cx_destroy demo_pcs = 2"
  by (simp add: double_invalidation_def H2Pool_new_def demo_pcs_def demo_pool_stats_def h2_acquire_def
      conns_of_def reserve_def est_of_def h2_connected_def vm_push_def claim_entry_def
      try_claim_stream_slot_def h2_drop_def h2_invalidate_def evict_def release_stream_def book_destroy_def
      give_back_def opt_set_def gauge_set_def gauge_inc_def gauge_dec_def counter_inc_def
      counter_inc_val_def stream_count_def)

text \<open>
  A stream that ends without \<open>invalidate\<close>, however it ended, leaves its connection in the
  pool, and the next acquire claims it again without connecting.
\<close>

lemma reclaim_after_drop:
  assumes "conns_of p e = i # is" "entries p i = Some en" "0 < active_streams en" "active_streams en \<le> max_streams en"
    and "h2_drop now \<lparr>h2g_endpoint = e, h2g_entry = i, h2g_invalidated = False\<rparr> p st = (p', st')"
  shows "fst (h2_acquire connect e p' st'') = Inr \<lparr>h2g_endpoint = e, h2g_entry = i, h2g_invalidated = False\<rparr>"
proof -
  have "conns_of p' e = i # is" using assms(1,5) by (auto simp: h2_drop_def release_stream_def mark_idle_def conns_of_def Let_def)
  moreover have "claim_entry i p' \<noteq> None"
    using assms(2-5) by (auto simp: h2_drop_def release_stream_def mark_idle_def claim_entry_def
        try_claim_stream_slot_def stream_count_def Let_def split: if_splits)
  ultimately show ?thesis by (auto simp: h2_acquire_def split: option.splits)
qed

end
