(* ===== verification/Civil_Date.thy ===== *)
theory Civil_Date
  imports Prelude
begin

text \<open>
  The two calendar routines of the program: the closed formula behind the \<open>date\<close> header
  (\<open>format_imf_fixdate\<close> of \<open>envoy-http1/src/date.rs\<close>) and the year and month walk behind the
  timestamps of access logs (\<open>envoy-accesslog/src/default_format.rs\<close>). Times are seconds
  since the epoch, which the clock never reports as negative; they stay far below the range
  where the 32-bit year of the walk could overflow.
\<close>

section \<open>The closed formula (date.rs)\<close>

definition yoe_of :: "nat \<Rightarrow> nat" where
  "yoe_of doe = (doe - doe div 1460 + doe div 36524 - doe div 146096) div 365"

definition civil_from_days :: "nat \<Rightarrow> nat \<times> nat \<times> nat" where
  "civil_from_days days =
     (let z = days + 719468; era = z div 146097; doe = z - era * 146097; yoe = yoe_of doe;
          y = yoe + era * 400; doy = doe - (365 * yoe + yoe div 4 - yoe div 100); mp = (5 * doy + 2) div 153;
          d = doy - (153 * mp + 2) div 5 + 1; m = (if mp < 10 then mp + 3 else mp - 9)
      in (if m \<le> 2 then y + 1 else y, m, d))"

definition pad :: "nat \<Rightarrow> nat \<Rightarrow> string" where
  "pad w n = replicate (w - length (show_nat n)) CHR ''0'' @ show_nat n"

definition day_names :: "string list" where
  "day_names = [''Sun'', ''Mon'', ''Tue'', ''Wed'', ''Thu'', ''Fri'', ''Sat'']"

definition month_names :: "string list" where
  "month_names = [''Jan'', ''Feb'', ''Mar'', ''Apr'', ''May'', ''Jun'', ''Jul'', ''Aug'', ''Sep'', ''Oct'', ''Nov'', ''Dec'']"

definition format_imf_fixdate :: "nat \<Rightarrow> string" where
  "format_imf_fixdate secs =
     (let days = secs div 86400; (year, m, d) = civil_from_days days in
      day_names ! ((days + 4) mod 7) @ '', '' @ pad 2 d @ '' '' @ month_names ! (m - 1) @ '' '' @ pad 4 year @ '' ''
      @ pad 2 (secs div 3600 mod 24) @ '':'' @ pad 2 (secs div 60 mod 60) @ '':'' @ pad 2 (secs mod 60) @ '' GMT'')"

section \<open>The walk (default_format.rs)\<close>

definition is_leap_year :: "nat \<Rightarrow> bool" where
  "is_leap_year year \<longleftrightarrow> year mod 4 = 0 \<and> (year mod 100 \<noteq> 0 \<or> year mod 400 = 0)"

definition days_in_year :: "nat \<Rightarrow> nat" where
  "days_in_year year = (if is_leap_year year then 366 else 365)"

text \<open>The month argument outside 1 to 12 is the \<open>unreachable!\<close> of the code.\<close>

definition days_in_month :: "nat \<Rightarrow> bool \<Rightarrow> nat option" where
  "days_in_month month leap =
     (if month \<in> {1, 3, 5, 7, 8, 10, 12} then Some 31
      else if month \<in> {4, 6, 9, 11} then Some 30
      else if month = 2 then Some (if leap then 29 else 28)
      else None)"

function year_walk :: "nat \<Rightarrow> nat \<Rightarrow> nat \<times> nat" where
  "year_walk year remaining =
     (if remaining < days_in_year year then (year, remaining)
      else year_walk (year + 1) (remaining - days_in_year year))"
  by pat_completeness auto
termination
  by (relation "measure snd") (auto simp: days_in_year_def split: if_splits)

declare year_walk.simps [simp del]

function month_walk :: "bool \<Rightarrow> nat \<Rightarrow> nat \<Rightarrow> (nat \<times> nat) option" where
  "month_walk leap month remaining =
     (case days_in_month month leap of
        None \<Rightarrow> None
      | Some dm \<Rightarrow> if remaining < dm then Some (month, remaining) else month_walk leap (month + 1) (remaining - dm))"
  by pat_completeness auto
termination
  by (relation "measure (\<lambda>(leap, month, remaining). 13 - month)") (auto simp: days_in_month_def split: if_splits)

declare month_walk.simps [simp del]

definition epoch_seconds_to_ymd_hms :: "nat \<Rightarrow> (nat \<times> nat \<times> nat \<times> nat \<times> nat \<times> nat) option" where
  "epoch_seconds_to_ymd_hms secs =
     (let time_of_day = secs mod 86400; (year, rest) = year_walk 1970 (secs div 86400) in
      map_option (\<lambda>(month, rest). (year, month, rest + 1, time_of_day div 3600, time_of_day mod 3600 div 60, time_of_day mod 60))
        (month_walk (is_leap_year year) 1 rest))"

definition format_iso8601 :: "nat \<Rightarrow> nat \<Rightarrow> string option" where
  "format_iso8601 secs ms =
     map_option (\<lambda>(year, month, day, hour, minute, second).
         pad 4 year @ ''-'' @ pad 2 month @ ''-'' @ pad 2 day @ ''T'' @ pad 2 hour @ '':'' @ pad 2 minute @ '':''
         @ pad 2 second @ ''.'' @ pad 3 ms @ ''Z'')
       (epoch_seconds_to_ymd_hms secs)"

section \<open>Years\<close>

text \<open>The days before a year, and what the year walk computes.\<close>

definition days_before_year :: "nat \<Rightarrow> nat" where
  "days_before_year y = 365 * y + (y - 1) div 4 - (y - 1) div 100 + (y - 1) div 400"

lemma div_step: "0 < (k::nat) \<Longrightarrow> Suc n div k = n div k + (if Suc n mod k = 0 then 1 else 0)"
  by (simp add: div_Suc)

lemma days_before_Suc:
  assumes "0 < y"
  shows "days_before_year (y + 1) = days_before_year y + days_in_year y"
proof -
  obtain n where y: "y = Suc n" using assms gr0_implies_Suc by blast
  have "n div 100 \<le> n div 4" by (simp add: div_le_mono2)
  moreover have "Suc n mod 400 = 0 \<Longrightarrow> Suc n mod 100 = 0" "Suc n mod 100 = 0 \<Longrightarrow> Suc n mod 4 = 0" by presburger+
  ultimately show ?thesis
    by (auto simp: days_before_year_def days_in_year_def is_leap_year_def y div_step add_ac)
qed

lemma leap_term:
  assumes "0 < y"
  shows "days_before_year y + (if is_leap_year y then 1 else 0) = 365 * y + y div 4 - y div 100 + y div 400"
proof -
  have "y div 100 \<le> y div 4" by (simp add: div_le_mono2)
  moreover have "days_before_year (y + 1) = 365 * y + 365 + y div 4 - y div 100 + y div 400" by (simp add: days_before_year_def)
  ultimately have "days_before_year y + days_in_year y = 365 * y + 365 + (y div 4 - y div 100) + y div 400"
    "365 * y + y div 4 - y div 100 = 365 * y + (y div 4 - y div 100)"
    using days_before_Suc [OF assms] by simp_all
  then show ?thesis unfolding days_in_year_def by (cases "is_leap_year y") simp_all
qed

lemma year_walk_spec:
  "0 < y \<Longrightarrow> year_walk y r = (year, rest) \<Longrightarrow>
    days_before_year y + r = days_before_year year + rest \<and> rest < days_in_year year \<and> y \<le> year"
proof (induction y r rule: year_walk.induct)
  case (1 y r)
  show ?case
  proof (cases "r < days_in_year y")
    case True
    then show ?thesis using "1.prems"(2) by (auto simp: year_walk.simps [of y r])
  next
    case False
    have "year_walk (y + 1) (r - days_in_year y) = (year, rest)" using "1.prems"(2) False by (simp add: year_walk.simps [of y r])
    from "1.IH" [OF False _ this] show ?thesis using False days_before_Suc [OF "1.prems"(1)] by auto
  qed
qed

section \<open>Months\<close>

definition days_before_month :: "nat \<Rightarrow> bool \<Rightarrow> nat" where
  "days_before_month m leap =
     [0, 31, 59, 90, 120, 151, 181, 212, 243, 273, 304, 334, 365] ! (m - 1) + (if leap \<and> 2 < m then 1 else 0)"

lemma month_cases:
  "1 \<le> m \<Longrightarrow> m \<le> 12 \<Longrightarrow>
    m = 1 \<or> m = 2 \<or> m = 3 \<or> m = 4 \<or> m = 5 \<or> m = 6 \<or> m = 7 \<or> m = 8 \<or> m = 9 \<or> m = 10 \<or> m = 11 \<or> m = (12::nat)"
  by arith

lemma month_walk_spec:
  assumes "1 \<le> m" "m \<le> 12" "r < (if leap then 366 else 365)" "days_before_month m leap \<le> r"
  shows "\<exists>m' d dm. month_walk leap m (r - days_before_month m leap) = Some (m', d) \<and> 1 \<le> m' \<and> m' \<le> 12 \<and>
    days_in_month m' leap = Some dm \<and> d < dm \<and> r = days_before_month m' leap + d"
  using assms
proof (induction "12 - m" arbitrary: m)
  case 0
  then have m: "m = 12" by simp
  have dm: "days_in_month 12 leap = Some 31" by (simp add: days_in_month_def)
  have lt: "r - days_before_month 12 leap < 31"
    using 0 m by (auto simp: days_before_month_def split: if_splits)
  then have "month_walk leap m (r - days_before_month m leap) = Some (12, r - days_before_month 12 leap)"
    by (simp add: month_walk.simps [of leap 12] m dm)
  then show ?case using lt dm 0 m by (intro exI [of _ 12] exI [of _ "r - days_before_month 12 leap"] exI [of _ 31]) simp
next
  case (Suc k)
  obtain dm where dm: "days_in_month m leap = Some dm" and nxt: "days_before_month (m + 1) leap = days_before_month m leap + dm"
    using month_cases [OF Suc.prems(1,2)] Suc.hyps(2)
    by (elim disjE) (auto simp: days_in_month_def days_before_month_def)
  show ?case
  proof (cases "r - days_before_month m leap < dm")
    case True
    then show ?thesis using dm Suc.prems by (auto simp: month_walk.simps [of leap m])
  next
    case False
    then have "month_walk leap m (r - days_before_month m leap) = month_walk leap (m + 1) (r - days_before_month (m + 1) leap)"
      using dm nxt by (simp add: month_walk.simps [of leap m])
    moreover have "days_before_month (m + 1) leap \<le> r" using False nxt Suc.prems(4) by linarith
    ultimately show ?thesis using Suc.hyps(1) [of "m + 1"] Suc.hyps(2) Suc.prems by fastforce
  qed
qed

section \<open>The closed formula is right\<close>

text \<open>Inside an era: the year of a day counted from the first of March of year zero.\<close>

lemma yoe_exact:
  assumes "yoe < 400" and doy: "doy \<le> (if is_leap_year (yoe + 1) then 365 else 364)"
  shows "yoe_of (365 * yoe + yoe div 4 - yoe div 100 + doy) = yoe"
proof -
  define a k b m where "a = yoe div 4" and "k = yoe mod 4" and "b = yoe div 100" and "m = yoe mod 100"
  have yoe: "yoe = 4 * a + k" "k < 4" "yoe = 100 * b + m" "m < 100" by (simp_all add: a_def k_def b_def m_def)
  have b: "b < 4" "a < 100" using yoe assms(1) by linarith+
  have a: "a = 25 * b + m div 4" unfolding a_def yoe(3) by simp
  have ba: "b \<le> a" using a by simp
  define doe where "doe = 365 * yoe + a - b + doy"
  have le365: "doy \<le> 365" using doy by (auto split: if_splits)
  have leap: "is_leap_year (yoe + 1)" if "doy = 365" using doy that by (auto split: if_splits)
  have k3: "k = 3" if "doy = 365"
  proof -
    have "Suc yoe mod 4 = 0" using leap [OF that] by (simp add: is_leap_year_def)
    then show ?thesis unfolding k_def by presburger
  qed
  have m99: "m = 99 \<Longrightarrow> doy = 365 \<Longrightarrow> b = 3"
  proof -
    assume "m = 99" "doy = 365"
    then have l: "is_leap_year (100 * (b + 1))" using leap yoe(3) by simp
    from b(1) consider "b = 0" | "b = 1" | "b = 2" | "b = 3" by linarith
    then show "b = 3" using l by cases (simp_all add: is_leap_year_def)
  qed
  text \<open>the centuries\<close>
  have cent: "doe = 36524 * b + (365 * m + m div 4 + doy)" using doe_def a yoe(3) ba by simp
  have low: "365 * m + m div 4 + doy \<le> 36524" using yoe(4) le365 by auto
  have eq: "365 * m + m div 4 + doy = 36524 \<longleftrightarrow> m = 99 \<and> doy = 365" using yoe(4) le365 by auto
  have fg: "doe div 36524 - doe div 146096 = b \<and> doe div 146096 \<le> doe div 36524"
  proof (cases "m = 99 \<and> doy = 365")
    case True
    then have "doe = 146096" using cent eq m99 by simp
    then show ?thesis using True m99 by simp
  next
    case False
    then have lt: "365 * m + m div 4 + doy < 36524" using low eq by linarith
    then have "doe div 36524 = b" unfolding cent by simp
    moreover have "doe < 146096" using cent lt b(1) by linarith
    ultimately show ?thesis by simp
  qed
  text \<open>the four-year cycles\<close>
  have cyc: "doe = 1460 * a + (365 * k + (a - b) + doy)" using doe_def yoe(1) ba by simp
  have ab: "a - b < 100" using b(2) by linarith
  define e where "e = doe div 1460"
  have e: "e = a + (365 * k + (a - b) + doy) div 1460" unfolding e_def cyc by simp
  have rest: "365 * k + (a - b) + doy < 2920" using yoe(2) ab le365 by linarith
  have D: "doe + b = 365 * yoe + a + doy" using doe_def ba by simp
  have edoe: "e \<le> doe" unfolding e_def by simp
  have X: "365 * yoe \<le> doe - e + b \<and> doe - e + b < 365 * yoe + 365"
  proof (cases "365 * k + (a - b) + doy < 1460")
    case True
    then have ea: "e = a" using e by simp
    have "doy \<noteq> 365" using True k3 by linarith
    then show ?thesis using D edoe le365 ea by linarith
  next
    case False
    then have "(365 * k + (a - b) + doy) div 1460 = 1" using rest by linarith
    then have ea: "e = a + 1" using e by simp
    have "1 \<le> doy" using False yoe(2) ab by linarith
    then show ?thesis using D edoe le365 ea by linarith
  qed
  have "doe - e + doe div 36524 - doe div 146096 = doe - e + b" using fg edoe by linarith
  then have "yoe_of doe = (doe - e + b) div 365" by (simp add: yoe_of_def e_def)
  also have "\<dots> = yoe" using X by (metis add.commute div_nat_eqI mult.commute mult_Suc)
  finally show ?thesis by (simp add: doe_def a_def b_def)
qed

lemma month_exact:
  assumes "1 \<le> m" "m \<le> 12" and "days_in_month m leap = Some dm" "d < dm"
    and "mp = (if m > 2 then m - 3 else m + 9)" and "doy = (153 * mp + 2) div 5 + d"
  shows "(5 * doy + 2) div 153 = mp \<and> doy - (153 * mp + 2) div 5 = d \<and> (if mp < 10 then mp + 3 else mp - 9) = m"
  using month_cases [OF assms(1,2)] assms(3-)
  by (elim disjE) (auto simp: days_in_month_def split: if_splits)

lemma civil_of_date:
  assumes m: "1 \<le> m" "m \<le> 12" and d: "days_in_month m (is_leap_year y) = Some dm" "d < dm" and y: "1 \<le> y"
    and days: "days + 719162 + 365 = days_before_year y + days_before_month m (is_leap_year y) + d"
  shows "civil_from_days days = (y, m, d + 1)"
proof -
  define y' where "y' = (if m \<le> 2 then y - 1 else y)"
  define era yoe where "era = y' div 400" and "yoe = y' mod 400"
  define mp where "mp = (if m > 2 then m - 3 else m + 9)"
  define doy where "doy = (153 * mp + 2) div 5 + d"
  define doe where "doe = 365 * yoe + yoe div 4 - yoe div 100 + doy"
  have y': "y' = 400 * era + yoe" "yoe < 400" by (simp_all add: era_def yoe_def)
  have div4: "y' div 4 = 100 * era + yoe div 4" "y' div 100 = 4 * era + yoe div 100" unfolding y'(1) by simp_all
  have ords: "yoe div 100 \<le> yoe div 4" "y' div 100 \<le> y' div 4" by (simp_all add: div_le_mono2)
  have leapy: "is_leap_year (yoe + 1) \<longleftrightarrow> is_leap_year (y' + 1)"
  proof -
    have "(yoe + 1) mod k = (y' + 1) mod k" if "k dvd 400" for k
      unfolding yoe_def using that by (metis mod_add_left_eq mod_mod_cancel)
    then have "(yoe + 1) mod 400 = (y' + 1) mod 400" "(yoe + 1) mod 100 = (y' + 1) mod 100" "(yoe + 1) mod 4 = (y' + 1) mod 4"
      by simp_all
    then show ?thesis by (simp add: is_leap_year_def)
  qed
  define q where "q = y' div 4 - y' div 100"
  have before: "days_before_year y + days_before_month m (is_leap_year y) + d + 306 =
      365 * y' + q + y' div 400 + doy + 365"
  proof (cases "m \<le> 2")
    case True
    then have "y = y' + 1" using y by (simp add: y'_def)
    then have "days_before_year y = 365 * y' + 365 + y' div 4 - y' div 100 + y' div 400" by (simp add: days_before_year_def)
    then have "days_before_year y = 365 * y' + 365 + q + y' div 400" using ords(2) by (simp add: q_def)
    moreover have "days_before_month m (is_leap_year y) + 306 = (153 * mp + 2) div 5"
      using month_cases [OF m] True by (elim disjE) (simp_all add: days_before_month_def mp_def)
    ultimately show ?thesis using doy_def by linarith
  next
    case False
    then have yy: "y' = y" by (simp add: y'_def)
    have "days_before_month m (is_leap_year y) + 306 = (153 * mp + 2) div 5 + 365 + (if is_leap_year y then 1 else 0)"
      using month_cases [OF m] False by (elim disjE) (simp_all add: days_before_month_def mp_def)
    moreover have "days_before_year y + (if is_leap_year y then 1 else 0) = 365 * y + y div 4 - y div 100 + y div 400"
      using leap_term y by simp
    moreover have "365 * y + y div 4 - y div 100 = 365 * y' + q" using ords(2) yy by (simp add: q_def)
    ultimately show ?thesis using yy doy_def by linarith
  qed
  have doe_lt: "doy \<le> (if is_leap_year (yoe + 1) then 365 else 364)"
  proof (cases "m \<le> 2")
    case True
    then have "is_leap_year (yoe + 1) = is_leap_year y" using leapy y by (simp add: y'_def)
    then show ?thesis
      using month_cases [OF m] d True by (elim disjE) (auto simp: days_in_month_def doy_def mp_def split: if_splits)
  next
    case False
    then have "doy \<le> 364"
      using month_cases [OF m] d by (elim disjE) (auto simp: days_in_month_def doy_def mp_def split: if_splits)
    then show ?thesis by simp
  qed
  have "y' div 400 = era" by (simp add: era_def)
  have z: "days + 719468 = era * 146097 + doe"
  proof -
    have "q = 96 * era + (yoe div 4 - yoe div 100)" using div4 ords by (simp add: q_def)
    moreover have "doe = 365 * yoe + (yoe div 4 - yoe div 100) + doy" using ords(1) by (simp add: doe_def)
    ultimately show ?thesis using before days y'(1) \<open>y' div 400 = era\<close> by linarith
  qed
  have "doe < 146097"
  proof (cases "yoe = 399")
    case True
    then show ?thesis using doe_lt by (auto simp: doe_def split: if_splits)
  next
    case False
    then have "yoe \<le> 398" "yoe div 4 \<le> 99" "doy \<le> 365" using y'(2) doe_lt by (auto split: if_splits)
    then show ?thesis using doe_def by linarith
  qed
  then have era: "(days + 719468) div 146097 = era" "days + 719468 - era * 146097 = doe" using z by simp_all
  have yoe: "yoe_of doe = yoe" unfolding doe_def by (rule yoe_exact [OF y'(2) doe_lt])
  have doy: "doe - (365 * yoe + yoe div 4 - yoe div 100) = doy" by (simp add: doe_def)
  have month: "(5 * doy + 2) div 153 = mp" "doy - (153 * mp + 2) div 5 = d" "(if mp < 10 then mp + 3 else mp - 9) = m"
    using month_exact [OF m d mp_def doy_def] by blast+
  have "(if m \<le> 2 then y' + 1 else y') = y" using y by (simp add: y'_def)
  then show ?thesis
    unfolding civil_from_days_def Let_def era yoe doy month using y'(1) by (auto simp: mult.commute add.commute)
qed

lemma walk_is_civil:
  "\<exists>y m d dm. epoch_seconds_to_ymd_hms secs =
      Some (y, m, d, secs div 3600 mod 24, secs div 60 mod 60, secs mod 60) \<and>
    civil_from_days (secs div 86400) = (y, m, d) \<and> 1970 \<le> y \<and>
    days_in_month m (is_leap_year y) = Some dm \<and> 1 \<le> d \<and> d \<le> dm"
proof -
  obtain y rest where w: "year_walk 1970 (secs div 86400) = (y, rest)" by fastforce
  from year_walk_spec [OF _ w] have y: "days_before_year 1970 + secs div 86400 = days_before_year y + rest"
      "rest < days_in_year y" "1970 \<le> y" by simp_all
  have zero: "days_before_month (Suc 0) (is_leap_year y) = 0" by (simp add: days_before_month_def)
  from month_walk_spec [of 1 rest "is_leap_year y"] y(2) obtain m d dm where
    m: "month_walk (is_leap_year y) 1 rest = Some (m, d)" "1 \<le> m" "m \<le> 12" "days_in_month m (is_leap_year y) = Some dm"
      "d < dm" "rest = days_before_month m (is_leap_year y) + d"
    by (auto simp: zero days_in_year_def)
  have "days_before_year 1970 = 719162 + 365" by (simp add: days_before_year_def)
  then have "secs div 86400 + 719162 + 365 = days_before_year y + days_before_month m (is_leap_year y) + d"
    using y(1) m(6) by linarith
  then have "civil_from_days (secs div 86400) = (y, m, d + 1)"
    using civil_of_date [OF m(2-5)] y(3) by simp
  moreover have "secs mod 86400 div 3600 = secs div 3600 mod 24" "secs mod 86400 mod 3600 div 60 = secs div 60 mod 60"
      "secs mod 86400 mod 60 = secs mod 60"
  proof -
    have "secs mod 86400 = 3600 * (secs div 3600 mod 24) + secs mod 3600" using mod_mult2_eq [of secs 3600 24] by simp
    then show "secs mod 86400 div 3600 = secs div 3600 mod 24" by simp
    have "secs mod 3600 = 60 * (secs div 60 mod 60) + secs mod 60" using mod_mult2_eq [of secs 60 60] by simp
    moreover have "secs mod 86400 mod 3600 = secs mod 3600" by (rule mod_mod_cancel) simp
    ultimately show "secs mod 86400 mod 3600 div 60 = secs div 60 mod 60" by simp
    show "secs mod 86400 mod 60 = secs mod 60" by (rule mod_mod_cancel) simp
  qed
  ultimately show ?thesis using w m y(3) by (auto simp: epoch_seconds_to_ymd_hms_def)
qed

text \<open>
  The two calendar routines agree: for every second since the epoch the closed formula of
  the date header gives the year, month and day of the year and month walk of the log
  timestamps, which ends, never leaves the twelve months and stays inside its month.
\<close>
theorem calendars_agree:
  "\<exists>y m d dm. epoch_seconds_to_ymd_hms secs =
      Some (y, m, d, secs div 3600 mod 24, secs div 60 mod 60, secs mod 60) \<and>
    civil_from_days (secs div 86400) = (y, m, d) \<and> 1970 \<le> y \<and>
    days_in_month m (is_leap_year y) = Some dm \<and> 1 \<le> d \<and> d \<le> dm"
  by (rule walk_is_civil)

lemma format_iso8601_total: "format_iso8601 secs ms \<noteq> None"
  using walk_is_civil [of secs] by (auto simp: format_iso8601_def)

end
