(* ===== verification/Log_Format.thy ===== *)
theory Log_Format
  imports Civil_Date Matcher
begin

text \<open>
  The access-log formats of \<open>envoy-accesslog/src\<close>: the command-operator language
  (\<open>command_operator.rs\<close>), the record it is rendered against (\<open>record.rs\<close>), the default
  format (\<open>default_format.rs\<close>) and the JSON encoder (\<open>json_format.rs\<close>, \<open>log_format.rs\<close>).
  Durations are nanoseconds; the start time is seconds and milliseconds since the epoch.
\<close>

section \<open>Operators (command_operator.rs)\<close>

datatype GrpcStatusFormat = CamelString | SnakeString | Number

datatype Side = ReqSide | RespSide

datatype Op =
    StartTime
  | Req string "string option" "nat option"
  | Resp string "string option" "nat option"
  | Protocol
  | ResponseCode
  | ResponseFlags
  | BytesReceived
  | BytesSent
  | DurationOp
  | UpstreamHost
  | UpstreamCluster
  | RouteName
  | ResponseCodeDetails
  | DynamicMetadata string string
  | GrpcStatus GrpcStatusFormat

datatype Segment = Literal string | OpSeg Op

datatype FormatParseError =
    UnterminatedOperator
  | EmptyOperator
  | UnknownKeyword string
  | MalformedArgument string string
  | UnsupportedHeader Side string
  | BadTruncate string

definition GRPC_STATUS_NAMES :: "(string \<times> string) list" where
  "GRPC_STATUS_NAMES =
     [(''OK'', ''OK''), (''Canceled'', ''CANCELLED''), (''Unknown'', ''UNKNOWN''),
      (''InvalidArgument'', ''INVALID_ARGUMENT''), (''DeadlineExceeded'', ''DEADLINE_EXCEEDED''),
      (''NotFound'', ''NOT_FOUND''), (''AlreadyExists'', ''ALREADY_EXISTS''),
      (''PermissionDenied'', ''PERMISSION_DENIED''), (''ResourceExhausted'', ''RESOURCE_EXHAUSTED''),
      (''FailedPrecondition'', ''FAILED_PRECONDITION''), (''Aborted'', ''ABORTED''),
      (''OutOfRange'', ''OUT_OF_RANGE''), (''Unimplemented'', ''UNIMPLEMENTED''), (''Internal'', ''INTERNAL''),
      (''Unavailable'', ''UNAVAILABLE''), (''DataLoss'', ''DATA_LOSS''), (''Unauthenticated'', ''UNAUTHENTICATED'')]"

definition grpc_status_code :: "string \<Rightarrow> int" where
  "grpc_status_code raw = (case parse_signed 64 (str_trim raw) of None \<Rightarrow> -1 | Some n \<Rightarrow> n)"

definition render_grpc_status :: "string \<Rightarrow> GrpcStatusFormat \<Rightarrow> string" where
  "render_grpc_status raw format =
     (let code = grpc_status_code raw in
      if format = Number then show_int code
      else if 0 \<le> code \<and> nat code < length GRPC_STATUS_NAMES
      then (if format = CamelString then fst else snd) (GRPC_STATUS_NAMES ! nat code)
      else show_int code)"

definition REQ_ALLOW_LIST :: "string list" where
  "REQ_ALLOW_LIST = ['':method'', '':authority'', '':path'', ''x-envoy-original-path'', ''x-forwarded-for'',
     ''user-agent'', ''x-request-id'']"

definition RESP_ALLOW_LIST :: "string list" where
  "RESP_ALLOW_LIST = [''x-envoy-upstream-service-time'']"

definition no_arg_ops :: "(string \<times> Op) list" where
  "no_arg_ops =
     [(''PROTOCOL'', Protocol), (''RESPONSE_CODE'', ResponseCode), (''RESPONSE_FLAGS'', ResponseFlags),
      (''BYTES_RECEIVED'', BytesReceived), (''BYTES_SENT'', BytesSent), (''UPSTREAM_HOST'', UpstreamHost),
      (''UPSTREAM_CLUSTER'', UpstreamCluster), (''ROUTE_NAME'', RouteName),
      (''RESPONSE_CODE_DETAILS'', ResponseCodeDetails), (''START_TIME'', StartTime), (''DURATION'', DurationOp),
      (''GRPC_STATUS_NUMBER'', GrpcStatus Number)]"

definition no_arg_op :: "string \<Rightarrow> Op option" where
  "no_arg_op keyword = map_of no_arg_ops keyword"

text \<open>
  \<open>rest\<close> is what follows the opening parenthesis, or \<open>None\<close> when there is none.
\<close>

definition parse_grpc_status_op :: "string option \<Rightarrow> FormatParseError + Op" where
  "parse_grpc_status_op rest =
     (case rest of
        None \<Rightarrow> Inr (GrpcStatus CamelString)
      | Some r \<Rightarrow>
          (case split_once CHR '')'' r of
             None \<Rightarrow> Inl (MalformedArgument ''GRPC_STATUS'' ''missing closing ) on the format argument'')
           | Some (arg, after) \<Rightarrow>
               if after \<noteq> [] then Inl (MalformedArgument ''GRPC_STATUS'' ''does not allow a length'')
               else if arg = [] \<or> arg = ''CAMEL_STRING'' then Inr (GrpcStatus CamelString)
               else if arg = ''SNAKE_STRING'' then Inr (GrpcStatus SnakeString)
               else if arg = ''NUMBER'' then Inr (GrpcStatus Number)
               else Inl (MalformedArgument ''GRPC_STATUS'' arg)))"

definition parse_truncate :: "string \<Rightarrow> string \<Rightarrow> FormatParseError + nat option" where
  "parse_truncate keyword after =
     (case after of
        [] \<Rightarrow> Inr None
      | c # num \<Rightarrow>
          if c \<noteq> CHR '':'' then Inl (MalformedArgument keyword after)
          else if num = [] \<or> \<not> list_all is_ascii_digit num then Inl (BadTruncate num)
          else case parse_unsigned 64 num of None \<Rightarrow> Inl (BadTruncate num) | Some n \<Rightarrow> Inr (Some n))"

definition split_alt :: "string \<Rightarrow> (string \<times> string option) option" where
  "split_alt arg =
     (case split_once CHR ''?'' arg of
        None \<Rightarrow> Some (str_to_ascii_lowercase arg, None)
      | Some (n, a) \<Rightarrow> if a = [] then None else Some (str_to_ascii_lowercase n, Some (str_to_ascii_lowercase a)))"

definition allow_list :: "Side \<Rightarrow> string list" where
  "allow_list side = (case side of ReqSide \<Rightarrow> REQ_ALLOW_LIST | RespSide \<Rightarrow> RESP_ALLOW_LIST)"

definition backed :: "Side \<Rightarrow> string \<Rightarrow> string option \<Rightarrow> bool" where
  "backed side name alt \<longleftrightarrow> name \<in> set (allow_list side) \<or> (\<exists>a \<in> set_option alt. a \<in> set (allow_list side))"

definition header_op :: "Side \<Rightarrow> string \<Rightarrow> string option \<Rightarrow> nat option \<Rightarrow> Op" where
  "header_op side name alt tr = (case side of ReqSide \<Rightarrow> Req name alt tr | RespSide \<Rightarrow> Resp name alt tr)"

definition parse_header_op :: "string \<Rightarrow> string option \<Rightarrow> Side \<Rightarrow> FormatParseError + Op" where
  "parse_header_op keyword rest side =
     (case rest of
        None \<Rightarrow> Inl (MalformedArgument keyword ''requires a parenthesized header argument, e.g. REQ(:path)'')
      | Some r \<Rightarrow>
          (case split_once CHR '')'' r of
             None \<Rightarrow> Inl (MalformedArgument keyword ''missing closing ) on the header argument'')
           | Some (arg, after) \<Rightarrow>
               (case parse_truncate keyword after of
                  Inl e \<Rightarrow> Inl e
                | Inr tr \<Rightarrow>
                    (case split_alt arg of
                       None \<Rightarrow> Inl (MalformedArgument keyword ''empty alternate after ?'')
                     | Some (name, alt) \<Rightarrow>
                         if backed side name alt then Inr (header_op side name alt tr)
                         else Inl (UnsupportedHeader side name)))))"

definition parse_dynamic_metadata_op :: "string option \<Rightarrow> FormatParseError + Op" where
  "parse_dynamic_metadata_op rest =
     (let bad = (\<lambda>detail. Inl (MalformedArgument ''DYNAMIC_METADATA'' detail)) in
      case rest of
        None \<Rightarrow> bad ''requires a (namespace:key) argument''
      | Some r \<Rightarrow>
          (case split_once CHR '')'' r of
             None \<Rightarrow> bad ''missing closing ) on the (namespace:key) argument''
           | Some (arg, after) \<Rightarrow>
               if after \<noteq> [] then bad ''does not accept a :N length suffix''
               else case split_on CHR '':'' arg of
                 [ns, k] \<Rightarrow> if ns \<noteq> [] \<and> k \<noteq> [] then Inr (DynamicMetadata ns k) else bad ''requires exactly namespace:key''
               | _ \<Rightarrow> bad ''requires exactly namespace:key''))"

definition parse_operator :: "string \<Rightarrow> FormatParseError + Op" where
  "parse_operator body =
     (let (keyword, rest) = (case split_once CHR ''('' body of None \<Rightarrow> (body, None) | Some (k, r) \<Rightarrow> (k, Some r)) in
      if keyword = [] then Inl EmptyOperator
      else if keyword = ''REQ'' then parse_header_op keyword rest ReqSide
      else if keyword = ''RESP'' then parse_header_op keyword rest RespSide
      else if keyword = ''DYNAMIC_METADATA'' then parse_dynamic_metadata_op rest
      else if keyword = ''GRPC_STATUS'' then parse_grpc_status_op rest
      else case no_arg_op keyword of
        None \<Rightarrow> Inl (UnknownKeyword keyword)
      | Some op \<Rightarrow>
          if rest = None \<or> rest = Some '')'' then Inr op
          else Inl (MalformedArgument keyword ''this operator takes no (...) argument''))"

definition flush_literal :: "string \<Rightarrow> Segment list" where
  "flush_literal lit = (if lit = [] then [] else [Literal lit])"

text \<open>The loop of \<open>parse_format\<close> on what is left of the string, with the pending literal.\<close>

function parse_loop :: "string \<Rightarrow> string \<Rightarrow> FormatParseError + Segment list" where
  "parse_loop s lit =
     (case s of
        [] \<Rightarrow> Inr (flush_literal lit)
      | c # s1 \<Rightarrow>
          if c \<noteq> CHR ''%'' then parse_loop (dropWhile (\<lambda>d. d \<noteq> CHR ''%'') s) (lit @ takeWhile (\<lambda>d. d \<noteq> CHR ''%'') s)
          else if s1 \<noteq> [] \<and> hd s1 = CHR ''%'' then parse_loop (tl s1) (lit @ ''%'')
          else case split_once CHR ''%'' s1 of
            None \<Rightarrow> Inl UnterminatedOperator
          | Some (body, s2) \<Rightarrow>
              (case parse_operator body of
                 Inl e \<Rightarrow> Inl e
               | Inr op \<Rightarrow>
                   (case parse_loop s2 [] of
                      Inl e \<Rightarrow> Inl e | Inr segs \<Rightarrow> Inr (flush_literal lit @ OpSeg op # segs))))"
  by pat_completeness auto
termination
proof (relation "measure (\<lambda>(s, lit). length s)", goal_cases)
  case (2 s lit c s1)
  then show ?case using length_dropWhile_le [of "\<lambda>d. d \<noteq> CHR ''%''" s1] by (auto simp: less_Suc_eq_le)
next
  case (4 s lit c s1 x body s2)
  then show ?case by (auto dest!: split_once_Some)
qed auto

declare parse_loop.simps [simp del]

definition parse_format :: "string \<Rightarrow> FormatParseError + Segment list" where
  "parse_format s = parse_loop s []"

section \<open>Printing a format\<close>

definition print_opt :: "string \<Rightarrow> ('a \<Rightarrow> string) \<Rightarrow> 'a option \<Rightarrow> string" where
  "print_opt sep f x = (case x of None \<Rightarrow> [] | Some a \<Rightarrow> sep @ f a)"

definition print_header :: "string \<Rightarrow> string \<Rightarrow> string option \<Rightarrow> nat option \<Rightarrow> string" where
  "print_header kw name alt tr = kw @ ''('' @ name @ print_opt ''?'' id alt @ '')'' @ print_opt '':'' show_nat tr"

definition print_op :: "Op \<Rightarrow> string" where
  "print_op op =
     (case op of
        Req name alt tr \<Rightarrow> print_header ''REQ'' name alt tr
      | Resp name alt tr \<Rightarrow> print_header ''RESP'' name alt tr
      | DynamicMetadata ns k \<Rightarrow> ''DYNAMIC_METADATA('' @ ns @ '':'' @ k @ '')''
      | GrpcStatus CamelString \<Rightarrow> ''GRPC_STATUS''
      | GrpcStatus SnakeString \<Rightarrow> ''GRPC_STATUS(SNAKE_STRING)''
      | GrpcStatus Number \<Rightarrow> ''GRPC_STATUS_NUMBER''
      | StartTime \<Rightarrow> ''START_TIME'' | Protocol \<Rightarrow> ''PROTOCOL'' | ResponseCode \<Rightarrow> ''RESPONSE_CODE''
      | ResponseFlags \<Rightarrow> ''RESPONSE_FLAGS'' | BytesReceived \<Rightarrow> ''BYTES_RECEIVED'' | BytesSent \<Rightarrow> ''BYTES_SENT''
      | DurationOp \<Rightarrow> ''DURATION'' | UpstreamHost \<Rightarrow> ''UPSTREAM_HOST'' | UpstreamCluster \<Rightarrow> ''UPSTREAM_CLUSTER''
      | RouteName \<Rightarrow> ''ROUTE_NAME'' | ResponseCodeDetails \<Rightarrow> ''RESPONSE_CODE_DETAILS'')"

definition escape_percent :: "string \<Rightarrow> string" where
  "escape_percent s = concat (map (\<lambda>c. if c = CHR ''%'' then ''%%'' else [c]) s)"

definition print_segment :: "Segment \<Rightarrow> string" where
  "print_segment seg = (case seg of Literal s \<Rightarrow> escape_percent s | OpSeg op \<Rightarrow> ''%'' @ print_op op @ ''%'')"

definition print_format :: "Segment list \<Rightarrow> string" where
  "print_format segs = concat (map print_segment segs)"

definition wf_header :: "Side \<Rightarrow> string \<Rightarrow> string option \<Rightarrow> nat option \<Rightarrow> bool" where
  "wf_header side name alt tr \<longleftrightarrow>
     str_to_ascii_lowercase name = name \<and> CHR ''%'' \<notin> set name \<and> CHR '')'' \<notin> set name \<and> CHR ''?'' \<notin> set name \<and>
     (\<forall>a \<in> set_option alt. str_to_ascii_lowercase a = a \<and> a \<noteq> [] \<and> CHR ''%'' \<notin> set a \<and> CHR '')'' \<notin> set a) \<and>
     (\<forall>n \<in> set_option tr. n < 2 ^ 64) \<and> backed side name alt"

definition wf_op :: "Op \<Rightarrow> bool" where
  "wf_op op \<longleftrightarrow>
     (case op of
        Req name alt tr \<Rightarrow> wf_header ReqSide name alt tr
      | Resp name alt tr \<Rightarrow> wf_header RespSide name alt tr
      | DynamicMetadata ns k \<Rightarrow> ns \<noteq> [] \<and> k \<noteq> [] \<and>
          list_all (\<lambda>c. c \<noteq> CHR ''%'' \<and> c \<noteq> CHR '')'' \<and> c \<noteq> CHR '':'') (ns @ k)
      | _ \<Rightarrow> True)"

fun wf_format :: "Segment list \<Rightarrow> bool" where
  "wf_format [] = True"
| "wf_format (Literal s # segs) = (s \<noteq> [] \<and> (\<forall>t ts. segs \<noteq> Literal t # ts) \<and> wf_format segs)"
| "wf_format (OpSeg op # segs) = (wf_op op \<and> wf_format segs)"


lemma lower_neq: "byte_of d < 65 \<Longrightarrow> to_ascii_lowercase c = d \<longleftrightarrow> c = d"
  by (auto simp: to_ascii_lowercase_def is_ascii_uppercase_def byte_of_def)

lemma lower_mem: "byte_of d < 65 \<Longrightarrow> d \<in> set (str_to_ascii_lowercase s) \<longleftrightarrow> d \<in> set s"
  using lower_neq [of d] by (force simp: str_to_ascii_lowercase_def image_iff)

lemma lower_empty [simp]: "str_to_ascii_lowercase s = [] \<longleftrightarrow> s = []"
  by (simp add: str_to_ascii_lowercase_def)

lemma split_alt_print:
  assumes "str_to_ascii_lowercase name = name" "CHR ''?'' \<notin> set name"
    and "\<forall>a \<in> set_option alt. str_to_ascii_lowercase a = a \<and> a \<noteq> []"
  shows "split_alt (name @ print_opt ''?'' id alt) = Some (name, alt)"
  using assms
  by (cases alt) (simp_all add: split_alt_def print_opt_def split_once_append split_once_None [THEN iffD2])

lemma parse_truncate_print:
  "\<forall>n \<in> set_option tr. n < 2 ^ 64 \<Longrightarrow> parse_truncate kw (print_opt '':'' show_nat tr) = Inr tr"
  using parse_unsigned_show [where w = 64]
  by (cases tr) (auto simp: parse_truncate_def print_opt_def list_all_iff show_nat_digits)

lemma parse_header_print:
  assumes "wf_header side name alt tr"
  shows "parse_header_op kw (Some (name @ print_opt ''?'' id alt @ '')'' @ print_opt '':'' show_nat tr)) side
           = Inr (header_op side name alt tr)"
proof -
  have "CHR '')'' \<notin> set (name @ print_opt ''?'' id alt)"
    using assms by (cases alt) (auto simp: wf_header_def print_opt_def)
  from split_once_append [OF this, of "print_opt '':'' show_nat tr"] show ?thesis
    using assms split_alt_print parse_truncate_print
    by (simp add: parse_header_op_def wf_header_def)
qed

lemma parse_print_op:
  assumes "wf_op op"
  shows "parse_operator (print_op op) = Inr op"
proof (cases op)
  case (Req name alt tr)
  then show ?thesis
    using assms parse_header_print [of ReqSide name alt tr "''REQ''"]
    by (simp add: wf_op_def print_op_def print_header_def parse_operator_def header_op_def)
next
  case (Resp name alt tr)
  then show ?thesis
    using assms parse_header_print [of RespSide name alt tr "''RESP''"]
    by (simp add: wf_op_def print_op_def print_header_def parse_operator_def header_op_def)
next
  case (DynamicMetadata ns k)
  then have "CHR '')'' \<notin> set (ns @ CHR '':'' # k)" "CHR '':'' \<notin> set ns" "CHR '':'' \<notin> set k" "ns \<noteq> []" "k \<noteq> []"
    using assms by (auto simp: wf_op_def list_all_iff)
  moreover from this have "split_once CHR '')'' (ns @ CHR '':'' # k @ [CHR '')'']) = Some (ns @ CHR '':'' # k, [])"
    using split_once_append [of "CHR '')''" "ns @ CHR '':'' # k" "[]"] by simp
  ultimately show ?thesis
    using DynamicMetadata
    by (simp add: print_op_def parse_operator_def parse_dynamic_metadata_op_def split_on_append split_on_none)
next
  case (GrpcStatus f)
  then show ?thesis
    by (cases f) (simp_all add: print_op_def parse_operator_def parse_grpc_status_op_def no_arg_op_def no_arg_ops_def)
qed (simp_all add: print_op_def parse_operator_def no_arg_op_def no_arg_ops_def)

lemma print_header_no_percent:
  "wf_header side name alt tr \<Longrightarrow> CHR ''%'' \<notin> set kw \<Longrightarrow> CHR ''%'' \<notin> set (print_header kw name alt tr)"
  using show_nat_digits [of "CHR ''%''"]
  by (cases alt; cases tr) (auto simp: print_header_def print_opt_def wf_header_def is_ascii_digit_def byte_of_def)

lemma print_op_no_percent: "wf_op op \<Longrightarrow> CHR ''%'' \<notin> set (print_op op)"
  by (cases op)
    (auto simp: wf_op_def print_op_def list_all_iff print_header_no_percent split: GrpcStatusFormat.splits)

lemma print_op_nonempty: "print_op op \<noteq> []"
  by (simp add: print_op_def print_header_def split: Op.split GrpcStatusFormat.split)


lemma parse_header_wf:
  assumes "parse_header_op kw (Some r) side = Inr op" "CHR ''%'' \<notin> set r"
  shows "\<exists>name alt tr. op = header_op side name alt tr \<and> wf_header side name alt tr"
proof -
  obtain arg after where r: "split_once CHR '')'' r = Some (arg, after)"
    using assms by (auto simp: parse_header_op_def split: option.splits)
  obtain tr name alt where q: "parse_truncate kw after = Inr tr" "split_alt arg = Some (name, alt)"
      "backed side name alt" "op = header_op side name alt tr"
    using assms r by (auto simp: parse_header_op_def split: option.splits sum.splits if_splits)
  have "\<forall>n \<in> set_option tr. n < 2 ^ 64"
    using q(1) parse_unsigned_bound [where w = 64]
    by (auto simp: parse_truncate_def split: list.splits if_splits option.splits)
  moreover have "CHR ''%'' \<notin> set arg" "CHR '')'' \<notin> set arg"
    using split_once_Some [OF r] assms(2) by auto
  ultimately show ?thesis
    using q by (fastforce simp: split_alt_def wf_header_def lower_mem byte_of_def split_once_None
      dest!: split_once_Some split: option.splits if_splits)
qed

lemma split_on_two: "split_on sep s = [a, b] \<Longrightarrow> s = a @ sep # b \<and> sep \<notin> set a \<and> sep \<notin> set b"
proof (induction s arbitrary: a)
  case (Cons c s)
  have one: "sep \<notin> set u" if "split_on sep s = [u]" for u s
    using that by (induction s arbitrary: u) (auto split: if_splits list.splits)
  have eq: "s = u" if "split_on sep s = [u]" for u s
    using that by (induction s arbitrary: u) (auto split: if_splits list.splits)
  show ?case using Cons by (auto split: if_splits list.splits dest: one eq)
qed simp

lemma parse_operator_wf:
  assumes "parse_operator body = Inr op" "CHR ''%'' \<notin> set body"
  shows "wf_op op"
proof -
  define rest where "rest = map_option snd (split_once CHR ''('' body)"
  have r: "\<And>r. rest = Some r \<Longrightarrow> CHR ''%'' \<notin> set r"
    using assms(2) by (auto simp: rest_def dest!: split_once_Some)
  consider kw side where "parse_header_op kw rest side = Inr op" | "parse_dynamic_metadata_op rest = Inr op"
    | "parse_grpc_status_op rest = Inr op" | kw where "no_arg_op kw = Some op"
    using assms(1)
    by (auto simp: parse_operator_def rest_def split: option.splits if_splits prod.splits)
  then show ?thesis
  proof cases
    case 1
    then show ?thesis using parse_header_wf r
      by (cases rest; cases side) (fastforce simp: parse_header_op_def wf_op_def header_op_def)+
  next
    case 2
    then obtain r arg ns k where "rest = Some r" "split_once CHR '')'' r = Some (arg, [])"
        "split_on CHR '':'' arg = [ns, k]" "ns \<noteq> []" "k \<noteq> []" "op = DynamicMetadata ns k"
      by (auto simp: parse_dynamic_metadata_op_def Let_def split: option.splits if_splits list.splits)
    then show ?thesis using r [of r]
      by (auto simp: wf_op_def list_all_iff dest!: split_once_Some split_on_two)
  next
    case 3
    then show ?thesis
      by (auto simp: parse_grpc_status_op_def wf_op_def split: option.splits if_splits)
  next
    case 4
    then show ?thesis
      by (auto simp: no_arg_op_def no_arg_ops_def wf_op_def split: if_splits)
  qed
qed

lemma wf_flush: "wf_op op \<Longrightarrow> wf_format segs \<Longrightarrow> wf_format (flush_literal lit @ OpSeg op # segs)"
  by (simp add: flush_literal_def)

lemma parse_loop_wf: "parse_loop s lit = Inr segs \<Longrightarrow> wf_format segs"
proof (induction s lit arbitrary: segs rule: parse_loop.induct)
  case (1 s lit)
  show ?case
  proof (cases s)
    case Nil
    with 1(4) show ?thesis by (auto simp: parse_loop.simps [of "[]"] flush_literal_def)
  next
    case (Cons c s1)
    show ?thesis
    proof (cases "c \<noteq> CHR ''%'' \<or> (s1 \<noteq> [] \<and> hd s1 = CHR ''%'')")
      case True
      then show ?thesis using 1(1,2) [OF Cons] 1(4) Cons
        by (auto simp: parse_loop.simps [of "c # s1"] split: if_splits)
    next
      case False
      with 1(4) Cons obtain body s2 op segs' where *: "split_once CHR ''%'' s1 = Some (body, s2)"
          "parse_operator body = Inr op" "parse_loop s2 [] = Inr segs'" "segs = flush_literal lit @ OpSeg op # segs'"
        by (auto simp: parse_loop.simps [of "c # s1"] split: option.splits sum.splits if_splits)
      then have "wf_format segs'" using 1(3) [OF Cons] False by auto
      moreover have "wf_op op" using *(1,2) by (auto dest: split_once_Some parse_operator_wf)
      ultimately show ?thesis using * wf_flush by simp
    qed
  qed
qed

lemma parse_loop_char: "c \<noteq> CHR ''%'' \<Longrightarrow> parse_loop (c # s) lit = parse_loop s (lit @ [c])"
  by (cases s) (auto simp: parse_loop.simps [of "_ # _"] parse_loop.simps [of "[]"])

lemma parse_loop_escape: "parse_loop (escape_percent t @ s) lit = parse_loop s (lit @ t)"
proof (induction t arbitrary: lit)
  case (Cons c t)
  then show ?case
    by (cases "c = CHR ''%''")
      (auto simp: escape_percent_def parse_loop_char parse_loop.simps [of "CHR ''%'' # CHR ''%'' # _"])
qed (simp add: escape_percent_def)

lemma parse_loop_op:
  assumes "wf_op op"
  shows "parse_loop (''%'' @ print_op op @ ''%'' @ s) lit =
    (case parse_loop s [] of Inl e \<Rightarrow> Inl e | Inr segs \<Rightarrow> Inr (flush_literal lit @ OpSeg op # segs))"
proof -
  obtain d ds where d: "print_op op = d # ds" using print_op_nonempty [of op] by (cases "print_op op") auto
  have "CHR ''%'' \<notin> set (print_op op)" by (rule print_op_no_percent [OF assms])
  then show ?thesis
    using split_once_append [of "CHR ''%''" "print_op op" s] parse_print_op [OF assms] d
    by (subst parse_loop.simps) auto
qed

lemma parse_print_format: "wf_format segs \<Longrightarrow> parse_loop (print_format segs) [] = Inr segs"
proof (induction segs rule: wf_format.induct)
  case 1
  then show ?case by (simp add: print_format_def parse_loop.simps [of "[]"] flush_literal_def)
next
  case (2 s segs)
  then have IH: "parse_loop (print_format segs) [] = Inr segs" "s \<noteq> []" by auto
  show ?case
  proof (cases segs)
    case Nil
    with IH show ?thesis
      using parse_loop_escape [of s "[]" "[]"]
      by (simp add: print_format_def print_segment_def parse_loop.simps [of "[]"] flush_literal_def)
  next
    case (Cons seg segs')
    with 2 obtain op where seg: "seg = OpSeg op" "wf_op op" by (cases seg) auto
    with IH Cons show ?thesis
      using parse_loop_op [OF seg(2), of "print_format segs'"]
      by (auto simp: print_format_def print_segment_def parse_loop_escape flush_literal_def split: sum.splits)
  qed
next
  case (3 op segs)
  then show ?case
    using parse_loop_op [of op "print_format segs" "[]"]
    by (simp add: print_format_def print_segment_def flush_literal_def)
qed

text \<open>
  Every access-log format the parser accepts is well formed (no empty and no adjacent literals, every header
  operator lower-cased and backed by a field of the record, every truncation length a \<open>usize\<close>), and printing
  the parsed segments gives a format string that parses back to the same segments.
\<close>
theorem log_format_roundtrip:
  assumes "parse_format s = Inr segs"
  shows "wf_format segs \<and> parse_format (print_format segs) = Inr segs"
  using parse_loop_wf parse_print_format assms by (simp add: parse_format_def)

lemma log_format_roundtrip_witness:
  "wf_format [Literal ''a%'', OpSeg (Req '':path'' (Some ''x'') None)] \<and>
   parse_format (print_format [Literal ''a%'', OpSeg (Req '':path'' (Some ''x'') None)])
     = Inr [Literal ''a%'', OpSeg (Req '':path'' (Some ''x'') None)]"
proof -
  have "parse_format ''a%%%REQ(:PATH?X)%'' = Inr [Literal ''a%'', OpSeg (Req '':path'' (Some ''x'') None)]"
    by code_simp
  from log_format_roundtrip [OF this] show ?thesis .
qed

end
