(* ===== verification/Log_Render.thy ===== *)
theory Log_Render
  imports Log_Format
begin

text \<open>
  Rendering an access-log record: \<open>record.rs\<close>, the evaluator of \<open>command_operator.rs\<close>, the
  default format of \<open>default_format.rs\<close>, the JSON encoder \<open>json_format.rs\<close> and \<open>log_format.rs\<close>.
  A rendering is \<open>None\<close> where the calendar walk would hit its \<open>unreachable!\<close>; it never does.
\<close>

section \<open>The record (record.rs)\<close>

text \<open>The start time is nanoseconds since the epoch (negative before it), durations are nanoseconds.\<close>

record AccessLogRecord =
  start_time :: int
  lr_method :: string
  lr_path :: string
  lr_protocol :: string
  lr_response_code :: nat
  response_flags :: string
  bytes_received :: nat
  bytes_sent :: nat
  lr_duration :: nat
  upstream_service_time :: "nat option"
  forwarded_for :: "string option"
  user_agent :: "string option"
  request_id :: "string option"
  lr_authority :: "string option"
  upstream_host :: "string option"
  upstream_cluster :: "string option"
  lr_route_name :: "string option"
  response_code_details :: "string option"
  lr_dynamic_metadata :: dynamic_metadata
  grpc_status :: "string option"
  grpc_status_code_field :: nat

definition as_millis :: "nat \<Rightarrow> nat" where
  "as_millis d = d div 1000000"

definition format_start_time :: "int \<Rightarrow> string option" where
  "format_start_time t = (let d = nat t in format_iso8601 (d div 1000000000) (d div 1000000 mod 1000))"

section \<open>The evaluator (command_operator.rs)\<close>

definition resolve_req :: "string \<Rightarrow> AccessLogRecord \<Rightarrow> string option" where
  "resolve_req name r =
     (if name = '':method'' then Some (lr_method r)
      else if name = '':path'' \<or> name = ''x-envoy-original-path'' then Some (lr_path r)
      else if name = '':authority'' then lr_authority r
      else if name = ''x-forwarded-for'' then forwarded_for r
      else if name = ''user-agent'' then user_agent r
      else if name = ''x-request-id'' then request_id r
      else None)"

definition resolve_resp :: "string \<Rightarrow> AccessLogRecord \<Rightarrow> string option" where
  "resolve_resp name r =
     (if name = ''x-envoy-upstream-service-time'' then map_option (\<lambda>d. show_nat (as_millis d)) (upstream_service_time r)
      else None)"

text \<open>The greatest character boundary at or below \<open>n\<close> (the string's length when \<open>n\<close> is past it).\<close>

fun floor_char_boundary :: "string \<Rightarrow> nat \<Rightarrow> nat" where
  "floor_char_boundary s n =
     (if length s \<le> n then length s else if n = 0 \<or> is_char_boundary s n then n else floor_char_boundary s (n - 1))"

declare floor_char_boundary.simps [simp del]

definition truncate_bytes :: "string \<Rightarrow> nat option \<Rightarrow> string" where
  "truncate_bytes v tr = (case tr of None \<Rightarrow> v | Some n \<Rightarrow> take (floor_char_boundary v n) v)"

definition or_alt :: "(string \<Rightarrow> string option) \<Rightarrow> string \<Rightarrow> string option \<Rightarrow> string option" where
  "or_alt resolve name alt = (case resolve name of Some v \<Rightarrow> Some v | None \<Rightarrow> Option.bind alt resolve)"

definition metadata_value :: "AccessLogRecord \<Rightarrow> string \<Rightarrow> string \<Rightarrow> string option" where
  "metadata_value r ns k = Option.bind (bt_get (lr_dynamic_metadata r) ns) (\<lambda>m. bt_get m k)"

definition unwrap_or :: "'a option \<Rightarrow> 'a \<Rightarrow> 'a" where
  "unwrap_or x d = (case x of None \<Rightarrow> d | Some v \<Rightarrow> v)"

definition render_op :: "Op \<Rightarrow> AccessLogRecord \<Rightarrow> bool \<Rightarrow> string option" where
  "render_op op r omit_empty =
     (let dash = (if omit_empty then [] else ''-'') in
      case op of
        Protocol \<Rightarrow> Some (lr_protocol r)
      | ResponseCode \<Rightarrow> Some (show_nat (lr_response_code r))
      | ResponseFlags \<Rightarrow> Some (response_flags r)
      | BytesReceived \<Rightarrow> Some (show_nat (bytes_received r))
      | BytesSent \<Rightarrow> Some (show_nat (bytes_sent r))
      | DurationOp \<Rightarrow> Some (show_nat (as_millis (lr_duration r)))
      | StartTime \<Rightarrow> format_start_time (start_time r)
      | UpstreamHost \<Rightarrow> Some (unwrap_or (upstream_host r) dash)
      | UpstreamCluster \<Rightarrow> Some (unwrap_or (upstream_cluster r) dash)
      | RouteName \<Rightarrow> Some (unwrap_or (lr_route_name r) dash)
      | ResponseCodeDetails \<Rightarrow> Some (unwrap_or (response_code_details r) dash)
      | DynamicMetadata ns k \<Rightarrow> Some (unwrap_or (metadata_value r ns k) dash)
      | GrpcStatus fmt \<Rightarrow> Some (case grpc_status r of Some raw \<Rightarrow> render_grpc_status raw fmt | None \<Rightarrow> dash)
      | Req name alt tr \<Rightarrow> Some (truncate_bytes (unwrap_or (or_alt (\<lambda>n. resolve_req n r) name alt) dash) tr)
      | Resp name alt tr \<Rightarrow> Some (truncate_bytes (unwrap_or (or_alt (\<lambda>n. resolve_resp n r) name alt) dash) tr))"

fun render_value_segments :: "Segment list \<Rightarrow> AccessLogRecord \<Rightarrow> bool \<Rightarrow> string option" where
  "render_value_segments [] r omit_empty = Some []"
| "render_value_segments (Literal s # segs) r omit_empty =
     map_option (\<lambda>out. s @ out) (render_value_segments segs r omit_empty)"
| "render_value_segments (OpSeg op # segs) r omit_empty =
     (case render_op op r omit_empty of
        None \<Rightarrow> None
      | Some t \<Rightarrow> map_option (\<lambda>out. t @ out) (render_value_segments segs r omit_empty))"

record CompiledFormat =
  cf_segments :: "Segment list"
  cf_omit_empty :: bool

definition from_inline :: "string \<Rightarrow> FormatParseError + CompiledFormat" where
  "from_inline s =
     (case parse_format s of Inl e \<Rightarrow> Inl e | Inr segs \<Rightarrow> Inr \<lparr>cf_segments = segs, cf_omit_empty = False\<rparr>)"

definition with_omit_empty :: "CompiledFormat \<Rightarrow> bool \<Rightarrow> CompiledFormat" where
  "with_omit_empty f omit_empty = f\<lparr>cf_omit_empty := omit_empty\<rparr>"

definition format_render :: "CompiledFormat \<Rightarrow> AccessLogRecord \<Rightarrow> string option" where
  "format_render f r = render_value_segments (cf_segments f) r (cf_omit_empty f)"

section \<open>The default format (default_format.rs)\<close>

definition DEFAULT_FORMAT :: string where
  "DEFAULT_FORMAT =
     ''[%START_TIME%] '' @ [CHR 0x22] @ ''%REQ(:METHOD)% %REQ(X-ENVOY-ORIGINAL-PATH?:PATH)% %PROTOCOL%'' @ [CHR 0x22] @
     '' %RESPONSE_CODE% %RESPONSE_FLAGS% %BYTES_RECEIVED% %BYTES_SENT% %DURATION% '' @
     ''%RESP(X-ENVOY-UPSTREAM-SERVICE-TIME)% '' @ [CHR 0x22] @ ''%REQ(X-FORWARDED-FOR)%'' @ [CHR 0x22] @ '' '' @
     [CHR 0x22] @ ''%REQ(USER-AGENT)%'' @ [CHR 0x22] @ '' '' @ [CHR 0x22] @ ''%REQ(X-REQUEST-ID)%'' @ [CHR 0x22] @ '' '' @
     [CHR 0x22] @ ''%REQ(:AUTHORITY)%'' @ [CHR 0x22] @ '' '' @ [CHR 0x22] @ ''%UPSTREAM_HOST%'' @ [CHR 0x22, CHR 0x0A]"

text \<open>\<open>None\<close> is the panic of the \<open>expect\<close>.\<close>

definition default_format :: "CompiledFormat option" where
  "default_format =
     (case parse_format DEFAULT_FORMAT of Inl e \<Rightarrow> None | Inr segs \<Rightarrow> Some \<lparr>cf_segments = segs, cf_omit_empty = False\<rparr>)"

definition push_or_dash :: "string option \<Rightarrow> string" where
  "push_or_dash x = (case x of Some v \<Rightarrow> v | None \<Rightarrow> ''-'')"

definition legacy_format :: "AccessLogRecord \<Rightarrow> string option" where
  "legacy_format r =
     map_option (\<lambda>t.
       ''['' @ t @ ''] '' @ [CHR 0x22] @ lr_method r @ '' '' @ lr_path r @ '' '' @ lr_protocol r @ [CHR 0x22] @ '' '' @
       show_nat (lr_response_code r) @ '' '' @ response_flags r @ '' '' @ show_nat (bytes_received r) @ '' '' @
       show_nat (bytes_sent r) @ '' '' @ show_nat (as_millis (lr_duration r)) @ '' '' @
       (case upstream_service_time r of Some d \<Rightarrow> show_nat (as_millis d) | None \<Rightarrow> ''-'') @ '' '' @ [CHR 0x22] @
       push_or_dash (forwarded_for r) @ [CHR 0x22] @ '' '' @ [CHR 0x22] @ push_or_dash (user_agent r) @ [CHR 0x22] @
       '' '' @ [CHR 0x22] @ push_or_dash (request_id r) @ [CHR 0x22] @ '' '' @ [CHR 0x22] @
       push_or_dash (lr_authority r) @ [CHR 0x22] @ '' '' @ [CHR 0x22] @ push_or_dash (upstream_host r) @ [CHR 0x22])
       (format_start_time (start_time r))"

lemma format_start_time_total: "\<exists>t. format_start_time s = Some t"
  using format_iso8601_total by (auto simp: format_start_time_def Let_def)

lemma render_op_total: "\<exists>t. render_op op r oe = Some t"
  using format_start_time_total by (cases op) (auto simp: render_op_def)

lemma render_value_segments_total: "\<exists>t. render_value_segments segs r oe = Some t"
proof (induction segs r oe rule: render_value_segments.induct)
  case (3 op segs r oe)
  then show ?case using render_op_total [of op r oe] by auto
qed auto

lemma floor_char_boundary_spec:
  "floor_char_boundary s n \<le> n \<and> is_char_boundary s (floor_char_boundary s n) \<and>
   (\<forall>i. is_char_boundary s i \<longrightarrow> i \<le> n \<longrightarrow> i \<le> floor_char_boundary s n)"
proof (induction s n rule: floor_char_boundary.induct)
  case (1 s n)
  show ?case
  proof (cases "length s \<le> n \<or> n = 0 \<or> is_char_boundary s n")
    case True
    then show ?thesis
      by (subst (1 2 3) floor_char_boundary.simps) (auto simp: is_char_boundary_def)
  next
    case False
    then have "floor_char_boundary s n = floor_char_boundary s (n - 1)" by (simp add: floor_char_boundary.simps [of s n])
    with 1 False show ?thesis by (auto simp: le_less dest: less_imp_le)
  qed
qed

lemma default_segments:
  "parse_format DEFAULT_FORMAT = Inr
     [Literal ''['', OpSeg StartTime, Literal (''] '' @ [CHR 0x22]), OpSeg (Req '':method'' None None), Literal '' '',
      OpSeg (Req ''x-envoy-original-path'' (Some '':path'') None), Literal '' '', OpSeg Protocol,
      Literal (CHR 0x22 # '' ''), OpSeg ResponseCode, Literal '' '', OpSeg ResponseFlags, Literal '' '',
      OpSeg BytesReceived, Literal '' '', OpSeg BytesSent, Literal '' '', OpSeg DurationOp, Literal '' '',
      OpSeg (Resp ''x-envoy-upstream-service-time'' None None), Literal ('' '' @ [CHR 0x22]),
      OpSeg (Req ''x-forwarded-for'' None None), Literal ([CHR 0x22] @ '' '' @ [CHR 0x22]),
      OpSeg (Req ''user-agent'' None None), Literal ([CHR 0x22] @ '' '' @ [CHR 0x22]),
      OpSeg (Req ''x-request-id'' None None), Literal ([CHR 0x22] @ '' '' @ [CHR 0x22]),
      OpSeg (Req '':authority'' None None), Literal ([CHR 0x22] @ '' '' @ [CHR 0x22]),
      OpSeg UpstreamHost, Literal [CHR 0x22, CHR 0x0A]]"
  by code_simp

text \<open>
  The default format string parses, and rendering any record through the operator engine gives the line of the
  hand-written concatenator it replaced, followed by a newline; neither ever panics.
\<close>
theorem default_format_is_legacy:
  "\<exists>f line. default_format = Some f \<and> legacy_format r = Some line \<and> format_render f r = Some (line @ [CHR 0x0A])"
proof -
  obtain t where "format_start_time (start_time r) = Some t" using format_start_time_total by blast
  then show ?thesis
    by (simp add: default_format_def default_segments format_render_def legacy_format_def render_op_def
      resolve_req_def resolve_resp_def or_alt_def truncate_bytes_def unwrap_or_def push_or_dash_def
      split: option.split)
qed


section \<open>JSON (json_format.rs)\<close>

datatype JsonValueInput =
    InNull
  | InBool bool
  | InFormat string
  | InArray "JsonValueInput list"
  | InObject "(string \<times> JsonValueInput) list"

datatype CompiledJsonValue =
    CNull
  | CBool bool
  | CLeaf "Segment list"
  | CArray "CompiledJsonValue list"
  | CObject "(string \<times> CompiledJsonValue) list"

text \<open>
  The object maps are sorted association lists; \<open>compile_map\<close> visits the keys of a \<open>BTreeMap\<close> in order and inserts
  each compiled value under the same key, so the result has the same keys in the same order.
\<close>

fun compile_json :: "JsonValueInput \<Rightarrow> FormatParseError + CompiledJsonValue" where
  "compile_json InNull = Inr CNull"
| "compile_json (InBool b) = Inr (CBool b)"
| "compile_json (InFormat s) = (case parse_format s of Inl e \<Rightarrow> Inl e | Inr segs \<Rightarrow> Inr (CLeaf segs))"
| "compile_json (InArray xs) = (case traverse compile_json xs of Inl e \<Rightarrow> Inl e | Inr ys \<Rightarrow> Inr (CArray ys))"
| "compile_json (InObject m) =
     (case traverse (\<lambda>kv. case compile_json (snd kv) of Inl e \<Rightarrow> Inl e | Inr v \<Rightarrow> Inr (fst kv, v)) m of
        Inl e \<Rightarrow> Inl e | Inr m' \<Rightarrow> Inr (CObject m'))"

definition compile_map :: "(string \<times> JsonValueInput) list \<Rightarrow> FormatParseError + (string \<times> CompiledJsonValue) list" where
  "compile_map m = traverse (\<lambda>kv. case compile_json (snd kv) of Inl e \<Rightarrow> Inl e | Inr v \<Rightarrow> Inr (fst kv, v)) m"

definition hex_digit :: "nat \<Rightarrow> char" where
  "hex_digit d = (if d < 10 then char_of (48 + d) else char_of (87 + d))"

definition json_escape_char :: "char \<Rightarrow> string" where
  "json_escape_char c =
     (if c = CHR 0x22 then [CHR 0x5C, CHR 0x22]
      else if c = CHR 0x5C then [CHR 0x5C, CHR 0x5C]
      else if c = CHR 0x08 then [CHR 0x5C, CHR ''b'']
      else if c = CHR 0x09 then [CHR 0x5C, CHR ''t'']
      else if c = CHR 0x0A then [CHR 0x5C, CHR ''n'']
      else if c = CHR 0x0C then [CHR 0x5C, CHR ''f'']
      else if c = CHR 0x0D then [CHR 0x5C, CHR ''r'']
      else if byte_of c < 32 then [CHR 0x5C, CHR ''u'', CHR ''0'', CHR ''0'', hex_digit (byte_of c div 16), hex_digit (byte_of c mod 16)]
      else [c])"

definition json_escape :: "string \<Rightarrow> string" where
  "json_escape s = concat (map json_escape_char s)"

definition json_quote :: "string \<Rightarrow> string" where
  "json_quote s = CHR 0x22 # json_escape s @ [CHR 0x22]"

definition number_opt :: "int option \<Rightarrow> string" where
  "number_opt v = (case v of Some n \<Rightarrow> show_int n | None \<Rightarrow> ''null'')"

definition quote_opt :: "string option \<Rightarrow> string" where
  "quote_opt v = (case v of Some s \<Rightarrow> json_quote s | None \<Rightarrow> ''null'')"

definition encode_single_op :: "Op \<Rightarrow> AccessLogRecord \<Rightarrow> string option" where
  "encode_single_op op r =
     (case op of
        ResponseCode \<Rightarrow> Some (show_nat (lr_response_code r))
      | BytesReceived \<Rightarrow> Some (show_nat (bytes_received r))
      | BytesSent \<Rightarrow> Some (show_nat (bytes_sent r))
      | DurationOp \<Rightarrow> Some (show_nat (as_millis (lr_duration r)))
      | Protocol \<Rightarrow> Some (json_quote (lr_protocol r))
      | ResponseFlags \<Rightarrow> Some (json_quote (response_flags r))
      | StartTime \<Rightarrow> map_option json_quote (format_start_time (start_time r))
      | UpstreamHost \<Rightarrow> Some (quote_opt (upstream_host r))
      | UpstreamCluster \<Rightarrow> Some (quote_opt (upstream_cluster r))
      | RouteName \<Rightarrow> Some (quote_opt (lr_route_name r))
      | ResponseCodeDetails \<Rightarrow> Some (quote_opt (response_code_details r))
      | DynamicMetadata ns k \<Rightarrow> Some (quote_opt (metadata_value r ns k))
      | GrpcStatus fmt \<Rightarrow>
          Some (if fmt = Number then number_opt (map_option grpc_status_code (grpc_status r))
                else quote_opt (map_option (\<lambda>raw. render_grpc_status raw fmt) (grpc_status r)))
      | Req name alt tr \<Rightarrow> Some (quote_opt (map_option (\<lambda>s. truncate_bytes s tr) (or_alt (\<lambda>n. resolve_req n r) name alt)))
      | Resp name alt tr \<Rightarrow> Some (quote_opt (map_option (\<lambda>s. truncate_bytes s tr) (or_alt (\<lambda>n. resolve_resp n r) name alt))))"

definition encode_json_value :: "Segment list \<Rightarrow> AccessLogRecord \<Rightarrow> bool \<Rightarrow> string option" where
  "encode_json_value segs r omit_empty =
     (case segs of
        [OpSeg op] \<Rightarrow> encode_single_op op r
      | _ \<Rightarrow> map_option json_quote (render_value_segments segs r omit_empty))"

fun traverse_opt :: "('a \<Rightarrow> 'b option) \<Rightarrow> 'a list \<Rightarrow> 'b list option" where
  "traverse_opt f [] = Some []"
| "traverse_opt f (x # xs) =
     (case f x of None \<Rightarrow> None | Some y \<Rightarrow> map_option (\<lambda>ys. y # ys) (traverse_opt f xs))"

lemma traverse_opt_cong [fundef_cong]:
  "xs = ys \<Longrightarrow> (\<And>x. x \<in> set ys \<Longrightarrow> f x = g x) \<Longrightarrow> traverse_opt f xs = traverse_opt g ys"
  by (induction xs arbitrary: ys) (auto split: option.split)

definition comma_sep :: "string list \<Rightarrow> string" where
  "comma_sep ts = concat (map2 (\<lambda>i t. (if i > 0 then '','' else []) @ t) [0..<length ts] ts)"

fun render_into :: "CompiledJsonValue \<Rightarrow> AccessLogRecord \<Rightarrow> bool \<Rightarrow> string option" where
  "render_into CNull r omit_empty = Some ''null''"
| "render_into (CBool b) r omit_empty = Some (if b then ''true'' else ''false'')"
| "render_into (CLeaf segs) r omit_empty = encode_json_value segs r omit_empty"
| "render_into (CArray xs) r omit_empty =
     map_option (\<lambda>ts. ''['' @ comma_sep ts @ '']'') (traverse_opt (\<lambda>x. render_into x r omit_empty) xs)"
| "render_into (CObject m) r omit_empty =
     map_option (\<lambda>ts. ''{'' @ comma_sep ts @ ''}'')
       (traverse_opt (\<lambda>kv. map_option (\<lambda>t. json_quote (fst kv) @ '':'' @ t) (render_into (snd kv) r omit_empty)) m)"

record CompiledJsonFormat =
  jf_map :: "(string \<times> CompiledJsonValue) list"
  jf_omit_empty :: bool

definition from_map :: "(string \<times> JsonValueInput) list \<Rightarrow> FormatParseError + CompiledJsonFormat" where
  "from_map m = (case compile_map m of Inl e \<Rightarrow> Inl e | Inr m' \<Rightarrow> Inr \<lparr>jf_map = m', jf_omit_empty = False\<rparr>)"

definition json_render :: "CompiledJsonFormat \<Rightarrow> AccessLogRecord \<Rightarrow> string option" where
  "json_render f r = map_option (\<lambda>out. out @ [CHR 0x0A]) (render_into (CObject (jf_map f)) r (jf_omit_empty f))"

datatype LogFormat = TextFormat CompiledFormat | JsonFormat CompiledJsonFormat

definition log_render :: "LogFormat \<Rightarrow> AccessLogRecord \<Rightarrow> string option" where
  "log_render f r = (case f of TextFormat t \<Rightarrow> format_render t r | JsonFormat j \<Rightarrow> json_render j r)"

end
