(* ===== verification/Log_Json.thy ===== *)
theory Log_Json
  imports Log_Render
begin

text \<open>
  What a JSON access-log line denotes: the JSON value a compiled format gives for a record, a printer and a reader
  of JSON values, and the proof that the encoder of \<open>json_format.rs\<close> emits the printed value on one line that reads
  back to it.
\<close>

section \<open>JSON values, printed and read\<close>

datatype Json = JNull | JBool bool | JNum int | JStr string | JArr "Json list" | JObj "(string \<times> Json) list"

fun print_json :: "Json \<Rightarrow> string" where
  "print_json JNull = ''null''"
| "print_json (JBool b) = (if b then ''true'' else ''false'')"
| "print_json (JNum n) = show_int n"
| "print_json (JStr s) = json_quote s"
| "print_json (JArr xs) = ''['' @ comma_sep (map print_json xs) @ '']''"
| "print_json (JObj m) = ''{'' @ comma_sep (map (\<lambda>kv. json_quote (fst kv) @ '':'' @ print_json (snd kv)) m) @ ''}''"

definition hex_val :: "char \<Rightarrow> nat option" where
  "hex_val c =
     (let b = byte_of c in
      if 48 \<le> b \<and> b \<le> 57 then Some (b - 48) else if 97 \<le> b \<and> b \<le> 102 then Some (b - 87) else None)"

definition read_escape :: "string \<Rightarrow> (char \<times> string) option" where
  "read_escape s =
     (case s of
        [] \<Rightarrow> None
      | e # s' \<Rightarrow>
          if e = CHR 0x22 \<or> e = CHR 0x5C \<or> e = CHR ''/'' then Some (e, s')
          else if e = CHR ''b'' then Some (CHR 0x08, s')
          else if e = CHR ''t'' then Some (CHR 0x09, s')
          else if e = CHR ''n'' then Some (CHR 0x0A, s')
          else if e = CHR ''f'' then Some (CHR 0x0C, s')
          else if e = CHR ''r'' then Some (CHR 0x0D, s')
          else if e = CHR ''u'' then
            (case s' of
               z # z' # h # l # s'' \<Rightarrow>
                 if z = CHR ''0'' \<and> z' = CHR ''0'' then
                   (case (hex_val h, hex_val l) of
                      (Some a, Some b) \<Rightarrow> if a < 8 then Some (char_of (16 * a + b), s'') else None
                    | _ \<Rightarrow> None)
                 else None
             | _ \<Rightarrow> None)
          else None)"

text \<open>Reads a string body up to its closing quote; escapes beyond ASCII are outside this reader.\<close>

fun read_string :: "nat \<Rightarrow> string \<Rightarrow> (string \<times> string) option" where
  "read_string 0 s = None"
| "read_string (Suc n) s =
     (case s of
        [] \<Rightarrow> None
      | c # s' \<Rightarrow>
          if c = CHR 0x22 then Some ([], s')
          else if c = CHR 0x5C then
            (case read_escape s' of
               None \<Rightarrow> None
             | Some (d, s'') \<Rightarrow> map_option (\<lambda>(t, r). (d # t, r)) (read_string n s''))
          else if byte_of c < 32 then None
          else map_option (\<lambda>(t, r). (c # t, r)) (read_string n s'))"

definition read_number :: "string \<Rightarrow> (int \<times> string) option" where
  "read_number s =
     (let neg = (s \<noteq> [] \<and> hd s = CHR ''-''); t = (if neg then tl s else s); ds = takeWhile is_ascii_digit t in
      if ds = [] then None
      else Some ((if neg then - int (read_nat ds) else int (read_nat ds)), dropWhile is_ascii_digit t))"

definition strip :: "string \<Rightarrow> string \<Rightarrow> string option" where
  "strip p s = (if take (length p) s = p then Some (drop (length p) s) else None)"

fun read_value :: "nat \<Rightarrow> string \<Rightarrow> (Json \<times> string) option"
  and read_elems :: "nat \<Rightarrow> string \<Rightarrow> (Json list \<times> string) option"
  and read_members :: "nat \<Rightarrow> string \<Rightarrow> ((string \<times> Json) list \<times> string) option"
where
  "read_value 0 s = None"
| "read_value (Suc n) s =
     (case s of
        [] \<Rightarrow> None
      | c # s' \<Rightarrow>
          if c = CHR ''n'' then map_option (\<lambda>r. (JNull, r)) (strip ''null'' s)
          else if c = CHR ''t'' then map_option (\<lambda>r. (JBool True, r)) (strip ''true'' s)
          else if c = CHR ''f'' then map_option (\<lambda>r. (JBool False, r)) (strip ''false'' s)
          else if c = CHR 0x22 then map_option (\<lambda>(t, r). (JStr t, r)) (read_string (length s') s')
          else if c = CHR ''['' then
            (if s' \<noteq> [] \<and> hd s' = CHR '']'' then Some (JArr [], tl s')
             else map_option (\<lambda>(xs, r). (JArr xs, r)) (read_elems n s'))
          else if c = CHR ''{'' then
            (if s' \<noteq> [] \<and> hd s' = CHR ''}'' then Some (JObj [], tl s')
             else map_option (\<lambda>(m, r). (JObj m, r)) (read_members n s'))
          else map_option (\<lambda>(i, r). (JNum i, r)) (read_number s))"
| "read_elems 0 s = None"
| "read_elems (Suc n) s =
     (case read_value n s of
        Some (j, c # s') \<Rightarrow>
          if c = CHR '']'' then Some ([j], s')
          else if c = CHR '','' then map_option (\<lambda>(js, r). (j # js, r)) (read_elems n s')
          else None
      | _ \<Rightarrow> None)"
| "read_members 0 s = None"
| "read_members (Suc n) s =
     (case s of
        q # s1 \<Rightarrow>
          if q \<noteq> CHR 0x22 then None
          else
            (case read_string (length s1) s1 of
               Some (k, c # s2) \<Rightarrow>
                 if c \<noteq> CHR '':'' then None
                 else
                   (case read_value n s2 of
                      Some (j, d # s3) \<Rightarrow>
                        if d = CHR ''}'' then Some ([(k, j)], s3)
                        else if d = CHR '','' then map_option (\<lambda>(m, r). ((k, j) # m, r)) (read_members n s3)
                        else None
                    | _ \<Rightarrow> None)
             | _ \<Rightarrow> None)
      | [] \<Rightarrow> None)"

section \<open>The value of a line\<close>

definition json_str_opt :: "string option \<Rightarrow> Json" where
  "json_str_opt v = (case v of None \<Rightarrow> JNull | Some s \<Rightarrow> JStr s)"

text \<open>A value made of a single operator keeps the type of its field; an absent field is null.\<close>

definition json_of_op :: "Op \<Rightarrow> AccessLogRecord \<Rightarrow> Json option" where
  "json_of_op op r =
     (case op of
        ResponseCode \<Rightarrow> Some (JNum (int (lr_response_code r)))
      | BytesReceived \<Rightarrow> Some (JNum (int (bytes_received r)))
      | BytesSent \<Rightarrow> Some (JNum (int (bytes_sent r)))
      | DurationOp \<Rightarrow> Some (JNum (int (as_millis (lr_duration r))))
      | Protocol \<Rightarrow> Some (JStr (lr_protocol r))
      | ResponseFlags \<Rightarrow> Some (JStr (response_flags r))
      | StartTime \<Rightarrow> map_option JStr (format_start_time (start_time r))
      | UpstreamHost \<Rightarrow> Some (json_str_opt (upstream_host r))
      | UpstreamCluster \<Rightarrow> Some (json_str_opt (upstream_cluster r))
      | RouteName \<Rightarrow> Some (json_str_opt (lr_route_name r))
      | ResponseCodeDetails \<Rightarrow> Some (json_str_opt (response_code_details r))
      | DynamicMetadata ns k \<Rightarrow> Some (json_str_opt (metadata_value r ns k))
      | GrpcStatus fmt \<Rightarrow>
          Some (case grpc_status r of
            None \<Rightarrow> JNull
          | Some raw \<Rightarrow> if fmt = Number then JNum (grpc_status_code raw) else JStr (render_grpc_status raw fmt))
      | Req name alt tr \<Rightarrow> Some (json_str_opt (map_option (\<lambda>s. truncate_bytes s tr) (or_alt (\<lambda>n. resolve_req n r) name alt)))
      | Resp name alt tr \<Rightarrow> Some (json_str_opt (map_option (\<lambda>s. truncate_bytes s tr) (or_alt (\<lambda>n. resolve_resp n r) name alt))))"

fun json_of :: "CompiledJsonValue \<Rightarrow> AccessLogRecord \<Rightarrow> bool \<Rightarrow> Json option" where
  "json_of CNull r oe = Some JNull"
| "json_of (CBool b) r oe = Some (JBool b)"
| "json_of (CLeaf segs) r oe =
     (case segs of [OpSeg op] \<Rightarrow> json_of_op op r | _ \<Rightarrow> map_option JStr (render_value_segments segs r oe))"
| "json_of (CArray xs) r oe = map_option JArr (traverse_opt (\<lambda>x. json_of x r oe) xs)"
| "json_of (CObject m) r oe =
     map_option JObj (traverse_opt (\<lambda>kv. map_option (\<lambda>j. (fst kv, j)) (json_of (snd kv) r oe)) m)"

section \<open>Reading back what is printed\<close>

lemma comma_sep_Nil [simp]: "comma_sep [] = []"
  by (simp add: comma_sep_def)

lemma comma_sep_from: "concat (map2 (\<lambda>i t. (if i > 0 then '','' else []) @ t) [Suc k..<Suc k + length ts] ts)
    = concat (map (\<lambda>t. CHR '','' # t) ts)"
proof (induction ts arbitrary: k)
  case (Cons t ts)
  have "[Suc k..<Suc k + length (t # ts)] = Suc k # [Suc (Suc k)..<Suc (Suc k) + length ts]"
    by (subst upt_conv_Cons) auto
  then show ?case using Cons [of "Suc k"] by simp
qed simp

lemma comma_sep_Cons: "comma_sep (t # ts) = t @ concat (map (\<lambda>t. CHR '','' # t) ts)"
proof -
  have "[0..<length (t # ts)] = 0 # [Suc 0..<Suc 0 + length ts]" by (subst upt_conv_Cons) auto
  then show ?thesis using comma_sep_from [of 0 ts] by (simp add: comma_sep_def)
qed

lemma comma_sep_Cons2 [simp]:
  "comma_sep [t] = t" "comma_sep (t # u # ts) = t @ CHR '','' # comma_sep (u # ts)"
  by (simp_all add: comma_sep_Cons)

lemma hex_val_digit: "d < 16 \<Longrightarrow> hex_val (hex_digit d) = Some d"
  by (auto simp: hex_val_def hex_digit_def byte_of_def)

lemma char_of_byte: "char_of (byte_of c) = c"
  by (simp add: byte_of_def)

lemma read_escape_char:
  assumes "json_escape_char c = CHR 0x5C # e"
  shows "read_escape (e @ s) = Some (c, s)"
proof (cases "c \<in> {CHR 0x22, CHR 0x5C, CHR 0x08, CHR 0x09, CHR 0x0A, CHR 0x0C, CHR 0x0D}")
  case True
  then show ?thesis using assms by (auto simp: json_escape_char_def read_escape_def)
next
  case False
  then have e: "byte_of c < 32" "e = [CHR ''u'', CHR ''0'', CHR ''0'', hex_digit (byte_of c div 16), hex_digit (byte_of c mod 16)]"
    using assms by (auto simp: json_escape_char_def split: if_splits)
  then have "hex_val (hex_digit (byte_of c div 16)) = Some (byte_of c div 16)"
      "hex_val (hex_digit (byte_of c mod 16)) = Some (byte_of c mod 16)" "byte_of c div 16 < 8"
    by (auto simp: hex_val_digit)
  with e show ?thesis by (simp add: read_escape_def char_of_byte)
qed

lemma json_escape_cases:
  obtains e where "json_escape_char c = CHR 0x5C # e" "e \<noteq> []"
  | "json_escape_char c = [c]" "c \<noteq> CHR 0x22" "c \<noteq> CHR 0x5C" "32 \<le> byte_of c"
proof -
  have "(\<exists>e. json_escape_char c = CHR 0x5C # e \<and> e \<noteq> []) \<or>
      json_escape_char c = [c] \<and> c \<noteq> CHR 0x22 \<and> c \<noteq> CHR 0x5C \<and> 32 \<le> byte_of c"
    by (simp add: json_escape_char_def)
  with that show ?thesis by blast
qed

lemma read_string_escape:
  "length (json_escape s) < n \<Longrightarrow> read_string n (json_escape s @ CHR 0x22 # rest) = Some (s, rest)"
proof (induction s arbitrary: n)
  case Nil
  then show ?case by (cases n) (auto simp: json_escape_def)
next
  case (Cons c s)
  then obtain m where n: "n = Suc m" by (cases n) auto
  have split: "json_escape (c # s) = json_escape_char c @ json_escape s" by (simp add: json_escape_def)
  have IH: "read_string m (json_escape s @ CHR 0x22 # rest) = Some (s, rest)"
    using Cons n split by (cases rule: json_escape_cases [of c]) auto
  show ?case
    using IH read_escape_char by (cases rule: json_escape_cases [of c]) (auto simp: n split)
qed

lemma hex_digit_printable: "d < 16 \<Longrightarrow> 32 \<le> byte_of (hex_digit d)"
  by (simp add: hex_digit_def byte_of_def)

lemma json_escape_char_printable: "list_all (\<lambda>d. 32 \<le> byte_of d) (json_escape_char c)"
proof -
  have "32 \<le> byte_of (hex_digit (byte_of c mod 16))" by (rule hex_digit_printable) simp
  moreover have "32 \<le> byte_of (hex_digit (byte_of c div 16))"
    using byte_of_less [of c] by (intro hex_digit_printable) linarith
  ultimately show ?thesis by (simp add: json_escape_char_def) (simp add: byte_of_def)
qed

lemma json_quote_printable: "list_all (\<lambda>d. 32 \<le> byte_of d) (json_quote s)"
  using json_escape_char_printable
  by (auto simp: json_quote_def json_escape_def list_all_iff) (simp_all add: byte_of_def)

lemma show_nat_printable: "list_all (\<lambda>d. 32 \<le> byte_of d) (show_nat n)"
  by (auto simp: list_all_iff is_ascii_digit_def dest: show_nat_digits)

lemma show_int_printable: "list_all (\<lambda>d. 32 \<le> byte_of d) (show_int n)"
  using show_nat_printable by (simp add: show_int_def) (simp add: byte_of_def)

lemma comma_sep_printable:
  "list_all (list_all P) ts \<Longrightarrow> P (CHR '','') \<Longrightarrow> list_all P (comma_sep ts)"
  by (cases ts) (auto simp: comma_sep_Cons list_all_iff)

lemma print_json_printable: "list_all (\<lambda>d. 32 \<le> byte_of d) (print_json j)"
proof (induction j)
  case (JArr xs)
  then have "list_all (\<lambda>d. 32 \<le> byte_of d) (comma_sep (map print_json xs))"
    by (intro comma_sep_printable) (simp_all add: list_all_iff byte_of_def)
  then show ?case by (simp add: byte_of_def)
next
  case (JObj m)
  have "list_all (\<lambda>d. 32 \<le> byte_of d) (json_quote k @ '':'' @ print_json j)" if "(k, j) \<in> set m" for k j
    using JObj [OF that, of j] json_quote_printable [of k] by (simp add: byte_of_def)
  then have "list_all (\<lambda>d. 32 \<le> byte_of d) (comma_sep (map (\<lambda>kv. json_quote (fst kv) @ '':'' @ print_json (snd kv)) m))"
    by (intro comma_sep_printable) (auto simp: list_all_iff byte_of_def)
  then show ?case by (simp add: byte_of_def)
qed (simp_all add: show_int_printable json_quote_printable, simp_all add: byte_of_def)

lemma takeWhile_digits_show:
  assumes "rest = [] \<or> \<not> is_ascii_digit (hd rest)"
  shows "takeWhile is_ascii_digit (show_nat n @ rest) = show_nat n"
    and "dropWhile is_ascii_digit (show_nat n @ rest) = rest"
  using assms show_nat_digits by (cases rest; auto simp: takeWhile_append dropWhile_append3)+


declare read_string.simps [simp del]

definition not_digit :: "string \<Rightarrow> bool" where
  "not_digit rest \<longleftrightarrow> rest = [] \<or> \<not> is_ascii_digit (hd rest)"

lemma not_digit_seps [simp]: "not_digit (CHR '','' # s)" "not_digit (CHR '']'' # s)" "not_digit (CHR ''}'' # s)"
  by (simp_all add: not_digit_def is_ascii_digit_def byte_of_def)

lemma show_nat_head: "hd (show_nat n @ s) \<noteq> CHR ''-''" "is_ascii_digit (hd (show_nat n @ s))"
proof -
  have "hd (show_nat n @ s) \<in> set (show_nat n)" by (cases "show_nat n") auto
  then show "is_ascii_digit (hd (show_nat n @ s))" by (rule show_nat_digits)
  then show "hd (show_nat n @ s) \<noteq> CHR ''-''" by (auto simp: is_ascii_digit_def byte_of_def)
qed

lemma read_number_show: "not_digit rest \<Longrightarrow> read_number (show_int n @ rest) = Some (n, rest)"
  using takeWhile_digits_show [of rest] show_nat_head(1)
  by (simp add: read_number_def show_int_def not_digit_def Let_def)

lemma show_int_head:
  obtains c t where "show_int n = c # t" "c = CHR ''-'' \<or> is_ascii_digit c"
proof (cases "n < 0")
  case True
  then show ?thesis using that by (simp add: show_int_def)
next
  case False
  then show ?thesis using that show_nat_head(2) [of "nat n" "[]"]
    by (cases "show_nat (nat n)") (auto simp: show_int_def)
qed

lemma read_value_number:
  assumes "not_digit rest"
  shows "read_value (Suc n) (show_int i @ rest) = Some (JNum i, rest)"
proof -
  obtain c t where c: "show_int i = c # t" "c = CHR ''-'' \<or> is_ascii_digit c" by (rule show_int_head)
  then have "c \<notin> {CHR ''n'', CHR ''t'', CHR ''f'', CHR 0x22, CHR ''['', CHR ''{''}"
    by (auto simp: is_ascii_digit_def byte_of_def)
  then show ?thesis using read_number_show [OF assms, of i] c(1) by simp
qed

lemma read_string_quote:
  "length (json_escape s @ CHR 0x22 # rest) \<le> n \<Longrightarrow> read_string n (json_escape s @ CHR 0x22 # rest) = Some (s, rest)"
  by (rule read_string_escape) simp

lemma print_json_head: "print_json j \<noteq> []" "hd (print_json j @ s) \<noteq> CHR '']''"
proof -
  have "print_json j \<noteq> [] \<and> hd (print_json j @ s) \<noteq> CHR '']''"
  proof (cases j)
    case (JNum n)
    then show ?thesis by (cases rule: show_int_head [of n]) (auto simp: is_ascii_digit_def byte_of_def)
  qed (auto simp: json_quote_def)
  then show "print_json j \<noteq> []" "hd (print_json j @ s) \<noteq> CHR '']''" by auto
qed

lemma read_elems_print:
  assumes "\<And>x n rest. x \<in> set xs \<Longrightarrow> not_digit rest \<Longrightarrow> length (print_json x) \<le> n \<Longrightarrow>
      read_value n (print_json x @ rest) = Some (x, rest)"
    and "xs \<noteq> []" "length (comma_sep (map print_json xs)) < n"
  shows "read_elems n (comma_sep (map print_json xs) @ CHR '']'' # rest) = Some (xs, rest)"
  using assms
proof (induction xs arbitrary: n)
  case (Cons x xs)
  from Cons.prems(3) obtain m where n: "n = Suc m" by (cases n) auto
  show ?case
  proof (cases xs)
    case Nil
    then show ?thesis using Cons.prems n by simp
  next
    case (Cons y ys)
    with Cons.prems n have "length (print_json x) \<le> m" "length (comma_sep (map print_json xs)) < m"
      by auto
    then show ?thesis
      using Cons.prems(1) [of x "CHR '','' # comma_sep (map print_json xs) @ CHR '']'' # rest" m]
        Cons.IH [of m] Cons.prems(1) Cons n
      by simp
  qed
qed simp

abbreviation print_member :: "string \<times> Json \<Rightarrow> string" where
  "print_member kv \<equiv> json_quote (fst kv) @ '':'' @ print_json (snd kv)"

lemma read_members_print:
  assumes "\<And>k x n rest. (k, x) \<in> set m \<Longrightarrow> not_digit rest \<Longrightarrow> length (print_json x) \<le> n \<Longrightarrow>
      read_value n (print_json x @ rest) = Some (x, rest)"
    and "m \<noteq> []" "length (comma_sep (map print_member m)) < n"
  shows "read_members n (comma_sep (map print_member m) @ CHR ''}'' # rest) = Some (m, rest)"
  using assms
proof (induction m arbitrary: n)
  case (Cons kv m)
  obtain k x where kv: "kv = (k, x)" by (cases kv)
  from Cons.prems(3) obtain l where n: "n = Suc l" by (cases n) auto
  show ?case
  proof (cases m)
    case Nil
    then show ?thesis using Cons.prems kv n by (simp add: json_quote_def read_string_quote)
  next
    case (Cons y ys)
    with Cons.prems kv n have "length (print_json x) \<le> l" "length (comma_sep (map print_member m)) < l"
      by (auto simp: json_quote_def)
    moreover from this have "read_members l (comma_sep (map print_member m) @ CHR ''}'' # rest) = Some (m, rest)"
    proof (intro Cons.IH)
      fix k' x' n' rest'
      assume "(k', x') \<in> set m" "not_digit rest'" "length (print_json x') \<le> n'"
      then show "read_value n' (print_json x' @ rest') = Some (x', rest')" using Cons.prems(1) [of k'] by simp
    qed (simp_all add: Cons)
    ultimately show ?thesis
      using Cons.prems(1) [of k x "CHR '','' # comma_sep (map print_member m) @ CHR ''}'' # rest" l] Cons n kv
      by (simp add: json_quote_def read_string_quote)
  qed
qed simp

lemma read_print_json:
  "not_digit rest \<Longrightarrow> length (print_json j) \<le> n \<Longrightarrow> read_value n (print_json j @ rest) = Some (j, rest)"
proof (induction j arbitrary: n rest)
  case JNull
  then show ?case by (cases n) (auto simp: strip_def)
next
  case (JBool b)
  then show ?case by (cases n; cases b) (auto simp: strip_def)
next
  case (JNum i)
  obtain m where "n = Suc m" using JNum by (cases rule: show_int_head [of i]; cases n) auto
  then show ?case using read_value_number [OF JNum(1)] by simp
next
  case (JStr s)
  then show ?case by (cases n) (auto simp: json_quote_def read_string_quote)
next
  case (JArr xs)
  then obtain m where n: "n = Suc m" by (cases n) auto
  show ?case
  proof (cases xs)
    case (Cons y ys)
    have "hd (comma_sep (map print_json xs) @ CHR '']'' # rest) \<noteq> CHR '']''"
      using print_json_head(2) [of y] Cons by (cases ys) auto
    moreover have "read_elems m (comma_sep (map print_json xs) @ CHR '']'' # rest) = Some (xs, rest)"
      using JArr n Cons by (intro read_elems_print) auto
    ultimately show ?thesis using n by simp
  qed (simp add: n)
next
  case (JObj kvs)
  then obtain m where n: "n = Suc m" by (cases n) auto
  show ?case
  proof (cases kvs)
    case (Cons y ys)
    have "hd (comma_sep (map print_member kvs) @ CHR ''}'' # rest) \<noteq> CHR ''}''"
      using Cons by (cases ys) (auto simp: json_quote_def)
    moreover have "read_members m (comma_sep (map print_member kvs) @ CHR ''}'' # rest) = Some (kvs, rest)"
      using JObj n Cons by (intro read_members_print) auto
    ultimately show ?thesis using n by simp
  qed (simp add: n)
qed

section \<open>The encoder prints the value\<close>

lemma quote_opt_print: "quote_opt v = print_json (json_str_opt v)"
  by (simp add: quote_opt_def json_str_opt_def split: option.split)

lemma show_int_nat: "show_nat n = show_int (int n)"
  by (simp add: show_int_def)

lemma encode_single_op_print: "encode_single_op op r = map_option print_json (json_of_op op r)"
  by (cases op)
    (auto simp: encode_single_op_def json_of_op_def quote_opt_print show_int_nat number_opt_def json_str_opt_def
      option.map_comp comp_def split: option.split)

lemma encode_json_value_print:
  "encode_json_value segs r oe =
     map_option print_json
       (case segs of [OpSeg op] \<Rightarrow> json_of_op op r | _ \<Rightarrow> map_option JStr (render_value_segments segs r oe))"
  by (auto simp: encode_json_value_def encode_single_op_print option.map_comp comp_def
      split: list.split Segment.split)

lemma traverse_opt_map:
  assumes "\<And>x. x \<in> set xs \<Longrightarrow> f x = map_option h (g x)"
  shows "traverse_opt f xs = map_option (map h) (traverse_opt g xs)"
  using assms by (induction xs) (auto simp: option.map_comp comp_def split: option.split)

lemma render_into_print: "render_into v r oe = map_option print_json (json_of v r oe)"
proof (induction v)
  case (CArray xs)
  then have "traverse_opt (\<lambda>x. render_into x r oe) xs = map_option (map print_json) (traverse_opt (\<lambda>x. json_of x r oe) xs)"
    by (rule traverse_opt_map)
  then show ?case by (simp add: option.map_comp comp_def)
next
  case (CObject m)
  have "traverse_opt (\<lambda>kv. map_option (\<lambda>t. json_quote (fst kv) @ '':'' @ t) (render_into (snd kv) r oe)) m
      = map_option (map print_member) (traverse_opt (\<lambda>kv. map_option (\<lambda>j. (fst kv, j)) (json_of (snd kv) r oe)) m)"
    using CObject by (intro traverse_opt_map) (auto simp: option.map_comp comp_def)
  then show ?case by (simp add: option.map_comp comp_def)
qed (simp_all add: encode_json_value_print)

lemma json_of_op_total: "json_of_op op r \<noteq> None"
  using format_start_time_total [of "start_time r"] by (cases op) (auto simp: json_of_op_def)

lemma traverse_opt_total: "(\<And>x. x \<in> set xs \<Longrightarrow> f x \<noteq> None) \<Longrightarrow> traverse_opt f xs \<noteq> None"
  by (induction xs) (force split: option.split)+

lemma json_of_total: "json_of v r oe \<noteq> None"
proof (induction v)
  case (CLeaf segs)
  then show ?case
    using json_of_op_total render_value_segments_total [of segs r oe] by (auto split: list.split Segment.split)
next
  case (CArray xs)
  then show ?case using traverse_opt_total [of xs "\<lambda>x. json_of x r oe"] by auto
next
  case (CObject m)
  then show ?case
    using traverse_opt_total [of m "\<lambda>kv. map_option (\<lambda>j. (fst kv, j)) (json_of (snd kv) r oe)"] by fastforce
qed auto

text \<open>
  C27. A JSON access log writes, for every format and every record, one line: the rendering never panics, it ends in
  exactly one newline, no byte before that is a control character whatever the request carried, and the text before
  the newline reads back as the JSON value of the record, numbers, strings and nulls by the operator's type.
\<close>
theorem json_line_reads_back:
  "\<exists>j body. json_of (CObject (jf_map f)) r (jf_omit_empty f) = Some j \<and>
     json_render f r = Some (body @ [CHR 0x0A]) \<and> list_all (\<lambda>c. 32 \<le> byte_of c) body \<and>
     read_value (length body) body = Some (j, [])"
proof -
  obtain j where "json_of (CObject (jf_map f)) r (jf_omit_empty f) = Some j" using json_of_total by blast
  moreover from this have "json_render f r = Some (print_json j @ [CHR 0x0A])"
    by (simp only: json_render_def render_into_print option.map)
  moreover have "read_value (length (print_json j)) (print_json j) = Some (j, [])"
    using read_print_json [of "[]" j] by (simp add: not_digit_def)
  ultimately show ?thesis using print_json_printable by blast
qed

end
