(* ===== verification/Log_Filter.thy ===== *)
theory Log_Filter
  imports Log_Json
begin

text \<open>
  Which records an access log keeps: the \<open>AccessLogFilter\<close> schema and its validation (\<open>bootstrap.rs\<close>), its
  compilation to a \<open>LogFilter\<close> (\<open>compile_access_log_filter\<close> and \<open>compiled_log_format\<close> of \<open>hcm.rs\<close>), the
  predicate itself (\<open>filter.rs\<close>) and the file sink (\<open>file_sink.rs\<close>). A result \<open>None\<close> is a panic.
\<close>

section \<open>Schema (bootstrap.rs)\<close>

datatype ComparisonOp = OpEq | OpGe | OpLe

record RuntimeUInt32 =
  ru_default_value :: nat
  ru_runtime_key :: string

record ComparisonFilter =
  cmp_op :: ComparisonOp
  cmp_value :: RuntimeUInt32

datatype GrpcStatusToken = TokNum int | TokName string

record GrpcStatusFilter =
  gsf_statuses :: "GrpcStatusToken list"
  gsf_exclude :: bool

record MetadataFilter =
  mf_matcher :: "MetadataMatcher option"
  mf_match_if_key_not_found :: "bool option"

text \<open>The eight arms are optional fields; that exactly one is set is left to the validator.\<close>

datatype AccessLogFilter = AccessLogFilter
  (status_code_filter: "ComparisonFilter option")
  (response_flag_filter: "string list option")
  (header_filter: "HeaderMatcher option")
  (and_filter: "AccessLogFilter list option")
  (or_filter: "AccessLogFilter list option")
  (metadata_filter: "MetadataFilter option")
  (grpc_status_filter: "GrpcStatusFilter option")
  (not_health_check_filter: "unit option")

datatype JsonFormatValue =
    FNull
  | FBool bool
  | FFormat string
  | FArray "JsonFormatValue list"
  | FObject "(string \<times> JsonFormatValue) list"

record SubstitutionFormatString =
  text_format_source :: "string option"
  json_format :: "(string \<times> JsonFormatValue) list option"
  omit_empty_values :: bool

record FileAccessLog =
  fal_path :: string
  fal_log_format :: "SubstitutionFormatString option"

record AccessLog =
  al_name :: string
  al_typed_config :: FileAccessLog
  al_filter :: "AccessLogFilter option"

datatype AccessLogError =
    UnsupportedAccessLogType string
  | AmbiguousAccessLogFilter nat
  | EmptyStatusCodeFilterRuntimeKey
  | UnknownResponseFlag string
  | MatcherError ConfigError
  | InsufficientCompositeFilters nat
  | AccessLogMetadataMatcherInvalid string
  | UnknownGrpcStatus string
  | InvalidAccessLogPath
  | InvalidAccessLogFormat FormatParseError
  | AmbiguousLogFormat string

definition GRPC_STATUS_FILTER_NAMES :: "string list" where
  "GRPC_STATUS_FILTER_NAMES =
     [''OK'', ''CANCELED'', ''UNKNOWN'', ''INVALID_ARGUMENT'', ''DEADLINE_EXCEEDED'', ''NOT_FOUND'',
      ''ALREADY_EXISTS'', ''PERMISSION_DENIED'', ''RESOURCE_EXHAUSTED'', ''FAILED_PRECONDITION'', ''ABORTED'',
      ''OUT_OF_RANGE'', ''UNIMPLEMENTED'', ''INTERNAL'', ''UNAVAILABLE'', ''DATA_LOSS'', ''UNAUTHENTICATED'']"

fun find_index :: "('a \<Rightarrow> bool) \<Rightarrow> 'a list \<Rightarrow> nat option" where
  "find_index P [] = None"
| "find_index P (x # xs) = (if P x then Some 0 else map_option Suc (find_index P xs))"

definition as_code :: "int \<Rightarrow> nat option" where
  "as_code n = (if 0 \<le> n \<and> n \<le> 16 then Some (nat n) else None)"

definition resolve_grpc_status_token :: "GrpcStatusToken \<Rightarrow> nat option" where
  "resolve_grpc_status_token tok =
     (case tok of
        TokNum n \<Rightarrow> as_code n
      | TokName s \<Rightarrow>
          (case parse_signed 64 (str_trim s) of
             Some n \<Rightarrow> as_code n
           | None \<Rightarrow> find_index (\<lambda>n. eq_ignore_ascii_case n s) GRPC_STATUS_FILTER_NAMES))"

definition RESPONSE_FLAG_TOKENS :: "string list" where
  "RESPONSE_FLAG_TOKENS =
     [''LH'', ''UH'', ''UT'', ''LR'', ''UR'', ''UF'', ''UC'', ''UO'', ''NR'', ''DI'', ''FI'', ''RL'', ''UAEX'',
      ''RLSE'', ''DC'', ''URX'', ''SI'', ''IH'', ''DPE'', ''UMSDR'', ''RFCF'', ''NFCF'', ''DT'', ''UPE'', ''NC'',
      ''OM'', ''DF'', ''DO'', ''DR'']"

section \<open>Validation (bootstrap.rs)\<close>

definition validate_access_log_metadata_matcher ::
  "(string \<Rightarrow> (string \<Rightarrow> bool) option) \<Rightarrow> MetadataMatcher \<Rightarrow> AccessLogError + MetadataMatcher" where
  "validate_access_log_metadata_matcher rx m =
     (if mm_filter m = [] then Inl (AccessLogMetadataMatcherInvalid ''metadata matcher filter must not be empty'')
      else case mm_path m of
        [key] \<Rightarrow>
          if key = [] then Inl (AccessLogMetadataMatcherInvalid ''metadata matcher path segment key must not be empty'')
          else (case compile_value_matcher rx (mm_value m) of
                  Inl e \<Rightarrow> Inl (MatcherError e) | Inr v \<Rightarrow> Inr (m\<lparr>mm_value := v\<rparr>))
      | _ \<Rightarrow> Inl (AccessLogMetadataMatcherInvalid ''metadata matcher path must have exactly one segment''))"

definition set_arms :: "AccessLogFilter \<Rightarrow> nat" where
  "set_arms f =
     length (filter id [status_code_filter f \<noteq> None, response_flag_filter f \<noteq> None, header_filter f \<noteq> None,
       and_filter f \<noteq> None, or_filter f \<noteq> None, metadata_filter f \<noteq> None, grpc_status_filter f \<noteq> None,
       not_health_check_filter f \<noteq> None])"

definition on_opt :: "('a \<Rightarrow> 'e + 'b) \<Rightarrow> 'a option \<Rightarrow> 'e + 'b option" where
  "on_opt v x = (case x of None \<Rightarrow> Inr None | Some a \<Rightarrow> (case v a of Inl e \<Rightarrow> Inl e | Inr b \<Rightarrow> Inr (Some b)))"

lemma on_opt_cong [fundef_cong]:
  "x = y \<Longrightarrow> (\<And>a. y = Some a \<Longrightarrow> f a = g a) \<Longrightarrow> on_opt f x = on_opt g y"
  by (auto simp: on_opt_def split: option.split)

definition check_comparison :: "ComparisonFilter \<Rightarrow> AccessLogError + ComparisonFilter" where
  "check_comparison c =
     (if ru_runtime_key (cmp_value c) = [] then Inl EmptyStatusCodeFilterRuntimeKey else Inr c)"

definition check_flags :: "string list \<Rightarrow> AccessLogError + string list" where
  "check_flags flags =
     (case find (\<lambda>t. t \<notin> set RESPONSE_FLAG_TOKENS) flags of Some t \<Rightarrow> Inl (UnknownResponseFlag t) | None \<Rightarrow> Inr flags)"

definition check_header :: "(string \<Rightarrow> (string \<Rightarrow> bool) option) \<Rightarrow> HeaderMatcher \<Rightarrow> AccessLogError + HeaderMatcher" where
  "check_header rx hm = (case validate_header_matcher rx hm of Inl e \<Rightarrow> Inl (MatcherError e) | Inr hm' \<Rightarrow> Inr hm')"

definition check_metadata :: "(string \<Rightarrow> (string \<Rightarrow> bool) option) \<Rightarrow> MetadataFilter \<Rightarrow> AccessLogError + MetadataFilter" where
  "check_metadata rx mf =
     (case on_opt (validate_access_log_metadata_matcher rx) (mf_matcher mf) of
        Inl e \<Rightarrow> Inl e | Inr m \<Rightarrow> Inr (mf\<lparr>mf_matcher := m\<rparr>))"

definition token_text :: "GrpcStatusToken \<Rightarrow> string" where
  "token_text t = (case t of TokNum n \<Rightarrow> show_int n | TokName s \<Rightarrow> s)"

definition check_statuses :: "GrpcStatusFilter \<Rightarrow> AccessLogError + GrpcStatusFilter" where
  "check_statuses g =
     (case find (\<lambda>t. resolve_grpc_status_token t = None) (gsf_statuses g) of
        Some t \<Rightarrow> Inl (UnknownGrpcStatus (token_text t)) | None \<Rightarrow> Inr g)"

text \<open>The value is the filter with the regexes of its matchers compiled in place.\<close>

fun validate_access_log_filter ::
  "(string \<Rightarrow> (string \<Rightarrow> bool) option) \<Rightarrow> AccessLogFilter \<Rightarrow> AccessLogError + AccessLogFilter" where
  "validate_access_log_filter rx (AccessLogFilter sc rf hf af orf mf gs nh) =
     (let arms = set_arms (AccessLogFilter sc rf hf af orf mf gs nh) in
      if arms \<noteq> 1 then Inl (AmbiguousAccessLogFilter arms)
      else case on_opt check_comparison sc of Inl e \<Rightarrow> Inl e | Inr sc' \<Rightarrow>
      (case on_opt check_flags rf of Inl e \<Rightarrow> Inl e | Inr rf' \<Rightarrow>
      (case on_opt (check_header rx) hf of Inl e \<Rightarrow> Inl e | Inr hf' \<Rightarrow>
      (case on_opt (\<lambda>fs. if length fs < 2 then Inl (InsufficientCompositeFilters (length fs))
                         else traverse (validate_access_log_filter rx) fs) af of Inl e \<Rightarrow> Inl e | Inr af' \<Rightarrow>
      (case on_opt (\<lambda>fs. if length fs < 2 then Inl (InsufficientCompositeFilters (length fs))
                         else traverse (validate_access_log_filter rx) fs) orf of Inl e \<Rightarrow> Inl e | Inr or' \<Rightarrow>
      (case on_opt (check_metadata rx) mf of Inl e \<Rightarrow> Inl e | Inr mf' \<Rightarrow>
      (case on_opt check_statuses gs of Inl e \<Rightarrow> Inl e | Inr gs' \<Rightarrow>
        Inr (AccessLogFilter sc' rf' hf' af' or' mf' gs' nh))))))))"


fun validate_json_format_value :: "JsonFormatValue \<Rightarrow> AccessLogError + unit" where
  "validate_json_format_value (FFormat s) =
     (case parse_format s of Inl e \<Rightarrow> Inl (InvalidAccessLogFormat e) | Inr _ \<Rightarrow> Inr ())"
| "validate_json_format_value (FObject m) =
     (case traverse (\<lambda>kv. validate_json_format_value (snd kv)) m of Inl e \<Rightarrow> Inl e | Inr _ \<Rightarrow> Inr ())"
| "validate_json_format_value (FArray xs) =
     (case traverse validate_json_format_value xs of Inl e \<Rightarrow> Inl e | Inr _ \<Rightarrow> Inr ())"
| "validate_json_format_value (FBool b) = Inr ()"
| "validate_json_format_value FNull = Inr ()"

definition validate_log_format :: "SubstitutionFormatString \<Rightarrow> AccessLogError + unit" where
  "validate_log_format fmt =
     (case (text_format_source fmt, json_format fmt) of
        (Some s, None) \<Rightarrow> (case parse_format s of Inl e \<Rightarrow> Inl (InvalidAccessLogFormat e) | Inr _ \<Rightarrow> Inr ())
      | (None, Some m) \<Rightarrow> (case traverse (\<lambda>kv. validate_json_format_value (snd kv)) m of Inl e \<Rightarrow> Inl e | Inr _ \<Rightarrow> Inr ())
      | (Some _, Some _) \<Rightarrow> Inl (AmbiguousLogFormat ''both text_format_source and json_format are set'')
      | (None, None) \<Rightarrow> Inl (AmbiguousLogFormat ''neither text_format_source nor json_format is set''))"

definition validate_access_log ::
  "(string \<Rightarrow> (string \<Rightarrow> bool) option) \<Rightarrow> AccessLog \<Rightarrow> AccessLogError + AccessLog" where
  "validate_access_log rx entry =
     (if al_name entry \<noteq> ''envoy.access_loggers.file'' then Inl (UnsupportedAccessLogType (al_name entry))
      else case on_opt (validate_access_log_filter rx) (al_filter entry) of
        Inl e \<Rightarrow> Inl e
      | Inr f \<Rightarrow>
          if fal_path (al_typed_config entry) = [] then Inl InvalidAccessLogPath
          else (case on_opt validate_log_format (fal_log_format (al_typed_config entry)) of
                  Inl e \<Rightarrow> Inl e | Inr _ \<Rightarrow> Inr (entry\<lparr>al_filter := f\<rparr>)))"

definition validate_access_logs ::
  "(string \<Rightarrow> (string \<Rightarrow> bool) option) \<Rightarrow> AccessLog list \<Rightarrow> AccessLogError + AccessLog list" where
  "validate_access_logs rx logs = traverse (validate_access_log rx) logs"

section \<open>The compiled predicate (filter.rs)\<close>

datatype LogFilter =
    LfStatusCode ComparisonOp nat
  | LfResponseFlag "string list"
  | LfHeader HeaderMatcher
  | LfAnd "LogFilter list"
  | LfOr "LogFilter list"
  | LfMetadata "MetadataMatcher option" bool
  | LfGrpcStatus "nat list" bool
  | LfNotHealthCheck

text \<open>What a filter may look at.\<close>

record log_context =
  lc_status :: nat
  lc_flags :: string
  lc_headers :: headers
  lc_metadata :: dynamic_metadata
  lc_grpc_code :: nat
  lc_is_health_check :: bool

definition compare :: "ComparisonOp \<Rightarrow> nat \<Rightarrow> nat \<Rightarrow> bool" where
  "compare op s threshold = (case op of OpEq \<Rightarrow> s = threshold | OpGe \<Rightarrow> threshold \<le> s | OpLe \<Rightarrow> s \<le> threshold)"

fun filter_should_log :: "LogFilter \<Rightarrow> log_context \<Rightarrow> bool option" where
  "filter_should_log (LfStatusCode op threshold) c = Some (compare op (lc_status c) threshold)"
| "filter_should_log (LfResponseFlag flags) c =
     Some (if flags = [] then lc_flags c \<noteq> ''-'' else lc_flags c \<in> set flags)"
| "filter_should_log (LfHeader hm) c = header_matches hm (lc_headers c)"
| "filter_should_log (LfAnd fs) c = all_opt (\<lambda>f. filter_should_log f c) fs"
| "filter_should_log (LfOr fs) c = any_opt (\<lambda>f. filter_should_log f c) fs"
| "filter_should_log (LfMetadata m not_found) c =
     (case m of
        None \<Rightarrow> Some not_found
      | Some mm \<Rightarrow>
          (case metadata_matches mm (lc_metadata c) of
             None \<Rightarrow> None | Some None \<Rightarrow> Some not_found | Some (Some b) \<Rightarrow> Some b))"
| "filter_should_log (LfGrpcStatus codes exclude) c = Some ((lc_grpc_code c \<in> set codes) \<noteq> exclude)"
| "filter_should_log LfNotHealthCheck c = Some (\<not> lc_is_health_check c)"

section \<open>Compilation (hcm.rs)\<close>

text \<open>
  Every arm of the match has exactly one field set; anything else is the \<open>unreachable!\<close>, and an unresolved
  status token is a failed \<open>expect\<close>.
\<close>

fun compile_access_log_filter :: "AccessLogFilter \<Rightarrow> LogFilter option" where
  "compile_access_log_filter (AccessLogFilter sc rf hf af orf mf gs nh) =
     (if set_arms (AccessLogFilter sc rf hf af orf mf gs nh) \<noteq> 1 then None
      else case sc of Some c \<Rightarrow> Some (LfStatusCode (cmp_op c) (ru_default_value (cmp_value c))) | None \<Rightarrow>
      (case rf of Some flags \<Rightarrow> Some (LfResponseFlag flags) | None \<Rightarrow>
      (case hf of Some hm \<Rightarrow> Some (LfHeader hm) | None \<Rightarrow>
      (case af of Some fs \<Rightarrow> map_option LfAnd (traverse_opt compile_access_log_filter fs) | None \<Rightarrow>
      (case orf of Some fs \<Rightarrow> map_option LfOr (traverse_opt compile_access_log_filter fs) | None \<Rightarrow>
      (case mf of Some m \<Rightarrow> Some (LfMetadata (mf_matcher m) (unwrap_or (mf_match_if_key_not_found m) True)) | None \<Rightarrow>
      (case gs of
         Some g \<Rightarrow>
           map_option (\<lambda>codes. LfGrpcStatus codes (gsf_exclude g)) (traverse_opt resolve_grpc_status_token (gsf_statuses g))
       | None \<Rightarrow> Some LfNotHealthCheck)))))))"

fun json_format_value_to_input :: "JsonFormatValue \<Rightarrow> JsonValueInput" where
  "json_format_value_to_input FNull = InNull"
| "json_format_value_to_input (FBool b) = InBool b"
| "json_format_value_to_input (FFormat s) = InFormat s"
| "json_format_value_to_input (FArray xs) = InArray (map json_format_value_to_input xs)"
| "json_format_value_to_input (FObject m) = InObject (map (\<lambda>kv. (fst kv, json_format_value_to_input (snd kv))) m)"

definition default_log_format :: "(FormatParseError + LogFormat) option" where
  "default_log_format = map_option (\<lambda>f. Inr (TextFormat f)) default_format"

definition compiled_log_format :: "FileAccessLog \<Rightarrow> (FormatParseError + LogFormat) option" where
  "compiled_log_format cfg =
     (case fal_log_format cfg of
        None \<Rightarrow> default_log_format
      | Some s \<Rightarrow>
          (case (text_format_source s, json_format s) of
             (Some inl, _) \<Rightarrow>
               Some (case from_inline inl of
                 Inl e \<Rightarrow> Inl e | Inr f \<Rightarrow> Inr (TextFormat (with_omit_empty f (omit_empty_values s))))
           | (None, Some m) \<Rightarrow>
               Some (case from_map (map (\<lambda>kv. (fst kv, json_format_value_to_input (snd kv))) m) of
                 Inl e \<Rightarrow> Inl e | Inr f \<Rightarrow> Inr (JsonFormat (f\<lparr>jf_omit_empty := omit_empty_values s\<rparr>)))
           | (None, None) \<Rightarrow> default_log_format))"

section \<open>The sink (file_sink.rs)\<close>

text \<open>The file is what has been appended to it; \<open>write_ok\<close> is whether the file system takes the write.\<close>

record FileSink =
  fs_path :: string
  fs_handle :: string
  fs_format :: LogFormat
  fs_filter :: "LogFilter option"

definition sink_should_log :: "FileSink \<Rightarrow> log_context \<Rightarrow> bool option" where
  "sink_should_log sink c = (case fs_filter sink of Some f \<Rightarrow> filter_should_log f c | None \<Rightarrow> Some True)"

definition sink_emit :: "FileSink \<Rightarrow> AccessLogRecord \<Rightarrow> bool \<Rightarrow> (bool \<times> FileSink) option" where
  "sink_emit sink r write_ok =
     (case log_render (fs_format sink) r of
        None \<Rightarrow> None
      | Some line \<Rightarrow> Some (if write_ok then (True, sink\<lparr>fs_handle := fs_handle sink @ line\<rparr>) else (False, sink)))"

text \<open>
  \<open>open_file path\<close> is what the file holds when it is opened for appending, or \<open>None\<close> when it cannot be opened.
\<close>

datatype SinkError = AccessLogOpen | AccessLogFormat FormatParseError

definition open_sink :: "(string \<Rightarrow> string option) \<Rightarrow> AccessLog \<Rightarrow> (SinkError + FileSink) option" where
  "open_sink open_file entry =
     (let cfg = al_typed_config entry;
          compiled = (case al_filter entry of None \<Rightarrow> Some None | Some f \<Rightarrow> map_option Some (compile_access_log_filter f)) in
      case compiled of
        None \<Rightarrow> None
      | Some flt \<Rightarrow>
          (case compiled_log_format cfg of
             None \<Rightarrow> None
           | Some (Inl e) \<Rightarrow> Some (Inl (AccessLogFormat e))
           | Some (Inr fmt) \<Rightarrow>
               Some (case open_file (fal_path cfg) of
                 None \<Rightarrow> Inl AccessLogOpen
               | Some content \<Rightarrow>
                   Inr \<lparr>fs_path = fal_path cfg, fs_handle = content, fs_format = fmt, fs_filter = flt\<rparr>)))"

section \<open>What a filter configuration means\<close>

text \<open>A record is kept when every arm that is set accepts it.\<close>

fun selects :: "AccessLogFilter \<Rightarrow> log_context \<Rightarrow> bool" where
  "selects (AccessLogFilter sc rf hf af orf mf gs nh) c \<longleftrightarrow>
     (case sc of None \<Rightarrow> True | Some cmp \<Rightarrow> compare (cmp_op cmp) (lc_status c) (ru_default_value (cmp_value cmp))) \<and>
     (case rf of None \<Rightarrow> True | Some flags \<Rightarrow> if flags = [] then lc_flags c \<noteq> ''-'' else lc_flags c \<in> set flags) \<and>
     (case hf of None \<Rightarrow> True | Some hm \<Rightarrow> header_matches hm (lc_headers c) = Some True) \<and>
     (case af of None \<Rightarrow> True | Some fs \<Rightarrow> \<forall>f \<in> set fs. selects f c) \<and>
     (case orf of None \<Rightarrow> True | Some fs \<Rightarrow> \<exists>f \<in> set fs. selects f c) \<and>
     (case mf of None \<Rightarrow> True
      | Some m \<Rightarrow>
          (case Option.bind (mf_matcher m) (\<lambda>mm. the (metadata_matches mm (lc_metadata c))) of
             Some b \<Rightarrow> b | None \<Rightarrow> mf_match_if_key_not_found m \<noteq> Some False)) \<and>
     (case gs of None \<Rightarrow> True
      | Some g \<Rightarrow> (\<exists>t \<in> set (gsf_statuses g). resolve_grpc_status_token t = Some (lc_grpc_code c)) \<noteq> gsf_exclude g) \<and>
     (case nh of None \<Rightarrow> True | Some _ \<Rightarrow> \<not> lc_is_health_check c)"


section \<open>A validated filter compiles and decides as configured\<close>

lemma set_arms_cases:
  assumes "set_arms f = 1"
  obtains c where "f = AccessLogFilter (Some c) None None None None None None None"
  | flags where "f = AccessLogFilter None (Some flags) None None None None None None"
  | hm where "f = AccessLogFilter None None (Some hm) None None None None None"
  | fs where "f = AccessLogFilter None None None (Some fs) None None None None"
  | fs where "f = AccessLogFilter None None None None (Some fs) None None None"
  | mf where "f = AccessLogFilter None None None None None (Some mf) None None"
  | g where "f = AccessLogFilter None None None None None None (Some g) None"
  | "f = AccessLogFilter None None None None None None None (Some ())"
proof (cases f)
  case (AccessLogFilter sc rf hf af orf mf gs nh)
  with assms that show ?thesis
    by (cases sc; cases rf; cases hf; cases af; cases orf; cases mf; cases gs; cases nh)
      (simp_all add: set_arms_def)
qed

lemma validate_arms: "validate_access_log_filter rx f = Inr f' \<Longrightarrow> set_arms f = 1"
  by (cases f) (auto simp: Let_def split: if_splits)

lemma validate_value_ready:
  assumes "compile_value_matcher rx vm = Inr vm'"
  shows "value_matches vm' v \<noteq> None"
  using assms string_matches_ready compile_string_matcher_ready
  by (fastforce simp: compile_value_matcher_def value_matches_def split: ValueMatcher.splits sum.splits)

lemma validated_metadata_ready:
  assumes "validate_access_log_metadata_matcher rx m = Inr m'"
  shows "metadata_matches m' md \<noteq> None"
proof -
  obtain v where "compile_value_matcher rx (mm_value m) = Inr v" "m' = m\<lparr>mm_value := v\<rparr>"
    using assms by (auto simp: validate_access_log_metadata_matcher_def split: if_splits list.splits sum.splits)
  then show ?thesis using validate_value_ready
    by (fastforce simp: metadata_matches_def split: list.split option.split)
qed

definition decides :: "AccessLogFilter \<Rightarrow> LogFilter \<Rightarrow> bool" where
  "decides f lf \<longleftrightarrow> compile_access_log_filter f = Some lf \<and> (\<forall>c. filter_should_log lf c = Some (selects f c))"

lemma decides_compile: "decides f lf \<Longrightarrow> compile_access_log_filter f = Some lf"
  by (simp add: decides_def)

lemma traverse_decides:
  assumes "traverse (validate_access_log_filter rx) fs = Inr fs'"
    and "\<And>f f'. f \<in> set fs \<Longrightarrow> validate_access_log_filter rx f = Inr f' \<Longrightarrow> \<exists>lf. decides f' lf"
  shows "\<exists>lfs. traverse_opt compile_access_log_filter fs' = Some lfs \<and> list_all2 decides fs' lfs"
  using assms
proof (induction fs arbitrary: fs')
  case (Cons f fs)
  then obtain f' gs where f': "validate_access_log_filter rx f = Inr f'" "traverse (validate_access_log_filter rx) fs = Inr gs"
      "fs' = f' # gs"
    by (auto split: sum.splits)
  obtain lf where "decides f' lf" using Cons.prems(2) [of f] f'(1) by auto
  moreover obtain lfs where "traverse_opt compile_access_log_filter gs = Some lfs" "list_all2 decides gs lfs"
    using Cons.IH [OF f'(2)] Cons.prems(2) by auto
  ultimately show ?case using f'(3) by (simp add: decides_compile)
qed simp

lemma decides_all: "list_all2 decides fs lfs \<Longrightarrow> all_opt (\<lambda>lf. filter_should_log lf c) lfs = Some (\<forall>f \<in> set fs. selects f c)"
  by (induction fs lfs rule: list_all2_induct) (auto simp: decides_def split: bool.split)

lemma decides_any: "list_all2 decides fs lfs \<Longrightarrow> any_opt (\<lambda>lf. filter_should_log lf c) lfs = Some (\<exists>f \<in> set fs. selects f c)"
  by (induction fs lfs rule: list_all2_induct) (auto simp: decides_def split: bool.split)

lemma resolve_all:
  "find (\<lambda>t. resolve_grpc_status_token t = None) ts = None \<Longrightarrow>
   \<exists>codes. traverse_opt resolve_grpc_status_token ts = Some codes \<and>
     set codes = {n. \<exists>t \<in> set ts. resolve_grpc_status_token t = Some n}"
  by (induction ts) (auto split: if_splits)

lemmas validate_arm_simps = Let_def set_arms_def on_opt_def

lemma validated_decides: "validate_access_log_filter rx f = Inr f' \<Longrightarrow> \<exists>lf. decides f' lf"
proof (induction f arbitrary: f')
  case (AccessLogFilter sc rf hf af orf mf gs nh)
  let ?f = "AccessLogFilter sc rf hf af orf mf gs nh"
  from AccessLogFilter.prems have v: "validate_access_log_filter rx ?f = Inr f'" .
  from validate_arms [OF v] show ?case
  proof (cases rule: set_arms_cases)
    case (1 c)
    then show ?thesis using v
      by (auto simp: validate_arm_simps check_comparison_def decides_def split: if_splits)
  next
    case (2 flags)
    then show ?thesis using v
      by (auto simp: validate_arm_simps check_flags_def decides_def split: option.splits)
  next
    case (3 hm)
    then obtain hm' where "validate_header_matcher rx hm = Inr hm'" "f' = AccessLogFilter None None (Some hm') None None None None None"
      using v by (auto simp: validate_arm_simps check_header_def split: sum.splits)
    moreover from this(1) have "header_matches hm' hs = Some (header_matches hm' hs = Some True)" for hs
      using header_matches_ready [of hm' hs] validate_header_matcher_ready [of rx hm hm'] by auto
    ultimately have "decides f' (LfHeader hm')" by (simp add: decides_def set_arms_def)
    then show ?thesis ..
  next
    case (4 fs)
    then obtain fs' where fs': "traverse (validate_access_log_filter rx) fs = Inr fs'"
        "f' = AccessLogFilter None None None (Some fs') None None None None"
      using v by (auto simp: validate_arm_simps split: sum.splits if_splits)
    obtain lfs where lfs: "traverse_opt compile_access_log_filter fs' = Some lfs" "list_all2 decides fs' lfs"
      using traverse_decides [OF fs'(1)] AccessLogFilter.IH(1) [of fs] 4 by auto
    then have "decides f' (LfAnd lfs)"
      by (subst decides_def) (simp add: fs'(2) set_arms_def decides_all [OF lfs(2)])
    then show ?thesis ..
  next
    case (5 fs)
    then obtain fs' where fs': "traverse (validate_access_log_filter rx) fs = Inr fs'"
        "f' = AccessLogFilter None None None None (Some fs') None None None"
      using v by (auto simp: validate_arm_simps split: sum.splits if_splits)
    obtain lfs where lfs: "traverse_opt compile_access_log_filter fs' = Some lfs" "list_all2 decides fs' lfs"
      using traverse_decides [OF fs'(1)] AccessLogFilter.IH(2) [of fs] 5 by auto
    then have "decides f' (LfOr lfs)"
      by (subst decides_def) (simp add: fs'(2) set_arms_def decides_any [OF lfs(2)])
    then show ?thesis ..
  next
    case (6 m)
    then obtain m' where m': "check_metadata rx m = Inr m'" "f' = AccessLogFilter None None None None None (Some m') None None"
      using v by (auto simp: validate_arm_simps split: sum.splits)
    then have "mf_matcher m' = Some mm \<Longrightarrow> \<exists>b. metadata_matches mm md = Some b" for mm md
      using validated_metadata_ready by (fastforce simp: check_metadata_def on_opt_def split: sum.splits option.splits)
    then show ?thesis
      using m'(2) by (cases "mf_matcher m'") (fastforce simp: decides_def set_arms_def unwrap_or_def split: option.split)+
  next
    case (7 g)
    then have "f' = ?f" "find (\<lambda>t. resolve_grpc_status_token t = None) (gsf_statuses g) = None"
      using v by (auto simp: validate_arm_simps check_statuses_def split: option.splits)
    with 7 resolve_all [of "gsf_statuses g"] show ?thesis by (auto simp: decides_def set_arms_def)
  next
    case 8
    then show ?thesis using v by (auto simp: validate_arm_simps decides_def)
  qed
qed

text \<open>
  C28. An access-log filter the validator accepts compiles without reaching the \<open>unreachable!\<close> or the \<open>expect\<close> of the
  compiler, and the compiled predicate never panics and keeps exactly the records its configuration selects: every
  child of an \<open>and_filter\<close>, some child of an \<open>or_filter\<close>, at any nesting.
\<close>
theorem access_log_filter_decides:
  assumes "validate_access_log_filter rx f = Inr f'"
  shows "\<exists>lf. compile_access_log_filter f' = Some lf \<and> (\<forall>c. filter_should_log lf c = Some (selects f' c))"
  using validated_decides [OF assms] by (simp add: decides_def)

lemma access_log_filter_decides_witness:
  "\<exists>lf. compile_access_log_filter
        (AccessLogFilter None None None None (Some
          [AccessLogFilter None (Some [''UH'']) None None None None None None,
           AccessLogFilter None None None None None None None (Some ())]) None None None) = Some lf \<and>
      (\<forall>c. filter_should_log lf c = Some (selects
        (AccessLogFilter None None None None (Some
          [AccessLogFilter None (Some [''UH'']) None None None None None None,
           AccessLogFilter None None None None None None None (Some ())]) None None None) c))"
  by (rule access_log_filter_decides [where rx = "\<lambda>_. None" and
      f = "AccessLogFilter None None None None (Some
          [AccessLogFilter None (Some [''UH'']) None None None None None None,
           AccessLogFilter None None None None None None None (Some ())]) None None None"])
    (simp add: validate_arm_simps check_flags_def RESPONSE_FLAG_TOKENS_def)


section \<open>A validated access log opens and writes\<close>

lemma traverse_total:
  "(\<And>x. x \<in> set xs \<Longrightarrow> \<exists>y. f x = Inr y) \<Longrightarrow> \<exists>ys. traverse f xs = Inr ys"
  by (induction xs) (auto, fastforce)

lemma traverse_each: "traverse f xs = Inr ys \<Longrightarrow> x \<in> set xs \<Longrightarrow> \<exists>y. f x = Inr y"
  by (induction xs arbitrary: ys) (auto split: sum.splits)

lemma validated_json_compiles:
  "validate_json_format_value v = Inr () \<Longrightarrow> \<exists>c. compile_json (json_format_value_to_input v) = Inr c"
proof (induction v)
  case (FArray xs)
  then have "\<exists>ys. traverse compile_json (map json_format_value_to_input xs) = Inr ys"
    by (intro traverse_total) (auto split: sum.splits dest: traverse_each)
  then show ?case by auto
next
  case (FObject m)
  have "\<exists>ys. traverse (\<lambda>kv. case compile_json (snd kv) of Inl e \<Rightarrow> Inl e | Inr v \<Rightarrow> Inr (fst kv, v))
      (map (\<lambda>kv. (fst kv, json_format_value_to_input (snd kv))) m) = Inr ys"
  proof (intro traverse_total)
    fix x
    assume "x \<in> set (map (\<lambda>kv. (fst kv, json_format_value_to_input (snd kv))) m)"
    then obtain kv where kv: "kv \<in> set m" "x = (fst kv, json_format_value_to_input (snd kv))" by auto
    from FObject.prems have "validate_json_format_value (snd kv) = Inr ()"
      using traverse_each [of "\<lambda>kv. validate_json_format_value (snd kv)" m _ kv] kv(1) by (auto split: sum.splits)
    then have "\<exists>c. compile_json (snd x) = Inr c" using FObject.IH [OF kv(1)] kv(2) by (cases kv) auto
    then show "\<exists>y. (case compile_json (snd x) of Inl e \<Rightarrow> Inl e | Inr v \<Rightarrow> Inr (fst x, v)) = Inr y" by auto
  qed
  then show ?case by auto
qed (auto split: sum.splits)

lemma default_log_format_ok: "\<exists>f. default_log_format = Some (Inr (TextFormat f))"
  by (simp add: default_log_format_def default_format_def default_segments)

lemma validated_format_compiles:
  assumes "validate_log_format s = Inr ()" "fal_log_format cfg = Some s"
  shows "\<exists>fmt. compiled_log_format cfg = Some (Inr fmt)"
proof (cases "text_format_source s")
  case (Some inl)
  then show ?thesis using assms
    by (auto simp: compiled_log_format_def validate_log_format_def from_inline_def split: option.splits sum.splits)
next
  case None
  then obtain m where m: "json_format s = Some m" "traverse (\<lambda>kv. validate_json_format_value (snd kv)) m \<noteq> Inl e" for e
    using assms by (auto simp: validate_log_format_def split: option.splits sum.splits)
  then obtain us where us: "traverse (\<lambda>kv. validate_json_format_value (snd kv)) m = Inr us"
    by (cases "traverse (\<lambda>kv. validate_json_format_value (snd kv)) m") auto
  have "validate_json_format_value (FObject m) = Inr ()" using us by simp
  from validated_json_compiles [OF this]
  have "\<exists>m'. compile_map (map (\<lambda>kv. (fst kv, json_format_value_to_input (snd kv))) m) = Inr m'"
    by (auto simp: compile_map_def split: sum.splits)
  then show ?thesis using None m(1) assms(2) by (auto simp: compiled_log_format_def from_map_def)
qed

lemma log_render_total: "\<exists>line. log_render fmt r = Some line"
  using render_value_segments_total json_of_total
  by (cases fmt) (auto simp: log_render_def format_render_def json_render_def render_into_print simp del: json_of.simps render_into.simps)

text \<open>
  An access log the validator accepts always opens: building its sink neither panics nor fails on its format or its
  filter, only on the file. The sink then decides on every record and appends exactly the rendered line when the
  write succeeds, leaving the file as it was when it fails.
\<close>
theorem validated_access_log_opens:
  assumes "validate_access_log rx e = Inr e'"
  shows "\<exists>fmt flt.
      open_sink open_file e' = Some (case open_file (fal_path (al_typed_config e)) of
        None \<Rightarrow> Inl AccessLogOpen
      | Some content \<Rightarrow>
          Inr \<lparr>fs_path = fal_path (al_typed_config e), fs_handle = content, fs_format = fmt, fs_filter = flt\<rparr>) \<and>
      (\<forall>sink c r. fs_format sink = fmt \<longrightarrow> fs_filter sink = flt \<longrightarrow>
         sink_should_log sink c \<noteq> None \<and>
         (\<exists>line. log_render fmt r = Some line \<and> sink_emit sink r False = Some (False, sink) \<and>
            sink_emit sink r True = Some (True, sink\<lparr>fs_handle := fs_handle sink @ line\<rparr>)))"
proof -
  obtain f where e': "on_opt (validate_access_log_filter rx) (al_filter e) = Inr f" "e' = e\<lparr>al_filter := f\<rparr>"
      and fmt: "on_opt validate_log_format (fal_log_format (al_typed_config e)) \<noteq> Inl err" for err
    using assms by (auto simp: validate_access_log_def split: if_splits sum.splits)
  obtain fmt where fmt: "compiled_log_format (al_typed_config e) = Some (Inr fmt)"
  proof (cases "fal_log_format (al_typed_config e)")
    case None
    then show ?thesis using that default_log_format_ok by (auto simp: compiled_log_format_def)
  next
    case (Some s)
    then have "validate_log_format s = Inr ()"
      using fmt by (cases "validate_log_format s") (auto simp: on_opt_def)
    from validated_format_compiles [OF this Some] that show ?thesis by blast
  qed
  obtain flt where flt: "(case f of None \<Rightarrow> Some None | Some f \<Rightarrow> map_option Some (compile_access_log_filter f)) = Some flt"
      "\<And>c. (case flt of Some f \<Rightarrow> filter_should_log f c | None \<Rightarrow> Some True) \<noteq> None"
  proof (cases "al_filter e")
    case None
    then show ?thesis using that [of None] e'(1) by (simp add: on_opt_def)
  next
    case (Some g)
    then obtain g' where "validate_access_log_filter rx g = Inr g'" "f = Some g'"
      using e'(1) by (auto simp: on_opt_def split: sum.splits)
    with validated_decides [of rx g g'] that show ?thesis by (auto simp: decides_def)
  qed
  have "open_sink open_file e' = Some (case open_file (fal_path (al_typed_config e)) of
        None \<Rightarrow> Inl AccessLogOpen
      | Some content \<Rightarrow>
          Inr \<lparr>fs_path = fal_path (al_typed_config e), fs_handle = content, fs_format = fmt, fs_filter = flt\<rparr>)"
    using e'(2) fmt flt(1) by (simp add: open_sink_def Let_def)
  moreover have "\<exists>line. log_render fmt r = Some line" for r by (rule log_render_total)
  ultimately show ?thesis using flt(2) by (fastforce simp: sink_should_log_def sink_emit_def)
qed


lemma validated_access_log_opens_witness:
  "\<exists>fmt flt. open_sink (\<lambda>_. Some [])
      \<lparr>al_name = ''envoy.access_loggers.file'', al_typed_config = \<lparr>fal_path = ''/a'', fal_log_format = None\<rparr>, al_filter = None\<rparr>
      = Some (Inr \<lparr>fs_path = ''/a'', fs_handle = [], fs_format = fmt, fs_filter = flt\<rparr>)"
proof -
  let ?e = "\<lparr>al_name = ''envoy.access_loggers.file'', al_typed_config = \<lparr>fal_path = ''/a'', fal_log_format = None\<rparr>, al_filter = None\<rparr>"
  have "validate_access_log (\<lambda>_. None) ?e = Inr ?e" by (simp add: validate_access_log_def on_opt_def)
  from validated_access_log_opens [OF this, of "\<lambda>_. Some []"] show ?thesis by auto
qed

end
