(* ===== verification/H1_Pool.thy ===== *)
theory H1_Pool
  imports Conn_Pool
begin

text \<open>
  \<open>envoy-http1/src/pool.rs\<close>: the HTTP/1 connection pool of a cluster. Between two lock
  sections, and while a connect is awaited, other tasks run: the sequential operations
  are composed from one function per lock section, and the step relation interleaves
  those sections for any number of tasks and the idle sweeper. The step relation is about
  one pool by itself: what the HTTP/2 connection manager and the TCP proxy write to the same
  connection cells of a cluster, and a request task that is cancelled while it connects, are
  not steps of it.
\<close>

section \<open>State\<close>

record 's IdleEntry =
  ie_stream :: 's
  last_returned :: nat

record ('ep, 's) H1Pool = "'ep pool_core" +
  idle :: "('ep, 's IdleEntry) vec_map"

definition H1Pool_new :: "string \<Rightarrow> PoolClusterStats \<Rightarrow> nat \<Rightarrow> ('ep, 's) H1Pool" where
  "H1Pool_new name stats timeout =
     \<lparr>pool_cluster_name = name, pool_stats = stats, pool_idle_timeout = timeout,
      established = (\<lambda>_. None), idle = []\<rparr>"

record ('ep, 's) PoolGuard =
  pg_endpoint :: 'ep
  pg_stream :: "'s option"

section \<open>The lock sections\<close>

text \<open>The reuse attempt of \<open>acquire\<close>: pop the most recently returned stream.\<close>

definition pop_idle :: "'ep \<Rightarrow> ('ep, 's) H1Pool \<Rightarrow> stats \<Rightarrow> (('ep, 's) PoolGuard \<times> ('ep, 's) H1Pool \<times> stats) option" where
  "pop_idle e p st =
     (case vm_get (idle p) e of
        None \<Rightarrow> None
      | Some vs \<Rightarrow>
          if vs = [] then None
          else Some (\<lparr>pg_endpoint = e, pg_stream = Some (ie_stream (last vs))\<rparr>,
                     p\<lparr>idle := vm_set e (butlast vs) (idle p)\<rparr>,
                     gauge_inc (pcs_cx_active (pool_stats p)) st))"

text \<open>After \<open>Client::connect\<close> returned a stream.\<close>

definition connected :: "'ep \<Rightarrow> 's \<Rightarrow> ('ep, 's) H1Pool \<Rightarrow> stats \<Rightarrow> ('ep, 's) PoolGuard \<times> stats" where
  "connected e s p st =
     (\<lparr>pg_endpoint = e, pg_stream = Some s\<rparr>,
      gauge_inc (pcs_cx_active (pool_stats p))
        (counter_inc (pcs_cx_proto_total (pool_stats p)) (counter_inc (pcs_cx_total (pool_stats p)) st)))"

definition acquire :: "('ep \<Rightarrow> 'err + 's) \<Rightarrow> 'ep \<Rightarrow> ('ep, 's) H1Pool \<Rightarrow> stats
    \<Rightarrow> ('err PoolError + ('ep, 's) PoolGuard) \<times> ('ep, 's) H1Pool \<times> stats" where
  "acquire connect e p st =
     (case pop_idle e p st of
        Some (g, p', st') \<Rightarrow> (Inr g, p', st')
      | None \<Rightarrow>
          (case reserve e p st of
             (Inl err, p', st') \<Rightarrow> (Inl err, p', st')
           | (Inr _, p', st') \<Rightarrow>
               (case connect e of
                  Inl err \<Rightarrow> (let (p'', st'') = give_back e 1 p' st' in (Inl (Connect err), p'', st''))
                | Inr s \<Rightarrow> (let (g, st'') = connected e s p' st' in (Inr g, p', st'')))))"

definition stream_mut :: "('ep, 's) PoolGuard \<Rightarrow> 's option" where
  "stream_mut g = pg_stream g"

definition invalidate :: "('ep, 's) PoolGuard \<Rightarrow> ('ep, 's) PoolGuard" where
  "invalidate g = g\<lparr>pg_stream := None\<rparr>"

text \<open>Dropping the guard; the gauge guard is its last field and drops after the body.\<close>

definition drop_guard :: "nat \<Rightarrow> ('ep, 's) PoolGuard \<Rightarrow> ('ep, 's) H1Pool \<Rightarrow> stats \<Rightarrow> ('ep, 's) H1Pool \<times> stats" where
  "drop_guard now g p st =
     (let (p', st') =
        (case pg_stream g of
           Some s \<Rightarrow> (p\<lparr>idle := vm_push (pg_endpoint g) \<lparr>ie_stream = s, last_returned = now\<rparr> (idle p)\<rparr>, st)
         | None \<Rightarrow> give_back (pg_endpoint g) 1 p (counter_inc (pcs_cx_destroy (pool_stats p)) st))
      in (p', gauge_dec (pcs_cx_active (pool_stats p)) st'))"

text \<open>\<open>Instant::duration_since\<close> is zero when the argument is later.\<close>

definition sweep_idle :: "nat \<Rightarrow> ('ep, 's) H1Pool \<Rightarrow> ('ep, 's) H1Pool \<times> ('ep \<times> nat) list" where
  "sweep_idle now p =
     (let (m, evs) = vm_retain (\<lambda>entry. now - last_returned entry < pool_idle_timeout p) (idle p)
      in (p\<lparr>idle := m\<rparr>, evs))"

definition sweep_once :: "nat \<Rightarrow> ('ep, 's) H1Pool \<Rightarrow> stats \<Rightarrow> ('ep, 's) H1Pool \<times> stats" where
  "sweep_once now p st =
     (let (p', evs) = sweep_idle now p in if evs = [] then (p', st) else book_evictions evs p' st)"

section \<open>The pools of a bootstrap\<close>

definition pool_idle_timeout_of :: "ClusterConfig \<Rightarrow> nat" where
  "pool_idle_timeout_of cfg =
     (case idle_timeout cfg of
        None \<Rightarrow> 60000000
      | Some s \<Rightarrow> (case parse_duration s of
          Inl _ \<Rightarrow> 60000000
        | Inr d \<Rightarrow> if d = 0 then 60000000 else d))"

text \<open>
  \<open>H1PoolManager::for_bootstrap\<close>, one pool per HTTP/1 cluster. \<open>None\<close> is the panic of
  \<open>expect\<close> when the cluster manager was built from another bootstrap.
\<close>

fun pools_for :: "'addr cluster_manager \<Rightarrow> ClusterConfig list \<Rightarrow> (string, ('ep, 's) H1Pool) btmap \<Rightarrow> stats
    \<Rightarrow> ((stats_error + (string, ('ep, 's) H1Pool) btmap) \<times> stats) option" where
  "pools_for cm [] m st = Some (Inr m, st)"
| "pools_for cm (cfg # cfgs) m st =
     (case cm_get cm (cc_name cfg) of
        None \<Rightarrow> None
      | Some handle \<Rightarrow>
          if cl_upstream_protocol handle \<noteq> Http1 then pools_for cm cfgs m st
          else (case register_pool_cluster_stats cfg ''upstream_cx_http1_total'' st of
              (Inl e, st') \<Rightarrow> Some (Inl e, st')
            | (Inr stats, st') \<Rightarrow>
                pools_for cm cfgs
                  (bt_insert (cc_name cfg) (H1Pool_new (cc_name cfg) stats (pool_idle_timeout_of cfg)) m) st'))"

definition H1PoolManager_for_bootstrap :: "Bootstrap \<Rightarrow> 'addr cluster_manager \<Rightarrow> stats
    \<Rightarrow> ((stats_error + (string, ('ep, 's) H1Pool) btmap) \<times> stats) option" where
  "H1PoolManager_for_bootstrap b cm st = pools_for cm (all_clusters b) bt_empty st"

section \<open>Interleavings\<close>

text \<open>
  A task is outside the pool, has found no idle stream, is connecting, or holds a guard.
  \<open>env\<close> is whatever else the process does to the statistics between two sections: it
  leaves the four cells that belong to this pool alone.
\<close>

datatype ('ep, 's) h1_pc = Outside | Missed 'ep | Connecting 'ep | Holding "('ep, 's) PoolGuard"

record ('ep, 's) h1_sys =
  h_pool :: "('ep, 's) H1Pool"
  h_stats :: stats
  h_pc :: "nat \<Rightarrow> ('ep, 's) h1_pc"
  h_sweep :: "('ep \<times> nat) list"

definition same_cells :: "PoolClusterStats \<Rightarrow> stats \<Rightarrow> stats \<Rightarrow> bool" where
  "same_cells c st st' \<longleftrightarrow> same_ledger c st st' \<and> open_cell c st' = open_cell c st"

inductive h1_step :: "('ep, 's) h1_sys \<Rightarrow> ('ep, 's) h1_sys \<Rightarrow> bool" where
  hit: "h_pc s t = Outside \<Longrightarrow> pop_idle e (h_pool s) (h_stats s) = Some (g, p', st') \<Longrightarrow>
    h1_step s (s\<lparr>h_pool := p', h_stats := st', h_pc := (h_pc s)(t := Holding g)\<rparr>)"
| miss: "h_pc s t = Outside \<Longrightarrow> pop_idle e (h_pool s) (h_stats s) = None \<Longrightarrow>
    h1_step s (s\<lparr>h_pc := (h_pc s)(t := Missed e)\<rparr>)"
| refused: "h_pc s t = Missed e \<Longrightarrow> reserve e (h_pool s) (h_stats s) = (Inl (err :: unit PoolError), p', st') \<Longrightarrow>
    h1_step s (s\<lparr>h_pool := p', h_stats := st', h_pc := (h_pc s)(t := Outside)\<rparr>)"
| reserved: "h_pc s t = Missed e \<Longrightarrow> reserve e (h_pool s) (h_stats s) = (Inr u :: unit PoolError + unit, p', st') \<Longrightarrow>
    h1_step s (s\<lparr>h_pool := p', h_stats := st', h_pc := (h_pc s)(t := Connecting e)\<rparr>)"
| connect_ok: "h_pc s t = Connecting e \<Longrightarrow> connected e c (h_pool s) (h_stats s) = (g, st') \<Longrightarrow>
    h1_step s (s\<lparr>h_stats := st', h_pc := (h_pc s)(t := Holding g)\<rparr>)"
| connect_err: "h_pc s t = Connecting e \<Longrightarrow> give_back e 1 (h_pool s) (h_stats s) = (p', st') \<Longrightarrow>
    h1_step s (s\<lparr>h_pool := p', h_stats := st', h_pc := (h_pc s)(t := Outside)\<rparr>)"
| invalidated: "h_pc s t = Holding g \<Longrightarrow>
    h1_step s (s\<lparr>h_pc := (h_pc s)(t := Holding (invalidate g))\<rparr>)"
| dropped: "h_pc s t = Holding g \<Longrightarrow> drop_guard now g (h_pool s) (h_stats s) = (p', st') \<Longrightarrow>
    h1_step s (s\<lparr>h_pool := p', h_stats := st', h_pc := (h_pc s)(t := Outside)\<rparr>)"
| sweep_collect: "h_sweep s = [] \<Longrightarrow> sweep_idle now (h_pool s) = (p', evs) \<Longrightarrow>
    h1_step s (s\<lparr>h_pool := p', h_sweep := evs\<rparr>)"
| sweep_book: "book_evictions (h_sweep s) (h_pool s) (h_stats s) = (p', st') \<Longrightarrow>
    h1_step s (s\<lparr>h_pool := p', h_stats := st', h_sweep := []\<rparr>)"
| env: "same_cells (pool_stats (h_pool s)) (h_stats s) st' \<Longrightarrow> h1_step s (s\<lparr>h_stats := st'\<rparr>)"

definition h1_init :: "PoolClusterStats \<Rightarrow> ('ep, 's) h1_sys \<Rightarrow> bool" where
  "h1_init c s \<longleftrightarrow> pool_stats (h_pool s) = c \<and> established (h_pool s) = (\<lambda>_. None)
     \<and> idle (h_pool s) = [] \<and> h_pc s = (\<lambda>_. Outside) \<and> h_sweep s = []"

section \<open>The account\<close>

definition occupies :: "('ep \<Rightarrow> bool) \<Rightarrow> ('ep, 's) h1_pc \<Rightarrow> bool" where
  "occupies P pc \<longleftrightarrow> (case pc of Connecting e \<Rightarrow> P e | Holding g \<Rightarrow> P (pg_endpoint g) | _ \<Rightarrow> False)"

definition is_holding :: "('ep, 's) h1_pc \<Rightarrow> bool" where
  "is_holding pc \<longleftrightarrow> (case pc of Holding _ \<Rightarrow> True | _ \<Rightarrow> False)"

text \<open>
  The connections of an endpoint: those in the idle list, those a sweep has taken out of
  the list and not yet booked, and those of the tasks that connect to it or hold a guard
  for it.
\<close>

definition h1_live :: "('ep, 's) h1_sys \<Rightarrow> 'ep \<Rightarrow> nat" where
  "h1_live s e = vm_count ((=) e) (idle (h_pool s)) + ev_count ((=) e) (h_sweep s)
     + tasks_in (occupies ((=) e)) (h_pc s)"

definition h1_good :: "PoolClusterStats \<Rightarrow> ('ep, 's) h1_sys \<Rightarrow> bool" where
  "h1_good c s \<longleftrightarrow> pool_stats (h_pool s) = c \<and> finite {t. h_pc s t \<noteq> Outside}"

lemma occupies_simps [simp]:
  "\<not> occupies P Outside" "\<not> occupies P (Missed e)" "occupies P (Connecting e) = P e"
  "occupies P (Holding g) = P (pg_endpoint g)"
  "\<not> is_holding Outside" "\<not> is_holding (Missed e)" "\<not> is_holding (Connecting e)" "is_holding (Holding g)"
  by (simp_all add: occupies_def is_holding_def)

lemma finite_active:
  assumes "finite {t. f t \<noteq> Outside}"
  shows "finite {t. occupies P (f t)}" "finite {t. is_holding (f t)}" "finite {u. (f(t := x)) u \<noteq> Outside}"
proof -
  have sub: "{t. occupies P (f t)} \<subseteq> {t. f t \<noteq> Outside}" "{t. is_holding (f t)} \<subseteq> {t. f t \<noteq> Outside}"
    by auto
  then show "finite {t. occupies P (f t)}" "finite {t. is_holding (f t)}"
    using assms finite_subset by blast+
  have "{u. (f(t := x)) u \<noteq> Outside} \<subseteq> insert t {t. f t \<noteq> Outside}" by auto
  then show "finite {u. (f(t := x)) u \<noteq> Outside}" using assms finite_subset by blast
qed

lemma h1_tasks_upd:
  assumes "finite {t. f t \<noteq> Outside}"
  shows "tasks_in (occupies P) (f(t := x)) + (if occupies P (f t) then 1 else 0) =
      tasks_in (occupies P) f + (if occupies P x then 1 else 0)"
    and "tasks_in is_holding (f(t := x)) + (if is_holding (f t) then 1 else 0) =
      tasks_in is_holding f + (if is_holding x then 1 else 0)"
  by (rule tasks_in_upd(1) [where f = f, OF finite_active(1) [OF assms]],
      rule tasks_in_upd(1) [where f = f, OF finite_active(2) [OF assms]])

lemma give_back_idle [simp]: "idle (fst (give_back e k p st)) = idle p"
  by (auto simp: give_back_def split: option.splits)

lemma reserve_idle: "reserve e p st = (r, p', st') \<Longrightarrow> idle p' = idle p"
  by (auto simp: reserve_def Let_def split: if_splits)

lemma book_evictions_idle [simp]: "idle (fst (book_evictions evs p st)) = idle p"
proof (induction evs p st rule: book_evictions.induct)
  case (2 e k evs p st)
  then show ?case by (cases "give_back e k p st") (use give_back_idle [of e k p st] in auto)
qed simp

lemma pop_idleE:
  assumes "pop_idle e p st = Some (g, p', st')"
  obtains vs where "vm_get (idle p) e = Some vs" "vs \<noteq> []" "pg_endpoint g = e"
    "pg_stream g = Some (ie_stream (last vs))" "p' = p\<lparr>idle := vm_set e (butlast vs) (idle p)\<rparr>"
    "st' = gauge_inc (pcs_cx_active (pool_stats p)) st"
  using assms by (auto simp: pop_idle_def split: option.splits if_splits)

lemma pop_idle_count:
  assumes "pop_idle e p st = Some (g, p', st')"
  shows "vm_count P (idle p) = vm_count P (idle p') + (if P e then 1 else 0)"
  using assms
proof (rule pop_idleE)
  fix vs assume v: "vm_get (idle p) e = Some vs" "vs \<noteq> []" "p' = p\<lparr>idle := vm_set e (butlast vs) (idle p)\<rparr>"
  from v(2) have "length vs = Suc (length (butlast vs))" by simp
  with vm_count_set [OF v(1), of P "butlast vs"] show ?thesis
    by (simp add: v(3) del: length_butlast split: if_splits)
qed

lemma est_of_cong: "established p' = established p \<Longrightarrow> est_of p' = est_of (p :: ('ep, 's) H1Pool)"
  by (simp add: est_of_def fun_eq_iff)

lemma drop_guard_count:
  assumes "drop_guard now g p st = (p', st')" "0 < est_of p (pg_endpoint g)"
  shows "est_of p' e + (if pg_stream g = None \<and> e = pg_endpoint g then 1 else 0) = est_of p e"
    and "vm_count P (idle p') = vm_count P (idle p) + (if pg_stream g \<noteq> None \<and> P (pg_endpoint g) then 1 else 0)"
    and "pool_stats p' = pool_stats p"
proof -
  obtain p1 st1 where g: "give_back (pg_endpoint g) 1 p (counter_inc (pcs_cx_destroy (pool_stats p)) st) = (p1, st1)"
    by fastforce
  have f: "pool_stats p1 = pool_stats p" "idle p1 = idle p"
    using give_back_frame [of "pg_endpoint g" 1 p "counter_inc (pcs_cx_destroy (pool_stats p)) st"]
      give_back_idle [of "pg_endpoint g" 1 p "counter_inc (pcs_cx_destroy (pool_stats p)) st"]
    unfolding g by simp_all
  have n: "p' = p1" if "pg_stream g = None" using assms(1) that by (simp add: drop_guard_def g [simplified])
  have s: "p' = p\<lparr>idle := vm_push (pg_endpoint g) \<lparr>ie_stream = x, last_returned = now\<rparr> (idle p)\<rparr>"
    if "pg_stream g = Some x" for x
    using assms(1) that by (simp add: drop_guard_def)
  show "est_of p' e + (if pg_stream g = None \<and> e = pg_endpoint g then 1 else 0) = est_of p e"
    using give_back_est [OF _ g, of e] assms(2) n s by (cases "pg_stream g") (auto simp: est_of_def)
  show "vm_count P (idle p') = vm_count P (idle p) + (if pg_stream g \<noteq> None \<and> P (pg_endpoint g) then 1 else 0)"
    using n s f by (cases "pg_stream g") (auto simp: vm_count_push)
  show "pool_stats p' = pool_stats p" using n s f by (cases "pg_stream g") auto
qed

lemma sweep_idle_count:
  assumes "sweep_idle now p = (p', evs)"
  shows "vm_count P (idle p) = vm_count P (idle p') + ev_count P evs"
    and "established p' = established p" "pool_stats p' = pool_stats p"
  using assms vm_retain_count [of _ "idle p" _ _ P] by (auto simp: sweep_idle_def split: prod.splits)

lemma h1_live_pos:
  assumes "finite {t. h_pc s t \<noteq> Outside}" "occupies ((=) e) (h_pc s t)"
  shows "0 < h1_live s e"
proof -
  have "0 < tasks_in (occupies ((=) e)) (h_pc s)"
    unfolding tasks_in_def using assms finite_active(1) [OF assms(1)] by (auto simp: card_gt_0_iff)
  then show ?thesis by (simp add: h1_live_def)
qed

lemma h1_step_account:
  assumes "h1_step s s'" "h1_good c s" "\<forall>e. est_of (h_pool s) e = h1_live s e"
  shows "h1_good c s' \<and> est_of (h_pool s') e = h1_live s' e
    \<and> est_of (h_pool s') e \<le> max (est_of (h_pool s) e) (pcs_max_connections c)"
  using assms
proof (induction rule: h1_step.induct)
  case (hit s t e' g p' st')
  note fin = hit.prems(1) [unfolded h1_good_def, THEN conjunct2]
  from hit.hyps(2) have p: "pg_endpoint g = e'" "established p' = established (h_pool s)"
    "pool_stats p' = pool_stats (h_pool s)" by (auto elim!: pop_idleE)
  show ?case
    using hit.prems hit.hyps(1) p pop_idle_count [OF hit.hyps(2), of "(=) e"] est_of_cong [OF p(2)]
      h1_tasks_upd(1) [OF fin, of "(=) e" t "Holding g"] finite_active(3) [OF fin, of t "Holding g"]
    by (auto simp: h1_good_def h1_live_def)
next
  case (miss s t e')
  note fin = miss.prems(1) [unfolded h1_good_def, THEN conjunct2]
  show ?case
    using miss.prems miss.hyps(1)
      h1_tasks_upd(1) [OF fin, of "(=) e" t "Missed e'"] finite_active(3) [OF fin, of t "Missed e'"]
    by (auto simp: h1_good_def h1_live_def)
next
  case (refused s t e' err p' st')
  note fin = refused.prems(1) [unfolded h1_good_def, THEN conjunct2]
  note r = reserve_est [OF refused.hyps(2)]
  show ?case
    using refused.prems refused.hyps(1) r(1) [of e] r(3) reserve_idle [OF refused.hyps(2)]
      h1_tasks_upd(1) [OF fin, of "(=) e" t Outside] finite_active(3) [OF fin, of t Outside]
    by (auto simp: h1_good_def h1_live_def)
next
  case (reserved s t e' u p' st')
  note fin = reserved.prems(1) [unfolded h1_good_def, THEN conjunct2]
  note r = reserve_est [OF reserved.hyps(2)]
  show ?case
    using reserved.prems reserved.hyps(1) r(1) [of e] r(2,3) reserve_idle [OF reserved.hyps(2)]
      h1_tasks_upd(1) [OF fin, of "(=) e" t "Connecting e'"]
      finite_active(3) [OF fin, of t "Connecting e'"]
    by (auto simp: h1_good_def h1_live_def)
next
  case (connect_ok s t e' x g st')
  note fin = connect_ok.prems(1) [unfolded h1_good_def, THEN conjunct2]
  from connect_ok.hyps(2) have "pg_endpoint g = e'" by (auto simp: connected_def)
  then show ?case
    using connect_ok.prems connect_ok.hyps(1)
      h1_tasks_upd(1) [OF fin, of "(=) e" t "Holding g"] finite_active(3) [OF fin, of t "Holding g"]
    by (auto simp: h1_good_def h1_live_def split: if_splits)
next
  case (connect_err s t e' p' st')
  note fin = connect_err.prems(1) [unfolded h1_good_def, THEN conjunct2]
  have pos: "1 \<le> est_of (h_pool s) e'"
    using h1_live_pos [OF fin, of e' t] connect_err.hyps(1) connect_err.prems(2) by (simp add: Suc_le_eq)
  have f: "pool_stats p' = pool_stats (h_pool s)" "idle p' = idle (h_pool s)"
    using give_back_frame(1) [of e' 1 "h_pool s" "h_stats s"] give_back_idle [of e' 1 "h_pool s" "h_stats s"]
    unfolding connect_err.hyps(2) by simp_all
  show ?case
    using connect_err.prems connect_err.hyps(1) f give_back_est [OF pos connect_err.hyps(2), of e]
      h1_tasks_upd(1) [OF fin, of "(=) e" t Outside] finite_active(3) [OF fin, of t Outside]
    by (auto simp: h1_good_def h1_live_def split: if_splits)
next
  case (invalidated s t g)
  note fin = invalidated.prems(1) [unfolded h1_good_def, THEN conjunct2]
  show ?case
    using invalidated.prems invalidated.hyps(1)
      h1_tasks_upd(1) [OF fin, of "(=) e" t "Holding (invalidate g)"]
      finite_active(3) [OF fin, of t "Holding (invalidate g)"]
    by (auto simp: h1_good_def h1_live_def invalidate_def split: if_splits)
next
  case (dropped s t g now p' st')
  note fin = dropped.prems(1) [unfolded h1_good_def, THEN conjunct2]
  have pos: "0 < est_of (h_pool s) (pg_endpoint g)"
    using h1_live_pos [OF fin, of "pg_endpoint g" t] dropped.hyps(1) dropped.prems(2) by simp
  note d = drop_guard_count [OF dropped.hyps(2) pos]
  show ?case
    using dropped.prems dropped.hyps(1) d(1) [of e] d(2) [of "(=) e"] d(3)
      h1_tasks_upd(1) [OF fin, of "(=) e" t Outside] finite_active(3) [OF fin, of t Outside]
    by (auto simp: h1_good_def h1_live_def split: if_splits)
next
  case (sweep_collect s now p' evs)
  note w = sweep_idle_count [OF sweep_collect.hyps(2)]
  show ?case
    using sweep_collect.prems sweep_collect.hyps(1) w(1) [of "(=) e"] w(3) est_of_cong [OF w(2)]
    by (auto simp: h1_good_def h1_live_def)
next
  case (sweep_book s p' st')
  have le: "\<forall>e. ev_count ((=) e) (h_sweep s) \<le> est_of (h_pool s) e"
    using sweep_book.prems(2) by (simp add: h1_live_def)
  have f: "pool_stats p' = pool_stats (h_pool s)" "idle p' = idle (h_pool s)"
    using book_evictions_frame(1) [of "h_sweep s" "h_pool s" "h_stats s"]
      book_evictions_idle [of "h_sweep s" "h_pool s" "h_stats s"]
    unfolding sweep_book.hyps by simp_all
  have "est_of p' e + ev_count ((=) e) (h_sweep s) = h1_live s e"
    using book_evictions_est [OF le sweep_book.hyps, of e] sweep_book.prems(2) by simp
  then show ?case
    using sweep_book.prems f by (auto simp: h1_good_def h1_live_def)
next
  case (env s st')
  then show ?case by (simp add: h1_good_def h1_live_def)
qed

interpretation h1: pool_account "pcs_max_connections c" "h1_init c" h1_step "h1_good c"
    "\<lambda>s. est_of (h_pool s)" h1_live
  for c
proof
  show "h1_good c s \<and> est_of (h_pool s) e = 0 \<and> h1_live s e = 0" if "h1_init c s" for s :: "('a, 'b) h1_sys" and e
    using that by (simp add: h1_init_def h1_good_def est_of_def h1_live_def tasks_in_def)
  fix s s' :: "('a, 'b) h1_sys" and e
  assume a: "h1_step s s'" "h1_good c s" "\<forall>e. est_of (h_pool s) e = h1_live s e"
  show "h1_good c s'" "est_of (h_pool s') e = h1_live s' e"
    "est_of (h_pool s') e \<le> max (est_of (h_pool s) e) (pcs_max_connections c)"
    using h1_step_account [OF a, of e] by simp_all
qed

section \<open>The counters and gauges\<close>

definition h1_streams :: "('ep, 's) h1_sys \<Rightarrow> nat" where
  "h1_streams s = vm_count (\<lambda>_. True) (idle (h_pool s)) + ev_count (\<lambda>_. True) (h_sweep s)
     + tasks_in is_holding (h_pc s)"

text \<open>
  Created minus destroyed connections, and the active gauge, relative to the values they
  had when the pool was made.
\<close>

definition h1_ledger :: "PoolClusterStats \<Rightarrow> u64 \<Rightarrow> i64 \<Rightarrow> ('ep, 's) h1_sys \<Rightarrow> bool" where
  "h1_ledger c d a s \<longleftrightarrow> cells_ok c (h_stats s)
     \<and> counters (h_stats s) ! pcs_cx_total c - counters (h_stats s) ! pcs_cx_destroy c = d + of_nat (h1_streams s)
     \<and> gauges (h_stats s) ! pcs_cx_active c = a + of_nat (tasks_in is_holding (h_pc s))"

lemma gauge_bump_ledger:
  assumes "cells_ok c st"
  shows "cells_ok c (gauge_inc (pcs_cx_active c) st)" "cells_ok c (gauge_dec (pcs_cx_active c) st)"
    "gauges (gauge_inc (pcs_cx_active c) st) ! pcs_cx_active c = gauges st ! pcs_cx_active c + 1"
    "gauges (gauge_dec (pcs_cx_active c) st) ! pcs_cx_active c = gauges st ! pcs_cx_active c - 1"
    "counters (gauge_inc i st) = counters st" "counters (gauge_dec i st) = counters st"
  using assms by (auto simp: cells_ok_def gauge_inc_def gauge_dec_def gauge_inc_val_def gauge_dec_val_def)

lemma connected_ledger:
  assumes "connected e x p st = (g, st')" "cells_ok (pool_stats p) st"
  shows "cells_ok (pool_stats p) st'"
    "counters st' ! pcs_cx_total (pool_stats p) = counters st ! pcs_cx_total (pool_stats p) + 1"
    "counters st' ! pcs_cx_destroy (pool_stats p) = counters st ! pcs_cx_destroy (pool_stats p)"
    "gauges st' ! pcs_cx_active (pool_stats p) = gauges st ! pcs_cx_active (pool_stats p) + 1"
  using assms by (auto simp: connected_def cells_ok_def gauge_inc_def gauge_inc_val_def
      counter_inc_def counter_inc_val_def nth_list_update)

lemma counter_inc_ledger:
  assumes "cells_ok c st"
  shows "cells_ok c (counter_inc (pcs_cx_destroy c) st)"
    "counters (counter_inc (pcs_cx_destroy c) st) ! pcs_cx_total c = counters st ! pcs_cx_total c"
    "counters (counter_inc (pcs_cx_destroy c) st) ! pcs_cx_destroy c = counters st ! pcs_cx_destroy c + 1"
    "gauges (counter_inc i st) = gauges st"
  using assms by (auto simp: cells_ok_def counter_inc_def counter_inc_val_def)

lemma drop_guard_ledger:
  assumes "drop_guard now g p st = (p', st')" "cells_ok (pool_stats p) st"
  shows "cells_ok (pool_stats p) st'
    \<and> counters st' ! pcs_cx_total (pool_stats p) = counters st ! pcs_cx_total (pool_stats p)
    \<and> counters st' ! pcs_cx_destroy (pool_stats p) =
        counters st ! pcs_cx_destroy (pool_stats p) + (if pg_stream g = None then 1 else 0)
    \<and> gauges st' ! pcs_cx_active (pool_stats p) = gauges st ! pcs_cx_active (pool_stats p) - 1"
proof (cases "pg_stream g")
  case (Some x)
  then have "st' = gauge_dec (pcs_cx_active (pool_stats p)) st"
    using assms(1) by (simp add: drop_guard_def)
  then show ?thesis using Some gauge_bump_ledger [OF assms(2)] by simp
next
  case None
  let ?c = "pool_stats p"
  let ?st = "counter_inc (pcs_cx_destroy ?c) st"
  obtain p1 st1 where g: "give_back (pg_endpoint g) 1 p ?st = (p1, st1)" by fastforce
  have st': "st' = gauge_dec (pcs_cx_active ?c) st1"
    using assms(1) None g [simplified] by (simp add: drop_guard_def)
  note i = counter_inc_ledger [OF assms(2)]
  note l = give_back_ledger [OF g i(1)]
  have "cells_ok ?c st1" using cells_ok_mono [OF i(1) l(1)] .
  then show ?thesis
    using gauge_bump_ledger [of ?c st1] i l by (simp add: st' None same_ledger_def)
qed

lemma h1_step_ledger:
  assumes "h1_step s s'" "h1_good c s" "\<forall>e. est_of (h_pool s) e = h1_live s e" "h1_ledger c d a s"
  shows "h1_ledger c d a s'"
  using assms
proof (induction rule: h1_step.induct)
  case (hit s t e g p' st')
  note fin = hit.prems(1) [unfolded h1_good_def]
  from hit.hyps(2) have "st' = gauge_inc (pcs_cx_active c) (h_stats s)"
    using fin by (auto elim!: pop_idleE)
  then show ?case
    using hit.prems(3) hit.hyps(1) pop_idle_count [OF hit.hyps(2), of "\<lambda>_. True"]
      h1_tasks_upd(2) [OF conjunct2 [OF fin], of t "Holding g"] gauge_bump_ledger [of c "h_stats s"]
    by (auto simp: h1_ledger_def h1_streams_def)
next
  case (miss s t e)
  note fin = miss.prems(1) [unfolded h1_good_def]
  show ?case
    using miss.prems(3) miss.hyps(1) h1_tasks_upd(2) [OF conjunct2 [OF fin], of t "Missed e"]
    by (auto simp: h1_ledger_def h1_streams_def)
next
  case (refused s t e err p' st')
  note fin = refused.prems(1) [unfolded h1_good_def]
  have l: "same_ledger c (h_stats s) st'"
    using reserve_ledger [OF refused.hyps(2)] fin refused.prems(3) by (simp add: h1_ledger_def)
  show ?case
    using refused.prems(3) refused.hyps(1) h1_tasks_upd(2) [OF conjunct2 [OF fin], of t Outside]
      reserve_idle [OF refused.hyps(2)] l cells_ok_mono [OF _ l]
    by (auto simp: h1_ledger_def h1_streams_def same_ledger_def)
next
  case (reserved s t e u p' st')
  note fin = reserved.prems(1) [unfolded h1_good_def]
  have l: "same_ledger c (h_stats s) st'"
    using reserve_ledger [OF reserved.hyps(2)] fin reserved.prems(3) by (simp add: h1_ledger_def)
  show ?case
    using reserved.prems(3) reserved.hyps(1) h1_tasks_upd(2) [OF conjunct2 [OF fin], of t "Connecting e"]
      reserve_idle [OF reserved.hyps(2)] l cells_ok_mono [OF _ l]
    by (auto simp: h1_ledger_def h1_streams_def same_ledger_def)
next
  case (connect_ok s t e x g st')
  note fin = connect_ok.prems(1) [unfolded h1_good_def]
  have ok: "cells_ok (pool_stats (h_pool s)) (h_stats s)" using fin connect_ok.prems(3) by (simp add: h1_ledger_def)
  show ?case
    using fin connect_ok.prems(3) connect_ok.hyps(1) connected_ledger [OF connect_ok.hyps(2) ok]
      h1_tasks_upd(2) [OF conjunct2 [OF fin], of t "Holding g"]
    by (auto simp: h1_ledger_def h1_streams_def algebra_simps)
next
  case (connect_err s t e p' st')
  note fin = connect_err.prems(1) [unfolded h1_good_def]
  have l: "same_ledger c (h_stats s) st'"
    using give_back_ledger(1) [OF connect_err.hyps(2)] fin connect_err.prems(3) by (simp add: h1_ledger_def)
  have "idle p' = idle (h_pool s)"
    using give_back_idle [of e 1 "h_pool s" "h_stats s"] unfolding connect_err.hyps(2) by simp
  then show ?case
    using connect_err.prems(3) connect_err.hyps(1) h1_tasks_upd(2) [OF conjunct2 [OF fin], of t Outside]
      l cells_ok_mono [OF _ l]
    by (auto simp: h1_ledger_def h1_streams_def same_ledger_def)
next
  case (invalidated s t g)
  note fin = invalidated.prems(1) [unfolded h1_good_def]
  show ?case
    using invalidated.prems(3) invalidated.hyps(1)
      h1_tasks_upd(2) [OF conjunct2 [OF fin], of t "Holding (invalidate g)"]
    by (auto simp: h1_ledger_def h1_streams_def)
next
  case (dropped s t g now p' st')
  note fin = dropped.prems(1) [unfolded h1_good_def]
  have ok: "cells_ok (pool_stats (h_pool s)) (h_stats s)" using fin dropped.prems(3) by (simp add: h1_ledger_def)
  have pos: "0 < est_of (h_pool s) (pg_endpoint g)"
    using h1_live_pos [OF conjunct2 [OF fin], of "pg_endpoint g" t] dropped.hyps(1) dropped.prems(2) by simp
  have up: "tasks_in is_holding (h_pc s) = tasks_in is_holding ((h_pc s)(t := Outside)) + 1"
    using h1_tasks_upd(2) [OF conjunct2 [OF fin], of t Outside] dropped.hyps(1) by simp
  have n: "h1_streams s = h1_streams (s\<lparr>h_pool := p', h_stats := st', h_pc := (h_pc s)(t := Outside)\<rparr>)
      + (if pg_stream g = None then 1 else 0)"
    using drop_guard_count(2) [OF dropped.hyps(2) pos, of "\<lambda>_. True"] up by (simp add: h1_streams_def)
  show ?case
    using dropped.prems(3) drop_guard_ledger [OF dropped.hyps(2) ok] fin n up
    by (auto simp: h1_ledger_def algebra_simps split: if_splits)
next
  case (sweep_collect s now p' evs)
  then show ?case
    using sweep_idle_count(1) [OF sweep_collect.hyps(2), of "\<lambda>_. True"] by (simp add: h1_ledger_def h1_streams_def)
next
  case (sweep_book s p' st')
  note fin = sweep_book.prems(1) [unfolded h1_good_def]
  have ok: "cells_ok (pool_stats (h_pool s)) (h_stats s)" using fin sweep_book.prems(3) by (simp add: h1_ledger_def)
  have "idle p' = idle (h_pool s)"
    using book_evictions_idle [of "h_sweep s" "h_pool s" "h_stats s"] unfolding sweep_book.hyps by simp
  then show ?case
    using fin sweep_book.prems(3) book_evictions_ledger [OF sweep_book.hyps ok]
    by (auto simp: h1_ledger_def h1_streams_def algebra_simps)
next
  case (env s st')
  then have l: "same_ledger c (h_stats s) st'" by (simp add: same_cells_def h1_good_def)
  show ?case using env.prems(3) l cells_ok_mono [OF _ l] by (auto simp: h1_ledger_def h1_streams_def same_ledger_def)
qed

text \<open>
  C13. Whatever the interleaving of acquires, connects that succeed or fail, invalidations,
  drops and sweeps: the \<open>established\<close> count of every endpoint is the number of its
  connections and connection attempts, and never exceeds \<open>max_connections\<close>; connections
  created minus connections destroyed is the number of streams the pool and its guards
  hold; the active gauge is the number of guards.
\<close>

theorem h1_pool_account:
  assumes "h1_init c s0" and "cells_ok c (h_stats s0)" and "h1_step\<^sup>*\<^sup>* s0 s"
  shows "est_of (h_pool s) e = h1_live s e \<and> h1_live s e \<le> pcs_max_connections c
    \<and> counters (h_stats s) ! pcs_cx_total c - counters (h_stats s) ! pcs_cx_destroy c =
        counters (h_stats s0) ! pcs_cx_total c - counters (h_stats s0) ! pcs_cx_destroy c + of_nat (h1_streams s)
    \<and> gauges (h_stats s) ! pcs_cx_active c =
        gauges (h_stats s0) ! pcs_cx_active c + of_nat (tasks_in is_holding (h_pc s))"
proof -
  let ?d = "counters (h_stats s0) ! pcs_cx_total c - counters (h_stats s0) ! pcs_cx_destroy c"
  let ?a = "gauges (h_stats s0) ! pcs_cx_active c"
  have "h1_ledger c ?d ?a s"
    using assms(3)
  proof (induction rule: rtranclp_induct)
    case base
    then show ?case using assms(1,2) by (simp add: h1_ledger_def h1_streams_def h1_init_def tasks_in_def)
  next
    case (step s s')
    have "h1_good c s" "\<forall>e. est_of (h_pool s) e = h1_live s e"
      using h1.reach_account [OF assms(1) step.hyps(1)] by auto
    from h1_step_ledger [OF step.hyps(2) this step.IH] show ?case .
  qed
  then show ?thesis
    using h1.reach_account [OF assms(1,3)] h1.reach_live [OF assms(1,3)] by (simp add: h1_ledger_def)
qed

lemma reserve_any:
  "reserve e p st = (r, p', st') \<Longrightarrow>
     \<exists>r' :: 'b PoolError + unit. reserve e p st = (r', p', st') \<and> isl r = isl r'"
  by (auto simp: reserve_def Let_def split: if_splits)

text \<open>An uninterrupted \<open>acquire\<close> is a run of the step relation.\<close>

lemma acquire_steps:
  fixes connect :: "'ep \<Rightarrow> 'err + 's"
  assumes "h_pc s t = Outside" "acquire connect e (h_pool s) (h_stats s) = (r, p', st')"
  shows "h1_step\<^sup>*\<^sup>* s (s\<lparr>h_pool := p', h_stats := st',
    h_pc := (h_pc s)(t := (case r of Inl _ \<Rightarrow> Outside | Inr g \<Rightarrow> Holding g))\<rparr>)"
proof (cases "pop_idle e (h_pool s) (h_stats s)")
  case (Some gps)
  obtain g p1 st1 where x: "gps = (g, p1, st1)" by (cases gps)
  with Some assms(2) have "r = Inr g" "p' = p1" "st' = st1" by (auto simp: acquire_def)
  then show ?thesis using h1_step.hit [OF assms(1) Some [unfolded x]] by simp
next
  case None
  obtain r2 p1 st1 where res2: "reserve e (h_pool s) (h_stats s) = (r2, p1, st1)"
      and acq: "(r, p', st') = (case r2 of Inl err \<Rightarrow> (Inl err, p1, st1)
        | Inr _ \<Rightarrow> (case connect e of
            Inl err \<Rightarrow> (let (p'', st'') = give_back e 1 p1 st1 in (Inl (Connect err), p'', st''))
          | Inr x \<Rightarrow> (let (g, st'') = connected e x p1 st1 in (Inr g, p1, st''))))"
    using assms(2) None unfolding acquire_def
    by (cases "reserve e (h_pool s) (h_stats s) :: ('err PoolError + unit) \<times> _ \<times> _")
      (auto split: sum.splits)
  obtain r1 :: "unit PoolError + unit" where res: "reserve e (h_pool s) (h_stats s) = (r1, p1, st1)"
      and eq: "isl r2 = isl r1"
    using reserve_any [OF res2] by blast
  define s1 where "s1 = s\<lparr>h_pc := (h_pc s)(t := Missed e)\<rparr>"
  have m: "h1_step s s1" unfolding s1_def by (rule h1_step.miss [OF assms(1) None])
  have s1: "h_pc s1 t = Missed e" "h_pool s1 = h_pool s" "h_stats s1 = h_stats s" by (simp_all add: s1_def)
  show ?thesis
  proof (cases r1)
    case (Inl err)
    then obtain err' where "r2 = Inl err'" using eq by (cases r2) auto
    with acq eq have "r = Inl err'" "p' = p1" "st' = st1" by auto
    moreover have "h1_step s1 (s1\<lparr>h_pool := p1, h_stats := st1, h_pc := (h_pc s1)(t := Outside)\<rparr>)"
      using h1_step.refused [of s1 t e err p1 st1] s1 res Inl by simp
    ultimately show ?thesis using m by (simp add: s1_def converse_rtranclp_into_rtranclp)
  next
    case (Inr u)
    then obtain u' where r2: "r2 = Inr u'" using eq by (cases r2) auto
    define s2 where "s2 = s1\<lparr>h_pool := p1, h_stats := st1, h_pc := (h_pc s1)(t := Connecting e)\<rparr>"
    have "h1_step s1 s2" unfolding s2_def using h1_step.reserved [of s1 t e u p1 st1] s1 res Inr by simp
    then have m2: "h1_step\<^sup>*\<^sup>* s s2" using m by simp
    have s2: "h_pc s2 t = Connecting e" "h_pool s2 = p1" "h_stats s2 = st1" by (simp_all add: s2_def)
    show ?thesis
    proof (cases "connect e")
      case (Inl err)
      obtain p3 st3 where g: "give_back e 1 p1 st1 = (p3, st3)" by fastforce
      with acq r2 Inl eq have "r = Inl (Connect err)" "p' = p3" "st' = st3" by auto
      with m2 h1_step.connect_err [OF s2(1), of p3 st3] g show ?thesis
        by (simp add: s2 s2_def s1_def rtranclp.rtrancl_into_rtrancl)
    next
      case (Inr x)
      obtain g st3 where c: "connected e x p1 st1 = (g, st3)" by fastforce
      with acq r2 Inr eq have "r = Inr g" "p' = p1" "st' = st3" by auto
      with m2 h1_step.connect_ok [OF s2(1), of x g st3] c show ?thesis
        by (simp add: s2 s2_def s1_def rtranclp.rtrancl_into_rtrancl)
    qed
  qed
qed

text \<open>A stream dropped without being invalidated is the one the next acquire returns.\<close>

lemma reuse_after_drop:
  assumes "drop_guard now \<lparr>pg_endpoint = e, pg_stream = Some x\<rparr> p st = (p', st')"
  shows "fst (acquire connect e p' st'') = Inr \<lparr>pg_endpoint = e, pg_stream = Some x\<rparr>"
  using assms by (auto simp: drop_guard_def acquire_def pop_idle_def vm_push_def)

section \<open>The overload gauge\<close>

definition at_cap :: "PoolClusterStats \<Rightarrow> nat \<Rightarrow> i64" where
  "at_cap c n = (if 0 < n \<and> pcs_max_connections c \<le> n then 1 else 0)"

definition open_right :: "PoolClusterStats \<Rightarrow> 'ep \<Rightarrow> ('ep, 's) H1Pool \<Rightarrow> stats \<Rightarrow> bool" where
  "open_right c e p st \<longleftrightarrow> cells_ok c st \<and> pool_stats p = c \<and> est_of p e \<le> pcs_max_connections c
     \<and> (\<forall>v. open_cell c st = Some v \<longrightarrow> v = at_cap c (est_of p e))"

lemma open_cell_frame:
  "cells_ok c st \<Longrightarrow> open_cell c (gauge_inc (pcs_cx_active c) st) = open_cell c st"
  "cells_ok c st \<Longrightarrow> open_cell c (gauge_dec (pcs_cx_active c) st) = open_cell c st"
  "open_cell c (counter_inc i st) = open_cell c st"
  "open_cell c ((counter_inc i ^^ k) st) = open_cell c st"
  using cells_ok_open [of c st]
  by (cases "pcs_cx_open c"; simp add: open_cell_def gauge_inc_def gauge_dec_def counter_inc_def counter_inc_pow)+

lemma open_right_cong:
  "open_right c e p st \<Longrightarrow> est_of p' e = est_of p e \<Longrightarrow> pool_stats p' = pool_stats p \<Longrightarrow>
   cells_ok c st' \<Longrightarrow> open_cell c st' = open_cell c st \<Longrightarrow> open_right c e p' st'"
  by (simp add: open_right_def)

lemma give_back_open:
  assumes "give_back e k p st = (p', st')" "open_right c e p st"
  shows "open_right c e p' st'"
proof (cases "established p e")
  case None
  then show ?thesis using assms by (simp add: give_back_def)
next
  case (Some n)
  from assms(2) have ok: "cells_ok c st" "pool_stats p = c" by (simp_all add: open_right_def)
  have l: "cells_ok c st'" using cells_ok_mono give_back_ledger(1) [OF assms(1)] ok by blast
  have r: "p' = p\<lparr>established := (established p)(e \<mapsto> n - k)\<rparr>"
    "st' = (if n - k < pcs_max_connections c then opt_set (pcs_cx_open c) 0 st else st)"
    using assms(1) Some ok by (auto simp: give_back_def)
  have n: "est_of p e = n" "est_of p' e = n - k" by (simp_all add: r est_of_def Some)
  show ?thesis
  proof (cases "n - k < pcs_max_connections c")
    case True
    then show ?thesis using assms(2) l ok n open_cell_set [OF ok(1), of 0]
      by (auto simp: open_right_def r at_cap_def)
  next
    case False
    have "n \<le> pcs_max_connections c" using assms(2) n by (simp add: open_right_def)
    with False have "n - k = n" by linarith
    then have "est_of p' e = est_of p e" "st' = st" using n False by (simp_all add: r)
    then show ?thesis using open_right_cong [OF assms(2), of p' st'] l by (simp add: r)
  qed
qed

lemma reserve_open:
  assumes "reserve e p st = (r, p', st')" "open_right c e p st"
  shows "open_right c e p' st'"
proof -
  from assms(2) have ok: "cells_ok c st" "pool_stats p = c" by (simp_all add: open_right_def)
  have l: "cells_ok c st'" using cells_ok_mono reserve_ledger [OF assms(1)] ok by blast
  then show ?thesis
    using assms ok open_cell_set [OF ok(1), of 1]
    by (auto simp: reserve_def Let_def open_right_def est_of_def at_cap_def split: if_splits option.splits)
qed

lemma open_right_inc_pow:
  assumes "open_right c e p st"
  shows "open_right c e p ((counter_inc i ^^ k) st)"
  using assms by (auto simp: open_right_def open_cell_frame cells_ok_def counter_inc_pow)

lemma book_evictions_open:
  assumes "book_evictions evs p st = (p', st')" "open_right c e p st" "\<forall>x \<in> set evs. fst x = e"
  shows "open_right c e p' st'"
  using assms
proof (induction evs arbitrary: p st)
  case (Cons x evs)
  obtain k where x: "x = (e, k)" using Cons.prems(3) by (cases x) auto
  obtain p1 st1 where g: "give_back e k p st = (p1, st1)" by fastforce
  show ?case
    by (rule Cons.IH [of p1 "(counter_inc (pcs_cx_destroy (pool_stats p)) ^^ k) st1"])
      (use Cons.prems g x in \<open>auto intro: open_right_inc_pow give_back_open\<close>)
qed simp

lemma h1_step_open:
  assumes "h1_step s s'" "open_right c e (h_pool s) (h_stats s)" "\<forall>e'. e' = e"
  shows "open_right c e (h_pool s') (h_stats s')"
  using assms
proof (induction rule: h1_step.induct)
  case (hit s t e' g p' st')
  from hit.hyps(2) hit.prems(1) show ?case
    by (auto elim!: pop_idleE intro!: open_right_cong [OF hit.prems(1)]
        simp: open_right_def open_cell_frame gauge_bump_ledger est_of_def)
next
  case (refused s t e' err p' st')
  have "e' = e" by (rule spec [OF refused.prems(2)])
  then show ?case using reserve_open [OF _ refused.prems(1)] refused.hyps(2) by simp
next
  case (reserved s t e' u p' st')
  have "e' = e" by (rule spec [OF reserved.prems(2)])
  then show ?case using reserve_open [OF _ reserved.prems(1)] reserved.hyps(2) by simp
next
  case (connect_ok s t e' x g st')
  have ok: "cells_ok c (h_stats s)" "pool_stats (h_pool s) = c"
    using connect_ok.prems(1) by (simp_all add: open_right_def)
  then have ok2: "cells_ok c (counter_inc (pcs_cx_proto_total c) (counter_inc (pcs_cx_total c) (h_stats s)))"
    by (auto simp: cells_ok_def counter_inc_def)
  have "open_cell c st' = open_cell c (h_stats s)"
    using connect_ok.hyps(2) ok open_cell_frame(1) [OF ok2] by (auto simp: connected_def open_cell_frame)
  moreover have "cells_ok c st'" using connected_ledger(1) [OF connect_ok.hyps(2)] ok by simp
  ultimately show ?case using open_right_cong [OF connect_ok.prems(1) refl refl] by simp
next
  case (connect_err s t e' p' st')
  have "e' = e" by (rule spec [OF connect_err.prems(2)])
  then show ?case using give_back_open [OF _ connect_err.prems(1)] connect_err.hyps(2) by simp
next
  case (dropped s t g now p' st')
  have e: "pg_endpoint g = e" by (rule spec [OF dropped.prems(2)])
  have ok: "cells_ok c (h_stats s)" "pool_stats (h_pool s) = c"
    using dropped.prems(1) by (simp_all add: open_right_def)
  show ?case
  proof (cases "pg_stream g")
    case None
    let ?st = "counter_inc (pcs_cx_destroy c) (h_stats s)"
    obtain st1 where g: "give_back e 1 (h_pool s) ?st = (p', st1)" and st': "st' = gauge_dec (pcs_cx_active c) st1"
      using dropped.hyps(2) None ok e by (auto simp: drop_guard_def split: prod.splits)
    have "open_right c e (h_pool s) ?st"
      using open_right_inc_pow [OF dropped.prems(1), of 1 "pcs_cx_destroy c"] by simp
    from give_back_open [OF g this] show ?thesis
      by (simp add: st' open_right_def open_cell_frame gauge_bump_ledger)
  next
    case (Some x)
    then have r: "p' = (h_pool s)\<lparr>idle := vm_push (pg_endpoint g) \<lparr>ie_stream = x, last_returned = now\<rparr> (idle (h_pool s))\<rparr>"
      "st' = gauge_dec (pcs_cx_active c) (h_stats s)"
      using dropped.hyps(2) ok by (auto simp: drop_guard_def)
    have "open_right c e p' st'"
      by (rule open_right_cong [OF dropped.prems(1)])
        (simp_all add: r est_of_def open_cell_frame(2) [OF ok(1)] gauge_bump_ledger(2) [OF ok(1)])
    then show ?thesis by simp
  qed
next
  case (sweep_collect s now p' evs)
  have "est_of p' = est_of (h_pool s)" using sweep_idle_count(2) [OF sweep_collect.hyps(2)] by (rule est_of_cong)
  then show ?case
    using sweep_collect.prems(1) sweep_idle_count(3) [OF sweep_collect.hyps(2)] by (simp add: open_right_def)
next
  case (sweep_book s p' st')
  have "\<forall>x \<in> set (h_sweep s). fst x = e" using spec [OF sweep_book.prems(2)] by (intro ballI)
  then show ?case using book_evictions_open [OF sweep_book.hyps sweep_book.prems(1)] by simp
next
  case (env s st')
  then show ?case
    by (auto simp: same_cells_def open_right_def intro: cells_ok_mono)
qed simp_all

text \<open>
  In a pool with one endpoint, the \<open>cx_open\<close> gauge is 1 exactly while the endpoint is at
  \<open>max_connections\<close>, through every interleaving; so it is 0 again once the pool has drained.
\<close>

theorem h1_cx_open_single:
  assumes "h1_init c s0" "cells_ok c (h_stats s0)" "open_cell c (h_stats s0) = Some 0"
    and "h1_step\<^sup>*\<^sup>* s0 s" and "\<forall>e'. e' = e"
  shows "open_cell c (h_stats s) =
    Some (if 0 < h1_live s e \<and> h1_live s e = pcs_max_connections c then 1 else 0)"
proof -
  have "open_right c e (h_pool s) (h_stats s) \<and> open_cell c (h_stats s) \<noteq> None"
    using assms(4)
  proof (induction rule: rtranclp_induct)
    case base
    then show ?case using assms(1-3) by (simp add: open_right_def h1_init_def est_of_def at_cap_def)
  next
    case (step s s')
    then show ?case using h1_step_open [OF step.hyps(2) _ assms(5)] by (auto simp: open_cell_def)
  qed
  then obtain v where v: "open_cell c (h_stats s) = Some v" "v = at_cap c (est_of (h_pool s) e)"
    unfolding open_right_def by blast
  have a: "est_of (h_pool s) e = h1_live s e" "est_of (h_pool s) e \<le> pcs_max_connections c"
    using h1.reach_account [OF assms(1,4), THEN conjunct2, THEN spec, of e] by auto
  show ?thesis using v a by (auto simp: at_cap_def)
qed

section \<open>Pools start clean\<close>

lemma pools_for_clean:
  assumes "pools_for cm cfgs m st = Some (Inr m', st')" "stats_wf st" "bt_wf m"
    and "\<forall>n p. bt_get m n = Some p \<longrightarrow> established p = (\<lambda>_. None) \<and> idle p = [] \<and> cells_ok (pool_stats p) st"
  shows "\<forall>n p. bt_get m' n = Some p \<longrightarrow> established p = (\<lambda>_. None) \<and> idle p = [] \<and> cells_ok (pool_stats p) st'"
  using assms
proof (induction cm cfgs m st rule: pools_for.induct)
  case (2 cm cfg cfgs m st)
  obtain handle where h: "cm_get cm (cc_name cfg) = Some handle"
    using "2.prems"(1) by (auto split: option.splits)
  show ?case
  proof (cases "cl_upstream_protocol handle = Http1")
    case False
    then show ?thesis using "2.IH"(1) [OF h] "2.prems" h by simp
  next
    case True
    then obtain c st1 where r: "register_pool_cluster_stats cfg ''upstream_cx_http1_total'' st = (Inr c, st1)"
      and rest: "pools_for cm cfgs
        (bt_insert (cc_name cfg) (H1Pool_new (cc_name cfg) c (pool_idle_timeout_of cfg)) m) st1 = Some (Inr m', st')"
      using "2.prems"(1) h by (auto split: prod.splits sum.splits)
    note k = register_pool_cells [OF "2.prems"(2) r, simplified]
    then have k': "stats_wf st1" "cells_ok c st1" "names_keep st st1" by (simp_all add: names_keep_def)
    show ?thesis
      by (rule "2.IH"(2) [OF h _ r [symmetric] refl rest k'(1)])
        (use True "2.prems"(3,4) k'(2) cells_ok_keep [OF _ k'(3)] in
          \<open>auto simp: bt_wf_insert H1Pool_new_def split: if_splits\<close>)
  qed
qed simp

text \<open>Every pool of \<open>for_bootstrap\<close> starts in a state the account theorems begin from.\<close>

lemma for_bootstrap_clean:
  assumes "H1PoolManager_for_bootstrap b cm st = Some (Inr m, st')" "stats_wf st" "bt_get m n = Some p"
  shows "h1_init (pool_stats p) \<lparr>h_pool = p, h_stats = st', h_pc = (\<lambda>_. Outside), h_sweep = []\<rparr>
    \<and> cells_ok (pool_stats p) st'"
  using pools_for_clean [OF assms(1) [unfolded H1PoolManager_for_bootstrap_def] assms(2)] assms(3)
  by (simp add: h1_init_def)

section \<open>A run\<close>

definition demo_h1 :: "(unit, nat) h1_sys" where
  "demo_h1 = \<lparr>h_pool = H1Pool_new ''c'' demo_pcs 60000000, h_stats = demo_pool_stats,
     h_pc = (\<lambda>_. Outside), h_sweep = []\<rparr>"

definition demo_h1_held :: "(unit, nat) h1_sys" where
  "demo_h1_held =
     (case acquire (\<lambda>_. Inr 7 :: unit + nat) () (h_pool demo_h1) (h_stats demo_h1) of
        (r, p', st') \<Rightarrow> demo_h1\<lparr>h_pool := p', h_stats := st',
          h_pc := (h_pc demo_h1)(0 := (case r of Inl _ \<Rightarrow> Outside | Inr g \<Rightarrow> Holding g))\<rparr>)"

lemma demo_h1_ok:
  "h1_init demo_pcs demo_h1" "cells_ok demo_pcs (h_stats demo_h1)"
  "open_cell demo_pcs (h_stats demo_h1) = Some 0" "h1_step\<^sup>*\<^sup>* demo_h1 demo_h1_held"
proof -
  show "h1_init demo_pcs demo_h1" by (simp add: h1_init_def demo_h1_def H1Pool_new_def)
  show "cells_ok demo_pcs (h_stats demo_h1)" "open_cell demo_pcs (h_stats demo_h1) = Some 0"
    by (simp_all add: cells_ok_def demo_h1_def demo_pcs_def demo_pool_stats_def open_cell_def)
  have "h_pc demo_h1 0 = Outside" by (simp add: demo_h1_def)
  from acquire_steps [OF this] show "h1_step\<^sup>*\<^sup>* demo_h1 demo_h1_held"
    by (auto simp: demo_h1_held_def split: prod.splits)
qed

theorem h1_pool_account_witness:
  "h1_live demo_h1_held () \<le> 1 \<and> est_of (h_pool demo_h1_held) () = h1_live demo_h1_held ()
    \<and> est_of (h_pool demo_h1_held) () = 1"
  using h1_pool_account [OF demo_h1_ok(1,2,4), of "()"]
  by (simp add: demo_h1_held_def demo_h1_def demo_pcs_def H1Pool_new_def acquire_def pop_idle_def
      reserve_def est_of_def connected_def)

theorem h1_cx_open_single_witness:
  "open_cell demo_pcs (h_stats demo_h1_held) = Some 1"
proof -
  have "h1_live demo_h1_held () = 1"
    using h1.reach_account [OF demo_h1_ok(1,4), THEN conjunct2, THEN spec, of "()"]
    by (simp add: demo_h1_held_def demo_h1_def demo_pcs_def H1Pool_new_def acquire_def pop_idle_def
        reserve_def est_of_def connected_def)
  then show ?thesis
    using h1_cx_open_single [OF demo_h1_ok, of "()"] by (simp add: demo_pcs_def)
qed

end
