(* ===== verification/Proxy.thy ===== *)
theory Proxy
  imports H1_Pool Routing
begin

text \<open>
  The proxy arm of the HTTP/1 connection manager: \<open>construct_proxied_response\<close>
  (\<open>envoy-http1/src/router.rs\<close>), one upstream attempt (\<open>run_attempt\<close>) and the retry loop
  of \<open>serve_connection\<close> (\<open>envoy-http1/src/hcm.rs\<close>). The network is a parameter: what
  each connect and each exchange of an attempt returns, and the clock, given the number
  of the attempt. An exchange is the in-repository client, which can panic on what an upstream
  sends (theory Http1_Client): it has the outcome \<open>None\<close>, and the attempt then has it too. One request is followed from its admission to its final response; how
  requests interleave in the pool and in the budgets is the subject of the theories of
  those components. An out-of-bounds pick is the outcome \<open>None\<close>.
\<close>

section \<open>Proxied responses (router.rs)\<close>

definition proxied_header :: "string \<Rightarrow> string \<times> string \<Rightarrow> headers" where
  "proxied_header date kv =
     (let name = str_to_ascii_lowercase (fst kv) in
      if name = ''server'' then [(name, ''envoy-rust'')]
      else if name = ''date'' then [(name, date)]
      else if name = ''connection'' \<or> name = ''transfer-encoding'' then []
      else [(name, snd kv)])"

definition construct_proxied_response :: "string \<Rightarrow> Response \<Rightarrow> nat \<Rightarrow> bool \<Rightarrow> Response" where
  "construct_proxied_response date r elapsed_ms close =
     (let names = map (\<lambda>kv. str_to_ascii_lowercase (fst kv)) (resp_headers r);
          hs = concat (map (proxied_header date) (resp_headers r))
            @ (if ''server'' \<in> set names then [] else [(''server'', ''envoy-rust'')])
            @ (if ''date'' \<in> set names then [] else [(''date'', date)])
            @ (if ''content-length'' \<in> set names then []
               else [(''content-length'', show_nat (length (resp_body r)))])
            @ [(''x-envoy-upstream-service-time'', show_nat elapsed_ms),
               (''connection'', connection_value close)]
      in r\<lparr>resp_headers := hs\<rparr>)"

section \<open>One attempt\<close>

record ('addr, 's) upstream =
  up_connect :: "nat \<Rightarrow> 'addr \<Rightarrow> unit + 's"
  up_exchange :: "nat \<Rightarrow> 's \<Rightarrow> Request \<Rightarrow> (unit + Response) option"
  up_elapsed_ms :: "nat \<Rightarrow> nat"
  up_now :: "nat \<Rightarrow> nat"

record ('addr, 's) proxy_state =
  ps_cluster :: "'addr cluster"
  ps_pools :: "(string, ('addr, 's) H1Pool) btmap option"
  ps_stats :: stats

record 'addr AttemptResult =
  at_response :: Response
  at_endpoint :: "'addr option"
  at_outcome :: "AttemptOutcome option"
  at_upstream_response :: bool

definition no_endpoint_result :: "string \<Rightarrow> bool \<Rightarrow> 'addr AttemptResult" where
  "no_endpoint_result date close =
     \<lparr>at_response = synth_no_healthy_upstream date close, at_endpoint = None, at_outcome = None,
      at_upstream_response = False\<rparr>"

definition failed_result :: "string \<Rightarrow> bool \<Rightarrow> 'addr \<Rightarrow> AttemptOutcome \<Rightarrow> 'addr AttemptResult" where
  "failed_result date close e outcome =
     \<lparr>at_response = synth_status date 503 close, at_endpoint = Some e, at_outcome = Some outcome,
      at_upstream_response = False\<rparr>"

definition overflow_result :: "string \<Rightarrow> bool \<Rightarrow> 'addr \<Rightarrow> 'addr AttemptResult" where
  "overflow_result date close e =
     \<lparr>at_response = synth_overflow date close, at_endpoint = Some e, at_outcome = None,
      at_upstream_response = False\<rparr>"

definition upstream_close :: "Response \<Rightarrow> bool" where
  "upstream_close r = list_ex (\<lambda>(n, v). eq_ignore_ascii_case n ''connection'' \<and> eq_ignore_ascii_case v ''close'')
     (resp_headers r)"

text \<open>The exchange on an acquired stream: the result, and whether the stream is spoilt.\<close>

definition exchange_result :: "('addr, 's) upstream \<Rightarrow> nat \<Rightarrow> string \<Rightarrow> bool \<Rightarrow> Request \<Rightarrow> 'addr \<Rightarrow> 's
    \<Rightarrow> ('addr AttemptResult \<times> bool) option" where
  "exchange_result up k date close req e s =
     map_option (case_sum (\<lambda>_. (failed_result date close e OutcomeReset, True))
       (\<lambda>r. (\<lparr>at_response = construct_proxied_response date r (up_elapsed_ms up k) close,
              at_endpoint = Some e, at_outcome = Some OutcomeResponse, at_upstream_response = True\<rparr>,
             upstream_close r)))
       (up_exchange up k s req)"

text \<open>
  The attempt on a pooled stream; the guard is dropped when \<open>run_attempt\<close> returns. A
  stream taken from a guard is never missing: \<open>acquire\<close> returns guards with a stream.
\<close>

definition pooled_attempt :: "('addr, 's) upstream \<Rightarrow> nat \<Rightarrow> string \<Rightarrow> bool \<Rightarrow> Request \<Rightarrow> 'addr
    \<Rightarrow> ('addr, 's) H1Pool \<Rightarrow> stats \<Rightarrow> ('addr AttemptResult \<times> ('addr, 's) H1Pool \<times> stats) option" where
  "pooled_attempt up k date close req e p st =
     (case acquire (up_connect up k) e p st of
        (Inl (Connect _), p', st') \<Rightarrow> Some (failed_result date close e ConnectFailure, p', st')
      | (Inl _, p', st') \<Rightarrow> Some (overflow_result date close e, p', st')
      | (Inr g, p', st') \<Rightarrow>
          (case stream_mut g of
             None \<Rightarrow> None
           | Some s \<Rightarrow>
               (case exchange_result up k date close req e s of
                  None \<Rightarrow> None
                | Some (r, spoilt) \<Rightarrow>
                    (let g' = (if spoilt then invalidate g else g);
                         (p'', st'') = drop_guard (up_now up k) g' p' st'
                     in Some (r, p'', st'')))))"

text \<open>Without a pool: connect, count, and hold the gauge until the stream is closed.\<close>

definition one_shot_attempt :: "('addr, 's) upstream \<Rightarrow> nat \<Rightarrow> string \<Rightarrow> bool \<Rightarrow> Request \<Rightarrow> 'addr
    \<Rightarrow> 'addr cluster \<Rightarrow> stats \<Rightarrow> ('addr AttemptResult \<times> stats) option" where
  "one_shot_attempt up k date close req e c st =
     (case up_connect up k e of
        Inl _ \<Rightarrow> Some (failed_result date close e ConnectFailure, st)
      | Inr s \<Rightarrow>
          map_option (\<lambda>(r, _). (r, gauge_dec (cx_active c) (gauge_inc (cx_active c) (counter_inc (cx_total c) st))))
            (exchange_result up k date close req e s))"

definition run_attempt :: "('addr, 's) upstream \<Rightarrow> nat \<Rightarrow> string \<Rightarrow> bool \<Rightarrow> string \<Rightarrow> u64 option \<Rightarrow> lb_metadata option
    \<Rightarrow> Request \<Rightarrow> ('addr, 's) proxy_state \<Rightarrow> ('addr AttemptResult \<times> ('addr, 's) proxy_state) option" where
  "run_attempt up k date close cluster_name hash_key subset_match req s =
     (case pick (ps_cluster s) hash_key subset_match of
        (IndexPanic, c) \<Rightarrow> None
      | (NoEndpoint, c) \<Rightarrow> Some (no_endpoint_result date close, s\<lparr>ps_cluster := c\<rparr>)
      | (Picked e, c) \<Rightarrow>
          (case Option.bind (ps_pools s) (\<lambda>m. bt_get m cluster_name) of
             Some p \<Rightarrow>
               (case pooled_attempt up k date close req e p (ps_stats s) of
                  None \<Rightarrow> None
                | Some (r, p', st') \<Rightarrow>
                    Some (r, s\<lparr>ps_cluster := c, ps_pools := map_option (bt_insert cluster_name p') (ps_pools s),
                                ps_stats := st'\<rparr>))
           | None \<Rightarrow>
               map_option (\<lambda>(r, st'). (r, s\<lparr>ps_cluster := c, ps_stats := st'\<rparr>))
                 (one_shot_attempt up k date close req e c (ps_stats s))))"

section \<open>The retry loop\<close>

definition tick :: "('addr cluster \<Rightarrow> nat) \<Rightarrow> ('addr, 's) proxy_state \<Rightarrow> ('addr, 's) proxy_state" where
  "tick h s = s\<lparr>ps_stats := counter_inc (h (ps_cluster s)) (ps_stats s)\<rparr>"

definition set_budget :: "budget_state option \<times> stats \<Rightarrow> ('addr, 's) proxy_state \<Rightarrow> ('addr, 's) proxy_state" where
  "set_budget bst s = s\<lparr>ps_cluster := (ps_cluster s)\<lparr>cl_budget := fst bst\<rparr>, ps_stats := snd bst\<rparr>"

definition acquire_retry :: "('addr, 's) proxy_state \<Rightarrow> BudgetAcquisition \<times> ('addr, 's) proxy_state" where
  "acquire_retry s =
     (let (a, b, st) = cluster_try_acquire_retry (cl_budget (ps_cluster s), ps_stats s) in (a, set_budget (b, st) s))"

definition acquire_request :: "('addr, 's) proxy_state \<Rightarrow> BudgetAcquisition \<times> ('addr, 's) proxy_state" where
  "acquire_request s =
     (let (a, b, st) = cluster_try_acquire_request (cl_budget (ps_cluster s), ps_stats s) in (a, set_budget (b, st) s))"

definition release_retry :: "('addr, 's) proxy_state \<Rightarrow> ('addr, 's) proxy_state" where
  "release_retry s =
     (case cl_budget (ps_cluster s) of
        None \<Rightarrow> s
      | Some b \<Rightarrow> (let (b', st) = drop_retry_guard (b, ps_stats s) in set_budget (Some b', st) s))"

definition release_request :: "('addr, 's) proxy_state \<Rightarrow> ('addr, 's) proxy_state" where
  "release_request s =
     (case cl_budget (ps_cluster s) of
        None \<Rightarrow> s
      | Some b \<Rightarrow> (let (b', st) = drop_request_guard (b, ps_stats s) in set_budget (Some b', st) s))"

text \<open>What the loop does with an attempt before the retry decision.\<close>

definition after_attempt :: "('addr, 's) upstream \<Rightarrow> nat \<Rightarrow> 'addr AttemptResult \<Rightarrow> ('addr, 's) proxy_state
    \<Rightarrow> ('addr, 's) proxy_state" where
  "after_attempt up k r s =
     (let s1 = (if at_upstream_response r then tick upstream_rq_total s else s) in
      case at_endpoint r of
        None \<Rightarrow> s1
      | Some e \<Rightarrow> s1\<lparr>ps_cluster := (ps_cluster s1)\<lparr>cl_outlier :=
          cluster_record_response (up_now up k) (cl_endpoints (ps_cluster s1)) e (resp_status (at_response r))
            (cl_outlier (ps_cluster s1))\<rparr>\<rparr>)"

definition attempt_details :: "'addr AttemptResult \<Rightarrow> string" where
  "attempt_details r =
     (case at_endpoint r of
        None \<Rightarrow> ''no_healthy_upstream''
      | Some _ \<Rightarrow> if at_outcome r = None then ''upstream_reset_before_response_started{overflow}'' else ''via_upstream'')"

definition attempt_retriable :: "RetryConfig option \<Rightarrow> 'addr AttemptResult \<Rightarrow> bool" where
  "attempt_retriable rc r =
     (case at_outcome r of
        None \<Rightarrow> False
      | Some outcome \<Rightarrow> (case rc of None \<Rightarrow> False | Some c \<Rightarrow> is_retriable c (resp_status (at_response r)) outcome))"

definition max_retries_of :: "RetryConfig option \<Rightarrow> nat" where
  "max_retries_of rc = (case rc of None \<Rightarrow> 0 | Some c \<Rightarrow> num_retries c)"

text \<open>
  The loop. \<open>attempts\<close> counts the attempts already made and \<open>guard\<close> says whether
  \<open>retry_guard_slot\<close> holds a guard; assigning the slot drops the guard it held, after the
  new one has been acquired. The result has the attempts in order, whether the loop was
  left because the retry budget was exhausted, and whether a guard is still held.
\<close>

function retry_loop :: "('addr, 's) upstream \<Rightarrow> string \<Rightarrow> bool \<Rightarrow> string \<Rightarrow> u64 option \<Rightarrow> lb_metadata option
    \<Rightarrow> RetryConfig option \<Rightarrow> Request \<Rightarrow> nat \<Rightarrow> bool \<Rightarrow> ('addr, 's) proxy_state
    \<Rightarrow> ('addr AttemptResult list \<times> bool \<times> bool \<times> ('addr, 's) proxy_state) option" where
  "retry_loop up date close name hk sm rc req attempts guard s =
     (let k = attempts + 1 in
      case run_attempt up k date close name hk sm req s of
        None \<Rightarrow> None
      | Some (r, s1) \<Rightarrow>
          let s2 = after_attempt up k r s1 in
          if attempt_retriable rc r \<and> k \<le> max_retries_of rc
          then (case acquire_retry s2 of
              (Rejected, s3) \<Rightarrow> Some ([r], True, guard, s3)
            | (Unlimited, s3) \<Rightarrow>
                map_option (\<lambda>(rs, x). (r # rs, x))
                  (retry_loop up date close name hk sm rc req k guard (tick upstream_rq_retry s3))
            | (Acquired, s3) \<Rightarrow>
                let s4 = tick upstream_rq_retry s3; s5 = (if guard then release_retry s4 else s4) in
                map_option (\<lambda>(rs, x). (r # rs, x)) (retry_loop up date close name hk sm rc req k True s5))
          else Some ([r], False, guard, s2))"
  by pat_completeness auto
termination
  by (relation "measure (\<lambda>(up, date, close, name, hk, sm, rc, req, attempts, guard, s). max_retries_of rc - attempts)")
    auto

declare retry_loop.simps [simp del]

section \<open>The proxy arm\<close>

record 'addr proxied =
  px_response :: Response
  px_local :: bool
  px_host :: "'addr option"
  px_details :: string
  px_retry_limit_exceeded :: bool
  px_connect_failure :: bool

definition attempt_count_header :: "bool \<Rightarrow> nat \<Rightarrow> Response \<Rightarrow> Response" where
  "attempt_count_header b n r =
     (if b then r\<lparr>resp_headers := resp_headers r @ [(''x-envoy-attempt-count'', show_nat n)]\<rparr> else r)"

fun last_host :: "'addr AttemptResult list \<Rightarrow> 'addr option" where
  "last_host [] = None"
| "last_host (r # rs) = (case last_host rs of None \<Rightarrow> at_endpoint r | Some e \<Rightarrow> Some e)"

text \<open>After the loop: the counters of the completing response and of the retries, and the log fields.\<close>

definition after_loop :: "RetryConfig option \<Rightarrow> bool \<Rightarrow> 'addr AttemptResult list \<Rightarrow> bool \<Rightarrow> bool
    \<Rightarrow> ('addr, 's) proxy_state \<Rightarrow> 'addr proxied \<times> ('addr, 's) proxy_state" where
  "after_loop rc include_count rs blocked guard s =
     (let r = last rs; n = length rs; final_retriable = attempt_retriable rc r;
          s1 = (if at_upstream_response r \<and> resp_status (at_response r) div 100 = 5 then tick upstream_rq_5xx s else s);
          split = (n > 1 \<and> \<not> blocked);
          limit = (split \<and> final_retriable);
          s2 = (if limit then tick upstream_rq_retry_limit_exceeded s1
                else if split then tick upstream_rq_retry_success s1 else s1);
          s3 = (if guard then release_retry s2 else s2)
      in (\<lparr>px_response = attempt_count_header include_count n (at_response r),
           px_local = (\<not> at_upstream_response r), px_host = last_host rs,
           px_details = (if at_outcome r = Some OutcomeReset \<and> \<not> limit
             then ''upstream_reset_before_response_started{connection_termination}'' else attempt_details r),
           px_retry_limit_exceeded = limit, px_connect_failure = (at_outcome r = Some ConnectFailure)\<rparr>, s3))"

definition proxy_arm :: "('addr, 's) upstream \<Rightarrow> string \<Rightarrow> bool \<Rightarrow> string \<Rightarrow> RetryConfig option \<Rightarrow> bool \<Rightarrow> u64 option
    \<Rightarrow> lb_metadata option \<Rightarrow> Request \<Rightarrow> ('addr, 's) proxy_state \<Rightarrow> ('addr proxied \<times> ('addr, 's) proxy_state) option" where
  "proxy_arm up date close name rc include_count hk sm req s =
     (case acquire_request s of
        (Rejected, s1) \<Rightarrow>
          Some (\<lparr>px_response = attempt_count_header include_count 1 (synth_overflow date close), px_local = True,
                 px_host = None, px_details = ''upstream_reset_before_response_started{overflow}'',
                 px_retry_limit_exceeded = False, px_connect_failure = False\<rparr>, tick upstream_rq_5xx s1)
      | (a, s1) \<Rightarrow>
          (case retry_loop up date close name hk sm rc req 0 False s1 of
             None \<Rightarrow> None
           | Some (rs, blocked, guard, s2) \<Rightarrow>
               (let (p, s3) = after_loop rc include_count rs blocked guard s2
                in Some (p, if a = Acquired then release_request s3 else s3))))"

text \<open>The attempts of a request, in order: none when it is not admitted.\<close>

definition proxy_attempts :: "('addr, 's) upstream \<Rightarrow> string \<Rightarrow> bool \<Rightarrow> string \<Rightarrow> RetryConfig option \<Rightarrow> u64 option
    \<Rightarrow> lb_metadata option \<Rightarrow> Request \<Rightarrow> ('addr, 's) proxy_state \<Rightarrow> 'addr AttemptResult list" where
  "proxy_attempts up date close name rc hk sm req s =
     (case acquire_request s of
        (Rejected, s1) \<Rightarrow> []
      | (a, s1) \<Rightarrow>
          (case retry_loop up date close name hk sm rc req 0 False s1 of None \<Rightarrow> [] | Some (rs, x) \<Rightarrow> rs))"

section \<open>The shape of a run\<close>

text \<open>Induction over the iterations of a run of the loop that returns.\<close>

lemma retry_loop_induct [consumes 1, case_names finished blocked unlimited acquired]:
  assumes run: "retry_loop up date close name hk sm rc req attempts guard s = Some (rs, b, g', s')"
    and finished: "\<And>k guard s r s1. run_attempt up (k + 1) date close name hk sm req s = Some (r, s1) \<Longrightarrow>
      \<not> (attempt_retriable rc r \<and> k + 1 \<le> max_retries_of rc) \<Longrightarrow>
      P k guard s [r] False guard (after_attempt up (k + 1) r s1)"
    and blocked: "\<And>k guard s r s1 s3. run_attempt up (k + 1) date close name hk sm req s = Some (r, s1) \<Longrightarrow>
      attempt_retriable rc r \<Longrightarrow> k + 1 \<le> max_retries_of rc \<Longrightarrow>
      acquire_retry (after_attempt up (k + 1) r s1) = (Rejected, s3) \<Longrightarrow> P k guard s [r] True guard s3"
    and unlimited: "\<And>k guard s r s1 s3 rs b g' s'. run_attempt up (k + 1) date close name hk sm req s = Some (r, s1) \<Longrightarrow>
      attempt_retriable rc r \<Longrightarrow> k + 1 \<le> max_retries_of rc \<Longrightarrow>
      acquire_retry (after_attempt up (k + 1) r s1) = (Unlimited, s3) \<Longrightarrow>
      P (k + 1) guard (tick upstream_rq_retry s3) rs b g' s' \<Longrightarrow> P k guard s (r # rs) b g' s'"
    and acquired: "\<And>k guard s r s1 s3 rs b g' s'. run_attempt up (k + 1) date close name hk sm req s = Some (r, s1) \<Longrightarrow>
      attempt_retriable rc r \<Longrightarrow> k + 1 \<le> max_retries_of rc \<Longrightarrow>
      acquire_retry (after_attempt up (k + 1) r s1) = (Acquired, s3) \<Longrightarrow>
      P (k + 1) True (if guard then release_retry (tick upstream_rq_retry s3) else tick upstream_rq_retry s3)
        rs b g' s' \<Longrightarrow> P k guard s (r # rs) b g' s'"
  shows "P attempts guard s rs b g' s'"
  using run
proof (induction "max_retries_of rc - attempts" arbitrary: attempts guard s rs b g' s' rule: less_induct)
  case less
  note run = less.prems [unfolded retry_loop.simps [of up date close name hk sm rc req attempts]]
  obtain r s1 where a: "run_attempt up (attempts + 1) date close name hk sm req s = Some (r, s1)"
    using run by (auto simp: Let_def split: option.splits)
  obtain q s3 where q: "acquire_retry (after_attempt up (attempts + 1) r s1) = (q, s3)" by fastforce
  show ?case
  proof (cases "attempt_retriable rc r \<and> attempts + 1 \<le> max_retries_of rc")
    case False
    then show ?thesis using run a finished [OF a False] by (auto simp: Let_def)
  next
    case True
    then have lt: "max_retries_of rc - (attempts + 1) < max_retries_of rc - attempts" by linarith
    show ?thesis
    proof (cases q)
      case Rejected
      then show ?thesis using run a q True blocked [OF a] by (auto simp: Let_def)
    next
      case Unlimited
      then obtain rs' where "retry_loop up date close name hk sm rc req (attempts + 1) guard (tick upstream_rq_retry s3)
          = Some (rs', b, g', s')" "rs = r # rs'"
        using run a q True by (auto simp: Let_def)
      with less.hyps [OF lt] unlimited [OF a] True q Unlimited show ?thesis by blast
    next
      case Acquired
      then obtain rs' where "retry_loop up date close name hk sm rc req (attempts + 1) True
          (if guard then release_retry (tick upstream_rq_retry s3) else tick upstream_rq_retry s3)
          = Some (rs', b, g', s')" "rs = r # rs'"
        using run a q True by (auto simp: Let_def)
      with less.hyps [OF lt] acquired [OF a] True q Acquired show ?thesis by blast
    qed
  qed
qed

lemma retry_loop_shape:
  assumes "retry_loop up date close name hk sm rc req attempts guard s = Some (rs, blocked, g', s')"
  shows "rs \<noteq> [] \<and> attempts + length rs \<le> max (attempts + 1) (max_retries_of rc + 1)
    \<and> (\<forall>r \<in> set (butlast rs). attempt_retriable rc r)
    \<and> (blocked \<longrightarrow> attempt_retriable rc (last rs) \<and> attempts + length rs \<le> max_retries_of rc)
    \<and> (\<not> blocked \<and> attempt_retriable rc (last rs) \<longrightarrow> max_retries_of rc < attempts + length rs)"
  using assms by (induction rule: retry_loop_induct) auto

section \<open>No panic\<close>

lemma acquire_stream:
  assumes "acquire connect e p st = (Inr g, p', st')"
  obtains x where "stream_mut g = Some x" "pg_endpoint g = e"
proof (cases "pop_idle e p st")
  case None
  then show thesis using assms that
    by (auto simp: acquire_def connected_def stream_mut_def split: prod.splits sum.splits)
next
  case (Some gps)
  then obtain g1 p1 st1 where "gps = (g1, p1, st1)" by (cases gps)
  with Some assms show thesis using that by (auto simp: acquire_def stream_mut_def elim!: pop_idleE)
qed

definition exchanges_return :: "('addr, 's) upstream \<Rightarrow> bool" where
  "exchanges_return up \<longleftrightarrow> (\<forall>k x req. up_exchange up k x req \<noteq> None)"

lemma exchange_result_total: "exchanges_return up \<Longrightarrow> \<exists>r b. exchange_result up k date close req e x = Some (r, b)"
proof -
  assume "exchanges_return up"
  then have "up_exchange up k x req \<noteq> None" by (simp add: exchanges_return_def)
  then have "exchange_result up k date close req e x \<noteq> None" by (simp add: exchange_result_def)
  then show ?thesis by auto
qed

lemma pooled_attempt_total:
  assumes "exchanges_return up"
  shows "\<exists>r p' st'. pooled_attempt up k date close req e p st = Some (r, p', st')"
proof -
  obtain a p1 st1 where q: "acquire (up_connect up k) e p st = (a, p1, st1)" by (metis prod_cases3)
  show ?thesis
  proof (cases a)
    case (Inl err)
    then show ?thesis using q by (cases err) (simp_all add: pooled_attempt_def)
  next
    case (Inr g)
    from q [unfolded Inr] obtain x where x: "stream_mut g = Some x" by (rule acquire_stream)
    obtain r b where "exchange_result up k date close req e x = Some (r, b)"
      using exchange_result_total [OF assms] by blast
    then show ?thesis using q Inr x by (auto simp: pooled_attempt_def Let_def split: prod.splits)
  qed
qed

text \<open>What an attempt may change of the cluster: the cursor; the loop also changes outlier state and budget.\<close>

definition cl_fixed :: "'addr cluster \<Rightarrow> 'addr cluster" where
  "cl_fixed c = c\<lparr>cl_cursor := 0, cl_budget := None, cl_outlier := None\<rparr>"

lemma cl_fixedD:
  assumes "cl_fixed c' = cl_fixed c"
  shows "cl_endpoints c' = cl_endpoints c" "cl_health c' = cl_health c" "cx_total c' = cx_total c"
    "upstream_rq_total c' = upstream_rq_total c" "upstream_rq_5xx c' = upstream_rq_5xx c"
    "upstream_rq_retry c' = upstream_rq_retry c" "upstream_rq_retry_success c' = upstream_rq_retry_success c"
    "upstream_rq_retry_limit_exceeded c' = upstream_rq_retry_limit_exceeded c" "cx_active c' = cx_active c"
  using assms by (cases c; cases c'; simp add: cl_fixed_def)+

lemma pick_cluster: "pick c hk sm = (r, c') \<Longrightarrow> c' = c \<or> c' = bump_cursor c"
  by (auto simp: pick_def pick_all_def pick_subset_def pick_cursor_def pick_rr_def Let_def
      split: option.splits eligible.splits if_splits)

lemma pick_keeps:
  assumes "pick c hk sm = (r, c')"
  shows "cl_fixed c' = cl_fixed c" "cl_budget c' = cl_budget c" "cl_outlier c' = cl_outlier c"
  using pick_cluster [OF assms] by (auto simp: cl_fixed_def bump_cursor_def)

lemma run_attempt_keeps:
  assumes "run_attempt up k date close name hk sm req s = Some (r, s')"
  shows "cl_fixed (ps_cluster s') = cl_fixed (ps_cluster s)" "cl_budget (ps_cluster s') = cl_budget (ps_cluster s)"
    "cl_outlier (ps_cluster s') = cl_outlier (ps_cluster s)"
proof -
  obtain q c where p: "pick (ps_cluster s) hk sm = (q, c)" by fastforce
  have "ps_cluster s' = c"
    using assms p by (auto simp: run_attempt_def Let_def split: pick_result.splits option.splits prod.splits)
  then show "cl_fixed (ps_cluster s') = cl_fixed (ps_cluster s)" "cl_budget (ps_cluster s') = cl_budget (ps_cluster s)"
    "cl_outlier (ps_cluster s') = cl_outlier (ps_cluster s)"
    using pick_keeps [OF p] by simp_all
qed

lemma one_shot_attempt_total:
  assumes "exchanges_return up"
  shows "\<exists>r st'. one_shot_attempt up k date close req e c st = Some (r, st')"
proof (cases "up_connect up k e")
  case (Inr x)
  then show ?thesis
    using exchange_result_total [OF assms, of k date close req e x] by (auto simp: one_shot_attempt_def)
qed (simp add: one_shot_attempt_def)

lemma run_attempt_total:
  assumes "cluster_wf (ps_cluster s)" "exchanges_return up"
  shows "\<exists>r s'. run_attempt up k date close name hk sm req s = Some (r, s')"
proof -
  obtain q c where p: "pick (ps_cluster s) hk sm = (q, c)" by fastforce
  have "fst (pick (ps_cluster s) hk sm) \<noteq> IndexPanic"
    using pick_all_endpoint [OF assms(1), of hk] pick_subset_endpoint [OF assms(1)]
    unfolding pick_def by (auto split: option.splits eligible.splits) (metis pick_result.distinct(4,5))+
  then show ?thesis
  proof (cases q)
    case (Picked e)
    show ?thesis
    proof (cases "Option.bind (ps_pools s) (\<lambda>m. bt_get m name)")
      case None
      then show ?thesis
        using p Picked one_shot_attempt_total [OF assms(2), of k date close req e c "ps_stats s"]
        by (auto simp: run_attempt_def)
    next
      case (Some pl)
      obtain r p' st' where "pooled_attempt up k date close req e pl (ps_stats s) = Some (r, p', st')"
        using pooled_attempt_total [OF assms(2), of k date close req e pl "ps_stats s"] by blast
      then show ?thesis using p Picked Some by (simp add: run_attempt_def)
    qed
  qed (use p in \<open>simp_all add: run_attempt_def\<close>)
qed

lemma od_record_length: "length (od_endpoints (od_record_at now n i status od)) = length (od_endpoints od)"
  by (auto simp: od_record_at_def od_put_def Let_def split: prod.splits)

lemma after_attempt_keeps:
  "cl_fixed (ps_cluster (after_attempt up k r s)) = cl_fixed (ps_cluster s)"
  "cl_budget (ps_cluster (after_attempt up k r s)) = cl_budget (ps_cluster s)"
  "ps_pools (after_attempt up k r s) = ps_pools s"
  "cluster_wf (ps_cluster s) \<Longrightarrow> cluster_wf (ps_cluster (after_attempt up k r s))"
  by (auto simp: after_attempt_def tick_def Let_def cl_fixed_def cluster_wf_def cluster_record_response_def
      od_record_length split: option.splits if_splits)

lemma cluster_wf_cong:
  "cl_fixed c' = cl_fixed c \<Longrightarrow> cl_outlier c' = cl_outlier c \<Longrightarrow> cluster_wf c' = cluster_wf c"
  using cl_fixedD(1,2) [of c' c] by (simp add: cluster_wf_def)

lemma set_budget_keeps:
  "cl_fixed (ps_cluster (set_budget bst s)) = cl_fixed (ps_cluster s)"
  "cl_outlier (ps_cluster (set_budget bst s)) = cl_outlier (ps_cluster s)" "ps_pools (set_budget bst s) = ps_pools s"
  "cl_budget (ps_cluster (set_budget bst s)) = fst bst" "ps_stats (set_budget bst s) = snd bst"
  by (simp_all add: set_budget_def cl_fixed_def)

lemma budget_ops_keep:
  "acquire_retry s = (q, s') \<Longrightarrow> cl_fixed (ps_cluster s') = cl_fixed (ps_cluster s) \<and> cl_outlier (ps_cluster s') = cl_outlier (ps_cluster s)"
  "acquire_request s = (q, s') \<Longrightarrow> cl_fixed (ps_cluster s') = cl_fixed (ps_cluster s) \<and> cl_outlier (ps_cluster s') = cl_outlier (ps_cluster s)"
  "cl_fixed (ps_cluster (release_retry s)) = cl_fixed (ps_cluster s)"
  "cl_outlier (ps_cluster (release_retry s)) = cl_outlier (ps_cluster s)"
  by (auto simp: acquire_retry_def acquire_request_def release_retry_def set_budget_keeps split: prod.splits option.splits)

lemma tick_keeps [simp]: "ps_cluster (tick h s) = ps_cluster s" "ps_pools (tick h s) = ps_pools s"
  by (simp_all add: tick_def)

lemma retry_loop_total:
  assumes "cluster_wf (ps_cluster s)" and up: "exchanges_return up"
  shows "\<exists>res. retry_loop up date close name hk sm rc req attempts guard s = Some res"
  using assms(1)
proof (induction "max_retries_of rc - attempts" arbitrary: attempts guard s rule: less_induct)
  case less
  obtain r s1 where a: "run_attempt up (attempts + 1) date close name hk sm req s = Some (r, s1)"
    using run_attempt_total [OF less.prems up] by blast
  let ?s2 = "after_attempt up (attempts + 1) r s1"
  have wf2: "cluster_wf (ps_cluster ?s2)"
    using after_attempt_keeps(4) cluster_wf_cong [OF run_attempt_keeps(1) [OF a] run_attempt_keeps(3) [OF a]] less.prems
    by blast
  obtain q s3 where q: "acquire_retry ?s2 = (q, s3)" by fastforce
  have wf3: "cluster_wf (ps_cluster s3)"
    using wf2 cluster_wf_cong [of "ps_cluster s3" "ps_cluster ?s2"] budget_ops_keep(1) [OF q] by simp
  have wf4: "cluster_wf (ps_cluster (release_retry (tick upstream_rq_retry s3)))"
    using wf3 cluster_wf_cong [OF budget_ops_keep(3,4), of "tick upstream_rq_retry s3"] by simp
  show ?case
  proof (cases "attempt_retriable rc r \<and> attempts + 1 \<le> max_retries_of rc")
    case False
    then show ?thesis using a by (auto simp: retry_loop.simps [of _ _ _ _ _ _ _ _ attempts] Let_def)
  next
    case True
    then have lt: "max_retries_of rc - (attempts + 1) < max_retries_of rc - attempts" by linarith
    obtain x where x: "retry_loop up date close name hk sm rc req (attempts + 1) guard (tick upstream_rq_retry s3) = Some x"
      using less.hyps [OF lt, of "tick upstream_rq_retry s3" guard] wf3 unfolding tick_keeps by blast
    obtain y where y: "retry_loop up date close name hk sm rc req (attempts + 1) True
        (if guard then release_retry (tick upstream_rq_retry s3) else tick upstream_rq_retry s3) = Some y"
      using less.hyps [OF lt, of "if guard then release_retry (tick upstream_rq_retry s3) else tick upstream_rq_retry s3" True]
        wf3 wf4 by (cases guard) (simp_all only: if_True if_False tick_keeps, blast+)
    show ?thesis
      using a q x y True by (cases q; cases x; cases y) (auto simp: retry_loop.simps [of _ _ _ _ _ _ _ _ attempts] Let_def)
  qed
qed

text \<open>
  C10. The proxy arm answers: on a cluster whose per-endpoint arrays are aligned, with a client that does not panic in
  an exchange, every request ends with a response, whatever connects and exchanges return. It makes no attempt when
  the request budget rejects it, and otherwise between one and \<open>num_retries + 1\<close>.
\<close>

theorem proxy_arm_answers:
  assumes "cluster_wf (ps_cluster s)" and "exchanges_return up"
  shows "\<exists>p s'. proxy_arm up date close name rc include_count hk sm req s = Some (p, s')
    \<and> (let n = length (proxy_attempts up date close name rc hk sm req s) in
        if fst (acquire_request s) = Rejected then n = 0 else 1 \<le> n \<and> n \<le> max_retries_of rc + 1)"
proof -
  obtain q s1 where q: "acquire_request s = (q, s1)" by fastforce
  have "cluster_wf (ps_cluster s1)"
    using assms(1) cluster_wf_cong [of "ps_cluster s1" "ps_cluster s"] budget_ops_keep(2) [OF q] by simp
  from retry_loop_total [OF this assms(2), of date close name hk sm rc req 0 False] obtain rs b g s2
    where l: "retry_loop up date close name hk sm rc req 0 False s1 = Some (rs, b, g, s2)" by auto
  from retry_loop_shape [OF l] have "1 \<le> length rs" "length rs \<le> max_retries_of rc + 1" by (cases rs; auto)+
  then show ?thesis
    using q l by (cases q) (auto simp: proxy_arm_def proxy_attempts_def Let_def split: prod.splits)
qed

section \<open>Budgets are returned\<close>

definition retry_active :: "('addr, 's) proxy_state \<Rightarrow> int option" where
  "retry_active s = map_option (\<lambda>b. bs_active (retry_side b)) (cl_budget (ps_cluster s))"

definition request_active :: "('addr, 's) proxy_state \<Rightarrow> int option" where
  "request_active s = map_option (\<lambda>b. bs_active (request_side b)) (cl_budget (ps_cluster s))"

lemma active_cong:
  "cl_budget (ps_cluster s') = cl_budget (ps_cluster s) \<Longrightarrow>
     retry_active s' = retry_active s \<and> request_active s' = request_active s"
  by (simp add: retry_active_def request_active_def)

lemma active_ops:
  "acquire_retry s = (q, s') \<Longrightarrow>
     retry_active s' = map_option (\<lambda>n. n + (if q = Acquired then 1 else 0)) (retry_active s)
     \<and> request_active s' = request_active s"
  "acquire_request s = (q, s') \<Longrightarrow>
     request_active s' = map_option (\<lambda>n. n + (if q = Acquired then 1 else 0)) (request_active s)
     \<and> retry_active s' = retry_active s"
  "retry_active (release_retry s) = map_option (\<lambda>n. n - 1) (retry_active s)"
  "request_active (release_retry s) = request_active s"
  "request_active (release_request s) = map_option (\<lambda>n. n - 1) (request_active s)"
  "retry_active (release_request s) = retry_active s"
  by (auto simp: acquire_retry_def acquire_request_def release_retry_def release_request_def retry_active_def
      request_active_def set_budget_keeps cluster_try_acquire_retry_def cluster_try_acquire_request_def
      try_acquire_retry_def try_acquire_request_def try_acquire_def drop_retry_guard_def drop_request_guard_def
      release_def Let_def split: prod.splits option.splits if_splits)

lemma tick_active [simp]: "retry_active (tick h s) = retry_active s" "request_active (tick h s) = request_active s"
  by (simp_all add: retry_active_def request_active_def)

lemma attempt_active:
  assumes "run_attempt up k date close name hk sm req s = Some (r, s1)"
  shows "retry_active (after_attempt up k' r s1) = retry_active s"
    "request_active (after_attempt up k' r s1) = request_active s"
  using run_attempt_keeps(2) [OF assms] after_attempt_keeps(2) [of up k' r s1]
  by (simp_all add: retry_active_def request_active_def)

lemma retry_loop_active:
  assumes "retry_loop up date close name hk sm rc req attempts guard s = Some (rs, blocked, g', s')"
  shows "map_option (\<lambda>n. n - (if g' then 1 else 0)) (retry_active s') =
      map_option (\<lambda>n. n - (if guard then 1 else 0)) (retry_active s)
    \<and> request_active s' = request_active s"
  using assms
proof (induction rule: retry_loop_induct)
  case (finished k guard s r s1)
  then show ?case by (simp add: attempt_active [OF finished(1)])
next
  case (blocked k guard s r s1 s3)
  then show ?case using active_ops(1) [OF blocked(4)] attempt_active [OF blocked(1)] by (simp add: option.map_comp comp_def)
next
  case (unlimited k guard s r s1 s3 rs b g' s')
  then show ?case using active_ops(1) [OF unlimited(4)] attempt_active [OF unlimited(1)] by (simp add: option.map_ident)
next
  case (acquired k guard s r s1 s3 rs b g' s')
  then show ?case
    using active_ops(1) [OF acquired(4)] attempt_active [OF acquired(1)]
    by (cases guard) (auto simp: active_ops(3,4) option.map_comp comp_def cong: option.map_cong)
qed

lemma after_loop_active:
  "after_loop rc include_count rs blocked guard s = (p, s') \<Longrightarrow>
     retry_active s' = map_option (\<lambda>n. n - (if guard then 1 else 0)) (retry_active s)
     \<and> request_active s' = request_active s"
  by (auto simp: after_loop_def Let_def active_ops option.map_ident)

text \<open>
  C9. Whatever happens to a request, it gives back every slot it took: when the response is
  built, the retry budget and the request budget of the cluster are as they were.
\<close>

theorem proxy_arm_returns_budget:
  assumes "proxy_arm up date close name rc include_count hk sm req s = Some (p, s')"
  shows "retry_active s' = retry_active s \<and> request_active s' = request_active s"
proof -
  obtain q s1 where q: "acquire_request s = (q, s1)" by fastforce
  show ?thesis
  proof (cases "q = Rejected")
    case True
    then show ?thesis
      using assms q active_ops(2) [OF q] by (auto simp: proxy_arm_def option.map_ident)
  next
    case False
    then obtain rs b g s2 s3 where l: "retry_loop up date close name hk sm rc req 0 False s1 = Some (rs, b, g, s2)"
      and a: "after_loop rc include_count rs b g s2 = (p, s3)"
      and s': "s' = (if q = Acquired then release_request s3 else s3)"
      using assms q by (cases q) (auto simp: proxy_arm_def split: option.splits prod.splits)
    show ?thesis
      using retry_loop_active [OF l] after_loop_active [OF a] active_ops(2) [OF q]
      by (auto simp: s' active_ops option.map_ident option.map_comp comp_def)
  qed
qed

section \<open>The request counters\<close>

text \<open>
  The counters the loop ticks for itself are cells of their own: no pool, budget or connect
  counter is one of them. \<open>T\<close> is the set of those other cells.
\<close>

definition option_list :: "'a option \<Rightarrow> 'a list" where
  "option_list x = (case x of None \<Rightarrow> [] | Some a \<Rightarrow> [a])"

definition pool_counters :: "PoolClusterStats \<Rightarrow> nat set" where
  "pool_counters c = {pcs_cx_total c, pcs_cx_destroy c, pcs_cx_proto_total c}
     \<union> set (option_list (pcs_rq_pending_overflow c)) \<union> set (option_list (pcs_cx_overflow c))"

definition rq_handles :: "'addr cluster \<Rightarrow> nat list" where
  "rq_handles c = [upstream_rq_total c, upstream_rq_5xx c, upstream_rq_retry c, upstream_rq_retry_success c,
     upstream_rq_retry_limit_exceeded c]"

definition own_cells :: "nat set \<Rightarrow> string \<Rightarrow> ('addr, 's) proxy_state \<Rightarrow> bool" where
  "own_cells T name s \<longleftrightarrow>
     distinct (rq_handles (ps_cluster s)) \<and> (\<forall>i \<in> set (rq_handles (ps_cluster s)). i < length (counters (ps_stats s)) \<and> i \<notin> T)
     \<and> cx_total (ps_cluster s) \<in> T
     \<and> (\<forall>m. ps_pools s = Some m \<longrightarrow> bt_wf m \<and> (\<forall>p. bt_get m name = Some p \<longrightarrow> pool_counters (pool_stats p) \<subseteq> T))
     \<and> (\<forall>b. cl_budget (ps_cluster s) = Some b \<longrightarrow> {bs_overflow (retry_side b), bs_overflow (request_side b)} \<subseteq> T)"

definition outside :: "nat set \<Rightarrow> stats \<Rightarrow> stats \<Rightarrow> bool" where
  "outside T st st' \<longleftrightarrow> length (counters st') = length (counters st)
     \<and> (\<forall>i. i \<notin> T \<longrightarrow> counters st' ! i = counters st ! i)"

lemma outside_refl [simp]: "outside T st st"
  by (simp add: outside_def)

lemma outside_trans: "outside T st st1 \<Longrightarrow> outside T st1 st2 \<Longrightarrow> outside T st st2"
  by (simp add: outside_def)

lemma outside_ops:
  "outside T st (gauge_inc g st)" "outside T st (gauge_dec g st)" "outside T st (gauge_set g v st)"
  "outside T st (opt_set o' v st)" "a \<in> T \<Longrightarrow> outside T st (counter_inc a st)"
  "set (option_list o') \<subseteq> T \<Longrightarrow> outside T st (opt_inc o' st)" "outside T st (update_gauges b n st)"
proof -
  show inc: "a \<in> T \<Longrightarrow> outside T st (counter_inc a st)" for a
    unfolding outside_def counter_inc_def by (auto intro!: nth_list_update_neq)
  show "set (option_list o') \<subseteq> T \<Longrightarrow> outside T st (opt_inc o' st)"
    using inc by (auto simp: opt_inc_def option_list_def split: option.splits)
qed (simp_all add: outside_def gauge_inc_def gauge_dec_def gauge_set_def)

lemma reserve_outside:
  assumes "reserve e p st = (r, p', st')" "pool_counters (pool_stats p) \<subseteq> T"
  shows "outside T st st'"
proof -
  have "set (option_list (pcs_rq_pending_overflow (pool_stats p))) \<subseteq> T"
    "set (option_list (pcs_cx_overflow (pool_stats p))) \<subseteq> T"
    using assms(2) by (auto simp: pool_counters_def)
  then show ?thesis
    using assms(1) outside_ops(4,6) by (auto simp: reserve_def Let_def split: if_splits)
qed

lemma give_back_outside: "give_back e k p st = (p', st') \<Longrightarrow> outside T st st'"
  using outside_ops(4) by (auto simp: give_back_def split: option.splits if_splits)

lemma connected_outside:
  assumes "connected e x p st = (g, st')" "pool_counters (pool_stats p) \<subseteq> T"
  shows "outside T st st'"
proof -
  let ?c = "pool_stats p"
  have "pcs_cx_total ?c \<in> T" "pcs_cx_proto_total ?c \<in> T" using assms(2) by (auto simp: pool_counters_def)
  then have "outside T st (gauge_inc (pcs_cx_active ?c) (counter_inc (pcs_cx_proto_total ?c) (counter_inc (pcs_cx_total ?c) st)))"
    by (intro outside_trans [OF outside_ops(5) outside_trans [OF outside_ops(5) outside_ops(1)]])
  then show ?thesis using assms(1) by (simp add: connected_def)
qed

lemma acquire_outside:
  fixes connect :: "'ep \<Rightarrow> 'err + 's"
  assumes "acquire connect e p st = (r, p', st')" "pool_counters (pool_stats p) \<subseteq> T"
  shows "outside T st st'" "pool_stats p' = pool_stats p"
proof -
  have "outside T st st' \<and> pool_stats p' = pool_stats p"
  proof (cases "pop_idle e p st")
    case (Some gps)
    then obtain g p1 st1 where g: "gps = (g, p1, st1)" by (cases gps)
    with Some assms(1) have "p' = p1" "st' = st1" by (auto simp: acquire_def)
    with Some g show ?thesis using outside_ops(1) by (auto elim!: pop_idleE)
  next
    case None
    obtain q :: "'err PoolError + unit" and p1 st1 where q: "reserve e p st = (q, p1, st1)" by (metis prod_cases3)
    note o1 = reserve_outside [OF q assms(2)] and s1 = reserve_est(3) [OF q]
    show ?thesis
    proof (cases q)
      case (Inl err)
      then show ?thesis using None q assms(1) o1 s1 by (auto simp: acquire_def)
    next
      case (Inr u)
      show ?thesis
      proof (cases "connect e")
        case (Inl err)
        then have "give_back e 1 p1 st1 = (p', st')"
          using None q Inr assms(1) by (auto simp: acquire_def split: prod.splits)
        then show ?thesis using outside_trans [OF o1 give_back_outside] give_back_core(1) s1 by metis
      next
        case (Inr x)
        then obtain g where "connected e x p1 st1 = (g, st')" "p' = p1"
          using None q \<open>q = Inr u\<close> assms(1) by (auto simp: acquire_def split: prod.splits)
        then show ?thesis using outside_trans [OF o1 connected_outside] s1 assms(2) by metis
      qed
    qed
  qed
  then show "outside T st st'" "pool_stats p' = pool_stats p" by auto
qed

lemma drop_guard_outside:
  assumes "drop_guard now g p st = (p', st')" "pool_counters (pool_stats p) \<subseteq> T"
  shows "outside T st st'" "pool_stats p' = pool_stats p"
proof -
  have d: "pcs_cx_destroy (pool_stats p) \<in> T" using assms(2) by (auto simp: pool_counters_def)
  have "outside T st st' \<and> pool_stats p' = pool_stats p"
  proof (cases "pg_stream g")
    case (Some x)
    then show ?thesis using assms(1) outside_ops(2) by (auto simp: drop_guard_def)
  next
    case None
    then obtain st1 where gb: "give_back (pg_endpoint g) 1 p (counter_inc (pcs_cx_destroy (pool_stats p)) st) = (p', st1)"
      and st': "st' = gauge_dec (pcs_cx_active (pool_stats p)) st1"
      using assms(1) by (auto simp: drop_guard_def split: prod.splits)
    have "outside T st st1" by (rule outside_trans [OF outside_ops(5) [OF d] give_back_outside [OF gb]])
    then show ?thesis using outside_trans outside_ops(2) give_back_core(1) [OF gb] st' by blast
  qed
  then show "outside T st st'" "pool_stats p' = pool_stats p" by auto
qed

lemma pooled_attempt_outside:
  assumes "pooled_attempt up k date close req e p st = Some (r, p', st')" "pool_counters (pool_stats p) \<subseteq> T"
  shows "outside T st st' \<and> pool_stats p' = pool_stats p"
proof -
  obtain q p1 st1 where q: "acquire (up_connect up k) e p st = (q, p1, st1)" by (metis prod_cases3)
  note o1 = acquire_outside [OF q assms(2)]
  show ?thesis
  proof (cases q)
    case (Inl err)
    then show ?thesis using assms(1) q o1 by (cases err) (auto simp: pooled_attempt_def)
  next
    case (Inr g)
    then obtain g' where "drop_guard (up_now up k) g' p1 st1 = (p', st')"
      using assms(1) q by (auto simp: pooled_attempt_def split: option.splits prod.splits)
    from drop_guard_outside [OF this] o1 assms(2) show ?thesis using outside_trans by metis
  qed
qed

lemma run_attempt_outside:
  assumes "run_attempt up k date close name hk sm req s = Some (r, s')" "own_cells T name s"
  shows "outside T (ps_stats s) (ps_stats s') \<and> own_cells T name s'"
proof -
  obtain q c where p: "pick (ps_cluster s) hk sm = (q, c)" by fastforce
  note keep = run_attempt_keeps [OF assms(1)]
  have rq: "rq_handles (ps_cluster s') = rq_handles (ps_cluster s)" "cx_total (ps_cluster s') = cx_total (ps_cluster s)"
    using cl_fixedD [OF keep(1)] by (simp_all add: rq_handles_def)
  have "outside T (ps_stats s) (ps_stats s') \<and> (\<forall>m. ps_pools s' = Some m \<longrightarrow> bt_wf m \<and>
      (\<forall>p. bt_get m name = Some p \<longrightarrow> pool_counters (pool_stats p) \<subseteq> T))"
  proof (cases q)
    case (Picked e)
    show ?thesis
    proof (cases "Option.bind (ps_pools s) (\<lambda>m. bt_get m name)")
      case (Some pl)
      then obtain m where m: "ps_pools s = Some m" "bt_get m name = Some pl" by (cases "ps_pools s") auto
      obtain r' p' st' where a: "pooled_attempt up k date close req e pl (ps_stats s) = Some (r', p', st')"
        using assms(1) p Picked Some by (auto simp: run_attempt_def split: option.splits)
      have s': "s' = s\<lparr>ps_cluster := c, ps_pools := Some (bt_insert name p' m), ps_stats := st'\<rparr>"
        using assms(1) p Picked Some a m by (simp add: run_attempt_def)
      have "pool_counters (pool_stats pl) \<subseteq> T" "bt_wf m" using assms(2) m by (auto simp: own_cells_def)
      then show ?thesis using pooled_attempt_outside [OF a] by (auto simp: s' bt_wf_insert)
    next
      case None
      have ct: "cx_total c \<in> T" using assms(2) cl_fixedD(3) [OF pick_keeps(1) [OF p]] by (simp add: own_cells_def)
      have "outside T (ps_stats s) st'" if "one_shot_attempt up k date close req e c (ps_stats s) = Some (r', st')" for r' st'
        using that outside_trans [OF outside_ops(5) [OF ct] outside_trans [OF outside_ops(1) outside_ops(2)]]
        by (auto simp: one_shot_attempt_def split: sum.splits)
      then show ?thesis using assms p Picked None by (auto simp: run_attempt_def own_cells_def)
    qed
  qed (use assms p in \<open>auto simp: run_attempt_def own_cells_def\<close>)
  then show ?thesis
    using assms(2) rq keep(2) by (auto simp: own_cells_def outside_def)
qed

text \<open>
  The five request counters of a cluster, as a vector: total, 5xx, retry, retry success,
  retry limit exceeded.
\<close>

definition rq_counts :: "('addr, 's) proxy_state \<Rightarrow> u64 list" where
  "rq_counts s = map (\<lambda>i. counters (ps_stats s) ! i) (rq_handles (ps_cluster s))"

definition plus_vec :: "u64 list \<Rightarrow> nat list \<Rightarrow> u64 list" where
  "plus_vec xs ns = map2 (\<lambda>x n. x + of_nat n) xs ns"

lemma rq_counts_list: "rq_counts s = [counters (ps_stats s) ! upstream_rq_total (ps_cluster s),
    counters (ps_stats s) ! upstream_rq_5xx (ps_cluster s), counters (ps_stats s) ! upstream_rq_retry (ps_cluster s),
    counters (ps_stats s) ! upstream_rq_retry_success (ps_cluster s),
    counters (ps_stats s) ! upstream_rq_retry_limit_exceeded (ps_cluster s)]"
  by (simp add: rq_counts_def rq_handles_def)

lemma plus_vec_0 [simp]: "plus_vec (rq_counts s) [0, 0, 0, 0, 0] = rq_counts s"
  by (simp add: plus_vec_def rq_counts_list)

lemma plus_vec_plus:
  "plus_vec (plus_vec (rq_counts s) [a, b, c, d, e]) [a', b', c', d', e'] =
     plus_vec (rq_counts s) [a + a', b + b', c + c', d + d', e + e']"
  by (simp add: plus_vec_def rq_counts_list)

lemma tick_counts:
  assumes "own_cells T name s"
  shows "rq_counts (tick upstream_rq_total s) = plus_vec (rq_counts s) [1, 0, 0, 0, 0]"
    "rq_counts (tick upstream_rq_5xx s) = plus_vec (rq_counts s) [0, 1, 0, 0, 0]"
    "rq_counts (tick upstream_rq_retry s) = plus_vec (rq_counts s) [0, 0, 1, 0, 0]"
    "rq_counts (tick upstream_rq_retry_success s) = plus_vec (rq_counts s) [0, 0, 0, 1, 0]"
    "rq_counts (tick upstream_rq_retry_limit_exceeded s) = plus_vec (rq_counts s) [0, 0, 0, 0, 1]"
  using assms by (auto simp: own_cells_def rq_handles_def rq_counts_list plus_vec_def tick_def counter_inc_def
      counter_inc_val_def nth_list_update)

lemma tick_own: "own_cells T name s \<Longrightarrow> own_cells T name (tick h s)"
  by (simp add: own_cells_def tick_def counter_inc_def)

lemma outside_counts:
  assumes "outside T (ps_stats s) (ps_stats s')" "own_cells T name s" "cl_fixed (ps_cluster s') = cl_fixed (ps_cluster s)"
  shows "rq_counts s' = rq_counts s"
proof -
  have "rq_handles (ps_cluster s') = rq_handles (ps_cluster s)"
    using cl_fixedD [OF assms(3)] by (simp add: rq_handles_def)
  then show ?thesis using assms(1,2) by (auto simp: rq_counts_def own_cells_def outside_def)
qed

lemma try_acquire_outside:
  assumes "try_acquire (b, st) = (ok, b', st')" "bs_overflow b \<in> T"
  shows "outside T st st'" "bs_overflow b' = bs_overflow b"
  using assms outside_trans [OF outside_ops(5) [OF assms(2)] outside_ops(7)] outside_ops(7)
  by (auto simp: try_acquire_def Let_def split: if_splits)

lemma release_outside:
  assumes "release (b, st) = (b', st')"
  shows "outside T st st'" "bs_overflow b' = bs_overflow b"
  using assms outside_ops(7) by (auto simp: release_def Let_def)

lemma own_cells_budget:
  assumes "own_cells T name s" "outside T (ps_stats s) st"
    "\<And>b. fst bst = Some b \<Longrightarrow> {bs_overflow (retry_side b), bs_overflow (request_side b)} \<subseteq> T" "snd bst = st"
  shows "own_cells T name (set_budget bst s)"
  using assms by (auto simp: own_cells_def set_budget_def outside_def rq_handles_def)

lemma budget_ops_outside:
  assumes "own_cells T name s"
  shows "acquire_retry s = (q, s') \<Longrightarrow> outside T (ps_stats s) (ps_stats s') \<and> own_cells T name s'"
    and "acquire_request s = (q, s') \<Longrightarrow> outside T (ps_stats s) (ps_stats s') \<and> own_cells T name s'"
    and "outside T (ps_stats s) (ps_stats (release_retry s)) \<and> own_cells T name (release_retry s)"
    and "outside T (ps_stats s) (ps_stats (release_request s)) \<and> own_cells T name (release_request s)"
proof -
  let ?B = "cl_budget (ps_cluster s)"
  have noop: "outside T (ps_stats s) (ps_stats (set_budget (?B, ps_stats s) s)) \<and> own_cells T name (set_budget (?B, ps_stats s) s)"
    using assms by (simp add: set_budget_def)
  have T: "bs_overflow (retry_side b) \<in> T" "bs_overflow (request_side b) \<in> T" if "?B = Some b" for b
    using assms that by (auto simp: own_cells_def)
  { assume q: "acquire_retry s = (q, s')"
    show "outside T (ps_stats s) (ps_stats s') \<and> own_cells T name s'"
    proof (cases ?B)
      case None
      then show ?thesis using q noop by (simp add: acquire_retry_def cluster_try_acquire_retry_def)
    next
      case (Some b)
      obtain ok b' st' where t: "try_acquire (retry_side b, ps_stats s) = (ok, b', st')" by (metis prod_cases3)
      then have s': "s' = set_budget (Some (b\<lparr>retry_side := b'\<rparr>), st') s"
        using q Some by (simp add: acquire_retry_def cluster_try_acquire_retry_def try_acquire_retry_def)
      note o = try_acquire_outside [OF t T(1) [OF Some]]
      show ?thesis
        using own_cells_budget [OF assms o(1), of "(Some (b\<lparr>retry_side := b'\<rparr>), st')"] T [OF Some] o
        by (auto simp: s' set_budget_keeps)
    qed }
  { assume q: "acquire_request s = (q, s')"
    show "outside T (ps_stats s) (ps_stats s') \<and> own_cells T name s'"
    proof (cases ?B)
      case None
      then show ?thesis using q noop by (simp add: acquire_request_def cluster_try_acquire_request_def)
    next
      case (Some b)
      obtain ok b' st' where t: "try_acquire (request_side b, ps_stats s) = (ok, b', st')" by (metis prod_cases3)
      then have s': "s' = set_budget (Some (b\<lparr>request_side := b'\<rparr>), st') s"
        using q Some by (simp add: acquire_request_def cluster_try_acquire_request_def try_acquire_request_def)
      note o = try_acquire_outside [OF t T(2) [OF Some]]
      show ?thesis
        using own_cells_budget [OF assms o(1), of "(Some (b\<lparr>request_side := b'\<rparr>), st')"] T [OF Some] o
        by (auto simp: s' set_budget_keeps)
    qed }
  show "outside T (ps_stats s) (ps_stats (release_retry s)) \<and> own_cells T name (release_retry s)"
  proof (cases ?B)
    case None
    then show ?thesis using assms by (simp add: release_retry_def)
  next
    case (Some b)
    obtain b' st' where t: "release (retry_side b, ps_stats s) = (b', st')" by fastforce
    note o = release_outside(1) [OF t, of T] release_outside(2) [OF t]
    show ?thesis
      using own_cells_budget [OF assms o(1), of "(Some (b\<lparr>retry_side := b'\<rparr>), st')"] T [OF Some] o t
      by (auto simp: release_retry_def drop_retry_guard_def Some set_budget_keeps)
  qed
  show "outside T (ps_stats s) (ps_stats (release_request s)) \<and> own_cells T name (release_request s)"
  proof (cases ?B)
    case None
    then show ?thesis using assms by (simp add: release_request_def)
  next
    case (Some b)
    obtain b' st' where t: "release (request_side b, ps_stats s) = (b', st')" by fastforce
    note o = release_outside(1) [OF t, of T] release_outside(2) [OF t]
    show ?thesis
      using own_cells_budget [OF assms o(1), of "(Some (b\<lparr>request_side := b'\<rparr>), st')"] T [OF Some] o t
      by (auto simp: release_request_def drop_request_guard_def Some set_budget_keeps)
  qed
qed

lemma attempt_counts:
  assumes "run_attempt up k date close name hk sm req s = Some (r, s1)" "own_cells T name s"
  shows "own_cells T name (after_attempt up k' r s1)"
    "rq_counts (after_attempt up k' r s1) = plus_vec (rq_counts s) [if at_upstream_response r then 1 else 0, 0, 0, 0, 0]"
proof -
  note o = run_attempt_outside [OF assms]
  then have c: "rq_counts s1 = rq_counts s" using outside_counts [OF _ assms(2) run_attempt_keeps(1) [OF assms(1)]] by blast
  have own: "own_cells T name (if at_upstream_response r then tick upstream_rq_total s1 else s1)" (is "own_cells T name ?s2")
    using o tick_own by auto
  have a: "after_attempt up k' r s1 = ?s2\<lparr>ps_cluster := (ps_cluster ?s2)\<lparr>cl_outlier :=
      cl_outlier (ps_cluster (after_attempt up k' r s1))\<rparr>\<rparr>"
    by (auto simp: after_attempt_def Let_def split: option.splits)
  show "own_cells T name (after_attempt up k' r s1)"
    by (subst a) (use own in \<open>simp add: own_cells_def rq_handles_def\<close>)
  have "rq_counts (after_attempt up k' r s1) = rq_counts ?s2"
    by (subst a) (simp add: rq_counts_def rq_handles_def)
  then show "rq_counts (after_attempt up k' r s1) = plus_vec (rq_counts s) [if at_upstream_response r then 1 else 0, 0, 0, 0, 0]"
    using tick_counts(1) [of T name s1] o c by auto
qed

definition upstream_answers :: "'addr AttemptResult list \<Rightarrow> nat" where
  "upstream_answers rs = length (filter at_upstream_response rs)"

lemma upstream_answers_simps [simp]:
  "upstream_answers [] = 0"
  "upstream_answers (r # rs) = (if at_upstream_response r then 1 else 0) + upstream_answers rs"
  by (simp_all add: upstream_answers_def)

lemma retry_loop_counts:
  assumes "retry_loop up date close name hk sm rc req attempts guard s = Some (rs, blocked, g', s')" "own_cells T name s"
  shows "rs \<noteq> [] \<and> own_cells T name s' \<and> rq_counts s' = plus_vec (rq_counts s) [upstream_answers rs, 0, length rs - 1, 0, 0]"
  using assms
proof (induction rule: retry_loop_induct)
  case (finished k guard s r s1)
  then show ?case using attempt_counts [OF finished(1) finished.prems] by simp
next
  case (blocked k guard s r s1 s3)
  note a = attempt_counts [OF blocked(1) blocked.prems, where k' = "k + 1"]
  note b = budget_ops_outside(1) [OF a(1) blocked(4)]
  show ?case
    using a b outside_counts [OF conjunct1 [OF b] a(1)] budget_ops_keep(1) [OF blocked(4)] by simp
next
  case (unlimited k guard s r s1 s3 rs b g' s')
  note a = attempt_counts [OF unlimited(1) unlimited.prems, where k' = "k + 1"]
  note b = budget_ops_outside(1) [OF a(1) unlimited(4)]
  have c3: "rq_counts s3 = plus_vec (rq_counts s) [if at_upstream_response r then 1 else 0, 0, 0, 0, 0]"
    using outside_counts [OF conjunct1 [OF b] a(1)] budget_ops_keep(1) [OF unlimited(4)] a(2) by simp
  have "rs \<noteq> [] \<and> own_cells T name s' \<and> rq_counts s' =
      plus_vec (rq_counts (tick upstream_rq_retry s3)) [upstream_answers rs, 0, length rs - 1, 0, 0]"
    using unlimited.IH tick_own b by blast
  then show ?case using tick_counts(3) [of T name s3] b c3 by (cases rs) (auto simp: plus_vec_plus)
next
  case (acquired k guard s r s1 s3 rs b g' s')
  note a = attempt_counts [OF acquired(1) acquired.prems, where k' = "k + 1"]
  note b = budget_ops_outside(1) [OF a(1) acquired(4)]
  let ?s4 = "tick upstream_rq_retry s3"
  let ?s5 = "if guard then release_retry ?s4 else ?s4"
  have c3: "rq_counts s3 = plus_vec (rq_counts s) [if at_upstream_response r then 1 else 0, 0, 0, 0, 0]"
    using outside_counts [OF conjunct1 [OF b] a(1)] budget_ops_keep(1) [OF acquired(4)] a(2) by simp
  have own4: "own_cells T name ?s4" using tick_own b by blast
  note rel = budget_ops_outside(3) [OF own4]
  have own5: "own_cells T name ?s5" using own4 rel by auto
  have "rq_counts ?s5 = rq_counts ?s4"
    using outside_counts [OF conjunct1 [OF rel] own4] budget_ops_keep(3) [of ?s4] by auto
  moreover have "rs \<noteq> [] \<and> own_cells T name s' \<and> rq_counts s' =
      plus_vec (rq_counts ?s5) [upstream_answers rs, 0, length rs - 1, 0, 0]"
    using acquired.IH own5 by blast
  ultimately show ?case using tick_counts(3) [of T name s3] b c3 by (cases rs) (auto simp: plus_vec_plus)
qed

lemma after_loop_counts:
  assumes "after_loop rc include_count rs blocked guard s = (p, s')" "own_cells T name s"
  shows "own_cells T name s' \<and> rq_counts s' = plus_vec (rq_counts s)
    [0, if at_upstream_response (last rs) \<and> resp_status (at_response (last rs)) div 100 = 5 then 1 else 0, 0,
     if length rs > 1 \<and> \<not> blocked \<and> \<not> attempt_retriable rc (last rs) then 1 else 0,
     if length rs > 1 \<and> \<not> blocked \<and> attempt_retriable rc (last rs) then 1 else 0]"
proof -
  let ?r = "last rs"
  define s1 where "s1 = (if at_upstream_response ?r \<and> resp_status (at_response ?r) div 100 = 5 then tick upstream_rq_5xx s else s)"
  define s2 where "s2 = (if length rs > 1 \<and> \<not> blocked \<and> attempt_retriable rc ?r then tick upstream_rq_retry_limit_exceeded s1
    else if length rs > 1 \<and> \<not> blocked then tick upstream_rq_retry_success s1 else s1)"
  have s': "s' = (if guard then release_retry s2 else s2)"
    using assms(1) by (auto simp: after_loop_def Let_def s1_def s2_def)
  have o1: "own_cells T name s1" and o2: "own_cells T name s2" using assms(2) tick_own by (auto simp: s1_def s2_def)
  have c1: "rq_counts s1 = plus_vec (rq_counts s)
      [0, if at_upstream_response ?r \<and> resp_status (at_response ?r) div 100 = 5 then 1 else 0, 0, 0, 0]"
    using tick_counts(2) [OF assms(2)] by (auto simp: s1_def)
  have c2: "rq_counts s2 = plus_vec (rq_counts s1)
      [0, 0, 0, if length rs > 1 \<and> \<not> blocked \<and> \<not> attempt_retriable rc ?r then 1 else 0,
       if length rs > 1 \<and> \<not> blocked \<and> attempt_retriable rc ?r then 1 else 0]"
    using tick_counts(4,5) [OF o1] by (auto simp: s2_def)
  have "own_cells T name s' \<and> rq_counts s' = rq_counts s2"
    using o2 budget_ops_outside(3) [OF o2] outside_counts [OF _ o2 budget_ops_keep(3) [of s2]] by (auto simp: s')
  then show ?thesis using c1 c2 by (simp add: plus_vec_plus)
qed

text \<open>What a result says of the network: the connects and exchanges of attempt \<open>k\<close>.\<close>

definition attempt_of :: "('addr, 's) upstream \<Rightarrow> string \<Rightarrow> bool \<Rightarrow> Request \<Rightarrow> nat \<Rightarrow> 'addr AttemptResult \<Rightarrow> bool" where
  "attempt_of up date close req k r \<longleftrightarrow>
     (case at_outcome r of
        Some OutcomeResponse \<Rightarrow> at_upstream_response r \<and> (\<exists>x resp. up_exchange up k x req = Some (Inr resp)
          \<and> at_response r = construct_proxied_response date resp (up_elapsed_ms up k) close)
      | Some OutcomeReset \<Rightarrow> \<not> at_upstream_response r \<and> (\<exists>x. up_exchange up k x req = Some (Inl ()))
      | Some ConnectFailure \<Rightarrow> \<not> at_upstream_response r \<and> (\<exists>e. up_connect up k e = Inl ())
      | None \<Rightarrow> \<not> at_upstream_response r)"

lemma exchange_result_of: "exchange_result up k date close req e x = Some (r, b) \<Longrightarrow> attempt_of up date close req k r"
  by (cases "up_exchange up k x req"; cases "the (up_exchange up k x req)")
    (auto simp: exchange_result_def attempt_of_def failed_result_def intro!: exI [of _ x])

lemma run_attempt_of:
  assumes "run_attempt up k date close name hk sm req s = Some (r, s')"
  shows "attempt_of up date close req k r"
proof -
  have pooled: "attempt_of up date close req k r'"
    if "pooled_attempt up k date close req e p st = Some (r', p', st')" for e p st r' p' st'
  proof -
    obtain a p1 st1 where q: "acquire (up_connect up k) e p st = (a, p1, st1)" by (metis prod_cases3)
    show ?thesis
    proof (cases a)
      case (Inl err)
      show ?thesis
      proof (cases err)
        case (Connect u)
        then have "up_connect up k e = Inl ()" using q Inl by (auto simp: acquire_def reserve_def Let_def
            split: option.splits sum.splits prod.splits if_splits)
        then show ?thesis
          using that q Inl Connect by (auto simp: pooled_attempt_def failed_result_def attempt_of_def)
      qed (use that q Inl in \<open>auto simp: pooled_attempt_def overflow_result_def attempt_of_def\<close>)
    next
      case (Inr g)
      then show ?thesis
        using that q exchange_result_of by (auto simp: pooled_attempt_def Let_def split: option.splits prod.splits)
    qed
  qed
  have one_shot: "attempt_of up date close req k r'"
    if "one_shot_attempt up k date close req e c st = Some (r', st')" for e c st r' st'
    using that exchange_result_of
    by (auto simp: one_shot_attempt_def failed_result_def attempt_of_def split: sum.splits)
  have "attempt_of up date close req k (no_endpoint_result date close)"
    by (simp add: no_endpoint_result_def attempt_of_def)
  with assms pooled one_shot show ?thesis
    by (auto simp: run_attempt_def split: prod.splits pick_result.splits option.splits)
qed

lemma retry_loop_of:
  assumes "retry_loop up date close name hk sm rc req attempts guard s = Some (rs, blocked, g', s')"
  shows "\<forall>i < length rs. attempt_of up date close req (attempts + i + 1) (rs ! i)"
  using assms
  by (induction rule: retry_loop_induct) (auto simp: nth_Cons' less_Suc_eq_0_disj dest!: run_attempt_of)

text \<open>
  C8. The counters of a proxied request, over the attempts it made. A request the budget rejects made none and counts one
  \<open>upstream_rq_5xx\<close>. Any other made between one and \<open>num_retries + 1\<close>, every one but the last retriable, the one
  number \<open>k\<close> being what the connect and the exchange \<open>k\<close> returned. \<open>upstream_rq_total\<close> grew by the attempts an
  upstream answered, \<open>upstream_rq_retry\<close> by the attempts after the first, \<open>upstream_rq_5xx\<close> by one iff the last was
  answered with a 5xx, and, after a retry, \<open>retry_success\<close> by one iff the last attempt is not retriable and
  \<open>retry_limit_exceeded\<close> by one iff it is and no retry was left. The last attempt is what the client gets.
\<close>

theorem proxy_arm_counters:
  fixes s :: "('addr, 's) proxy_state"
  assumes "proxy_arm up date close name rc include_count hk sm req s = Some (p, s')"
    and "own_cells T name s"
  shows "let rs = proxy_attempts up date close name rc hk sm req s; n = length rs; r = last rs in
    if fst (acquire_request s) = Rejected
    then rs = [] \<and> px_response p = attempt_count_header include_count 1 (synth_overflow date close) \<and> px_local p
      \<and> rq_counts s' = plus_vec (rq_counts s) [0, 1, 0, 0, 0]
    else 1 \<le> n \<and> n \<le> max_retries_of rc + 1
      \<and> (\<forall>i < n. attempt_of up date close req (i + 1) (rs ! i))
      \<and> (\<forall>r \<in> set (butlast rs). attempt_retriable rc r)
      \<and> px_response p = attempt_count_header include_count n (at_response r)
      \<and> px_local p = (\<not> at_upstream_response r)
      \<and> rq_counts s' = plus_vec (rq_counts s)
          [upstream_answers rs,
           if at_upstream_response r \<and> resp_status (at_response r) div 100 = 5 then 1 else 0,
           n - 1,
           if n > 1 \<and> \<not> attempt_retriable rc r then 1 else 0,
           if n > 1 \<and> attempt_retriable rc r \<and> n = max_retries_of rc + 1 then 1 else 0]"
proof -
  obtain q s1 where q: "acquire_request s = (q, s1)" by fastforce
  note o1 = budget_ops_outside(2) [OF assms(2) q]
  have c1: "rq_counts s1 = rq_counts s"
    using outside_counts [OF conjunct1 [OF o1] assms(2)] budget_ops_keep(2) [OF q] by blast
  show ?thesis
  proof (cases "q = Rejected")
    case True
    then have "s' = tick upstream_rq_5xx s1" "px_local p"
      "px_response p = attempt_count_header include_count 1 (synth_overflow date close)"
      using assms(1) q by (auto simp: proxy_arm_def)
    then show ?thesis using True q c1 tick_counts(2) [OF conjunct2 [OF o1]] by (simp add: proxy_attempts_def Let_def)
  next
    case False
    then obtain rs b g s2 s3 where l: "retry_loop up date close name hk sm rc req 0 False s1 = Some (rs, b, g, s2)"
      and a: "after_loop rc include_count rs b g s2 = (p, s3)"
      and s': "s' = (if q = Acquired then release_request s3 else s3)"
      using assms(1) q by (cases q) (auto simp: proxy_arm_def split: option.splits prod.splits)
    have rs: "proxy_attempts up date close name rc hk sm req s = rs"
      using False q l by (cases q) (auto simp: proxy_attempts_def)
    note c2 = retry_loop_counts [OF l conjunct2 [OF o1]]
    have o2: "own_cells T name s2" using c2 by blast
    note c3 = after_loop_counts [OF a o2]
    have o3: "own_cells T name s3" using c3 by blast
    have "cl_fixed (ps_cluster (release_request s3)) = cl_fixed (ps_cluster s3)"
      by (auto simp: release_request_def set_budget_keeps split: option.splits prod.splits)
    then have c4: "rq_counts s' = rq_counts s3"
      using outside_counts [OF conjunct1 [OF budget_ops_outside(4) [OF o3]] o3] by (auto simp: s')
    note sh = retry_loop_shape [OF l]
    have n: "1 \<le> length rs" "length rs \<le> max_retries_of rc + 1" using sh by (cases rs; auto)+
    have b: "(\<not> b \<and> \<not> attempt_retriable rc (last rs)) = (\<not> attempt_retriable rc (last rs))"
      "(\<not> b \<and> attempt_retriable rc (last rs)) = (attempt_retriable rc (last rs) \<and> length rs = max_retries_of rc + 1)"
      using sh n by auto
    have p: "px_response p = attempt_count_header include_count (length rs) (at_response (last rs))"
      "px_local p = (\<not> at_upstream_response (last rs))"
      using a by (auto simp: after_loop_def Let_def)
    show ?thesis
      using False q c1 c2 c3 c4 sh n p retry_loop_of [OF l] by (simp add: rs Let_def plus_vec_plus b)
  qed
qed

section \<open>Examples\<close>

definition demo_response :: "nat \<Rightarrow> Response" where
  "demo_response status = \<lparr>resp_status = status, resp_reason = None, resp_headers = [], resp_body = []\<rparr>"

text \<open>An upstream that answers each attempt with the given status.\<close>

definition demo_upstream :: "(nat \<Rightarrow> nat) \<Rightarrow> (nat, unit) upstream" where
  "demo_upstream f = \<lparr>up_connect = (\<lambda>_ _. Inr ()), up_exchange = (\<lambda>k _ _. Some (Inr (demo_response (f k)))),
     up_elapsed_ms = (\<lambda>_. 0), up_now = (\<lambda>_. 0)\<rparr>"

definition demo_retry :: "nat \<Rightarrow> RetryConfig option" where
  "demo_retry n = Some \<lparr>rcfg_on = retry_on_default\<lparr>on_5xx := True\<rparr>, num_retries = n, retriable_status_codes = []\<rparr>"

definition demo_proxy :: "budget_state option \<Rightarrow> (nat, unit) proxy_state" where
  "demo_proxy b = \<lparr>ps_cluster = (plain [7])\<lparr>cl_budget := b\<rparr>, ps_pools = None,
     ps_stats = \<lparr>reg_map = bt_empty, counters = replicate 9 0, gauges = [0, 0, 0]\<rparr>\<rparr>"

definition demo_req :: Request where
  "demo_req = \<lparr>req_method = ''GET'', req_path = ''/'', req_version = Http11, req_headers = [],
     req_bytes_consumed = 18, req_body = None\<rparr>"

definition run_demo :: "(nat \<Rightarrow> nat) \<Rightarrow> nat \<Rightarrow> budget_state option \<Rightarrow> (nat proxied \<times> (nat, unit) proxy_state) option" where
  "run_demo f n b = proxy_arm (demo_upstream f) [] False ''c'' (demo_retry n) True None None demo_req (demo_proxy b)"

text \<open>Evaluation of the loop, one iteration at a time.\<close>

lemmas demo_defs = run_demo_def proxy_arm_def demo_upstream_def demo_retry_def demo_proxy_def
  acquire_request_def acquire_retry_def cluster_try_acquire_request_def cluster_try_acquire_retry_def
  try_acquire_request_def try_acquire_retry_def try_acquire_def set_budget_def update_gauges_def gauge_set_def
  run_attempt_def plain_def pick_def pick_all_def pick_hash_def pick_cursor_def pick_rr_def bump_cursor_def
  one_shot_attempt_def exchange_result_def demo_response_def construct_proxied_response_def after_attempt_def
  tick_def cluster_record_response_def attempt_retriable_def is_retriable_def max_retries_of_def
  after_loop_def attempt_count_header_def release_retry_def release_request_def drop_retry_guard_def
  drop_request_guard_def release_def counter_inc_def counter_inc_val_def gauge_inc_def gauge_dec_def
  retry_on_default_def

lemma demo_exchanges_return: "exchanges_return (demo_upstream f)"
  by (simp add: exchanges_return_def demo_upstream_def)

theorem proxy_arm_answers_witness:
  "run_demo (\<lambda>_. 503) 1 None \<noteq> None
   \<and> length (proxy_attempts (demo_upstream (\<lambda>_. 503)) [] False ''c'' (demo_retry 1) None None demo_req (demo_proxy None)) \<le> 2"
proof -
  have wf: "cluster_wf (ps_cluster (demo_proxy None))" by (simp add: demo_proxy_def plain_def cluster_wf_def)
  have n: "max_retries_of (demo_retry 1) + 1 = 2" by (simp add: max_retries_of_def demo_retry_def)
  from proxy_arm_answers [OF wf demo_exchanges_return, of "\<lambda>_. 503" "[]" False "''c''" "demo_retry 1" True None None demo_req]
  show ?thesis unfolding n by (auto simp: run_demo_def Let_def split: if_splits)
qed

text \<open>One 503, then a 200: one retry, counted as a success.\<close>

lemma demo_retry_once:
  "map_option (\<lambda>(p, s). (resp_status (px_response p), px_retry_limit_exceeded p, rq_counts s))
     (run_demo (\<lambda>k. if k = 1 then 503 else 200) 1 None) = Some (200, False, [2, 0, 1, 1, 0])"
  by (simp add: demo_defs retry_loop.simps rq_counts_list)

theorem proxy_arm_counters_witness:
  "own_cells {0} ''c'' (demo_proxy None) \<and> fst (acquire_request (demo_proxy None)) = Unlimited
    \<and> (\<exists>p s'. run_demo (\<lambda>k. if k = 1 then 503 else 200) 1 None = Some (p, s') \<and>
        (let n = length (proxy_attempts (demo_upstream (\<lambda>k. if k = 1 then 503 else 200)) [] False ''c'' (demo_retry 1)
           None None demo_req (demo_proxy None))
         in n \<le> 2 \<and> rq_counts s' ! 2 = of_nat (n - 1)))"
proof -
  have own: "own_cells {0} ''c'' (demo_proxy None)"
    by (simp add: own_cells_def demo_proxy_def plain_def rq_handles_def)
  have a: "fst (acquire_request (demo_proxy None)) = Unlimited"
    by (simp add: acquire_request_def cluster_try_acquire_request_def demo_proxy_def plain_def)
  obtain p s' where r: "run_demo (\<lambda>k. if k = 1 then 503 else 200) 1 None = Some (p, s')"
    using demo_retry_once by auto
  have z: "rq_counts (demo_proxy None) = [0, 0, 0, 0, 0]" by (simp add: rq_counts_list demo_proxy_def plain_def)
  have n: "max_retries_of (demo_retry 1) + 1 = 2" by (simp add: max_retries_of_def demo_retry_def)
  from proxy_arm_counters [OF r [unfolded run_demo_def] own] own a r show ?thesis
    unfolding n by (simp add: Let_def z plus_vec_def)
qed

definition demo_cb :: "nat \<Rightarrow> budget_state" where
  "demo_cb n =
     \<lparr>retry_side = \<lparr>bs_max = n, bs_active = 0, bs_overflow = 7, bs_open = 1, bs_remaining = None\<rparr>,
      request_side = \<lparr>bs_max = 5, bs_active = 0, bs_overflow = 8, bs_open = 2, bs_remaining = None\<rparr>\<rparr>"

text \<open>
  A request alone on a cluster whose retry budget is one: its first retry takes the slot,
  and its second is refused because the slot it holds itself is only given up after the
  next one has been acquired. It ends after two attempts of the four its policy allows,
  with an overflow counted, although no other request ever held a slot.
\<close>

theorem retry_blocks_itself:
  "map_option (\<lambda>(p, s). (resp_status (px_response p), px_retry_limit_exceeded p, rq_counts s,
       counters (ps_stats s) ! 7, retry_active s))
     (run_demo (\<lambda>_. 503) 3 (Some (demo_cb 1))) = Some (503, False, [2, 1, 1, 0, 0], 1, Some 0)"
  by (simp add: demo_defs retry_loop.simps rq_counts_list demo_cb_def retry_active_def)

theorem proxy_arm_returns_budget_witness:
  "\<exists>p s'. run_demo (\<lambda>_. 503) 3 (Some (demo_cb 1)) = Some (p, s') \<and>
     retry_active s' = Some 0 \<and> request_active s' = Some 0"
proof -
  obtain p s' where r: "run_demo (\<lambda>_. 503) 3 (Some (demo_cb 1)) = Some (p, s')"
    using retry_blocks_itself by auto
  from proxy_arm_returns_budget [OF r [unfolded run_demo_def]] r show ?thesis
    by (simp add: retry_active_def request_active_def demo_proxy_def plain_def demo_cb_def)
qed

end
