(* ===== verification/Http1_Client.thy ===== *)
theory Http1_Client
  imports Proxy
begin

text \<open>
  The HTTP/1 client and the response serializer (\<open>envoy-http1/src/client.rs\<close>,
  \<open>envoy-http1/src/response.rs\<close>): the request wire, the response head loop, both body
  framings and the zero-copy head. The \<open>httparse\<close> crate is the parameter \<open>hp\<close>, with
  \<open>httparse_response\<close> stating that what it returns are slices of its input; the spare
  capacity the \<open>bytes\<close> crate leaves after \<open>reserve(4096)\<close> is the parameter \<open>sp\<close>. A socket
  is the list of what arrives on it. A panic is the outcome \<open>None\<close>. Offsets into the
  head buffer are natural numbers: the header cap keeps the buffer far below \<open>2^32\<close>.
\<close>

section \<open>Bytes and UTF-8\<close>

definition str_of :: "bytes \<Rightarrow> string" where
  "str_of bs = map (\<lambda>b. char_of (unat b)) bs"

lemma u8_char: "of_char (char_of (unat b)) = (b :: u8)"
proof -
  have "(of_char (char_of (unat b)) :: nat) = unat b" by (simp add: unat_u8)
  then have "(of_nat (of_char (char_of (unat b))) :: u8) = b" by simp
  then show ?thesis by (simp only: of_nat_of_char)
qed

lemma char_u8: "char_of (unat (of_char c :: u8)) = c"
proof -
  have lt: "(of_char c :: nat) < 256" by (cases c) auto
  have "unat (of_char c :: u8) = unat (of_nat (of_char c) :: u8)" by (simp only: of_nat_of_char)
  also have "\<dots> = of_char c" using lt by (simp add: unat_of_nat)
  finally show ?thesis by simp
qed

lemma as_bytes_str_of [simp]: "as_bytes (str_of bs) = bs"
  by (induction bs) (auto simp: as_bytes_def str_of_def u8_char)

lemma str_of_as_bytes [simp]: "str_of (as_bytes s) = s"
  by (induction s) (auto simp: as_bytes_def str_of_def char_u8)

lemma as_bytes_append [simp]: "as_bytes (s @ t) = as_bytes s @ as_bytes t"
  by (simp add: as_bytes_def)

lemma str_of_append [simp]: "str_of (s @ t) = str_of s @ str_of t"
  by (simp add: str_of_def)

lemma as_bytes_Nil [simp]: "as_bytes [] = []"
  by (simp add: as_bytes_def)

lemma str_of_Nil [simp]: "str_of [] = []"
  by (simp add: str_of_def)

lemma as_bytes_inject [simp]: "as_bytes s = as_bytes t \<longleftrightarrow> s = t"
  by (metis str_of_as_bytes)

lemma length_as_bytes [simp]: "length (as_bytes s) = length s"
  by (simp add: as_bytes_def)

text \<open>The well-formed byte sequences of the Unicode standard, as \<open>from_utf8\<close> checks them.\<close>

definition cont_byte :: "u8 \<Rightarrow> bool" where
  "cont_byte b \<longleftrightarrow> 128 \<le> b \<and> b \<le> 191"

definition second_of_three :: "u8 \<Rightarrow> u8 \<Rightarrow> bool" where
  "second_of_three b c \<longleftrightarrow> cont_byte c \<and> (b = 224 \<longrightarrow> 160 \<le> c) \<and> (b = 237 \<longrightarrow> c \<le> 159)"

definition second_of_four :: "u8 \<Rightarrow> u8 \<Rightarrow> bool" where
  "second_of_four b c \<longleftrightarrow> cont_byte c \<and> (b = 240 \<longrightarrow> 144 \<le> c) \<and> (b = 244 \<longrightarrow> c \<le> 143)"

fun valid_utf8 :: "bytes \<Rightarrow> bool" where
  "valid_utf8 [] = True"
| "valid_utf8 [b] = (b < 128)"
| "valid_utf8 [b, c] =
     (if b < 128 then valid_utf8 [c] else 194 \<le> b \<and> b \<le> 223 \<and> cont_byte c)"
| "valid_utf8 [b, c, d] =
     (if b < 128 then valid_utf8 [c, d]
      else if b \<le> 223 then 194 \<le> b \<and> cont_byte c \<and> valid_utf8 [d]
      else b \<le> 239 \<and> second_of_three b c \<and> cont_byte d)"
| "valid_utf8 (b # c # d # e # bs) =
     (if b < 128 then valid_utf8 (c # d # e # bs)
      else if b \<le> 223 then 194 \<le> b \<and> cont_byte c \<and> valid_utf8 (d # e # bs)
      else if b \<le> 239 then second_of_three b c \<and> cont_byte d \<and> valid_utf8 (e # bs)
      else b \<le> 244 \<and> second_of_four b c \<and> cont_byte d \<and> cont_byte e \<and> valid_utf8 bs)"

definition from_utf8 :: "bytes \<Rightarrow> string option" where
  "from_utf8 bs = (if valid_utf8 bs then Some (str_of bs) else None)"

lemma from_utf8_Some [simp]: "from_utf8 bs = Some s \<longleftrightarrow> valid_utf8 bs \<and> s = str_of bs"
  by (auto simp: from_utf8_def)

section \<open>Sockets\<close>

datatype arrival = Arrived bytes | Closed | Failed

type_synonym socket = "arrival list"

datatype read_result = Read bytes | TimedOut | ReadFailed

fun sock_read :: "nat \<Rightarrow> socket \<Rightarrow> read_result \<times> socket" where
  "sock_read cap [] = (TimedOut, [])"
| "sock_read cap (Closed # r) = (Read [], Closed # r)"
| "sock_read cap (Failed # r) = (ReadFailed, Failed # r)"
| "sock_read cap (Arrived bs # r) =
     (if bs = [] then sock_read cap r
      else if length bs \<le> cap then (Read bs, r)
      else (Read (take cap bs), Arrived (drop cap bs) # r))"

text \<open>A read under the read timeout; end of file and the timeout give the same error.\<close>

definition read_more :: "nat \<Rightarrow> Http1Error \<Rightarrow> socket \<Rightarrow> (Http1Error + bytes) \<times> socket" where
  "read_more cap err s =
     (case sock_read cap s of
        (TimedOut, s') \<Rightarrow> (Inl err, s')
      | (ReadFailed, s') \<Rightarrow> (Inl Io, s')
      | (Read bs, s') \<Rightarrow> (if bs = [] then Inl err else Inr bs, s'))"

fun incoming :: "socket \<Rightarrow> bytes" where
  "incoming [] = []"
| "incoming (Closed # r) = []"
| "incoming (Failed # r) = []"
| "incoming (Arrived bs # r) = bs @ incoming r"

lemma read_more_incoming:
  "read_more cap err s = (Inr bs, s') \<Longrightarrow> bs \<noteq> [] \<and> length bs \<le> cap \<and> incoming s = bs @ incoming s'"
  by (induction cap s rule: sock_read.induct)
     (auto simp: read_more_def split: if_splits read_result.splits prod.splits)

lemma read_more_less: "(Inr bs, s') = read_more cap err s \<Longrightarrow> length (incoming s') < length (incoming s)"
  using read_more_incoming [of cap err s bs s'] by auto

lemma read_more_some:
  "incoming s \<noteq> [] \<Longrightarrow> 0 < cap \<Longrightarrow> \<exists>bs s'. read_more cap err s = (Inr bs, s')"
  by (induction cap s rule: sock_read.induct) (auto simp: read_more_def split: read_result.splits prod.splits)

text \<open>Reading into a buffer until it satisfies a condition.\<close>

function fill_until :: "(bytes \<Rightarrow> bool) \<Rightarrow> (bytes \<Rightarrow> nat) \<Rightarrow> Http1Error \<Rightarrow> bytes \<Rightarrow> socket
    \<Rightarrow> (Http1Error + bytes) \<times> socket" where
  "fill_until P cap err buf s =
     (if P buf then (Inr buf, s)
      else case read_more (cap buf) err s of
        (Inl e, s') \<Rightarrow> (Inl e, s')
      | (Inr bs, s') \<Rightarrow> fill_until P cap err (buf @ bs) s')"
  by pat_completeness auto
termination
  by (relation "measure (\<lambda>(P, cap, err, buf, s). length (incoming s))") (auto dest: read_more_less)

declare fill_until.simps [simp del]

lemma fill_until_Inr:
  "fill_until P cap err buf s = (Inr buf', s') \<Longrightarrow>
    P buf' \<and> (\<exists>bs. buf' = buf @ bs) \<and> buf' @ incoming s' = buf @ incoming s"
proof (induction P cap err buf s rule: fill_until.induct)
  case (1 P cap err buf s)
  show ?case
  proof (cases "P buf")
    case True
    with "1.prems" show ?thesis by (simp add: fill_until.simps [of P cap err buf s])
  next
    case False
    with "1.prems" obtain bs s1 where r: "read_more (cap buf) err s = (Inr bs, s1)"
        and f: "fill_until P cap err (buf @ bs) s1 = (Inr buf', s')"
      by (auto simp: fill_until.simps [of P cap err buf s] split: prod.splits sum.splits)
    have inc: "incoming s = bs @ incoming s1" using read_more_incoming [OF r] by simp
    have "P buf' \<and> (\<exists>cs. buf' = (buf @ bs) @ cs) \<and> buf' @ incoming s' = (buf @ bs) @ incoming s1"
      using "1.IH" [OF False r [symmetric] refl f] .
    then show ?thesis using inc by auto
  qed
qed

text \<open>The loop ends with success when some buffer the stream can still reach satisfies the condition.\<close>

lemma fill_until_reaches:
  assumes "\<And>bs. 0 < cap bs \<or> P bs" and "\<And>bs. \<lbrakk>\<exists>j. bs = buf @ take j (incoming s) \<and> k \<le> j\<rbrakk> \<Longrightarrow> P bs"
  shows "\<exists>buf' s'. fill_until P cap err buf s = (Inr buf', s')"
  using assms
proof (induction P cap err buf s arbitrary: k rule: fill_until.induct)
  case (1 P cap err buf s)
  show ?case
  proof (cases "P buf")
    case True
    then show ?thesis by (simp add: fill_until.simps [of P cap err buf s])
  next
    case False
    then have cap: "0 < cap buf" using "1.prems"(1) [of buf] by simp
    have ne: "incoming s \<noteq> []" using False "1.prems"(2) [of buf] by auto
    obtain bs s1 where r: "read_more (cap buf) err s = (Inr bs, s1)"
      using read_more_some [OF ne cap] by blast
    have inc: "incoming s = bs @ incoming s1" using read_more_incoming [OF r] by simp
    have "\<exists>buf' s'. fill_until P cap err (buf @ bs) s1 = (Inr buf', s')"
    proof (rule "1.IH" [OF False r [symmetric] refl "1.prems"(1), of "k - length bs"])
      show "P cs" if "\<exists>j. cs = (buf @ bs) @ take j (incoming s1) \<and> k - length bs \<le> j" for cs
      proof -
        from that obtain j where "cs = (buf @ bs) @ take j (incoming s1)" "k - length bs \<le> j" by blast
        then have "cs = buf @ take (length bs + j) (incoming s)" "k \<le> length bs + j" using inc by auto
        then show ?thesis using "1.prems"(2) by blast
      qed
    qed
    then show ?thesis using False r by (simp add: fill_until.simps [of P cap err buf s])
  qed
qed

section \<open>What httparse returns\<close>

datatype hp_error = Token | Version | Status | HeaderName | HeaderValue | NewLine | TooManyHeaders

text \<open>A header row is the offset and length of its name and of its value in the input.\<close>

type_synonym span = "nat \<times> nat \<times> nat \<times> nat"

record hp_response =
  hr_end :: nat
  hr_code :: "nat option"
  hr_spans :: "span list"

datatype 'a hp_status = Complete 'a | Partial

type_synonym response_parser = "bytes \<Rightarrow> hp_error + hp_response hp_status"

definition byte_slice :: "bytes \<Rightarrow> nat \<Rightarrow> nat \<Rightarrow> bytes" where
  "byte_slice buf i n = take n (drop i buf)"

definition span_name :: "bytes \<Rightarrow> span \<Rightarrow> bytes" where
  "span_name buf sn = (case sn of (ns, nlen, vs, vlen) \<Rightarrow> byte_slice buf ns nlen)"

definition span_value :: "bytes \<Rightarrow> span \<Rightarrow> bytes" where
  "span_value buf sn = (case sn of (ns, nlen, vs, vlen) \<Rightarrow> byte_slice buf vs vlen)"

text \<open>The documented contract: names are \<open>str\<close> slices, and the head ends inside the input.\<close>

definition httparse_response :: "response_parser \<Rightarrow> bool" where
  "httparse_response hp \<longleftrightarrow>
     (\<forall>buf h. hp buf = Inr (Complete h) \<longrightarrow>
        hr_end h \<le> length buf \<and> list_all (\<lambda>sn. valid_utf8 (span_name buf sn)) (hr_spans h))"

section \<open>Response heads (client.rs)\<close>

record DirectHead =
  dh_status :: nat
  dh_end :: nat
  dh_spans :: "span list"
  dh_chunked :: bool
  dh_cl :: nat
  dh_upstream_close :: bool

definition scan_span :: "bytes \<Rightarrow> span \<Rightarrow> DirectHead \<Rightarrow> Http1Error + DirectHead" where
  "scan_span buf sn d =
     (case from_utf8 (span_value buf sn) of
        None \<Rightarrow> Inl MalformedResponseLine
      | Some v \<Rightarrow>
          let name = str_of (span_name buf sn);
              d1 = (if eq_ignore_ascii_case name ''transfer-encoding'' \<and> eq_ignore_ascii_case v ''chunked''
                    then d\<lparr>dh_chunked := True\<rparr>
                    else if eq_ignore_ascii_case name ''content-length''
                    then d\<lparr>dh_cl := (case parse_unsigned 64 v of None \<Rightarrow> 0 | Some n \<Rightarrow> n)\<rparr>
                    else if eq_ignore_ascii_case name ''connection'' \<and> eq_ignore_ascii_case v ''close''
                    then d\<lparr>dh_upstream_close := True\<rparr>
                    else d)
          in Inr (d1\<lparr>dh_spans := dh_spans d1 @ [sn]\<rparr>))"

fun scan_spans :: "bytes \<Rightarrow> span list \<Rightarrow> DirectHead \<Rightarrow> Http1Error + DirectHead" where
  "scan_spans buf [] d = Inr d"
| "scan_spans buf (sn # sns) d =
     (if span_name buf sn = [] then scan_spans buf sns d
      else case scan_span buf sn d of Inl e \<Rightarrow> Inl e | Inr d' \<Rightarrow> scan_spans buf sns d')"

definition hp_failure :: "hp_error \<Rightarrow> Http1Error" where
  "hp_failure e =
     (case e of
        Token \<Rightarrow> MalformedResponseLine | Version \<Rightarrow> MalformedResponseLine | Status \<Rightarrow> MalformedResponseLine
      | HeaderName \<Rightarrow> MalformedHeader | HeaderValue \<Rightarrow> MalformedHeader | NewLine \<Rightarrow> MalformedHeader
      | TooManyHeaders \<Rightarrow> HeadersTooLarge 8192)"

text \<open>Both paths treat a partial head and the parser's errors alike; they differ on a complete head.\<close>

definition parse_head_with :: "response_parser \<Rightarrow> (bytes \<Rightarrow> hp_response \<Rightarrow> Http1Error + 'a) \<Rightarrow> bytes \<Rightarrow> Http1Error + 'a option" where
  "parse_head_with hp f buf =
     (case hp buf of
        Inl e \<Rightarrow> Inl (hp_failure e)
      | Inr Partial \<Rightarrow> if length buf > 8192 then Inl (HeadersTooLarge 8192) else Inr None
      | Inr (Complete h) \<Rightarrow> (case f buf h of Inl e \<Rightarrow> Inl e | Inr x \<Rightarrow> Inr (Some x)))"

definition direct_head :: "bytes \<Rightarrow> hp_response \<Rightarrow> Http1Error + DirectHead" where
  "direct_head buf h =
     (case hr_code h of
        None \<Rightarrow> Inl MalformedResponseLine
      | Some status \<Rightarrow>
          scan_spans buf (hr_spans h)
            \<lparr>dh_status = status, dh_end = hr_end h, dh_spans = [], dh_chunked = False, dh_cl = 0, dh_upstream_close = False\<rparr>)"

definition parse_response_head :: "response_parser \<Rightarrow> bytes \<Rightarrow> Http1Error + DirectHead option" where
  "parse_response_head hp = parse_head_with hp direct_head"

text \<open>The owned head: status, header rows and the offset of the body.\<close>

fun owned_headers :: "bytes \<Rightarrow> span list \<Rightarrow> Http1Error + headers" where
  "owned_headers buf [] = Inr []"
| "owned_headers buf (sn # sns) =
     (if span_name buf sn = [] then owned_headers buf sns
      else case from_utf8 (span_value buf sn) of
        None \<Rightarrow> Inl MalformedResponseLine
      | Some v \<Rightarrow>
          (case owned_headers buf sns of Inl e \<Rightarrow> Inl e | Inr hs \<Rightarrow> Inr ((str_of (span_name buf sn), v) # hs)))"

definition owned_head :: "bytes \<Rightarrow> hp_response \<Rightarrow> Http1Error + nat \<times> headers \<times> nat" where
  "owned_head buf h =
     (case hr_code h of
        None \<Rightarrow> Inl MalformedResponseLine
      | Some status \<Rightarrow>
          (case owned_headers buf (hr_spans h) of Inl e \<Rightarrow> Inl e | Inr hs \<Rightarrow> Inr (status, hs, hr_end h)))"

function head_loop :: "(bytes \<Rightarrow> Http1Error + 'a option) \<Rightarrow> (nat \<Rightarrow> nat) \<Rightarrow> bytes \<Rightarrow> socket
    \<Rightarrow> (Http1Error + 'a \<times> bytes) \<times> socket" where
  "head_loop parse sp buf s =
     (case read_more (sp (length buf)) UnexpectedEof s of
        (Inl e, s') \<Rightarrow> (Inl e, s')
      | (Inr bs, s') \<Rightarrow>
          (case parse (buf @ bs) of
             Inl e \<Rightarrow> (Inl e, s')
           | Inr None \<Rightarrow> head_loop parse sp (buf @ bs) s'
           | Inr (Some h) \<Rightarrow> (Inr (h, buf @ bs), s')))"
  by pat_completeness auto
termination
  by (relation "measure (\<lambda>(parse, sp, buf, s). length (incoming s))") (auto dest: read_more_less)

declare head_loop.simps [simp del]

section \<open>Bodies\<close>

text \<open>\<open>Vec::with_capacity\<close> panics above \<open>isize::MAX\<close>.\<close>

definition read_sized_body :: "bytes \<Rightarrow> nat \<Rightarrow> nat \<Rightarrow> socket \<Rightarrow> ((Http1Error + bytes) \<times> socket) option" where
  "read_sized_body buf headers_end cl s =
     (if length buf < headers_end \<or> cl \<ge> 2 ^ 63 then None
      else Some (fill_until (\<lambda>body. cl \<le> length body) (\<lambda>body. cl - length body) UnexpectedEof
        (take cl (drop headers_end buf)) s))"

definition crlf :: bytes where
  "crlf = [13, 10]"

fun find_crlf :: "bytes \<Rightarrow> nat option" where
  "find_crlf [] = None"
| "find_crlf [b] = None"
| "find_crlf (b # c # bs) = (if b = 13 \<and> c = 10 then Some 0 else map_option Suc (find_crlf (c # bs)))"

text \<open>\<open>usize::from_str_radix(_, 16)\<close>.\<close>

definition hex_digit :: "char \<Rightarrow> nat option" where
  "hex_digit c =
     (if is_ascii_digit c then Some (byte_of c - 48)
      else if 97 \<le> byte_of c \<and> byte_of c \<le> 102 then Some (byte_of c - 87)
      else if 65 \<le> byte_of c \<and> byte_of c \<le> 70 then Some (byte_of c - 55)
      else None)"

definition parse_hex :: "string \<Rightarrow> nat option" where
  "parse_hex s =
     (let ds = (case s of [] \<Rightarrow> [] | c # cs \<Rightarrow> if c = CHR ''+'' then cs else s);
          n = foldl (\<lambda>acc c. 16 * acc + (case hex_digit c of None \<Rightarrow> 0 | Some d \<Rightarrow> d)) 0 ds in
      if ds = [] \<or> list_ex (\<lambda>c. hex_digit c = None) ds \<or> n \<ge> 2 ^ 64 then None else Some n)"

definition parse_chunk_size :: "bytes \<Rightarrow> nat option" where
  "parse_chunk_size line =
     Option.bind (from_utf8 line) (\<lambda>l. parse_hex (str_trim (hd (split_on CHR '';'' (str_trim l)))))"

function trailer_loop :: "bytes \<Rightarrow> nat \<Rightarrow> socket \<Rightarrow> (Http1Error + bytes) \<times> socket" where
  "trailer_loop buf pos s =
     (case fill_until (\<lambda>b. find_crlf (drop pos b) \<noteq> None) (\<lambda>_. 256) MalformedChunkedFraming buf s of
        (Inl e, s') \<Rightarrow> (Inl e, s')
      | (Inr buf', s') \<Rightarrow>
          (case find_crlf (drop pos buf') of
             None \<Rightarrow> (Inl MalformedChunkedFraming, s')
           | Some off \<Rightarrow> if off = 0 then (Inr buf', s') else trailer_loop buf' (pos + off + 2) s'))"
  by pat_completeness auto

lemma find_crlf_Some: "find_crlf bs = Some k \<Longrightarrow> k + 2 \<le> length bs \<and> take 2 (drop k bs) = crlf"
  by (induction bs arbitrary: k rule: find_crlf.induct) (auto simp: crlf_def split: if_splits)

lemma fill_length: "(Inr buf', s') = fill_until P cap err buf s \<Longrightarrow>
    length buf' + length (incoming s') = length buf + length (incoming s)"
  using fill_until_Inr [of P cap err buf s buf' s'] by (metis length_append)

lemma line_progress:
  assumes "(Inr buf', s') = fill_until P cap err buf s" and "find_crlf (drop pos buf') = Some off"
  shows "length buf' + length (incoming s') - (pos + off + 2) < length buf + length (incoming s) - pos"
  using fill_length [OF assms(1)] find_crlf_Some [OF assms(2)] by auto

termination trailer_loop
proof (relation "measure (\<lambda>(buf, pos, s). length buf + length (incoming s) - pos)", goal_cases)
  case (2 buf pos s x s' buf' off)
  then show ?case
    using line_progress [of buf' s' "\<lambda>b. find_crlf (drop pos b) \<noteq> None" "\<lambda>_. 256" MalformedChunkedFraming buf s pos off]
    by simp
qed simp

declare trailer_loop.simps [simp del]

text \<open>
  A chunk size that makes \<open>pos + chunk_size + 2\<close> exceed \<open>usize\<close> wraps, and the slice of the
  chunk then has its end before its start or beyond the buffer: a panic.
\<close>

function chunk_loop :: "bytes \<Rightarrow> nat \<Rightarrow> bytes \<Rightarrow> socket \<Rightarrow> ((Http1Error + bytes) \<times> socket) option" where
  "chunk_loop buf pos out s =
     (case fill_until (\<lambda>b. find_crlf (drop pos b) \<noteq> None) (\<lambda>_. 4096) MalformedChunkedFraming buf s of
        (Inl e, s1) \<Rightarrow> Some (Inl e, s1)
      | (Inr buf1, s1) \<Rightarrow>
          (case find_crlf (drop pos buf1) of
             None \<Rightarrow> Some (Inl MalformedChunkedFraming, s1)
           | Some off \<Rightarrow>
               (case parse_chunk_size (byte_slice buf1 pos off) of
                  None \<Rightarrow> Some (Inl MalformedChunkedFraming, s1)
                | Some n \<Rightarrow>
                    let pos1 = pos + off + 2 in
                    if n = 0
                    then (case fill_until (\<lambda>b. pos1 + 2 \<le> length b) (\<lambda>_. 64) MalformedChunkedFraming buf1 s1 of
                        (Inl e, s2) \<Rightarrow> Some (Inl e, s2)
                      | (Inr buf2, s2) \<Rightarrow>
                          if byte_slice buf2 pos1 2 = crlf then Some (Inr out, s2)
                          else case trailer_loop buf2 pos1 s2 of
                            (Inl e, s3) \<Rightarrow> Some (Inl e, s3)
                          | (Inr _, s3) \<Rightarrow> Some (Inr out, s3))
                    else if pos1 + n + 2 \<ge> 2 ^ 64 then None
                    else (case fill_until (\<lambda>b. pos1 + n + 2 \<le> length b) (\<lambda>_. 4096) MalformedChunkedFraming buf1 s1 of
                        (Inl e, s2) \<Rightarrow> Some (Inl e, s2)
                      | (Inr buf2, s2) \<Rightarrow>
                          if byte_slice buf2 (pos1 + n) 2 \<noteq> crlf then Some (Inl MalformedChunkedFraming, s2)
                          else chunk_loop buf2 (pos1 + n + 2) (out @ byte_slice buf2 pos1 n) s2))))"
  by pat_completeness auto
termination
proof (relation "measure (\<lambda>(buf, pos, out, s). length buf + length (incoming s) - pos)", goal_cases)
  case (2 buf pos out s r1 s1 buf1 off n pos1 r2 s2 buf2)
  have f1: "length buf1 + length (incoming s1) = length buf + length (incoming s)"
    using 2 by (intro fill_length) simp
  have f2: "length buf2 + length (incoming s2) = length buf1 + length (incoming s1)"
    using 2 by (intro fill_length) simp
  have "pos1 + n + 2 \<le> length buf2" using fill_until_Inr [of _ _ _ buf1 s1 buf2 s2] 2 by metis
  with f1 f2 show ?case using 2 by simp
qed simp

declare chunk_loop.simps [simp del]

definition read_chunked_body :: "bytes \<Rightarrow> nat \<Rightarrow> socket \<Rightarrow> ((Http1Error + bytes) \<times> socket) option" where
  "read_chunked_body buf headers_end s = (if length buf < headers_end then None else chunk_loop buf headers_end [] s)"

section \<open>Serialization (response.rs, client.rs)\<close>

definition reasons :: "(nat \<times> string) list" where
  "reasons =
     [(100, ''Continue''), (101, ''Switching Protocols''), (200, ''OK''), (201, ''Created''),
      (204, ''No Content''), (301, ''Moved Permanently''), (302, ''Found''), (303, ''See Other''),
      (304, ''Not Modified''), (307, ''Temporary Redirect''), (308, ''Permanent Redirect''),
      (400, ''Bad Request''), (401, ''Unauthorized''), (403, ''Forbidden''), (404, ''Not Found''),
      (405, ''Method Not Allowed''), (408, ''Request Timeout''), (409, ''Conflict''),
      (413, ''Payload Too Large''), (414, ''URI Too Long''), (500, ''Internal Server Error''),
      (501, ''Not Implemented''), (502, ''Bad Gateway''), (503, ''Service Unavailable''),
      (504, ''Gateway Timeout''), (505, ''HTTP Version Not Supported'')]"

definition canonical_reason :: "nat \<Rightarrow> string" where
  "canonical_reason status = (case map_of reasons status of None \<Rightarrow> ''OK'' | Some r \<Rightarrow> r)"

definition header_line :: "string \<Rightarrow> string \<Rightarrow> bytes" where
  "header_line name v = as_bytes name @ as_bytes '': '' @ as_bytes v @ crlf"

definition status_line :: "nat \<Rightarrow> string \<Rightarrow> bytes" where
  "status_line status reason = as_bytes ''HTTP/1.1 '' @ as_bytes (show_nat status) @ as_bytes '' '' @ as_bytes reason @ crlf"

definition serialize_response_head :: "Response \<Rightarrow> bytes" where
  "serialize_response_head r =
     status_line (resp_status r) (case resp_reason r of None \<Rightarrow> canonical_reason (resp_status r) | Some x \<Rightarrow> x)
     @ concat (map (\<lambda>(n, v). header_line n v) (resp_headers r)) @ crlf"

definition direct_line :: "string \<Rightarrow> bytes \<Rightarrow> span \<Rightarrow> bytes" where
  "direct_line date buf sn =
     (let name = str_of (span_name buf sn) in
      if eq_ignore_ascii_case name ''server'' then header_line ''server'' ''envoy-rust''
      else if eq_ignore_ascii_case name ''date'' then header_line ''date'' date
      else if eq_ignore_ascii_case name ''connection'' \<or> eq_ignore_ascii_case name ''transfer-encoding'' then []
      else if eq_ignore_ascii_case name ''content-length''
      then as_bytes ''content-length: '' @ span_value buf sn @ crlf
      else as_bytes (str_to_ascii_lowercase name) @ as_bytes '': '' @ span_value buf sn @ crlf)"

definition serialize_direct_head :: "string \<Rightarrow> bytes \<Rightarrow> DirectHead \<Rightarrow> nat \<Rightarrow> nat \<Rightarrow> bool \<Rightarrow> bytes" where
  "serialize_direct_head date buf head body_len elapsed_ms close =
     (let saw = (\<lambda>name. list_ex (\<lambda>sn. eq_ignore_ascii_case (str_of (span_name buf sn)) name) (dh_spans head)) in
      status_line (dh_status head) (canonical_reason (dh_status head))
      @ concat (map (direct_line date buf) (dh_spans head))
      @ (if saw ''server'' then [] else header_line ''server'' ''envoy-rust'')
      @ (if saw ''date'' then [] else header_line ''date'' date)
      @ (if saw ''content-length'' then [] else header_line ''content-length'' (show_nat body_len))
      @ header_line ''x-envoy-upstream-service-time'' (show_nat elapsed_ms)
      @ header_line ''connection'' (connection_value close) @ crlf)"

text \<open>
  The writers. A writer is the list of how many bytes it takes per call; a call that takes
  none is a \<open>WriteZero\<close> error, and the end of the list is a failing connection.
\<close>

fun advance_slices :: "nat \<Rightarrow> bytes list \<Rightarrow> bytes list" where
  "advance_slices n [] = []"
| "advance_slices n (b # bs) = (if length b \<le> n then advance_slices (n - length b) bs else drop n b # bs)"

fun write_all_vectored :: "nat list \<Rightarrow> bytes list \<Rightarrow> bytes \<Rightarrow> (Http1Error + unit) \<times> bytes" where
  "write_all_vectored [] slices sent = (if slices = [] then Inr () else Inl Io, sent)"
| "write_all_vectored (n # ns) slices sent =
     (if slices = [] then (Inr (), sent)
      else let m = min n (length (concat slices)) in
        if m = 0 then (Inl Io, sent)
        else write_all_vectored ns (advance_slices m slices) (sent @ take m (concat slices)))"

fun write_all :: "nat list \<Rightarrow> bytes \<Rightarrow> bytes \<Rightarrow> (Http1Error + unit) \<times> bytes" where
  "write_all [] buf sent = (if buf = [] then Inr () else Inl Io, sent)"
| "write_all (n # ns) buf sent =
     (if buf = [] then (Inr (), sent)
      else if n = 0 then (Inl Io, sent) else write_all ns (drop n buf) (sent @ take n buf))"

definition write_head_and_body :: "nat list \<Rightarrow> bytes \<Rightarrow> bytes \<Rightarrow> (Http1Error + unit) \<times> bytes" where
  "write_head_and_body w head body =
     (if length body \<ge> 1024 then write_all_vectored w [head, body] [] else write_all w (head @ body) [])"

definition write_to_buf :: "nat list \<Rightarrow> Response \<Rightarrow> (Http1Error + unit) \<times> bytes" where
  "write_to_buf w r = write_head_and_body w (serialize_response_head r) (resp_body r)"

section \<open>Requests to the upstream\<close>

definition body_len_estimate :: "Request \<Rightarrow> nat" where
  "body_len_estimate req = (case req_body req of None \<Rightarrow> 0 | Some b \<Rightarrow> length b)"

definition wire_skip :: "bool \<Rightarrow> string \<times> string \<Rightarrow> bool" where
  "wire_skip strip kv \<longleftrightarrow> strip \<and> (is_header ''connection'' kv \<or> is_header ''transfer-encoding'' kv)"

definition build_request_wire :: "string \<Rightarrow> Request \<Rightarrow> bool \<Rightarrow> bytes" where
  "build_request_wire host req strip =
     as_bytes (req_method req) @ as_bytes '' '' @ as_bytes (req_path req) @ as_bytes '' HTTP/1.1'' @ crlf
     @ (if has_header ''host'' (req_headers req) then [] else header_line ''host'' host)
     @ concat (map (\<lambda>(n, v). header_line (str_to_ascii_lowercase n) v) (filter (\<lambda>kv. \<not> wire_skip strip kv) (req_headers req)))
     @ (if \<not> has_header ''content-length'' (req_headers req) \<and> body_len_estimate req \<noteq> 0
        then header_line ''content-length'' (show_nat (body_len_estimate req)) else [])
     @ crlf
     @ (case req_body req of None \<Rightarrow> [] | Some b \<Rightarrow> b)"

section \<open>Exchanges\<close>

text \<open>A stream: the host it was opened for, what it receives, and what was sent on it, or \<open>None\<close> when sending fails.\<close>

record ClientStream =
  cs_host :: string
  cs_in :: socket
  cs_sent :: "bytes option"

definition send_wire :: "bytes \<Rightarrow> ClientStream \<Rightarrow> (Http1Error + unit) \<times> ClientStream" where
  "send_wire w cs =
     (case cs_sent cs of None \<Rightarrow> (Inl Io, cs) | Some o1 \<Rightarrow> (Inr (), cs\<lparr>cs_sent := Some (o1 @ w)\<rparr>))"

definition chunked_response :: "headers \<Rightarrow> bool" where
  "chunked_response hs =
     list_ex (\<lambda>(n, v). eq_ignore_ascii_case n ''transfer-encoding'' \<and> eq_ignore_ascii_case v ''chunked'') hs"

definition response_length :: "headers \<Rightarrow> nat" where
  "response_length hs =
     (case Option.bind (find (is_header ''content-length'') hs) (\<lambda>kv. parse_unsigned 64 (snd kv)) of
        None \<Rightarrow> 0 | Some n \<Rightarrow> n)"

definition with_input :: "ClientStream \<Rightarrow> ('e + 'a) \<times> socket \<Rightarrow> ('a \<Rightarrow> 'b) \<Rightarrow> ('e + 'b) \<times> ClientStream" where
  "with_input cs x f = (case x of (Inl e, s) \<Rightarrow> (Inl e, cs\<lparr>cs_in := s\<rparr>) | (Inr a, s) \<Rightarrow> (Inr (f a), cs\<lparr>cs_in := s\<rparr>))"

definition owned_body :: "nat \<times> headers \<times> nat \<Rightarrow> bytes \<Rightarrow> socket \<Rightarrow> ((Http1Error + bytes) \<times> socket) option" where
  "owned_body head buf s =
     (case head of (status, hs, headers_end) \<Rightarrow>
        if chunked_response hs then read_chunked_body buf headers_end s
        else read_sized_body buf headers_end (response_length hs) s)"

definition send_request_borrowed :: "response_parser \<Rightarrow> (nat \<Rightarrow> nat) \<Rightarrow> Request \<Rightarrow> bool \<Rightarrow> ClientStream
    \<Rightarrow> ((Http1Error + Response) \<times> ClientStream) option" where
  "send_request_borrowed hp sp req strip cs =
     (case send_wire (build_request_wire (cs_host cs) req strip) cs of
        (Inl e, cs1) \<Rightarrow> Some (Inl e, cs1)
      | (Inr _, cs1) \<Rightarrow>
          (case head_loop (parse_head_with hp owned_head) sp [] (cs_in cs1) of
             (Inl e, s) \<Rightarrow> Some (Inl e, cs1\<lparr>cs_in := s\<rparr>)
           | (Inr (head, buf), s) \<Rightarrow>
               map_option (\<lambda>x. with_input cs1 x (\<lambda>body.
                   \<lparr>resp_status = fst head, resp_reason = None, resp_headers = fst (snd head), resp_body = body\<rparr>))
                 (owned_body head buf s)))"

definition send_request :: "response_parser \<Rightarrow> (nat \<Rightarrow> nat) \<Rightarrow> Request \<Rightarrow> ClientStream
    \<Rightarrow> ((Http1Error + Response) \<times> ClientStream) option" where
  "send_request hp sp req cs = send_request_borrowed hp sp req False cs"

datatype DirectOutcome =
    Direct nat bool bytes
  | Fallback Response

fun span_headers :: "bytes \<Rightarrow> span list \<Rightarrow> Http1Error + headers" where
  "span_headers buf [] = Inr []"
| "span_headers buf (sn # sns) =
     (case (from_utf8 (span_name buf sn), from_utf8 (span_value buf sn)) of
        (Some n, Some v) \<Rightarrow> (case span_headers buf sns of Inl e \<Rightarrow> Inl e | Inr hs \<Rightarrow> Inr ((n, v) # hs))
      | _ \<Rightarrow> Inl MalformedResponseLine)"

text \<open>
  The direct exchange. \<open>elapsed_ms\<close> and \<open>date\<close> are the clock readings of the serialization;
  the result carries the head buffer of the caller, which the direct outcome overwrites.
\<close>

definition direct_body :: "string \<Rightarrow> nat \<Rightarrow> bool \<Rightarrow> bytes \<Rightarrow> DirectHead \<Rightarrow> bytes \<Rightarrow> ClientStream \<Rightarrow> socket
    \<Rightarrow> ((Http1Error + DirectOutcome \<times> bytes) \<times> ClientStream) option" where
  "direct_body date elapsed_ms close out head buf cs s =
     (if dh_chunked head
      then (case span_headers buf (dh_spans head) of
          Inl e \<Rightarrow> Some (Inl e, cs\<lparr>cs_in := s\<rparr>)
        | Inr hs \<Rightarrow>
            map_option (\<lambda>x. with_input cs x (\<lambda>body.
                (Fallback \<lparr>resp_status = dh_status head, resp_reason = None, resp_headers = hs, resp_body = body\<rparr>, out)))
              (read_chunked_body buf (dh_end head) s))
      else
        map_option (\<lambda>x. with_input cs x (\<lambda>body.
            (Direct (dh_status head) (dh_upstream_close head) body,
             serialize_direct_head date buf head (length body) elapsed_ms close)))
          (read_sized_body buf (dh_end head) (dh_cl head) s))"

definition send_request_direct :: "response_parser \<Rightarrow> (nat \<Rightarrow> nat) \<Rightarrow> string \<Rightarrow> nat \<Rightarrow> Request \<Rightarrow> bool \<Rightarrow> bool \<Rightarrow> bytes \<Rightarrow> ClientStream
    \<Rightarrow> ((Http1Error + DirectOutcome \<times> bytes) \<times> ClientStream) option" where
  "send_request_direct hp sp date elapsed_ms req strip close out cs =
     (case send_wire (build_request_wire (cs_host cs) req strip) cs of
        (Inl e, cs1) \<Rightarrow> Some (Inl e, cs1)
      | (Inr _, cs1) \<Rightarrow>
          (case head_loop (parse_response_head hp) sp [] (cs_in cs1) of
             (Inl e, s) \<Rightarrow> Some (Inl e, cs1\<lparr>cs_in := s\<rparr>)
           | (Inr (head, buf), s) \<Rightarrow> direct_body date elapsed_ms close out head buf cs1 s))"

section \<open>The direct head is the owned head\<close>

definition row :: "bytes \<Rightarrow> span \<Rightarrow> string \<times> string" where
  "row buf sn = (str_of (span_name buf sn), str_of (span_value buf sn))"

definition last_length :: "nat \<Rightarrow> headers \<Rightarrow> nat" where
  "last_length = foldl (\<lambda>cl kv. if is_header ''content-length'' kv
     then (case parse_unsigned 64 (snd kv) of None \<Rightarrow> 0 | Some n \<Rightarrow> n) else cl)"

definition closing :: "headers \<Rightarrow> bool" where
  "closing hs = list_ex (\<lambda>(n, v). eq_ignore_ascii_case n ''connection'' \<and> eq_ignore_ascii_case v ''close'') hs"

definition heads_agree :: "bytes \<Rightarrow> nat \<times> headers \<times> nat \<Rightarrow> DirectHead \<Rightarrow> bool" where
  "heads_agree buf head d \<longleftrightarrow>
     (case head of (status, hs, headers_end) \<Rightarrow>
        dh_status d = status \<and> dh_end d = headers_end \<and> hs = map (row buf) (dh_spans d) \<and>
        list_all (\<lambda>sn. valid_utf8 (span_name buf sn) \<and> valid_utf8 (span_value buf sn)) (dh_spans d) \<and>
        dh_chunked d = chunked_response hs \<and> dh_cl d = last_length 0 hs \<and> dh_upstream_close d = closing hs)"

lemma header_name_cases:
  "eq_ignore_ascii_case n ''transfer-encoding'' \<Longrightarrow> \<not> eq_ignore_ascii_case n ''content-length''"
  "eq_ignore_ascii_case n ''transfer-encoding'' \<Longrightarrow> \<not> eq_ignore_ascii_case n ''connection''"
  "eq_ignore_ascii_case n ''content-length'' \<Longrightarrow> \<not> eq_ignore_ascii_case n ''connection''"
  unfolding eq_ignore_ascii_case_def by (simp_all, code_simp+)

lemma scan_span_Inr:
  "valid_utf8 (span_value buf sn) \<Longrightarrow>
   scan_span buf sn d = Inr (d\<lparr>dh_spans := dh_spans d @ [sn],
     dh_chunked := (dh_chunked d \<or> chunked_response [row buf sn]),
     dh_cl := last_length (dh_cl d) [row buf sn],
     dh_upstream_close := (dh_upstream_close d \<or> closing [row buf sn])\<rparr>)"
  by (auto simp: scan_span_def from_utf8_def row_def chunked_response_def last_length_def closing_def is_header_def
      Let_def dest: header_name_cases)

lemma chunked_response_Cons: "chunked_response (kv # hs) \<longleftrightarrow> chunked_response [kv] \<or> chunked_response hs"
  and closing_Cons: "closing (kv # hs) \<longleftrightarrow> closing [kv] \<or> closing hs"
  and last_length_Cons: "last_length c (kv # hs) = last_length (last_length c [kv]) hs"
  by (simp_all add: chunked_response_def closing_def last_length_def)

lemma scan_owned:
  "scan_spans buf sns d =
     (case owned_headers buf sns of
        Inl e \<Rightarrow> Inl e
      | Inr hs \<Rightarrow> Inr (d\<lparr>dh_spans := dh_spans d @ filter (\<lambda>sn. span_name buf sn \<noteq> []) sns,
          dh_chunked := (dh_chunked d \<or> chunked_response hs), dh_cl := last_length (dh_cl d) hs,
          dh_upstream_close := (dh_upstream_close d \<or> closing hs)\<rparr>))"
proof (induction buf sns d rule: scan_spans.induct)
  case (1 buf d)
  then show ?case by (simp add: chunked_response_def last_length_def closing_def)
next
  case (2 buf sn sns d)
  show ?case
  proof (cases "span_name buf sn = [] \<or> \<not> valid_utf8 (span_value buf sn)")
    case True
    with "2.IH"(1) show ?thesis by (auto simp: scan_span_def from_utf8_def split: sum.splits)
  next
    case False
    then have v: "valid_utf8 (span_value buf sn)" and n: "span_name buf sn \<noteq> []" by auto
    note IH = "2.IH"(2) [OF n scan_span_Inr [OF v]]
    have eqs: "scan_spans buf (sn # sns) d = scan_spans buf sns (d\<lparr>dh_spans := dh_spans d @ [sn],
        dh_chunked := (dh_chunked d \<or> chunked_response [row buf sn]), dh_cl := last_length (dh_cl d) [row buf sn],
        dh_upstream_close := (dh_upstream_close d \<or> closing [row buf sn])\<rparr>)"
      "owned_headers buf (sn # sns) = (case owned_headers buf sns of Inl e \<Rightarrow> Inl e | Inr hs \<Rightarrow> Inr (row buf sn # hs))"
      using v n by (simp_all add: scan_span_Inr from_utf8_def row_def split: sum.split)
    show ?thesis
    proof (cases "owned_headers buf sns")
      case (Inl e)
      then show ?thesis unfolding eqs IH by simp
    next
      case (Inr hs)
      then show ?thesis
        unfolding eqs IH using n by (simp add: disj_assoc chunked_response_Cons [of "row buf sn" hs]
            closing_Cons [of "row buf sn" hs] last_length_Cons [of "dh_cl d" "row buf sn" hs])
    qed
  qed
qed

lemma owned_headers_rows:
  "owned_headers buf sns = Inr hs \<Longrightarrow>
    hs = map (row buf) (filter (\<lambda>sn. span_name buf sn \<noteq> []) sns) \<and>
    list_all (\<lambda>sn. valid_utf8 (span_value buf sn)) (filter (\<lambda>sn. span_name buf sn \<noteq> []) sns)"
  by (induction buf sns arbitrary: hs rule: owned_headers.induct)
     (auto simp: row_def split: if_splits option.splits sum.splits)

lemma heads_agree_head:
  assumes "list_all (\<lambda>sn. valid_utf8 (span_name buf sn)) (hr_spans h)"
  shows "case owned_head buf h of
      Inl e \<Rightarrow> direct_head buf h = Inl e
    | Inr head \<Rightarrow> (\<exists>d. direct_head buf h = Inr d \<and> heads_agree buf head d)"
  using assms owned_headers_rows [of buf "hr_spans h"]
  by (auto simp: owned_head_def direct_head_def scan_owned heads_agree_def list_all_iff split: option.splits sum.splits)

lemma head_loops_agree:
  assumes "httparse_response hp"
  shows "case head_loop (parse_head_with hp owned_head) sp buf s of
      (Inl e, s') \<Rightarrow> head_loop (parse_response_head hp) sp buf s = (Inl e, s')
    | (Inr (head, buf'), s') \<Rightarrow>
        (\<exists>d. head_loop (parse_response_head hp) sp buf s = (Inr (d, buf'), s') \<and> heads_agree buf' head d)"
proof (induction "parse_response_head hp" sp buf s rule: head_loop.induct)
  case (1 sp buf s)
  let ?R = "head_loop (parse_response_head hp) sp buf s" and ?O = "head_loop (parse_head_with hp owned_head) sp buf s"
  show ?case
  proof (cases "read_more (sp (length buf)) UnexpectedEof s")
    case (Pair r s1)
    show ?thesis
    proof (cases r)
      case (Inl e)
      with Pair show ?thesis by (simp add: head_loop.simps [of _ sp buf s])
    next
      case (Inr bs)
      note rd = Pair [unfolded Inr]
      show ?thesis
      proof (cases "hp (buf @ bs)")
        case (Inl e)
        with rd show ?thesis by (simp add: head_loop.simps [of _ sp buf s] parse_head_with_def parse_response_head_def)
      next
        case hpr: (Inr x)
        show ?thesis
        proof (cases x)
          case (Complete h)
          have "list_all (\<lambda>sn. valid_utf8 (span_name (buf @ bs) sn)) (hr_spans h)"
            using assms hpr Complete by (auto simp: httparse_response_def)
          from heads_agree_head [OF this] rd hpr Complete show ?thesis
            by (auto simp: head_loop.simps [of _ sp buf s] parse_head_with_def parse_response_head_def split: sum.splits)
        next
          case Partial
          show ?thesis
          proof (cases "length (buf @ bs) > 8192")
            case True
            with rd hpr Partial show ?thesis
              by (simp add: head_loop.simps [of _ sp buf s] parse_head_with_def parse_response_head_def)
          next
            case False
            then have p: "parse_response_head hp (buf @ bs) = Inr None" "parse_head_with hp owned_head (buf @ bs) = Inr None"
              using hpr Partial by (simp_all add: parse_head_with_def parse_response_head_def)
            have "?R = head_loop (parse_response_head hp) sp (buf @ bs) s1"
                 "?O = head_loop (parse_head_with hp owned_head) sp (buf @ bs) s1"
              using rd p by (simp_all add: head_loop.simps [of _ sp buf s])
            then show ?thesis using 1 [OF rd [symmetric] refl p(1) refl] by (simp only:)
          qed
        qed
      qed
    qed
  qed
qed

lemma eq_ignore_lower:
  "str_to_ascii_lowercase t = t \<Longrightarrow> eq_ignore_ascii_case n t \<longleftrightarrow> str_to_ascii_lowercase n = t"
  by (simp add: eq_ignore_ascii_case_def)

lemma lower_names [simp]:
  "str_to_ascii_lowercase ''server'' = ''server''" "str_to_ascii_lowercase ''date'' = ''date''"
  "str_to_ascii_lowercase ''connection'' = ''connection''"
  "str_to_ascii_lowercase ''transfer-encoding'' = ''transfer-encoding''"
  "str_to_ascii_lowercase ''content-length'' = ''content-length''"
  by code_simp+

lemma direct_line_proxied:
  "direct_line date buf sn = concat (map (\<lambda>(n, v). header_line n v) (proxied_header date (row buf sn)))"
proof -
  have "as_bytes ''content-length: '' = as_bytes ''content-length'' @ as_bytes '': ''" by (simp add: as_bytes_def)
  then show ?thesis
    by (auto simp: direct_line_def proxied_header_def row_def header_line_def Let_def eq_ignore_lower)
qed

lemma direct_lines_proxied:
  "concat (map (direct_line date buf) sns) =
     concat (map (\<lambda>(n, v). header_line n v) (concat (map (proxied_header date) (map (row buf) sns))))"
  by (induction sns) (simp_all add: direct_line_proxied)

lemma saw_row:
  "str_to_ascii_lowercase name = name \<Longrightarrow>
   list_ex (\<lambda>sn. eq_ignore_ascii_case (str_of (span_name buf sn)) name) sns \<longleftrightarrow>
   name \<in> set (map (\<lambda>kv. str_to_ascii_lowercase (fst kv)) (map (row buf) sns))"
  by (auto simp: list_ex_iff row_def eq_ignore_lower)

lemma lines_if: "concat (map f (if c then [] else [x])) = (if c then [] else f x)"
  by simp

lemma serialize_direct_owned:
  assumes "heads_agree buf (status, hs, headers_end) d"
  shows "serialize_direct_head date buf d (length body) elapsed_ms close =
    serialize_response_head (construct_proxied_response date
      \<lparr>resp_status = status, resp_reason = None, resp_headers = hs, resp_body = body\<rparr> elapsed_ms close)"
proof -
  have d: "dh_status d = status" "hs = map (row buf) (dh_spans d)"
    using assms by (auto simp: heads_agree_def)
  show ?thesis
    unfolding serialize_direct_head_def serialize_response_head_def construct_proxied_response_def Let_def
    by (simp add: d saw_row direct_lines_proxied lines_if image_image split del: if_split) simp
qed

lemma single_length: "length (filter (is_header ''content-length'') hs) \<le> 1 \<Longrightarrow> last_length 0 hs = response_length hs"
proof -
  have none: "last_length c hs = c" if "filter (is_header ''content-length'') hs = []" for c hs
    using that by (induction hs arbitrary: c) (auto simp: last_length_def split: if_splits)
  show ?thesis if "length (filter (is_header ''content-length'') hs) \<le> 1"
    using that
  proof (induction hs)
    case Nil
    then show ?case by (simp add: last_length_def response_length_def)
  next
    case (Cons kv hs)
    show ?case
    proof (cases "is_header ''content-length'' kv")
      case True
      with Cons.prems have "filter (is_header ''content-length'') hs = []" by simp
      with True show ?thesis
        using none [of hs "last_length 0 [kv]"] last_length_Cons [of 0 kv hs]
        by (simp add: response_length_def last_length_def split: option.splits)
    next
      case False
      then have "last_length 0 (kv # hs) = last_length 0 hs" "response_length (kv # hs) = response_length hs"
        by (simp_all add: last_length_def response_length_def)
      then show ?thesis using Cons False by simp
    qed
  qed
qed

lemma span_headers_rows:
  "list_all (\<lambda>sn. valid_utf8 (span_name buf sn) \<and> valid_utf8 (span_value buf sn)) sns \<Longrightarrow>
    span_headers buf sns = Inr (map (row buf) sns)"
  by (induction sns) (auto simp: from_utf8_def row_def)

lemma upstream_close_closing: "upstream_close r = closing (resp_headers r)"
  by (simp add: upstream_close_def closing_def)

text \<open>How the response of the owned path looks on the direct path.\<close>

definition direct_view :: "string \<Rightarrow> nat \<Rightarrow> bool \<Rightarrow> bytes \<Rightarrow> Response \<Rightarrow> DirectOutcome \<times> bytes" where
  "direct_view date elapsed_ms close out r =
     (if chunked_response (resp_headers r) then (Fallback r, out)
      else (Direct (resp_status r) (upstream_close r) (resp_body r),
            serialize_response_head (construct_proxied_response date r elapsed_ms close)))"

definition one_length_row :: "response_parser \<Rightarrow> (nat \<Rightarrow> nat) \<Rightarrow> ClientStream \<Rightarrow> bool" where
  "one_length_row hp sp cs \<longleftrightarrow>
     (case head_loop (parse_head_with hp owned_head) sp [] (cs_in cs) of
        (Inr ((status, hs, headers_end), buf), s) \<Rightarrow> length (filter (is_header ''content-length'') hs) \<le> 1
      | _ \<Rightarrow> True)"

lemma direct_body_owned:
  assumes "heads_agree buf (status, hs, headers_end) d" and "length (filter (is_header ''content-length'') hs) \<le> 1"
  shows "direct_body date elapsed_ms close out d buf cs s =
    map_option (\<lambda>x. with_input cs x (\<lambda>body. direct_view date elapsed_ms close out
       \<lparr>resp_status = status, resp_reason = None, resp_headers = hs, resp_body = body\<rparr>))
     (owned_body (status, hs, headers_end) buf s)"
proof -
  have d: "dh_status d = status" "dh_end d = headers_end" "dh_chunked d = chunked_response hs"
      "dh_cl d = response_length hs" "dh_upstream_close d = closing hs"
      "span_headers buf (dh_spans d) = Inr hs"
    using assms single_length [OF assms(2)] span_headers_rows by (auto simp: heads_agree_def)
  show ?thesis
    by (cases "chunked_response hs")
       (simp_all add: direct_body_def owned_body_def d direct_view_def upstream_close_closing
         serialize_direct_owned [OF assms(1)])
qed

text \<open>
  C11. The zero-copy path of a response is the owned path: for every parser that returns
  slices of its input and every course of the connection in which the head has at most
  one content-length row, \<open>send_request_direct\<close> fails, panics or succeeds exactly as
  \<open>send_request_borrowed\<close> does, leaves the connection in the same state, and on success
  hands back the same status, close flag and body with a head equal, byte for byte, to
  the serialized \<open>construct_proxied_response\<close> (or the owned response when it is chunked).
\<close>

theorem direct_equals_owned:
  assumes "httparse_response hp" and "one_length_row hp sp cs"
  shows "send_request_direct hp sp date elapsed_ms req strip close out cs =
    map_option (\<lambda>(x, cs'). (map_sum id (direct_view date elapsed_ms close out) x, cs'))
      (send_request_borrowed hp sp req strip cs)"
proof (cases "cs_sent cs")
  case None
  then show ?thesis by (simp add: send_request_direct_def send_request_borrowed_def send_wire_def)
next
  case (Some sent)
  define cs1 where "cs1 = cs\<lparr>cs_sent := Some (sent @ build_request_wire (cs_host cs) req strip)\<rparr>"
  have w: "send_wire (build_request_wire (cs_host cs) req strip) cs = (Inr (), cs1)" and i: "cs_in cs1 = cs_in cs"
    using Some by (simp_all add: send_wire_def cs1_def)
  note agree = head_loops_agree [OF assms(1), of sp "[]" "cs_in cs"]
  obtain r s where h: "head_loop (parse_head_with hp owned_head) sp [] (cs_in cs) = (r, s)" by fastforce
  show ?thesis
  proof (cases r)
    case (Inl e)
    with agree h show ?thesis by (simp add: send_request_direct_def send_request_borrowed_def w i)
  next
    case (Inr hb)
    obtain status hs headers_end buf where hb: "hb = ((status, hs, headers_end), buf)" by (metis prod.exhaust)
    from agree h Inr hb obtain d where d: "head_loop (parse_response_head hp) sp [] (cs_in cs) = (Inr (d, buf), s)"
        "heads_agree buf (status, hs, headers_end) d" by auto
    have one: "length (filter (is_header ''content-length'') hs) \<le> 1"
      using assms(2) h Inr hb by (simp add: one_length_row_def)
    show ?thesis
      using h Inr hb d(1)
      by (auto simp: send_request_direct_def send_request_borrowed_def w i direct_body_owned [OF d(2) one]
          option.map_comp comp_def with_input_def split: prod.splits sum.splits intro!: option.map_cong)
  qed
qed

section \<open>Chunked bodies\<close>

text \<open>A line is a byte string whose first CRLF is the one that ends it.\<close>

definition is_line :: "bytes \<Rightarrow> bool" where
  "is_line l \<longleftrightarrow> find_crlf (l @ crlf) = Some (length l)"

definition chunks_ok :: "(bytes \<times> bytes) list \<Rightarrow> bytes \<Rightarrow> bytes list \<Rightarrow> bool" where
  "chunks_ok cs l0 ts \<longleftrightarrow>
     list_all (\<lambda>(l, d). is_line l \<and> d \<noteq> [] \<and> parse_chunk_size l = Some (length d)) cs \<and>
     is_line l0 \<and> parse_chunk_size l0 = Some 0 \<and> list_all (\<lambda>t. is_line t \<and> t \<noteq> []) ts"

definition chunked_wire :: "(bytes \<times> bytes) list \<Rightarrow> bytes \<Rightarrow> bytes list \<Rightarrow> bytes" where
  "chunked_wire cs l0 ts =
     concat (map (\<lambda>(l, d). l @ crlf @ d @ crlf) cs) @ l0 @ crlf @ concat (map (\<lambda>t. t @ crlf) ts) @ crlf"

lemma find_crlf_append: "find_crlf xs = Some k \<Longrightarrow> find_crlf (xs @ ys) = Some k"
  by (induction xs arbitrary: k rule: find_crlf.induct) (auto split: if_splits)

lemma find_crlf_split: "find_crlf xs = Some k \<Longrightarrow> xs = take k xs @ crlf @ drop (k + 2) xs"
  using find_crlf_Some [of xs k] append_take_drop_id [of k xs] append_take_drop_id [of 2 "drop k xs"]
  by (simp add: add.commute)

lemma find_crlf_take: "find_crlf xs = Some k \<Longrightarrow> find_crlf (take (k + 2) xs) = Some k"
proof (induction xs arbitrary: k rule: find_crlf.induct)
  case (3 b c bs)
  then show ?case by (cases k) (auto split: if_splits)
qed auto

lemma find_crlf_is_line:
  assumes "find_crlf xs = Some k"
  shows "is_line (take k xs)"
proof -
  have "take (k + 2) xs = take k xs @ crlf" and "length (take k xs) = k"
    using find_crlf_Some [OF assms] take_add [of k 2 xs] by (simp_all add: min_def)
  then show ?thesis using find_crlf_take [OF assms] by (simp add: is_line_def)
qed

lemma is_line_find: "is_line l \<Longrightarrow> find_crlf (l @ crlf @ rest) = Some (length l)"
  using find_crlf_append [of "l @ crlf" "length l" rest] by (simp add: is_line_def)

lemma fill_until_all:
  assumes "\<And>bs. 0 < cap bs \<or> P bs" and "P (buf @ incoming s)"
  shows "\<exists>buf' s'. fill_until P cap err buf s = (Inr buf', s') \<and> P buf' \<and> buf' @ incoming s' = buf @ incoming s"
  using fill_until_reaches [of cap P buf s "length (incoming s)" err, OF assms(1)] assms(2) fill_until_Inr
  by fastforce

text \<open>Reading a line: the loops that look for a CRLF find the first line of the stream.\<close>

lemma drop_append_le: "pos \<le> length buf \<Longrightarrow> drop pos (buf @ xs) = drop pos buf @ xs"
  by simp

lemma read_line:
  assumes "is_line l" and "drop pos buf @ incoming s = l @ crlf @ rest" and "pos \<le> length buf" and "0 < n"
  shows "\<exists>buf' s'. fill_until (\<lambda>b. find_crlf (drop pos b) \<noteq> None) (\<lambda>_. n) err buf s = (Inr buf', s') \<and>
    find_crlf (drop pos buf') = Some (length l) \<and> byte_slice buf' pos (length l) = l \<and>
    pos + length l + 2 \<le> length buf' \<and> drop (pos + length l + 2) buf' @ incoming s' = rest \<and>
    length buf' + length (incoming s') = length buf + length (incoming s)"
proof -
  let ?P = "\<lambda>b. find_crlf (drop pos b) \<noteq> None"
  have "?P (buf @ incoming s)"
    using assms(1-3) by (simp add: drop_append_le is_line_find)
  then obtain buf' s' where f: "fill_until ?P (\<lambda>_. n) err buf s = (Inr buf', s')" and "?P buf'"
      and all: "buf' @ incoming s' = buf @ incoming s"
    using fill_until_all [of "\<lambda>_. n" ?P buf s err] assms(4) by auto
  then obtain k where k: "find_crlf (drop pos buf') = Some k" by auto
  have k2: "k + 2 \<le> length (drop pos buf')" using find_crlf_Some [OF k] by simp
  then have pos: "pos \<le> length buf'" by (cases "pos \<le> length buf'") auto
  have st: "drop pos buf' @ incoming s' = l @ crlf @ rest"
    using all assms(2,3) pos by (metis drop_append_le)
  then have kl: "k = length l"
    using find_crlf_append [OF k, of "incoming s'"] is_line_find [OF assms(1), of rest] by simp
  have "take (length l + 2) (drop pos buf' @ incoming s') = l @ crlf" "drop (length l + 2) (drop pos buf' @ incoming s') = rest"
    unfolding st by (simp_all add: crlf_def)
  then have t: "take (length l + 2) (drop pos buf') = l @ crlf" "drop (length l + 2) (drop pos buf') @ incoming s' = rest"
    using k2 kl by auto
  have "take (length l) (take (length l + 2) (drop pos buf')) = l" unfolding t(1) by simp
  then have "byte_slice buf' pos (length l) = l" by (simp add: byte_slice_def min_def)
  moreover have "drop (pos + length l + 2) buf' @ incoming s' = rest"
    using t(2) by (simp add: add_ac)
  moreover have "length buf' + length (incoming s') = length buf + length (incoming s)"
    using all by (metis length_append)
  ultimately show ?thesis using f k kl k2 by (intro exI [of _ buf'] exI [of _ s']) (simp add: add_ac)
qed

text \<open>Reading a counted block.\<close>

lemma read_block:
  assumes "drop pos buf @ incoming s = d @ rest" and "pos \<le> length buf" and "0 < n" and "k = pos + length d"
  shows "\<exists>buf' s'. fill_until (\<lambda>b. k \<le> length b) (\<lambda>_. n) err buf s = (Inr buf', s') \<and>
    byte_slice buf' pos (length d) = d \<and> k \<le> length buf' \<and> drop k buf' @ incoming s' = rest \<and>
    drop pos buf' @ incoming s' = d @ rest \<and> length buf' + length (incoming s') = length buf + length (incoming s)"
proof -
  have "length (drop pos buf @ incoming s) = length d + length rest" using assms(1) by simp
  then have "k \<le> length (buf @ incoming s)" using assms(2,4) by simp
  then obtain buf' s' where f: "fill_until (\<lambda>b. k \<le> length b) (\<lambda>_. n) err buf s = (Inr buf', s')" "k \<le> length buf'"
      and all: "buf' @ incoming s' = buf @ incoming s"
    using fill_until_all [of "\<lambda>_. n" "\<lambda>b. k \<le> length b" buf s err] assms(3) by auto
  have st: "drop pos buf' @ incoming s' = d @ rest"
    using all assms(1,2,4) f(2) by (metis drop_append_le le_add1 le_trans)
  have "take (length d) (drop pos buf' @ incoming s') = d" "drop (length d) (drop pos buf' @ incoming s') = rest"
    unfolding st by simp_all
  then have "byte_slice buf' pos (length d) = d" "drop k buf' @ incoming s' = rest"
    using f(2) assms(4) by (auto simp: byte_slice_def add_ac)
  moreover have "length buf' + length (incoming s') = length buf + length (incoming s)"
    using all by (metis length_append)
  ultimately show ?thesis using f st by blast
qed

lemma trailer_complete:
  assumes "list_all (\<lambda>t. is_line t \<and> t \<noteq> []) ts" and "pos \<le> length buf"
    and "drop pos buf @ incoming s = concat (map (\<lambda>t. t @ crlf) ts) @ crlf @ rest"
  shows "\<exists>buf' s'. trailer_loop buf pos s = (Inr buf', s')"
  using assms
proof (induction ts arbitrary: buf pos s)
  case Nil
  have "is_line []" by (simp add: is_line_def crlf_def)
  from read_line [OF this, of pos buf s rest 256 MalformedChunkedFraming] Nil show ?case
    by (auto simp: trailer_loop.simps [of buf pos s])
next
  case (Cons t ts)
  then have t: "is_line t" "t \<noteq> []" and st: "drop pos buf @ incoming s = t @ crlf @ concat (map (\<lambda>t. t @ crlf) ts) @ crlf @ rest"
    by simp_all
  from read_line [OF t(1) st Cons.prems(2), of 256 MalformedChunkedFraming] obtain buf1 s1 where
    r: "fill_until (\<lambda>b. find_crlf (drop pos b) \<noteq> None) (\<lambda>_. 256) MalformedChunkedFraming buf s = (Inr buf1, s1)"
      "find_crlf (drop pos buf1) = Some (length t)" "pos + length t + 2 \<le> length buf1"
      "drop (pos + length t + 2) buf1 @ incoming s1 = concat (map (\<lambda>t. t @ crlf) ts) @ crlf @ rest" by auto
  from Cons.IH [OF _ r(3,4)] Cons.prems(1) show ?case
    using r t(2) by (simp add: trailer_loop.simps [of buf pos s])
qed

lemma crlf_line: "is_line t \<Longrightarrow> t \<noteq> [] \<Longrightarrow> take 2 (t @ crlf @ xs) \<noteq> crlf"
  using find_crlf_append [of crlf 0] is_line_find [of t xs]
  by (cases t; cases "tl t") (auto simp: crlf_def split: if_splits)

lemma chunk_complete:
  assumes "chunks_ok cs l0 ts" and "pos \<le> length buf" and "length buf + length (incoming s) < 2 ^ 64"
    and "drop pos buf @ incoming s = chunked_wire cs l0 ts @ rest"
  shows "\<exists>s'. chunk_loop buf pos out s = Some (Inr (out @ concat (map snd cs)), s')"
  using assms
proof (induction cs arbitrary: buf pos out s)
  case Nil
  define T where "T = concat (map (\<lambda>t. t @ crlf) ts) @ crlf @ rest"
  have l0: "is_line l0" "parse_chunk_size l0 = Some 0" and ts: "list_all (\<lambda>t. is_line t \<and> t \<noteq> []) ts"
    using Nil.prems(1) by (simp_all add: chunks_ok_def)
  have "drop pos buf @ incoming s = l0 @ crlf @ T" using Nil.prems(4) by (simp add: chunked_wire_def T_def)
  from read_line [OF l0(1) this Nil.prems(2), of 4096 MalformedChunkedFraming] obtain buf1 s1 where
    r: "fill_until (\<lambda>b. find_crlf (drop pos b) \<noteq> None) (\<lambda>_. 4096) MalformedChunkedFraming buf s = (Inr buf1, s1)"
      "find_crlf (drop pos buf1) = Some (length l0)" "byte_slice buf1 pos (length l0) = l0"
      "pos + length l0 + 2 \<le> length buf1" "drop (pos + length l0 + 2) buf1 @ incoming s1 = T" by auto
  have "2 \<le> length T" by (simp add: T_def crlf_def)
  then have len: "length (take 2 T) = 2" by simp
  let ?p = "pos + length l0 + 2"
  have "drop ?p buf1 @ incoming s1 = take 2 T @ drop 2 T" using r(5) by simp
  from read_block [OF this r(4), of 64 "?p + 2" MalformedChunkedFraming, unfolded len] obtain buf2 s2 where
    b: "fill_until (\<lambda>b. ?p + 2 \<le> length b) (\<lambda>_. 64) MalformedChunkedFraming buf1 s1 = (Inr buf2, s2)"
      "byte_slice buf2 ?p 2 = take 2 T" "?p + 2 \<le> length buf2" "drop ?p buf2 @ incoming s2 = T" by auto
  show ?case
  proof (cases ts)
    case Nil
    then have "take 2 T = crlf" by (simp add: T_def crlf_def)
    then show ?thesis using r b l0(2) by (simp add: chunk_loop.simps [of buf pos out s])
  next
    case (Cons t ts')
    then have "T = t @ crlf @ concat (map (\<lambda>t. t @ crlf) ts') @ crlf @ rest" by (simp add: T_def)
    then have "take 2 T \<noteq> crlf" using ts Cons crlf_line [of t] by (simp only: list.pred_inject) blast
    moreover obtain buf3 s3 where "trailer_loop buf2 ?p s2 = (Inr buf3, s3)"
      using trailer_complete [OF ts _ b(4) [unfolded T_def]] b(3) by auto
    ultimately show ?thesis using r b l0(2) by (simp add: chunk_loop.simps [of buf pos out s])
  qed
next
  case (Cons c cs)
  obtain l d where c: "c = (l, d)" by fastforce
  let ?R = "chunked_wire cs l0 ts @ rest"
  have l: "is_line l" "parse_chunk_size l = Some (length d)" "d \<noteq> []" and ok: "chunks_ok cs l0 ts"
    using Cons.prems(1) by (auto simp: chunks_ok_def c)
  have "drop pos buf @ incoming s = l @ crlf @ d @ crlf @ ?R" using Cons.prems(4) by (simp add: chunked_wire_def c)
  from read_line [OF l(1) this Cons.prems(2), of 4096 MalformedChunkedFraming] obtain buf1 s1 where
    r: "fill_until (\<lambda>b. find_crlf (drop pos b) \<noteq> None) (\<lambda>_. 4096) MalformedChunkedFraming buf s = (Inr buf1, s1)"
      "find_crlf (drop pos buf1) = Some (length l)" "byte_slice buf1 pos (length l) = l"
      "pos + length l + 2 \<le> length buf1" "drop (pos + length l + 2) buf1 @ incoming s1 = (d @ crlf) @ ?R"
      "length buf1 + length (incoming s1) = length buf + length (incoming s)" by auto
  let ?p = "pos + length l + 2"
  from read_block [OF r(5,4), of 4096 "?p + length d + 2" MalformedChunkedFraming] obtain buf2 s2 where
    b: "fill_until (\<lambda>b. ?p + length d + 2 \<le> length b) (\<lambda>_. 4096) MalformedChunkedFraming buf1 s1 = (Inr buf2, s2)"
      "byte_slice buf2 ?p (length d + 2) = d @ crlf" "?p + length d + 2 \<le> length buf2"
      "drop (?p + length d + 2) buf2 @ incoming s2 = ?R"
      "length buf2 + length (incoming s2) = length buf1 + length (incoming s1)" by (auto simp: crlf_def)
  have "take (length d) (byte_slice buf2 ?p (length d + 2)) = d" "drop (length d) (byte_slice buf2 ?p (length d + 2)) = crlf"
    unfolding b(2) by simp_all
  then have data: "byte_slice buf2 ?p (length d) = d" and ending: "byte_slice buf2 (?p + length d) 2 = crlf"
    by (simp_all add: byte_slice_def drop_take add_ac)
  have small: "?p + length d + 2 < 2 ^ 64" using b(3,5) r(6) Cons.prems(3) by linarith
  have "chunk_loop buf pos out s = chunk_loop buf2 (?p + length d + 2) (out @ d) s2"
    using r(1-3) b(1) l(2,3) data ending small by (simp add: chunk_loop.simps [of buf pos out s])
  moreover have "length buf2 + length (incoming s2) < 2 ^ 64" using b(5) r(6) Cons.prems(3) by linarith
  ultimately show ?case using Cons.IH [OF ok b(3) _ b(4), of "out @ d"] by (simp add: c)
qed

lemma line_found:
  assumes "fill_until P cap err buf s = (Inr buf', s')" and "find_crlf (drop pos buf') = Some off" and "pos \<le> length buf"
  shows "is_line (byte_slice buf' pos off) \<and> length (byte_slice buf' pos off) = off \<and>
    drop pos buf @ incoming s = byte_slice buf' pos off @ crlf @ drop (pos + off + 2) buf' @ incoming s' \<and>
    pos + off + 2 \<le> length buf'"
proof -
  have all: "buf' @ incoming s' = buf @ incoming s" and le: "length buf \<le> length buf'"
    using fill_until_Inr [OF assms(1)] by auto
  have f: "off + 2 \<le> length (drop pos buf')" using find_crlf_Some [OF assms(2)] by simp
  have "drop pos buf @ incoming s = drop pos buf' @ incoming s'"
    using all assms(3) le by (metis drop_append_le le_trans)
  also have "\<dots> = take off (drop pos buf') @ crlf @ drop (off + 2) (drop pos buf') @ incoming s'"
    using find_crlf_split [OF assms(2)] by (metis append.assoc)
  finally show ?thesis
    using f find_crlf_is_line [OF assms(2)] by (auto simp: byte_slice_def add_ac)
qed

lemma block_found:
  assumes "fill_until (\<lambda>b. pos + n \<le> length b) cap err buf s = (Inr buf', s')" and "pos \<le> length buf"
  shows "drop pos buf @ incoming s = byte_slice buf' pos n @ drop (pos + n) buf' @ incoming s' \<and>
    pos + n \<le> length buf' \<and> length (byte_slice buf' pos n) = n"
proof -
  have all: "buf' @ incoming s' = buf @ incoming s" and le: "length buf \<le> length buf'" and n: "pos + n \<le> length buf'"
    using fill_until_Inr [OF assms(1)] by auto
  have "drop pos buf @ incoming s = drop pos buf' @ incoming s'"
    using all assms(2) le by (metis drop_append_le le_trans)
  also have "\<dots> = byte_slice buf' pos n @ drop (pos + n) buf' @ incoming s'"
    by (metis byte_slice_def append.assoc append_take_drop_id drop_drop add.commute)
  finally show ?thesis using n by (simp add: byte_slice_def)
qed

lemma trailer_sound:
  assumes "trailer_loop buf pos s = (Inr buf', s')" and "pos \<le> length buf"
  shows "\<exists>ts rest. list_all (\<lambda>t. is_line t \<and> t \<noteq> []) ts \<and>
    drop pos buf @ incoming s = concat (map (\<lambda>t. t @ crlf) ts) @ crlf @ rest"
  using assms
proof (induction buf pos s rule: trailer_loop.induct)
  case (1 buf pos s)
  obtain buf1 s1 off where f: "fill_until (\<lambda>b. find_crlf (drop pos b) \<noteq> None) (\<lambda>_. 256) MalformedChunkedFraming buf s = (Inr buf1, s1)"
      "find_crlf (drop pos buf1) = Some off"
    using "1.prems"(1) by (auto simp: trailer_loop.simps [of buf pos s] split: prod.splits sum.splits option.splits)
  note l = line_found [OF f "1.prems"(2)]
  show ?case
  proof (cases "off = 0")
    case True
    then show ?thesis using l by (intro exI [of _ "[]"] exI [of _ "drop (pos + 2) buf1 @ incoming s1"]) auto
  next
    case False
    then have "trailer_loop buf1 (pos + off + 2) s1 = (Inr buf', s')"
      using "1.prems"(1) f by (simp add: trailer_loop.simps [of buf pos s])
    then obtain ts rest where "list_all (\<lambda>t. is_line t \<and> t \<noteq> []) ts"
        "drop (pos + off + 2) buf1 @ incoming s1 = concat (map (\<lambda>t. t @ crlf) ts) @ crlf @ rest"
      using "1.IH" [OF f(1) [symmetric] refl f(2) False] l by blast
    then show ?thesis
      using l False by (intro exI [of _ "byte_slice buf1 pos off # ts"] exI [of _ rest]) auto
  qed
qed

lemma chunk_sound:
  assumes "chunk_loop buf pos out s = Some (Inr body, s')" and "pos \<le> length buf"
  shows "\<exists>cs l0 ts rest. chunks_ok cs l0 ts \<and> drop pos buf @ incoming s = chunked_wire cs l0 ts @ rest \<and>
    body = out @ concat (map snd cs)"
  using assms
proof (induction buf pos out s rule: chunk_loop.induct)
  case (1 buf pos out s)
  obtain buf1 s1 off n where f: "fill_until (\<lambda>b. find_crlf (drop pos b) \<noteq> None) (\<lambda>_. 4096) MalformedChunkedFraming buf s = (Inr buf1, s1)"
      "find_crlf (drop pos buf1) = Some off" "parse_chunk_size (byte_slice buf1 pos off) = Some n"
    using "1.prems"(1) by (auto simp: chunk_loop.simps [of buf pos out s] split: prod.splits sum.splits option.splits)
  note l = line_found [OF f(1,2) "1.prems"(2)]
  define p where "p = pos + off + 2"
  show ?case
  proof (cases "n = 0")
    case True
    obtain buf2 s2 where g: "fill_until (\<lambda>b. p + 2 \<le> length b) (\<lambda>_. 64) MalformedChunkedFraming buf1 s1 = (Inr buf2, s2)"
        and t: "byte_slice buf2 p 2 = crlf \<or> (\<exists>buf3 s3. trailer_loop buf2 p s2 = (Inr buf3, s3))" and body: "body = out"
      using "1.prems"(1) f True
      by (auto simp: chunk_loop.simps [of buf pos out s] p_def split: prod.splits sum.splits if_splits)
    have p1: "p \<le> length buf1" using l by (simp add: p_def)
    note b = block_found [OF g p1]
    have b2: "drop p buf1 @ incoming s1 = drop p buf2 @ incoming s2"
      using fill_until_Inr [OF g] p1 b by (metis add_leD1 drop_append_le)
    obtain ts rest where ts: "list_all (\<lambda>t. is_line t \<and> t \<noteq> []) ts"
        "drop p buf1 @ incoming s1 = concat (map (\<lambda>t. t @ crlf) ts) @ crlf @ rest"
    proof (cases "byte_slice buf2 p 2 = crlf")
      case True
      then show ?thesis using b that [of "[]"] by auto
    next
      case False
      with t obtain buf3 s3 where "trailer_loop buf2 p s2 = (Inr buf3, s3)" by blast
      moreover have "p \<le> length buf2" using b by linarith
      ultimately obtain ts rest where "list_all (\<lambda>t. is_line t \<and> t \<noteq> []) ts"
          "drop p buf2 @ incoming s2 = concat (map (\<lambda>t. t @ crlf) ts) @ crlf @ rest"
        using trailer_sound by blast
      then show ?thesis using that [of ts rest] b2 by (simp only:)
    qed
    have "chunks_ok [] (byte_slice buf1 pos off) ts" using l f(3) True ts by (simp add: chunks_ok_def)
    moreover have "drop pos buf @ incoming s = chunked_wire [] (byte_slice buf1 pos off) ts @ rest"
      using l ts(2) by (simp add: chunked_wire_def p_def)
    ultimately show ?thesis using body by fastforce
  next
    case False
    have small: "\<not> p + n + 2 \<ge> 2 ^ 64" using "1.prems"(1) f False by (auto simp: chunk_loop.simps [of buf pos out s] p_def)
    obtain buf2 s2 where g: "fill_until (\<lambda>b. p + n + 2 \<le> length b) (\<lambda>_. 4096) MalformedChunkedFraming buf1 s1 = (Inr buf2, s2)"
        and e: "byte_slice buf2 (p + n) 2 = crlf"
        and rec: "chunk_loop buf2 (p + n + 2) (out @ byte_slice buf2 p n) s2 = Some (Inr body, s')"
      using "1.prems"(1) f False small
      by (auto simp: chunk_loop.simps [of buf pos out s] p_def split: prod.splits sum.splits if_splits)
    have p1: "p \<le> length buf1" using l by (simp add: p_def)
    have b: "drop p buf1 @ incoming s1 = byte_slice buf2 p (n + 2) @ drop (p + n + 2) buf2 @ incoming s2"
        "p + n + 2 \<le> length buf2"
      using block_found [of p "n + 2" "\<lambda>_. 4096" MalformedChunkedFraming buf1 s1 buf2 s2] g p1 by (auto simp: add.assoc)
    have "byte_slice buf2 p (n + 2) = byte_slice buf2 p n @ byte_slice buf2 (p + n) 2"
      unfolding byte_slice_def take_add by (simp add: add.commute)
    then have st: "drop p buf1 @ incoming s1 = byte_slice buf2 p n @ crlf @ drop (p + n + 2) buf2 @ incoming s2"
      using b(1) e by simp
    obtain cs l0 ts rest where ih: "chunks_ok cs l0 ts" "drop (p + n + 2) buf2 @ incoming s2 = chunked_wire cs l0 ts @ rest"
        "body = (out @ byte_slice buf2 p n) @ concat (map snd cs)"
      using "1.IH" [OF f(1) [symmetric] refl f(2,3) p_def False small g [symmetric] refl _ rec b(2)] e by blast
    let ?c = "(byte_slice buf1 pos off, byte_slice buf2 p n)"
    have len: "length (byte_slice buf2 p n) = n" using b(2) by (simp add: byte_slice_def)
    have "chunks_ok (?c # cs) l0 ts" using ih(1) l f(3) False len by (auto simp: chunks_ok_def)
    moreover have "drop pos buf @ incoming s = chunked_wire (?c # cs) l0 ts @ rest"
      using l st ih(2) by (simp add: chunked_wire_def p_def)
    ultimately show ?thesis using ih(3) by (intro exI [of _ "?c # cs"] exI [of _ l0] exI [of _ ts] exI [of _ rest]) simp
  qed
qed

text \<open>
  C12. The chunked decoder is exact: it returns a body precisely when what follows the head,
  however it is cut into reads, begins with chunks whose data is that body, each with a
  size line that reads as its length, a zero-size line, any trailer lines and an empty line.
\<close>

theorem chunked_body_exact:
  assumes "headers_end \<le> length buf" and "length buf + length (incoming s) < 2 ^ 64"
  shows "(\<exists>s'. read_chunked_body buf headers_end s = Some (Inr body, s')) \<longleftrightarrow>
    (\<exists>cs l0 ts rest. chunks_ok cs l0 ts \<and> drop headers_end buf @ incoming s = chunked_wire cs l0 ts @ rest \<and>
      body = concat (map snd cs))"
  using chunk_sound [of buf headers_end "[]" s body] chunk_complete [OF _ assms, of _ _ _ _ "[]"] assms(1)
  unfolding read_chunked_body_def by (auto; fastforce)

section \<open>Counted bodies and writers\<close>

text \<open>A counted body is the next \<open>cl\<close> bytes of the stream, however they are cut into reads.\<close>

lemma sized_body_exact:
  assumes "headers_end \<le> length buf" and "cl < 2 ^ 63"
  shows "(\<exists>s'. read_sized_body buf headers_end cl s = Some (Inr body, s')) \<longleftrightarrow>
    length body = cl \<and> body = take cl (drop headers_end buf @ incoming s)"
proof -
  let ?b = "take cl (drop headers_end buf)" and ?P = "\<lambda>body :: bytes. cl \<le> length body" and ?cap = "\<lambda>body :: bytes. cl - length body"
  have grow: "length b' \<le> max cl (length b)" if "fill_until ?P ?cap err b s = (Inr b', s')" for err b s b' s'
    using that
  proof (induction ?P ?cap err b s rule: fill_until.induct)
    case (1 err b s)
    then show ?case
      by (auto simp: fill_until.simps [of ?P ?cap err b s] split: if_splits prod.splits sum.splits dest!: read_more_incoming)
  qed
  have whole: "take cl (drop headers_end buf @ incoming s) = take cl (?b @ incoming s)"
    using assms(1) by (simp add: min_def)
  have "(\<exists>s'. fill_until ?P ?cap UnexpectedEof ?b s = (Inr body, s')) \<longleftrightarrow>
      length body = cl \<and> body = take cl (?b @ incoming s)"
  proof (intro iffI; (elim exE)?)
    fix s' assume f: "fill_until ?P ?cap UnexpectedEof ?b s = (Inr body, s')"
    from fill_until_Inr [OF f] grow [OF f] have len: "length body = cl" and all: "body @ incoming s' = ?b @ incoming s"
      by auto
    then show "length body = cl \<and> body = take cl (?b @ incoming s)" by (metis append_eq_conv_conj)
  next
    assume b: "length body = cl \<and> body = take cl (?b @ incoming s)"
    then have "?P (?b @ incoming s)" by (metis length_take min.cobounded1)
    then obtain b' s' where f: "fill_until ?P ?cap UnexpectedEof ?b s = (Inr b', s')" "?P b'" "b' @ incoming s' = ?b @ incoming s"
      using fill_until_all [of ?cap ?P ?b s UnexpectedEof] by fastforce
    moreover have "length b' = cl" using grow [OF f(1)] f(2) by auto
    ultimately have "b' = body" using b by (metis append_eq_conv_conj)
    then show "\<exists>s'. fill_until ?P ?cap UnexpectedEof ?b s = (Inr body, s')" using f(1) by blast
  qed
  then show ?thesis using assms unfolding whole by (simp only: read_sized_body_def) (simp add: not_less)
qed

lemma advance_slices_concat: "n \<le> length (concat bs) \<Longrightarrow> concat (advance_slices n bs) = drop n (concat bs)"
  by (induction n bs rule: advance_slices.induct) auto

lemma write_all_vectored_sent:
  "write_all_vectored w slices sent = (r, sent') \<Longrightarrow>
    (\<exists>bs. sent' = sent @ take bs (concat slices)) \<and> (r = Inr () \<longrightarrow> sent' = sent @ concat slices)"
proof (induction w slices sent rule: write_all_vectored.induct)
  case (1 slices sent)
  then show ?case by (auto split: if_splits intro!: exI [of _ 0])
next
  case (2 n ns slices sent)
  let ?m = "min n (length (concat slices))"
  show ?case
  proof (cases "slices = [] \<or> ?m = 0")
    case True
    with "2.prems" show ?thesis by (auto simp: Let_def split: if_splits intro!: exI [of _ 0])
  next
    case False
    then have step: "write_all_vectored ns (advance_slices ?m slices) (sent @ take ?m (concat slices)) = (r, sent')"
      using "2.prems" by (simp only: write_all_vectored.simps Let_def if_False de_Morgan_disj)
    have rest: "concat (advance_slices ?m slices) = drop ?m (concat slices)" by (rule advance_slices_concat) simp
    from "2.IH" [OF _ refl _ step] False obtain k where
      "sent' = (sent @ take ?m (concat slices)) @ take k (drop ?m (concat slices))"
      "r = Inr () \<longrightarrow> sent' = (sent @ take ?m (concat slices)) @ drop ?m (concat slices)"
      unfolding rest by auto
    then show ?thesis by (metis append.assoc append_take_drop_id take_add)
  qed
qed

lemma write_all_sent:
  "write_all w buf sent = (r, sent') \<Longrightarrow>
    (\<exists>n. sent' = sent @ take n buf) \<and> (r = Inr () \<longrightarrow> sent' = sent @ buf)"
proof (induction w buf sent rule: write_all.induct)
  case (1 buf sent)
  then show ?case by (auto split: if_splits intro!: exI [of _ 0])
next
  case (2 n ns buf sent)
  show ?case
  proof (cases "buf = [] \<or> n = 0")
    case True
    with "2.prems" show ?thesis by (auto split: if_splits intro!: exI [of _ 0])
  next
    case False
    then have "write_all ns (drop n buf) (sent @ take n buf) = (r, sent')" using "2.prems" by simp
    with "2.IH" False obtain k where "sent' = (sent @ take n buf) @ take k (drop n buf)"
      "r = Inr () \<longrightarrow> sent' = (sent @ take n buf) @ drop n buf" by auto
    then show ?thesis by (metis append.assoc append_take_drop_id take_add)
  qed
qed

text \<open>Whatever the socket accepts per call, what is written is a prefix of head and body, and all of it on success.\<close>

lemma write_head_and_body_sent:
  "write_head_and_body w head body = (r, sent) \<Longrightarrow>
    (\<exists>n. sent = take n (head @ body)) \<and> (r = Inr () \<longrightarrow> sent = head @ body)"
  using write_all_vectored_sent [of w "[head, body]" "[]" r sent] write_all_sent [of w "head @ body" "[]" r sent]
  by (auto simp: write_head_and_body_def split: if_splits)

section \<open>The exchange of the proxy arm\<close>

text \<open>
  The exchange that the proxy arm is parametrised by, with this client: \<open>streams k x\<close> is the connection \<open>x\<close> as attempt
  \<open>k\<close> finds it, with all that is going to arrive on it.
\<close>

definition client_exchange :: "response_parser \<Rightarrow> (nat \<Rightarrow> nat) \<Rightarrow> (nat \<Rightarrow> 's \<Rightarrow> ClientStream)
    \<Rightarrow> nat \<Rightarrow> 's \<Rightarrow> Request \<Rightarrow> (unit + Response) option" where
  "client_exchange hp sp streams k x req =
     map_option (\<lambda>(r, cs). map_sum (\<lambda>_. ()) id r) (send_request_borrowed hp sp req True (streams k x))"

lemma head_loop_Inr:
  "head_loop parse sp buf s = (Inr (h, buf'), s') \<Longrightarrow> buf' @ incoming s' = buf @ incoming s \<and> parse buf' = Inr (Some h)"
proof (induction parse sp buf s rule: head_loop.induct)
  case (1 parse sp buf s)
  from "1.prems" obtain bs s1 where r: "read_more (sp (length buf)) UnexpectedEof s = (Inr bs, s1)"
    by (auto simp: head_loop.simps [of parse sp buf s] split: prod.splits sum.splits)
  have i: "incoming s = bs @ incoming s1" using read_more_incoming [OF r] by simp
  show ?case
  proof (cases "parse (buf @ bs)")
    case (Inl e)
    then show ?thesis using "1.prems" r by (simp add: head_loop.simps [of parse sp buf s])
  next
    case (Inr o')
    show ?thesis
    proof (cases o')
      case None
      then show ?thesis
        using "1.IH" [OF r [symmetric] refl Inr None] "1.prems" r Inr i by (simp add: head_loop.simps [of parse sp buf s])
    next
      case (Some h')
      then show ?thesis using "1.prems" r Inr i by (auto simp: head_loop.simps [of parse sp buf s])
    qed
  qed
qed

text \<open>
  The streams on which nothing is announced that cannot be addressed: a content-length below \<open>2 ^ 63\<close>, no chunk-size line
  of \<open>2 ^ 63\<close> or more anywhere in what arrives, and not that many bytes in all.
\<close>

definition addressable :: "bytes \<Rightarrow> bool" where
  "addressable bs \<longleftrightarrow> length bs < 2 ^ 62 \<and> (\<forall>i k n. parse_chunk_size (byte_slice bs i k) = Some n \<longrightarrow> n < 2 ^ 63)"

definition sane_stream :: "response_parser \<Rightarrow> (nat \<Rightarrow> nat) \<Rightarrow> ClientStream \<Rightarrow> bool" where
  "sane_stream hp sp cs \<longleftrightarrow> addressable (incoming (cs_in cs))
     \<and> (case head_loop (parse_head_with hp owned_head) sp [] (cs_in cs) of
          (Inr ((status, hs, headers_end), buf), s) \<Rightarrow> response_length hs < 2 ^ 63
        | _ \<Rightarrow> True)"

lemma chunk_loop_returns: "addressable (buf @ incoming s) \<Longrightarrow> chunk_loop buf pos out s \<noteq> None"
proof (induction buf pos out s rule: chunk_loop.induct)
  case (1 buf pos out s)
  obtain r1 s1 where f1: "fill_until (\<lambda>b. find_crlf (drop pos b) \<noteq> None) (\<lambda>_. 4096) MalformedChunkedFraming buf s = (r1, s1)"
    by fastforce
  show ?case
  proof (cases r1)
    case (Inl e)
    then show ?thesis using f1 by (simp add: chunk_loop.simps [of buf pos out s])
  next
    case (Inr buf1)
    have i1: "buf1 @ incoming s1 = buf @ incoming s" using fill_until_Inr f1 Inr by metis
    show ?thesis
    proof (cases "find_crlf (drop pos buf1)")
      case None
      then show ?thesis using f1 Inr by (simp add: chunk_loop.simps [of buf pos out s])
    next
      case (Some off)
      note off = Some
      then have o': "off + 2 \<le> length (drop pos buf1)" using find_crlf_Some by blast
      then have sl: "byte_slice buf1 pos off = byte_slice (buf1 @ incoming s1) pos off"
        by (simp add: byte_slice_def)
      show ?thesis
      proof (cases "parse_chunk_size (byte_slice buf1 pos off)")
        case None
        then show ?thesis using f1 Inr off by (simp add: chunk_loop.simps [of buf pos out s])
      next
        case (Some n)
        have "n < 2 ^ 63" using "1.prems" Some sl i1 unfolding addressable_def by metis
        moreover have "length (buf1 @ incoming s1) < 2 ^ 62" using "1.prems" i1 unfolding addressable_def by metis
        ultimately have small: "\<not> 2 ^ 64 \<le> pos + off + 2 + n + 2" using o' by simp
        obtain r2 s2 where f2: "fill_until (\<lambda>b. pos + off + 2 + n + 2 \<le> length b) (\<lambda>_. 4096) MalformedChunkedFraming buf1 s1 = (r2, s2)"
          by fastforce
        have "chunk_loop buf2 (pos + off + 2 + n + 2) (out @ byte_slice buf2 (pos + off + 2) n) s2 \<noteq> None"
          if "n \<noteq> 0" "r2 = Inr buf2" "byte_slice buf2 (pos + off + 2 + n) 2 = crlf" for buf2
        proof -
          have "buf2 @ incoming s2 = buf1 @ incoming s1" using fill_until_Inr f2 that(2) by metis
          then have "addressable (buf2 @ incoming s2)" using "1.prems" i1 by simp
          then show ?thesis
            using "1.IH" [OF f1 [symmetric] Inr off Some refl that(1) small f2 [symmetric] that(2)] that(3) by simp
        qed
        then show ?thesis
          using f1 Inr off Some small f2
          by (auto simp: chunk_loop.simps [of buf pos out s] Let_def split: prod.splits sum.splits)
      qed
    qed
  qed
qed

text \<open>On such streams the client returns, with a response or an error.\<close>

lemma client_exchange_returns:
  assumes "httparse_response hp" "\<And>k x. sane_stream hp sp (streams k x)"
    and "up_exchange up = client_exchange hp sp streams"
  shows "exchanges_return up"
proof -
  have "send_request_borrowed hp sp req True cs \<noteq> None" if sane: "sane_stream hp sp cs" for req cs
  proof (cases "cs_sent cs")
    case None
    then show ?thesis by (simp add: send_request_borrowed_def send_wire_def)
  next
    case (Some sent)
    obtain r s where h: "head_loop (parse_head_with hp owned_head) sp [] (cs_in cs) = (r, s)" by fastforce
    show ?thesis
    proof (cases r)
      case (Inl e)
      then show ?thesis using Some h by (simp add: send_request_borrowed_def send_wire_def)
    next
      case (Inr hb)
      obtain status hs headers_end buf where hb: "hb = ((status, hs, headers_end), buf)" by (metis prod.exhaust)
      note l = head_loop_Inr [OF h [unfolded Inr hb]]
      then have e: "headers_end \<le> length buf"
        using assms(1) by (auto simp: parse_head_with_def owned_head_def httparse_response_def
            split: sum.splits hp_status.splits option.splits if_splits)
      have "read_chunked_body buf headers_end s \<noteq> None"
        using chunk_loop_returns [of buf s headers_end "[]"] sane l e by (simp add: read_chunked_body_def sane_stream_def)
      moreover have "response_length hs < 2 ^ 63" using sane h Inr hb by (simp add: sane_stream_def)
      ultimately have "owned_body (status, hs, headers_end) buf s \<noteq> None"
        using e by (simp add: owned_body_def read_sized_body_def)
      then show ?thesis using Some h Inr hb by (simp add: send_request_borrowed_def send_wire_def)
    qed
  qed
  with assms(2) show ?thesis by (simp add: exchanges_return_def assms(3) client_exchange_def)
qed

section \<open>What an upstream can do\<close>

text \<open>A chunk size of \<open>usize::MAX\<close> is accepted by the size parser and panics.\<close>

theorem huge_chunk_panics:
  "read_chunked_body (as_bytes ''ffffffffffffffff'' @ crlf) 0 s = None"
proof -
  have c: "as_bytes ''ffffffffffffffff'' @ crlf = [102,102,102,102,102,102,102,102,102,102,102,102,102,102,102,102,13,10]"
    by (simp add: as_bytes_def crlf_def)
  have trim: "str_trim ''ffffffffffffffff'' = ''ffffffffffffffff''" by code_simp
  have n: "parse_chunk_size (as_bytes ''ffffffffffffffff'') = Some (2 ^ 64 - 1)"
    by (simp add: parse_chunk_size_def from_utf8_def trim parse_hex_def hex_digit_def is_ascii_digit_def byte_of_def
        Let_def) (simp add: as_bytes_def)
  have r: "fill_until (\<lambda>b. find_crlf (drop 0 b) \<noteq> None) (\<lambda>_. 4096) MalformedChunkedFraming (as_bytes ''ffffffffffffffff'' @ crlf) s =
      (Inr (as_bytes ''ffffffffffffffff'' @ crlf), s)" "find_crlf (drop 0 (as_bytes ''ffffffffffffffff'' @ crlf)) = Some 16"
      "byte_slice (as_bytes ''ffffffffffffffff'' @ crlf) 0 16 = as_bytes ''ffffffffffffffff''"
    by (simp_all add: c fill_until.simps [of _ _ _ _ s] byte_slice_def) (simp add: as_bytes_def)
  show ?thesis
    unfolding read_chunked_body_def chunk_loop.simps [of _ 0 "[]" s] r prod.case sum.case option.case n Let_def
    by simp
qed

text \<open>With several content-length rows the owned path takes the first and the direct path the last.\<close>

lemma length_rows_disagree:
  "response_length [(''content-length'', ''5''), (''content-length'', ''3'')] = 5"
  "last_length 0 [(''content-length'', ''5''), (''content-length'', ''3'')] = 3"
  by (simp_all add: response_length_def last_length_def is_header_def parse_unsigned_def parse_digits_def
      read_nat_def digit_val_def is_ascii_digit_def byte_of_def)

text \<open>A content-length row of a chunked response is forwarded as it is, whatever the length of the decoded body.\<close>

lemma stale_length_forwarded:
  "(''content-length'', v) \<in> set (resp_headers r) \<Longrightarrow>
    (''content-length'', v) \<in> set (resp_headers (construct_proxied_response date r ms close))"
  unfolding construct_proxied_response_def
  by (auto simp: Let_def proxied_header_def intro!: bexI [of _ "(''content-length'', v)"])

text \<open>A response that announces a length without sending it, as the answer to HEAD does, ends in the timeout.\<close>

lemma announced_body_awaited:
  "0 < n \<Longrightarrow> n < 2 ^ 63 \<Longrightarrow> read_sized_body buf (length buf) n [] = Some (Inl UnexpectedEof, [])"
  by (simp add: read_sized_body_def fill_until.simps read_more_def)

section \<open>Witnesses\<close>

definition demo_parser :: response_parser where
  "demo_parser buf =
     (if length buf < 4 then Inr Partial
      else Inr (Complete \<lparr>hr_end = 4, hr_code = Some 204, hr_spans = []\<rparr>))"

definition demo_stream :: ClientStream where
  "demo_stream = \<lparr>cs_host = ''h'', cs_in = [Arrived [72, 84], Arrived [84, 80]], cs_sent = Some []\<rparr>"

theorem direct_equals_owned_witness:
  "httparse_response demo_parser \<and> one_length_row demo_parser (\<lambda>_. 4096) demo_stream \<and>
   send_request_direct demo_parser (\<lambda>_. 4096) ''d'' 7 demo_req True False [] demo_stream =
     map_option (\<lambda>(x, cs'). (map_sum id (direct_view ''d'' 7 False []) x, cs'))
       (send_request_borrowed demo_parser (\<lambda>_. 4096) demo_req True demo_stream)"
proof -
  have hp: "httparse_response demo_parser"
    by (auto simp: httparse_response_def demo_parser_def split: if_splits)
  have one: "one_length_row demo_parser (\<lambda>_. 4096) demo_stream"
    by (simp add: one_length_row_def demo_stream_def head_loop.simps read_more_def parse_head_with_def demo_parser_def
        owned_head_def)
  show ?thesis using hp one direct_equals_owned [OF hp one] by blast
qed

theorem chunked_body_exact_witness:
  "\<exists>s'. read_chunked_body [51, 13, 10, 97, 98, 99, 13] 0 [Arrived [10, 48, 13], Arrived [10, 13, 10]] =
     Some (Inr [97, 98, 99], s')"
proof -
  have trim: "str_trim ''3'' = ''3''" "str_trim ''0'' = ''0''" by code_simp+
  have chars: "(char_of (51 :: nat) :: char) = CHR ''3''" "(char_of (48 :: nat) :: char) = CHR ''0''" by code_simp+
  have size: "parse_chunk_size [51] = Some 3" "parse_chunk_size [48] = Some 0"
    by (simp_all add: parse_chunk_size_def from_utf8_def str_of_def trim chars
        parse_hex_def hex_digit_def is_ascii_digit_def byte_of_def Let_def)
  have "chunks_ok [([51], [97, 98, 99])] [48] []"
    using size by (simp add: chunks_ok_def is_line_def crlf_def)
  moreover have "drop 0 [51, 13, 10, 97, 98, 99, 13] @ incoming [Arrived [10, 48, 13], Arrived [10, 13, 10]] =
      chunked_wire [([51], [97, 98, 99])] [48] [] @ []"
    by (simp add: chunked_wire_def crlf_def)
  ultimately have "\<exists>cs l0 ts rest. chunks_ok cs l0 ts \<and>
      drop 0 [51, 13, 10, 97, 98, 99, 13] @ incoming [Arrived [10, 48, 13], Arrived [10, 13, 10]] = chunked_wire cs l0 ts @ rest \<and>
      [97, 98, 99] = concat (map snd cs)" by fastforce
  then show ?thesis
    using chunked_body_exact [of 0 "[51, 13, 10, 97, 98, 99, 13]" "[Arrived [10, 48, 13], Arrived [10, 13, 10]]" "[97, 98, 99]"]
    by simp
qed

end
