(* ===== verification/H1_Log.thy ===== *)
theory H1_Log
  imports Log_Filter Filter_Pipeline Http1_Client
begin

text \<open>
  What the HTTP/1 connection manager does with a finished response besides writing it: the gRPC form of local
  replies (\<open>envoy-http1/src/grpc.rs\<close>), the access-log record (\<open>build_access_log_record\<close> of \<open>hcm.rs\<close>) and its
  dispatch to the sinks.
\<close>

section \<open>gRPC local replies (grpc.rs)\<close>

definition is_grpc_request :: "headers \<Rightarrow> bool" where
  "is_grpc_request hs =
     (case find_header hs ''content-type'' of
        Some v \<Rightarrow> v = ''application/grpc'' \<or> starts_with v ''application/grpc+''
      | None \<Rightarrow> False)"

definition http_to_grpc_status :: "nat \<Rightarrow> nat" where
  "http_to_grpc_status status =
     (if status = 400 then 13 else if status = 401 then 16 else if status = 403 then 7 else if status = 404 then 12
      else if status = 429 \<or> status = 502 \<or> status = 503 \<or> status = 504 then 14 else 2)"

definition HEX :: string where
  "HEX = ''0123456789ABCDEF''"

definition encode_byte :: "8 word \<Rightarrow> string" where
  "encode_byte b =
     (if 0x20 \<le> b \<and> b \<le> 0x7D \<and> b \<noteq> 0x25 then [char_of (unat b)]
      else [CHR ''%'', HEX ! unat (drop_bit 4 b), HEX ! unat (b AND 0x0F)])"

definition grpc_message_encode :: "bytes \<Rightarrow> string" where
  "grpc_message_encode body = concat (map encode_byte body)"

record grpc_partition =
  gp_passthrough :: headers
  gp_date :: "(string \<times> string) option"
  gp_server :: "(string \<times> string) option"
  gp_connection :: "(string \<times> string) option"

definition partition_header :: "string \<times> string \<Rightarrow> grpc_partition \<Rightarrow> grpc_partition" where
  "partition_header kv p =
     (if is_header ''content-type'' kv \<or> is_header ''content-length'' kv then p
      else if gp_date p = None \<and> is_header ''date'' kv then p\<lparr>gp_date := Some kv\<rparr>
      else if gp_server p = None \<and> is_header ''server'' kv then p\<lparr>gp_server := Some kv\<rparr>
      else if gp_connection p = None \<and> is_header ''connection'' kv then p\<lparr>gp_connection := Some kv\<rparr>
      else p\<lparr>gp_passthrough := gp_passthrough p @ [kv]\<rparr>)"

definition opt_list :: "'a option \<Rightarrow> 'a list" where
  "opt_list x = (case x of None \<Rightarrow> [] | Some a \<Rightarrow> [a])"

definition apply_grpc_local_reply :: "Response \<Rightarrow> headers \<Rightarrow> Response \<times> bool" where
  "apply_grpc_local_reply resp req_hs =
     (if \<not> is_grpc_request req_hs \<or> find_header (resp_headers resp) ''grpc-status'' \<noteq> None then (resp, False)
      else
        let p = fold partition_header (resp_headers resp)
              \<lparr>gp_passthrough = [], gp_date = None, gp_server = None, gp_connection = None\<rparr>;
            message = (if resp_body resp = [] then None else Some (grpc_message_encode (resp_body resp)));
            out = gp_passthrough p
              @ [(''content-type'', ''application/grpc''),
                 (''grpc-status'', show_nat (http_to_grpc_status (resp_status resp)))]
              @ opt_list (map_option (\<lambda>m. (''grpc-message'', m)) message)
              @ opt_list (gp_date p) @ opt_list (gp_server p) @ opt_list (gp_connection p)
              @ [(''content-length'', ''0'')]
        in (resp\<lparr>resp_status := 200, resp_reason := None, resp_headers := out, resp_body := []\<rparr>, True))"

section \<open>The record (hcm.rs)\<close>

definition x_envoy_original_path_or_path :: "Request \<Rightarrow> string" where
  "x_envoy_original_path_or_path req =
     (case find_header (req_headers req) ''x-envoy-original-path'' of Some v \<Rightarrow> v | None \<Rightarrow> req_path req)"

definition access_log_header_value :: "headers \<Rightarrow> string \<Rightarrow> string option" where
  "access_log_header_value hs name = map_option snd (find (is_header name) hs)"

definition extract_upstream_service_time :: "headers \<Rightarrow> nat option" where
  "extract_upstream_service_time hs =
     Option.bind (access_log_header_value hs ''x-envoy-upstream-service-time'')
       (\<lambda>v. map_option (\<lambda>ms. ms * 1000000) (parse_unsigned 64 v))"

definition effective_grpc_status :: "headers \<Rightarrow> nat \<Rightarrow> nat" where
  "effective_grpc_status hs status =
     (case Option.bind (access_log_header_value hs ''grpc-status'') (\<lambda>v. parse_signed 64 (str_trim v)) of
        Some n \<Rightarrow> if 0 \<le> n \<and> n \<le> 16 then nat n else http_to_grpc_status status
      | None \<Rightarrow> http_to_grpc_status status)"

definition response_flags_of :: "bool \<Rightarrow> bool \<Rightarrow> string option \<Rightarrow> string" where
  "response_flags_of retry_limit_exceeded connect_failure details =
     (if retry_limit_exceeded then ''URX''
      else if connect_failure then ''UF''
      else if details = Some ''route_not_found'' then ''NR''
      else if details = Some ''no_healthy_upstream'' then ''UH''
      else if details = Some ''upstream_reset_before_response_started{overflow}'' then ''UO''
      else if details = Some ''upstream_reset_before_response_started{connection_termination}'' then ''UC''
      else ''-'')"

record AccessLogRequestInfo =
  lq_req :: Request
  lq_start_time :: int
  lq_bytes_received :: nat
  lq_matched_route :: "Route option"
  lq_dynamic_metadata :: dynamic_metadata

record AccessLogResponseInfo =
  lp_status :: nat
  lp_bytes_sent :: nat
  lp_duration :: nat
  lp_headers :: headers
  lp_upstream_host :: "string option"
  lp_upstream_cluster :: "string option"
  lp_details :: "string option"
  lp_retry_limit_exceeded :: bool
  lp_connect_failure :: bool

definition build_access_log_record :: "AccessLogRequestInfo \<Rightarrow> AccessLogResponseInfo \<Rightarrow> AccessLogRecord" where
  "build_access_log_record q p =
     (let hs = req_headers (lq_req q) in
      \<lparr>start_time = lq_start_time q,
       lr_method = req_method (lq_req q),
       lr_path = x_envoy_original_path_or_path (lq_req q),
       lr_protocol = ''HTTP/1.1'',
       lr_response_code = lp_status p,
       response_flags = response_flags_of (lp_retry_limit_exceeded p) (lp_connect_failure p) (lp_details p),
       bytes_received = lq_bytes_received q,
       bytes_sent = lp_bytes_sent p,
       lr_duration = lp_duration p,
       upstream_service_time = extract_upstream_service_time (lp_headers p),
       forwarded_for = access_log_header_value hs ''x-forwarded-for'',
       user_agent = access_log_header_value hs ''user-agent'',
       request_id = access_log_header_value hs ''x-request-id'',
       lr_authority = access_log_header_value hs ''host'',
       upstream_host = lp_upstream_host p,
       upstream_cluster = lp_upstream_cluster p,
       lr_route_name =
         (case lq_matched_route q of
            None \<Rightarrow> None | Some r \<Rightarrow> if route_name r = [] then None else Some (route_name r)),
       response_code_details = lp_details p,
       lr_dynamic_metadata = lq_dynamic_metadata q,
       grpc_status = (if is_grpc_request hs then access_log_header_value (lp_headers p) ''grpc-status'' else None),
       grpc_status_code_field = effective_grpc_status (lp_headers p) (lp_status p)\<rparr>)"

definition record_context :: "AccessLogRecord \<Rightarrow> headers \<Rightarrow> log_context" where
  "record_context r hs =
     \<lparr>lc_status = lr_response_code r, lc_flags = response_flags r, lc_headers = hs,
      lc_metadata = lr_dynamic_metadata r, lc_grpc_code = grpc_status_code_field r,
      lc_is_health_check = answered_by_health_check (response_code_details r)\<rparr>"

text \<open>
  The dispatch: \<open>write_ok i\<close> is whether the file of the sink at \<open>i\<close> takes the write. The result has the sinks and
  how many records were counted as emitted and as failed.
\<close>

fun emit_loop :: "(nat \<Rightarrow> bool) \<Rightarrow> nat \<Rightarrow> AccessLogRecord \<Rightarrow> log_context \<Rightarrow> FileSink list
    \<Rightarrow> (FileSink list \<times> nat \<times> nat) option" where
  "emit_loop write_ok i r c [] = Some ([], 0, 0)"
| "emit_loop write_ok i r c (sink # sinks) =
     (case sink_should_log sink c of
        None \<Rightarrow> None
      | Some False \<Rightarrow> map_option (\<lambda>(ss, t, f). (sink # ss, t, f)) (emit_loop write_ok (i + 1) r c sinks)
      | Some True \<Rightarrow>
          (case sink_emit sink r (write_ok i) of
             None \<Rightarrow> None
           | Some (ok, sink') \<Rightarrow>
               map_option (\<lambda>(ss, t, f). (sink' # ss, t + 1, if ok then f else f + 1))
                 (emit_loop write_ok (i + 1) r c sinks)))"

section \<open>The message survives\<close>

definition percent_digit :: "char \<Rightarrow> nat option" where
  "percent_digit c = find_index (\<lambda>d. d = c) HEX"

fun percent_decode :: "string \<Rightarrow> bytes option" where
  "percent_decode [] = Some []"
| "percent_decode (c # s) =
     (if c = CHR ''%'' then
        (case s of
           h # l # s' \<Rightarrow>
             (case (percent_digit h, percent_digit l) of
                (Some a, Some b) \<Rightarrow> map_option (\<lambda>bs. word_of_nat (16 * a + b) # bs) (percent_decode s')
              | _ \<Rightarrow> None)
         | _ \<Rightarrow> None)
      else map_option (\<lambda>bs. word_of_nat (byte_of c) # bs) (percent_decode s))"

lemma percent_digit_HEX: "d < 16 \<Longrightarrow> percent_digit (HEX ! d) = Some d"
proof -
  have "\<forall>d < 16. percent_digit (HEX ! d) = Some d" by code_simp
  then show "d < 16 \<Longrightarrow> percent_digit (HEX ! d) = Some d" by blast
qed

lemma nibbles: "unat (drop_bit 4 b) < 16" "unat (b AND 0x0F) < 16" "16 * unat (drop_bit 4 b) + unat (b AND 0x0F) = unat b"
  for b :: "8 word"
proof -
  have b: "unat b < 256" by (rule unat_u8)
  have hi: "unat (drop_bit 4 b) = unat b div 16" by (simp only: unat_drop_bit_eq) (simp add: drop_bit_eq_div)
  have "b AND 0x0F = take_bit 4 b" by (simp add: take_bit_eq_mask mask_eq_exp_minus_1)
  then have "unat (b AND 0x0F) = take_bit 4 (unat b)" by (simp only: unsigned_take_bit_eq)
  then have lo: "unat (b AND 0x0F) = unat b mod 16" by (simp add: take_bit_eq_mod)
  show "unat (drop_bit 4 b) < 16" "unat (b AND 0x0F) < 16" "16 * unat (drop_bit 4 b) + unat (b AND 0x0F) = unat b"
    using b by (simp_all add: hi lo)
qed

lemma percent_decode_byte: "percent_decode (encode_byte b @ s) = map_option (\<lambda>bs. b # bs) (percent_decode s)"
proof (cases "0x20 \<le> b \<and> b \<le> 0x7D \<and> b \<noteq> 0x25")
  case True
  have "unat b < 256" by (rule unat_u8)
  moreover have "unat b \<noteq> 37" using True word_unat_eq_iff [of b "0x25"] by auto
  ultimately have "char_of (unat b) \<noteq> CHR ''%''" "byte_of (char_of (unat b)) = unat b"
    using byte_of_char_of [of "unat b"] by (auto simp: byte_of_def dest: arg_cong [where f = "of_char :: char \<Rightarrow> nat"])
  then show ?thesis using True by (simp add: encode_byte_def)
next
  case False
  then have e: "encode_byte b = [CHR ''%'', HEX ! unat (drop_bit 4 b), HEX ! unat (b AND 0x0F)]" by (simp add: encode_byte_def)
  have "(word_of_nat (16 * unat (drop_bit 4 b) + unat (b AND 0x0F)) :: 8 word) = b" using nibbles(3) [of b] by simp
  then show ?thesis using nibbles [of b] by (simp only: e append_Cons append_Nil percent_decode.simps) (simp add: percent_digit_HEX)
qed

lemma percent_decode_encode: "percent_decode (grpc_message_encode body) = Some body"
  by (induction body) (simp_all add: grpc_message_encode_def percent_decode_byte)


lemma HEX_printable: "d < 16 \<Longrightarrow> 32 \<le> byte_of (HEX ! d) \<and> byte_of (HEX ! d) < 126"
proof -
  have "\<forall>d < 16. 32 \<le> byte_of (HEX ! d) \<and> byte_of (HEX ! d) < 126" by code_simp
  then show "d < 16 \<Longrightarrow> 32 \<le> byte_of (HEX ! d) \<and> byte_of (HEX ! d) < 126" by blast
qed

lemma encode_byte_printable: "list_all (\<lambda>c. 32 \<le> byte_of c \<and> byte_of c < 126) (encode_byte b)"
proof (cases "0x20 \<le> b \<and> b \<le> 0x7D \<and> b \<noteq> 0x25")
  case True
  then have "32 \<le> unat b" "unat b \<le> 125" by (simp_all add: word_le_nat_alt)
  with True show ?thesis by (simp add: encode_byte_def byte_of_char_of)
next
  case False
  moreover have "byte_of CHR ''%'' = 37" by (simp add: byte_of_def)
  ultimately show ?thesis using nibbles [of b] HEX_printable by (auto simp: encode_byte_def)
qed

lemma grpc_message_printable:
  "list_all (\<lambda>c. 32 \<le> byte_of c \<and> byte_of c < 126) (grpc_message_encode body)"
  using encode_byte_printable by (simp add: grpc_message_encode_def list_all_iff)

text \<open>
  The body of a local reply, whatever its bytes, goes into the \<open>grpc-message\<close> header as printable ASCII without a
  line break, and percent-decoding the header gives the body back.
\<close>
theorem grpc_message_roundtrip:
  "percent_decode (grpc_message_encode body) = Some body \<and>
   list_all (\<lambda>c. 32 \<le> byte_of c \<and> byte_of c < 126) (grpc_message_encode body)"
  using percent_decode_encode grpc_message_printable by blast

section \<open>The shape of a gRPC local reply\<close>

definition kept_row :: "string \<times> string \<Rightarrow> bool" where
  "kept_row kv \<longleftrightarrow> \<not> is_header ''content-type'' kv \<and> \<not> is_header ''content-length'' kv"

definition gp_rows :: "grpc_partition \<Rightarrow> headers" where
  "gp_rows p = gp_passthrough p @ opt_list (gp_date p) @ opt_list (gp_server p) @ opt_list (gp_connection p)"

lemma partition_header_rows:
  "mset (gp_rows (partition_header kv p)) = mset (gp_rows p) + mset (filter kept_row [kv])"
  by (auto simp: partition_header_def gp_rows_def opt_list_def kept_row_def)

lemma partition_rows: "mset (gp_rows (fold partition_header hs p)) = mset (gp_rows p) + mset (filter kept_row hs)"
  by (induction hs arbitrary: p) (auto simp: partition_header_rows)

lemma find_header_filter_mset:
  "find_header hs n = None \<longleftrightarrow> filter (is_header n) hs = []"
  by (induction hs) (auto simp: is_header_def)

text \<open>
  A local reply to a gRPC request becomes a 200 without a body whose rows are the original ones other than
  \<open>content-type\<close> and \<open>content-length\<close>, in any order, plus the gRPC content type, the mapped status, the message when
  there was a body and a zero length; transforming it a second time changes nothing, and a request that is not gRPC
  leaves the reply alone.
\<close>
theorem grpc_local_reply_shape:
  assumes "find_header (resp_headers resp) ''grpc-status'' = None"
  shows "apply_grpc_local_reply resp req_hs =
      (if is_grpc_request req_hs then (fst (apply_grpc_local_reply resp req_hs), True) else (resp, False)) \<and>
    (is_grpc_request req_hs \<longrightarrow>
      (let resp' = fst (apply_grpc_local_reply resp req_hs) in
       resp_status resp' = 200 \<and> resp_body resp' = [] \<and>
       mset (resp_headers resp') = mset (filter kept_row (resp_headers resp)) +
         mset ([(''content-type'', ''application/grpc''),
                (''grpc-status'', show_nat (http_to_grpc_status (resp_status resp))), (''content-length'', ''0'')]
           @ (if resp_body resp = [] then [] else [(''grpc-message'', grpc_message_encode (resp_body resp))])) \<and>
       apply_grpc_local_reply resp' req_hs = (resp', False)))"
proof (cases "is_grpc_request req_hs")
  case True
  let ?p = "fold partition_header (resp_headers resp)
    \<lparr>gp_passthrough = [], gp_date = None, gp_server = None, gp_connection = None\<rparr>"
  let ?r = "fst (apply_grpc_local_reply resp req_hs)"
  have rows: "mset (gp_rows ?p) = mset (filter kept_row (resp_headers resp))"
    using partition_rows [of "resp_headers resp"] by (simp add: gp_rows_def opt_list_def)
  have m: "mset (resp_headers ?r) = mset (filter kept_row (resp_headers resp)) +
         mset ([(''content-type'', ''application/grpc''),
                (''grpc-status'', show_nat (http_to_grpc_status (resp_status resp))), (''content-length'', ''0'')]
           @ (if resp_body resp = [] then [] else [(''grpc-message'', grpc_message_encode (resp_body resp))]))"
    unfolding rows [symmetric] using True assms
    by (simp add: apply_grpc_local_reply_def Let_def gp_rows_def opt_list_def split: option.split)
  then have "(''grpc-status'', show_nat (http_to_grpc_status (resp_status resp))) \<in> set (resp_headers ?r)"
    by (metis append_Cons in_multiset_in_set list.set_intros(1,2) union_iff)
  then have "find_header (resp_headers ?r) ''grpc-status'' \<noteq> None"
    unfolding find_header_None by (metis (no_types, lifting) case_prodD eq_ignore_ascii_case_refl)
  then have "apply_grpc_local_reply ?r req_hs = (?r, False)" by (simp add: apply_grpc_local_reply_def)
  with m show ?thesis using True assms
    by (simp add: Let_def) (simp add: apply_grpc_local_reply_def Let_def)
next
  case False
  then show ?thesis by (simp add: apply_grpc_local_reply_def)
qed

section \<open>Every accepted record is written once\<close>

lemma emit_loop_spec:
  assumes "\<forall>sink \<in> set sinks. sink_should_log sink c \<noteq> None" "\<And>fmt. \<exists>line. log_render fmt r = Some line"
  shows "\<exists>ss t f. emit_loop write_ok k r c sinks = Some (ss, t, f) \<and> length ss = length sinks \<and>
     t = length (filter (\<lambda>s. sink_should_log s c = Some True) sinks) \<and>
     f = length (filter (\<lambda>i. sink_should_log (sinks ! i) c = Some True \<and> \<not> write_ok (k + i)) [0..<length sinks]) \<and>
     (\<forall>i < length sinks. ss ! i =
        (if sink_should_log (sinks ! i) c = Some True \<and> write_ok (k + i)
         then (sinks ! i)\<lparr>fs_handle := fs_handle (sinks ! i) @ the (log_render (fs_format (sinks ! i)) r)\<rparr>
         else sinks ! i))"
  using assms
proof (induction sinks arbitrary: k)
  case (Cons sink sinks)
  obtain b where b: "sink_should_log sink c = Some b" using Cons.prems(1) by auto
  obtain line where line: "log_render (fs_format sink) r = Some line" using Cons.prems(2) by blast
  from Cons.IH [of "k + 1"] Cons.prems obtain ss t f where
    IH: "emit_loop write_ok (k + 1) r c sinks = Some (ss, t, f)" "length ss = length sinks"
      "t = length (filter (\<lambda>s. sink_should_log s c = Some True) sinks)"
      "f = length (filter (\<lambda>i. sink_should_log (sinks ! i) c = Some True \<and> \<not> write_ok (k + 1 + i)) [0..<length sinks])"
      "\<forall>i < length sinks. ss ! i =
        (if sink_should_log (sinks ! i) c = Some True \<and> write_ok (k + 1 + i)
         then (sinks ! i)\<lparr>fs_handle := fs_handle (sinks ! i) @ the (log_render (fs_format (sinks ! i)) r)\<rparr>
         else sinks ! i)"
    by auto
  have upt: "[0..<length (sink # sinks)] = 0 # map Suc [0..<length sinks]" by (simp add: map_Suc_upt upt_conv_Cons del: upt_Suc)
  have f: "length (filter (\<lambda>i. sink_should_log ((sink # sinks) ! i) c = Some True \<and> \<not> write_ok (k + i)) [0..<length (sink # sinks)])
      = (if b \<and> \<not> write_ok k then f + 1 else f)"
    unfolding upt IH(4) using b by (simp add: filter_map comp_def)
  show ?case
  proof (cases b)
    case False
    show ?thesis unfolding f using IH b False by (auto simp: nth_Cons split: nat.split)
  next
    case True
    show ?thesis unfolding f using IH b True line by (auto simp: sink_emit_def nth_Cons split: nat.split)
  qed
qed simp

text \<open>
  Dispatching a finished request to the sinks of a listener, every sink being able to decide: the loop never panics,
  the emitted counter moves by the number of sinks whose filter accepts the record, the failed counter by those whose
  write fails, and each file gains the rendered line exactly when its filter accepts and its write succeeds.
\<close>
theorem access_log_dispatch:
  assumes "\<forall>sink \<in> set sinks. sink_should_log sink (record_context r hs) \<noteq> None"
  shows "\<exists>ss t f. emit_loop write_ok 0 r (record_context r hs) sinks = Some (ss, t, f) \<and> length ss = length sinks \<and>
     t = length (filter (\<lambda>s. sink_should_log s (record_context r hs) = Some True) sinks) \<and>
     f = length (filter (\<lambda>i. sink_should_log (sinks ! i) (record_context r hs) = Some True \<and> \<not> write_ok i) [0..<length sinks]) \<and>
     (\<forall>i < length sinks. ss ! i =
        (if sink_should_log (sinks ! i) (record_context r hs) = Some True \<and> write_ok i
         then (sinks ! i)\<lparr>fs_handle := fs_handle (sinks ! i) @ the (log_render (fs_format (sinks ! i)) r)\<rparr>
         else sinks ! i))"
  using emit_loop_spec [OF assms log_render_total, of write_ok 0] by simp


definition demo_reply :: Response where
  "demo_reply =
     \<lparr>resp_status = 404, resp_reason = None,
      resp_headers = [(''date'', ''d''), (''content-length'', ''2''), (''x'', ''y'')], resp_body = [110, 10]\<rparr>"

lemma grpc_local_reply_shape_witness:
  "mset (resp_headers (fst (apply_grpc_local_reply demo_reply [(''content-type'', ''application/grpc'')]))) =
   mset [(''date'', ''d''), (''x'', ''y''), (''content-type'', ''application/grpc''), (''grpc-status'', ''12''),
     (''content-length'', ''0''), (''grpc-message'', ''n%0A'')]"
proof -
  have "find_header (resp_headers demo_reply) ''grpc-status'' = None" by code_simp
  moreover have "is_grpc_request [(''content-type'', ''application/grpc'')]" by code_simp
  moreover have "filter kept_row (resp_headers demo_reply) = [(''date'', ''d''), (''x'', ''y'')]"
    "show_nat (http_to_grpc_status (resp_status demo_reply)) = ''12''" "resp_body demo_reply \<noteq> []"
    "grpc_message_encode (resp_body demo_reply) = ''n%0A''" by code_simp+
  ultimately show ?thesis
    using grpc_local_reply_shape [of demo_reply "[(''content-type'', ''application/grpc'')]"] by (simp add: Let_def)
qed

definition demo_sink :: FileSink where
  "demo_sink =
     \<lparr>fs_path = ''/a'', fs_handle = [],
      fs_format = TextFormat \<lparr>cf_segments = [Literal ''x''], cf_omit_empty = False\<rparr>, fs_filter = None\<rparr>"

lemma access_log_dispatch_witness:
  "\<forall>r. \<exists>ss t f. emit_loop (\<lambda>_. True) 0 r (record_context r []) [demo_sink] = Some (ss, t, f) \<and>
     t = 1 \<and> map fs_handle ss = [''x'']"
proof
  fix r
  have "\<forall>sink \<in> set [demo_sink]. sink_should_log sink (record_context r []) \<noteq> None"
    by (simp add: sink_should_log_def demo_sink_def)
  from access_log_dispatch [OF this, of "\<lambda>_. True"]
  show "\<exists>ss t f. emit_loop (\<lambda>_. True) 0 r (record_context r []) [demo_sink] = Some (ss, t, f) \<and>
     t = 1 \<and> map fs_handle ss = [''x'']"
    by (auto simp: sink_should_log_def log_render_def format_render_def sink_emit_def demo_sink_def split: option.splits)
qed

end
