(* ===== verification/Filter_Ready.thy ===== *)
theory Filter_Ready
  imports Filter_Pipeline
begin

text \<open>
  Which filter chains never panic. A matcher panics on a regular expression that nothing compiled, so a chain answers every
  request when the matchers it consults are compiled: those of RBAC and of the health-check filter are when the chain is
  built, those of the fault filter, of JWT rules, of CSRF policies and of the CORS and CSRF policies of routes are taken
  from the configuration as they are, and there only matchers without a regular expression are safe.
\<close>

section \<open>Matchers that are safe\<close>

definition config_routes :: "RouteConfiguration \<Rightarrow> Route set" where
  "config_routes rc = (\<Union>vh \<in> set (virtual_hosts rc). set (vh_routes vh))"

definition per_route_ready :: "PerFilterConfig \<Rightarrow> bool" where
  "per_route_ready pfc =
     (case pfc of
        PfcCors p \<Rightarrow> list_all sm_ready (allow_origin_string_match p)
      | PfcCsrf p \<Rightarrow> list_all sm_ready (additional_origins p)
      | PfcBuffer _ \<Rightarrow> True)"

definition route_policies_ready :: "RouteConfiguration \<Rightarrow> bool" where
  "route_policies_ready rc \<longleftrightarrow>
     (\<forall>r \<in> config_routes rc. \<forall>name pfc. bt_get (typed_per_filter_config r) name = Some pfc \<longrightarrow> per_route_ready pfc)"

definition typed_ready :: "HttpFilterTypedConfig \<Rightarrow> bool" where
  "typed_ready tc =
     (case tc of
        TcFault cfg \<Rightarrow> list_all hm_ready (fault_headers cfg)
      | TcJwtAuthn cfg \<Rightarrow> list_all (\<lambda>r. list_all hm_ready (rm_headers (rr_match r))) (ja_rules cfg)
      | TcCsrf p \<Rightarrow> list_all sm_ready (additional_origins p)
      | _ \<Rightarrow> True)"

definition instance_ready :: "HttpFilterInstance \<Rightarrow> bool" where
  "instance_ready i \<longleftrightarrow>
     (case i of
        IRbac f \<Rightarrow> \<forall>p \<in> set (rf_policies f). \<forall>req. policy_matches p req \<noteq> None
      | IFault f \<Rightarrow> list_all hm_ready (header_gate f)
      | IJwtAuthn f \<Rightarrow> list_all (\<lambda>r. list_all hm_ready (rm_headers (cr_match r))) (jf_rules f)
      | ICsrf f \<Rightarrow> list_all sm_ready (csp_additional_origins (csrf_base_policy f))
      | IHealthCheck f \<Rightarrow> list_all hm_ready (hcf_headers f)
      | _ \<Rightarrow> True)"

definition filters_ready :: "RouteConfiguration \<Rightarrow> FilterPipeline \<Rightarrow> bool" where
  "filters_ready rc p \<longleftrightarrow> list_all instance_ready p \<and> route_policies_ready rc"

section \<open>A ready chain answers\<close>

lemma matchers_answer:
  "list_all hm_ready ms \<Longrightarrow> \<exists>b. all_opt (\<lambda>m. header_matches m (g m)) ms = Some b"
  "list_all sm_ready sms \<Longrightarrow> \<exists>b. any_opt (\<lambda>m. string_matches m v) sms = Some b"
proof -
  show "list_all hm_ready ms \<Longrightarrow> \<exists>b. all_opt (\<lambda>m. header_matches m (g m)) ms = Some b"
    using all_opt_total [of ms "\<lambda>m. header_matches m (g m)"] header_matches_ready by (auto simp: list_all_iff)
  show "list_all sm_ready sms \<Longrightarrow> \<exists>b. any_opt (\<lambda>m. string_matches m v) sms = Some b"
    using any_opt_total [of sms "\<lambda>m. string_matches m v"] string_matches_ready by (auto simp: list_all_iff)
qed

lemma jwt_decode_ready:
  assumes "list_all (\<lambda>r. list_all hm_ready (rm_headers (cr_match r))) (jf_rules f)"
  shows "jwt_decode jenv f req w \<noteq> None"
proof -
  have "route_match_matches (cr_match r) (fr_path req) (fr_headers req) \<noteq> None" if "r \<in> set (jf_rules f)" for r
    using that assms matchers_answer(1) [of "rm_headers (cr_match r)"]
    by (auto simp: route_match_matches_def Let_def list_all_iff)
  from find_opt_total [of "jf_rules f", OF this] show ?thesis
    by (simp add: jwt_decode_def Let_def split: option.split sum.split)
qed

lemma cors_decode_ready:
  assumes "\<And>p. cors_active_policy f = Some p \<Longrightarrow> list_all sm_ready (ccp_allow_origin p)"
  shows "cors_decode f req w \<noteq> None"
proof (cases "cors_active_policy f"; cases "header_ci (fr_headers req) ''origin''")
  fix p origin
  assume p: "cors_active_policy f = Some p" and o': "header_ci (fr_headers req) ''origin'' = Some origin"
  from matchers_answer(2) [OF assms [OF p]] obtain b where
    "any_opt (\<lambda>m. string_matches m origin) (ccp_allow_origin p) = Some b" by blast
  with p o' show ?thesis by (simp add: cors_decode_def Let_def)
qed (simp_all add: cors_decode_def)

lemma csrf_decode_ready:
  assumes "list_all sm_ready (csp_additional_origins (csrf_active_policy f))"
  shows "csrf_decode f req w \<noteq> None"
proof (cases "csrf_source (fr_headers req)")
  case (Some source)
  from matchers_answer(2) [OF assms] obtain b where
    "any_opt (\<lambda>m. string_matches m source) (csp_additional_origins (csrf_active_policy f)) = Some b" by blast
  with Some show ?thesis by (simp add: csrf_decode_def split: bool.split)
qed (simp add: csrf_decode_def)

text \<open>A route of the table, or none, as the connection manager resolves it.\<close>

definition table_route :: "RouteConfiguration \<Rightarrow> Route option \<Rightarrow> bool" where
  "table_route rc route \<longleftrightarrow> (\<forall>r. route = Some r \<longrightarrow> r \<in> config_routes rc)"

lemma per_filter_ready:
  assumes "route_policies_ready rc" "table_route rc route" "per_filter route name = Some pfc"
  shows "per_route_ready pfc"
  using assms by (auto simp: per_filter_def table_route_def route_policies_ready_def bind_eq_Some_conv)

lemma instance_decode_ready:
  assumes "instance_ready i" "route_policies_ready rc" "table_route rc route"
  shows "instance_decode jenv (instance_apply_route i route) req w \<noteq> None"
proof (cases i)
  case (IRbac f)
  then show ?thesis
    using assms(1) any_opt_total [of "rf_policies f" "\<lambda>p. policy_matches p req"]
    by (auto simp: instance_ready_def instance_apply_route_def instance_decode_def with_req_def rbac_decode_def)
next
  case (IFault f)
  then show ?thesis
    using assms(1) matchers_answer(1) [of "header_gate f" "\<lambda>_. fr_headers req"]
    by (auto simp: instance_ready_def instance_apply_route_def instance_decode_def with_req_def fault_decode_def
        header_gate_matches_def)
next
  case (IJwtAuthn f)
  then show ?thesis
    using assms(1) jwt_decode_ready [of f jenv req w]
    by (auto simp: instance_ready_def instance_apply_route_def instance_decode_def)
next
  case (ICors f)
  have "list_all sm_ready (ccp_allow_origin p)" if "cors_active_policy (cors_apply_route f route) = Some p" for p
    using that per_filter_ready [OF assms(2,3), of "''envoy.filters.http.cors''"]
    by (cases "per_filter route ''envoy.filters.http.cors''"; cases "the (per_filter route ''envoy.filters.http.cors'')")
      (auto simp: cors_apply_route_def per_route_ready_def compiled_cors_from_def)
  from cors_decode_ready [OF this] ICors show ?thesis
    by (simp add: instance_apply_route_def instance_decode_def)
next
  case (ICsrf f)
  have "list_all sm_ready (csp_additional_origins (csrf_active_policy (csrf_apply_route f route)))"
    using assms(1) ICsrf per_filter_ready [OF assms(2,3), of "''envoy.filters.http.csrf''"]
    by (cases "per_filter route ''envoy.filters.http.csrf''"; cases "the (per_filter route ''envoy.filters.http.csrf'')")
      (auto simp: csrf_apply_route_def instance_ready_def per_route_ready_def compiled_csrf_from_def)
  from csrf_decode_ready [OF this] ICsrf show ?thesis
    by (simp add: instance_apply_route_def instance_decode_def with_req_def)
next
  case (IHealthCheck f)
  then show ?thesis
    using assms(1) matchers_answer(1) [of "hcf_headers f"]
    by (auto simp: instance_ready_def instance_apply_route_def instance_decode_def with_req_def health_check_decode_def
        health_check_matches_def split: option.splits bool.splits)
qed (auto simp: instance_apply_route_def instance_decode_def with_req_def split: prod.split)

lemma pipeline_decode_total:
  "(\<And>i req w. i \<in> set p \<Longrightarrow> instance_decode jenv i req w \<noteq> None) \<Longrightarrow> pipeline_decode jenv p req w \<noteq> None"
proof (induction p arbitrary: req w)
  case (Cons i p)
  obtain d i' req' w' where "instance_decode jenv i req w = Some (d, i', req', w')"
    using Cons.prems [of i req w] by auto
  then show ?case using Cons.IH [of req' w'] Cons.prems by (cases d) auto
qed simp

lemma pipeline_decode_ready:
  assumes "filters_ready rc p" "table_route rc route"
  shows "pipeline_decode jenv (pipeline_apply_route p route) req w \<noteq> None"
  using assms instance_decode_ready
  by (intro pipeline_decode_total) (auto simp: filters_ready_def pipeline_apply_route_def list_all_iff)

lemma instance_ready_base: "instance_ready (instance_base i) = instance_ready i"
  by (cases i) (simp_all add: instance_ready_def)

lemma filters_ready_base:
  assumes "map instance_base p = map instance_base q" "filters_ready rc p"
  shows "filters_ready rc q"
proof -
  have "list_all instance_ready p = list_all instance_ready (map instance_base p)" for p
    by (simp add: list.pred_map comp_def instance_ready_base)
  with assms show ?thesis by (metis filters_ready_def)
qed

section \<open>Chains built from a configuration\<close>

lemma rbac_built_ready:
  assumes "validate_rbac_rules rules l = Inr ()" "rbac_build rx rules pfx st = (Inr f, st')"
  shows "\<forall>p \<in> set (rf_policies f). \<forall>req. policy_matches p req \<noteq> None"
proof (intro ballI allI)
  fix rp req
  assume rp: "rp \<in> set (rf_policies f)"
  have "traverse (lower_policy rx) (bt_entries (policies rules)) = Inr (rf_policies f)"
    using assms(2) by (auto simp: rbac_build_def split: sum.splits prod.splits)
  from traverse_set [OF this rp] obtain n p where
    p: "(n, p) \<in> set (bt_entries (policies rules))" "lower_policy rx (n, p) = Inr rp" by auto
  have "validate_rbac_policy l (n, p) = Inr ()"
    using assms(1) p(1) by (auto simp: validate_rbac_rules_def split: if_splits)
  from lower_policy_holds [OF p(2) this] show "policy_matches rp req \<noteq> None" by simp
qed

lemma jwt_built_ready:
  assumes "jwt_build env cfg pfx st = (Inr f, st')" "typed_ready (TcJwtAuthn cfg)"
  shows "instance_ready (IJwtAuthn f)"
proof -
  obtain m where t: "traverse (compile_rule m) (ja_rules cfg) = Inr (jf_rules f)"
    using assms(1) by (auto simp: jwt_build_def split: sum.splits prod.splits)
  have "list_all hm_ready (rm_headers (cr_match r))" if "r \<in> set (jf_rules f)" for r
    using traverse_set [OF t that] assms(2)
    by (auto simp: compile_rule_def typed_ready_def list_all_iff split: option.splits)
  then show ?thesis by (simp add: instance_ready_def list_all_iff)
qed

lemma health_check_built_ready:
  assumes "health_check_build rx cfg pfx st = (Inr f, st')"
  shows "instance_ready (IHealthCheck f)"
proof -
  have t: "traverse (\<lambda>m. lift_regex (compile_header_matcher rx m)) (hc_headers cfg) = Inr (hcf_headers f)"
    using assms by (auto simp: health_check_build_def split: sum.splits prod.splits)
  have "hm_ready m" if "m \<in> set (hcf_headers f)" for m
  proof -
    from traverse_set [OF t that] obtain m0 where "lift_regex (compile_header_matcher rx m0) = Inr m" by blast
    then have "compile_header_matcher rx m0 = Inr m" by (cases "compile_header_matcher rx m0") (auto simp: lift_regex_def)
    then show ?thesis by (rule compile_header_matcher_ready)
  qed
  then show ?thesis by (simp add: instance_ready_def list_all_iff)
qed

lemma on_stats_Inr:
  "on_stats k build w = (Inr i, w') \<Longrightarrow> \<exists>f st'. build (w_stats w) = (Inr f, st') \<and> i = k f"
  by (auto simp: on_stats_def map_ok_def split: prod.splits sum.splits)

lemma instance_build_ready:
  assumes "validate_http_filter rx jenv listener hf = Inr ()" "typed_ready (hf_typed_config hf)"
    and "instance_build rx jenv hf pfx w = (Inr i, w')"
  shows "instance_ready i"
proof (cases "hf_typed_config hf")
  case (TcRbac rules)
  then show ?thesis
    using assms on_stats_Inr [of IRbac] rbac_built_ready
    by (fastforce simp: instance_build_def validate_http_filter_def validate_typed_config_def instance_ready_def split: if_splits)
next
  case (TcFault cfg)
  then obtain f st' where "fault_build cfg pfx (w_stats w) = (Inr f, st')" "i = IFault f"
    using assms(3) on_stats_Inr [of IFault] by (fastforce simp: instance_build_def)
  then show ?thesis
    using assms(2) TcFault by (auto simp: fault_build_def instance_ready_def typed_ready_def split: sum.splits prod.splits)
next
  case (TcJwtAuthn cfg)
  then show ?thesis
    using assms(2,3) on_stats_Inr [of IJwtAuthn] jwt_built_ready by (fastforce simp: instance_build_def)
next
  case (TcCsrf cfg)
  then obtain f st' where "csrf_build cfg pfx (w_stats w) = (Inr f, st')" "i = ICsrf f"
    using assms(3) on_stats_Inr [of ICsrf] by (fastforce simp: instance_build_def)
  then show ?thesis
    using assms(2) TcCsrf
    by (auto simp: csrf_build_def instance_ready_def typed_ready_def compiled_csrf_from_def split: sum.splits prod.splits)
next
  case (TcHealthCheck cfg)
  then show ?thesis
    using assms(3) on_stats_Inr [of IHealthCheck] health_check_built_ready by (fastforce simp: instance_build_def)
qed (use assms(3) in \<open>auto simp: instance_build_def instance_ready_def map_ok_def dest!: on_stats_Inr split: sum.splits prod.splits\<close>)

text \<open>
  A validated chain whose fault, JWT and CSRF matchers are without an uncompiled regular expression is built into a
  pipeline that is ready for every route table whose CORS and CSRF policies are.
\<close>

lemma pipeline_build_ready:
  assumes "validate_http_filters rx jenv filters listener = Inr ()"
    and "list_all (\<lambda>hf. typed_ready (hf_typed_config hf)) filters" "route_policies_ready rc"
    and "pipeline_build rx jenv filters pfx w = (Inr p, w')"
  shows "filters_ready rc p"
proof -
  have loop: "list_all instance_ready p"
    if "\<forall>hf \<in> set hfs. validate_http_filter rx jenv listener hf = Inr () \<and> typed_ready (hf_typed_config hf)"
      "pipeline_build_loop rx jenv hfs pfx w = (Inr p, w')" for hfs w p
    using that
  proof (induction hfs arbitrary: w p)
    case (Cons hf hfs)
    from Cons.prems(2) obtain i w1 p1 where
      i: "instance_build rx jenv hf pfx w = (Inr i, w1)" "pipeline_build_loop rx jenv hfs pfx w1 = (Inr p1, w')" "p = i # p1"
      by (auto simp: map_ok_def split: prod.splits sum.splits)
    then show ?case using Cons.IH [OF _ i(2)] Cons.prems(1) instance_build_ready [OF _ _ i(1)] by auto
  qed simp
  have "validate_http_filter rx jenv listener hf = Inr ()" if "hf \<in> set filters" for hf
    using assms(1) that by (auto simp: validate_http_filters_def split: sum.splits if_splits)
  then show ?thesis
    using assms(2,3,4) loop [of filters w p] by (auto simp: filters_ready_def pipeline_build_def list_all_iff split: if_splits)
qed

section \<open>A connection's filters never panic\<close>

lemma serve_requests_ready:
  assumes "filters_ready rc p" "\<forall>x \<in> set xs. table_route rc (ex_route x)"
  shows "\<exists>os. serve_requests jenv p xs w = Some os \<and> length os = length xs"
  using assms
proof (induction xs arbitrary: p w)
  case (Cons x xs)
  obtain d p1 req w1 where
    d: "pipeline_decode jenv (pipeline_apply_route p (ex_route x)) (ex_request x) w = Some (d, p1, req, w1)"
    using pipeline_decode_ready [of rc p "ex_route x" jenv "ex_request x" w] Cons.prems by auto
  obtain d' p2 resp where e: "pipeline_encode p1 (ex_respond x d req) = (d', p2, resp)" by (metis prod_cases3)
  have "map instance_base p = map instance_base p2"
    using pipeline_encode_keeps(1) [OF e] pipeline_base_decode [OF d] pipe.base_apply [of p "ex_route x"] by simp
  then have "filters_ready rc p2" using filters_ready_base Cons.prems(1) by blast
  with Cons.IH [of p2 "ex_between x w1"] Cons.prems(2) obtain os where
    "serve_requests jenv p2 xs (ex_between x w1) = Some os" "length os = length xs" by auto
  with d e show ?case by (simp add: serve_filters_def)
qed simp

text \<open>
  C26. A validated chain, with no uncompiled regular expression in its fault, JWT and CSRF matchers nor in the CORS and CSRF
  policies of the route table, decides every request of every connection: whatever requests the connection carries, to
  whatever routes of the table, and however the shared state changes between them, no filter panics.
\<close>

theorem validated_chain_never_panics:
  assumes "validate_http_filters rx jenv filters listener = Inr ()"
    and "list_all (\<lambda>hf. typed_ready (hf_typed_config hf)) filters" "route_policies_ready rc"
    and "pipeline_build rx jenv filters pfx w0 = (Inr p, w1)"
    and "\<forall>x \<in> set xs. table_route rc (ex_route x)"
  shows "\<exists>os. serve_requests jenv p xs w = Some os \<and> length os = length xs"
  by (rule serve_requests_ready [OF pipeline_build_ready [OF assms(1-4)] assms(5)])

text \<open>A health check by regular expression, CSRF with an exact origin, CORS with a policy on the route, and the router.\<close>

definition demo_ready_filters :: "HttpFilter list" where
  "demo_ready_filters =
     [\<lparr>hf_name = ''envoy.filters.http.health_check'', hf_typed_config = TcHealthCheck
        \<lparr>pass_through_mode = False, hc_headers = [\<lparr>hm_name = ''x-probe'', hm_mode = SafeRegexMatch uncompiled, hm_invert_match = False\<rparr>],
         cache_time_set = False, cluster_min_healthy_percentages_set = False, hc_local_cluster = ''c''\<rparr>\<rparr>,
      \<lparr>hf_name = ''envoy.filters.http.csrf'', hf_typed_config = TcCsrf
        \<lparr>filter_enabled = \<lparr>default_value = \<lparr>numerator = 100, denominator = Hundred\<rparr>, runtime_key = None\<rparr>,
         additional_origins = [\<lparr>sm_mode = Exact ''a'', sm_ignore_case = False\<rparr>]\<rparr>\<rparr>] @ demo_filters"

definition demo_ready_rc :: RouteConfiguration where
  "demo_ready_rc = demo_rc\<lparr>virtual_hosts := map (\<lambda>vh. vh\<lparr>vh_routes := [demo_cors_route]\<rparr>) (virtual_hosts demo_rc)\<rparr>"

theorem validated_chain_never_panics_witness:
  "\<exists>p w1 os. pipeline_build (\<lambda>_. Some (\<lambda>_. True)) demo_jwt_env demo_ready_filters ''p'' (demo_world 0) = (Inr p, w1)
     \<and> serve_requests demo_jwt_env p
         [demo_exchange (Some demo_cors_route) [(''origin'', ''http://a''), (''x-probe'', ''1'')], demo_exchange None []] w1 = Some os
     \<and> length os = 2"
proof -
  let ?b = "pipeline_build (\<lambda>_. Some (\<lambda>_. True)) demo_jwt_env demo_ready_filters ''p'' (demo_world 0)"
  let ?xs = "[demo_exchange (Some demo_cors_route) [(''origin'', ''http://a''), (''x-probe'', ''1'')], demo_exchange None []]"
  have v: "validate_http_filters (\<lambda>_. Some (\<lambda>_. True)) demo_jwt_env demo_ready_filters ''l'' = Inr ()" by code_simp
  have t: "list_all (\<lambda>hf. typed_ready (hf_typed_config hf)) demo_ready_filters"
    by (simp add: demo_ready_filters_def demo_filters_def typed_ready_def sm_ready_def)
  have routes: "config_routes demo_ready_rc = {demo_cors_route}"
    by (simp add: config_routes_def demo_ready_rc_def demo_rc_def)
  have r: "route_policies_ready demo_ready_rc"
    by (auto simp: route_policies_ready_def routes demo_cors_route_def per_route_ready_def sm_ready_def
        bt_get_of_list split: if_splits)
  have x: "\<forall>x \<in> set ?xs. table_route demo_ready_rc (ex_route x)"
    by (simp add: table_route_def demo_exchange_def routes)
  have "\<not> isl (fst ?b)" by code_simp
  then obtain p w1 where b: "?b = (Inr p, w1)" by (metis prod.collapse sum.collapse(2))
  from validated_chain_never_panics [OF v t r b x] b show ?thesis by fastforce
qed

end
