(* ===== verification/H1_Connection.thy ===== *)
theory H1_Connection
  imports H1_Log Filter_Ready
begin

text \<open>
  The HTTP/1 connection loop: \<open>parse_request\<close> of \<open>envoy-http1/src/codec.rs\<close>, and \<open>read_request_body\<close>,
  \<open>run_decode_filters\<close> and \<open>serve_connection\<close> of \<open>envoy-http1/src/hcm.rs\<close>. \<open>httparse\<close> is the parameter
  \<open>ce_parser\<close>; what the socket, the upstreams, the clocks and the log files do while the request number \<open>n\<close> is served
  are the other fields of the environment. One connection is followed alone. The response is written through the owned
  path; that the zero-copy path writes the same bytes is shown in \<open>Http1_Client\<close>. A panic is \<open>None\<close> and, for the whole
  connection, the end \<open>Panicked\<close>.
\<close>

section \<open>Parsing a request (codec.rs)\<close>

record hp_request =
  hq_end :: nat
  hq_method :: "string option"
  hq_path :: "string option"
  hq_version :: "nat option"
  hq_spans :: "span list"

type_synonym request_parser = "bytes \<Rightarrow> hp_error + hp_request hp_status"

definition request_failure :: "hp_error \<Rightarrow> Http1Error" where
  "request_failure e =
     (case e of
        TooManyHeaders \<Rightarrow> HeadersTooLarge 8192
      | HeaderName \<Rightarrow> MalformedHeader | HeaderValue \<Rightarrow> MalformedHeader | NewLine \<Rightarrow> MalformedHeader
      | Status \<Rightarrow> MalformedHeader
      | Token \<Rightarrow> MalformedRequestLine | Version \<Rightarrow> MalformedRequestLine)"

text \<open>A value that is not UTF-8 becomes the empty string.\<close>

definition request_rows :: "bytes \<Rightarrow> span list \<Rightarrow> headers" where
  "request_rows buf spans =
     map (\<lambda>sn. (str_of (span_name buf sn), unwrap_or (from_utf8 (span_value buf sn)) []))
       (filter (\<lambda>sn. span_name buf sn \<noteq> []) spans)"

definition parse_request :: "request_parser \<Rightarrow> bytes \<Rightarrow> Http1Error + Request option" where
  "parse_request rp buf =
     (case rp buf of
        Inl e \<Rightarrow> Inl (request_failure e)
      | Inr Partial \<Rightarrow> if length buf > 8192 then Inl (HeadersTooLarge 8192) else Inr None
      | Inr (Complete h) \<Rightarrow>
          if hq_version h \<noteq> Some 0 \<and> hq_version h \<noteq> Some 1 then Inl MalformedRequestLine
          else Inr (Some \<lparr>req_method = unwrap_or (hq_method h) [], req_path = unwrap_or (hq_path h) [],
            req_version = (if hq_version h = Some 0 then Http10 else Http11),
            req_headers = request_rows buf (hq_spans h), req_bytes_consumed = hq_end h, req_body = None\<rparr>))"

section \<open>Reading the body (hcm.rs)\<close>

text \<open>
  \<open>spare\<close> is the room the buffer leaves after it holds so many bytes. The results are the body, the idle timeout
  (\<open>Inr None\<close>) and the errors.
\<close>

function body_loop :: "(nat \<Rightarrow> nat) \<Rightarrow> nat \<Rightarrow> bytes \<Rightarrow> socket \<Rightarrow> (Http1Error + bytes option) \<times> socket" where
  "body_loop spare remaining body s =
     (if remaining = 0 then (Inr (Some body), s)
      else case sock_read (min remaining (spare (length body))) s of
        (TimedOut, s') \<Rightarrow> (Inr None, s')
      | (ReadFailed, s') \<Rightarrow> (Inl Io, s')
      | (Read bs, s') \<Rightarrow>
          if bs = [] then (Inl UnexpectedEof, s') else body_loop spare (remaining - length bs) (body @ bs) s')"
  by pat_completeness auto
termination
  by (relation "measure (\<lambda>(spare, remaining, body, s). remaining)") auto

declare body_loop.simps [simp del]

definition read_request_body :: "(nat \<Rightarrow> nat) \<Rightarrow> nat \<Rightarrow> bytes \<Rightarrow> socket
    \<Rightarrow> (Http1Error + bytes option) \<times> bytes \<times> socket" where
  "read_request_body spare body_len buf s =
     (if body_len > 0 then
        let from_buf = min (length buf) body_len;
            (r, s') = body_loop spare (body_len - from_buf) (take from_buf buf) s
        in (r, drop from_buf buf, s')
      else (Inr (Some []), buf, s))"

section \<open>Filters\<close>

definition run_decode_filters :: "jwt_env \<Rightarrow> FilterPipeline \<Rightarrow> Request \<Rightarrow> world
    \<Rightarrow> (Decision \<times> dynamic_metadata \<times> FilterPipeline \<times> Request \<times> world) option" where
  "run_decode_filters jenv p req w =
     (case pipeline_decode jenv p
        \<lparr>fr_method = req_method req, fr_path = req_path req, fr_headers = req_headers req, fr_body = req_body req,
         fr_dynamic_metadata = []\<rparr> w of
        None \<Rightarrow> None
      | Some (d, p', fr, w') \<Rightarrow>
          Some (d, fr_dynamic_metadata fr, p',
            req\<lparr>req_method := fr_method fr, req_path := fr_path fr, req_headers := fr_headers fr, req_body := fr_body fr\<rparr>,
            w'))"

section \<open>The state of a connection\<close>

record HCMStats =
  downstream_rq_total :: nat
  downstream_rq_2xx :: nat
  downstream_rq_3xx :: nat
  downstream_rq_4xx :: nat
  downstream_rq_5xx :: nat
  access_logs_total :: nat
  access_logs_failed :: nat

text \<open>What a connection manager shares with the rest of the process.\<close>

record ('addr, 's) hcm_world =
  hw_world :: world
  hw_clusters :: "(string, 'addr cluster) btmap"
  hw_pools :: "(string, ('addr, 's) H1Pool) btmap option"
  hw_access_log :: "FileSink list"

record HCMConfig =
  hc_route_config :: RouteConfiguration
  hc_runtime :: RuntimeSnapshot
  hc_stats :: HCMStats

record ('addr, 's) conn_env =
  ce_parser :: request_parser
  ce_spare :: "nat \<Rightarrow> nat"
  ce_jwt :: jwt_env
  ce_clock :: "nat \<Rightarrow> nat \<times> nat"
  ce_date :: "nat \<Rightarrow> string"
  ce_upstream :: "nat \<Rightarrow> ('addr, 's) upstream"
  ce_show_addr :: "'addr \<Rightarrow> string"
  ce_write :: "nat \<Rightarrow> nat list"
  ce_start_time :: "nat \<Rightarrow> int"
  ce_duration :: "nat \<Rightarrow> nat"
  ce_log_write :: "nat \<Rightarrow> nat \<Rightarrow> bool"

record ('addr, 's) conn_state =
  cn_buf :: bytes
  cn_in :: socket
  cn_out :: bytes
  cn_served :: nat
  cn_pipeline :: FilterPipeline
  cn_world :: "('addr, 's) hcm_world"

definition hw_stats :: "('addr, 's) hcm_world \<Rightarrow> stats" where
  "hw_stats hw = w_stats (hw_world hw)"

definition hw_set_stats :: "stats \<Rightarrow> ('addr, 's) hcm_world \<Rightarrow> ('addr, 's) hcm_world" where
  "hw_set_stats st hw = hw\<lparr>hw_world := (hw_world hw)\<lparr>w_stats := st\<rparr>\<rparr>"

definition hw_inc :: "nat \<Rightarrow> ('addr, 's) hcm_world \<Rightarrow> ('addr, 's) hcm_world" where
  "hw_inc h hw = hw_set_stats (counter_inc h (hw_stats hw)) hw"

definition set_clock :: "nat \<times> nat \<Rightarrow> ('addr, 's) hcm_world \<Rightarrow> ('addr, 's) hcm_world" where
  "set_clock t hw = hw\<lparr>hw_world := (hw_world hw)\<lparr>w_now := fst t, w_unix := snd t\<rparr>\<rparr>"

section \<open>Answering one request\<close>

datatype RequestPath = PathMatch BuildOutcome | SynthFromDecode Response "string option" bool

definition response_of :: "FilterResponse \<Rightarrow> Response" where
  "response_of fr = \<lparr>resp_status = fs_status fr, resp_reason = fs_reason fr, resp_headers = fs_headers fr, resp_body = fs_body fr\<rparr>"

definition request_path :: "string \<Rightarrow> HCMConfig \<Rightarrow> bool \<Rightarrow> bool \<Rightarrow> Decision \<Rightarrow> Request
    \<Rightarrow> (RequestPath \<times> Request) option" where
  "request_path date cfg close chunked decision req =
     (case decision of
        Continue \<Rightarrow>
          if chunked then Some (PathMatch (Synth (synth_status date 501 close) None), req)
          else map_option (\<lambda>(o', req'). (PathMatch o', req')) (build_response_in date (hc_route_config cfg) req close (hc_runtime cfg))
      | StopAndSend fr \<Rightarrow> Some (SynthFromDecode (response_of fr) (fs_details fr) (fs_headers_only fr), req))"

text \<open>The locals the writer arms fill.\<close>

record 'addr reply =
  ro_outgoing :: Response
  ro_local :: bool
  ro_headers_only :: bool
  ro_details :: "string option"
  ro_host :: "'addr option"
  ro_cluster :: "string option"
  ro_retry_limit_exceeded :: bool
  ro_connect_failure :: bool

definition local_reply :: "Response \<Rightarrow> bool \<Rightarrow> string option \<Rightarrow> 'addr reply" where
  "local_reply resp headers_only details =
     \<lparr>ro_outgoing = resp, ro_local = True, ro_headers_only = headers_only, ro_details = details, ro_host = None,
      ro_cluster = None, ro_retry_limit_exceeded = False, ro_connect_failure = False\<rparr>"

text \<open>A missing cluster and a missing \<open>Host\<close> are the two \<open>expect\<close>s of the proxy arm.\<close>

definition dispatch_path :: "('addr, 's) upstream \<Rightarrow> string \<Rightarrow> bool \<Rightarrow> RequestPath \<Rightarrow> Request
    \<Rightarrow> ('addr, 's) hcm_world \<Rightarrow> ('addr reply \<times> ('addr, 's) hcm_world) option" where
  "dispatch_path up date close path req hw =
     (case path of
        PathMatch (Synth resp details) \<Rightarrow> Some (local_reply resp False details, hw)
      | PathMatch (Proxy name rc include_count hk sm) \<Rightarrow>
          (case (bt_get (hw_clusters hw) name, find_header (req_headers req) ''host'') of
             (Some c, Some host) \<Rightarrow>
               (case proxy_arm up date close name rc include_count hk sm req
                  \<lparr>ps_cluster = c, ps_pools = hw_pools hw, ps_stats = hw_stats hw\<rparr> of
                  None \<Rightarrow> None
                | Some (p, s) \<Rightarrow>
                    Some (\<lparr>ro_outgoing = px_response p, ro_local = px_local p, ro_headers_only = False,
                           ro_details = Some (px_details p), ro_host = px_host p,
                           ro_cluster = (if hw_access_log hw = [] then None else Some name),
                           ro_retry_limit_exceeded = px_retry_limit_exceeded p, ro_connect_failure = px_connect_failure p\<rparr>,
                      hw_set_stats (ps_stats s)
                        (hw\<lparr>hw_clusters := bt_insert name (ps_cluster s) (hw_clusters hw), hw_pools := ps_pools s\<rparr>)))
           | _ \<Rightarrow> None)
      | SynthFromDecode resp details headers_only \<Rightarrow>
          Some (local_reply (decorate_filter_reply date resp headers_only (Some (connection_value close))) headers_only details, hw))"

definition run_encode_filters :: "string \<Rightarrow> bool \<Rightarrow> FilterPipeline \<Rightarrow> 'addr reply \<Rightarrow> 'addr reply \<times> FilterPipeline" where
  "run_encode_filters date close p r =
     (let o' = ro_outgoing r in
      case pipeline_encode p
        \<lparr>fs_status = resp_status o', fs_reason = resp_reason o', fs_headers = resp_headers o', fs_body = resp_body o',
         fs_details = None, fs_headers_only = False\<rparr> of
        (Continue, p', fr) \<Rightarrow> (r\<lparr>ro_outgoing := response_of fr\<rparr>, p')
      | (StopAndSend repl, p', fr) \<Rightarrow>
          (r\<lparr>ro_outgoing := decorate_filter_reply date (response_of repl) (fs_headers_only repl) (Some (connection_value close)),
             ro_headers_only := fs_headers_only repl, ro_local := True\<rparr>, p'))"

definition finish_reply :: "Request \<Rightarrow> 'addr reply \<Rightarrow> Response" where
  "finish_reply req r =
     (let (o', transformed) =
        (if ro_local r then apply_grpc_local_reply (ro_outgoing r) (req_headers req) else (ro_outgoing r, False)) in
      if ro_headers_only r then settle_headers_only_framing o' (req_method req = ''HEAD'') transformed else o')"

definition class_counter :: "HCMStats \<Rightarrow> nat \<Rightarrow> nat option" where
  "class_counter st status =
     (if status div 100 = 2 then Some (downstream_rq_2xx st)
      else if status div 100 = 3 then Some (downstream_rq_3xx st)
      else if status div 100 = 4 then Some (downstream_rq_4xx st)
      else if status div 100 = 5 then Some (downstream_rq_5xx st)
      else None)"

definition count_class :: "HCMStats \<Rightarrow> string option \<Rightarrow> nat \<Rightarrow> ('addr, 's) hcm_world \<Rightarrow> ('addr, 's) hcm_world" where
  "count_class st details status hw =
     (if answered_by_health_check details then hw
      else case class_counter st status of None \<Rightarrow> hw | Some h \<Rightarrow> hw_inc h hw)"

definition log_record :: "('addr, 's) conn_env \<Rightarrow> nat \<Rightarrow> Request \<Rightarrow> Route option \<Rightarrow> dynamic_metadata \<Rightarrow> nat \<Rightarrow> 'addr reply
    \<Rightarrow> Response \<Rightarrow> AccessLogRecord" where
  "log_record env n req route metadata body_len r outgoing =
     build_access_log_record
       \<lparr>lq_req = req, lq_start_time = ce_start_time env n, lq_bytes_received = body_len,
        lq_matched_route = route, lq_dynamic_metadata = metadata\<rparr>
       \<lparr>lp_status = resp_status outgoing, lp_bytes_sent = length (resp_body outgoing),
        lp_duration = ce_duration env n, lp_headers = resp_headers outgoing,
        lp_upstream_host = map_option (ce_show_addr env) (ro_host r), lp_upstream_cluster = ro_cluster r,
        lp_details = ro_details r, lp_retry_limit_exceeded = ro_retry_limit_exceeded r,
        lp_connect_failure = ro_connect_failure r\<rparr>"

definition log_request :: "('addr, 's) conn_env \<Rightarrow> HCMStats \<Rightarrow> nat \<Rightarrow> headers \<Rightarrow> AccessLogRecord
    \<Rightarrow> ('addr, 's) hcm_world \<Rightarrow> ('addr, 's) hcm_world option" where
  "log_request env st n hs record hw =
     (if hw_access_log hw = [] then Some hw
      else case emit_loop (ce_log_write env n) 0 record (record_context record hs) (hw_access_log hw) of
             None \<Rightarrow> None
           | Some (sinks, emitted, failed) \<Rightarrow>
               Some ((hw_inc (access_logs_failed st) ^^ failed) ((hw_inc (access_logs_total st) ^^ emitted)
                 (hw\<lparr>hw_access_log := sinks\<rparr>))))"

definition wants_close :: "Request \<Rightarrow> bool" where
  "wants_close req \<longleftrightarrow>
     list_ex (\<lambda>(n, v). eq_ignore_ascii_case n ''connection'' \<and> eq_ignore_ascii_case v ''close'') (req_headers req)
     \<or> req_version req = Http10"

text \<open>From the request with its body to the response: filters, routing, proxying, filters again.\<close>

record 'addr answered =
  an_response :: Response
  an_reply :: "'addr reply"
  an_request :: Request
  an_metadata :: dynamic_metadata

definition answer_request :: "('addr, 's) conn_env \<Rightarrow> HCMConfig \<Rightarrow> nat \<Rightarrow> bool \<Rightarrow> bool \<Rightarrow> Request \<Rightarrow> FilterPipeline
    \<Rightarrow> ('addr, 's) hcm_world \<Rightarrow> ('addr answered \<times> FilterPipeline \<times> ('addr, 's) hcm_world) option" where
  "answer_request env cfg n close chunked req p hw =
     (case run_decode_filters (ce_jwt env) p req (hw_world hw) of
        None \<Rightarrow> None
      | Some (decision, metadata, p1, req1, w) \<Rightarrow>
          (case request_path (ce_date env n) cfg close chunked decision req1 of
             None \<Rightarrow> None
           | Some (path, req2) \<Rightarrow>
               (case dispatch_path (ce_upstream env n) (ce_date env n) close path req2 (hw\<lparr>hw_world := w\<rparr>) of
                  None \<Rightarrow> None
                | Some (r, hw1) \<Rightarrow>
                    let (r1, p2) = run_encode_filters (ce_date env n) close p1 r in
                    Some (\<lparr>an_response = finish_reply req2 r1, an_reply = r1, an_request = req2, an_metadata = metadata\<rparr>, p2, hw1))))"

section \<open>The loop\<close>

text \<open>
  One iteration: the next state, and how the connection ends when it does. \<open>read_buf\<close> reads as much as the buffer has
  room for.
\<close>

definition read_head :: "('addr, 's) conn_env \<Rightarrow> ('addr, 's) conn_state
    \<Rightarrow> ('addr, 's) conn_state \<times> (Http1Error + unit) option" where
  "read_head env st =
     (case sock_read (ce_spare env (length (cn_buf st))) (cn_in st) of
        (TimedOut, s) \<Rightarrow> (st\<lparr>cn_in := s\<rparr>, Some (Inr ()))
      | (ReadFailed, s) \<Rightarrow> (st\<lparr>cn_in := s\<rparr>, Some (Inl Io))
      | (Read bs, s) \<Rightarrow>
          if bs = [] then (st\<lparr>cn_in := s\<rparr>, Some (if cn_buf st = [] then Inr () else Inl UnexpectedEof))
          else (st\<lparr>cn_in := s, cn_buf := cn_buf st @ bs\<rparr>, None))"

definition serve_sized :: "('addr, 's) conn_env \<Rightarrow> HCMConfig \<Rightarrow> Request \<Rightarrow> nat \<Rightarrow> ('addr, 's) conn_state
    \<Rightarrow> (('addr, 's) conn_state \<times> (Http1Error + unit) option) option" where
  "serve_sized env cfg req body_len st =
     (let n = cn_served st;
          hw = set_clock (ce_clock env n) (hw_inc (downstream_rq_total (hc_stats cfg)) (cn_world st));
          close = wants_close req;
          st1 = st\<lparr>cn_served := n + 1, cn_world := hw\<rparr>;
          chunked = has_chunked_transfer_encoding (req_headers req) in
      case resolve_route_in (hc_route_config cfg) req (hc_runtime cfg) of
        None \<Rightarrow> None
      | Some matched \<Rightarrow>
          let route = map_option (resolved_route (hc_route_config cfg)) matched;
              p = pipeline_apply_route (cn_pipeline st) route;
              (body, buf, s) = read_request_body (ce_spare env) body_len
                (drop (req_bytes_consumed req) (cn_buf st)) (cn_in st);
              st2 = st1\<lparr>cn_buf := buf, cn_in := s, cn_pipeline := p\<rparr> in
          case body of
            Inl e \<Rightarrow> Some (st2, Some (Inl e))
          | Inr None \<Rightarrow> Some (st2, Some (Inr ()))
          | Inr (Some b) \<Rightarrow>
              (case answer_request env cfg n close chunked (req\<lparr>req_body := Some b\<rparr>) p hw of
                 None \<Rightarrow> None
               | Some (a, p', hw1) \<Rightarrow>
                   let (written, sent) = write_to_buf (ce_write env n) (an_response a);
                       st3 = st2\<lparr>cn_pipeline := p', cn_out := cn_out st @ sent, cn_world := hw1\<rparr> in
                   case written of
                     Inl e \<Rightarrow> Some (st3, Some (Inl e))
                   | Inr _ \<Rightarrow>
                       (case log_request env (hc_stats cfg) n (req_headers (an_request a))
                            (log_record env n (an_request a) route (an_metadata a) body_len (an_reply a) (an_response a))
                            (count_class (hc_stats cfg) (ro_details (an_reply a)) (resp_status (an_response a)) hw1) of
                          None \<Rightarrow> None
                        | Some hw2 \<Rightarrow> Some (st3\<lparr>cn_world := hw2\<rparr>, if close then Some (Inr ()) else None))))"

definition serve_request :: "('addr, 's) conn_env \<Rightarrow> HCMConfig \<Rightarrow> Request \<Rightarrow> ('addr, 's) conn_state
    \<Rightarrow> (('addr, 's) conn_state \<times> (Http1Error + unit) option) option" where
  "serve_request env cfg req st =
     (case parse_content_length (req_headers req) of
        Inl e \<Rightarrow> Some (st\<lparr>cn_served := cn_served st + 1,
            cn_world := hw_inc (downstream_rq_total (hc_stats cfg)) (cn_world st)\<rparr>, Some (Inl e))
      | Inr body_len \<Rightarrow> serve_sized env cfg req body_len st)"

definition serve_step :: "('addr, 's) conn_env \<Rightarrow> HCMConfig \<Rightarrow> ('addr, 's) conn_state
    \<Rightarrow> (('addr, 's) conn_state \<times> (Http1Error + unit) option) option" where
  "serve_step env cfg st =
     (case parse_request (ce_parser env) (cn_buf st) of
        Inl e \<Rightarrow> Some (st, Some (Inl e))
      | Inr None \<Rightarrow> Some (read_head env st)
      | Inr (Some req) \<Rightarrow> serve_request env cfg req st)"

datatype conn_end = Panicked | Ended "Http1Error + unit"

partial_function (option) serve_connection :: "('addr, 's) conn_env \<Rightarrow> HCMConfig \<Rightarrow> ('addr, 's) conn_state
    \<Rightarrow> (('addr, 's) conn_state \<times> conn_end) option" where
  "serve_connection env cfg st =
     (case serve_step env cfg st of
        None \<Rightarrow> Some (st, Panicked)
      | Some (st', Some r) \<Rightarrow> Some (st', Ended r)
      | Some (st', None) \<Rightarrow> serve_connection env cfg st')"


section \<open>Framing\<close>

text \<open>The documented contract of the request parser: a complete head is a non-empty part of the input.\<close>

definition httparse_request :: "request_parser \<Rightarrow> bool" where
  "httparse_request rp \<longleftrightarrow>
     (\<forall>buf h. rp buf = Inr (Complete h) \<longrightarrow> 0 < hq_end h \<and> hq_end h \<le> length buf)"

lemma parse_request_consumed:
  "httparse_request rp \<Longrightarrow> parse_request rp buf = Inr (Some req) \<Longrightarrow>
   0 < req_bytes_consumed req \<and> req_bytes_consumed req \<le> length buf"
  by (auto simp: parse_request_def httparse_request_def split: sum.splits hp_status.splits if_splits)

lemma sock_read_incoming:
  "sock_read cap s = (Read bs, s') \<Longrightarrow> incoming s = bs @ incoming s' \<and> length bs \<le> cap"
  by (induction cap s rule: sock_read.induct) (auto split: if_splits)

lemma body_loop_exact:
  "body_loop spare remaining body s = (Inr (Some b), s') \<Longrightarrow>
   remaining \<le> length (incoming s) \<and> b = body @ take remaining (incoming s) \<and> incoming s' = drop remaining (incoming s)"
proof (induction spare remaining body s rule: body_loop.induct)
  case (1 spare remaining body s)
  show ?case
  proof (cases "remaining = 0")
    case True
    with "1.prems" show ?thesis by (simp add: body_loop.simps [of spare 0])
  next
    case False
    with "1.prems" obtain bs s1 where r: "sock_read (min remaining (spare (length body))) s = (Read bs, s1)" "bs \<noteq> []"
        and l: "body_loop spare (remaining - length bs) (body @ bs) s1 = (Inr (Some b), s')"
      by (auto simp: body_loop.simps [of spare remaining] split: prod.splits read_result.splits if_splits)
    note i = sock_read_incoming [OF r(1)]
    from "1.IH" [OF False r(1) [symmetric] refl r(2) l] i show ?thesis by (auto simp: drop_drop)
  qed
qed

lemma read_request_body_exact:
  assumes "read_request_body spare len buf s = (Inr (Some b), buf', s')"
  shows "b = take len (buf @ incoming s)" "buf' @ incoming s' = drop len (buf @ incoming s)"
    "len \<le> length (buf @ incoming s)"
proof -
  have "b = take len (buf @ incoming s) \<and> buf' @ incoming s' = drop len (buf @ incoming s) \<and> len \<le> length (buf @ incoming s)"
  proof (cases "len > 0")
    case True
    with assms have l: "body_loop spare (len - min (length buf) len) (take (min (length buf) len) buf) s = (Inr (Some b), s')"
        and b: "buf' = drop (min (length buf) len) buf"
      by (auto simp: read_request_body_def Let_def split: prod.splits)
    from body_loop_exact [OF l] b show ?thesis by (cases "length buf \<le> len") (auto simp: min_def)
  next
    case False
    with assms show ?thesis by (simp add: read_request_body_def)
  qed
  then show "b = take len (buf @ incoming s)" "buf' @ incoming s' = drop len (buf @ incoming s)"
    "len \<le> length (buf @ incoming s)" by auto
qed

definition unread :: "('addr, 's) conn_state \<Rightarrow> bytes" where
  "unread st = cn_buf st @ incoming (cn_in st)"

text \<open>What a served request leaves behind when the connection goes on.\<close>

lemma serve_request_continues:
  assumes "serve_request env cfg req st = Some (st', None)"
  shows "\<exists>len a p. parse_content_length (req_headers req) = Inr len \<and> \<not> wants_close req \<and>
     answer_request env cfg (cn_served st) False (has_chunked_transfer_encoding (req_headers req))
        (req\<lparr>req_body := Some (take len (drop (req_bytes_consumed req) (cn_buf st) @ incoming (cn_in st)))\<rparr>) p
        (set_clock (ce_clock env (cn_served st)) (hw_inc (downstream_rq_total (hc_stats cfg)) (cn_world st)))
       = Some a \<and>
     unread st' = drop len (drop (req_bytes_consumed req) (cn_buf st) @ incoming (cn_in st)) \<and>
     len \<le> length (drop (req_bytes_consumed req) (cn_buf st) @ incoming (cn_in st)) \<and>
     cn_out st' = cn_out st @ serialize_response_head (an_response (fst a)) @ resp_body (an_response (fst a)) \<and>
     cn_served st' = cn_served st + 1"
proof -
  obtain len where len: "parse_content_length (req_headers req) = Inr len"
    using assms by (auto simp: serve_request_def serve_sized_def Let_def split: sum.splits)
  obtain matched where m: "resolve_route_in (hc_route_config cfg) req (hc_runtime cfg) = Some matched"
    using assms len by (auto simp: serve_request_def serve_sized_def Let_def split: option.splits)
  define p where "p = pipeline_apply_route (cn_pipeline st) (map_option (resolved_route (hc_route_config cfg)) matched)"
  obtain body buf s where b: "read_request_body (ce_spare env) len (drop (req_bytes_consumed req) (cn_buf st)) (cn_in st)
      = (body, buf, s)" by (metis prod_cases3)
  obtain by' where by': "body = Inr (Some by')"
    using assms len m b by (auto simp: serve_request_def serve_sized_def Let_def split: sum.splits option.splits)
  note exact = read_request_body_exact [OF b [unfolded by']]
  obtain a p' hw1 where a: "answer_request env cfg (cn_served st) (wants_close req)
        (has_chunked_transfer_encoding (req_headers req)) (req\<lparr>req_body := Some by'\<rparr>) p
        (set_clock (ce_clock env (cn_served st)) (hw_inc (downstream_rq_total (hc_stats cfg)) (cn_world st)))
      = Some (a, p', hw1)"
    using assms len m b by' unfolding p_def by (auto simp: serve_request_def serve_sized_def Let_def split: option.splits)
  obtain w sent where w: "write_to_buf (ce_write env (cn_served st)) (an_response a) = (w, sent)" by fastforce
  have *: "w = Inr () \<and> \<not> wants_close req \<and> unread st' = buf @ incoming s \<and> cn_out st' = cn_out st @ sent \<and>
      cn_served st' = cn_served st + 1"
    using assms len m b by' a w unfolding p_def
    by (auto simp: serve_request_def serve_sized_def Let_def unread_def split: option.splits sum.splits if_splits)
  then have "sent = serialize_response_head (an_response a) @ resp_body (an_response a)"
    using w write_head_and_body_sent [of "ce_write env (cn_served st)"] by (auto simp: write_to_buf_def)
  with * len a exact show ?thesis by auto
qed


text \<open>
  C5. The connection keeps its framing: when a request has been parsed and the connection goes on, exactly the request's
  head and the \<open>Content-Length\<close> bytes after it have been taken from the stream, those bytes are the body the filters and
  the upstream see, whatever part of them was already buffered and however the rest arrived, and exactly one response
  has been written, head and body in full, behind those of the requests before it.
\<close>
theorem request_framing_exact:
  assumes "httparse_request (ce_parser env)" "parse_request (ce_parser env) (cn_buf st) = Inr (Some req)"
    and "serve_step env cfg st = Some (st', None)"
  shows "\<exists>len a p hw. parse_content_length (req_headers req) = Inr len \<and>
     req_bytes_consumed req + len \<le> length (unread st) \<and>
     unread st' = drop (req_bytes_consumed req + len) (unread st) \<and>
     answer_request env cfg (cn_served st) False (has_chunked_transfer_encoding (req_headers req))
        (req\<lparr>req_body := Some (take len (drop (req_bytes_consumed req) (unread st)))\<rparr>) p hw = Some a \<and>
     cn_out st' = cn_out st @ serialize_response_head (an_response (fst a)) @ resp_body (an_response (fst a)) \<and>
     cn_served st' = cn_served st + 1"
proof -
  have c: "req_bytes_consumed req \<le> length (cn_buf st)" using parse_request_consumed [OF assms(1,2)] by simp
  then have u: "drop (req_bytes_consumed req) (cn_buf st) @ incoming (cn_in st) = drop (req_bytes_consumed req) (unread st)"
    by (simp add: unread_def)
  have "serve_request env cfg req st = Some (st', None)" using assms(2,3) by (simp add: serve_step_def)
  from serve_request_continues [OF this] obtain len a p where
    *: "parse_content_length (req_headers req) = Inr len"
      "answer_request env cfg (cn_served st) False (has_chunked_transfer_encoding (req_headers req))
        (req\<lparr>req_body := Some (take len (drop (req_bytes_consumed req) (unread st)))\<rparr>) p
        (set_clock (ce_clock env (cn_served st)) (hw_inc (downstream_rq_total (hc_stats cfg)) (cn_world st))) = Some a"
      "unread st' = drop len (drop (req_bytes_consumed req) (unread st))"
      "len \<le> length (drop (req_bytes_consumed req) (unread st))"
      "cn_out st' = cn_out st @ serialize_response_head (an_response (fst a)) @ resp_body (an_response (fst a))"
      "cn_served st' = cn_served st + 1"
    unfolding u by blast
  moreover have "req_bytes_consumed req + len \<le> length (unread st)" using *(4) c by (simp add: unread_def)
  moreover have "unread st' = drop (req_bytes_consumed req + len) (unread st)" using *(3) by (simp add: add.commute)
  ultimately show ?thesis by blast
qed

section \<open>A connection ends\<close>

lemma read_head_continues:
  assumes "read_head env st = (st', None)"
  shows "unread st' = unread st" "length (incoming (cn_in st')) < length (incoming (cn_in st))"
proof -
  obtain bs s where r: "sock_read (ce_spare env (length (cn_buf st))) (cn_in st) = (Read bs, s)" "bs \<noteq> []"
      "st' = st\<lparr>cn_in := s, cn_buf := cn_buf st @ bs\<rparr>"
    using assms by (auto simp: read_head_def split: prod.splits read_result.splits if_splits)
  with sock_read_incoming [OF r(1)]
  show "unread st' = unread st" "length (incoming (cn_in st')) < length (incoming (cn_in st))"
    by (auto simp: unread_def)
qed

lemma serve_step_progress:
  assumes "httparse_request (ce_parser env)" "serve_step env cfg st = Some (st', None)"
  shows "(st', st) \<in> measures [\<lambda>st. length (unread st), \<lambda>st. length (incoming (cn_in st))]"
proof (cases "parse_request (ce_parser env) (cn_buf st)")
  case (Inl e)
  then show ?thesis using assms(2) by (simp add: serve_step_def)
next
  case (Inr r)
  show ?thesis
  proof (cases r)
    case None
    then have "read_head env st = (st', None)" using assms(2) Inr by (simp add: serve_step_def)
    from read_head_continues [OF this] show ?thesis by simp
  next
    case (Some req)
    then have sr: "serve_request env cfg req st = Some (st', None)" using assms(2) Inr by (simp add: serve_step_def)
    note c = parse_request_consumed [OF assms(1) Inr [unfolded Some]]
    from serve_request_continues [OF sr] obtain len where
      "unread st' = drop len (drop (req_bytes_consumed req) (cn_buf st) @ incoming (cn_in st))" by blast
    from arg_cong [OF this, of length] c have "length (unread st') < length (unread st)"
      by (simp add: unread_def) linarith
    then show ?thesis by simp
  qed
qed

text \<open>
  Every connection ends: however its bytes arrive, whatever requests they hold and whatever the upstreams do, after
  finitely many iterations the loop returns, with an error, a clean close or a panic.
\<close>
theorem connection_ends:
  assumes "httparse_request (ce_parser env)"
  shows "\<exists>st' e. serve_connection env cfg st = Some (st', e)"
proof (induction st rule: wf_induct [OF wf_measures [of "[\<lambda>st. length (unread st), \<lambda>st. length (incoming (cn_in st))]"]])
  case (1 st)
  show ?case
  proof (cases "serve_step env cfg st")
    case None
    then show ?thesis by (simp add: serve_connection.simps [of env cfg st])
  next
    case (Some x)
    obtain st1 r where x: "x = (st1, r)" by fastforce
    show ?thesis
    proof (cases r)
      case None
      with serve_step_progress [OF assms] Some x 1 have "\<exists>st' e. serve_connection env cfg st1 = Some (st', e)" by blast
      with Some x None show ?thesis by (simp add: serve_connection.simps [of env cfg st])
    next
      case (Some e)
      with \<open>serve_step env cfg st = Some x\<close> x show ?thesis by (simp add: serve_connection.simps [of env cfg st])
    qed
  qed
qed


section \<open>A connection never panics\<close>

lemma wf_keep: "cl_fixed c' = cl_fixed c \<and> cl_outlier c' = cl_outlier c \<Longrightarrow> cluster_wf c \<Longrightarrow> cluster_wf c'"
  using cluster_wf_cong by blast

lemma release_request_keeps:
  "cl_fixed (ps_cluster (release_request s)) = cl_fixed (ps_cluster s) \<and>
   cl_outlier (ps_cluster (release_request s)) = cl_outlier (ps_cluster s)"
  by (auto simp: release_request_def set_budget_keeps split: prod.splits option.splits)

lemma attempt_wf:
  assumes "run_attempt up k date close name hk sm req s = Some (r, s1)" "cluster_wf (ps_cluster s)"
  shows "cluster_wf (ps_cluster (after_attempt up k r s1))"
  using assms(2) run_attempt_keeps(1,3) [OF assms(1)] by (intro after_attempt_keeps(4)) (blast intro: wf_keep)

lemma retry_loop_wf:
  assumes "retry_loop up date close name hk sm rc req attempts guard s = Some (rs, b, g', s')"
  shows "cluster_wf (ps_cluster s) \<Longrightarrow> cluster_wf (ps_cluster s')"
  using assms
proof (induction rule: retry_loop_induct)
  case (finished k guard s r s1)
  then show ?case by (intro attempt_wf)
next
  case (blocked k guard s r s1 s3)
  then show ?case using attempt_wf wf_keep [OF budget_ops_keep(1)] by blast
next
  case (unlimited k guard s r s1 s3 rs b g' s')
  then have "cluster_wf (ps_cluster s3)" using attempt_wf wf_keep [OF budget_ops_keep(1)] by blast
  with unlimited show ?case by simp
next
  case (acquired k guard s r s1 s3 rs b g' s')
  then have "cluster_wf (ps_cluster s3)" using attempt_wf wf_keep [OF budget_ops_keep(1)] by blast
  then have "cluster_wf (ps_cluster (release_retry (tick upstream_rq_retry s3)))"
    using wf_keep [OF conjI [OF budget_ops_keep(3,4)], of "tick upstream_rq_retry s3"] by simp
  with \<open>cluster_wf (ps_cluster s3)\<close> acquired show ?case by (cases guard) auto
qed

lemma after_loop_wf:
  assumes "after_loop rc ic rs blocked guard s = (p, s')" "cluster_wf (ps_cluster s)"
  shows "cluster_wf (ps_cluster s')"
proof -
  obtain s2 where s2: "s' = (if guard then release_retry s2 else s2)" "ps_cluster s2 = ps_cluster s"
    using assms(1) by (auto simp: after_loop_def Let_def)
  then show ?thesis using assms(2) wf_keep [OF conjI [OF budget_ops_keep(3,4)], of s2] by auto
qed

lemma proxy_arm_total_wf:
  assumes "cluster_wf (ps_cluster s)" "exchanges_return up"
  shows "\<exists>p s'. proxy_arm up date close name rc ic hk sm req s = Some (p, s') \<and> cluster_wf (ps_cluster s')"
proof -
  obtain q s1 where q: "acquire_request s = (q, s1)" by fastforce
  have wf1: "cluster_wf (ps_cluster s1)" using assms(1) wf_keep [OF budget_ops_keep(2) [OF q]] by blast
  from retry_loop_total [OF this assms(2)] obtain rs b g s2 where
    l: "retry_loop up date close name hk sm rc req 0 False s1 = Some (rs, b, g, s2)" by (metis prod_cases4)
  obtain p s3 where p: "after_loop rc ic rs b g s2 = (p, s3)" by fastforce
  have "cluster_wf (ps_cluster s3)" by (rule after_loop_wf [OF p retry_loop_wf [OF l wf1]])
  moreover from this have "cluster_wf (ps_cluster (release_request s3))" using wf_keep [OF release_request_keeps] by blast
  ultimately show ?thesis using q l p wf1 by (cases q) (auto simp: proxy_arm_def)
qed

text \<open>What a validated configuration gives the loop, and what every request keeps of it.\<close>

definition route_clusters :: "RouteConfiguration \<Rightarrow> string set" where
  "route_clusters rc = {ar_cluster ar | ar vh r. vh \<in> set (virtual_hosts rc) \<and> r \<in> set (vh_routes vh) \<and> route_action r = ActRoute ar}"

definition clusters_ready :: "RouteConfiguration \<Rightarrow> (string, 'addr cluster) btmap \<Rightarrow> bool" where
  "clusters_ready rc m \<longleftrightarrow> bt_wf m \<and> (\<forall>c \<in> ran (bt_get m). cluster_wf c) \<and> route_clusters rc \<subseteq> dom (bt_get m)"

definition sinks_ready :: "FileSink list \<Rightarrow> bool" where
  "sinks_ready sinks \<longleftrightarrow> (\<forall>sink \<in> set sinks. \<forall>c. sink_should_log sink c \<noteq> None)"

definition conn_ready :: "('addr, 's) conn_env \<Rightarrow> HCMConfig \<Rightarrow> ('addr, 's) conn_state \<Rightarrow> bool" where
  "conn_ready env cfg st \<longleftrightarrow>
     rc_ready (hc_runtime cfg) (hc_route_config cfg) \<and>
     clusters_ready (hc_route_config cfg) (hw_clusters (cn_world st)) \<and>
     sinks_ready (hw_access_log (cn_world st)) \<and> filters_ready (hc_route_config cfg) (cn_pipeline st) \<and>
     (\<forall>n. exchanges_return (ce_upstream env n))"

lemma routes_answer:
  assumes "rc_ready runtime rc" "vh \<in> set (virtual_hosts rc)" "r \<in> set (vh_routes vh)"
  shows "route_matches runtime path hs r \<noteq> None"
  using assms route_matches_ready unfolding rc_ready_def by blast

lemma resolve_ready:
  assumes "rc_ready runtime rc"
  shows "\<exists>m. resolve_route_in rc req runtime = Some m \<and> table_route rc (map_option (resolved_route rc) m)"
proof (cases "request_host req")
  case None
  then show ?thesis by (simp add: resolve_route_in_def table_route_def)
next
  case (Some host)
  obtain o' where o': "position_opt (\<lambda>vh. Some (vh_matches (strip_port host) vh)) (virtual_hosts rc) = Some o'"
    using position_opt_pure_total by blast
  show ?thesis
  proof (cases o')
    case None
    with Some o' show ?thesis by (simp add: resolve_route_in_def table_route_def)
  next
    case (Some i)
    then have vh: "virtual_hosts rc ! i \<in> set (virtual_hosts rc)" using o' position_opt_less by (metis nth_mem)
    with position_opt_first [of "vh_routes (virtual_hosts rc ! i)" "route_matches runtime (req_path req) (req_headers req)"]
      routes_answer [OF assms] obtain j where
      j: "position_opt (route_matches runtime (req_path req) (req_headers req)) (vh_routes (virtual_hosts rc ! i)) = Some j"
      by blast
    have "vh_routes (virtual_hosts rc ! i) ! k \<in> config_routes rc" if "j = Some k" for k
      using vh j that position_opt_less unfolding config_routes_def by (metis UN_I nth_mem)
    with j Some o' \<open>request_host req = Some host\<close> show ?thesis
      by (auto simp: resolve_route_in_def table_route_def resolved_route_def split: option.split)
  qed
qed

lemma dispatch_action_proxy:
  assumes "dispatch_action date close vh r req = (Proxy name x y z w, req')"
  shows "req' = req \<and> (\<exists>ar. route_action r = ActRoute ar \<and> ar_cluster ar = name)"
  using assms by (auto simp: dispatch_action_def Let_def split: RouteAction.splits)

lemma build_response_ready:
  assumes "rc_ready runtime rc"
  shows "\<exists>o' req'. build_response_in date rc req close runtime = Some (o', req') \<and>
     (\<forall>name x y z w. o' = Proxy name x y z w \<longrightarrow> name \<in> route_clusters rc \<and> find_header (req_headers req') ''host'' \<noteq> None)"
proof (cases "request_host req")
  case None
  then show ?thesis by (simp add: build_response_in_def)
next
  case (Some host)
  then have host: "find_header (req_headers req) ''host'' \<noteq> None" by (auto simp: request_host_def split: option.splits)
  show ?thesis
  proof (cases "find (vh_matches (strip_port host)) (virtual_hosts rc)")
    case None
    with Some show ?thesis by (simp add: build_response_in_def)
  next
    case (Some vh)
    then have vh: "vh \<in> set (virtual_hosts rc)" by (auto simp: find_Some_iff)
    let ?f = "route_matches runtime (req_path req) (req_headers req)"
    have f: "find_opt ?f (vh_routes vh) = Some (find (\<lambda>x. ?f x = Some True) (vh_routes vh))"
      using find_opt_total [of "vh_routes vh" ?f] routes_answer [OF assms vh] by blast
    show ?thesis
    proof (cases "find (\<lambda>x. ?f x = Some True) (vh_routes vh)")
      case None
      with f Some \<open>request_host req = Some host\<close> show ?thesis by (simp add: build_response_in_def)
    next
      case (Some r)
      then have r: "r \<in> set (vh_routes vh)" by (auto simp: find_Some_iff)
      obtain o' req' where d: "dispatch_action date close vh r req = (o', req')" by fastforce
      have "build_response_in date rc req close runtime = Some (o', req')"
        using f Some d \<open>find (vh_matches _) _ = Some vh\<close> \<open>request_host req = Some host\<close>
        by (simp add: build_response_in_def)
      moreover have "name \<in> route_clusters rc \<and> find_header (req_headers req') ''host'' \<noteq> None"
        if "o' = Proxy name x y z w" for name x y z w
        using dispatch_action_proxy [OF d [unfolded that]] vh r host unfolding route_clusters_def by blast
      ultimately show ?thesis by blast
    qed
  qed
qed

lemma dispatch_path_ready:
  assumes "clusters_ready rc (hw_clusters hw)"
    and "\<And>name x y z w. path = PathMatch (Proxy name x y z w) \<Longrightarrow>
      name \<in> route_clusters rc \<and> find_header (req_headers req) ''host'' \<noteq> None"
    and "exchanges_return up"
  shows "\<exists>r hw'. dispatch_path up date close path req hw = Some (r, hw') \<and>
    clusters_ready rc (hw_clusters hw') \<and> hw_access_log hw' = hw_access_log hw"
proof (cases path)
  case (SynthFromDecode resp details headers_only)
  then show ?thesis using assms(1) by (simp add: dispatch_path_def)
next
  case (PathMatch o')
  show ?thesis
  proof (cases o')
    case (Synth resp details)
    then show ?thesis using PathMatch assms(1) by (simp add: dispatch_path_def)
  next
    case (Proxy name rc' ic hk sm)
    from assms(2) PathMatch Proxy have n: "name \<in> route_clusters rc" "find_header (req_headers req) ''host'' \<noteq> None"
      by blast+
    then obtain c host where c: "bt_get (hw_clusters hw) name = Some c" "find_header (req_headers req) ''host'' = Some host"
      using assms(1) unfolding clusters_ready_def by blast
    then have "cluster_wf c" using assms(1) unfolding clusters_ready_def by (blast intro: ranI)
    then obtain p s where p: "proxy_arm up date close name rc' ic hk sm req
        \<lparr>ps_cluster = c, ps_pools = hw_pools hw, ps_stats = hw_stats hw\<rparr> = Some (p, s)" "cluster_wf (ps_cluster s)"
      using proxy_arm_total_wf [of "\<lparr>ps_cluster = c, ps_pools = hw_pools hw, ps_stats = hw_stats hw\<rparr>"
          up date close name rc' ic hk sm req] assms(3) by auto
    have wf: "bt_wf (hw_clusters hw)" using assms(1) by (simp add: clusters_ready_def)
    then have get: "bt_get (bt_insert name (ps_cluster s) (hw_clusters hw)) = (bt_get (hw_clusters hw))(name \<mapsto> ps_cluster s)"
      by auto
    have "clusters_ready rc (bt_insert name (ps_cluster s) (hw_clusters hw))"
      unfolding clusters_ready_def get using assms(1) p(2) wf bt_wf_insert
      by (auto simp: clusters_ready_def ran_def split: if_splits)
    then show ?thesis using PathMatch Proxy c p(1) by (simp add: dispatch_path_def hw_set_stats_def)
  qed
qed


lemma request_path_ready:
  assumes "rc_ready (hc_runtime cfg) (hc_route_config cfg)"
  shows "\<exists>path req'. request_path date cfg close chunked decision req = Some (path, req') \<and>
    (\<forall>name x y z w. path = PathMatch (Proxy name x y z w) \<longrightarrow>
       name \<in> route_clusters (hc_route_config cfg) \<and> find_header (req_headers req') ''host'' \<noteq> None)"
  using build_response_ready [OF assms, of date req close]
  by (cases decision) (auto simp: request_path_def)

lemma answer_request_ready:
  assumes "rc_ready (hc_runtime cfg) (hc_route_config cfg)"
    and "clusters_ready (hc_route_config cfg) (hw_clusters hw)" "filters_ready (hc_route_config cfg) p0"
    and "table_route (hc_route_config cfg) route" "exchanges_return (ce_upstream env n)"
    and p: "p = pipeline_apply_route p0 route"
  shows "\<exists>a p' hw'. answer_request env cfg n close chunked req p hw = Some (a, p', hw') \<and>
    clusters_ready (hc_route_config cfg) (hw_clusters hw') \<and> hw_access_log hw' = hw_access_log hw \<and>
    filters_ready (hc_route_config cfg) p'"
proof -
  let ?q = "\<lparr>fr_method = req_method req, fr_path = req_path req, fr_headers = req_headers req, fr_body = req_body req,
         fr_dynamic_metadata = []\<rparr>"
  obtain d p1 fr w where dec: "pipeline_decode (ce_jwt env) p ?q (hw_world hw) = Some (d, p1, fr, w)"
    using pipeline_decode_ready [OF assms(3,4)] unfolding p by (metis not_None_eq prod_cases4)
  define req1 where "req1 = req\<lparr>req_method := fr_method fr, req_path := fr_path fr, req_headers := fr_headers fr, req_body := fr_body fr\<rparr>"
  have run: "run_decode_filters (ce_jwt env) p req (hw_world hw) = Some (d, fr_dynamic_metadata fr, p1, req1, w)"
    using dec by (simp add: run_decode_filters_def req1_def)
  obtain path req2 where path: "request_path (ce_date env n) cfg close chunked d req1 = Some (path, req2)"
    "\<And>name x y z w. path = PathMatch (Proxy name x y z w) \<Longrightarrow>
       name \<in> route_clusters (hc_route_config cfg) \<and> find_header (req_headers req2) ''host'' \<noteq> None"
    using request_path_ready [OF assms(1), of "ce_date env n" close chunked d req1] by blast
  obtain r hw1 where r: "dispatch_path (ce_upstream env n) (ce_date env n) close path req2 (hw\<lparr>hw_world := w\<rparr>) = Some (r, hw1)"
    "clusters_ready (hc_route_config cfg) (hw_clusters hw1)" "hw_access_log hw1 = hw_access_log hw"
    using dispatch_path_ready [of "hc_route_config cfg" "hw\<lparr>hw_world := w\<rparr>" path req2 "ce_upstream env n" "ce_date env n" close]
      assms(2,5) path(2) by auto
  obtain r1 p2 where e: "run_encode_filters (ce_date env n) close p1 r = (r1, p2)" by fastforce
  have "map instance_base p2 = map instance_base p1"
    using e by (auto simp: run_encode_filters_def Let_def split: prod.splits Decision.splits dest: pipeline_encode_keeps(1))
  also have "\<dots> = map instance_base p" by (rule pipeline_base_decode [OF dec])
  also have "\<dots> = map instance_base p0" unfolding p by (rule pipe.base_apply)
  finally have "filters_ready (hc_route_config cfg) p2" using filters_ready_base [of p0 p2] assms(3) by metis
  then show ?thesis using run path(1) r e by (simp add: answer_request_def)
qed

lemma hw_inc_frame [simp]:
  "hw_clusters (hw_inc h hw) = hw_clusters hw" "hw_access_log (hw_inc h hw) = hw_access_log hw"
  "hw_clusters ((hw_inc h ^^ k) hw) = hw_clusters hw" "hw_access_log ((hw_inc h ^^ k) hw) = hw_access_log hw"
  by (induction k) (simp_all add: hw_inc_def hw_set_stats_def)

lemma set_clock_frame [simp]:
  "hw_clusters (set_clock t hw) = hw_clusters hw" "hw_access_log (set_clock t hw) = hw_access_log hw"
  by (simp_all add: set_clock_def)

lemma count_class_frame [simp]:
  "hw_clusters (count_class st d status hw) = hw_clusters hw"
  "hw_access_log (count_class st d status hw) = hw_access_log hw"
  by (simp_all add: count_class_def split: option.split)

lemma sink_filter_kept: "sink_should_log (sink\<lparr>fs_handle := x\<rparr>) c = sink_should_log sink c"
  by (simp add: sink_should_log_def)

lemma emit_loop_ready:
  assumes "sinks_ready sinks"
  shows "\<exists>ss t f. emit_loop wo k r c sinks = Some (ss, t, f) \<and> sinks_ready ss"
proof -
  have "\<forall>sink \<in> set sinks. sink_should_log sink c \<noteq> None" using assms by (auto simp: sinks_ready_def)
  from emit_loop_spec [OF this log_render_total, of wo k] obtain ss t f where
    e: "emit_loop wo k r c sinks = Some (ss, t, f)" "length ss = length sinks"
      "\<forall>i < length sinks. ss ! i =
        (if sink_should_log (sinks ! i) c = Some True \<and> wo (k + i)
         then (sinks ! i)\<lparr>fs_handle := fs_handle (sinks ! i) @ the (log_render (fs_format (sinks ! i)) r)\<rparr>
         else sinks ! i)" by blast
  have "sink_should_log s c' \<noteq> None" if s: "s \<in> set ss" for s c'
  proof -
    obtain i where i: "i < length ss" "s = ss ! i" using s by (auto simp: in_set_conv_nth)
    then have "sink_should_log s c' = sink_should_log (sinks ! i) c'" using e(2,3) by (simp add: sink_filter_kept)
    then show ?thesis using assms i(1) e(2) by (auto simp: sinks_ready_def)
  qed
  then show ?thesis using e(1) by (auto simp: sinks_ready_def)
qed

lemma log_request_ready:
  assumes "sinks_ready (hw_access_log hw)"
  shows "\<exists>hw'. log_request env st n hs record hw = Some hw' \<and> sinks_ready (hw_access_log hw') \<and>
    hw_clusters hw' = hw_clusters hw"
proof -
  obtain ss t f where "emit_loop (ce_log_write env n) 0 record (record_context record hs) (hw_access_log hw) = Some (ss, t, f)"
    "sinks_ready ss" using emit_loop_ready [OF assms] by blast
  then show ?thesis by (simp add: log_request_def sinks_ready_def)
qed

lemma serve_request_ready:
  assumes "conn_ready env cfg st"
  shows "\<exists>st' r. serve_request env cfg req st = Some (st', r) \<and> (r = None \<longrightarrow> conn_ready env cfg st')"
proof -
  note ready = assms [unfolded conn_ready_def]
  let ?hw = "set_clock (ce_clock env (cn_served st)) (hw_inc (downstream_rq_total (hc_stats cfg)) (cn_world st))"
  obtain m where m: "resolve_route_in (hc_route_config cfg) req (hc_runtime cfg) = Some m"
      "table_route (hc_route_config cfg) (map_option (resolved_route (hc_route_config cfg)) m)"
    using resolve_ready ready by blast
  let ?route = "map_option (resolved_route (hc_route_config cfg)) m"
  let ?p = "pipeline_apply_route (cn_pipeline st) ?route"
  show ?thesis
  proof (cases "parse_content_length (req_headers req)")
    case (Inl e)
    then show ?thesis by (simp add: serve_request_def serve_sized_def Let_def)
  next
    case (Inr len)
    obtain body buf s where b: "read_request_body (ce_spare env) len (drop (req_bytes_consumed req) (cn_buf st)) (cn_in st)
        = (body, buf, s)" by (metis prod_cases3)
    consider (fail) e where "body = Inl e" | (idle) "body = Inr None" | (read) by' where "body = Inr (Some by')"
      by (cases body; cases "projr body") auto
    then show ?thesis
    proof cases
      case read
      obtain a p' hw1 where a: "answer_request env cfg (cn_served st) (wants_close req)
          (has_chunked_transfer_encoding (req_headers req)) (req\<lparr>req_body := Some by'\<rparr>) ?p ?hw = Some (a, p', hw1)"
        "clusters_ready (hc_route_config cfg) (hw_clusters hw1)" "hw_access_log hw1 = hw_access_log (cn_world st)"
        "filters_ready (hc_route_config cfg) p'"
        using answer_request_ready [of cfg ?hw "cn_pipeline st" ?route env "cn_served st" ?p] ready m(2) by fastforce
      obtain w sent where w: "write_to_buf (ce_write env (cn_served st)) (an_response a) = (w, sent)" by fastforce
      let ?hw1 = "count_class (hc_stats cfg) (ro_details (an_reply a)) (resp_status (an_response a)) hw1"
      obtain hw2 where l: "log_request env (hc_stats cfg) (cn_served st) (req_headers (an_request a))
          (log_record env (cn_served st) (an_request a) ?route (an_metadata a) len (an_reply a) (an_response a)) ?hw1 = Some hw2" "sinks_ready (hw_access_log hw2)" "hw_clusters hw2 = hw_clusters hw1"
        using log_request_ready [of ?hw1] ready a(3) by fastforce
      show ?thesis
        using Inr m b read a w l ready
        by (cases w) (auto simp: serve_request_def serve_sized_def Let_def conn_ready_def)
    qed (use Inr m b in \<open>auto simp: serve_request_def serve_sized_def Let_def\<close>)
  qed
qed

lemma serve_step_ready:
  assumes "conn_ready env cfg st"
  shows "\<exists>st' r. serve_step env cfg st = Some (st', r) \<and> (r = None \<longrightarrow> conn_ready env cfg st')"
proof -
  obtain st1 r1 where rh: "read_head env st = (st1, r1)" by fastforce
  have "conn_ready env cfg st1"
    using rh assms by (auto simp: read_head_def conn_ready_def split: prod.splits read_result.splits if_splits)
  then show ?thesis using serve_request_ready [OF assms] rh
    by (auto simp: serve_step_def split: sum.split option.split)
qed

text \<open>
  C6. On a ready configuration a connection never panics, whatever arrives on it, whatever connects, exchanges and
  writes return and whatever the log files do: it ends with an error or a clean close. Ready means: the routes are
  validated and their clusters exist with aligned endpoint arrays; the access logs are validated; the matchers the
  filters consult are compiled, which a validated chain gives except for regular expressions in fault, JWT, CORS and CSRF
  matchers (lemma \<open>pipeline_build_ready\<close>); and the client does not panic on what an upstream sends, which it does on an
  announced body or chunk too large to address (lemma \<open>client_exchange_returns\<close>).
\<close>
theorem connection_never_panics:
  assumes "httparse_request (ce_parser env)" "conn_ready env cfg st"
  shows "\<exists>st' r. serve_connection env cfg st = Some (st', Ended r)"
  using assms(2)
proof (induction st rule: wf_induct [OF wf_measures [of "[\<lambda>st. length (unread st), \<lambda>st. length (incoming (cn_in st))]"]])
  case (1 st)
  from serve_step_ready [OF "1.prems"] obtain st1 r where
    s: "serve_step env cfg st = Some (st1, r)" "r = None \<longrightarrow> conn_ready env cfg st1" by blast
  show ?case
  proof (cases r)
    case None
    with serve_step_progress [OF assms(1)] s "1.IH" have "\<exists>st' r. serve_connection env cfg st1 = Some (st', Ended r)" by blast
    with s None show ?thesis by (simp add: serve_connection.simps [of env cfg st])
  next
    case (Some e)
    with s show ?thesis by (simp add: serve_connection.simps [of env cfg st])
  qed
qed


section \<open>What is left of a chunked request\<close>

lemma no_content_length:
  assumes "\<not> has_header ''content-length'' hs"
  shows "parse_content_length hs = Inr 0"
proof -
  have "content_length_scan seen hs = Inr (case seen of None \<Rightarrow> 0 | Some n \<Rightarrow> n)" for seen
    using assms by (induction seen hs rule: content_length_scan.induct) (auto simp: has_header_def is_header_def)
  then show ?thesis by (simp add: parse_content_length_def)
qed

text \<open>Without filters a chunked request is answered 501 before it is routed.\<close>

lemma router_only_chunked:
  assumes "answer_request env cfg n close True req (pipeline_apply_route [IRouter] route) hw = Some (a, p', hw')"
  shows "an_response a = fst (apply_grpc_local_reply (synth_status (ce_date env n) 501 close) (req_headers req))"
  using assms
  by (cases "synth_status (ce_date env n) 501 close")
    (auto simp: answer_request_def run_decode_filters_def pipeline_apply_route_def instance_apply_route_def
      instance_decode_def request_path_def dispatch_path_def run_encode_filters_def pipeline_encode_def
      instance_encode_def finish_reply_def local_reply_def response_of_def Let_def split: prod.splits)

text \<open>
  C7. A request with a chunked transfer coding and no \<open>Content-Length\<close>, on a connection without filters that goes on
  after it: it was answered 501 (or what that is for gRPC), nothing of its body was read, and when the body bytes in
  the buffer parse as a request head, the next step of the connection serves them as a request of their own.
\<close>
theorem chunked_body_is_next_request:
  assumes "httparse_request (ce_parser env)" "parse_request (ce_parser env) (cn_buf st) = Inr (Some req)"
    and "has_chunked_transfer_encoding (req_headers req)" "\<not> has_header ''content-length'' (req_headers req)"
    and "cn_pipeline st = [IRouter]" "serve_step env cfg st = Some (st', None)"
  shows "let n = req_bytes_consumed req;
       resp = fst (apply_grpc_local_reply (synth_status (ce_date env (cn_served st)) 501 False) (req_headers req)) in
     cn_out st' = cn_out st @ serialize_response_head resp @ resp_body resp
     \<and> cn_buf st' = drop n (cn_buf st) \<and> cn_in st' = cn_in st
     \<and> (\<forall>req'. parse_request (ce_parser env) (drop n (cn_buf st)) = Inr (Some req') \<longrightarrow>
          serve_step env cfg st' = serve_request env cfg req' st')"
proof -
  have sized: "serve_sized env cfg req 0 st = Some (st', None)"
    using assms(2,6) no_content_length [OF assms(4)] by (simp add: serve_step_def serve_request_def)
  then obtain m where m: "resolve_route_in (hc_route_config cfg) req (hc_runtime cfg) = Some m"
    by (auto simp: serve_sized_def Let_def split: option.splits)
  let ?p = "pipeline_apply_route (cn_pipeline st) (map_option (resolved_route (hc_route_config cfg)) m)"
  let ?hw = "set_clock (ce_clock env (cn_served st)) (hw_inc (downstream_rq_total (hc_stats cfg)) (cn_world st))"
  obtain a p' hw1 where a: "answer_request env cfg (cn_served st) (wants_close req) True (req\<lparr>req_body := Some []\<rparr>) ?p ?hw
      = Some (a, p', hw1)"
    using sized m assms(3) by (auto simp: serve_sized_def read_request_body_def Let_def split: option.splits)
  obtain w sent where w: "write_to_buf (ce_write env (cn_served st)) (an_response a) = (w, sent)" by fastforce
  have *: "w = Inr () \<and> \<not> wants_close req \<and> cn_buf st' = drop (req_bytes_consumed req) (cn_buf st) \<and>
      cn_in st' = cn_in st \<and> cn_out st' = cn_out st @ sent"
    using sized m a w assms(3)
    by (auto simp: serve_sized_def read_request_body_def Let_def split: option.splits sum.splits if_splits)
  then have "sent = serialize_response_head (an_response a) @ resp_body (an_response a)"
    using w write_head_and_body_sent [of "ce_write env (cn_served st)"] by (auto simp: write_to_buf_def)
  moreover have "an_response a = fst (apply_grpc_local_reply (synth_status (ce_date env (cn_served st)) 501 False) (req_headers req))"
    using router_only_chunked [OF a [unfolded assms(5)]] * by simp
  ultimately show ?thesis using * by (simp add: Let_def serve_step_def)
qed

section \<open>A connection in the small\<close>

text \<open>A parser of heads of forty bytes with two rows: the host, and a length or a transfer coding.\<close>

definition demo_parser :: request_parser where
  "demo_parser buf =
     (if length buf < 40 then Inr Partial
      else Inr (Complete \<lparr>hq_end = 40, hq_method = Some ''GET'', hq_path = Some ''/api'', hq_version = Some 1,
        hq_spans = [(0, 4, 6, 1), (8, if buf ! 8 = 116 then 17 else 14, 28, if buf ! 8 = 116 then 7 else 1)]\<rparr>))"

definition demo_head :: "string \<Rightarrow> string \<Rightarrow> bytes" where
  "demo_head name v = as_bytes (take 40 (''host: x '' @ take 20 (name @ replicate 20 CHR '' '') @ v @ replicate 40 CHR '' ''))"

definition demo_upstreams :: "nat \<Rightarrow> (nat, nat) upstream" where
  "demo_upstreams n = \<lparr>up_connect = (\<lambda>_ _. Inl ()), up_exchange = (\<lambda>_ _ _. Some (Inl ())), up_elapsed_ms = (\<lambda>_. 0), up_now = (\<lambda>_. 0)\<rparr>"

definition demo_env :: "(nat, nat) conn_env" where
  "demo_env =
     \<lparr>ce_parser = demo_parser, ce_spare = (\<lambda>_. 3), ce_jwt = demo_jwt_env, ce_clock = (\<lambda>_. (0, 0)),
      ce_date = (\<lambda>_. ''d''), ce_upstream = demo_upstreams, ce_show_addr = show_nat, ce_write = (\<lambda>_. [7, 1000]),
      ce_start_time = (\<lambda>_. 0), ce_duration = (\<lambda>_. 0), ce_log_write = (\<lambda>_ _. True)\<rparr>"

definition demo_cfg :: HCMConfig where
  "demo_cfg =
     \<lparr>hc_route_config = demo_rc, hc_runtime = rs_runtime demo_scope,
      hc_stats = \<lparr>downstream_rq_total = 0, downstream_rq_2xx = 1, downstream_rq_3xx = 2, downstream_rq_4xx = 3,
        downstream_rq_5xx = 4, access_logs_total = 5, access_logs_failed = 6\<rparr>\<rparr>"

definition demo_conn :: "bytes \<Rightarrow> socket \<Rightarrow> (nat, nat) conn_state" where
  "demo_conn buf s =
     \<lparr>cn_buf = buf, cn_in = s, cn_out = [], cn_served = 0, cn_pipeline = [IRouter],
      cn_world = \<lparr>hw_world = \<lparr>w_stats = \<lparr>reg_map = [], counters = replicate 7 0, gauges = []\<rparr>, w_buckets = [], w_now = 0, w_unix = 0\<rparr>,
        hw_clusters = [], hw_pools = None, hw_access_log = [demo_sink]\<rparr>\<rparr>"

lemma demo_parser_ok: "httparse_request (ce_parser demo_env)"
  by (simp add: httparse_request_def demo_env_def demo_parser_def)

lemma demo_ready:
  assumes "list_all instance_ready p"
  shows "conn_ready demo_env demo_cfg ((demo_conn buf s)\<lparr>cn_pipeline := p\<rparr>)"
proof -
  have "rc_ready (rs_runtime demo_scope) demo_rc" by (rule validate_route_config_ready [OF demo_rc_valid])
  moreover have "route_clusters demo_rc = {}" by (auto simp: route_clusters_def demo_rc_def demo_route_def)
  moreover have "route_policies_ready demo_rc"
    by (auto simp: route_policies_ready_def config_routes_def demo_rc_def demo_route_def bt_get_def bt_empty_def)
  ultimately show ?thesis using assms
    by (simp add: conn_ready_def demo_cfg_def demo_conn_def clusters_ready_def bt_wf_def bt_get_def [abs_def] sinks_ready_def
        sink_should_log_def demo_sink_def demo_env_def filters_ready_def exchanges_return_def demo_upstreams_def)
qed

lemma demo_request:
  "parse_request (ce_parser demo_env) (demo_head ''content-length'' ''2'' @ [1]) = Inr (Some
     \<lparr>req_method = ''GET'', req_path = ''/api'', req_version = Http11,
      req_headers = [(''host'', ''x''), (''content-length'', ''2'')], req_bytes_consumed = 40, req_body = None\<rparr>)"
  by code_simp

text \<open>One byte of the body is buffered, the other is the first of two that arrive later.\<close>

lemma demo_sized:
  "map_option (\<lambda>(st, r). (cn_buf st, cn_in st, cn_served st, counters (hw_stats (cn_world st)), r))
     (serve_sized demo_env demo_cfg
       \<lparr>req_method = ''GET'', req_path = ''/api'', req_version = Http11,
        req_headers = [(''host'', ''x''), (''content-length'', ''2'')], req_bytes_consumed = 40, req_body = None\<rparr> 2
       (demo_conn (demo_head ''content-length'' ''2'' @ [1]) [Arrived [2, 3]]))
   = Some ([], [Arrived [3]], 1, [1, 1, 0, 0, 0, 1, 0], None)"
  by code_simp

lemma request_framing_exact_witness:
  "\<exists>st'. serve_step demo_env demo_cfg (demo_conn (demo_head ''content-length'' ''2'' @ [1]) [Arrived [2, 3]]) = Some (st', None) \<and>
     unread st' = [3]"
proof -
  let ?st = "demo_conn (demo_head ''content-length'' ''2'' @ [1]) [Arrived [2, 3]]"
  let ?req = "\<lparr>req_method = ''GET'', req_path = ''/api'', req_version = Http11,
      req_headers = [(''host'', ''x''), (''content-length'', ''2'')], req_bytes_consumed = 40, req_body = None\<rparr>"
  have p: "parse_request (ce_parser demo_env) (cn_buf ?st) = Inr (Some ?req)"
    using demo_request by (simp add: demo_conn_def)
  have len: "parse_content_length (req_headers ?req) = Inr 2"
    by (simp add: parse_content_length_def parse_unsigned_def parse_digits_def is_ascii_digit_def byte_of_def
        read_nat_def digit_val_def eq_ignore_ascii_case_def str_to_ascii_lowercase_def to_ascii_lowercase_def
        is_ascii_uppercase_def)
  have "serve_step demo_env demo_cfg ?st = serve_sized demo_env demo_cfg ?req 2 ?st"
    using p len by (simp add: serve_step_def serve_request_def)
  with demo_sized obtain st' where s: "serve_step demo_env demo_cfg ?st = Some (st', None)" by auto
  from request_framing_exact [OF demo_parser_ok p s] len
  have "unread st' = drop 42 (unread ?st)" by auto
  also have "\<dots> = [3]" by code_simp
  finally show ?thesis using s by blast
qed

definition smuggled :: "(nat, nat) conn_state" where
  "smuggled = demo_conn (demo_head ''transfer-encoding'' ''chunked'' @ demo_head ''content-length'' ''2'' @ [1]) [Arrived [2, 3]]"

lemma smuggled_step:
  "map_option (\<lambda>(st, r). (cn_buf st, cn_in st, cn_served st, counters (hw_stats (cn_world st)), r)) (serve_step demo_env demo_cfg smuggled)
   = Some (demo_head ''content-length'' ''2'' @ [1], [Arrived [2, 3]], 1, [1, 0, 0, 0, 1, 1, 0], None)"
  by code_simp

text \<open>The head in the body of the first request is served as the second request.\<close>

lemma chunked_body_is_next_request_witness:
  "\<exists>st' req'. serve_step demo_env demo_cfg smuggled = Some (st', None) \<and>
     req_headers req' = [(''host'', ''x''), (''content-length'', ''2'')] \<and>
     serve_step demo_env demo_cfg st' = serve_request demo_env demo_cfg req' st'"
proof -
  let ?req = "\<lparr>req_method = ''GET'', req_path = ''/api'', req_version = Http11,
      req_headers = [(''host'', ''x''), (''transfer-encoding'', ''chunked'')], req_bytes_consumed = 40, req_body = None\<rparr>"
  have p: "parse_request (ce_parser demo_env) (cn_buf smuggled) = Inr (Some ?req)" by code_simp
  have c: "has_chunked_transfer_encoding (req_headers ?req)" "\<not> has_header ''content-length'' (req_headers ?req)"
    by code_simp+
  have r: "cn_pipeline smuggled = [IRouter]" by (simp add: smuggled_def demo_conn_def)
  have d: "drop (req_bytes_consumed ?req) (cn_buf smuggled) = demo_head ''content-length'' ''2'' @ [1]" by code_simp
  from smuggled_step obtain st' where s: "serve_step demo_env demo_cfg smuggled = Some (st', None)" by auto
  let ?req' = "\<lparr>req_method = ''GET'', req_path = ''/api'', req_version = Http11,
      req_headers = [(''host'', ''x''), (''content-length'', ''2'')], req_bytes_consumed = 40, req_body = None\<rparr>"
  note * = chunked_body_is_next_request [OF demo_parser_ok p c r s, unfolded Let_def d]
  have "serve_step demo_env demo_cfg st' = serve_request demo_env demo_cfg ?req' st'"
    by (rule mp [OF spec [OF conjunct2 [OF conjunct2 [OF conjunct2 [OF *]]]] demo_request])
  then show ?thesis using s by (intro exI [of _ st'] exI [of _ ?req'] conjI) simp_all
qed

text \<open>A chain with CORS, CSRF and a router, none of them with a regular expression.\<close>

definition demo_chain :: FilterPipeline where
  "demo_chain =
     [ICors \<lparr>origin_valid = 0, origin_invalid = 1, cors_active_policy = None, decorate_origin = None\<rparr>,
      ICsrf \<lparr>request_valid = 2, request_invalid = 3, missing_source_origin = 4,
        csrf_base_policy = \<lparr>csp_enabled = True, csp_additional_origins = [\<lparr>sm_mode = Exact ''x'', sm_ignore_case = False\<rparr>]\<rparr>,
        csrf_active_policy = \<lparr>csp_enabled = True, csp_additional_origins = []\<rparr>\<rparr>, IRouter]"

lemma connection_never_panics_witness:
  "\<exists>st' r. serve_connection demo_env demo_cfg
     ((demo_conn (demo_head ''content-length'' ''2'') [Arrived [2, 3]])\<lparr>cn_pipeline := demo_chain\<rparr>) = Some (st', Ended r)"
proof -
  have "list_all instance_ready demo_chain" by (simp add: demo_chain_def instance_ready_def sm_ready_def)
  from connection_never_panics [OF demo_parser_ok demo_ready [OF this]] show ?thesis .
qed

lemma connection_ends_witness:
  "\<exists>st' e. serve_connection demo_env demo_cfg (demo_conn [1, 2] [Arrived [2, 3]]) = Some (st', e)"
  by (rule connection_ends [OF demo_parser_ok])

end
