(* ===== verification/Drain.thy ===== *)
theory Drain
  imports Conn_Pool
begin

text \<open>
  \<open>envoy-listener/src/drain.rs\<close>: the drain state of the process, written by the administration endpoints and watched
  by every accept loop. First the calls one at a time, then any number of tasks whose steps are the atomic operations of
  the source: the compare-exchanges on the stage, the gauge writes, \<open>notify_waiters\<close>, the snapshot a \<open>notified()\<close> future
  takes when it is created, and the load of the stage behind it. The number of \<open>notify_waiters\<close> calls stands for the
  \<open>Notify\<close>: a \<open>notified()\<close> future completes when the number differs from its snapshot, as \<open>tokio\<close> documents it.
\<close>

section \<open>The stages\<close>

datatype DrainStage = Live | HealthcheckFailing | Draining

fun stage_u8 :: "DrainStage \<Rightarrow> u8" where
  "stage_u8 Live = 0"
| "stage_u8 HealthcheckFailing = 1"
| "stage_u8 Draining = 2"

fun stage_i64 :: "DrainStage \<Rightarrow> i64" where
  "stage_i64 Live = 0"
| "stage_i64 HealthcheckFailing = 1"
| "stage_i64 Draining = 2"

definition stage_from_u8 :: "u8 \<Rightarrow> DrainStage option" where
  "stage_from_u8 n =
     (if n = 0 then Some Live else if n = 1 then Some HealthcheckFailing
      else if n = 2 then Some Draining else None)"

section \<open>The calls\<close>

record DrainState =
  ds_stage :: u8
  ds_notify :: nat
  server_live :: nat
  server_state :: nat

text \<open>\<open>None\<close> is the panic of an \<open>expect\<close>.\<close>

definition drain_new :: "stats \<Rightarrow> (DrainState \<times> stats) option" where
  "drain_new st =
     (case register_gauge ''server.live'' st of
        (Inl _, _) \<Rightarrow> None
      | (Inr live, st1) \<Rightarrow>
          (case register_gauge ''server.state'' st1 of
             (Inl _, _) \<Rightarrow> None
           | (Inr state, st2) \<Rightarrow>
               Some (\<lparr>ds_stage = stage_u8 Live, ds_notify = 0, server_live = live, server_state = state\<rparr>,
                 gauge_set state (stage_i64 Live) (gauge_set live 1 st2))))"

definition drain_current :: "DrainState \<Rightarrow> DrainStage option" where
  "drain_current ds = stage_from_u8 (ds_stage ds)"

definition compare_exchange :: "DrainStage \<Rightarrow> DrainStage \<Rightarrow> DrainState \<Rightarrow> bool \<times> DrainState" where
  "compare_exchange current new ds =
     (if ds_stage ds = stage_u8 current then (True, ds\<lparr>ds_stage := stage_u8 new\<rparr>) else (False, ds))"

definition fail_healthcheck :: "DrainState \<times> stats \<Rightarrow> DrainState \<times> stats" where
  "fail_healthcheck x =
     (let (ok, ds) = compare_exchange Live HealthcheckFailing (fst x) in
      if ok then (ds, gauge_set (server_state ds) (stage_i64 HealthcheckFailing) (gauge_set (server_live ds) 0 (snd x)))
      else (ds, snd x))"

definition ok_healthcheck :: "DrainState \<times> stats \<Rightarrow> DrainState \<times> stats" where
  "ok_healthcheck x =
     (let (ok, ds) = compare_exchange HealthcheckFailing Live (fst x) in
      if ok then (ds, gauge_set (server_state ds) (stage_i64 Live) (gauge_set (server_live ds) 1 (snd x)))
      else (ds, snd x))"

definition notify_waiters :: "DrainState \<Rightarrow> DrainState" where
  "notify_waiters ds = ds\<lparr>ds_notify := ds_notify ds + 1\<rparr>"

definition drain :: "DrainState \<times> stats \<Rightarrow> DrainState \<times> stats" where
  "drain x =
     (let (from_live, ds1) = compare_exchange Live Draining (fst x);
          (from_hc, ds2) = (if \<not> from_live then compare_exchange HealthcheckFailing Draining ds1 else (False, ds1)) in
      if from_live \<or> from_hc then
        (notify_waiters ds2,
         gauge_set (server_state ds2) (stage_i64 Draining) (gauge_set (server_live ds2) 0 (snd x)))
      else (ds2, snd x))"

datatype drain_future = ReadyNow | Notified nat

definition drain_signal :: "DrainState \<Rightarrow> drain_future" where
  "drain_signal ds = (let notified = ds_notify ds in
     if ds_stage ds = stage_u8 Draining then ReadyNow else Notified notified)"

definition future_ready :: "DrainState \<Rightarrow> drain_future \<Rightarrow> bool" where
  "future_ready ds f = (case f of ReadyNow \<Rightarrow> True | Notified n \<Rightarrow> ds_notify ds \<noteq> n)"

section \<open>Concurrent callers\<close>

datatype drain_call = CallFail | CallOk | CallDrain

datatype drain_pc =
    DIdle | Returned drain_call
  | FailWon | FailLive
  | OkWon | OkLive
  | NotLive | DrainWon | DrainLive | DrainGauges
  | Snapshot nat | Parked nat | Signalled

definition dpc_free :: "drain_pc \<Rightarrow> bool" where
  "dpc_free p = (case p of DIdle \<Rightarrow> True | Returned _ \<Rightarrow> True | Signalled \<Rightarrow> True | _ \<Rightarrow> False)"

record drain_sys =
  dsys :: DrainState
  dsys_stats :: stats
  dsys_pc :: "nat \<Rightarrow> drain_pc"

definition dgoto :: "nat \<Rightarrow> drain_pc \<Rightarrow> drain_sys \<Rightarrow> drain_sys" where
  "dgoto t p s = s\<lparr>dsys_pc := (dsys_pc s)(t := p)\<rparr>"

definition set_live :: "i64 \<Rightarrow> drain_sys \<Rightarrow> drain_sys" where
  "set_live v s = s\<lparr>dsys_stats := gauge_set (server_live (dsys s)) v (dsys_stats s)\<rparr>"

definition set_state :: "DrainStage \<Rightarrow> drain_sys \<Rightarrow> drain_sys" where
  "set_state g s = s\<lparr>dsys_stats := gauge_set (server_state (dsys s)) (stage_i64 g) (dsys_stats s)\<rparr>"

text \<open>\<open>cancel\<close> is the drop of a pending future, when another arm of the accept loop's \<open>select!\<close> wins.\<close>

inductive drain_step :: "drain_sys \<Rightarrow> drain_sys \<Rightarrow> bool" where
  fail_won: "dpc_free (dsys_pc s t) \<Longrightarrow> compare_exchange Live HealthcheckFailing (dsys s) = (True, ds) \<Longrightarrow>
    drain_step s (dgoto t FailWon (s\<lparr>dsys := ds\<rparr>))"
| fail_lost: "dpc_free (dsys_pc s t) \<Longrightarrow> compare_exchange Live HealthcheckFailing (dsys s) = (False, ds) \<Longrightarrow>
    drain_step s (dgoto t (Returned CallFail) s)"
| fail_live: "dsys_pc s t = FailWon \<Longrightarrow> drain_step s (dgoto t FailLive (set_live 0 s))"
| fail_state: "dsys_pc s t = FailLive \<Longrightarrow>
    drain_step s (dgoto t (Returned CallFail) (set_state HealthcheckFailing s))"
| ok_won: "dpc_free (dsys_pc s t) \<Longrightarrow> compare_exchange HealthcheckFailing Live (dsys s) = (True, ds) \<Longrightarrow>
    drain_step s (dgoto t OkWon (s\<lparr>dsys := ds\<rparr>))"
| ok_lost: "dpc_free (dsys_pc s t) \<Longrightarrow> compare_exchange HealthcheckFailing Live (dsys s) = (False, ds) \<Longrightarrow>
    drain_step s (dgoto t (Returned CallOk) s)"
| ok_live: "dsys_pc s t = OkWon \<Longrightarrow> drain_step s (dgoto t OkLive (set_live 1 s))"
| ok_state: "dsys_pc s t = OkLive \<Longrightarrow> drain_step s (dgoto t (Returned CallOk) (set_state Live s))"
| drain_from_live: "dpc_free (dsys_pc s t) \<Longrightarrow> compare_exchange Live Draining (dsys s) = (True, ds) \<Longrightarrow>
    drain_step s (dgoto t DrainWon (s\<lparr>dsys := ds\<rparr>))"
| drain_not_live: "dpc_free (dsys_pc s t) \<Longrightarrow> compare_exchange Live Draining (dsys s) = (False, ds) \<Longrightarrow>
    drain_step s (dgoto t NotLive s)"
| drain_from_hc: "dsys_pc s t = NotLive \<Longrightarrow> compare_exchange HealthcheckFailing Draining (dsys s) = (True, ds) \<Longrightarrow>
    drain_step s (dgoto t DrainWon (s\<lparr>dsys := ds\<rparr>))"
| drain_lost: "dsys_pc s t = NotLive \<Longrightarrow> compare_exchange HealthcheckFailing Draining (dsys s) = (False, ds) \<Longrightarrow>
    drain_step s (dgoto t (Returned CallDrain) s)"
| drain_live: "dsys_pc s t = DrainWon \<Longrightarrow> drain_step s (dgoto t DrainLive (set_live 0 s))"
| drain_state: "dsys_pc s t = DrainLive \<Longrightarrow> drain_step s (dgoto t DrainGauges (set_state Draining s))"
| drain_notify: "dsys_pc s t = DrainGauges \<Longrightarrow>
    drain_step s (dgoto t (Returned CallDrain) (s\<lparr>dsys := notify_waiters (dsys s)\<rparr>))"
| snapshot: "dpc_free (dsys_pc s t) \<Longrightarrow> drain_step s (dgoto t (Snapshot (ds_notify (dsys s))) s)"
| ready: "dsys_pc s t = Snapshot n \<Longrightarrow> ds_stage (dsys s) = stage_u8 Draining \<Longrightarrow>
    drain_step s (dgoto t Signalled s)"
| park: "dsys_pc s t = Snapshot n \<Longrightarrow> ds_stage (dsys s) \<noteq> stage_u8 Draining \<Longrightarrow>
    drain_step s (dgoto t (Parked n) s)"
| wake: "dsys_pc s t = Parked n \<Longrightarrow> ds_notify (dsys s) \<noteq> n \<Longrightarrow> drain_step s (dgoto t Signalled s)"
| cancel: "dsys_pc s t = Parked n \<Longrightarrow> drain_step s (dgoto t DIdle s)"

inductive drain_reach :: "DrainState \<Rightarrow> stats \<Rightarrow> drain_sys \<Rightarrow> bool" for ds :: DrainState and st :: stats where
  start: "drain_reach ds st \<lparr>dsys = ds, dsys_stats = st, dsys_pc = (\<lambda>_. DIdle)\<rparr>"
| step: "drain_reach ds st s \<Longrightarrow> drain_step s s' \<Longrightarrow> drain_reach ds st s'"

lemma dsys_simps [simp]:
  "dsys (dgoto t p s) = dsys s" "dsys_stats (dgoto t p s) = dsys_stats s" "dsys_pc (dgoto t p s) = (dsys_pc s)(t := p)"
  "dsys (set_live v s) = dsys s" "dsys_pc (set_live v s) = dsys_pc s"
  "dsys (set_state g s) = dsys s" "dsys_pc (set_state g s) = dsys_pc s"
  by (simp_all add: dgoto_def set_live_def set_state_def)

lemma dpc_free_simps [simp]:
  "dpc_free DIdle" "dpc_free (Returned c)" "dpc_free Signalled" "\<not> dpc_free FailWon" "\<not> dpc_free FailLive"
  "\<not> dpc_free OkWon" "\<not> dpc_free OkLive" "\<not> dpc_free NotLive" "\<not> dpc_free DrainWon" "\<not> dpc_free DrainLive"
  "\<not> dpc_free DrainGauges" "\<not> dpc_free (Snapshot n)" "\<not> dpc_free (Parked n)"
  by (simp_all add: dpc_free_def)

lemma compare_exchange_won:
  "compare_exchange a b ds = (True, ds') \<longleftrightarrow> ds_stage ds = stage_u8 a \<and> ds' = ds\<lparr>ds_stage := stage_u8 b\<rparr>"
  by (auto simp: compare_exchange_def)

lemma compare_exchange_lost: "compare_exchange a b ds = (False, ds') \<longleftrightarrow> ds_stage ds \<noteq> stage_u8 a \<and> ds' = ds"
  by (auto simp: compare_exchange_def)

lemmas cas_simps = compare_exchange_won compare_exchange_lost

section \<open>One call after the other\<close>

definition drain_apply :: "drain_call \<Rightarrow> DrainState \<times> stats \<Rightarrow> DrainState \<times> stats" where
  "drain_apply c = (case c of CallFail \<Rightarrow> fail_healthcheck | CallOk \<Rightarrow> ok_healthcheck | CallDrain \<Rightarrow> drain)"

text \<open>What the calls so far mean: a drain is final, before it the last call decides.\<close>

definition stage_after :: "drain_call list \<Rightarrow> DrainStage" where
  "stage_after cs = (if CallDrain \<in> set cs then Draining
     else if cs \<noteq> [] \<and> last cs = CallFail then HealthcheckFailing else Live)"

definition drain_shows :: "DrainStage \<Rightarrow> DrainState \<times> stats \<Rightarrow> bool" where
  "drain_shows g x \<longleftrightarrow> stats_wf (snd x) \<and> ds_stage (fst x) = stage_u8 g \<and>
     bt_get (reg_map (snd x)) ''server.live'' = Some (HGauge (server_live (fst x))) \<and>
     bt_get (reg_map (snd x)) ''server.state'' = Some (HGauge (server_state (fst x))) \<and>
     ds_notify (fst x) = (if g = Draining then 1 else 0) \<and>
     stat_value (snd x) ''server.live'' = Some (if g = Live then 1 else 0) \<and>
     stat_value (snd x) ''server.state'' = Some (sint (stage_i64 g))"

lemma gauge_set_shown:
  assumes "stats_wf st" "bt_get (reg_map st) n = Some (HGauge a)"
  shows "stats_wf (gauge_set a v st)" "reg_map (gauge_set a v st) = reg_map st"
    "stat_value (gauge_set a v st) m = (if m = n then Some (sint v) else stat_value st m)"
  using assms gauge_cell_value [OF assms] cell_ops_wf by (simp_all add: gauge_set_def gauge_set_val_def)

lemma gauges_shown:
  assumes "stats_wf st" "bt_get (reg_map st) ''server.live'' = Some (HGauge (server_live ds))"
    and "bt_get (reg_map st) ''server.state'' = Some (HGauge (server_state ds))"
    and "ds_stage ds = stage_u8 g" "ds_notify ds = (if g = Draining then 1 else 0)" "sint l = (if g = Live then 1 else 0)"
  shows "drain_shows g (ds, gauge_set (server_state ds) (stage_i64 g) (gauge_set (server_live ds) l st))"
  using assms gauge_set_shown [OF assms(1,2), of l]
    gauge_set_shown [of "gauge_set (server_live ds) l st" "''server.state''" "server_state ds" "stage_i64 g"]
  by (simp add: drain_shows_def)

lemma drain_apply_shows:
  assumes "drain_shows (stage_after cs) x"
  shows "drain_shows (stage_after (cs @ [c])) (drain_apply c x)"
proof -
  obtain ds st where x: "x = (ds, st)" by fastforce
  have g: "drain_shows g (ds', gauge_set (server_state ds') (stage_i64 g) (gauge_set (server_live ds') l st))"
    if "server_live ds' = server_live ds" "server_state ds' = server_state ds" "ds_stage ds' = stage_u8 g"
      "ds_notify ds' = (if g = Draining then 1 else 0)" "sint l = (if g = Live then 1 else 0)" for g ds' l
    using assms that by (intro gauges_shown) (simp_all add: x drain_shows_def)
  have i: "sint (1 :: i64) = 1" by simp
  show ?thesis
  proof (cases "stage_after cs")
    case Live
    with assms g [of "ds\<lparr>ds_stage := 1\<rparr>" HealthcheckFailing 0] g [of "notify_waiters (ds\<lparr>ds_stage := 2\<rparr>)" Draining 0]
    show ?thesis
      by (cases c) (auto simp: x drain_apply_def fail_healthcheck_def ok_healthcheck_def drain_def compare_exchange_def
          notify_waiters_def stage_after_def drain_shows_def split: if_splits)
  next
    case HealthcheckFailing
    with assms g [of "ds\<lparr>ds_stage := 0\<rparr>" Live 1] g [of "notify_waiters (ds\<lparr>ds_stage := 2\<rparr>)" Draining 0]
    show ?thesis
      by (cases c) (auto simp: x drain_apply_def fail_healthcheck_def ok_healthcheck_def drain_def compare_exchange_def
          notify_waiters_def stage_after_def drain_shows_def split: if_splits)
  next
    case Draining
    with assms show ?thesis
      by (cases c) (auto simp: x drain_apply_def fail_healthcheck_def ok_healthcheck_def drain_def compare_exchange_def
          stage_after_def drain_shows_def split: if_splits)
  qed
qed


lemma drain_new_shows:
  assumes "stats_wf st" "drain_new st = Some x"
  shows "drain_shows (stage_after []) x"
proof -
  obtain live st1 state st2 where r: "register_gauge ''server.live'' st = (Inr live, st1)"
      "register_gauge ''server.state'' st1 = (Inr state, st2)"
    and x: "x = (\<lparr>ds_stage = stage_u8 Live, ds_notify = 0, server_live = live, server_state = state\<rparr>,
       gauge_set state (stage_i64 Live) (gauge_set live 1 st2))"
    using assms(2) by (auto simp: drain_new_def split: prod.splits sum.splits)
  note k1 = register_keeps(2) [OF assms(1) r(1)]
  then have "stats_wf st1" by (simp add: names_keep_def)
  note k2 = register_keeps(2) [OF this r(2)]
  show ?thesis
    unfolding x stage_after_def
    using gauges_shown [of st2 "\<lparr>ds_stage = stage_u8 Live, ds_notify = 0, server_live = live, server_state = state\<rparr>" Live 1]
      k1 k2 by (auto simp: names_keep_def)
qed

text \<open>
  The stage as a function of the calls: whatever sequence of health-check and drain calls is made one after the other, the
  stage is the one the calls mean, a drain being final; the two gauges show it; and waiters are notified exactly once, by
  the first drain.
\<close>
theorem drain_stage_history:
  assumes "stats_wf st" "drain_new st = Some x"
  shows "drain_current (fst (fold drain_apply cs x)) = Some (stage_after cs) \<and>
    stat_value (snd (fold drain_apply cs x)) ''server.live'' = Some (if stage_after cs = Live then 1 else 0) \<and>
    stat_value (snd (fold drain_apply cs x)) ''server.state'' = Some (sint (stage_i64 (stage_after cs))) \<and>
    ds_notify (fst (fold drain_apply cs x)) = (if CallDrain \<in> set cs then 1 else 0)"
proof -
  have "drain_shows (stage_after cs) (fold drain_apply cs x)"
    by (induction cs rule: rev_induct) (use drain_new_shows [OF assms] drain_apply_shows in auto)
  moreover have "stage_from_u8 (stage_u8 g) = Some g" for g by (cases g) (simp_all add: stage_from_u8_def)
  moreover have "stage_after cs = Draining \<longleftrightarrow> CallDrain \<in> set cs" by (auto simp: stage_after_def)
  ultimately show ?thesis by (simp add: drain_shows_def drain_current_def)
qed

section \<open>No waiter is left behind\<close>

definition draining :: "drain_pc \<Rightarrow> bool" where
  "draining p \<longleftrightarrow> p = DrainWon \<or> p = DrainLive \<or> p = DrainGauges"

lemma draining_simps [simp]:
  "draining DrainWon" "draining DrainLive" "draining DrainGauges" "\<not> draining DIdle" "\<not> draining (Returned c)"
  "\<not> draining FailWon" "\<not> draining FailLive" "\<not> draining OkWon" "\<not> draining OkLive" "\<not> draining NotLive"
  "\<not> draining (Snapshot n)" "\<not> draining (Parked n)" "\<not> draining Signalled" "dpc_free p \<Longrightarrow> \<not> draining p"
  by (auto simp: draining_def)

definition drainers :: "drain_sys \<Rightarrow> nat set" where
  "drainers s = {t. draining (dsys_pc s t)}"

lemma drainers_simps [simp]:
  "drainers (dgoto t p s) = (if draining p then insert t (drainers s) else drainers s - {t})"
  "drainers (set_live v s) = drainers s" "drainers (set_state g s) = drainers s" "drainers (s\<lparr>dsys := ds\<rparr>) = drainers s"
  by (auto simp: drainers_def)

lemma in_drainers: "t \<in> drainers s \<longleftrightarrow> draining (dsys_pc s t)"
  by (simp add: drainers_def)

definition drain_inv :: "drain_sys \<Rightarrow> bool" where
  "drain_inv s \<longleftrightarrow>
     (if ds_stage (dsys s) = 2
      then (ds_notify (dsys s) = 0 \<and> (\<exists>t. drainers s = {t})) \<or> (ds_notify (dsys s) = 1 \<and> drainers s = {})
      else ds_notify (dsys s) = 0 \<and> drainers s = {})"

definition waiters_inv :: "drain_sys \<Rightarrow> bool" where
  "waiters_inv s \<longleftrightarrow> (\<forall>t n. dsys_pc s t = Snapshot n \<longrightarrow> n = 0 \<or> ds_stage (dsys s) = 2)
     \<and> (\<forall>t n. dsys_pc s t = Parked n \<longrightarrow> n = 0)"

lemma free_not_drainer: "dpc_free (dsys_pc s t) \<Longrightarrow> drainers s - {t} = drainers s"
  by (auto simp: in_drainers)

lemma drain_step_inv:
  assumes "drain_step s s'" "drain_inv s"
  shows "drain_inv s'"
  using assms
proof cases
  case (drain_notify t)
  then have "t \<in> drainers s" by (simp add: in_drainers)
  then show ?thesis using drain_notify assms(2) by (auto simp: drain_inv_def notify_waiters_def split: if_splits)
next
  case (drain_live t)
  then have "insert t (drainers s) = drainers s" by (auto simp: in_drainers)
  then show ?thesis using drain_live assms(2) by (auto simp: drain_inv_def split: if_splits)
next
  case (drain_state t)
  then have "insert t (drainers s) = drainers s" by (auto simp: in_drainers)
  then show ?thesis using drain_state assms(2) by (auto simp: drain_inv_def split: if_splits)
qed (use assms(2) in \<open>simp_all add: drain_inv_def cas_simps free_not_drainer in_drainers split: if_splits\<close>)

lemma drain_step_waiters:
  assumes "drain_step s s'" "drain_inv s" "waiters_inv s"
  shows "waiters_inv s'"
  using assms by cases (auto simp: drain_inv_def waiters_inv_def cas_simps notify_waiters_def split: if_splits)

lemma drain_reach_inv:
  assumes "drain_reach ds st s" "ds_stage ds = stage_u8 Live" "ds_notify ds = 0"
  shows "drain_inv s \<and> waiters_inv s"
  using assms
proof (induction rule: drain_reach.induct)
  case start
  then show ?case by (simp add: drain_inv_def waiters_inv_def drainers_def)
next
  case (step s s')
  then show ?case using drain_step_inv drain_step_waiters by blast
qed

lemma drain_step_sticky:
  assumes "drain_step s s'" "ds_stage (dsys s) = stage_u8 Draining"
  shows "ds_stage (dsys s') = stage_u8 Draining"
  using assms by cases (auto simp: cas_simps notify_waiters_def)

lemma drain_steps_sticky:
  assumes "drain_step\<^sup>*\<^sup>* s s'" "ds_stage (dsys s) = stage_u8 Draining"
  shows "ds_stage (dsys s') = stage_u8 Draining"
  using assms by (induction rule: rtranclp_induct) (blast intro: drain_step_sticky)+

text \<open>
  C16. No waiter is left behind: however the calls and the waits interleave, waiters are notified at most once; when the stage
  is draining and no drain call is still under way, they have been, and every task parked on the signal can go on; and the
  stage never changes again.
\<close>
theorem drain_signal_wakes_all:
  assumes "drain_new st0 = Some (ds, st)" "drain_reach ds st s"
  shows "ds_notify (dsys s) \<le> 1 \<and>
    (drain_current (dsys s) = Some Draining \<and> (\<forall>t. \<not> draining (dsys_pc s t)) \<longrightarrow>
       ds_notify (dsys s) = 1 \<and>
       (\<forall>t n. dsys_pc s t = Parked n \<longrightarrow> drain_step s (dgoto t Signalled s)) \<and>
       (\<forall>s'. drain_step\<^sup>*\<^sup>* s s' \<longrightarrow> drain_current (dsys s') = Some Draining))"
proof -
  have "ds_stage ds = stage_u8 Live" "ds_notify ds = 0"
    using assms(1) by (auto simp: drain_new_def split: prod.splits sum.splits)
  from drain_reach_inv [OF assms(2) this] have i: "drain_inv s" "waiters_inv s" by simp_all
  have c: "drain_current x = Some Draining \<longleftrightarrow> ds_stage x = stage_u8 Draining" for x
    by (simp add: drain_current_def stage_from_u8_def)
  have "drainers s = {}" if "\<forall>t. \<not> draining (dsys_pc s t)" using that by (simp add: drainers_def)
  moreover have "drain_step s (dgoto t Signalled s)" if "ds_notify (dsys s) = 1" "dsys_pc s t = Parked n" for t n
    using drain_step.wake [OF that(2)] that i(2) by (auto simp: waiters_inv_def)
  ultimately show ?thesis
    using i(1) unfolding c by (auto simp: drain_inv_def split: if_splits dest: drain_steps_sticky)
qed

section \<open>Calls that race\<close>

text \<open>The steps of a call that runs alone.\<close>

lemma reach_steps:
  assumes "drain_step\<^sup>*\<^sup>* s s'" "drain_reach ds st s"
  shows "drain_reach ds st s'"
  using assms by (induction rule: rtranclp_induct) (blast intro: drain_reach.step)+

lemma fail_runs:
  assumes "dpc_free (dsys_pc s t)" "ds_stage (dsys s) = 0"
  shows "drain_step\<^sup>*\<^sup>* s (dgoto t (Returned CallFail) (set_state HealthcheckFailing (set_live 0 (s\<lparr>dsys := (dsys s)\<lparr>ds_stage := 1\<rparr>\<rparr>))))"
proof -
  let ?a = "dgoto t FailWon (s\<lparr>dsys := (dsys s)\<lparr>ds_stage := 1\<rparr>\<rparr>)"
  have "drain_step s ?a" using drain_step.fail_won [OF assms(1)] assms(2) by (simp add: cas_simps)
  moreover have "drain_step ?a (dgoto t FailLive (set_live 0 ?a))" by (rule drain_step.fail_live) simp
  moreover have "drain_step (dgoto t FailLive (set_live 0 ?a))
      (dgoto t (Returned CallFail) (set_state HealthcheckFailing (dgoto t FailLive (set_live 0 ?a))))"
    by (rule drain_step.fail_state) simp
  ultimately show ?thesis
    by (simp add: dgoto_def set_live_def set_state_def converse_rtranclp_into_rtranclp)
qed


text \<open>The state with a health check failing and every task between calls.\<close>

definition failed_start :: "DrainState \<Rightarrow> stats \<Rightarrow> drain_sys" where
  "failed_start ds st = dgoto 1 (Returned CallFail) (set_state HealthcheckFailing (set_live 0
     \<lparr>dsys = ds\<lparr>ds_stage := 1\<rparr>, dsys_stats = st, dsys_pc = (\<lambda>_. DIdle)\<rparr>))"

lemma failed_start_reached: "ds_stage ds = 0 \<Longrightarrow> drain_reach ds st (failed_start ds st)"
  using reach_steps [OF fail_runs [of "\<lparr>dsys = ds, dsys_stats = st, dsys_pc = (\<lambda>_. DIdle)\<rparr>" 1] drain_reach.start]
  by (simp add: failed_start_def)

lemma failed_start_simps [simp]:
  "dsys (failed_start ds st) = ds\<lparr>ds_stage := 1\<rparr>"
  "dsys_pc (failed_start ds st) = (\<lambda>_. DIdle)(1 := Returned CallFail)"
  by (simp_all add: failed_start_def)

lemma drain_new_live: "drain_new st0 = Some (ds, st) \<Longrightarrow> ds_stage ds = 0 \<and> ds_notify ds = 0"
  by (auto simp: drain_new_def split: prod.splits sum.splits)

text \<open>
  A drain can be lost: one that finds the health check failing, and whose second compare-exchange comes after a recovery
  call, returns without draining, with the stage \<open>Live\<close> and every call finished.
\<close>
theorem drain_lost_to_recovery:
  assumes "drain_new st0 = Some (ds, st)"
  shows "\<exists>s. drain_reach ds st s \<and> dsys_pc s 0 = Returned CallDrain \<and> (\<forall>t. dpc_free (dsys_pc s t)) \<and>
    drain_current (dsys s) = Some Live \<and> ds_notify (dsys s) = 0"
proof -
  let ?s1 = "dgoto 0 NotLive (failed_start ds st)"
  let ?s2 = "dgoto 1 OkWon (?s1\<lparr>dsys := ds\<lparr>ds_stage := 0\<rparr>\<rparr>)"
  let ?s3 = "dgoto 1 OkLive (set_live 1 ?s2)"
  let ?s4 = "dgoto 1 (Returned CallOk) (set_state Live ?s3)"
  let ?s5 = "dgoto 0 (Returned CallDrain) ?s4"
  have r0: "drain_reach ds st (failed_start ds st)" using drain_new_live [OF assms] failed_start_reached by simp
  have "drain_reach ds st ?s1" by (rule drain_reach.step [OF r0], rule drain_step.drain_not_live) (simp_all add: cas_simps)
  then have "drain_reach ds st ?s2" by (rule drain_reach.step, intro drain_step.ok_won) (simp_all add: cas_simps)
  then have "drain_reach ds st ?s3" by (rule drain_reach.step, intro drain_step.ok_live) simp
  then have "drain_reach ds st ?s4" by (rule drain_reach.step, intro drain_step.ok_state) simp
  then have "drain_reach ds st ?s5" by (rule drain_reach.step, intro drain_step.drain_lost) (simp_all add: cas_simps)
  then show ?thesis
    using drain_new_live [OF assms] by (intro exI [of _ ?s5]) (simp add: drain_current_def stage_from_u8_def)
qed

text \<open>A settled drain writes no gauge any more.\<close>

lemma settled_step:
  assumes "drain_step s s'" "ds_stage (dsys s) = 2" "\<forall>t. dsys_pc s t \<notin> {FailWon, FailLive, OkWon, OkLive, DrainWon, DrainLive, DrainGauges}"
  shows "dsys_stats s' = dsys_stats s \<and> ds_stage (dsys s') = 2 \<and>
    (\<forall>t. dsys_pc s' t \<notin> {FailWon, FailLive, OkWon, OkLive, DrainWon, DrainLive, DrainGauges})"
  using assms by cases (auto simp: cas_simps)

lemma settled_steps:
  assumes "drain_step\<^sup>*\<^sup>* s s'" "ds_stage (dsys s) = 2" "\<forall>t. dpc_free (dsys_pc s t)"
  shows "dsys_stats s' = dsys_stats s"
proof -
  have f: "\<forall>t. dsys_pc s t \<notin> {FailWon, FailLive, OkWon, OkLive, DrainWon, DrainLive, DrainGauges}"
    using assms(3) by (metis dpc_free_simps insertE singletonD)
  have "dsys_stats s' = dsys_stats s \<and> ds_stage (dsys s') = 2 \<and>
    (\<forall>t. dsys_pc s' t \<notin> {FailWon, FailLive, OkWon, OkLive, DrainWon, DrainLive, DrainGauges})"
    using assms(1)
  proof (induction rule: rtranclp_induct)
    case base
    then show ?case using assms(2) f by blast
  next
    case (step y z)
    then show ?case using settled_step [OF step.hyps(2)] by presburger
  qed
  then show ?thesis by blast
qed

lemma drain_new_cells:
  assumes "stats_wf st0" "drain_new st0 = Some (ds, st)"
  shows "stats_wf st" "bt_get (reg_map st) ''server.live'' = Some (HGauge (server_live ds))"
    "bt_get (reg_map st) ''server.state'' = Some (HGauge (server_state ds))"
  using drain_new_shows [OF assms] by (simp_all add: drain_shows_def)

text \<open>
  The gauges can contradict the stage for good: a recovery call that won its compare-exchange before the drain and writes
  its gauges after it leaves \<open>server.live\<close> at 1 and \<open>server.state\<close> at 0 in a process that drains, whatever is called later.
\<close>
theorem live_gauge_left_stale:
  assumes "stats_wf st0" "drain_new st0 = Some (ds, st)"
  shows "\<exists>s. drain_reach ds st s \<and> drain_current (dsys s) = Some Draining \<and> (\<forall>t. dpc_free (dsys_pc s t)) \<and>
    (\<forall>s'. drain_step\<^sup>*\<^sup>* s s' \<longrightarrow>
       stat_value (dsys_stats s') ''server.live'' = Some 1 \<and> stat_value (dsys_stats s') ''server.state'' = Some 0)"
proof -
  let ?s1 = "dgoto 1 OkWon ((failed_start ds st)\<lparr>dsys := ds\<lparr>ds_stage := 0\<rparr>\<rparr>)"
  let ?s2 = "dgoto 0 DrainWon (?s1\<lparr>dsys := ds\<lparr>ds_stage := 2\<rparr>\<rparr>)"
  let ?s3 = "dgoto 0 DrainLive (set_live 0 ?s2)"
  let ?s4 = "dgoto 0 DrainGauges (set_state Draining ?s3)"
  let ?s5 = "dgoto 0 (Returned CallDrain) (?s4\<lparr>dsys := notify_waiters (dsys ?s4)\<rparr>)"
  let ?s6 = "dgoto 1 OkLive (set_live 1 ?s5)"
  let ?s7 = "dgoto 1 (Returned CallOk) (set_state Live ?s6)"
  have r0: "drain_reach ds st (failed_start ds st)" using drain_new_live [OF assms(2)] failed_start_reached by simp
  have "drain_reach ds st ?s1" by (rule drain_reach.step [OF r0], rule drain_step.ok_won) (simp_all add: cas_simps)
  then have "drain_reach ds st ?s2" by (rule drain_reach.step, intro drain_step.drain_from_live) (simp_all add: cas_simps)
  then have "drain_reach ds st ?s3" by (rule drain_reach.step, intro drain_step.drain_live) simp
  then have "drain_reach ds st ?s4" by (rule drain_reach.step, intro drain_step.drain_state) simp
  then have "drain_reach ds st ?s5" by (rule drain_reach.step, intro drain_step.drain_notify) simp
  then have "drain_reach ds st ?s6" by (rule drain_reach.step, intro drain_step.ok_live) simp
  then have r: "drain_reach ds st ?s7" by (rule drain_reach.step, intro drain_step.ok_state) simp
  define st5 where "st5 = dsys_stats ?s5"
  have w: "stats_wf st5 \<and> reg_map st5 = reg_map st"
    using drain_new_cells [OF assms] unfolding st5_def
    by (simp add: failed_start_def set_live_def set_state_def gauge_set_shown)
  have e: "dsys_stats ?s7 = gauge_set (server_state ds) 0 (gauge_set (server_live ds) 1 st5)"
    by (simp add: st5_def set_live_def set_state_def notify_waiters_def)
  have "stat_value (dsys_stats ?s7) ''server.live'' = Some 1" "stat_value (dsys_stats ?s7) ''server.state'' = Some 0"
    using w drain_new_cells [OF assms] gauge_set_shown [of st5 "''server.live''" "server_live ds" 1]
      gauge_set_shown [of "gauge_set (server_live ds) 1 st5" "''server.state''" "server_state ds" 0]
    unfolding e by simp_all
  moreover have "ds_stage (dsys ?s7) = 2" "\<forall>t. dpc_free (dsys_pc ?s7 t)" by (simp_all add: notify_waiters_def)
  moreover have "drain_current (dsys ?s7) = Some Draining"
    by (simp add: notify_waiters_def drain_current_def stage_from_u8_def)
  ultimately show ?thesis using r settled_steps [of ?s7] by metis
qed

section \<open>In the small\<close>

lemma demo_drain: "\<exists>ds st. drain_new registry_new = Some (ds, st)"
proof -
  have "drain_new registry_new \<noteq> None" by code_simp
  then show ?thesis by (cases "drain_new registry_new") auto
qed

theorem drain_stage_history_witness:
  "\<exists>x. drain_new registry_new = Some x \<and>
    drain_current (fst (fold drain_apply [CallFail, CallDrain, CallOk] x)) = Some Draining \<and>
    ds_notify (fst (fold drain_apply [CallFail, CallDrain, CallOk] x)) = 1"
proof -
  obtain ds st where n: "drain_new registry_new = Some (ds, st)" using demo_drain by blast
  from drain_stage_history [OF stats_wf_new n, of "[CallFail, CallDrain, CallOk]"] n show ?thesis
    by (auto simp: stage_after_def)
qed

theorem drain_lost_to_recovery_witness:
  "\<exists>ds st s. drain_new registry_new = Some (ds, st) \<and> drain_reach ds st s \<and> drain_current (dsys s) = Some Live \<and>
    dsys_pc s 0 = Returned CallDrain"
  using demo_drain drain_lost_to_recovery by metis

theorem live_gauge_left_stale_witness:
  "\<exists>ds st s. drain_new registry_new = Some (ds, st) \<and> drain_reach ds st s \<and> drain_current (dsys s) = Some Draining \<and>
    stat_value (dsys_stats s) ''server.live'' = Some 1"
  using demo_drain live_gauge_left_stale [OF stats_wf_new] by (metis rtranclp.rtrancl_refl)

theorem drain_signal_wakes_all_witness:
  "\<exists>ds st s. drain_new registry_new = Some (ds, st) \<and> drain_reach ds st s \<and> dsys_pc s 2 = Parked 0 \<and>
    drain_current (dsys s) = Some Draining \<and> ds_notify (dsys s) = 1 \<and> drain_step s (dgoto 2 Signalled s)"
proof -
  obtain ds st where n: "drain_new registry_new = Some (ds, st)" using demo_drain by blast
  note l = drain_new_live [OF n]
  let ?s0 = "\<lparr>dsys = ds, dsys_stats = st, dsys_pc = (\<lambda>_. DIdle)\<rparr>"
  let ?s1 = "dgoto 2 (Snapshot (ds_notify (dsys ?s0))) ?s0"
  let ?s2 = "dgoto 2 (Parked (ds_notify (dsys ?s0))) ?s1"
  let ?s3 = "dgoto 0 DrainWon (?s2\<lparr>dsys := ds\<lparr>ds_stage := 2\<rparr>\<rparr>)"
  let ?s4 = "dgoto 0 DrainLive (set_live 0 ?s3)"
  let ?s5 = "dgoto 0 DrainGauges (set_state Draining ?s4)"
  let ?s6 = "dgoto 0 (Returned CallDrain) (?s5\<lparr>dsys := notify_waiters (dsys ?s5)\<rparr>)"
  have "drain_reach ds st ?s1" by (rule drain_reach.step [OF drain_reach.start], rule drain_step.snapshot) simp
  then have "drain_reach ds st ?s2" by (rule drain_reach.step, intro drain_step.park) (use l in simp_all)
  then have "drain_reach ds st ?s3"
    by (rule drain_reach.step, intro drain_step.drain_from_live) (use l in \<open>simp_all add: cas_simps\<close>)
  then have "drain_reach ds st ?s4" by (rule drain_reach.step, intro drain_step.drain_live) simp
  then have "drain_reach ds st ?s5" by (rule drain_reach.step, intro drain_step.drain_state) simp
  then have r: "drain_reach ds st ?s6" by (rule drain_reach.step, intro drain_step.drain_notify) simp
  have c: "drain_current (dsys ?s6) = Some Draining"
    by (simp add: drain_current_def stage_from_u8_def notify_waiters_def)
  have p: "dsys_pc ?s6 2 = Parked 0" using l by simp
  have "\<forall>t. \<not> draining (dsys_pc ?s6 t)" by simp
  with drain_signal_wakes_all [OF n r] n r c p show ?thesis by blast
qed

end
