(* ===== verification/Listener.thy ===== *)
theory Listener
  imports Drain Rbac
begin

text \<open>
  \<open>envoy-listener/src/lib.rs\<close>: the first-byte gate of the network filters, the count of pending tasks, binding, and the
  accept loops with their graceful drain. Binding a socket is a call of the operating system and a parameter. The accept
  loops of a listener, their connection tasks and the signals are a step relation: one step is one arm of a \<open>select!\<close>, the
  end of a connection task, or one publication of the task count.
\<close>

section \<open>The first-byte gate\<close>

datatype GateOutcome = ClientGoneEarly | SkippedCleanly | Admitted | Denied

text \<open>What a read or a peek of one byte gives.\<close>

datatype first_read = FirstByte u8 | FirstEof | FirstFailed

text \<open>The network RBAC filter is the only network filter. \<open>None\<close> is a panic of its address match.\<close>

fun gate_run :: "NetworkRbacFilter list \<Rightarrow> ConnectionInfo \<Rightarrow> stats \<Rightarrow> (GateOutcome \<times> stats) option" where
  "gate_run [] conn st = Some (Admitted, st)"
| "gate_run (f # fs) conn st =
     (case on_new_connection f conn st of
        None \<Rightarrow> None
      | Some (NfStopIteration, st') \<Rightarrow> Some (Denied, st')
      | Some (NfContinue, st') \<Rightarrow> gate_run fs conn st')"

definition evaluate_peek :: "NetworkRbacFilter list \<Rightarrow> first_read \<Rightarrow> ConnectionInfo \<Rightarrow> stats
    \<Rightarrow> (GateOutcome \<times> stats) option" where
  "evaluate_peek fs r conn st =
     (case r of FirstEof \<Rightarrow> Some (SkippedCleanly, st) | FirstByte _ \<Rightarrow> gate_run fs conn st
      | FirstFailed \<Rightarrow> Some (ClientGoneEarly, st))"

definition evaluate_read_half :: "NetworkRbacFilter list \<Rightarrow> first_read \<Rightarrow> ConnectionInfo \<Rightarrow> stats
    \<Rightarrow> (GateOutcome \<times> u8 option \<times> stats) option" where
  "evaluate_read_half fs r conn st =
     (case r of
        FirstEof \<Rightarrow> map_option (\<lambda>(g, st'). (g, None, st')) (gate_run fs conn st)
      | FirstByte b \<Rightarrow> map_option (\<lambda>(g, st'). (g, Some b, st')) (gate_run fs conn st)
      | FirstFailed \<Rightarrow> Some (ClientGoneEarly, None, st))"

text \<open>
  \<open>close_with_drain\<close>, on the reads its socket will give: \<open>None\<close> while the client has not closed yet.
\<close>

datatype read_result = GotBytes nat | GotEof | GotError

fun discard_input :: "read_result list \<Rightarrow> unit option" where
  "discard_input [] = None"
| "discard_input (GotEof # rs) = Some ()"
| "discard_input (GotError # rs) = Some ()"
| "discard_input (GotBytes n # rs) = discard_input rs"

definition close_with_drain :: "'e \<Rightarrow> bool \<Rightarrow> read_result list \<Rightarrow> ('e + unit) option" where
  "close_with_drain io shutdown_ok rs = (if shutdown_ok then map_option Inr (discard_input rs) else Some (Inl io))"

text \<open>
  The provided \<open>handle_gated\<close>: \<open>conn\<close> is \<open>None\<close> when an address of the socket cannot be read, \<open>handle\<close> is the handler and
  \<open>close\<close> the result of closing.
\<close>

definition handle_gated :: "'e \<Rightarrow> ConnectionInfo option \<Rightarrow> NetworkRbacFilter list \<Rightarrow> first_read
    \<Rightarrow> (stats \<Rightarrow> ('e + unit) \<times> stats) \<Rightarrow> ('e + unit) \<Rightarrow> stats \<Rightarrow> (('e + unit) \<times> stats) option" where
  "handle_gated io conn fs r handle close st =
     (case conn of
        None \<Rightarrow> Some (Inl io, st)
      | Some c \<Rightarrow>
          (case evaluate_peek fs r c st of
             None \<Rightarrow> None
           | Some (Admitted, st') \<Rightarrow> Some (handle st')
           | Some (SkippedCleanly, st') \<Rightarrow> Some (close, st')
           | Some (Denied, st') \<Rightarrow> Some (close, st')
           | Some (ClientGoneEarly, st') \<Rightarrow> Some (Inr (), st')))"

section \<open>Pending tasks\<close>

record PendingTasks =
  pt_counts :: "nat list"
  pt_total :: nat

definition pending_new :: "nat \<Rightarrow> PendingTasks" where
  "pending_new sockets = \<lparr>pt_counts = replicate (max sockets 1) 0, pt_total = 0\<rparr>"

text \<open>\<open>None\<close> is the panic on an index outside the counts.\<close>

definition pending_publish :: "nat \<Rightarrow> nat \<Rightarrow> PendingTasks \<Rightarrow> PendingTasks option" where
  "pending_publish index in_flight pt =
     (if index < length (pt_counts pt) then
        let counts = (pt_counts pt)[index := in_flight] in Some \<lparr>pt_counts = counts, pt_total = sum_list counts\<rparr>
      else None)"

section \<open>Binding\<close>

datatype 'addr ListenerError =
    BindFailed 'addr | DrainTimeout | AddressParse string nat | StatsRegistration stats_error | ShardingUnavailable

record ListenerConfig =
  lc_name :: string
  lc_address :: string
  lc_port_value :: nat
  lc_enable_reuse_port :: bool

text \<open>A bound socket is its local address.\<close>

record 'addr Listener =
  ln_sockets :: "'addr list"
  ln_cx_total :: nat
  ln_cx_active :: nat
  ln_cx_accept_failed :: nat
  ln_manager_active :: nat
  ln_count_active :: bool
  ln_pending :: PendingTasks

text \<open>
  The operating system: \<open>os_bind k reuse addr\<close> is the local address of the socket that the \<open>k\<close>-th bind call on \<open>addr\<close> gives,
  or a failure.
\<close>

record 'addr os =
  os_linux :: bool
  os_bind :: "nat \<Rightarrow> bool \<Rightarrow> 'addr \<Rightarrow> 'addr option"

definition parse_listener_addr :: "'addr net \<Rightarrow> ListenerConfig \<Rightarrow> 'addr ListenerError + 'addr" where
  "parse_listener_addr net cfg =
     (case parse_socket_addr net (host_port (lc_address cfg) (lc_port_value cfg)) of
        None \<Rightarrow> Inl (AddressParse (lc_address cfg) (lc_port_value cfg)) | Some a \<Rightarrow> Inr a)"

fun bind_group :: "'addr os \<Rightarrow> 'addr \<Rightarrow> nat \<Rightarrow> nat \<Rightarrow> 'addr ListenerError + 'addr list" where
  "bind_group os bound_addr k 0 = Inr []"
| "bind_group os bound_addr k (Suc n) =
     (case os_bind os k True bound_addr of
        None \<Rightarrow> Inl (BindFailed bound_addr)
      | Some s \<Rightarrow> map_sum id ((#) s) (bind_group os bound_addr (k + 1) n))"

definition bind_listeners :: "'addr os \<Rightarrow> 'addr \<Rightarrow> bool \<Rightarrow> nat \<Rightarrow> 'addr ListenerError + 'addr list" where
  "bind_listeners os addr reuse_port concurrency =
     (let effective_n = (if reuse_port \<and> os_linux os then max concurrency 1 else 1) in
      if effective_n \<le> 1 then
        (case os_bind os 0 False addr of None \<Rightarrow> Inl (BindFailed addr) | Some s \<Rightarrow> Inr [s])
      else
        (case os_bind os 0 True addr of
           None \<Rightarrow> Inl (BindFailed addr)
         | Some first \<Rightarrow> map_sum id ((#) first) (bind_group os first 1 (effective_n - 1))))"

definition register_listener_stats :: "string \<Rightarrow> stats \<Rightarrow> (stats_error + nat \<times> nat \<times> nat \<times> nat) \<times> stats" where
  "register_listener_stats name st =
     reg_then (register_counter (''listener.'' @ name @ ''.downstream_cx_total'') st) (\<lambda>cx_total st.
     reg_then (register_gauge (''listener.'' @ name @ ''.downstream_cx_active'') st) (\<lambda>cx_active st.
     reg_then (register_counter (''listener.'' @ name @ ''.downstream_cx_accept_failed'') st) (\<lambda>cx_accept_failed st.
     reg_then (register_gauge ''listener_manager.total_listeners_active'' st) (\<lambda>manager_active st.
       (Inr (cx_total, cx_active, cx_accept_failed, manager_active), st)))))"

definition make_listener :: "'addr list \<Rightarrow> nat \<times> nat \<times> nat \<times> nat \<Rightarrow> bool \<Rightarrow> 'addr Listener" where
  "make_listener sockets hs counted =
     (case hs of (tot, act, failed, manager) \<Rightarrow>
        \<lparr>ln_sockets = sockets, ln_cx_total = tot, ln_cx_active = act, ln_cx_accept_failed = failed,
         ln_manager_active = manager, ln_count_active = counted, ln_pending = pending_new (length sockets)\<rparr>)"

definition bind_inner :: "'addr net \<Rightarrow> 'addr os \<Rightarrow> ListenerConfig \<Rightarrow> nat \<Rightarrow> bool \<Rightarrow> stats
    \<Rightarrow> ('addr ListenerError + 'addr Listener) \<times> stats" where
  "bind_inner net os cfg concurrency reuse_port st =
     (case parse_listener_addr net cfg of
        Inl e \<Rightarrow> (Inl e, st)
      | Inr addr \<Rightarrow>
          (case bind_listeners os addr reuse_port concurrency of
             Inl e \<Rightarrow> (Inl e, st)
           | Inr listeners \<Rightarrow>
               (case register_listener_stats (lc_name cfg) st of
                  (Inl e, st') \<Rightarrow> (Inl (StatsRegistration e), st')
                | (Inr hs, st') \<Rightarrow> (Inr (make_listener listeners hs True), st'))))"

definition listener_bind :: "'addr net \<Rightarrow> 'addr os \<Rightarrow> ListenerConfig \<Rightarrow> stats
    \<Rightarrow> ('addr ListenerError + 'addr Listener) \<times> stats" where
  "listener_bind net os cfg = bind_inner net os cfg 1 False"

definition bind_with_concurrency :: "'addr net \<Rightarrow> 'addr os \<Rightarrow> ListenerConfig \<Rightarrow> nat \<Rightarrow> stats
    \<Rightarrow> ('addr ListenerError + 'addr Listener) \<times> stats" where
  "bind_with_concurrency net os cfg concurrency = bind_inner net os cfg concurrency (lc_enable_reuse_port cfg)"

text \<open>\<open>n\<close> is the number of handlers; a shard is paired with the handler of its index.\<close>

definition bind_per_worker :: "'addr net \<Rightarrow> 'addr os \<Rightarrow> ListenerConfig \<Rightarrow> nat \<Rightarrow> stats
    \<Rightarrow> ('addr ListenerError + 'addr Listener list) \<times> stats" where
  "bind_per_worker net os cfg n st =
     (if n > 1 \<and> \<not> (lc_enable_reuse_port cfg \<and> os_linux os) then (Inl ShardingUnavailable, st)
      else case parse_listener_addr net cfg of
        Inl e \<Rightarrow> (Inl e, st)
      | Inr addr \<Rightarrow>
          (case bind_listeners os addr (lc_enable_reuse_port cfg) n of
             Inl e \<Rightarrow> (Inl e, st)
           | Inr sockets \<Rightarrow>
               (case register_listener_stats (lc_name cfg) st of
                  (Inl e, st') \<Rightarrow> (Inl (StatsRegistration e), st')
                | (Inr hs, st') \<Rightarrow>
                    (Inr (map (\<lambda>(i, s). make_listener [s] hs (i = 0)) (zip [0..<n] sockets)), st'))))"

section \<open>Accept loops\<close>

datatype 'addr loop_phase =
    Selecting | Publishing | DrainWaiting | Aborting | LoopEnded "'addr ListenerError option"

text \<open>
  A loop holds the connection tasks in its join set: the running ones and the finished ones it has not reaped. \<open>al_lost\<close>
  counts the tasks that ended without their last statement, the decrement of the gauge: they panicked or were aborted.
\<close>

record 'addr accept_loop =
  al_phase :: "'addr loop_phase"
  al_running :: nat
  al_done :: nat
  al_lost :: nat

record 'addr listen_sys =
  lv_listener :: "'addr Listener"
  lv_stats :: stats
  lv_pending :: PendingTasks
  lv_loops :: "'addr accept_loop list"
  lv_stop :: bool
  lv_accepted :: nat
  lv_refused :: nat
  lv_result :: "('addr ListenerError + unit) option"

definition join_len :: "'addr accept_loop \<Rightarrow> nat" where
  "join_len l = al_running l + al_done l"

definition put_loop :: "nat \<Rightarrow> 'addr accept_loop \<Rightarrow> 'addr listen_sys \<Rightarrow> 'addr listen_sys" where
  "put_loop i l s = s\<lparr>lv_loops := (lv_loops s)[i := l]\<rparr>"

definition on_stats :: "(stats \<Rightarrow> stats) \<Rightarrow> 'addr listen_sys \<Rightarrow> 'addr listen_sys" where
  "on_stats f s = s\<lparr>lv_stats := f (lv_stats s)\<rparr>"

definition loop_ended :: "'addr accept_loop \<Rightarrow> bool" where
  "loop_ended l = (case al_phase l of LoopEnded _ \<Rightarrow> True | _ \<Rightarrow> False)"

text \<open>\<open>serve\<close> before its first step: the guard is taken and one loop runs per socket.\<close>

definition serve_start :: "'addr Listener \<Rightarrow> stats \<Rightarrow> 'addr listen_sys" where
  "serve_start lr st =
     \<lparr>lv_listener = lr, lv_stats = (if ln_count_active lr then gauge_inc (ln_manager_active lr) st else st),
      lv_pending = ln_pending lr,
      lv_loops = replicate (length (ln_sockets lr)) \<lparr>al_phase = Selecting, al_running = 0, al_done = 0, al_lost = 0\<rparr>,
      lv_stop = False, lv_accepted = 0, lv_refused = 0, lv_result = None\<rparr>"

text \<open>
  \<open>signal\<close> is the shutdown or the drain signal becoming ready. A timeout of the drain aborts the stragglers; a task that is
  just being polled may still end by itself.
\<close>

inductive listen_step :: "'addr listen_sys \<Rightarrow> 'addr listen_sys \<Rightarrow> bool" where
  signal: "listen_step s (s\<lparr>lv_stop := True\<rparr>)"
| accepted: "i < length (lv_loops s) \<Longrightarrow> l = lv_loops s ! i \<Longrightarrow> al_phase l = Selecting \<Longrightarrow>
    listen_step s (put_loop i (l\<lparr>al_phase := Publishing, al_running := al_running l + 1\<rparr>)
      (on_stats (gauge_inc (ln_cx_active (lv_listener s)) \<circ> counter_inc (ln_cx_total (lv_listener s)))
        (s\<lparr>lv_accepted := lv_accepted s + 1\<rparr>)))"
| accept_failed: "i < length (lv_loops s) \<Longrightarrow> l = lv_loops s ! i \<Longrightarrow> al_phase l = Selecting \<Longrightarrow>
    listen_step s (put_loop i (l\<lparr>al_phase := Publishing\<rparr>)
      (on_stats (counter_inc (ln_cx_accept_failed (lv_listener s))) (s\<lparr>lv_refused := lv_refused s + 1\<rparr>)))"
| reaped: "i < length (lv_loops s) \<Longrightarrow> l = lv_loops s ! i \<Longrightarrow> al_phase l = Selecting \<Longrightarrow> al_done l > 0 \<Longrightarrow>
    listen_step s (put_loop i (l\<lparr>al_phase := Publishing, al_done := al_done l - 1\<rparr>) s)"
| published: "i < length (lv_loops s) \<Longrightarrow> l = lv_loops s ! i \<Longrightarrow> al_phase l = Publishing \<Longrightarrow>
    pending_publish i (join_len l) (lv_pending s) = Some pt \<Longrightarrow>
    listen_step s (put_loop i (l\<lparr>al_phase := Selecting\<rparr>) (s\<lparr>lv_pending := pt\<rparr>))"
| stopped: "i < length (lv_loops s) \<Longrightarrow> l = lv_loops s ! i \<Longrightarrow> al_phase l = Selecting \<Longrightarrow> lv_stop s \<Longrightarrow>
    listen_step s (put_loop i (l\<lparr>al_phase := DrainWaiting\<rparr>) s)"
| handled: "i < length (lv_loops s) \<Longrightarrow> l = lv_loops s ! i \<Longrightarrow> al_running l > 0 \<Longrightarrow>
    listen_step s (put_loop i (l\<lparr>al_running := al_running l - 1, al_done := al_done l + 1\<rparr>)
      (on_stats (gauge_dec (ln_cx_active (lv_listener s))) s))"
| panicked: "i < length (lv_loops s) \<Longrightarrow> l = lv_loops s ! i \<Longrightarrow> al_running l > 0 \<Longrightarrow>
    listen_step s (put_loop i (l\<lparr>al_running := al_running l - 1, al_done := al_done l + 1, al_lost := al_lost l + 1\<rparr>) s)"
| drain_reaped: "i < length (lv_loops s) \<Longrightarrow> l = lv_loops s ! i \<Longrightarrow> al_phase l = DrainWaiting \<or> al_phase l = Aborting \<Longrightarrow>
    al_done l > 0 \<Longrightarrow> listen_step s (put_loop i (l\<lparr>al_done := al_done l - 1\<rparr>) s)"
| drained: "i < length (lv_loops s) \<Longrightarrow> l = lv_loops s ! i \<Longrightarrow> al_phase l = DrainWaiting \<Longrightarrow> join_len l = 0 \<Longrightarrow>
    listen_step s (put_loop i (l\<lparr>al_phase := LoopEnded None\<rparr>) s)"
| timed_out: "i < length (lv_loops s) \<Longrightarrow> l = lv_loops s ! i \<Longrightarrow> al_phase l = DrainWaiting \<Longrightarrow> join_len l > 0 \<Longrightarrow>
    listen_step s (put_loop i (l\<lparr>al_phase := Aborting\<rparr>) s)"
| aborted: "i < length (lv_loops s) \<Longrightarrow> l = lv_loops s ! i \<Longrightarrow> al_phase l = Aborting \<Longrightarrow> al_running l > 0 \<Longrightarrow>
    listen_step s (put_loop i (l\<lparr>al_running := al_running l - 1, al_done := al_done l + 1, al_lost := al_lost l + 1\<rparr>) s)"
| gave_up: "i < length (lv_loops s) \<Longrightarrow> l = lv_loops s ! i \<Longrightarrow> al_phase l = Aborting \<Longrightarrow> join_len l = 0 \<Longrightarrow>
    listen_step s (put_loop i (l\<lparr>al_phase := LoopEnded (Some DrainTimeout)\<rparr>) s)"
| serve_ok: "lv_result s = None \<Longrightarrow> \<forall>l \<in> set (lv_loops s). al_phase l = LoopEnded None \<Longrightarrow>
    listen_step s (on_stats (\<lambda>st. if ln_count_active (lv_listener s) then gauge_dec (ln_manager_active (lv_listener s)) st else st)
      (s\<lparr>lv_result := Some (Inr ())\<rparr>))"
| serve_err: "lv_result s = None \<Longrightarrow> \<forall>l \<in> set (lv_loops s). loop_ended l \<Longrightarrow>
    l \<in> set (lv_loops s) \<Longrightarrow> al_phase l = LoopEnded (Some e) \<Longrightarrow>
    listen_step s (on_stats (\<lambda>st. if ln_count_active (lv_listener s) then gauge_dec (ln_manager_active (lv_listener s)) st else st)
      (s\<lparr>lv_result := Some (Inl e)\<rparr>))"


section \<open>What the loops keep\<close>

lemma sum_put:
  fixes f :: "'a \<Rightarrow> nat"
  assumes "i < length xs"
  shows "sum_list (map f (xs[i := y])) + f (xs ! i) = sum_list (map f xs) + f y"
  using assms
proof (induction xs arbitrary: i)
  case Nil
  then show ?case by simp
next
  case (Cons x xs)
  show ?case
  proof (cases i)
    case 0
    then show ?thesis by simp
  next
    case (Suc j)
    with Cons show ?thesis by (simp add: add.assoc)
  qed
qed

definition on_gauge :: "'addr accept_loop \<Rightarrow> nat" where
  "on_gauge l = al_running l + al_lost l"

definition listener_cells :: "'addr Listener \<Rightarrow> stats \<Rightarrow> bool" where
  "listener_cells lr st \<longleftrightarrow>
     ln_cx_total lr < length (counters st) \<and> ln_cx_accept_failed lr < length (counters st) \<and>
     ln_cx_total lr \<noteq> ln_cx_accept_failed lr \<and> ln_cx_active lr < length (gauges st) \<and>
     ln_manager_active lr < length (gauges st) \<and> ln_cx_active lr \<noteq> ln_manager_active lr"

text \<open>The counters and gauges against what happened, from the values \<open>st0\<close> at the start of \<open>serve\<close>.\<close>

definition counted_inv :: "'addr Listener \<Rightarrow> stats \<Rightarrow> 'addr listen_sys \<Rightarrow> bool" where
  "counted_inv lr st0 s \<longleftrightarrow> lv_listener s = lr \<and> listener_cells lr (lv_stats s) \<and>
     counters (lv_stats s) ! ln_cx_total lr = counters st0 ! ln_cx_total lr + of_nat (lv_accepted s) \<and>
     counters (lv_stats s) ! ln_cx_accept_failed lr = counters st0 ! ln_cx_accept_failed lr + of_nat (lv_refused s) \<and>
     gauges (lv_stats s) ! ln_cx_active lr =
       gauges st0 ! ln_cx_active lr + of_nat (sum_list (map on_gauge (lv_loops s))) \<and>
     gauges (lv_stats s) ! ln_manager_active lr =
       gauges st0 ! ln_manager_active lr + (if ln_count_active lr \<and> lv_result s = None then 1 else 0)"

lemma cell_obs [simp]:
  "counters (gauge_inc a st) = counters st" "counters (gauge_dec a st) = counters st"
  "gauges (counter_inc a st) = gauges st"
  "gauges (gauge_inc a st) = (gauges st)[a := gauges st ! a + 1]"
  "gauges (gauge_dec a st) = (gauges st)[a := gauges st ! a - 1]"
  "counters (counter_inc a st) = (counters st)[a := counters st ! a + 1]"
  by (simp_all add: gauge_inc_def gauge_dec_def counter_inc_def gauge_inc_val_def gauge_dec_val_def counter_inc_val_def)

lemma lv_simps [simp]:
  "lv_listener (put_loop i l s) = lv_listener s" "lv_stats (put_loop i l s) = lv_stats s"
  "lv_pending (put_loop i l s) = lv_pending s" "lv_loops (put_loop i l s) = (lv_loops s)[i := l]"
  "lv_stop (put_loop i l s) = lv_stop s" "lv_accepted (put_loop i l s) = lv_accepted s"
  "lv_refused (put_loop i l s) = lv_refused s" "lv_result (put_loop i l s) = lv_result s"
  "lv_listener (on_stats f s) = lv_listener s" "lv_stats (on_stats f s) = f (lv_stats s)"
  "lv_pending (on_stats f s) = lv_pending s" "lv_loops (on_stats f s) = lv_loops s"
  "lv_stop (on_stats f s) = lv_stop s" "lv_accepted (on_stats f s) = lv_accepted s"
  "lv_refused (on_stats f s) = lv_refused s" "lv_result (on_stats f s) = lv_result s"
  by (simp_all add: put_loop_def on_stats_def)

lemma gauge_sum_same:
  assumes "i < length ls" "on_gauge l = on_gauge (ls ! i)"
  shows "sum_list (map on_gauge (ls[i := l])) = sum_list (map on_gauge ls)"
  using sum_put [OF assms(1), of on_gauge l] assms(2) by simp

lemma listen_step_counted:
  assumes "listen_step s s'" "counted_inv lr st0 s"
  shows "counted_inv lr st0 s'"
  using assms(1)
proof cases
  case (accepted i l)
  have "sum_list (map on_gauge ((lv_loops s)[i := l\<lparr>al_phase := Publishing, al_running := al_running l + 1\<rparr>]))
      = sum_list (map on_gauge (lv_loops s)) + 1"
    using sum_put [OF accepted(2), of on_gauge "l\<lparr>al_phase := Publishing, al_running := al_running l + 1\<rparr>"] accepted(3)
    by (simp add: on_gauge_def)
  then show ?thesis using accepted assms(2) by (simp add: counted_inv_def listener_cells_def)
next
  case (handled i l)
  have "sum_list (map on_gauge (lv_loops s))
      = sum_list (map on_gauge ((lv_loops s)[i := l\<lparr>al_running := al_running l - 1, al_done := al_done l + 1\<rparr>])) + 1"
    using sum_put [OF handled(2), of on_gauge "l\<lparr>al_running := al_running l - 1, al_done := al_done l + 1\<rparr>"] handled(3,4)
    by (simp add: on_gauge_def)
  then show ?thesis using handled assms(2) by (simp add: counted_inv_def listener_cells_def)
qed (use assms(2) in \<open>auto simp: counted_inv_def listener_cells_def gauge_sum_same on_gauge_def\<close>)


definition pending_inv :: "'addr listen_sys \<Rightarrow> bool" where
  "pending_inv s \<longleftrightarrow> length (pt_counts (lv_pending s)) = length (lv_loops s) \<and>
     pt_total (lv_pending s) = sum_list (pt_counts (lv_pending s)) \<and>
     (\<forall>i < length (lv_loops s). al_phase (lv_loops s ! i) = Selecting \<longrightarrow> pt_counts (lv_pending s) ! i = join_len (lv_loops s ! i))"

lemma listen_step_pending:
  assumes "listen_step s s'" "pending_inv s"
  shows "pending_inv s'"
  using assms(1)
proof cases
  case (published i l pt)
  then show ?thesis
    using assms(2) by (auto simp: pending_inv_def pending_publish_def Let_def join_len_def nth_list_update split: if_splits)
qed (use assms(2) in \<open>auto simp: pending_inv_def join_len_def nth_list_update\<close>)

definition ended_inv :: "'addr listen_sys \<Rightarrow> bool" where
  "ended_inv s \<longleftrightarrow>
     (\<forall>l \<in> set (lv_loops s). loop_ended l \<longrightarrow> join_len l = 0 \<and> al_phase l \<in> {LoopEnded None, LoopEnded (Some DrainTimeout)})"

definition result_inv :: "'addr listen_sys \<Rightarrow> bool" where
  "result_inv s \<longleftrightarrow> (\<forall>r. lv_result s = Some r \<longrightarrow> (\<forall>l \<in> set (lv_loops s). loop_ended l) \<and>
     r = (if \<exists>l \<in> set (lv_loops s). al_phase l = LoopEnded (Some DrainTimeout) then Inl DrainTimeout else Inr ()))"

lemma put_in_set: "x \<in> set (xs[i := y]) \<Longrightarrow> x = y \<or> x \<in> set xs"
  using set_update_subset_insert by fast

lemma listen_step_ended:
  assumes "listen_step s s'" "ended_inv s"
  shows "ended_inv s'"
  using assms
  by cases (force simp: ended_inv_def loop_ended_def join_len_def dest!: put_in_set)+


lemma listen_step_result:
  assumes "listen_step s s'" "ended_inv s" "result_inv s"
  shows "result_inv s'"
proof (cases "lv_result s")
  case None
  from assms(1) show ?thesis
    by cases (use None assms(2) in \<open>auto simp: result_inv_def ended_inv_def loop_ended_def split: loop_phase.splits\<close>)
next
  case (Some r)
  have e: "loop_ended (lv_loops s ! i) \<and> join_len (lv_loops s ! i) = 0" if "i < length (lv_loops s)" for i
    using Some assms(2,3) that nth_mem unfolding result_inv_def ended_inv_def by blast
  from assms(1) have "lv_loops s' = lv_loops s \<and> lv_result s' = lv_result s"
    by cases (use Some e in \<open>force simp: loop_ended_def join_len_def\<close>)+
  then show ?thesis using assms(3) by (simp add: result_inv_def)
qed

definition listener_ready :: "'addr Listener \<Rightarrow> stats \<Rightarrow> bool" where
  "listener_ready lr st \<longleftrightarrow> listener_cells lr st \<and> ln_sockets lr \<noteq> [] \<and> ln_pending lr = pending_new (length (ln_sockets lr))"

lemma serve_reach:
  assumes "listener_ready lr st" "listen_step\<^sup>*\<^sup>* (serve_start lr st) s"
  shows "counted_inv lr st s \<and> pending_inv s \<and> ended_inv s \<and> result_inv s"
  using assms(2)
proof (induction rule: rtranclp_induct)
  case base
  have "counted_inv lr st (serve_start lr st)"
    using assms(1) by (auto simp: counted_inv_def serve_start_def listener_ready_def listener_cells_def on_gauge_def sum_list_replicate)
  moreover have "max (length (ln_sockets lr)) 1 = length (ln_sockets lr)"
    using assms(1) by (cases "ln_sockets lr") (simp_all add: listener_ready_def)
  then have "pending_inv (serve_start lr st)"
    using assms(1) by (simp add: pending_inv_def serve_start_def listener_ready_def pending_new_def join_len_def sum_list_replicate)
  moreover have "ended_inv (serve_start lr st)" "result_inv (serve_start lr st)"
    by (auto simp: ended_inv_def result_inv_def serve_start_def loop_ended_def)
  ultimately show ?case by blast
next
  case (step y z)
  then show ?case using listen_step_counted listen_step_pending listen_step_ended listen_step_result by metis
qed

text \<open>Binding gives a listener the loops can start from.\<close>

lemma bind_group_length: "bind_group os a k n = Inr ss \<Longrightarrow> length ss = n"
proof (induction n arbitrary: k ss)
  case (Suc n)
  then show ?case by (cases "os_bind os k True a"; cases "bind_group os a (k + 1) n") auto
qed simp

lemma bind_listeners_length:
  assumes "bind_listeners os addr reuse n = Inr ss"
  shows "length ss = (if reuse \<and> os_linux os then max n 1 else 1)"
proof (cases "(if reuse \<and> os_linux os then max n 1 else 1) \<le> 1")
  case True
  then show ?thesis using assms by (auto simp: bind_listeners_def Let_def split: option.splits if_splits)
next
  case False
  then obtain f where "os_bind os 0 True addr = Some f"
      "map_sum id ((#) f) (bind_group os f 1 (max n 1 - 1)) = (Inr ss :: 'a ListenerError + 'a list)" "reuse \<and> os_linux os"
    using assms by (auto simp: bind_listeners_def Let_def split: option.splits if_splits)
  then show ?thesis by (cases "bind_group os f 1 (max n 1 - 1)") (auto dest: bind_group_length)
qed

lemma names_keepD: "names_keep st st' \<Longrightarrow> bt_get (reg_map st) n = Some h \<Longrightarrow> bt_get (reg_map st') n = Some h"
  by (simp add: names_keep_def)

lemma register_listener_obtains:
  assumes "stats_wf st" "register_listener_stats name st = (Inr hs, st1)"
  obtains a b d g where "hs = (a, b, d, g)" "names_keep st st1"
    "bt_get (reg_map st1) (''listener.'' @ name @ ''.downstream_cx_total'') = Some (HCounter a)"
    "bt_get (reg_map st1) (''listener.'' @ name @ ''.downstream_cx_active'') = Some (HGauge b)"
    "bt_get (reg_map st1) (''listener.'' @ name @ ''.downstream_cx_accept_failed'') = Some (HCounter d)"
    "bt_get (reg_map st1) ''listener_manager.total_listeners_active'' = Some (HGauge g)"
proof -
  let ?n = "\<lambda>x. ''listener.'' @ name @ x"
  obtain a s1 b s2 d s3 g where r: "register_counter (?n ''.downstream_cx_total'') st = (Inr a, s1)"
      "register_gauge (?n ''.downstream_cx_active'') s1 = (Inr b, s2)"
      "register_counter (?n ''.downstream_cx_accept_failed'') s2 = (Inr d, s3)"
      "register_gauge ''listener_manager.total_listeners_active'' s3 = (Inr g, st1)" and hs: "hs = (a, b, d, g)"
    using assms(2) by (auto simp: register_listener_stats_def reg_then_Inr)
  note k1 = register_keeps(1) [OF assms(1) r(1)]
  note k2 = register_keeps(2) [OF k1 [THEN conjunct1, unfolded names_keep_def, THEN conjunct1] r(2)]
  note k3 = register_keeps(1) [OF k2 [THEN conjunct1, unfolded names_keep_def, THEN conjunct1] r(3)]
  note k4 = register_keeps(2) [OF k3 [THEN conjunct1, unfolded names_keep_def, THEN conjunct1] r(4)]
  have n2: "names_keep s2 st1" using k3 k4 names_keep_trans by blast
  then have n1: "names_keep s1 st1" using k2 names_keep_trans by blast
  then have "names_keep st st1" using k1 names_keep_trans by blast
  note that [OF hs this names_keepD [OF n1 k1 [THEN conjunct2]] names_keepD [OF n2 k2 [THEN conjunct2]]
      names_keepD [OF k4 [THEN conjunct1] k3 [THEN conjunct2]] k4 [THEN conjunct2]]
  then show thesis .
qed

lemma register_listener_cells:
  assumes "stats_wf st" "register_listener_stats name st = (Inr hs, st1)" "names_keep st1 st'"
  shows "listener_cells (make_listener ss hs c) st'"
proof -
  obtain a b d g where hs: "hs = (a, b, d, g)"
    and lk1: "bt_get (reg_map st1) (''listener.'' @ name @ ''.downstream_cx_total'') = Some (HCounter a)"
      "bt_get (reg_map st1) (''listener.'' @ name @ ''.downstream_cx_active'') = Some (HGauge b)"
      "bt_get (reg_map st1) (''listener.'' @ name @ ''.downstream_cx_accept_failed'') = Some (HCounter d)"
      "bt_get (reg_map st1) ''listener_manager.total_listeners_active'' = Some (HGauge g)"
    by (rule register_listener_obtains [OF assms(1,2)])
  note lk = lk1 [THEN names_keepD [OF assms(3)]]
  have wf: "stats_wf st'" using assms(3) by (simp add: names_keep_def)
  show ?thesis
    using handles_differ [OF wf lk(1,3)] handles_differ [OF wf lk(2,4)] wf_handle_ok [OF wf lk(1)] wf_handle_ok [OF wf lk(2)]
      wf_handle_ok [OF wf lk(3)] wf_handle_ok [OF wf lk(4)]
    by (simp add: listener_cells_def make_listener_def hs handle_ok_def)
qed

lemma bind_inner_ready:
  assumes "stats_wf st0" "bind_inner net os cfg n reuse st0 = (Inr lr, st1)" "names_keep st1 st"
  shows "listener_ready lr st \<and> length (ln_sockets lr) = (if reuse \<and> os_linux os then max n 1 else 1) \<and> ln_count_active lr"
proof -
  obtain addr ss hs where b: "parse_listener_addr net cfg = Inr addr" "bind_listeners os addr reuse n = Inr ss"
      "register_listener_stats (lc_name cfg) st0 = (Inr hs, st1)" "lr = make_listener ss hs True"
    using assms(2) by (auto simp: bind_inner_def split: sum.splits prod.splits)
  have l: "length ss = (if reuse \<and> os_linux os then max n 1 else 1)" using bind_listeners_length [OF b(2)] .
  then have "ss \<noteq> []" by (auto split: if_splits)
  moreover have "listener_cells lr st" using register_listener_cells [OF assms(1) b(3) assms(3)] b(4) by simp
  moreover have "ln_sockets lr = ss" "ln_pending lr = pending_new (length ss)" "ln_count_active lr"
    by (cases hs; simp add: b(4) make_listener_def)+
  ultimately show ?thesis using l by (simp add: listener_ready_def)
qed

lemma listener_bind_wf:
  assumes "stats_wf st0" "listener_bind net os cfg st0 = (Inr lr, st)"
  shows "stats_wf st"
proof -
  obtain hs where "register_listener_stats (lc_name cfg) st0 = (Inr hs, st)"
    using assms(2) by (auto simp: listener_bind_def bind_inner_def split: sum.splits prod.splits)
  from register_listener_obtains [OF assms(1) this] show ?thesis by (metis names_keep_def)
qed


text \<open>
  C15. The books of a listener, over any number of accept loops and any interleaving of accepts, failures, handlers that
  return, panic or are aborted, reaps and signals: the counters count the accepts and the accept errors, the active gauge
  is the number of running handlers plus the tasks that ended without their decrement (they leak it), the listener counts as
  active until \<open>serve\<close> returns, publishing the task count never panics and, as long as every loop still accepts (it is not
  published after the signal), the published total is the sum over the loops, and \<open>serve\<close> returns
  with every join set empty, with an error exactly when some loop ran out of its drain budget.
\<close>
theorem listener_accounts:
  assumes "stats_wf st0" "bind_inner net os cfg n reuse st0 = (Inr lr, st1)" "names_keep st1 st"
    and "listen_step\<^sup>*\<^sup>* (serve_start lr st) s"
  shows "counters (lv_stats s) ! ln_cx_total lr = counters st ! ln_cx_total lr + of_nat (lv_accepted s) \<and>
    counters (lv_stats s) ! ln_cx_accept_failed lr = counters st ! ln_cx_accept_failed lr + of_nat (lv_refused s) \<and>
    gauges (lv_stats s) ! ln_cx_active lr = gauges st ! ln_cx_active lr + (\<Sum>l \<leftarrow> lv_loops s. of_nat (al_running l + al_lost l)) \<and>
    gauges (lv_stats s) ! ln_manager_active lr = gauges st ! ln_manager_active lr + (if lv_result s = None then 1 else 0) \<and>
    (\<forall>i < length (lv_loops s). \<forall>k. pending_publish i k (lv_pending s) \<noteq> None) \<and>
    ((\<forall>l \<in> set (lv_loops s). al_phase l = Selecting) \<longrightarrow> pt_total (lv_pending s) = (\<Sum>l \<leftarrow> lv_loops s. al_running l + al_done l)) \<and>
    (\<forall>r. lv_result s = Some r \<longrightarrow> (\<forall>l \<in> set (lv_loops s). al_running l = 0 \<and> al_done l = 0) \<and>
       r = (if \<exists>l \<in> set (lv_loops s). al_phase l = LoopEnded (Some DrainTimeout) then Inl DrainTimeout else Inr ()))"
proof -
  from bind_inner_ready [OF assms(1-3)] have rdy: "listener_ready lr st" "ln_count_active lr" by simp_all
  from serve_reach [OF rdy(1) assms(4)] have
    c: "counted_inv lr st s" and p: "pending_inv s" and e: "ended_inv s" and r: "result_inv s" by blast+
  have sum: "(\<Sum>l \<leftarrow> ls. of_nat (al_running l + al_lost l)) = (of_nat (sum_list (map on_gauge ls)) :: i64)" for ls :: "'a accept_loop list"
    by (induction ls) (simp_all add: on_gauge_def)
  have "pt_counts (lv_pending s) = map join_len (lv_loops s)" if "\<forall>l \<in> set (lv_loops s). al_phase l = Selecting"
    using p that by (intro nth_equalityI) (simp_all add: pending_inv_def)
  then have t: "(\<forall>l \<in> set (lv_loops s). al_phase l = Selecting) \<longrightarrow>
      pt_total (lv_pending s) = (\<Sum>l \<leftarrow> lv_loops s. al_running l + al_done l)"
    using p by (simp add: pending_inv_def join_len_def [abs_def])
  have z: "\<forall>r. lv_result s = Some r \<longrightarrow> (\<forall>l \<in> set (lv_loops s). al_running l = 0 \<and> al_done l = 0)"
    using r e by (simp add: result_inv_def ended_inv_def join_len_def)
  show ?thesis
    using c p r t z rdy(2) unfolding counted_inv_def sum
    by (simp add: pending_inv_def pending_publish_def Let_def result_inv_def)
qed

text \<open>
  A drain that runs out of its budget leaves the active gauge behind: the aborted handler never reaches its decrement, so
  with nothing left running the gauge of the listener still counts its connection, for good.
\<close>
theorem drain_timeout_leaks_gauge:
  fixes lr :: "'a Listener"
  assumes "stats_wf st0" "listener_bind net os cfg st0 = (Inr lr, st)"
  shows "\<exists>s. listen_step\<^sup>*\<^sup>* (serve_start lr st) s \<and> lv_result s = Some (Inl DrainTimeout) \<and>
    (\<forall>l \<in> set (lv_loops s). al_running l = 0) \<and>
    gauges (lv_stats s) ! ln_cx_active lr = gauges st ! ln_cx_active lr + 1"
proof -
  have k: "names_keep st st" using listener_bind_wf [OF assms] by (simp add: names_keep_def)
  note b = bind_inner_ready [OF assms(1) assms(2) [unfolded listener_bind_def] k]
  let ?s0 = "serve_start lr st"
  define l :: "'a accept_loop" where "l = \<lparr>al_phase = Selecting, al_running = 0, al_done = 0, al_lost = 0\<rparr>"
  have loops: "lv_loops ?s0 = [l]" and res: "lv_result ?s0 = None" "lv_listener ?s0 = lr" "lv_pending ?s0 = pending_new 1"
    using b by (auto simp: serve_start_def l_def listener_ready_def length_Suc_conv)
  let ?s1 = "put_loop 0 (l\<lparr>al_phase := Publishing, al_running := al_running l + 1\<rparr>)
      (on_stats (gauge_inc (ln_cx_active (lv_listener ?s0)) \<circ> counter_inc (ln_cx_total (lv_listener ?s0)))
        (?s0\<lparr>lv_accepted := lv_accepted ?s0 + 1\<rparr>))"
  let ?l1 = "l\<lparr>al_phase := Selecting, al_running := 1\<rparr>"
  let ?s2 = "put_loop 0 ?l1 (?s1\<lparr>lv_pending := \<lparr>pt_counts = [1], pt_total = 1\<rparr>\<rparr>)"
  let ?s3 = "?s2\<lparr>lv_stop := True\<rparr>"
  let ?s4 = "put_loop 0 (?l1\<lparr>al_phase := DrainWaiting\<rparr>) ?s3"
  let ?s5 = "put_loop 0 (?l1\<lparr>al_phase := Aborting\<rparr>) ?s4"
  let ?l6 = "l\<lparr>al_phase := Aborting, al_done := 1, al_lost := 1\<rparr>"
  let ?s6 = "put_loop 0 ?l6 ?s5"
  let ?s7 = "put_loop 0 (?l6\<lparr>al_done := 0\<rparr>) ?s6"
  let ?l8 = "?l6\<lparr>al_done := 0, al_phase := LoopEnded (Some DrainTimeout)\<rparr>"
  let ?s8 = "put_loop 0 ?l8 ?s7"
  let ?s9 = "on_stats (\<lambda>st. if ln_count_active (lv_listener ?s8) then gauge_dec (ln_manager_active (lv_listener ?s8)) st else st)
      (?s8\<lparr>lv_result := Some (Inl DrainTimeout)\<rparr>)"
  have "listen_step ?s0 ?s1" using listen_step.accepted [of 0 ?s0 l] by (simp add: loops l_def)
  moreover have "listen_step ?s1 ?s2"
    using listen_step.published [of 0 ?s1 "l\<lparr>al_phase := Publishing, al_running := 1\<rparr>"]
    by (simp add: loops l_def join_len_def pending_publish_def res pending_new_def)
  moreover have "listen_step ?s2 ?s3" by (rule listen_step.signal)
  moreover have "listen_step ?s3 ?s4" by (rule listen_step.stopped) (simp_all add: loops l_def)
  moreover have "listen_step ?s4 ?s5" using listen_step.timed_out [of 0 ?s4 "?l1\<lparr>al_phase := DrainWaiting\<rparr>"]
    by (simp add: loops l_def join_len_def)
  moreover have "listen_step ?s5 ?s6" using listen_step.aborted [of 0 ?s5 "?l1\<lparr>al_phase := Aborting\<rparr>"] by (simp add: loops l_def)
  moreover have "listen_step ?s6 ?s7" using listen_step.drain_reaped [of 0 ?s6 ?l6] by (simp add: loops l_def)
  moreover have "listen_step ?s7 ?s8" using listen_step.gave_up [of 0 ?s7 "?l6\<lparr>al_done := 0\<rparr>"] by (simp add: loops l_def join_len_def)
  moreover have "listen_step ?s8 ?s9" by (rule listen_step.serve_err [of _ ?l8]) (simp_all add: loops l_def loop_ended_def res)
  ultimately have r: "listen_step\<^sup>*\<^sup>* ?s0 ?s9" by (meson rtranclp.rtrancl_into_rtrancl rtranclp.rtrancl_refl)
  define s9 where "s9 = ?s9"
  have "lv_loops s9 = [?l8]" "lv_result s9 = Some (Inl DrainTimeout)" by (simp_all add: s9_def loops)
  moreover from serve_reach [OF b [THEN conjunct1] r] have "counted_inv lr st s9" unfolding s9_def by blast
  ultimately show ?thesis
    using r [folded s9_def] by (intro exI [of _ s9]) (simp add: l_def counted_inv_def on_gauge_def)
qed


section \<open>What the gate admits\<close>

definition permits :: "ConnectionInfo \<Rightarrow> NetworkRbacFilter \<Rightarrow> bool" where
  "permits conn f = (case nf_rules f of None \<Rightarrow> True | Some rules \<Rightarrow> engine_allows rules conn = Some True)"

definition tick_filter :: "ConnectionInfo \<Rightarrow> NetworkRbacFilter \<Rightarrow> stats \<Rightarrow> stats" where
  "tick_filter conn f st = (case nf_rules f of None \<Rightarrow> st
     | Some rules \<Rightarrow> counter_inc (if permits conn f then nf_allowed f else nf_denied f) st)"

text \<open>
  The gate admits a connection exactly when every filter permits it; it consults the filters in order up to the first
  that does not, and each consulted filter counts its verdict once.
\<close>
theorem gate_run_decides:
  assumes "\<forall>f \<in> set fs. \<forall>rules. nf_rules f = Some rules \<longrightarrow> engine_allows rules conn \<noteq> None"
  shows "gate_run fs conn st = Some (if \<forall>f \<in> set fs. permits conn f then Admitted else Denied,
    fold (tick_filter conn) (takeWhile (permits conn) fs @ take 1 (dropWhile (permits conn) fs)) st)"
  using assms
proof (induction fs arbitrary: st)
  case Nil
  then show ?case by simp
next
  case (Cons f fs)
  have f: "on_new_connection f conn st = Some (if permits conn f then NfContinue else NfStopIteration, tick_filter conn f st)"
  proof (cases "nf_rules f")
    case None
    then show ?thesis by (simp add: on_new_connection_def permits_def tick_filter_def)
  next
    case (Some rules)
    with Cons.prems obtain ok where "engine_allows rules conn = Some ok" by auto
    with Some show ?thesis by (simp add: on_new_connection_def permits_def tick_filter_def)
  qed
  show ?case
    using Cons.IH [of "tick_filter conn f st"] Cons.prems by (cases "permits conn f") (simp_all add: f)
qed

lemma gate_run_decides_witness:
  "gate_run [\<lparr>nf_rules = None, nf_allowed = 0, nf_denied = 1\<rparr>] \<lparr>local_ip = V4 [0, 0, 0, 0], local_port = 80, peer_ip = V4 [0, 0, 0, 0]\<rparr> registry_new
     = Some (Admitted, registry_new)"
  using gate_run_decides [of "[\<lparr>nf_rules = None, nf_allowed = 0, nf_denied = 1\<rparr>]"
      "\<lparr>local_ip = V4 [0, 0, 0, 0], local_port = 80, peer_ip = V4 [0, 0, 0, 0]\<rparr>" registry_new]
  by (simp add: permits_def tick_filter_def)

section \<open>In the small\<close>

definition demo_listener_net :: "nat net" where
  "demo_listener_net = \<lparr>parse_socket_addr = (\<lambda>_. Some 80), lookup_host = (\<lambda>_. None), addr_to_string = show_nat\<rparr>"

definition demo_os :: "nat os" where
  "demo_os = \<lparr>os_linux = True, os_bind = (\<lambda>_ _ a. Some a)\<rparr>"

definition demo_listener :: ListenerConfig where
  "demo_listener = \<lparr>lc_name = ''l'', lc_address = ''0.0.0.0'', lc_port_value = 80, lc_enable_reuse_port = True\<rparr>"

lemma demo_bound:
  "\<exists>lr st. bind_inner demo_listener_net demo_os demo_listener 2 True registry_new = (Inr lr, st)"
  "\<exists>lr st. listener_bind demo_listener_net demo_os demo_listener registry_new = (Inr lr, st)"
proof -
  have "\<not> isl (fst (bind_inner demo_listener_net demo_os demo_listener 2 True registry_new))"
    "\<not> isl (fst (listener_bind demo_listener_net demo_os demo_listener registry_new))" by code_simp+
  then show "\<exists>lr st. bind_inner demo_listener_net demo_os demo_listener 2 True registry_new = (Inr lr, st)"
    "\<exists>lr st. listener_bind demo_listener_net demo_os demo_listener registry_new = (Inr lr, st)"
    by (metis prod.collapse sum.collapse(2))+
qed

theorem listener_accounts_witness:
  "\<exists>lr st s. bind_inner demo_listener_net demo_os demo_listener 2 True registry_new = (Inr lr, st) \<and>
    listen_step\<^sup>*\<^sup>* (serve_start lr st) s \<and> length (lv_loops s) = 2 \<and>
    gauges (lv_stats s) ! ln_cx_active lr = gauges st ! ln_cx_active lr + 1"
proof -
  obtain lr st where b: "bind_inner demo_listener_net demo_os demo_listener 2 True registry_new = (Inr lr, st)"
    using demo_bound(1) by blast
  then obtain hs where h: "register_listener_stats (lc_name demo_listener) registry_new = (Inr hs, st)"
    by (auto simp: bind_inner_def split: sum.splits prod.splits)
  have k: "names_keep st st"
    by (rule register_listener_obtains [OF stats_wf_new h]) (simp add: names_keep_def)
  note r = bind_inner_ready [OF stats_wf_new b k]
  let ?u = "serve_start lr st"
  define l :: "nat accept_loop" where "l = \<lparr>al_phase = Selecting, al_running = 0, al_done = 0, al_lost = 0\<rparr>"
  let ?s = "put_loop 0 (l\<lparr>al_phase := Publishing, al_running := al_running l + 1\<rparr>)
      (on_stats (gauge_inc (ln_cx_active (lv_listener ?u)) \<circ> counter_inc (ln_cx_total (lv_listener ?u)))
        (?u\<lparr>lv_accepted := lv_accepted ?u + 1\<rparr>))"
  have "length (ln_sockets lr) = Suc (Suc 0)" using r by (simp add: demo_os_def)
  then have l0: "lv_loops ?u = [l, l]" by (simp add: l_def serve_start_def)
  have loops: "al_phase l = Selecting" "al_running l = 0" "al_lost l = 0" by (simp_all add: l_def)
  have "listen_step ?u ?s" by (rule listen_step.accepted) (simp_all add: loops l0)
  then have s: "listen_step\<^sup>*\<^sup>* ?u ?s" by blast
  from listener_accounts [OF stats_wf_new b k s]
  have "gauges (lv_stats ?s) ! ln_cx_active lr = gauges st ! ln_cx_active lr + (\<Sum>l \<leftarrow> lv_loops ?s. of_nat (al_running l + al_lost l))"
    by blast
  moreover have "(\<Sum>l \<leftarrow> lv_loops ?s. of_nat (al_running l + al_lost l)) = (1 :: i64)" by (simp add: loops l0)
  ultimately have "gauges (lv_stats ?s) ! ln_cx_active lr = gauges st ! ln_cx_active lr + 1" by metis
  moreover have "length (lv_loops ?s) = 2" by (simp add: l0)
  ultimately show ?thesis using b s by blast
qed

theorem drain_timeout_leaks_gauge_witness:
  "\<exists>lr st s. listener_bind demo_listener_net demo_os demo_listener registry_new = (Inr lr, st) \<and>
    listen_step\<^sup>*\<^sup>* (serve_start lr st) s \<and> lv_result s = Some (Inl DrainTimeout) \<and>
    gauges (lv_stats s) ! ln_cx_active lr = gauges st ! ln_cx_active lr + 1"
  using demo_bound(2) drain_timeout_leaks_gauge [OF stats_wf_new] by metis

end
