(* ===== verification/Tcp_Proxy.thy ===== *)
theory Tcp_Proxy
  imports Listener Proxy
begin

text \<open>
  \<open>envoy-tcp/src/lib.rs\<close>: the TCP proxy. Connecting is a function of what the dial and the handshake give; the relay, with
  and without the first-byte gate, is a step relation on the two copies. A copy reads bytes into its buffer and writes
  bytes out of it; it ends at the end of its input once its buffer is written, or with an error at any time.
\<close>

section \<open>Establishment\<close>

datatype 'addr TcpProxyError =
    NoHealthyEndpoint string | UpstreamConnect 'addr | CopyFailed | UpstreamTlsHandshake | SocketError

text \<open>\<open>dial\<close> is the TCP connect; \<open>tls\<close> is \<open>None\<close> for a plaintext upstream and else the outcome of the handshake.\<close>

record 'addr TcpProxy =
  tp_cluster_name :: string
  tp_dial :: "'addr \<Rightarrow> bool"
  tp_tls :: "('addr \<Rightarrow> bool) option"

text \<open>\<open>None\<close> is a panic of the pick. On success the guard of the gauge is held.\<close>

definition connect_upstream :: "'addr TcpProxy \<Rightarrow> 'addr cluster \<times> stats
    \<Rightarrow> (('addr TcpProxyError + 'addr) \<times> 'addr cluster \<times> stats) option" where
  "connect_upstream tp cst =
     (case pick (fst cst) None None of
        (IndexPanic, c) \<Rightarrow> None
      | (NoEndpoint, c) \<Rightarrow> Some (Inl (NoHealthyEndpoint (tp_cluster_name tp)), c, snd cst)
      | (Picked addr, c) \<Rightarrow>
          (let st1 = gauge_inc (cx_active c) (snd cst) in
           if \<not> tp_dial tp addr then Some (Inl (UpstreamConnect addr), c, gauge_dec (cx_active c) st1)
           else let st2 = counter_inc (cx_total c) st1 in
             case tp_tls tp of
               None \<Rightarrow> Some (Inr addr, c, st2)
             | Some handshake \<Rightarrow>
                 if handshake addr then Some (Inr addr, c, st2)
                 else Some (Inl UpstreamTlsHandshake, c, gauge_dec (cx_active c) st2)))"

section \<open>The relay\<close>

text \<open>How a relay ends; only the last two are errors.\<close>

datatype 'addr tcp_end = ClientDone | UpstreamDone | ClosedQuietly | ClientGone | RelayFailed "'addr TcpProxyError"

datatype 'addr tcp_phase = Gating | Injecting u8 | Relaying | FinDraining | ClosingDown | Finished "'addr tcp_end"

definition relay_result :: "'addr tcp_end \<Rightarrow> 'addr TcpProxyError + unit" where
  "relay_result e = (case e of RelayFailed err \<Rightarrow> Inl err | _ \<Rightarrow> Inr ())"

record 'addr tcp_sys =
  ts_phase :: "'addr tcp_phase"
  ts_down_in :: bytes
  ts_up_buf :: bytes
  ts_up_out :: bytes
  ts_up_in :: bytes
  ts_down_buf :: bytes
  ts_down_out :: bytes
  ts_stats :: stats

text \<open>The guard of the gauge is dropped when the relay returns.\<close>

definition finish :: "nat \<Rightarrow> 'addr tcp_end \<Rightarrow> 'addr tcp_sys \<Rightarrow> 'addr tcp_sys" where
  "finish g e s = s\<lparr>ts_phase := Finished e, ts_stats := gauge_dec g (ts_stats s)\<rparr>"

text \<open>
  \<open>relay_gated\<close> from \<open>Gating\<close>, \<open>relay\<close> from \<open>Relaying\<close>. The upstream copy is one future throughout; it is not polled while
  the first byte is written upstream.
\<close>

inductive tcp_step :: "NetworkRbacFilter list \<Rightarrow> ConnectionInfo \<Rightarrow> nat \<Rightarrow> 'addr tcp_sys \<Rightarrow> 'addr tcp_sys \<Rightarrow> bool"
  for fs :: "NetworkRbacFilter list" and conn :: ConnectionInfo and g :: nat where
  up_read: "ts_phase s \<in> {Gating, Relaying, FinDraining} \<Longrightarrow>
    tcp_step fs conn g s (s\<lparr>ts_up_in := ts_up_in s @ bs, ts_down_buf := ts_down_buf s @ bs\<rparr>)"
| down_write: "ts_phase s \<in> {Gating, Relaying, FinDraining} \<Longrightarrow>
    tcp_step fs conn g s (s\<lparr>ts_down_out := ts_down_out s @ take n (ts_down_buf s), ts_down_buf := drop n (ts_down_buf s)\<rparr>)"
| up_eof_gating: "ts_phase s = Gating \<Longrightarrow> ts_down_buf s = [] \<Longrightarrow> tcp_step fs conn g s (s\<lparr>ts_phase := ClosingDown\<rparr>)"
| up_eof: "ts_phase s \<in> {Relaying, FinDraining} \<Longrightarrow> ts_down_buf s = [] \<Longrightarrow> tcp_step fs conn g s (finish g UpstreamDone s)"
| up_error: "ts_phase s \<in> {Gating, Relaying} \<Longrightarrow> tcp_step fs conn g s (finish g (RelayFailed CopyFailed) s)"
| up_error_ignored: "ts_phase s = FinDraining \<Longrightarrow> tcp_step fs conn g s (finish g ClosedQuietly s)"
| gate_admits: "ts_phase s = Gating \<Longrightarrow> evaluate_read_half fs (FirstByte b) conn (ts_stats s) = Some (Admitted, first, st) \<Longrightarrow>
    first = Some x \<Longrightarrow>
    tcp_step fs conn g s (s\<lparr>ts_phase := Injecting x, ts_down_in := [b], ts_stats := st\<rparr>)"
| gate_admits_fin: "ts_phase s = Gating \<Longrightarrow> evaluate_read_half fs FirstEof conn (ts_stats s) = Some (Admitted, first, st) \<Longrightarrow>
    tcp_step fs conn g s (s\<lparr>ts_phase := FinDraining, ts_stats := st\<rparr>)"
| gate_denies: "ts_phase s = Gating \<Longrightarrow> evaluate_read_half fs (FirstByte b) conn (ts_stats s) = Some (Denied, first, st) \<Longrightarrow>
    tcp_step fs conn g s (s\<lparr>ts_phase := ClosingDown, ts_down_in := [b], ts_stats := st\<rparr>)"
| gate_denies_fin: "ts_phase s = Gating \<Longrightarrow> evaluate_read_half fs FirstEof conn (ts_stats s) = Some (Denied, first, st) \<Longrightarrow>
    tcp_step fs conn g s (s\<lparr>ts_phase := ClosingDown, ts_stats := st\<rparr>)"
| gate_gone: "ts_phase s = Gating \<Longrightarrow> evaluate_read_half fs FirstFailed conn (ts_stats s) = Some (ClientGoneEarly, first, st) \<Longrightarrow>
    tcp_step fs conn g s (finish g ClientGone (s\<lparr>ts_stats := st\<rparr>))"
| injected: "ts_phase s = Injecting b \<Longrightarrow>
    tcp_step fs conn g s (s\<lparr>ts_phase := Relaying, ts_up_out := ts_up_out s @ [b]\<rparr>)"
| inject_failed: "ts_phase s = Injecting b \<Longrightarrow> tcp_step fs conn g s (finish g (RelayFailed CopyFailed) s)"
| down_read: "ts_phase s = Relaying \<Longrightarrow>
    tcp_step fs conn g s (s\<lparr>ts_down_in := ts_down_in s @ bs, ts_up_buf := ts_up_buf s @ bs\<rparr>)"
| up_write: "ts_phase s = Relaying \<Longrightarrow>
    tcp_step fs conn g s (s\<lparr>ts_up_out := ts_up_out s @ take n (ts_up_buf s), ts_up_buf := drop n (ts_up_buf s)\<rparr>)"
| down_eof: "ts_phase s = Relaying \<Longrightarrow> ts_up_buf s = [] \<Longrightarrow> tcp_step fs conn g s (finish g ClientDone s)"
| down_error: "ts_phase s = Relaying \<Longrightarrow> tcp_step fs conn g s (finish g (RelayFailed CopyFailed) s)"
| closed: "ts_phase s = ClosingDown \<Longrightarrow> tcp_step fs conn g s (finish g ClosedQuietly s)"
| close_failed: "ts_phase s = ClosingDown \<Longrightarrow> tcp_step fs conn g s (finish g (RelayFailed SocketError) s)"

definition tcp_start :: "bool \<Rightarrow> stats \<Rightarrow> 'addr tcp_sys" where
  "tcp_start gated st =
     \<lparr>ts_phase = (if gated then Gating else Relaying), ts_down_in = [], ts_up_buf = [], ts_up_out = [],
      ts_up_in = [], ts_down_buf = [], ts_down_out = [], ts_stats = st\<rparr>"

section \<open>What the relay keeps\<close>

lemma gate_admitted: "gate_run fs conn st = Some (Admitted, st') \<Longrightarrow> \<forall>f \<in> set fs. permits conn f"
proof (induction fs arbitrary: st)
  case (Cons f fs)
  then obtain st1 where f: "on_new_connection f conn st = Some (NfContinue, st1)" "gate_run fs conn st1 = Some (Admitted, st')"
    by (auto split: option.splits NetworkFilterStatus.splits)
  have "permits conn f"
    using f(1) by (auto simp: on_new_connection_def permits_def split: option.splits if_splits)
  with Cons.IH [OF f(2)] show ?case by simp
qed simp

lemma gate_run_cells:
  "gate_run fs conn st = Some (r, st') \<Longrightarrow> gauges st' = gauges st \<and> r \<in> {Admitted, Denied}"
proof (induction fs arbitrary: st)
  case (Cons f fs)
  then show ?case
    by (fastforce simp: on_new_connection_def split: option.splits NetworkFilterStatus.splits if_splits)
qed simp

text \<open>The bytes of each direction: written, still in the buffer, and lost only by an error.\<close>

definition relay_inv :: "NetworkRbacFilter list \<Rightarrow> ConnectionInfo \<Rightarrow> bool \<Rightarrow> 'addr tcp_sys \<Rightarrow> bool" where
  "relay_inv fs conn gated s \<longleftrightarrow>
     ts_up_in s = ts_down_out s @ ts_down_buf s \<and>
     (case ts_phase s of
        Gating \<Rightarrow> gated \<and> ts_down_in s = [] \<and> ts_up_out s = [] \<and> ts_up_buf s = []
      | Injecting b \<Rightarrow> (\<forall>f \<in> set fs. permits conn f) \<and> ts_down_in s = [b] \<and> ts_up_out s = [] \<and> ts_up_buf s = []
      | Relaying \<Rightarrow> (gated \<longrightarrow> (\<forall>f \<in> set fs. permits conn f)) \<and> ts_down_in s = ts_up_out s @ ts_up_buf s
      | FinDraining \<Rightarrow> (\<forall>f \<in> set fs. permits conn f) \<and> ts_down_in s = [] \<and> ts_up_out s = []
      | ClosingDown \<Rightarrow> gated \<and> ts_up_out s = []
      | Finished e \<Rightarrow> (gated \<longrightarrow> ts_up_out s = [] \<or> (\<forall>f \<in> set fs. permits conn f)) \<and>
          (\<exists>lost. ts_down_in s = ts_up_out s @ lost) \<and>
          (e = ClientDone \<longrightarrow> ts_down_in s = ts_up_out s) \<and> (e = UpstreamDone \<longrightarrow> ts_up_in s = ts_down_out s))"

lemma tcp_step_relay:
  assumes "tcp_step fs conn g s s'" "relay_inv fs conn gated s"
  shows "relay_inv fs conn gated s'"
  using assms
  by cases (auto simp: relay_inv_def finish_def evaluate_read_half_def dest: gate_admitted)

definition guard_inv :: "nat \<Rightarrow> stats \<Rightarrow> 'addr tcp_sys \<Rightarrow> bool" where
  "guard_inv g st s \<longleftrightarrow> g < length (gauges (ts_stats s)) \<and>
     gauges (ts_stats s) ! g = gauges st ! g - (case ts_phase s of Finished _ \<Rightarrow> 1 | _ \<Rightarrow> 0)"

lemma tcp_step_guard:
  assumes "tcp_step fs conn g s s'" "guard_inv g st s"
  shows "guard_inv g st s'"
  using assms
  by cases (auto simp: guard_inv_def finish_def evaluate_read_half_def dest!: gate_run_cells)


lemma tcp_reach:
  assumes "g < length (gauges st)" "(tcp_step fs conn g)\<^sup>*\<^sup>* (tcp_start gated st) s"
  shows "relay_inv fs conn gated s \<and> guard_inv g st s"
  using assms(2)
proof (induction rule: rtranclp_induct)
  case base
  then show ?case using assms(1) by (simp add: relay_inv_def guard_inv_def tcp_start_def)
next
  case (step y z)
  then show ?case using tcp_step_relay tcp_step_guard by metis
qed

text \<open>
  C18. The relay is exact, however reads, writes, ends and errors of the two directions interleave: what has been written to
  either side is a prefix of what was read from the other, nothing is written upstream by a gated connection that a filter
  does not permit, and a relay that ends because one side is done has delivered everything that side sent.
\<close>
theorem tcp_relay_exact:
  assumes "g < length (gauges st)" "(tcp_step fs conn g)\<^sup>*\<^sup>* (tcp_start gated st) s"
  shows "(\<exists>rest. ts_down_in s = ts_up_out s @ rest) \<and> (\<exists>rest. ts_up_in s = ts_down_out s @ rest) \<and>
    (gated \<and> ts_up_out s \<noteq> [] \<longrightarrow> (\<forall>f \<in> set fs. permits conn f)) \<and>
    (ts_phase s = Finished ClientDone \<longrightarrow> ts_up_out s = ts_down_in s) \<and>
    (ts_phase s = Finished UpstreamDone \<longrightarrow> ts_down_out s = ts_up_in s)"
  using tcp_reach [OF assms] by (auto simp: relay_inv_def split: tcp_phase.splits)

section \<open>The books of a connection\<close>

lemma connect_upstream_counts:
  assumes "cluster_wf c" "cx_active c < length (gauges st)" "cx_total c < length (counters st)"
  shows "\<exists>r c' st'. connect_upstream tp (c, st) = Some (r, c', st') \<and> cx_active c' = cx_active c \<and>
    length (gauges st') = length (gauges st) \<and>
    gauges st' ! cx_active c = gauges st ! cx_active c + (case r of Inl _ \<Rightarrow> 0 | Inr _ \<Rightarrow> 1) \<and>
    counters st' ! cx_total c = counters st ! cx_total c +
      (case r of Inl (NoHealthyEndpoint _) \<Rightarrow> 0 | Inl (UpstreamConnect _) \<Rightarrow> 0 | _ \<Rightarrow> 1) \<and>
    (\<forall>addr. r = Inr addr \<longrightarrow> addr \<in> set (cl_endpoints c))"
proof -
  obtain p c' where p: "pick c None None = (p, c')" by fastforce
  have k: "cx_active c' = cx_active c" "cx_total c' = cx_total c"
    using pick_cluster [OF p] by (auto simp: bump_cursor_def)
  have "fst (pick c None None) = NoEndpoint \<or> (\<exists>e \<in> set (cl_endpoints c). fst (pick c None None) = Picked e)"
    using pick_all_endpoint [OF assms(1), of None] pick_subset_endpoint [OF assms(1)]
    by (auto simp: pick_def split: option.splits eligible.splits) (metis nth_mem)+
  with p have e: "p = NoEndpoint \<or> (\<exists>e \<in> set (cl_endpoints c). p = Picked e)" by simp
  show ?thesis
    using e p k assms(2,3) by (auto simp: connect_upstream_def Let_def split: option.splits)
qed

text \<open>
  A proxied connection leaves the books of its cluster balanced: the pick never panics, the dialled endpoint is one of the
  cluster's, the connection counter moves exactly when the dial succeeded, the active gauge is raised exactly while a
  relay runs, and when it has ended, in whatever way, the gauge is back where it was.
\<close>
theorem tcp_connection_balanced:
  assumes "cluster_wf c" "cx_active c < length (gauges st)" "cx_total c < length (counters st)"
  shows "\<exists>r c' st'. connect_upstream tp (c, st) = Some (r, c', st') \<and>
    counters st' ! cx_total c = counters st ! cx_total c +
      (case r of Inl (NoHealthyEndpoint _) \<Rightarrow> 0 | Inl (UpstreamConnect _) \<Rightarrow> 0 | _ \<Rightarrow> 1) \<and>
    (\<forall>err. r = Inl err \<longrightarrow> gauges st' ! cx_active c = gauges st ! cx_active c) \<and>
    (\<forall>addr. r = Inr addr \<longrightarrow> addr \<in> set (cl_endpoints c) \<and>
      (\<forall>gated s. (tcp_step fs conn (cx_active c'))\<^sup>*\<^sup>* (tcp_start gated st' :: 'a tcp_sys) s \<longrightarrow>
        gauges (ts_stats s) ! cx_active c =
          gauges st ! cx_active c + (if \<exists>e. ts_phase s = Finished e then 0 else 1)))"
proof -
  from connect_upstream_counts [OF assms, of tp] obtain r c' st' where
    u: "connect_upstream tp (c, st) = Some (r, c', st')" "cx_active c' = cx_active c" "length (gauges st') = length (gauges st)"
      "gauges st' ! cx_active c = gauges st ! cx_active c + (case r of Inl _ \<Rightarrow> 0 | Inr _ \<Rightarrow> 1)"
      "counters st' ! cx_total c = counters st ! cx_total c +
        (case r of Inl (NoHealthyEndpoint _) \<Rightarrow> 0 | Inl (UpstreamConnect _) \<Rightarrow> 0 | _ \<Rightarrow> 1)"
      "\<forall>addr. r = Inr addr \<longrightarrow> addr \<in> set (cl_endpoints c)" by blast
  have "gauges (ts_stats s) ! cx_active c = gauges st ! cx_active c + (if \<exists>e. ts_phase s = Finished e then 0 else 1)"
    if "r = Inr addr" "(tcp_step fs conn (cx_active c'))\<^sup>*\<^sup>* (tcp_start gated st' :: 'a tcp_sys) s" for addr gated s
    using tcp_reach [OF _ that(2)] that(1) u(2-4) assms(2) by (auto simp: guard_inv_def split: tcp_phase.splits)
  with u show ?thesis by auto
qed

section \<open>In the small\<close>

theorem tcp_relay_exact_witness:
  "\<exists>s :: nat tcp_sys. (tcp_step [] \<lparr>local_ip = V4 [], local_port = 80, peer_ip = V4 []\<rparr> 0)\<^sup>*\<^sup>*
      (tcp_start True (registry_new\<lparr>gauges := [1]\<rparr>)) s \<and>
    ts_phase s = Finished ClientDone \<and> ts_down_in s = [71] \<and> ts_up_out s = [71]"
proof -
  let ?st = "registry_new\<lparr>gauges := [1 :: i64]\<rparr>"
  let ?t = "tcp_step [] \<lparr>local_ip = V4 [], local_port = 80, peer_ip = V4 []\<rparr> 0 :: nat tcp_sys \<Rightarrow> _"
  let ?a = "tcp_start True ?st :: nat tcp_sys"
  let ?b = "?a\<lparr>ts_phase := Injecting 71, ts_down_in := [71], ts_stats := ?st\<rparr>"
  let ?c = "?b\<lparr>ts_phase := Relaying, ts_up_out := ts_up_out ?b @ [71]\<rparr>"
  let ?d = "finish 0 ClientDone ?c"
  have "?t ?a ?b" by (rule tcp_step.gate_admits [where b = 71 and first = "Some 71"]) (simp_all add: tcp_start_def evaluate_read_half_def)
  moreover have "?t ?b ?c" by (rule tcp_step.injected) simp
  moreover have "?t ?c ?d" by (rule tcp_step.down_eof) (simp_all add: tcp_start_def)
  ultimately have r: "?t\<^sup>*\<^sup>* ?a ?d" by (meson rtranclp.rtrancl_into_rtrancl rtranclp.rtrancl_refl)
  have "ts_phase ?d = Finished ClientDone" "ts_down_in ?d = [71]" by (simp_all add: finish_def)
  with tcp_relay_exact [OF _ r] r show ?thesis by (intro exI [of _ ?d]) simp
qed

theorem tcp_connection_balanced_witness:
  "\<exists>c' st'. connect_upstream \<lparr>tp_cluster_name = ''c'', tp_dial = (\<lambda>_. True), tp_tls = Some (\<lambda>_. False)\<rparr>
      (plain [7 :: nat], registry_new\<lparr>gauges := [0], counters := [0]\<rparr>) = Some (Inl UpstreamTlsHandshake, c', st') \<and>
    gauges st' ! 0 = 0 \<and> counters st' ! 0 = 1"
proof -
  let ?tp = "\<lparr>tp_cluster_name = ''c'', tp_dial = (\<lambda>_. True), tp_tls = Some (\<lambda>_. False)\<rparr> :: nat TcpProxy"
  let ?st = "registry_new\<lparr>gauges := [0], counters := [0]\<rparr>"
  have c: "cluster_wf (plain [7 :: nat])" "cx_active (plain [7 :: nat]) = 0" "cx_total (plain [7 :: nat]) = 0"
    by (simp_all add: cluster_wf_def plain_def)
  obtain r c' st' where u: "connect_upstream ?tp (plain [7], ?st) = Some (r, c', st')"
      "counters st' ! 0 = 0 + (case r of Inl (NoHealthyEndpoint _) \<Rightarrow> 0 | Inl (UpstreamConnect _) \<Rightarrow> 0 | _ \<Rightarrow> 1)"
      "\<forall>err. r = Inl err \<longrightarrow> gauges st' ! 0 = 0"
    using tcp_connection_balanced [of "plain [7 :: nat]" ?st ?tp "[]" "\<lparr>local_ip = V4 [], local_port = 80, peer_ip = V4 []\<rparr>"] c
    by auto
  have pick: "pick (plain [7 :: nat]) None None = (Picked 7, bump_cursor (plain [7]))"
    by (simp add: plain_def pick_def pick_all_def pick_cursor_def pick_rr_def pick_hash_def
        bump_cursor_def)
  have "r = Inl UpstreamTlsHandshake"
    using u(1) by (simp add: connect_upstream_def Let_def pick)
  with u show ?thesis by simp
qed

end
