(* ===== verification/Grpc_Health.thy ===== *)
theory Grpc_Health
  imports Http1_Client
begin

unbundle bit_operations_syntax

text \<open>
  \<open>envoy-http2/src/grpc.rs\<close>: the hand-written codec of the gRPC health check and the call that uses it. \<open>None\<close> is the
  panic of an index or a slice out of range. The HTTP/2 exchange itself is a parameter.
\<close>

section \<open>Varints\<close>

function write_varint :: "u64 \<Rightarrow> bytes" where
  "write_varint v =
     (let b = (ucast (v AND 0x7F) :: u8); v' = drop_bit 7 v in
      if v' \<noteq> 0 then (b OR 0x80) # write_varint v' else [b])"
  by pat_completeness auto
termination
proof (relation "measure unat")
  fix v :: u64 and b :: u8 and v'
  assume "v' = drop_bit 7 v" "v' \<noteq> 0"
  moreover have "unat (drop_bit 7 v) = unat v div 128" unfolding unat_drop_bit_eq by (simp add: drop_bit_eq_div)
  moreover have "unat v' \<noteq> 0" using \<open>v' \<noteq> 0\<close> by (simp add: unat_eq_0)
  ultimately have "unat v' = unat v div 128" "unat v' \<noteq> 0" by (simp_all only: not_False_eq_True)
  then show "(v', v) \<in> measure unat" by simp
qed simp

declare write_varint.simps [simp del]

fun read_varint_loop :: "nat \<Rightarrow> u64 \<Rightarrow> bytes \<Rightarrow> (u64 \<times> nat) option" where
  "read_varint_loop i r [] = None"
| "read_varint_loop i r (b # bs) =
     (if i \<ge> 10 then None
      else let r' = r OR push_bit (7 * i) (ucast (b AND 0x7F)) in
        if b AND 0x80 = 0 then Some (r', i + 1) else read_varint_loop (i + 1) r' bs)"

definition read_varint :: "bytes \<Rightarrow> (u64 \<times> nat) option" where
  "read_varint buf = read_varint_loop 0 0 buf"

lemma read_varint_loop_bound: "read_varint_loop i r bs = Some (v, n) \<Longrightarrow> i < n \<and> n \<le> i + length bs"
proof (induction i r bs rule: read_varint_loop.induct)
  case (2 i r b bs)
  then show ?case by (fastforce simp: Let_def split: if_splits)
qed simp

lemma read_varint_bound: "read_varint bs = Some (v, n) \<Longrightarrow> 1 \<le> n \<and> n \<le> length bs"
  unfolding read_varint_def by (drule read_varint_loop_bound) simp

section \<open>Messages\<close>

datatype ServingStatus = Unknown | Serving | NotServing | ServiceUnknown

definition serving_from_u64 :: "u64 \<Rightarrow> ServingStatus" where
  "serving_from_u64 v = (if v = 1 then Serving else if v = 2 then NotServing else if v = 3 then ServiceUnknown else Unknown)"

datatype GrpcDecodeError = ShortFrame | Compressed | LengthMismatch | BadVarint | BadWireType

definition be_u32 :: "u8 \<Rightarrow> u8 \<Rightarrow> u8 \<Rightarrow> u8 \<Rightarrow> nat" where
  "be_u32 a b c d = unat a * 2 ^ 24 + unat b * 2 ^ 16 + unat c * 2 ^ 8 + unat d"

definition to_be_bytes :: "nat \<Rightarrow> bytes" where
  "to_be_bytes n = [of_nat (n div 2 ^ 24), of_nat (n div 2 ^ 16), of_nat (n div 2 ^ 8), of_nat n]"

definition grpc_frame :: "bytes \<Rightarrow> bytes" where
  "grpc_frame msg = 0 # to_be_bytes (length msg mod 2 ^ 32) @ msg"

definition encode_health_check_request :: "string \<Rightarrow> bytes" where
  "encode_health_check_request service =
     grpc_frame (if service \<noteq> [] then 0x0A # write_varint (of_nat (length service)) @ as_bytes service else [])"

definition slice_from :: "bytes \<Rightarrow> nat \<Rightarrow> bytes option" where
  "slice_from bs i = (if i \<le> length bs then Some (drop i bs) else None)"

definition read_at :: "bytes \<Rightarrow> nat \<Rightarrow> (u64 \<times> nat) option option" where
  "read_at body i = map_option read_varint (slice_from body i)"

lemma read_at_bound: "read_at body i = Some (Some (v, n)) \<Longrightarrow> 1 \<le> n \<and> i + n \<le> length body"
  by (auto simp: read_at_def slice_from_def split: if_splits dest!: read_varint_bound)

function decode_fields :: "bytes \<Rightarrow> nat \<Rightarrow> u64 \<Rightarrow> (GrpcDecodeError + u64) option" where
  "decode_fields body i status =
     (if i < length body then
        (case read_at body i of
           None \<Rightarrow> None
         | Some None \<Rightarrow> Some (Inl BadVarint)
         | Some (Some (tag, n)) \<Rightarrow>
             (let i1 = i + n; field = drop_bit 3 tag; wire = tag AND 7 in
              if wire = 0 then
                (case read_at body i1 of
                   None \<Rightarrow> None
                 | Some None \<Rightarrow> Some (Inl BadVarint)
                 | Some (Some (v, m)) \<Rightarrow> decode_fields body (i1 + m) (if field = 1 then v else status))
              else if wire = 2 then
                (case read_at body i1 of
                   None \<Rightarrow> None
                 | Some None \<Rightarrow> Some (Inl BadVarint)
                 | Some (Some (l, m)) \<Rightarrow>
                     if i1 + m + unat l < 2 ^ 64 \<and> i1 + m + unat l \<le> length body
                     then decode_fields body (i1 + m + unat l) status
                     else Some (Inl LengthMismatch))
              else if wire = 1 then
                (if i1 + 8 > length body then Some (Inl LengthMismatch) else decode_fields body (i1 + 8) status)
              else if wire = 5 then
                (if i1 + 4 > length body then Some (Inl LengthMismatch) else decode_fields body (i1 + 4) status)
              else Some (Inl BadWireType)))
      else Some (Inr status))"
  by pat_completeness auto
termination
  by (relation "measure (\<lambda>(body, i, status). length body - i)") (auto dest!: read_at_bound)

declare decode_fields.simps [simp del]

definition decode_health_check_response :: "bytes \<Rightarrow> (GrpcDecodeError + ServingStatus) option" where
  "decode_health_check_response frame =
     (if length frame < 5 then Some (Inl ShortFrame)
      else if frame ! 0 \<noteq> 0 then Some (Inl Compressed)
      else let len = be_u32 (frame ! 1) (frame ! 2) (frame ! 3) (frame ! 4); body = drop 5 frame in
        if length body \<noteq> len then Some (Inl LengthMismatch)
        else map_option (map_sum id serving_from_u64) (decode_fields body 0 0))"

section \<open>The call\<close>

datatype GrpcCallError = CallHttp2 | CallGrpcStatus int | MissingTrailer | CallDecode GrpcDecodeError | BadResponse

text \<open>The answer to a request: its status, its data frames and its trailers; a failure ends either part.\<close>

record h2_answer =
  ha_status :: nat
  ha_chunks :: "bytes option list"
  ha_trailers :: "headers option option"

definition health_path :: string where
  "health_path = ''/grpc.health.v1.Health/Check''"

text \<open>\<open>exchange uri headers body\<close> is the whole HTTP/2 exchange; \<open>None\<close> is a transport error before the response head.\<close>

definition visible_ascii :: "char \<Rightarrow> bool" where
  "visible_ascii c \<longleftrightarrow> 32 \<le> byte_of c \<and> byte_of c < 127 \<or> byte_of c = 9"

definition grpc_health_check_call :: "(string \<Rightarrow> headers \<Rightarrow> bytes \<Rightarrow> h2_answer option) \<Rightarrow> string \<Rightarrow> string
    \<Rightarrow> (GrpcCallError + ServingStatus) option" where
  "grpc_health_check_call exchange authority service =
     (case exchange (''http://'' @ authority @ health_path)
             [(''content-type'', ''application/grpc''), (''te'', ''trailers'')] (encode_health_check_request service) of
        None \<Rightarrow> Some (Inl CallHttp2)
      | Some a \<Rightarrow>
          if ha_status a \<noteq> 200 then Some (Inl BadResponse)
          else if None \<in> set (ha_chunks a) then Some (Inl CallHttp2)
          else case ha_trailers a of
            None \<Rightarrow> Some (Inl CallHttp2)
          | Some None \<Rightarrow> Some (Inl MissingTrailer)
          | Some (Some ts) \<Rightarrow>
              (case Option.bind (map_of ts ''grpc-status'')
                      (\<lambda>v. if list_all visible_ascii v then parse_signed 64 v else None) of
                 None \<Rightarrow> Some (Inl MissingTrailer)
               | Some n \<Rightarrow>
                   if n \<noteq> 0 then Some (Inl (CallGrpcStatus n))
                   else map_option (map_sum CallDecode id)
                     (decode_health_check_response (concat (map the (ha_chunks a))))))"

section \<open>Decoding never panics\<close>

lemma read_at_total: "i \<le> length body \<Longrightarrow> read_at body i \<noteq> None"
  by (simp add: read_at_def slice_from_def)

lemma decode_fields_total:
  assumes "i \<le> length body"
  shows "decode_fields body i status \<noteq> None"
  using assms
proof (induction body i status rule: decode_fields.induct)
  case (1 body i status)
  show ?case
  proof (cases "i < length body")
    case True
    then obtain r where r: "read_at body i = Some r" using read_at_total [of i body] by auto
    show ?thesis
    proof (cases r)
      case None
      then show ?thesis using True r by (simp add: decode_fields.simps [of body i])
    next
      case (Some tn)
      obtain tag n where tn: "tn = (tag, n)" by fastforce
      have b: "i + n \<le> length body" using read_at_bound r Some tn by simp
      then obtain q where q: "read_at body (i + n) = Some q" using read_at_total [of "i + n" body] by auto
      show ?thesis
      proof (cases q)
        case None
        then show ?thesis
          using True r Some tn q "1.IH"(3) [OF True r [unfolded Some tn] refl refl refl refl refl]
            "1.IH"(4) [OF True r [unfolded Some tn] refl refl refl refl refl]
          by (simp add: decode_fields.simps [of body i] Let_def)
      next
        case (Some vm)
        obtain v m where vm: "vm = (v, m)" by fastforce
        have c: "i + n + m \<le> length body" using read_at_bound q Some vm by simp
        show ?thesis
          using True r \<open>r = Some tn\<close> tn q Some vm c "1.IH"
          by (simp add: decode_fields.simps [of body i] Let_def)
      qed
    qed
  next
    case False
    then show ?thesis by (simp add: decode_fields.simps [of body i])
  qed
qed


section \<open>Round trips\<close>

lemma low_mask: "(0x7F :: u8) = mask 7" "(0x7F :: u64) = mask 7"
  by (simp_all add: mask_eq_exp_minus_1)

lemma bit_top: "bit (0x80 :: u8) n \<longleftrightarrow> n = 7"
proof -
  have "(0x80 :: u8) = push_bit 7 1" by simp
  then show ?thesis by (simp only: bit_push_bit_iff bit_1_iff) (auto simp: possible_bit_def)
qed

lemma varint_bits:
  fixes v :: u64
  shows "ucast ((ucast (v AND 0x7F) :: u8) AND 0x7F) = v AND 0x7F"
    and "ucast (((ucast (v AND 0x7F) :: u8) OR 0x80) AND 0x7F) = v AND 0x7F"
    and "(ucast (v AND 0x7F) :: u8) AND 0x80 = 0"
    and "((ucast (v AND 0x7F) :: u8) OR 0x80) AND 0x80 \<noteq> 0"
    and "push_bit n (v AND 0x7F) OR push_bit (n + 7) (drop_bit 7 v) = push_bit n v"
proof -
  define t :: u8 where "t = 0x80"
  have t: "bit t n \<longleftrightarrow> n = 7" for n unfolding t_def by (rule bit_top)
  show "ucast ((ucast (v AND 0x7F) :: u8) AND 0x7F) = v AND 0x7F"
    "ucast (((ucast (v AND 0x7F) :: u8) OR 0x80) AND 0x7F) = v AND 0x7F"
    "(ucast (v AND 0x7F) :: u8) AND 0x80 = 0"
    unfolding low_mask t_def [symmetric] by (rule bit_eqI; auto simp: bit_simps t)+
  have "bit (((ucast (v AND 0x7F) :: u8) OR t) AND t) 7" by (simp add: bit_simps t)
  then show "((ucast (v AND 0x7F) :: u8) OR 0x80) AND 0x80 \<noteq> 0"
    unfolding t_def [symmetric] by (metis bit_0_eq bot_apply bot_bool_def)
  show "push_bit n (v AND 0x7F) OR push_bit (n + 7) (drop_bit 7 v) = push_bit n v"
    unfolding low_mask
  proof (rule bit_eqI)
    fix k assume k: "possible_bit TYPE(64 word) k"
    show "bit (push_bit n (v AND mask 7) OR push_bit (n + 7) (drop_bit 7 v)) k = bit (push_bit n v) k"
    proof (cases "k < n + 7")
      case True
      then show ?thesis by (auto simp: bit_simps)
    next
      case False
      then have "7 + (k - (n + 7)) = k - n" by simp
      with False show ?thesis by (auto simp: bit_simps)
    qed
  qed
qed

lemma write_varint_Cons:
  "write_varint v = (if drop_bit 7 v = 0 then [ucast (v AND 0x7F)] else (ucast (v AND 0x7F) OR 0x80) # write_varint (drop_bit 7 v))"
  by (simp add: write_varint.simps [of v] Let_def)

lemma drop_bit_7_bound:
  fixes v :: u64
  assumes "unat v < 2 ^ (64 - 7 * i)" "drop_bit 7 v \<noteq> 0" "i \<le> 9"
  shows "i < 9 \<and> unat (drop_bit 7 v) < 2 ^ (64 - 7 * (i + 1))"
proof -
  have d: "unat (drop_bit 7 v) = unat v div 128" unfolding unat_drop_bit_eq by (simp add: drop_bit_eq_div)
  have "unat (drop_bit 7 v) \<noteq> 0" using assms(2) by (simp add: unat_eq_0)
  then have "128 \<le> unat v" using d by simp
  then have "2 ^ 7 < (2 :: nat) ^ (64 - 7 * i)" using assms(1) by simp
  then have "7 < 64 - 7 * i" by (rule power_less_imp_less_exp [rotated]) simp
  then have i: "i < 9" by simp
  have "(2 :: nat) ^ (64 - 7 * i) = 2 ^ (64 - 7 * (i + 1)) * 128"
  proof -
    have "64 - 7 * i = 64 - 7 * (i + 1) + 7" using i by simp
    then have "(2 :: nat) ^ (64 - 7 * i) = 2 ^ (64 - 7 * (i + 1) + 7)" by (rule arg_cong)
    then show ?thesis unfolding power_add by simp
  qed
  with assms(1) d i show ?thesis by (simp add: less_mult_imp_div_less)
qed

lemma read_write_loop:
  assumes "i \<le> 9" "unat v < 2 ^ (64 - 7 * i)"
  shows "read_varint_loop i r (write_varint v @ rest) = Some (r OR push_bit (7 * i) v, i + length (write_varint v))"
  using assms
proof (induction v arbitrary: i r rule: write_varint.induct)
  case (1 v)
  have n: "push_bit (7 * i) (v AND 0x7F) OR push_bit (7 * (i + 1)) (drop_bit 7 v) = push_bit (7 * i) v"
    using varint_bits(5) [of "7 * i" v] by (simp add: algebra_simps)
  show ?case
  proof (cases "drop_bit 7 v = 0")
    case True
    then have "write_varint v = [ucast (v AND 0x7F)]" by (subst write_varint_Cons) simp
    with True n "1.prems"(1) show ?thesis by (simp add: Let_def varint_bits)
  next
    case False
    then have w: "write_varint v = (ucast (v AND 0x7F) OR 0x80) # write_varint (drop_bit 7 v)"
      by (subst write_varint_Cons) simp
    from drop_bit_7_bound [OF "1.prems"(2) False "1.prems"(1)]
    have "read_varint_loop (i + 1) (r OR push_bit (7 * i) (v AND 0x7F)) (write_varint (drop_bit 7 v) @ rest)
        = Some (r OR push_bit (7 * i) (v AND 0x7F) OR push_bit (7 * (i + 1)) (drop_bit 7 v), i + 1 + length (write_varint (drop_bit 7 v)))"
      using "1.IH" False by (simp add: or.assoc)
    with n w "1.prems"(1) show ?thesis by (simp add: Let_def varint_bits or.assoc)
  qed
qed

lemma varint_roundtrip: "read_varint (write_varint v @ rest) = Some (v, length (write_varint v))"
proof -
  have "unat v < 2 ^ 64" using unsigned_less [of v] by simp
  then show ?thesis using read_write_loop [of 0 v 0 rest] by (simp add: read_varint_def)
qed

section \<open>What a peer may send\<close>

text \<open>A protobuf message by its fields: a number below $2^{29}$ and a value of one of the four wire types that are in use.\<close>

datatype pb_value = PbVarint u64 | PbFixed64 bytes | PbBytes bytes | PbFixed32 bytes

type_synonym pb_field = "nat \<times> pb_value"

fun pb_wire :: "pb_value \<Rightarrow> nat" where
  "pb_wire (PbVarint v) = 0"
| "pb_wire (PbFixed64 bs) = 1"
| "pb_wire (PbBytes bs) = 2"
| "pb_wire (PbFixed32 bs) = 5"

fun pb_payload :: "pb_value \<Rightarrow> bytes" where
  "pb_payload (PbVarint v) = write_varint v"
| "pb_payload (PbFixed64 bs) = bs"
| "pb_payload (PbBytes bs) = write_varint (of_nat (length bs)) @ bs"
| "pb_payload (PbFixed32 bs) = bs"

fun pb_ok :: "pb_value \<Rightarrow> bool" where
  "pb_ok (PbVarint v) = True"
| "pb_ok (PbFixed64 bs) = (length bs = 8)"
| "pb_ok (PbBytes bs) = (length bs < 2 ^ 32)"
| "pb_ok (PbFixed32 bs) = (length bs = 4)"

definition pb_field_ok :: "pb_field \<Rightarrow> bool" where
  "pb_field_ok f \<longleftrightarrow> fst f < 2 ^ 29 \<and> pb_ok (snd f)"

definition pb_tag :: "pb_field \<Rightarrow> u64" where
  "pb_tag f = of_nat (8 * fst f + pb_wire (snd f))"

definition pb_encode :: "pb_field list \<Rightarrow> bytes" where
  "pb_encode fs = concat (map (\<lambda>f. write_varint (pb_tag f) @ pb_payload (snd f)) fs)"

text \<open>The value of field 1 as a varint: the last one wins, and other fields, whatever they hold, do not matter.\<close>

fun pb_status :: "u64 \<Rightarrow> pb_field list \<Rightarrow> u64" where
  "pb_status st [] = st"
| "pb_status st ((n, PbVarint v) # fs) = pb_status (if n = 1 then v else st) fs"
| "pb_status st (f # fs) = pb_status st fs"

lemma unat_of_nat64: "n < 2 ^ 64 \<Longrightarrow> unat (of_nat n :: u64) = n"
  by (simp add: unsigned_of_nat take_bit_nat_eq_self)

lemma pb_tag_parts:
  assumes "pb_field_ok f"
  shows "drop_bit 3 (pb_tag f) = of_nat (fst f)" "pb_tag f AND 7 = of_nat (pb_wire (snd f))"
proof -
  have w: "pb_wire (snd f) < 8" by (cases "snd f") simp_all
  have lt: "8 * fst f + pb_wire (snd f) < 2 ^ 64" using assms w unfolding pb_field_ok_def by simp
  then have u: "unat (pb_tag f) = 8 * fst f + pb_wire (snd f)" unfolding pb_tag_def by (rule unat_of_nat64)
  have "unat (drop_bit 3 (pb_tag f)) = fst f" unfolding unat_drop_bit_eq u using w by (simp add: drop_bit_eq_div)
  then show "drop_bit 3 (pb_tag f) = of_nat (fst f)" using lt by (simp add: word_unat_eq_iff unat_of_nat64)
  have "unat (pb_tag f AND 7) = pb_wire (snd f)"
  proof -
    have "pb_tag f AND 7 = take_bit 3 (pb_tag f)" by (simp add: take_bit_eq_mask mask_eq_exp_minus_1)
    then have "unat (pb_tag f AND 7) = take_bit 3 (unat (pb_tag f))" by (simp only: unsigned_take_bit_eq)
    then show ?thesis using u w by (simp add: take_bit_eq_mod)
  qed
  then show "pb_tag f AND 7 = of_nat (pb_wire (snd f))" using w by (simp add: word_unat_eq_iff unat_of_nat64)
qed

lemma read_at_written: "read_at (pre @ write_varint v @ rest) (length pre) = Some (Some (v, length (write_varint v)))"
  by (simp add: read_at_def slice_from_def varint_roundtrip)

lemma write_varint_nonempty: "write_varint v \<noteq> []"
  by (subst write_varint_Cons) simp

lemma decode_one_field:
  assumes ok: "pb_field_ok f" and big: "length (pre @ write_varint (pb_tag f) @ pb_payload (snd f) @ rest) < 2 ^ 64"
  shows "decode_fields (pre @ write_varint (pb_tag f) @ pb_payload (snd f) @ rest) (length pre) st
    = decode_fields (pre @ write_varint (pb_tag f) @ pb_payload (snd f) @ rest)
        (length (pre @ write_varint (pb_tag f) @ pb_payload (snd f))) (pb_status st [f])"
proof -
  let ?t = "write_varint (pb_tag f)"
  let ?body = "pre @ ?t @ pb_payload (snd f) @ rest"
  have lt: "length pre < length ?body" using write_varint_nonempty [of "pb_tag f"] by simp
  have r: "read_at ?body (length pre) = Some (Some (pb_tag f, length ?t))"
    using read_at_written [of pre "pb_tag f" "pb_payload (snd f) @ rest"] by simp
  have q: "read_at ?body (length pre + length ?t) = Some (Some (v, length (write_varint v)))"
    if "pb_payload (snd f) = write_varint v @ us" for v us
    using read_at_written [of "pre @ ?t" v "us @ rest"] that by simp
  obtain n x where f: "f = (n, x)" by fastforce
  have "unat (of_nat n :: u64) = n" using ok unfolding f pb_field_ok_def by (simp add: unat_of_nat64)
  then have n1: "((of_nat n :: u64) = 1) = (n = 1)" by (metis of_nat_1 unat_1)
  show ?thesis
  proof (cases x)
    case (PbVarint v)
    show ?thesis
      using lt r q [of v "[]"] pb_tag_parts [OF ok] n1 unfolding f PbVarint
      by (subst decode_fields.simps) (simp add: Let_def add.assoc)
  next
    case (PbFixed64 bs)
    show ?thesis
      using lt r ok pb_tag_parts [OF ok] unfolding f PbFixed64
      by (subst decode_fields.simps) (simp add: Let_def add.assoc pb_field_ok_def)
  next
    case (PbBytes bs)
    show ?thesis
      using lt r q [of "of_nat (length bs)" bs] ok big pb_tag_parts [OF ok] unfolding f PbBytes
      by (subst decode_fields.simps) (simp add: Let_def add.assoc pb_field_ok_def unat_of_nat64)
  next
    case (PbFixed32 bs)
    show ?thesis
      using lt r ok pb_tag_parts [OF ok] unfolding f PbFixed32
      by (subst decode_fields.simps) (simp add: Let_def add.assoc pb_field_ok_def)
  qed
qed

lemma pb_status_Cons: "pb_status st (f # fs) = pb_status (pb_status st [f]) fs"
  by (cases f rule: prod.exhaust; cases "snd f") auto

lemma decode_encoded_fields:
  assumes "list_all pb_field_ok fs" "length (pre @ pb_encode fs) < 2 ^ 64"
  shows "decode_fields (pre @ pb_encode fs) (length pre) st = Some (Inr (pb_status st fs))"
  using assms
proof (induction fs arbitrary: pre st)
  case Nil
  then show ?case by (simp add: pb_encode_def decode_fields.simps [of pre])
next
  case (Cons f fs)
  let ?one = "write_varint (pb_tag f) @ pb_payload (snd f)"
  have e: "pb_encode (f # fs) = ?one @ pb_encode fs" by (simp add: pb_encode_def)
  have "decode_fields (pre @ pb_encode (f # fs)) (length pre) st
      = decode_fields ((pre @ ?one) @ pb_encode fs) (length (pre @ ?one)) (pb_status st [f])"
    using decode_one_field [of f pre "pb_encode fs" st] Cons.prems by (simp add: e)
  with Cons.IH [of "pre @ ?one" "pb_status st [f]"] Cons.prems show ?case
    by (simp add: e pb_status_Cons [of st f fs])
qed

section \<open>Frames\<close>

lemma be_bytes_roundtrip:
  assumes "n < 2 ^ 32"
  shows "be_u32 (of_nat (n div 2 ^ 24)) (of_nat (n div 2 ^ 16)) (of_nat (n div 2 ^ 8)) (of_nat n) = n"
proof -
  have u: "unat (of_nat k :: u8) = k mod 256" for k by (simp add: unsigned_of_nat take_bit_eq_mod)
  have d: "n div 2 ^ 24 = n div 2 ^ 16 div 256" "n div 2 ^ 16 = n div 2 ^ 8 div 256"
    by (simp_all add: div_mult2_eq [symmetric])
  have a: "n div 2 ^ 16 = 256 * (n div 2 ^ 24) + n div 2 ^ 16 mod 256" "n div 2 ^ 8 = 256 * (n div 2 ^ 16) + n div 2 ^ 8 mod 256"
    "n = 256 * (n div 2 ^ 8) + n mod 256"
    using d by simp_all
  have "n div 2 ^ 24 < 256" using assms by (simp add: less_mult_imp_div_less)
  then have "n div 2 ^ 24 mod 256 = n div 2 ^ 24" by simp
  moreover have "t * 2 ^ 24 + x * 2 ^ 16 + y * 2 ^ 8 + z = m"
    if "q = 256 * t + x" "p = 256 * q + y" "m = 256 * p + z" for t x y z m p q :: nat
    using that by simp
  note horner = this [OF a]
  ultimately show ?thesis unfolding be_u32_def u by (simp only: horner)
qed

lemma decode_framed:
  assumes "length msg < 2 ^ 32"
  shows "decode_health_check_response (grpc_frame msg) = map_option (map_sum id serving_from_u64) (decode_fields msg 0 0)"
proof -
  obtain a b c d where w: "to_be_bytes (length msg mod 2 ^ 32) = [a, b, c, d]" "be_u32 a b c d = length msg"
    using be_bytes_roundtrip [OF assms] assms by (simp add: to_be_bytes_def)
  then show ?thesis by (simp add: decode_health_check_response_def grpc_frame_def Let_def nth_Cons' drop_Cons')
qed

text \<open>
  C21. Decoding a health response inverts its encoding, for every protobuf message a peer may send: the decoder skips the
  fields it does not know and the status is that of the last varint in field 1, unknown where there is none.
\<close>

theorem grpc_response_decoded:
  assumes "list_all pb_field_ok fs" "length (pb_encode fs) < 2 ^ 32"
  shows "decode_health_check_response (grpc_frame (pb_encode fs)) = Some (Inr (serving_from_u64 (pb_status 0 fs)))"
  using decode_encoded_fields [OF assms(1), of "[]" 0] assms(2) by (simp add: decode_framed [OF assms(2)])

theorem grpc_response_decoded_witness:
  "decode_health_check_response (grpc_frame (pb_encode [(2, PbBytes [255]), (1, PbVarint 300), (1, PbVarint 1)]))
     = Some (Inr Serving)"
proof -
  let ?fs = "[(2, PbBytes [255]), (1, PbVarint 300), (1, PbVarint 1)] :: pb_field list"
  have "length (pb_encode ?fs) < 2 ^ 32"
    by (simp add: pb_encode_def pb_tag_def write_varint.simps)
  then show ?thesis using grpc_response_decoded [of ?fs] by (simp add: pb_field_ok_def serving_from_u64_def)
qed

text \<open>
  The request is one uncompressed frame whose message has the service name in field 1, and nothing for the empty name.
\<close>

lemma request_is_message:
  assumes "length service < 2 ^ 32"
  shows "encode_health_check_request service = grpc_frame (pb_encode (if service = [] then [] else [(1, PbBytes (as_bytes service))]))"
proof -
  have "write_varint 10 = [10]" by (subst write_varint_Cons) simp
  then show ?thesis by (simp add: encode_health_check_request_def pb_encode_def pb_tag_def as_bytes_def)
qed

text \<open>Whatever a peer sends, decoding it is total: no index of the decoder is out of range.\<close>

lemma decode_never_panics: "decode_health_check_response frame \<noteq> None"
  using decode_fields_total [of 0 "drop 5 frame" 0] by (simp add: decode_health_check_response_def Let_def)

text \<open>
  The call answers \<^emph>\<open>Serving\<close> only on a complete exchange whose trailers have a \<^verbatim>\<open>grpc-status\<close> of zero.
\<close>

lemma call_never_panics: "grpc_health_check_call exchange authority service \<noteq> None"
  using decode_never_panics by (auto simp: grpc_health_check_call_def split: option.split)

lemma call_ok_only_on_status_zero:
  assumes "grpc_health_check_call exchange authority service = Some (Inr s)"
  shows "\<exists>uri hs a ts v. exchange uri hs (encode_health_check_request service) = Some a \<and> ha_status a = 200
    \<and> None \<notin> set (ha_chunks a) \<and> ha_trailers a = Some (Some ts) \<and> map_of ts ''grpc-status'' = Some v
    \<and> parse_signed 64 v = Some 0 \<and> decode_health_check_response (concat (map the (ha_chunks a))) = Some (Inr s)"
proof -
  let ?u = "''http://'' @ authority @ health_path"
  let ?h = "[(''content-type'', ''application/grpc''), (''te'', ''trailers'')]"
  obtain a where a: "exchange ?u ?h (encode_health_check_request service) = Some a" "ha_status a = 200" "None \<notin> set (ha_chunks a)"
    using assms by (auto simp: grpc_health_check_call_def split: option.splits if_splits)
  then obtain ts v where t: "ha_trailers a = Some (Some ts)" "map_of ts ''grpc-status'' = Some v" "parse_signed 64 v = Some 0"
    "map_option (map_sum CallDecode id) (decode_health_check_response (concat (map the (ha_chunks a)))) = Some (Inr s)"
    using assms by (auto simp: grpc_health_check_call_def bind_eq_Some_conv split: option.splits if_splits)
  then obtain r where "decode_health_check_response (concat (map the (ha_chunks a))) = Some r" "map_sum CallDecode id r = Inr s"
    by auto
  then have "decode_health_check_response (concat (map the (ha_chunks a))) = Some (Inr s)" by (cases r) simp_all
  with a t show ?thesis by blast
qed

end
