(* ===== verification/Health_Probe.thy ===== *)
theory Health_Probe
  imports Grpc_Health Conn_Pool
begin

text \<open>
  \<open>envoy-health\<close>: the probes of an endpoint over HTTP/1, TCP and gRPC (\<open>probe.rs\<close>), their periodic loops, and the
  scheduler that starts one loop per endpoint of every health-checked cluster (\<open>scheduler.rs\<close>). What the network does
  is a parameter; a future that is not ready by the deadline of \<open>tokio::time::timeout\<close> is \<open>Pending\<close>, and a panic is an
  end of its own.
\<close>

section \<open>Verdicts\<close>

datatype 'e probe_end = Panicked | Pending | Failed 'e | Passed

fun with_timeout :: "'e \<Rightarrow> 'e probe_end \<Rightarrow> 'e probe_end" where
  "with_timeout e Pending = Failed e"
| "with_timeout e r = r"

definition status_acceptable :: "nat \<Rightarrow> (int \<times> int) list \<Rightarrow> bool" where
  "status_acceptable status expected =
     (if expected = [] then status = 200
      else list_ex (\<lambda>(start, end'). start \<le> int status \<and> int status < end') expected)"

definition find_subslice :: "bytes \<Rightarrow> bytes \<Rightarrow> nat option" where
  "find_subslice haystack needle =
     (if needle = [] then Some 0
      else List.find (\<lambda>i. take (length needle) (drop i haystack) = needle) [0..<length haystack + 1 - length needle])"

fun receive_loop :: "bytes list \<Rightarrow> bytes \<Rightarrow> nat \<Rightarrow> bool option" where
  "receive_loop [] buf offset = Some True"
| "receive_loop (payload # ps) buf offset =
     (if payload = [] then receive_loop ps buf offset
      else case slice_from buf offset of
        None \<Rightarrow> None
      | Some rest \<Rightarrow> (case find_subslice rest payload of
          Some pos \<Rightarrow> receive_loop ps buf (offset + (pos + length payload))
        | None \<Rightarrow> Some False))"

definition receive_matches :: "bytes list \<Rightarrow> bytes \<Rightarrow> bool option" where
  "receive_matches receive buf = receive_loop receive buf 0"

section \<open>One HTTP probe\<close>

datatype ProbeError = ProbeTimeout | ProbeConnect string | ProbeSend string | UnexpectedStatus nat

text \<open>
  A connect that is \<open>None\<close> is not ready before the deadline. The exchange is the HTTP/1 client, which can panic on what
  the endpoint sends (theory Http1_Client): that is \<open>None\<close>, and \<open>Some None\<close> is not ready before the deadline.
\<close>

record ('addr, 's) http_net =
  http_connect :: "'addr \<Rightarrow> string \<Rightarrow> (string + 's) option"
  http_send :: "'s \<Rightarrow> Request \<Rightarrow> (string + Response) option option"

definition probe_request :: "string \<Rightarrow> Request" where
  "probe_request path = \<lparr>req_method = ''GET'', req_path = path, req_version = Http11, req_headers = [],
     req_bytes_consumed = 0, req_body = None\<rparr>"

definition probe_once :: "('addr, 's) http_net \<Rightarrow> 'addr \<Rightarrow> string \<Rightarrow> string \<Rightarrow> (int \<times> int) list \<Rightarrow> ProbeError probe_end" where
  "probe_once net addr host path expected =
     with_timeout ProbeTimeout
       (case http_connect net addr host of
          None \<Rightarrow> Pending
        | Some (Inl e) \<Rightarrow> Failed (ProbeConnect e)
        | Some (Inr stream) \<Rightarrow>
            (case http_send net stream (probe_request path) of
               None \<Rightarrow> Panicked
             | Some None \<Rightarrow> Pending
             | Some (Some (Inl e)) \<Rightarrow> Failed (ProbeSend e)
             | Some (Some (Inr resp)) \<Rightarrow>
                 if status_acceptable (resp_status resp) expected then Passed
                 else Failed (UnexpectedStatus (resp_status resp))))"

section \<open>One TCP probe\<close>

datatype TcpProbeError = TcpTimeout | TcpConnect string | TcpSend string | TcpEof | TcpRead string

text \<open>
  The reads of a connection: an error, the end of the stream (no bytes) or data. Where the list ends, no more read
  completes before the deadline.
\<close>

record 'addr tcp_net =
  tcp_connect :: "'addr \<Rightarrow> (string + unit) option"
  tcp_write :: "'addr \<Rightarrow> bytes \<Rightarrow> (string + unit) option"
  tcp_reads :: "'addr \<Rightarrow> (string + bytes) list"

fun tcp_scan :: "bytes list \<Rightarrow> bytes \<Rightarrow> (string + bytes) list \<Rightarrow> TcpProbeError probe_end" where
  "tcp_scan receive buf [] = Pending"
| "tcp_scan receive buf (Inl e # rs) = Failed (TcpRead e)"
| "tcp_scan receive buf (Inr chunk # rs) =
     (if chunk = [] then Failed TcpEof
      else case receive_matches receive (buf @ chunk) of
        None \<Rightarrow> Panicked
      | Some True \<Rightarrow> Passed
      | Some False \<Rightarrow> tcp_scan receive (buf @ chunk) rs)"

definition tcp_probe_once :: "'addr tcp_net \<Rightarrow> 'addr \<Rightarrow> bytes option \<Rightarrow> bytes list \<Rightarrow> TcpProbeError probe_end" where
  "tcp_probe_once net addr send receive =
     with_timeout TcpTimeout
       (case tcp_connect net addr of
          None \<Rightarrow> Pending
        | Some (Inl e) \<Rightarrow> Failed (TcpConnect e)
        | Some (Inr _) \<Rightarrow>
            (case (case send of None \<Rightarrow> Some (Inr ()) | Some bs \<Rightarrow> tcp_write net addr bs) of
               None \<Rightarrow> Pending
             | Some (Inl e) \<Rightarrow> Failed (TcpSend e)
             | Some (Inr _) \<Rightarrow> if receive = [] then Passed else tcp_scan receive [] (tcp_reads net addr)))"

section \<open>One gRPC probe\<close>

datatype GrpcProbeError = GrpcTimeout | GrpcConnect string | GrpcRpc GrpcCallError | GrpcNotServing | GrpcStatusError int
  | GrpcDecode GrpcDecodeError

record 'addr grpc_net =
  grpc_connect :: "'addr \<Rightarrow> string \<Rightarrow> (string + unit) option"
  grpc_exchange :: "'addr \<Rightarrow> string \<Rightarrow> headers \<Rightarrow> bytes \<Rightarrow> h2_answer option option"

definition grpc_verdict :: "GrpcCallError + ServingStatus \<Rightarrow> GrpcProbeError probe_end" where
  "grpc_verdict r =
     (case r of
        Inr Serving \<Rightarrow> Passed
      | Inr _ \<Rightarrow> Failed GrpcNotServing
      | Inl (CallGrpcStatus n) \<Rightarrow> Failed (GrpcStatusError n)
      | Inl (CallDecode e) \<Rightarrow> Failed (GrpcDecode e)
      | Inl e \<Rightarrow> Failed (GrpcRpc e))"

text \<open>The request is fixed by the authority and the service, so whether its exchange ends in time is one question.\<close>

definition grpc_probe_once :: "'addr grpc_net \<Rightarrow> 'addr \<Rightarrow> string \<Rightarrow> string \<Rightarrow> GrpcProbeError probe_end" where
  "grpc_probe_once net addr authority service =
     with_timeout GrpcTimeout
       (case grpc_connect net addr authority of
          None \<Rightarrow> Pending
        | Some (Inl e) \<Rightarrow> Failed (GrpcConnect e)
        | Some (Inr _) \<Rightarrow>
            (let exchange = grpc_exchange net addr in
             if exchange (''http://'' @ authority @ health_path)
                  [(''content-type'', ''application/grpc''), (''te'', ''trailers'')] (encode_health_check_request service) = None
             then Pending
             else case grpc_health_check_call (\<lambda>u hs b. the (exchange u hs b)) authority service of
               None \<Rightarrow> Panicked
             | Some r \<Rightarrow> grpc_verdict r))"

section \<open>The loops\<close>

text \<open>
  The three loops differ in the probe only. A loop ends at a cancellation, which it observes between probes, and its
  task dies where \<open>interval\<close> gets a zero period or a probe panics.
\<close>

record probe_counters =
  pc_attempt :: nat
  pc_success :: nat
  pc_failure :: nat

text \<open>What the tasks of one cluster share: the registry, the health of its endpoints and the membership gauge.\<close>

record probed =
  pd_stats :: stats
  pd_members :: "endpoint_health list \<times> i64"

definition probe_tick :: "probe_counters \<Rightarrow> nat \<Rightarrow> 'e probe_end \<Rightarrow> probed \<Rightarrow> probed" where
  "probe_tick cs i r w =
     (let w1 = w\<lparr>pd_stats := counter_inc (pc_attempt cs) (pd_stats w)\<rparr> in
      case r of
        Passed \<Rightarrow> w1\<lparr>pd_stats := counter_inc (pc_success cs) (pd_stats w1),
                    pd_members := member_step health_step (i, ProbeSuccess) (pd_members w1)\<rparr>
      | Failed e \<Rightarrow> w1\<lparr>pd_stats := counter_inc (pc_failure cs) (pd_stats w1),
                    pd_members := member_step health_step (i, ProbeFailure) (pd_members w1)\<rparr>
      | _ \<Rightarrow> w1)"

datatype 'e loop_event = Cancelled | Ticked "'e probe_end"

datatype loop_end = Running | Returned | TaskPanicked

fun ticker_loop :: "probe_counters \<Rightarrow> nat \<Rightarrow> 'e loop_event list \<Rightarrow> probed \<Rightarrow> loop_end \<times> probed" where
  "ticker_loop cs i [] w = (Running, w)"
| "ticker_loop cs i (Cancelled # es) w = (Returned, w)"
| "ticker_loop cs i (Ticked r # es) w =
     (if r = Panicked then (TaskPanicked, probe_tick cs i r w) else ticker_loop cs i es (probe_tick cs i r w))"

text \<open>What a loop observes, one entry per turn: the cancellation (\<open>None\<close>), or a tick and the network its probe meets.\<close>

definition turns :: "('net \<Rightarrow> 'e probe_end) \<Rightarrow> 'net option list \<Rightarrow> 'e loop_event list" where
  "turns probe nets = map (\<lambda>n. case n of None \<Rightarrow> Cancelled | Some net \<Rightarrow> Ticked (probe net)) nets"

definition start_ticker :: "nat \<Rightarrow> (probed \<Rightarrow> loop_end \<times> probed) \<Rightarrow> probed \<Rightarrow> loop_end \<times> probed" where
  "start_ticker interval_dur body w = (if interval_dur = 0 then (TaskPanicked, w) else body w)"

definition probe_loop :: "nat \<Rightarrow> probe_counters \<Rightarrow> nat \<Rightarrow> 'addr \<Rightarrow> string \<Rightarrow> string \<Rightarrow> (int \<times> int) list
    \<Rightarrow> ('addr, 's) http_net option list \<Rightarrow> probed \<Rightarrow> loop_end \<times> probed" where
  "probe_loop interval_dur cs i addr host path expected nets =
     start_ticker interval_dur (ticker_loop cs i (turns (\<lambda>net. probe_once net addr host path expected) nets))"

definition tcp_probe_loop :: "nat \<Rightarrow> probe_counters \<Rightarrow> nat \<Rightarrow> 'addr \<Rightarrow> bytes option \<Rightarrow> bytes list
    \<Rightarrow> 'addr tcp_net option list \<Rightarrow> probed \<Rightarrow> loop_end \<times> probed" where
  "tcp_probe_loop interval_dur cs i addr send receive nets =
     start_ticker interval_dur (ticker_loop cs i (turns (\<lambda>net. tcp_probe_once net addr send receive) nets))"

definition grpc_probe_loop :: "nat \<Rightarrow> probe_counters \<Rightarrow> nat \<Rightarrow> 'addr \<Rightarrow> string \<Rightarrow> string
    \<Rightarrow> 'addr grpc_net option list \<Rightarrow> probed \<Rightarrow> loop_end \<times> probed" where
  "grpc_probe_loop interval_dur cs i addr authority service nets =
     start_ticker interval_dur (ticker_loop cs i (turns (\<lambda>net. grpc_probe_once net addr authority service) nets))"

section \<open>The scheduler\<close>

datatype HealthError = HealthStatsRegistration string stats_error | HealthInvalidDuration string string duration_error

datatype spawn_stop = SpawnFail HealthError | SpawnPanic

datatype checker = HttpChecker string string "(int \<times> int) list"
  | TcpChecker "bytes option" "bytes list"
  | GrpcChecker string string

record 'addr probe_task =
  pt_cluster :: string
  pt_index :: nat
  pt_addr :: 'addr
  pt_timeout :: nat
  pt_interval :: nat
  pt_checker :: checker
  pt_counters :: probe_counters

definition hc_register_counter :: "string \<Rightarrow> string \<Rightarrow> stats \<Rightarrow> (spawn_stop + nat) \<times> stats" where
  "hc_register_counter cluster kind st =
     (case register_counter (''cluster.'' @ cluster @ ''.health_check.'' @ kind) st of
        (Inl e, st') \<Rightarrow> (Inl (SpawnFail (HealthStatsRegistration cluster e)), st')
      | (Inr h, st') \<Rightarrow> (Inr h, st'))"

definition hc_counters :: "string \<Rightarrow> stats \<Rightarrow> (spawn_stop + probe_counters) \<times> stats" where
  "hc_counters cluster st =
     (case hc_register_counter cluster ''attempt'' st of
        (Inl e, st1) \<Rightarrow> (Inl e, st1)
      | (Inr a, st1) \<Rightarrow> (case hc_register_counter cluster ''success'' st1 of
          (Inl e, st2) \<Rightarrow> (Inl e, st2)
        | (Inr s, st2) \<Rightarrow> (case hc_register_counter cluster ''failure'' st2 of
            (Inl e, st3) \<Rightarrow> (Inl e, st3)
          | (Inr f, st3) \<Rightarrow> (Inr \<lparr>pc_attempt = a, pc_success = s, pc_failure = f\<rparr>, st3))))"

definition hc_duration :: "string \<Rightarrow> string \<Rightarrow> string \<Rightarrow> spawn_stop + nat" where
  "hc_duration cluster fld raw =
     (case parse_duration raw of
        Inl e \<Rightarrow> Inl (SpawnFail (HealthInvalidDuration cluster fld e))
      | Inr d \<Rightarrow> Inr d)"

text \<open>An \<open>expect\<close> on the payload of a TCP check.\<close>

definition payload_expect :: "(string \<Rightarrow> bytes option) \<Rightarrow> HealthCheckPayload \<Rightarrow> spawn_stop + bytes" where
  "payload_expect b64 p = (case payload_decode b64 p of Inl _ \<Rightarrow> Inl SpawnPanic | Inr bs \<Rightarrow> Inr bs)"

fun payloads_expect :: "(string \<Rightarrow> bytes option) \<Rightarrow> HealthCheckPayload list \<Rightarrow> spawn_stop + bytes list" where
  "payloads_expect b64 [] = Inr []"
| "payloads_expect b64 (p # ps) =
     (case payload_expect b64 p of
        Inl e \<Rightarrow> Inl e
      | Inr bs \<Rightarrow> (case payloads_expect b64 ps of Inl e \<Rightarrow> Inl e | Inr bss \<Rightarrow> Inr (bs # bss)))"

definition tcp_checker :: "(string \<Rightarrow> bytes option) \<Rightarrow> TcpHealthCheck \<Rightarrow> spawn_stop + checker" where
  "tcp_checker b64 tcp =
     (case (case tcp_send tcp of None \<Rightarrow> Inr None | Some p \<Rightarrow> map_sum id Some (payload_expect b64 p)) of
        Inl e \<Rightarrow> Inl e
      | Inr send \<Rightarrow> map_sum id (TcpChecker send) (payloads_expect b64 (tcp_receive tcp)))"

definition http_checker :: "string \<Rightarrow> HttpHealthCheck \<Rightarrow> checker" where
  "http_checker name http =
     HttpChecker (case hhc_host http of Some h \<Rightarrow> h | None \<Rightarrow> name) (hhc_path http) (expected_statuses http)"

definition grpc_checker :: "string \<Rightarrow> GrpcHealthCheck \<Rightarrow> checker" where
  "grpc_checker name g =
     GrpcChecker (if ghc_authority g = [] then name else ghc_authority g) (ghc_service_name g)"

text \<open>The payloads are decoded before the manager is asked, the checker is chosen for each target.\<close>

definition select_checker :: "string \<Rightarrow> HealthCheck \<Rightarrow> checker option \<Rightarrow> checker option" where
  "select_checker name hc tcp_cfg =
     (case (http_health_check hc, tcp_cfg, grpc_health_check hc) of
        (Some http, None, None) \<Rightarrow> Some (http_checker name http)
      | (None, Some tcp, None) \<Rightarrow> Some tcp
      | (None, None, Some g) \<Rightarrow> Some (grpc_checker name g)
      | _ \<Rightarrow> None)"

definition health_probe_targets :: "'addr cluster \<Rightarrow> ('addr \<times> nat) list option" where
  "health_probe_targets c = map_option (\<lambda>hs. zip (cl_endpoints c) [0..<length hs]) (cl_health c)"

definition spawn_targets :: "string \<Rightarrow> HealthCheck \<Rightarrow> checker option \<Rightarrow> nat \<Rightarrow> nat \<Rightarrow> probe_counters
    \<Rightarrow> ('addr \<times> nat) list \<Rightarrow> spawn_stop + 'addr probe_task list" where
  "spawn_targets name hc tcp_cfg timeout interval cs targets =
     (case (targets, select_checker name hc tcp_cfg) of
        ([], _) \<Rightarrow> Inr []
      | (_, None) \<Rightarrow> Inl SpawnPanic
      | (_, Some ck) \<Rightarrow> Inr (map (\<lambda>(addr, i). \<lparr>pt_cluster = name, pt_index = i, pt_addr = addr, pt_timeout = timeout,
            pt_interval = interval, pt_checker = ck, pt_counters = cs\<rparr>) targets))"

definition spawn_checked :: "(string \<Rightarrow> bytes option) \<Rightarrow> 'addr cluster_manager \<Rightarrow> string \<Rightarrow> HealthCheck \<Rightarrow> probe_counters
    \<Rightarrow> spawn_stop + 'addr probe_task list" where
  "spawn_checked b64 mgr name hc cs =
     (case hc_duration name ''interval'' (hc_interval hc) of
        Inl e \<Rightarrow> Inl e
      | Inr interval_dur \<Rightarrow> (case hc_duration name ''timeout'' (hc_timeout hc) of
          Inl e \<Rightarrow> Inl e
        | Inr probe_timeout \<Rightarrow>
            (case (case tcp_health_check hc of None \<Rightarrow> Inr None | Some tcp \<Rightarrow> map_sum id Some (tcp_checker b64 tcp)) of
               Inl e \<Rightarrow> Inl e
             | Inr tcp_cfg \<Rightarrow>
                 (case cm_get mgr name of
                    None \<Rightarrow> Inr []
                  | Some c \<Rightarrow> (case health_probe_targets c of
                      None \<Rightarrow> Inl SpawnPanic
                    | Some targets \<Rightarrow> spawn_targets name hc tcp_cfg probe_timeout interval_dur cs targets)))))"

definition spawn_cluster :: "(string \<Rightarrow> bytes option) \<Rightarrow> 'addr cluster_manager \<Rightarrow> ClusterConfig \<Rightarrow> stats
    \<Rightarrow> (spawn_stop + 'addr probe_task list) \<times> stats" where
  "spawn_cluster b64 mgr cfg st =
     (case health_checks cfg of
        [] \<Rightarrow> (Inr [], st)
      | hc # _ \<Rightarrow> (case hc_counters (cc_name cfg) st of
          (Inl e, st1) \<Rightarrow> (Inl e, st1)
        | (Inr cs, st1) \<Rightarrow> (spawn_checked b64 mgr (cc_name cfg) hc cs, st1)))"

fun spawn_clusters :: "(string \<Rightarrow> bytes option) \<Rightarrow> 'addr cluster_manager \<Rightarrow> ClusterConfig list \<Rightarrow> stats
    \<Rightarrow> (spawn_stop + 'addr probe_task list) \<times> stats" where
  "spawn_clusters b64 mgr [] st = (Inr [], st)"
| "spawn_clusters b64 mgr (cfg # cfgs) st =
     (case spawn_cluster b64 mgr cfg st of
        (Inl e, st1) \<Rightarrow> (Inl e, st1)
      | (Inr ts, st1) \<Rightarrow> (case spawn_clusters b64 mgr cfgs st1 of
          (Inl e, st2) \<Rightarrow> (Inl e, st2)
        | (Inr us, st2) \<Rightarrow> (Inr (ts @ us), st2)))"

definition scheduler_spawn :: "(string \<Rightarrow> bytes option) \<Rightarrow> Bootstrap \<Rightarrow> 'addr cluster_manager \<Rightarrow> stats
    \<Rightarrow> (spawn_stop + 'addr probe_task list) \<times> stats" where
  "scheduler_spawn b64 b mgr st = spawn_clusters b64 mgr (all_clusters b) st"

text \<open>The loop a task runs until it is cancelled.\<close>

record ('addr, 's) nets =
  net_http :: "('addr, 's) http_net"
  net_tcp :: "'addr tcp_net"
  net_grpc :: "'addr grpc_net"

definition task_run :: "'addr probe_task \<Rightarrow> ('addr, 's) nets option list \<Rightarrow> probed \<Rightarrow> loop_end \<times> probed" where
  "task_run t ns =
     (let d = pt_interval t; cs = pt_counters t; i = pt_index t; addr = pt_addr t in
      case pt_checker t of
        HttpChecker host path expected \<Rightarrow> probe_loop d cs i addr host path expected (map (map_option net_http) ns)
      | TcpChecker send receive \<Rightarrow> tcp_probe_loop d cs i addr send receive (map (map_option net_tcp) ns)
      | GrpcChecker authority service \<Rightarrow> grpc_probe_loop d cs i addr authority service (map (map_option net_grpc) ns))"

section \<open>Matching what a peer sends\<close>

text \<open>The payloads occur in order and do not overlap; what lies between them does not matter.\<close>

fun in_order :: "bytes list \<Rightarrow> bytes \<Rightarrow> bool" where
  "in_order [] buf = True"
| "in_order (p # ps) buf = (\<exists>a b. buf = a @ p @ b \<and> in_order ps b)"

lemma in_order_left: "in_order ps b \<Longrightarrow> in_order ps (a @ b)"
  by (cases ps) (auto, metis append.assoc)

lemma in_order_right: "in_order ps b \<Longrightarrow> in_order ps (b @ c)"
proof (induction ps arbitrary: b)
  case (Cons p ps)
  then obtain x y where "b = x @ p @ y" "in_order ps y" by auto
  with Cons.IH [of y] show ?case by auto
qed simp

lemma in_order_empty: "in_order ([] # ps) b \<longleftrightarrow> in_order ps b"
  using in_order_left by force

lemma occurs_at: "take (length n) (drop i h) = n \<and> i + length n \<le> length h \<longleftrightarrow> (\<exists>a b. h = a @ n @ b \<and> length a = i)"
proof
  assume l: "take (length n) (drop i h) = n \<and> i + length n \<le> length h"
  then have "h = take i h @ n @ drop (length n) (drop i h)" by (metis append_take_drop_id)
  with l show "\<exists>a b. h = a @ n @ b \<and> length a = i" by (metis add_leD1 length_take min.absorb2)
qed auto

lemma find_subslice_None:
  assumes "n \<noteq> []" "find_subslice h n = None"
  shows "\<not> (\<exists>a b. h = a @ n @ b)"
proof
  assume "\<exists>a b. h = a @ n @ b"
  then obtain a b where "h = a @ n @ b" by blast
  then have "length a \<in> set [0..<length h + 1 - length n]" "take (length n) (drop (length a) h) = n" by auto
  with assms show False by (auto simp: find_subslice_def find_None_iff)
qed

lemma find_subslice_Some:
  assumes "n \<noteq> []" "find_subslice h n = Some i"
  obtains a b where "h = a @ n @ b" "length a = i" "\<forall>c d. h = c @ n @ d \<longrightarrow> i \<le> length c"
proof -
  let ?js = "[0..<length h + 1 - length n]"
  obtain k where k: "k < length ?js" "take (length n) (drop (?js ! k) h) = n" "i = ?js ! k"
      "\<forall>j < k. take (length n) (drop (?js ! j) h) \<noteq> n"
    using assms by (auto simp: find_subslice_def find_Some_iff)
  then have i: "i = k" "i + length n \<le> length h" by simp_all
  have "take (length n) (drop i h) = n" using k(2,3) by (simp only:)
  with i(2) occurs_at [of n i h] obtain a b where ab: "h = a @ n @ b" "length a = i" by blast
  have "i \<le> length c" if "h = c @ n @ d" for c d
  proof (rule ccontr)
    assume "\<not> i \<le> length c"
    then have "length c < k" "?js ! length c = length c" using i k(1) by simp_all
    with k(4) that show False by auto
  qed
  with ab that show thesis by blast
qed

text \<open>The greedy search for the first occurrence loses nothing: what follows any later one is a suffix of what follows it.\<close>

lemma first_occurrence_enough:
  assumes "h = a @ n @ b" "\<And>c d. h = c @ n @ d \<Longrightarrow> length a \<le> length c"
  shows "in_order (n # ps) h \<longleftrightarrow> in_order ps b"
proof
  assume "in_order (n # ps) h"
  then obtain c d where cd: "h = c @ n @ d" "in_order ps d" by auto
  then have le: "length a \<le> length c" using assms(2) by blast
  have "d = drop (length c - length a) b"
    using arg_cong [OF assms(1), of "drop (length c + length n)"] cd(1) le by simp
  then have "b = take (length c - length a) b @ d" by simp
  with in_order_left [OF cd(2)] show "in_order ps b" by metis
qed (use assms(1) in auto)

lemma receive_loop_spec: "offset \<le> length buf \<Longrightarrow> receive_loop ps buf offset = Some (in_order ps (drop offset buf))"
proof (induction ps arbitrary: offset)
  case (Cons p ps)
  show ?case
  proof (cases "p = []")
    case True
    with Cons show ?thesis by (simp add: in_order_empty del: in_order.simps(2))
  next
    case p: False
    show ?thesis
    proof (cases "find_subslice (drop offset buf) p")
      case None
      with p Cons.prems find_subslice_None [OF p None] show ?thesis by (auto simp: slice_from_def)
    next
      case (Some i)
      obtain a b where ab: "drop offset buf = a @ p @ b" "length a = i"
          "\<forall>c d. drop offset buf = c @ p @ d \<longrightarrow> i \<le> length c"
        by (rule find_subslice_Some [OF p Some])
      have "length (drop offset buf) = i + length p + length b" using ab(1,2) by simp
      then have le: "offset + (i + length p) \<le> length buf" using Cons.prems by simp
      have "drop (offset + (i + length p)) buf = drop (i + length p) (drop offset buf)" by (simp add: add.commute)
      then have "drop (offset + (i + length p)) buf = b" using ab(1,2) by simp
      moreover have "in_order (p # ps) (drop offset buf) \<longleftrightarrow> in_order ps b"
        using first_occurrence_enough [OF ab(1)] ab(2,3) by blast
      ultimately show ?thesis
        using p Some Cons.prems Cons.IH [OF le] by (simp add: slice_from_def del: in_order.simps(2))
    qed
  qed
qed simp

lemma receive_matches_spec: "receive_matches ps buf = Some (in_order ps buf)"
  by (simp add: receive_matches_def receive_loop_spec)

lemma tcp_scan_spec:
  assumes "list_all (\<lambda>c. c \<noteq> []) chunks" "rest = [] \<or> (\<exists>e. hd rest = Inl e) \<or> hd rest = Inr []"
  shows "tcp_scan receive buf (map Inr chunks @ rest) = Passed \<longleftrightarrow> chunks \<noteq> [] \<and> in_order receive (buf @ concat chunks)"
  using assms(1)
proof (induction chunks arbitrary: buf)
  case Nil
  then show ?case using assms(2) by (cases rest) auto
next
  case (Cons c chunks)
  show ?case
  proof (cases "in_order receive (buf @ c)")
    case True
    with Cons.prems in_order_right [OF True, of "concat chunks"] show ?thesis by (simp add: receive_matches_spec)
  next
    case False
    with Cons.IH [of "buf @ c"] Cons.prems show ?thesis by (auto simp: receive_matches_spec)
  qed
qed

text \<open>
  C20. A TCP probe passes exactly when the connection is made, the payload is sent and what arrives before the stream
  ends, fails or stops holds the expected payloads in order and without overlap, however the bytes are cut into reads.
\<close>

theorem tcp_probe_passes:
  assumes "tcp_reads net addr = map Inr chunks @ rest" "list_all (\<lambda>c. c \<noteq> []) chunks"
    and "rest = [] \<or> (\<exists>e. hd rest = Inl e) \<or> hd rest = Inr []"
  shows "tcp_probe_once net addr send receive = Passed \<longleftrightarrow>
    tcp_connect net addr = Some (Inr ()) \<and> (\<forall>bs. send = Some bs \<longrightarrow> tcp_write net addr bs = Some (Inr ())) \<and>
    (receive = [] \<or> chunks \<noteq> [] \<and> in_order receive (concat chunks))"
proof -
  have t: "with_timeout TcpTimeout r = Passed \<longleftrightarrow> r = Passed" for r by (cases r) simp_all
  show ?thesis
    using tcp_scan_spec [OF assms(2,3), of receive "[]"] assms(1)
    by (auto simp: tcp_probe_once_def t split: option.splits sum.splits)
qed

theorem tcp_probe_passes_witness:
  "tcp_probe_once \<lparr>tcp_connect = (\<lambda>_. Some (Inr ())), tcp_write = (\<lambda>_ _. Some (Inr ())),
     tcp_reads = (\<lambda>_. [Inr [65, 80, 73], Inr [78, 71, 66], Inr []])\<rparr> (0 :: nat) (Some [1]) [[80, 73, 78, 71], [66]] = Passed"
proof -
  let ?net = "\<lparr>tcp_connect = (\<lambda>_. Some (Inr ())), tcp_write = (\<lambda>_ _. Some (Inr ())),
     tcp_reads = (\<lambda>_. [Inr [65, 80, 73], Inr [78, 71, 66], Inr []])\<rparr> :: nat tcp_net"
  have "in_order [[80, 73, 78, 71], [66]] [65, 80, 73, 78, 71, 66]"
    using receive_matches_spec [of "[[80, 73, 78, 71], [66]]" "[65, 80, 73, 78, 71, 66]"]
    by (simp add: receive_matches_def slice_from_def find_subslice_def upt_rec del: in_order.simps)
  then show ?thesis
    using tcp_probe_passes [of ?net 0 "[[65, 80, 73], [78, 71, 66]]" "[Inr []]" "Some [1]" "[[80, 73, 78, 71], [66]]"]
    by (simp del: in_order.simps)
qed

section \<open>Nothing panics\<close>

definition http_returns :: "('addr, 's) http_net \<Rightarrow> bool" where
  "http_returns net \<longleftrightarrow> (\<forall>x req. http_send net x req \<noteq> None)"

lemma probe_once_ends: "http_returns net \<Longrightarrow> probe_once net addr host path expected \<notin> {Panicked, Pending}"
  unfolding http_returns_def probe_once_def by (auto simp del: not_None_eq split: option.split sum.split)

lemma tcp_scan_no_panic: "tcp_scan receive buf rs \<noteq> Panicked"
  by (induction receive buf rs rule: tcp_scan.induct) (simp_all add: receive_matches_spec split: bool.split)

lemma with_timeout_ends: "r \<noteq> Panicked \<Longrightarrow> with_timeout e r \<notin> {Panicked, Pending}"
  by (cases r) simp_all

lemma tcp_probe_once_ends: "tcp_probe_once net addr send receive \<notin> {Panicked, Pending}"
  unfolding tcp_probe_once_def
  by (rule with_timeout_ends) (simp add: tcp_scan_no_panic split: option.split sum.split)

lemma grpc_verdict_no_panic: "grpc_verdict r \<noteq> Panicked"
  by (simp add: grpc_verdict_def split: sum.split GrpcCallError.split ServingStatus.split)

lemma grpc_probe_once_ends: "grpc_probe_once net addr authority service \<notin> {Panicked, Pending}"
  unfolding grpc_probe_once_def
  by (rule with_timeout_ends)
    (auto simp: Let_def grpc_verdict_no_panic split: option.split sum.split elim!: call_never_panics [THEN notE])

section \<open>The books of a cluster's probes\<close>

definition probe_run :: "probe_counters \<Rightarrow> (nat \<times> 'e probe_end) list \<Rightarrow> probed \<Rightarrow> probed" where
  "probe_run cs evs w = fold (\<lambda>(i, r). probe_tick cs i r) evs w"

text \<open>The health events that the ticks of all tasks of a cluster, in the order they happen, amount to.\<close>

fun verdicts :: "(nat \<times> 'e probe_end) list \<Rightarrow> (nat \<times> probe) list" where
  "verdicts [] = []"
| "verdicts ((i, Passed) # evs) = (i, ProbeSuccess) # verdicts evs"
| "verdicts ((i, Failed e) # evs) = (i, ProbeFailure) # verdicts evs"
| "verdicts (_ # evs) = verdicts evs"

lemma hc_counters_cells:
  assumes "stats_wf st0" "hc_counters c st0 = (Inr cs, st)"
  shows "stats_wf st \<and> pc_attempt cs < length (counters st) \<and> pc_success cs < length (counters st)
    \<and> pc_failure cs < length (counters st) \<and> distinct [pc_attempt cs, pc_success cs, pc_failure cs]"
proof -
  obtain a s f st1 st2 where r: "register_counter (''cluster.'' @ c @ ''.health_check.'' @ ''attempt'') st0 = (Inr a, st1)"
      "register_counter (''cluster.'' @ c @ ''.health_check.'' @ ''success'') st1 = (Inr s, st2)"
      "register_counter (''cluster.'' @ c @ ''.health_check.'' @ ''failure'') st2 = (Inr f, st)"
      and cs: "cs = \<lparr>pc_attempt = a, pc_success = s, pc_failure = f\<rparr>"
    using assms(2) by (auto simp: hc_counters_def hc_register_counter_def split: prod.splits sum.splits)
  note k1 = register_keeps(1) [OF assms(1) r(1)]
  note k2 = register_keeps(1) [OF k1 [THEN conjunct1, unfolded names_keep_def, THEN conjunct1] r(2)]
  note k3 = register_keeps(1) [OF k2 [THEN conjunct1, unfolded names_keep_def, THEN conjunct1] r(3)]
  have wf: "stats_wf st" and up: "\<And>n h. bt_get (reg_map st2) n = Some h \<Longrightarrow> bt_get (reg_map st) n = Some h"
    "\<And>n h. bt_get (reg_map st1) n = Some h \<Longrightarrow> bt_get (reg_map st2) n = Some h"
    using k2 k3 by (simp_all add: names_keep_def)
  note g = up(1) [OF up(2) [OF k1 [THEN conjunct2]]] up(1) [OF k2 [THEN conjunct2]] k3 [THEN conjunct2]
  show ?thesis
    using handles_differ [OF wf g(1,2)] handles_differ [OF wf g(1,3)] handles_differ [OF wf g(2,3)]
      wf_handle_ok [OF wf g(1)] wf_handle_ok [OF wf g(2)] wf_handle_ok [OF wf g(3)] wf
    by (simp add: cs handle_ok_def)
qed

lemma probe_tick_cells:
  assumes "distinct [pc_attempt cs, pc_success cs, pc_failure cs]"
    and "list_all (\<lambda>k. k < length (counters (pd_stats w))) [pc_attempt cs, pc_success cs, pc_failure cs]"
  shows "length (counters (pd_stats (probe_tick cs i r w))) = length (counters (pd_stats w))"
    and "counters (pd_stats (probe_tick cs i r w)) ! pc_attempt cs = counters (pd_stats w) ! pc_attempt cs + 1"
    and "counters (pd_stats (probe_tick cs i r w)) ! pc_success cs
      = counters (pd_stats w) ! pc_success cs + (if r = Passed then 1 else 0)"
    and "counters (pd_stats (probe_tick cs i r w)) ! pc_failure cs
      = counters (pd_stats w) ! pc_failure cs + (if \<exists>e. r = Failed e then 1 else 0)"
    and "pd_members (probe_tick cs i r w) = member_run health_step (verdicts [(i, r)]) (pd_members w)"
  using assms
  by (cases r; simp add: probe_tick_def Let_def counter_inc_def counter_inc_val_def member_run_def)+

lemma verdicts_Cons: "verdicts (e # evs) = verdicts [e] @ verdicts evs"
  by (cases e; cases "snd e") auto

lemma probe_run_books:
  assumes "distinct [pc_attempt cs, pc_success cs, pc_failure cs]"
    and "list_all (\<lambda>k. k < length (counters (pd_stats w))) [pc_attempt cs, pc_success cs, pc_failure cs]"
  shows "counters (pd_stats (probe_run cs evs w)) ! pc_attempt cs = counters (pd_stats w) ! pc_attempt cs + of_nat (length evs)
    \<and> counters (pd_stats (probe_run cs evs w)) ! pc_success cs
        = counters (pd_stats w) ! pc_success cs + of_nat (length (filter (\<lambda>(i, r). r = Passed) evs))
    \<and> counters (pd_stats (probe_run cs evs w)) ! pc_failure cs
        = counters (pd_stats w) ! pc_failure cs + of_nat (length (filter (\<lambda>(i, r). \<exists>e. r = Failed e) evs))
    \<and> pd_members (probe_run cs evs w) = member_run health_step (verdicts evs) (pd_members w)"
  using assms(2)
proof (induction evs arbitrary: w)
  case Nil
  then show ?case by (simp add: probe_run_def member_run_def)
next
  case (Cons e evs)
  obtain i r where e: "e = (i, r)" by fastforce
  let ?w = "probe_tick cs i r w"
  note t = probe_tick_cells [OF assms(1) Cons.prems, of i r]
  have run: "probe_run cs (e # evs) w = probe_run cs evs ?w" by (simp add: probe_run_def e)
  have mem: "member_run health_step (verdicts (e # evs)) m = member_run health_step (verdicts evs)
      (member_run health_step (verdicts [e]) m)" for m
    by (simp add: verdicts_Cons [of e evs] member_run_def)
  show ?case
    using Cons.IH [of ?w] Cons.prems t unfolding run mem by (auto simp: e)
qed

text \<open>
  The books of a cluster's probe tasks, over any interleaving of their ticks from the state the scheduler starts them
  in: every attempt is counted once as a success or as a failure, and \<open>membership_healthy\<close> is the number of endpoints
  that \<open>pick\<close> takes for healthy.
\<close>

theorem probe_books:
  fixes evs :: "(nat \<times> 'e probe_end) list"
  assumes "stats_wf st0" "hc_counters c st0 = (Inr cs, st)" "n < 2 ^ 63"
    and "\<forall>(i, r) \<in> set evs. r \<notin> {Panicked, Pending}"
    and "w = probe_run cs evs \<lparr>pd_stats = st, pd_members = (replicate n (health_new ht ut), gauge_new)\<rparr>"
  shows "counters (pd_stats w) ! pc_attempt cs - counters st ! pc_attempt cs
      = (counters (pd_stats w) ! pc_success cs - counters st ! pc_success cs)
        + (counters (pd_stats w) ! pc_failure cs - counters st ! pc_failure cs)
    \<and> gauge_value (snd (pd_members w)) = int (length (filter is_healthy (fst (pd_members w))))"
proof -
  let ?w = "\<lparr>pd_stats = st, pd_members = (replicate n (health_new ht ut), gauge_new)\<rparr>"
  from hc_counters_cells [OF assms(1,2)] have
    "distinct [pc_attempt cs, pc_success cs, pc_failure cs]"
    "list_all (\<lambda>k. k < length (counters (pd_stats ?w))) [pc_attempt cs, pc_success cs, pc_failure cs]" by simp_all
  note b = probe_run_books [OF this, of evs, folded assms(5)]
  have split: "length evs = length (filter (\<lambda>(i, r). r = Passed) evs) + length (filter (\<lambda>(i, r). \<exists>e. r = Failed e) evs)"
    using assms(4)
  proof (induction evs)
    case (Cons e evs)
    then show ?case by (cases e; cases "snd e") auto
  qed simp
  have "gauge_value (snd (pd_members w)) = int (raised is_healthy (fst (pd_members w)))"
    using b hg.gauge_is_count [OF fresh_cluster_gauge [of n ht ut], of "verdicts evs"] assms(3) by simp
  then show ?thesis using b split by (simp add: raised_def)
qed

theorem probe_books_witness:
  "\<exists>cs st w. hc_counters ''c'' registry_new = (Inr cs, st)
    \<and> w = probe_run cs [(0, Passed), (1, Failed TcpEof), (0, Passed)]
        \<lparr>pd_stats = st, pd_members = (replicate 2 (health_new 1 1), gauge_new)\<rparr>
    \<and> gauge_value (snd (pd_members w)) = int (length (filter is_healthy (fst (pd_members w))))"
proof -
  have "\<not> isl (fst (hc_counters ''c'' registry_new))" by code_simp
  then obtain cs st where h: "hc_counters ''c'' registry_new = (Inr cs, st)" by (metis prod.collapse sum.collapse(2))
  have "\<forall>(i, r) \<in> set [(0, Passed), (1, Failed TcpEof), (0, Passed)]. r \<notin> {Panicked, Pending}" "(2 :: nat) < 2 ^ 63"
    by simp_all
  from probe_books [OF stats_wf_new h this(2,1) refl, of 1 1] h show ?thesis by blast
qed

section \<open>The tasks that are started\<close>

definition sound_task :: "'addr probe_task \<Rightarrow> bool" where
  "sound_task t \<longleftrightarrow> 0 < pt_interval t \<and> 0 < pt_timeout t"

lemma positive_duration:
  assumes "check_timing err (f, raw) = Inr ()"
  obtains d where "hc_duration name fld raw = Inr d" "0 < d"
  using assms by (auto simp: check_timing_def parse_positive_duration_def hc_duration_def split: sum.splits if_splits)

lemma payload_expect_ok: "validate_payload b64 c p = Inr () \<Longrightarrow> \<exists>bs. payload_expect b64 p = Inr bs"
  by (auto simp: validate_payload_def payload_expect_def split: sum.splits PayloadDecodeError.splits)

lemma payloads_expect_ok:
  "\<forall>p \<in> set ps. validate_payload b64 c p = Inr () \<Longrightarrow> \<exists>bs. payloads_expect b64 ps = Inr bs"
proof (induction ps)
  case (Cons p ps)
  then show ?case using payload_expect_ok [of b64 c p] by fastforce
qed simp

lemma tcp_checker_ok:
  assumes "on_some (validate_payload b64 c) (tcp_send tcp) = Inr ()"
    and "\<forall>p \<in> set (tcp_receive tcp). validate_payload b64 c p = Inr ()"
  shows "\<exists>ck. tcp_checker b64 tcp = Inr ck"
proof -
  obtain bs where bs: "payloads_expect b64 (tcp_receive tcp) = Inr bs" using payloads_expect_ok [OF assms(2)] by blast
  show ?thesis
  proof (cases "tcp_send tcp")
    case (Some p)
    then obtain x where "payload_expect b64 p = Inr x" using assms(1) payload_expect_ok [of b64 c p] by auto
    with Some bs show ?thesis by (simp add: tcp_checker_def)
  qed (use bs in \<open>simp add: tcp_checker_def\<close>)
qed

lemma validated_check:
  assumes "validate_health_check b64 cfg hc = Inr ()"
  obtains i t tcp ck where "hc_duration name ''interval'' (hc_interval hc) = Inr i" "0 < i"
    "hc_duration name ''timeout'' (hc_timeout hc) = Inr t" "0 < t"
    "(case tcp_health_check hc of None \<Rightarrow> Inr None | Some tcp \<Rightarrow> map_sum id Some (tcp_checker b64 tcp)) = Inr tcp"
    "select_checker nm hc tcp = Some ck"
proof -
  have v: "check_timing (InvalidHealthCheckTiming (cc_name cfg)) (''timeout'', hc_timeout hc) = Inr ()"
    "check_timing (InvalidHealthCheckTiming (cc_name cfg)) (''interval'', hc_interval hc) = Inr ()"
    using assms by (simp_all add: validate_health_check_def Let_def)
  obtain tcp where tcp: "(case tcp_health_check hc of None \<Rightarrow> Inr None | Some tcp \<Rightarrow> map_sum id Some (tcp_checker b64 tcp)) = Inr tcp"
    "tcp = None \<longleftrightarrow> tcp_health_check hc = None"
  proof (cases "tcp_health_check hc")
    case (Some x)
    then obtain ck where "tcp_checker b64 x = Inr ck"
      using assms tcp_checker_ok [of b64 "cc_name cfg" x] by (auto simp: validate_health_check_def Let_def)
    with Some that show thesis by simp
  qed (use that in simp)
  have "select_checker nm hc tcp \<noteq> None"
    using assms tcp(2)
    by (cases "http_health_check hc"; cases "tcp_health_check hc"; cases "grpc_health_check hc"; cases tcp)
      (simp_all add: validate_health_check_def Let_def select_checker_def)
  then obtain ck where ck: "select_checker nm hc tcp = Some ck" by auto
  obtain i where i: "hc_duration name ''interval'' (hc_interval hc) = Inr i" "0 < i" using positive_duration [OF v(2)] .
  obtain t where t: "hc_duration name ''timeout'' (hc_timeout hc) = Inr t" "0 < t" using positive_duration [OF v(1)] .
  show thesis using that [OF i t tcp(1) ck] .
qed

text \<open>The tasks a cluster is due: one per endpoint if it is health-checked.\<close>

definition due_tasks :: "'addr cluster_manager \<Rightarrow> ClusterConfig \<Rightarrow> (string \<times> nat \<times> 'addr) list" where
  "due_tasks m cfg =
     (if health_checks cfg = [] then []
      else case cm_get m (cc_name cfg) of
        None \<Rightarrow> []
      | Some c \<Rightarrow> map (\<lambda>i. (cc_name cfg, i, cl_endpoints c ! i)) [0..<length (cl_endpoints c)])"

definition task_key :: "'addr probe_task \<Rightarrow> string \<times> nat \<times> 'addr" where
  "task_key t = (pt_cluster t, pt_index t, pt_addr t)"

lemma zip_upt_keys: "map (\<lambda>(a, i). (n, i, a)) (zip xs [0..<length xs]) = map (\<lambda>i. (n, i, xs ! i)) [0..<length xs]"
  by (rule nth_equalityI) simp_all

lemma spawn_checked_ok:
  assumes "validate_health_check b64 cfg hc = Inr ()" "cm_get m (cc_name cfg) = Some c" "cl_health c = Some hs"
    and "length hs = length (cl_endpoints c)" "health_checks cfg \<noteq> []"
  shows "\<exists>ts. spawn_checked b64 m (cc_name cfg) hc cs = Inr ts \<and> map task_key ts = due_tasks m cfg \<and> list_all sound_task ts"
proof -
  let ?n = "cc_name cfg"
  obtain i t tcp ck where v: "hc_duration ?n ''interval'' (hc_interval hc) = Inr i" "0 < i"
    "hc_duration ?n ''timeout'' (hc_timeout hc) = Inr t" "0 < t"
    "(case tcp_health_check hc of None \<Rightarrow> Inr None | Some tcp \<Rightarrow> map_sum id Some (tcp_checker b64 tcp)) = Inr tcp"
    "select_checker ?n hc tcp = Some ck"
    by (rule validated_check [OF assms(1)])
  let ?ts = "map (\<lambda>(addr, k). \<lparr>pt_cluster = ?n, pt_index = k, pt_addr = addr, pt_timeout = t, pt_interval = i,
      pt_checker = ck, pt_counters = cs\<rparr>) (zip (cl_endpoints c) [0..<length hs])"
  have "spawn_checked b64 m ?n hc cs = Inr ?ts"
    using v assms(2,3) by (simp add: spawn_checked_def health_probe_targets_def spawn_targets_def split: list.split)
  moreover have "map task_key ?ts = due_tasks m cfg"
    using assms(2-5) zip_upt_keys [of ?n "cl_endpoints c"]
    by (simp add: due_tasks_def task_key_def comp_def split_def)
  moreover have "list_all sound_task ?ts" using v by (simp add: list_all_iff sound_task_def split_def)
  ultimately show ?thesis by blast
qed

lemma hc_counters_stop:
  assumes "hc_counters c st = (Inl e, st')"
  shows "\<exists>err. e = SpawnFail (HealthStatsRegistration c err)"
  using assms by (auto simp: hc_counters_def hc_register_counter_def split: prod.splits sum.splits)

definition probeable :: "(string \<Rightarrow> bytes option) \<Rightarrow> 'addr cluster_manager \<Rightarrow> ClusterConfig \<Rightarrow> bool" where
  "probeable b64 m cfg \<longleftrightarrow> validate_health_checks b64 cfg = Inr () \<and>
     (\<exists>c. cm_get m (cc_name cfg) = Some c \<and> cluster_ready cfg c)"

lemma spawn_cluster_ok:
  assumes "probeable b64 m cfg" "spawn_cluster b64 m cfg st = (r, st')"
  shows "(\<exists>c e. r = Inl (SpawnFail (HealthStatsRegistration c e)))
    \<or> (\<exists>ts. r = Inr ts \<and> map task_key ts = due_tasks m cfg \<and> list_all sound_task ts)"
proof (cases "health_checks cfg")
  case Nil
  with assms(2) show ?thesis by (auto simp: spawn_cluster_def due_tasks_def)
next
  case (Cons hc hcs)
  obtain c where c: "cm_get m (cc_name cfg) = Some c" "cluster_ready cfg c" and v: "validate_health_check b64 cfg hc = Inr ()"
    using assms(1) Cons by (auto simp: probeable_def validate_health_checks_def)
  then obtain hs where hs: "cl_health c = Some hs" "length hs = length (cl_endpoints c)"
    using Cons by (auto simp: cluster_ready_def cluster_wf_def)
  show ?thesis
  proof (cases "hc_counters (cc_name cfg) st")
    case (Pair q st1)
    show ?thesis
    proof (cases q)
      case (Inl e)
      with Pair Cons assms(2) hc_counters_stop [of "cc_name cfg" st e st1] show ?thesis by (auto simp: spawn_cluster_def)
    next
      case (Inr cs)
      with Pair Cons assms(2) spawn_checked_ok [OF v c(1) hs, of cs] show ?thesis by (auto simp: spawn_cluster_def)
    qed
  qed
qed

lemma spawn_clusters_ok:
  assumes "\<forall>cfg \<in> set cfgs. probeable b64 m cfg" "spawn_clusters b64 m cfgs st = (r, st')"
  shows "(\<exists>c e. r = Inl (SpawnFail (HealthStatsRegistration c e)))
    \<or> (\<exists>ts. r = Inr ts \<and> map task_key ts = concat (map (due_tasks m) cfgs) \<and> list_all sound_task ts)"
  using assms
proof (induction cfgs arbitrary: st r st')
  case (Cons cfg cfgs)
  obtain r1 st1 where s: "spawn_cluster b64 m cfg st = (r1, st1)" by fastforce
  obtain r2 st2 where t: "spawn_clusters b64 m cfgs st1 = (r2, st2)" by fastforce
  from Cons.prems spawn_cluster_ok [OF _ s] have a: "(\<exists>c e. r1 = Inl (SpawnFail (HealthStatsRegistration c e)))
    \<or> (\<exists>ts. r1 = Inr ts \<and> map task_key ts = due_tasks m cfg \<and> list_all sound_task ts)" by simp
  from Cons.prems Cons.IH [OF _ t] have b: "(\<exists>c e. r2 = Inl (SpawnFail (HealthStatsRegistration c e)))
    \<or> (\<exists>ts. r2 = Inr ts \<and> map task_key ts = concat (map (due_tasks m) cfgs) \<and> list_all sound_task ts)" by simp
  have r: "r = (case r1 of Inl e \<Rightarrow> Inl e | Inr ts \<Rightarrow> (case r2 of Inl e \<Rightarrow> Inl e | Inr us \<Rightarrow> Inr (ts @ us)))"
    using Cons.prems(2) s t by (auto split: sum.splits)
  from a show ?case
  proof
    assume "\<exists>ts. r1 = Inr ts \<and> map task_key ts = due_tasks m cfg \<and> list_all sound_task ts"
    with b r show ?thesis by (auto simp: list_all_append)
  qed (use r in auto)
qed auto

text \<open>
  C19. Starting the probes of a validated configuration on the clusters that were built from it never panics, whatever the
  registry holds: it fails with a registration error, or it starts exactly one task for each endpoint of each
  health-checked cluster and none else, each with a positive interval, so that no ticker panics and every endpoint's
  health has a single writer.
\<close>

theorem scheduler_one_task_per_endpoint:
  assumes "\<forall>cfg \<in> set (all_clusters b). validate_cluster b64 cfg = Inr () \<and> load_assignment cfg \<noteq> None"
    and "from_bootstrap net b st = (Inr m, st1)"
  shows "(\<exists>c e. fst (scheduler_spawn b64 b m st2) = Inl (SpawnFail (HealthStatsRegistration c e)))
    \<or> (\<exists>ts. fst (scheduler_spawn b64 b m st2) = Inr ts \<and> map task_key ts = concat (map (due_tasks m) (all_clusters b))
        \<and> list_all sound_task ts)"
proof -
  obtain st3 where r: "build_clusters net (all_clusters b) bt_empty st = (Inr m, st3)"
    using assms(2) by (auto simp: from_bootstrap_def boot_inr split: if_splits)
  have v: "\<forall>cfg \<in> set (all_clusters b). validate_cluster b64 cfg = Inr ()" using assms(1) by blast
  have hv: "validate_health_checks b64 cfg = Inr ()" if "cfg \<in> set (all_clusters b)" for cfg
    using assms(1) that by (auto simp: validate_cluster_def)
  have "\<forall>cfg \<in> set (all_clusters b). probeable b64 m cfg"
    using build_clusters_Inr [OF r _ v] hv by (simp add: probeable_def cm_get_def bt.wf_empty)
  with spawn_clusters_ok [of "all_clusters b" b64 m st2] show ?thesis
    unfolding scheduler_spawn_def by (metis prod.collapse)
qed

definition demo_hc_bootstrap :: Bootstrap where
  "demo_hc_bootstrap = \<lparr>static_clusters = [(demo_cfg RoundRobin)\<lparr>health_checks :=
       [\<lparr>hc_timeout = ''1s'', hc_interval = ''5s'', hc_healthy_threshold = 1, hc_unhealthy_threshold = 2,
         http_health_check = Some \<lparr>hhc_path = ''/healthz'', hhc_host = None, expected_statuses = [(200, 300)]\<rparr>,
         tcp_health_check = None, grpc_health_check = None\<rparr>]\<rparr>],
     dynamic_clusters = None, cds_config = False\<rparr>"

lemma demo_durations: "parse_duration ''1s'' = Inr 1000000" "parse_duration ''5s'' = Inr 5000000"
  by (simp_all add: parse_duration_def strip_suffix_def ends_with_def scaled_def parse_unsigned_def parse_digits_def
      is_ascii_digit_def byte_of_def read_nat_def digit_val_def)

lemma demo_hc_validated: "\<forall>cfg \<in> set (all_clusters demo_hc_bootstrap).
    validate_cluster (\<lambda>_. None) cfg = Inr () \<and> load_assignment cfg \<noteq> None"
  by (simp add: demo_hc_bootstrap_def all_clusters_def demo_cfg_def validate_cluster_def validate_lb_def
      validate_endpoint_source_def total_endpoints_def validate_health_checks_def validate_health_check_def Let_def
      validate_circuit_breakers_def validate_outlier_detection_def check_timing_def parse_positive_duration_def demo_durations)

lemma payloads_expect_stop: "payloads_expect b64 ps = Inl e \<Longrightarrow> e = SpawnPanic"
  by (induction ps) (auto simp: payload_expect_def split: sum.splits)

lemma tcp_checker_stop: "tcp_checker b64 tcp = Inl e \<Longrightarrow> e = SpawnPanic"
  using payloads_expect_stop [of b64 "tcp_receive tcp"]
  by (cases "payloads_expect b64 (tcp_receive tcp)"; cases "tcp_send tcp")
    (auto simp: tcp_checker_def payload_expect_def split: sum.splits)

lemma spawn_checked_stop: "spawn_checked b64 m c hc cs \<noteq> Inl (SpawnFail (HealthStatsRegistration n e))"
proof (cases "tcp_health_check hc")
  case None
  then show ?thesis
    by (auto simp: spawn_checked_def hc_duration_def spawn_targets_def split: sum.splits option.splits list.splits)
next
  case (Some tcp)
  then show ?thesis
    using tcp_checker_stop [of b64 tcp]
    by (cases "tcp_checker b64 tcp")
      (auto simp: spawn_checked_def hc_duration_def spawn_targets_def split: sum.splits option.splits list.splits)
qed

theorem scheduler_one_task_per_endpoint_witness:
  "\<exists>m st ts. from_bootstrap demo_net demo_hc_bootstrap registry_new = (Inr m, st)
    \<and> fst (scheduler_spawn (\<lambda>_. None) demo_hc_bootstrap m st) = Inr ts \<and> map task_key ts = [(''c'', 0, ''10.0.0.1:80'')]"
proof -
  have "case from_bootstrap demo_net demo_hc_bootstrap registry_new of
      (Inl _, _) \<Rightarrow> False
    | (Inr m, st) \<Rightarrow> \<not> isl (fst (hc_counters ''c'' st))
        \<and> concat (map (due_tasks m) (all_clusters demo_hc_bootstrap)) = [(''c'', 0, ''10.0.0.1:80'')]"
    by code_simp
  then obtain m st where m: "from_bootstrap demo_net demo_hc_bootstrap registry_new = (Inr m, st)"
    "\<not> isl (fst (hc_counters ''c'' st))"
    "concat (map (due_tasks m) (all_clusters demo_hc_bootstrap)) = [(''c'', 0, ''10.0.0.1:80'')]"
    by (auto split: prod.splits sum.splits)
  obtain cs st1 where "hc_counters ''c'' st = (Inr cs, st1)" using m(2) by (metis prod.collapse sum.collapse(2))
  then have "fst (scheduler_spawn (\<lambda>_. None) demo_hc_bootstrap m st) \<noteq> Inl (SpawnFail (HealthStatsRegistration n e))" for n e
    using spawn_checked_stop [of "\<lambda>_. None" m "''c''" _ cs n e]
    by (auto simp: scheduler_spawn_def demo_hc_bootstrap_def all_clusters_def demo_cfg_def spawn_cluster_def split: sum.splits)
  with scheduler_one_task_per_endpoint [OF demo_hc_validated m(1), of st] m(1,3) show ?thesis by metis
qed

text \<open>
  A task the scheduler starts, whatever the network does to its probes, runs until it is cancelled: it never panics, but
  for an HTTP probe in which the client does.
\<close>

lemma ticker_loop_lives:
  assumes "\<And>net. Some net \<in> set nets \<Longrightarrow> probe net \<notin> {Panicked, Pending}"
  shows "fst (ticker_loop cs i (turns probe nets) w) = (if None \<in> set nets then Returned else Running)"
  using assms
proof (induction nets arbitrary: w)
  case (Cons n nets)
  then show ?case by (cases n) (auto simp: turns_def)
qed (simp add: turns_def)

lemma none_mapped: "None \<in> map_option f ` A \<longleftrightarrow> None \<in> A"
  by force

lemma loops_live:
  assumes "0 < d"
  shows "(\<And>net. Some net \<in> set nets \<Longrightarrow> http_returns net) \<Longrightarrow>
      fst (probe_loop d cs i addr host path expected nets w) = (if None \<in> set nets then Returned else Running)"
    and "fst (tcp_probe_loop d cs i addr send receive nets' w) = (if None \<in> set nets' then Returned else Running)"
    and "fst (grpc_probe_loop d cs i addr authority service nets'' w) = (if None \<in> set nets'' then Returned else Running)"
  unfolding probe_loop_def tcp_probe_loop_def grpc_probe_loop_def start_ticker_def if_not_P [OF assms [THEN less_not_refl2]]
  by (rule ticker_loop_lives, (rule probe_once_ends tcp_probe_once_ends grpc_probe_once_ends), blast?)+

lemma task_lives:
  assumes "sound_task t" "\<And>net. Some net \<in> set ns \<Longrightarrow> http_returns (net_http net)"
  shows "fst (task_run t ns w) = (if None \<in> set ns then Returned else Running)"
proof -
  have "http_returns n" if "Some n \<in> set (map (map_option net_http) ns)" for n
  proof -
    from that obtain x where "x \<in> set ns" "map_option net_http x = Some n" by (metis image_iff set_map)
    with assms(2) show ?thesis by auto
  qed
  moreover have d: "0 < pt_interval t" using assms(1) by (simp add: sound_task_def)
  ultimately have "fst (probe_loop (pt_interval t) cs i addr host path expected (map (map_option net_http) ns) w) =
      (if None \<in> set (map (map_option net_http) ns) then Returned else Running)" for cs i addr host path expected
    by (intro loops_live(1))
  then show ?thesis
    using d by (cases "pt_checker t") (simp_all add: task_run_def Let_def loops_live(2,3) none_mapped)
qed

end
