(* ===== verification/Admin.thy ===== *)
theory Admin
  imports Listener H1_Connection
begin

text \<open>
  \<open>envoy-admin\<close>: the endpoints of the administration server (\<open>endpoint.rs\<close>) and the handler of its connections
  (\<open>handler.rs\<close>). The state an endpoint can change is the drain state and the registry of the process; everything else it
  reads. The printing of a JSON value by \<open>serde_json\<close> is the parameter \<open>to_vec_pretty\<close>, whose failure is a panic; the
  request parser is that of \<open>H1_Connection\<close>. \<open>None\<close> is a panic.
\<close>

section \<open>Endpoints and their dispatch\<close>

datatype AdminEndpoint = AdminReady | AdminStats | AdminStatsPrometheus | AdminConfigDump | AdminServerInfo | AdminClusters
  | AdminListeners | AdminRuntime | AdminDrainListeners | AdminHealthcheckFail | AdminHealthcheckOk

datatype Dispatch = DispatchEndpoint AdminEndpoint | DispatchNotFound | MethodNotAllowed string

definition from_path :: "string \<Rightarrow> AdminEndpoint option" where
  "from_path raw =
     (let path = hd (split_on (CHR ''?'') raw) in
      if path = ''/ready'' then Some AdminReady
      else if path = ''/stats'' then Some AdminStats
      else if path = ''/stats/prometheus'' then Some AdminStatsPrometheus
      else if path = ''/config_dump'' then Some AdminConfigDump
      else if path = ''/server_info'' then Some AdminServerInfo
      else if path = ''/clusters'' then Some AdminClusters
      else if path = ''/listeners'' then Some AdminListeners
      else if path = ''/runtime'' then Some AdminRuntime
      else if path = ''/drain_listeners'' then Some AdminDrainListeners
      else if path = ''/healthcheck/fail'' then Some AdminHealthcheckFail
      else if path = ''/healthcheck/ok'' then Some AdminHealthcheckOk
      else None)"

definition allowed_method :: "AdminEndpoint \<Rightarrow> string" where
  "allowed_method e =
     (case e of
        AdminDrainListeners \<Rightarrow> ''POST'' | AdminHealthcheckFail \<Rightarrow> ''POST'' | AdminHealthcheckOk \<Rightarrow> ''POST''
      | _ \<Rightarrow> ''GET'')"

definition admin_dispatch :: "string \<Rightarrow> string \<Rightarrow> Dispatch" where
  "admin_dispatch meth path =
     (case from_path path of
        None \<Rightarrow> DispatchNotFound
      | Some endpoint \<Rightarrow>
          let allow = allowed_method endpoint in
          if meth = allow then DispatchEndpoint endpoint else MethodNotAllowed allow)"

section \<open>What the handler holds\<close>

datatype ListenerFilter = HcmFilter "string option" "RouteConfiguration option" | OtherFilter

record AdminListener = ListenerConfig +
  filter_chains :: "ListenerFilter list list"

record 'y AdminBootstrap = Bootstrap +
  lds_config :: bool
  static_listeners :: "AdminListener list"
  dynamic_listeners :: "AdminListener list option"
  layered_runtime :: "'y RuntimeLayer list option"
  node_json :: "string option"

definition all_listeners :: "'y AdminBootstrap \<Rightarrow> AdminListener list" where
  "all_listeners b = static_listeners b @ (case dynamic_listeners b of None \<Rightarrow> [] | Some ls \<Rightarrow> ls)"

text \<open>
  The bodies that are printed as JSON. A locality is the list of the addresses and ports of its endpoints; the node and the
  command line options are texts nobody looks into, and the version and the hot-restart constant of the server info belong
  to the printing. The time is that of the \<open>last_updated\<close> fields.
\<close>

datatype ConfigDumpEntry =
    DumpBootstrap string
  | DumpClusters "ClusterConfig list" "ClusterConfig list" string
  | DumpEndpoints "(string \<times> (string \<times> nat) list list) list"
  | DumpListeners "AdminListener list" "AdminListener list" string
  | DumpRoutes "RouteConfiguration list" string

datatype admin_json =
    ConfigDumpBody "ConfigDumpEntry list"
  | ServerInfoBody string "(string \<times> string) list" "string option" nat
  | RuntimeBody "(string \<times> RuntimeEntry) list" "string list"

record ('addr, 'y) AdminHandler =
  ah_bootstrap :: "'y AdminBootstrap"
  ah_clusters :: "'addr cluster_manager"
  ah_options :: "(string \<times> string) list"
  ah_live_routes :: "(string \<times> RouteConfiguration) list"
  ah_net :: "'addr net"
  ah_ip_port :: "'addr \<Rightarrow> string \<times> nat"
  ah_to_vec_pretty :: "admin_json \<Rightarrow> bytes option"
  ah_uptime :: nat
  ah_now :: "nat \<times> nat"

section \<open>Responses\<close>

definition text_response :: "nat \<Rightarrow> string option \<Rightarrow> bytes \<Rightarrow> Response" where
  "text_response status reason body =
     \<lparr>resp_status = status, resp_reason = reason,
      resp_headers = [(''content-type'', ''text/plain''), (''content-length'', show_nat (length body))], resp_body = body\<rparr>"

definition json_pretty_200 :: "(admin_json \<Rightarrow> bytes option) \<Rightarrow> admin_json \<Rightarrow> Response option" where
  "json_pretty_200 to_vec_pretty body =
     map_option (\<lambda>bs. \<lparr>resp_status = 200, resp_reason = None, resp_headers = [(''content-type'', ''application/json'')],
       resp_body = bs\<rparr>) (to_vec_pretty body)"

definition text_200_no_len :: "string \<Rightarrow> Response" where
  "text_200_no_len body =
     \<lparr>resp_status = 200, resp_reason = None, resp_headers = [(''content-type'', ''text/plain'')], resp_body = as_bytes body\<rparr>"

definition empty_200_ok :: Response where
  "empty_200_ok = \<lparr>resp_status = 200, resp_reason = Some ''OK'', resp_headers = [(''content-length'', ''0'')], resp_body = []\<rparr>"

definition render_404 :: Response where
  "render_404 = text_response 404 (Some ''Not Found'') (as_bytes (''unknown admin endpoint'' @ nl))"

definition render_405 :: "string \<Rightarrow> Response" where
  "render_405 allow =
     (let resp = text_response 405 None (as_bytes (''Method not allowed. Allow: '' @ allow @ nl)) in
      resp\<lparr>resp_headers := resp_headers resp @ [(''allow'', allow)]\<rparr>)"

section \<open>The pages\<close>

definition stats_line :: "stats \<Rightarrow> string \<times> stat_handle \<Rightarrow> string" where
  "stats_line st nh = fst nh @ '': '' @ show_int (handle_value st (snd nh)) @ nl"

definition render_stats :: "stats \<Rightarrow> Response" where
  "render_stats st = text_response 200 (Some ''OK'') (as_bytes (concat (map (stats_line st) (snapshot st))))"

definition render_stats_prometheus :: "stats \<Rightarrow> Response" where
  "render_stats_prometheus st =
     (let body = as_bytes (write_exposition st) in
      \<lparr>resp_status = 200, resp_reason = Some ''OK'',
       resp_headers = [(''content-type'', ''text/plain; charset=UTF-8''), (''content-length'', show_nat (length body))],
       resp_body = body\<rparr>)"

definition render_ready_with :: "DrainState \<Rightarrow> Response option" where
  "render_ready_with ds =
     (case drain_current ds of
        None \<Rightarrow> None
      | Some Live \<Rightarrow> Some (text_response 200 (Some ''OK'') (as_bytes (''LIVE'' @ nl)))
      | Some HealthcheckFailing \<Rightarrow>
          Some (text_response 503 (Some ''Service Unavailable'') (as_bytes (''Service Unavailable'' @ nl)))
      | Some Draining \<Rightarrow> Some (text_response 503 (Some ''Service Unavailable'') (as_bytes (''DRAINING'' @ nl))))"

definition render_server_info :: "('addr, 'y) AdminHandler \<Rightarrow> DrainState \<Rightarrow> Response option" where
  "render_server_info h ds =
     (case drain_current ds of
        None \<Rightarrow> None
      | Some stage \<Rightarrow>
          json_pretty_200 (ah_to_vec_pretty h)
            (ServerInfoBody (case stage of Draining \<Rightarrow> ''DRAINING'' | _ \<Rightarrow> ''LIVE'') (ah_options h)
              (node_json (ah_bootstrap h)) (ah_uptime h)))"

definition render_clusters :: "'addr cluster_manager \<Rightarrow> Response" where
  "render_clusters m =
     text_200_no_len (concat (map (\<lambda>c. cl_name c @ ''::observability_name::'' @ cl_name c @ nl @
       cl_name c @ ''::default_priority::endpoints'' @ nl) (cm_clusters m)))"

text \<open>\<open>sort_by\<close> is stable and compares the names only.\<close>

definition render_listeners :: "'y AdminBootstrap \<Rightarrow> Response" where
  "render_listeners b =
     (let rows = map (\<lambda>l. (lc_name l, lc_address l @ '':'' @ show_nat (lc_port_value l))) (all_listeners b) in
      text_200_no_len (concat (map (\<lambda>(name, addr). name @ ''::'' @ addr @ nl) (sort_key fst rows))))"

definition render_runtime :: "('addr, 'y) AdminHandler \<Rightarrow> Response option" where
  "render_runtime h =
     (let snap = runtime_from_bootstrap (layered_runtime (ah_bootstrap h)) in
      json_pretty_200 (ah_to_vec_pretty h) (RuntimeBody (bt_entries (snap_entries snap)) (layer_names snap)))"

text \<open>
  \<open>/config_dump\<close>. The endpoints of an EDS cluster are those of the live cluster, or those of the configuration that parse
  where the manager does not know it; the routes of an RDS connection manager are those of its live table, or the
  configured ones.
\<close>

definition reconstruct :: "('addr \<Rightarrow> string \<times> nat) \<Rightarrow> 'addr list \<Rightarrow> (string \<times> nat) list list" where
  "reconstruct ip_port addrs = (if addrs = [] then [] else [map ip_port addrs])"

definition bootstrap_addrs :: "'addr net \<Rightarrow> LoadAssignment \<Rightarrow> 'addr list" where
  "bootstrap_addrs net la =
     List.map_filter (\<lambda>lbe. let sa = lbe_socket_address lbe in parse_socket_addr net (host_port (sa_address sa) (sa_port sa)))
       (concat (la_endpoints la))"

definition endpoint_snapshot :: "('addr, 'y) AdminHandler \<Rightarrow> ClusterConfig \<Rightarrow> (string \<times> (string \<times> nat) list list) option" where
  "endpoint_snapshot h c =
     map_option (\<lambda>la. (la_cluster_name la, reconstruct (ah_ip_port h)
         (case cm_get (ah_clusters h) (cc_name c) of
            Some cl \<Rightarrow> cl_endpoints cl
          | None \<Rightarrow> bootstrap_addrs (ah_net h) la)))
       (load_assignment c)"

definition endpoint_snapshots :: "('addr, 'y) AdminHandler \<Rightarrow> (string \<times> (string \<times> nat) list list) list" where
  "endpoint_snapshots h =
     List.map_filter (endpoint_snapshot h) (filter (\<lambda>c. cluster_type c = Eds) (all_clusters (Bootstrap.truncate (ah_bootstrap h))))"

definition route_snapshot :: "('addr, 'y) AdminHandler \<Rightarrow> ListenerFilter \<Rightarrow> RouteConfiguration option" where
  "route_snapshot h f =
     (case f of
        HcmFilter (Some name) route_config \<Rightarrow>
          (case find (\<lambda>(n, _). n = name) (ah_live_routes h) of
             Some (_, live) \<Rightarrow> Some live
           | None \<Rightarrow> route_config)
      | _ \<Rightarrow> None)"

definition route_snapshots :: "('addr, 'y) AdminHandler \<Rightarrow> RouteConfiguration list" where
  "route_snapshots h =
     List.map_filter (route_snapshot h) (concat (concat (map filter_chains (all_listeners (ah_bootstrap h)))))"

definition config_dump_entries :: "('addr, 'y) AdminHandler \<Rightarrow> string \<Rightarrow> ConfigDumpEntry list" where
  "config_dump_entries h last_updated =
     (let b = ah_bootstrap h in
      [DumpBootstrap last_updated]
      @ (if cds_config b
         then [DumpClusters (static_clusters b) (case dynamic_clusters b of None \<Rightarrow> [] | Some cs \<Rightarrow> cs) last_updated]
         else [])
      @ (if endpoint_snapshots h \<noteq> [] then [DumpEndpoints (endpoint_snapshots h)] else [])
      @ (if lds_config b
         then [DumpListeners (static_listeners b) (case dynamic_listeners b of None \<Rightarrow> [] | Some ls \<Rightarrow> ls) last_updated]
         else [])
      @ (if route_snapshots h \<noteq> [] then [DumpRoutes (route_snapshots h) last_updated] else []))"

definition render_config_dump :: "('addr, 'y) AdminHandler \<Rightarrow> Response option" where
  "render_config_dump h =
     (case format_iso8601 (fst (ah_now h)) (snd (ah_now h)) of
        None \<Rightarrow> None
      | Some last_updated \<Rightarrow> json_pretty_200 (ah_to_vec_pretty h) (ConfigDumpBody (config_dump_entries h last_updated)))"

text \<open>The three that write.\<close>

definition render_drain_listeners :: "DrainState \<times> stats \<Rightarrow> Response \<times> DrainState \<times> stats" where
  "render_drain_listeners x = (empty_200_ok, drain x)"

definition render_healthcheck_fail :: "DrainState \<times> stats \<Rightarrow> Response \<times> DrainState \<times> stats" where
  "render_healthcheck_fail x = (empty_200_ok, fail_healthcheck x)"

definition render_healthcheck_ok :: "DrainState \<times> stats \<Rightarrow> Response \<times> DrainState \<times> stats" where
  "render_healthcheck_ok x = (empty_200_ok, ok_healthcheck x)"

definition render_with :: "('addr, 'y) AdminHandler \<Rightarrow> AdminEndpoint \<Rightarrow> DrainState \<times> stats
    \<Rightarrow> (Response \<times> DrainState \<times> stats) option" where
  "render_with h e x =
     (case e of
        AdminReady \<Rightarrow> map_option (\<lambda>r. (r, x)) (render_ready_with (fst x))
      | AdminConfigDump \<Rightarrow> map_option (\<lambda>r. (r, x)) (render_config_dump h)
      | AdminServerInfo \<Rightarrow> map_option (\<lambda>r. (r, x)) (render_server_info h (fst x))
      | AdminClusters \<Rightarrow> Some (render_clusters (ah_clusters h), x)
      | AdminListeners \<Rightarrow> Some (render_listeners (ah_bootstrap h), x)
      | AdminRuntime \<Rightarrow> map_option (\<lambda>r. (r, x)) (render_runtime h)
      | AdminDrainListeners \<Rightarrow> Some (render_drain_listeners x)
      | AdminHealthcheckFail \<Rightarrow> Some (render_healthcheck_fail x)
      | AdminHealthcheckOk \<Rightarrow> Some (render_healthcheck_ok x)
      | AdminStats \<Rightarrow> Some (render_stats (snd x), x)
      | AdminStatsPrometheus \<Rightarrow> Some (render_stats_prometheus (snd x), x))"

section \<open>One connection (handler.rs)\<close>

definition reason_for_status :: "nat \<Rightarrow> string" where
  "reason_for_status code =
     (if code = 200 then ''OK'' else if code = 400 then ''Bad Request'' else if code = 404 then ''Not Found''
      else if code = 405 then ''Method Not Allowed'' else if code = 500 then ''Internal Server Error''
      else if code = 503 then ''Service Unavailable'' else ''OK'')"

definition MAX_REQUEST_HEAD :: nat where
  "MAX_REQUEST_HEAD = 8 * 1024"

definition find_crlf_crlf :: "bytes \<Rightarrow> nat option" where
  "find_crlf_crlf buf =
     List.find (\<lambda>i. take 4 (drop i buf) = [13, 10, 13, 10]) [0..<length buf + 1 - 4]"

datatype admin_read_error = HeadTooLong | AdminIo | IdleTimeout | ClosedEarly | IncompleteHead | BadHead hp_error

text \<open>The loop of \<open>read_request\<close>: at most 1024 bytes per read and 8 KiB in all.\<close>

function admin_head_loop :: "bytes \<Rightarrow> socket \<Rightarrow> (admin_read_error + bytes) \<times> socket" where
  "admin_head_loop buf s =
     (if MAX_REQUEST_HEAD \<le> length buf then (Inl HeadTooLong, s)
      else case sock_read (min (MAX_REQUEST_HEAD - length buf) 1024) s of
        (TimedOut, s') \<Rightarrow> (Inl IdleTimeout, s')
      | (ReadFailed, s') \<Rightarrow> (Inl AdminIo, s')
      | (Read bs, s') \<Rightarrow>
          if bs = [] then (Inl ClosedEarly, s')
          else if find_crlf_crlf (buf @ bs) \<noteq> None then (Inr (buf @ bs), s')
          else admin_head_loop (buf @ bs) s')"
  by pat_completeness auto
termination
proof (relation "measure (\<lambda>(buf, s). MAX_REQUEST_HEAD - length buf)")
  fix buf bs :: bytes and s s' :: socket
  assume "\<not> MAX_REQUEST_HEAD \<le> length buf" "bs \<noteq> []"
  then show "((buf @ bs, s'), (buf, s)) \<in> measure (\<lambda>(buf, s). MAX_REQUEST_HEAD - length buf)"
    by (cases bs) auto
qed simp

declare admin_head_loop.simps [simp del]

definition read_request :: "request_parser \<Rightarrow> socket \<Rightarrow> admin_read_error + string \<times> string" where
  "read_request rp s =
     (case fst (admin_head_loop [] s) of
        Inl e \<Rightarrow> Inl e
      | Inr buf \<Rightarrow>
          (case rp buf of
             Inr (Complete h) \<Rightarrow> Inr (unwrap_or (hq_method h) ''GET'', unwrap_or (hq_path h) ''/'')
           | Inr Partial \<Rightarrow> Inl IncompleteHead
           | Inl e \<Rightarrow> Inl (BadHead e)))"

definition admin_has_header :: "headers \<Rightarrow> string \<Rightarrow> bool" where
  "admin_has_header hs name = list_ex (\<lambda>(k, _). eq_ignore_ascii_case k name) hs"

definition admin_headers :: "string \<Rightarrow> headers \<Rightarrow> headers" where
  "admin_headers date hs =
     hs
     @ (if admin_has_header hs ''cache-control'' then [] else [(''cache-control'', ''no-cache, max-age=0'')])
     @ (if admin_has_header hs ''x-content-type-options'' then [] else [(''x-content-type-options'', ''nosniff'')])
     @ (if admin_has_header hs ''server'' then [] else [(''server'', ''envoy-rust'')])
     @ (if admin_has_header hs ''date'' then [] else [(''date'', date)])
     @ [(''connection'', ''close'')]"

definition admin_serialize :: "string \<Rightarrow> Response \<Rightarrow> bytes" where
  "admin_serialize date r =
     status_line (resp_status r) (case resp_reason r of None \<Rightarrow> reason_for_status (resp_status r) | Some x \<Rightarrow> x)
     @ concat (map (\<lambda>(n, v). header_line n v) (admin_headers date (resp_headers r))) @ crlf @ resp_body r"

definition bad_request_400 :: Response where
  "bad_request_400 = \<lparr>resp_status = 400, resp_reason = Some ''Bad Request'', resp_headers = [(''content-length'', ''0'')], resp_body = []\<rparr>"

definition admin_respond :: "('addr, 'y) AdminHandler \<Rightarrow> admin_read_error + string \<times> string \<Rightarrow> DrainState \<times> stats
    \<Rightarrow> (Response \<times> DrainState \<times> stats) option" where
  "admin_respond h req x =
     (case req of
        Inl _ \<Rightarrow> Some (bad_request_400, x)
      | Inr (meth, path) \<Rightarrow>
          (case admin_dispatch meth path of
             DispatchEndpoint ep \<Rightarrow> render_with h ep x
           | MethodNotAllowed allow \<Rightarrow> Some (render_405 allow, x)
           | DispatchNotFound \<Rightarrow> Some (render_404, x)))"

text \<open>The bytes a connection writes; whether they arrive is the peer's affair.\<close>

definition handle_inner :: "request_parser \<Rightarrow> ('addr, 'y) AdminHandler \<Rightarrow> socket \<Rightarrow> DrainState \<times> stats
    \<Rightarrow> (bytes \<times> DrainState \<times> stats) option" where
  "handle_inner rp h s x =
     map_option (\<lambda>(r, x'). (admin_serialize (format_imf_fixdate (fst (ah_now h))) r, x')) (admin_respond h (read_request rp s) x)"

section \<open>The accept loop\<close>

text \<open>
  \<open>serve\<close>: the tasks of the join set that run and those that have ended and are not joined yet. The budget of the drain may
  run out at any moment of it; the stragglers are aborted then.
\<close>

datatype serve_phase = Accepting | Joining | Aborting | ServeReturned

record admin_server =
  as_phase :: serve_phase
  as_running :: nat
  as_done :: nat

inductive admin_serve_step :: "admin_server \<Rightarrow> admin_server \<Rightarrow> bool" where
  accepted: "as_phase s = Accepting \<Longrightarrow> admin_serve_step s (s\<lparr>as_running := as_running s + 1\<rparr>)"
| accept_failed: "as_phase s = Accepting \<Longrightarrow> admin_serve_step s s"
| finished: "0 < as_running s \<Longrightarrow> admin_serve_step s (s\<lparr>as_running := as_running s - 1, as_done := as_done s + 1\<rparr>)"
| joined: "as_phase s \<noteq> ServeReturned \<Longrightarrow> 0 < as_done s \<Longrightarrow> admin_serve_step s (s\<lparr>as_done := as_done s - 1\<rparr>)"
| signalled: "as_phase s = Accepting \<Longrightarrow> admin_serve_step s (s\<lparr>as_phase := Joining\<rparr>)"
| budget_exceeded: "as_phase s = Joining \<Longrightarrow>
    admin_serve_step s (s\<lparr>as_phase := Aborting, as_running := 0, as_done := as_done s + as_running s\<rparr>)"
| returned: "as_phase s = Joining \<or> as_phase s = Aborting \<Longrightarrow> as_running s = 0 \<Longrightarrow> as_done s = 0 \<Longrightarrow>
    admin_serve_step s (s\<lparr>as_phase := ServeReturned\<rparr>)"

section \<open>Configuration (config.rs)\<close>

record 'addr AdminConfig =
  ac_address :: 'addr
  ac_access_log_path :: "string option"

definition from_envoy_config :: "'addr net \<Rightarrow> SocketAddress \<Rightarrow> string option \<Rightarrow> string + 'addr AdminConfig" where
  "from_envoy_config net sock log_path =
     (let raw = host_port (sa_address sock) (sa_port sock) in
      case parse_socket_addr net raw of
        None \<Rightarrow> Inl raw
      | Some a \<Rightarrow> Inr \<lparr>ac_address = a, ac_access_log_path = log_path\<rparr>)"

section \<open>Pages change nothing\<close>

lemma get_keeps_state:
  assumes "allowed_method e = ''GET''" "render_with h e x = Some (r, y)"
  shows "y = x"
  using assms by (cases e) (auto simp: allowed_method_def render_with_def)

definition post_of :: "AdminEndpoint \<Rightarrow> drain_call option" where
  "post_of e = (case e of AdminDrainListeners \<Rightarrow> Some CallDrain | AdminHealthcheckFail \<Rightarrow> Some CallFail
      | AdminHealthcheckOk \<Rightarrow> Some CallOk | _ \<Rightarrow> None)"

text \<open>The drain call a request makes, if it is one of the three accepted ones.\<close>

definition call_of :: "admin_read_error + string \<times> string \<Rightarrow> drain_call list" where
  "call_of req =
     (case req of
        Inl _ \<Rightarrow> []
      | Inr (meth, path) \<Rightarrow> (case admin_dispatch meth path of
          DispatchEndpoint ep \<Rightarrow> (case post_of ep of Some c \<Rightarrow> [c] | None \<Rightarrow> [])
        | _ \<Rightarrow> []))"

lemma respond_state:
  assumes "admin_respond h req x = Some (r, y)"
  shows "y = fold drain_apply (call_of req) x"
proof (cases req)
  case (Inl e)
  with assms show ?thesis by (simp add: admin_respond_def call_of_def)
next
  case (Inr mp)
  obtain m p where mp: "mp = (m, p)" by fastforce
  show ?thesis
  proof (cases "admin_dispatch m p")
    case (DispatchEndpoint ep)
    with assms Inr mp show ?thesis
      by (cases ep) (auto simp: admin_respond_def call_of_def post_of_def render_with_def drain_apply_def
          render_drain_listeners_def render_healthcheck_fail_def render_healthcheck_ok_def)
  qed (use assms Inr mp in \<open>auto simp: admin_respond_def call_of_def\<close>)
qed

section \<open>The history of the process\<close>

text \<open>The requests of all connections in the order they are rendered, each with what the handler sees then.\<close>

fun admin_run :: "(('addr, 'y) AdminHandler \<times> (admin_read_error + string \<times> string)) list \<Rightarrow> DrainState \<times> stats
    \<Rightarrow> (Response list \<times> DrainState \<times> stats) option" where
  "admin_run [] x = Some ([], x)"
| "admin_run ((h, req) # rqs) x =
     (case admin_respond h req x of
        None \<Rightarrow> None
      | Some (r, y) \<Rightarrow> map_option (\<lambda>(rs, z). (r # rs, z)) (admin_run rqs y))"

definition posts :: "(('addr, 'y) AdminHandler \<times> (admin_read_error + string \<times> string)) list \<Rightarrow> drain_call list" where
  "posts rqs = concat (map (call_of \<circ> snd) rqs)"

lemma stage_u8_current: "ds_stage ds = stage_u8 g \<Longrightarrow> drain_current ds = Some g"
  by (cases g) (simp_all add: drain_current_def stage_from_u8_def)

lemma iso8601_total: "format_iso8601 secs ms \<noteq> None"
  using walk_is_civil [of secs] by (auto simp: format_iso8601_def)

text \<open>
  Whether the page a request asks for can be printed. \<open>serde_json\<close> refuses a map whose key is not a scalar; such a key can
  stand in the opaque YAML a bootstrap keeps, which \<open>/config_dump\<close> prints.
\<close>

definition page_prints :: "('addr, 'y) AdminHandler \<Rightarrow> AdminEndpoint \<Rightarrow> bool" where
  "page_prints h e \<longleftrightarrow>
     (case e of
        AdminConfigDump \<Rightarrow> \<forall>es. ah_to_vec_pretty h (ConfigDumpBody es) \<noteq> None
      | AdminServerInfo \<Rightarrow> \<forall>s os n u. ah_to_vec_pretty h (ServerInfoBody s os n u) \<noteq> None
      | AdminRuntime \<Rightarrow> \<forall>es ls. ah_to_vec_pretty h (RuntimeBody es ls) \<noteq> None
      | _ \<Rightarrow> True)"

definition request_prints :: "('addr, 'y) AdminHandler \<times> (admin_read_error + string \<times> string) \<Rightarrow> bool" where
  "request_prints q \<longleftrightarrow>
     (case snd q of
        Inl _ \<Rightarrow> True
      | Inr (meth, path) \<Rightarrow> (case admin_dispatch meth path of DispatchEndpoint e \<Rightarrow> page_prints (fst q) e | _ \<Rightarrow> True))"

lemma respond_total:
  assumes "request_prints (h, req)" "drain_shows g x"
  shows "\<exists>r y. admin_respond h req x = Some (r, y)"
proof -
  have c: "drain_current (fst x) = Some g" using assms(2) by (simp add: drain_shows_def stage_u8_current)
  have w: "render_with h e x \<noteq> None" if "page_prints h e" for e
    using that c iso8601_total [of "fst (ah_now h)" "snd (ah_now h)"]
    by (cases e; cases g) (auto simp: render_with_def render_ready_with_def render_server_info_def render_runtime_def
        render_config_dump_def json_pretty_200_def page_prints_def Let_def simp del: not_None_eq split: option.split)
  have "admin_respond h req x \<noteq> None"
    using assms(1) unfolding admin_respond_def request_prints_def
    by (cases req; cases "admin_dispatch (fst (projr req)) (snd (projr req))") (auto simp: split_beta simp del: not_None_eq dest: w)
  then show ?thesis by (cases "admin_respond h req x") auto
qed

lemma drain_calls_show: "drain_shows (stage_after cs) x \<Longrightarrow> drain_shows (stage_after (cs @ ds)) (fold drain_apply ds x)"
proof (induction ds arbitrary: cs x)
  case (Cons d ds)
  then show ?case using drain_apply_shows [of cs x d] Cons.IH [of "cs @ [d]" "drain_apply d x"] by simp
qed simp

lemma ready_status:
  assumes "admin_respond h (Inr (''GET'', ''/ready'')) x = Some (r, y)" "drain_shows g x"
  shows "resp_status r = (if g = Live then 200 else 503)"
proof -
  have c: "drain_current (fst x) = Some g" using assms(2) by (simp add: drain_shows_def stage_u8_current)
  have "admin_dispatch ''GET'' ''/ready'' = DispatchEndpoint AdminReady" by code_simp
  with assms(1) c show ?thesis
    by (cases g) (auto simp: admin_respond_def render_with_def render_ready_with_def text_response_def)
qed

lemma admin_run_history:
  assumes "\<forall>q \<in> set rqs. request_prints q" "drain_shows (stage_after cs) x"
  shows "\<exists>rs y. admin_run rqs x = Some (rs, y) \<and> length rs = length rqs \<and> drain_shows (stage_after (cs @ posts rqs)) y
    \<and> (\<forall>i < length rqs. snd (rqs ! i) = Inr (''GET'', ''/ready'') \<longrightarrow>
         resp_status (rs ! i) = (if stage_after (cs @ posts (take i rqs)) = Live then 200 else 503))"
  using assms
proof (induction rqs arbitrary: cs x)
  case Nil
  then show ?case by (simp add: posts_def)
next
  case (Cons q rqs)
  obtain h req where q: "q = (h, req)" by fastforce
  obtain r y where r: "admin_respond h req x = Some (r, y)"
    using respond_total [of h req "stage_after cs" x] Cons.prems q by auto
  have "drain_shows (stage_after (cs @ call_of req)) y"
    using drain_calls_show [OF Cons.prems(2), of "call_of req"] respond_state [OF r] by simp
  then obtain rs z where z: "admin_run rqs y = Some (rs, z)" "length rs = length rqs"
      "drain_shows (stage_after ((cs @ call_of req) @ posts rqs)) z"
      "\<forall>i < length rqs. snd (rqs ! i) = Inr (''GET'', ''/ready'') \<longrightarrow>
         resp_status (rs ! i) = (if stage_after ((cs @ call_of req) @ posts (take i rqs)) = Live then 200 else 503)"
    using Cons.IH [of "cs @ call_of req" y] Cons.prems(1) by auto
  have p: "posts (q # qs) = call_of req @ posts qs" for qs by (simp add: posts_def q)
  have "resp_status ((r # rs) ! i) = (if stage_after (cs @ posts (take i (q # rqs))) = Live then 200 else 503)"
    if "i < length (q # rqs)" "snd ((q # rqs) ! i) = Inr (''GET'', ''/ready'')" for i
  proof (cases i)
    case 0
    with that q ready_status [of h x r y "stage_after cs"] r Cons.prems(2) show ?thesis by (simp add: posts_def)
  next
    case (Suc k)
    with that z(4) show ?thesis by (simp add: p)
  qed
  moreover have "admin_run (q # rqs) x = Some (r # rs, z)" using r z(1) by (simp add: q)
  ultimately show ?case using z(2,3) by (auto simp: p)
qed

text \<open>
  C17. Over any sequence of administration requests from the start of the process, malformed ones and unknown paths included,
  in which \<open>serde_json\<close> can print the JSON pages that are asked for, every request is answered, the stage and its gauges
  are what the accepted POSTs to the three drain endpoints make of it and nothing else changes them, and \<open>/ready\<close> answers
  200 exactly while the process is live.
\<close>

theorem admin_history:
  assumes "stats_wf st" "drain_new st = Some x" "\<forall>q \<in> set rqs. request_prints q"
  shows "\<exists>rs y. admin_run rqs x = Some (rs, y) \<and> length rs = length rqs
    \<and> drain_current (fst y) = Some (stage_after (posts rqs))
    \<and> stat_value (snd y) ''server.live'' = Some (if stage_after (posts rqs) = Live then 1 else 0)
    \<and> (\<forall>i < length rqs. snd (rqs ! i) = Inr (''GET'', ''/ready'') \<longrightarrow>
         resp_status (rs ! i) = (if stage_after (posts (take i rqs)) = Live then 200 else 503))"
proof -
  have "drain_shows (stage_after []) x" using drain_new_shows [OF assms(1,2)] .
  from admin_run_history [OF assms(3) this] obtain rs y where r: "admin_run rqs x = Some (rs, y)" "length rs = length rqs"
      "drain_shows (stage_after (posts rqs)) y" "\<forall>i < length rqs. snd (rqs ! i) = Inr (''GET'', ''/ready'') \<longrightarrow>
         resp_status (rs ! i) = (if stage_after (posts (take i rqs)) = Live then 200 else 503)"
    by auto
  moreover have "drain_current (fst y) = Some (stage_after (posts rqs))"
    "stat_value (snd y) ''server.live'' = Some (if stage_after (posts rqs) = Live then 1 else 0)"
    using r(3) by (simp_all add: drain_shows_def stage_u8_current)
  ultimately show ?thesis by blast
qed

text \<open>A configuration that \<open>serde_json\<close> does not print ends the request for it in a panic.\<close>

lemma unprintable_dump_panics:
  assumes "\<And>es. ah_to_vec_pretty h (ConfigDumpBody es) = None"
  shows "admin_respond h (Inr (''GET'', ''/config_dump'')) x = None"
proof -
  have "admin_dispatch ''GET'' ''/config_dump'' = DispatchEndpoint AdminConfigDump" by code_simp
  then show ?thesis
    using assms by (cases x) (simp add: admin_respond_def render_with_def render_config_dump_def json_pretty_200_def split: option.split)
qed

definition demo_handler :: "(nat, unit) AdminHandler" where
  "demo_handler = \<lparr>ah_bootstrap = \<lparr>static_clusters = [], dynamic_clusters = None, cds_config = False, lds_config = False,
       static_listeners = [], dynamic_listeners = None, layered_runtime = None, node_json = None\<rparr>,
     ah_clusters = bt_empty, ah_options = [], ah_live_routes = [],
     ah_net = \<lparr>parse_socket_addr = (\<lambda>_. None), lookup_host = (\<lambda>_. None), addr_to_string = (\<lambda>_. [])\<rparr>,
     ah_ip_port = (\<lambda>n. ([], n)), ah_to_vec_pretty = (\<lambda>_. Some []), ah_uptime = 0, ah_now = (0, 0)\<rparr>"

theorem admin_history_witness:
  "\<exists>x rs y. drain_new registry_new = Some x
    \<and> admin_run [(demo_handler, Inr (''POST'', ''/healthcheck/fail'')), (demo_handler, Inr (''GET'', ''/ready'')),
        (demo_handler, Inr (''POST'', ''/drain_listeners?now''))] x = Some (rs, y)
    \<and> resp_status (rs ! 1) = 503 \<and> drain_current (fst y) = Some Draining"
proof -
  define rqs :: "((nat, unit) AdminHandler \<times> (admin_read_error + string \<times> string)) list" where "rqs = [(demo_handler, Inr (''POST'', ''/healthcheck/fail'')), (demo_handler, Inr (''GET'', ''/ready'')),
        (demo_handler, Inr (''POST'', ''/drain_listeners?now''))]"
  obtain x where x: "drain_new registry_new = Some x" using demo_drain by auto
  have "page_prints demo_handler e" for e by (cases e) (simp_all add: page_prints_def demo_handler_def)
  then have h: "\<forall>q \<in> set rqs. request_prints q" by (simp add: rqs_def request_prints_def split: Dispatch.split)
  have "admin_dispatch ''POST'' ''/healthcheck/fail'' = DispatchEndpoint AdminHealthcheckFail" by code_simp
  moreover have "admin_dispatch ''GET'' ''/ready'' = DispatchEndpoint AdminReady" by code_simp
  moreover have "admin_dispatch ''POST'' ''/drain_listeners?now'' = DispatchEndpoint AdminDrainListeners" by code_simp
  ultimately have p: "posts rqs = [CallFail, CallDrain]" "posts (take 1 rqs) = [CallFail]"
    by (simp_all add: rqs_def posts_def call_of_def post_of_def)
  from admin_history [OF stats_wf_new x h] obtain rs y where
    r: "admin_run rqs x = Some (rs, y)" "drain_current (fst y) = Some (stage_after (posts rqs))"
      "\<forall>i < length rqs. snd (rqs ! i) = Inr (''GET'', ''/ready'') \<longrightarrow>
         resp_status (rs ! i) = (if stage_after (posts (take i rqs)) = Live then 200 else 503)" by blast
  have "resp_status (rs ! 1) = 503" using r(3) [rule_format, of 1] p(2) by (simp add: rqs_def stage_after_def)
  moreover have "drain_current (fst y) = Some Draining" using r(2) p(1) by (simp add: stage_after_def)
  ultimately show ?thesis using x r(1) unfolding rqs_def by blast
qed

section \<open>The statistics page\<close>

text \<open>A reader of the page: the lines, each cut at its first space, with the colon dropped.\<close>

definition read_stats_page :: "string \<Rightarrow> (string \<times> string) list" where
  "read_stats_page page =
     map (\<lambda>l. case split_once (CHR '' '') l of Some (n, v) \<Rightarrow> (butlast n, v) | None \<Rightarrow> (l, []))
       (butlast (split_on (CHR 0x0A) page))"

lemma show_nat_chars: "c \<in> set (show_nat n) \<Longrightarrow> is_ascii_digit c"
  by (rule show_nat_digits)

lemma plain_line:
  assumes "is_valid_name n"
  shows "CHR '' '' \<notin> set n" "CHR 0x0A \<notin> set n"
proof -
  have "valid_rest c" if "c \<in> set n" for c
    using assms that valid_first_rest by (cases n) (auto simp: list_all_iff)
  moreover have "\<not> valid_rest (CHR '' '')" "\<not> valid_rest (CHR 0x0A)"
    by (simp_all add: valid_rest_def is_ascii_alphanumeric_def is_ascii_alphabetic_def is_ascii_lowercase_def
        is_ascii_uppercase_def is_ascii_digit_def byte_of_def)
  ultimately show "CHR '' '' \<notin> set n" "CHR 0x0A \<notin> set n" by blast+
qed

lemma shown_int_plain: "CHR 0x0A \<notin> set (show_int i)"
  by (auto simp: show_int_def dest!: show_nat_chars) (simp_all add: is_ascii_digit_def byte_of_def)

lemma split_lines:
  assumes "\<forall>l \<in> set ls. CHR 0x0A \<notin> set l"
  shows "split_on (CHR 0x0A) (concat (map (\<lambda>l. l @ nl) ls)) = ls @ [[]]"
  using assms
proof (induction ls)
  case (Cons l ls)
  then show ?case
    using split_on_append [of "CHR 0x0A" l "concat (map (\<lambda>l. l @ nl) ls)"] by (simp add: nl_def split_on_none)
qed simp

text \<open>
  The statistics page lists every registered statistic once, in the order of the names, with its value, and can be read
  back: no name or value is cut or merged with another.
\<close>

theorem stats_page_reads_back:
  assumes "stats_wf st"
  shows "read_stats_page (concat (map (stats_line st) (snapshot st)))
      = map (\<lambda>(n, h). (n, show_int (handle_value st h))) (snapshot st)
    \<and> sorted_wrt (<) (map fst (snapshot st))
    \<and> (\<forall>n v. stat_value st n = Some v \<longleftrightarrow> (\<exists>h. (n, h) \<in> set (snapshot st) \<and> handle_value st h = v))"
proof -
  have wf: "bt_wf (reg_map st)" using assms by (simp add: stats_wf_def)
  have iff: "(n, h) \<in> set (snapshot st) \<longleftrightarrow> bt_get (reg_map st) n = Some h" for n h
    using wf by (simp add: snapshot_def bt.entries_iff)
  define row where "row nh = fst nh @ '': '' @ show_int (handle_value st (snd nh))" for nh
  have valid: "is_valid_name (fst nh)" if "nh \<in> set (snapshot st)" for nh
    using assms iff [of "fst nh" "snd nh"] that by (simp add: stats_wf_def)
  have "stats_line st = (\<lambda>nh. row nh @ nl)" by (rule ext) (simp add: stats_line_def row_def)
  then have "concat (map (stats_line st) (snapshot st)) = concat (map (\<lambda>l. l @ nl) (map row (snapshot st)))"
    by (simp add: comp_def)
  moreover have "\<forall>l \<in> set (map row (snapshot st)). CHR 0x0A \<notin> set l"
    using plain_line(2) [OF valid] shown_int_plain by (auto simp: row_def)
  ultimately have "butlast (split_on (CHR 0x0A) (concat (map (stats_line st) (snapshot st)))) = map row (snapshot st)"
    by (simp only: split_lines butlast_snoc)
  moreover have "split_once (CHR '' '') (row nh) = Some (fst nh @ '':'', show_int (handle_value st (snd nh)))"
    if "nh \<in> set (snapshot st)" for nh
    using split_once_append [of "CHR '' ''" "fst nh @ '':''" "show_int (handle_value st (snd nh))"] plain_line(1) [OF valid [OF that]]
    by (simp add: row_def)
  ultimately have "read_stats_page (concat (map (stats_line st) (snapshot st)))
      = map (\<lambda>(n, h). (n, show_int (handle_value st h))) (snapshot st)"
    by (simp add: read_stats_page_def split_def)
  moreover have "sorted_wrt (<) (map fst (snapshot st))" using wf by (simp add: snapshot_def bt.entries_sorted)
  ultimately show ?thesis using iff by (auto simp: stat_value_def)
qed

theorem stats_page_reads_back_witness:
  "read_stats_page (concat (map (stats_line (counter_inc 0 (snd (register_counter ''a.b'' registry_new))))
      (snapshot (counter_inc 0 (snd (register_counter ''a.b'' registry_new)))))) = [(''a.b'', ''1'')]"
proof -
  let ?st = "counter_inc 0 (snd (register_counter ''a.b'' registry_new))"
  have wf: "stats_wf ?st" using cell_ops_wf(1) [OF register_counter_wf [OF stats_wf_new, of "''a.b''"], of 0] .
  have "map (\<lambda>(n, h). (n, show_int (handle_value ?st h))) (snapshot ?st) = [(''a.b'', ''1'')]" by code_simp
  with stats_page_reads_back [OF wf] show ?thesis by simp
qed

section \<open>The end of the accept loop\<close>

lemma serve_returns_clean:
  assumes "admin_serve_step\<^sup>*\<^sup>* s s'" "as_phase s = ServeReturned \<longrightarrow> as_running s = 0 \<and> as_done s = 0"
  shows "as_phase s' = ServeReturned \<longrightarrow> as_running s' = 0 \<and> as_done s' = 0"
  using assms by (induction rule: rtranclp_induct) (auto elim!: admin_serve_step.cases)

text \<open>After the signal no task stays behind for good: however long the tasks run, the loop can return.\<close>

lemma join_all:
  "as_phase s \<noteq> ServeReturned \<Longrightarrow> admin_serve_step\<^sup>*\<^sup>* s (s\<lparr>as_done := 0\<rparr>)"
proof (induction "as_done s" arbitrary: s)
  case 0
  then have "s\<lparr>as_done := 0\<rparr> = s" by simp
  then show ?case by simp
next
  case (Suc n)
  have "admin_serve_step s (s\<lparr>as_done := as_done s - 1\<rparr>)" using Suc by (intro admin_serve_step.joined) simp_all
  moreover have "admin_serve_step\<^sup>*\<^sup>* (s\<lparr>as_done := as_done s - 1\<rparr>) (s\<lparr>as_done := 0\<rparr>)"
    using Suc.hyps(1) [of "s\<lparr>as_done := as_done s - 1\<rparr>"] Suc.hyps(2) Suc.prems by simp
  ultimately show ?case by (rule converse_rtranclp_into_rtranclp)
qed

lemma serve_can_return:
  assumes "as_phase s = Joining"
  shows "\<exists>s'. admin_serve_step\<^sup>*\<^sup>* s s' \<and> as_phase s' = ServeReturned"
proof -
  let ?a = "s\<lparr>as_phase := Aborting, as_running := 0, as_done := as_done s + as_running s\<rparr>"
  have "admin_serve_step s ?a" using assms by (rule admin_serve_step.budget_exceeded)
  also have "admin_serve_step\<^sup>*\<^sup>* ?a (?a\<lparr>as_done := 0\<rparr>)" by (rule join_all) simp
  also have "admin_serve_step (?a\<lparr>as_done := 0\<rparr>) (?a\<lparr>as_done := 0, as_phase := ServeReturned\<rparr>)"
    using admin_serve_step.returned [of "?a\<lparr>as_done := 0\<rparr>"] by simp
  finally show ?thesis by auto
qed

section \<open>The wire\<close>

text \<open>What the head loop hands to the parser arrived on the socket, ends the head and fits the limit.\<close>

lemma sock_read_bytes: "sock_read cap s = (Read bs, s') \<Longrightarrow> bs \<noteq> [] \<Longrightarrow> length bs \<le> cap \<and> incoming s = bs @ incoming s'"
  by (induction cap s rule: sock_read.induct) (auto split: if_splits)

lemma head_loop_bounded:
  assumes "admin_head_loop buf s = (Inr head, s')" "length buf \<le> MAX_REQUEST_HEAD"
  shows "length head \<le> MAX_REQUEST_HEAD \<and> find_crlf_crlf head \<noteq> None \<and> head @ incoming s' = buf @ incoming s"
  using assms
proof (induction buf s rule: admin_head_loop.induct)
  case (1 buf s)
  then obtain bs s1 where r: "\<not> MAX_REQUEST_HEAD \<le> length buf"
      "sock_read (min (MAX_REQUEST_HEAD - length buf) 1024) s = (Read bs, s1)" "bs \<noteq> []"
    by (auto simp: admin_head_loop.simps [of buf s] split: if_splits prod.splits read_result.splits)
  from sock_read_bytes [OF r(2,3)] have b: "length (buf @ bs) \<le> MAX_REQUEST_HEAD" "incoming s = bs @ incoming s1" using r(1) by auto
  show ?case
  proof (cases "find_crlf_crlf (buf @ bs) = None")
    case True
    then have "admin_head_loop (buf @ bs) s1 = (Inr head, s')"
      using "1.prems"(1) r by (simp add: admin_head_loop.simps [of buf s])
    with "1.IH" [OF r(1) r(2) [symmetric] refl r(3)] True b show ?thesis by simp
  next
    case False
    then have "head = buf @ bs" "s' = s1" using "1.prems"(1) r by (simp_all add: admin_head_loop.simps [of buf s])
    with False b show ?thesis by simp
  qed
qed

text \<open>Every response carries each of the standard headers exactly once.\<close>

definition rows_of :: "string \<Rightarrow> headers \<Rightarrow> nat" where
  "rows_of name hs = length (filter (\<lambda>(k, _). eq_ignore_ascii_case k name) hs)"

definition rendered_names :: "string list" where
  "rendered_names = [''content-type'', ''content-length'', ''allow'']"

lemma respond_names:
  assumes "admin_respond h req x = Some (r, y)"
  shows "fst ` set (resp_headers r) \<subseteq> set rendered_names"
proof -
  have w: "fst ` set (resp_headers q) \<subseteq> set rendered_names" if "render_with h e x = Some (q, z)" for e q z
    using that
    by (cases e) (auto simp: render_with_def render_ready_with_def render_config_dump_def render_server_info_def render_runtime_def
        render_clusters_def render_listeners_def render_drain_listeners_def render_healthcheck_fail_def render_healthcheck_ok_def
        render_stats_def render_stats_prometheus_def text_response_def text_200_no_len_def empty_200_ok_def json_pretty_200_def
        rendered_names_def Let_def split: option.splits DrainStage.splits)
  show ?thesis
  proof (cases "\<exists>e. render_with h e x = Some (r, y)")
    case False
    with assms show ?thesis
      by (auto simp: admin_respond_def render_404_def render_405_def bad_request_400_def text_response_def Let_def rendered_names_def
          split: sum.splits Dispatch.splits)
  qed (use w in blast)
qed

lemma standard_headers_once:
  assumes "admin_respond h req x = Some (r, y)"
    and "name \<in> set [''cache-control'', ''x-content-type-options'', ''server'', ''date'', ''connection'']"
  shows "rows_of name (admin_headers date (resp_headers r)) = 1"
proof -
  have e: "list_all (\<lambda>k. list_all (\<lambda>n. \<not> eq_ignore_ascii_case k n)
      [''cache-control'', ''x-content-type-options'', ''server'', ''date'', ''connection'']) rendered_names" by code_simp
  have none: "\<not> admin_has_header (resp_headers r) n" "rows_of n (resp_headers r) = 0"
    if "n \<in> set [''cache-control'', ''x-content-type-options'', ''server'', ''date'', ''connection'']" for n
    using respond_names [OF assms(1)] e that
    by (fastforce simp: admin_has_header_def rows_of_def list_all_iff list_ex_iff filter_empty_conv)+
  have hd: "admin_headers date (resp_headers r) = resp_headers r @ [(''cache-control'', ''no-cache, max-age=0''),
      (''x-content-type-options'', ''nosniff''), (''server'', ''envoy-rust''), (''date'', date), (''connection'', ''close'')]"
    using none(1) by (simp add: admin_headers_def)
  have "rows_of name [(''cache-control'', ''no-cache, max-age=0''), (''x-content-type-options'', ''nosniff''),
      (''server'', ''envoy-rust''), (''date'', date), (''connection'', ''close'')] = 1"
    using assms(2) by (auto simp: rows_of_def eq_ignore_ascii_case_def str_to_ascii_lowercase_def to_ascii_lowercase_def
        is_ascii_uppercase_def byte_of_def)
  moreover have "rows_of name (as @ bs) = rows_of name as + rows_of name bs" for as bs by (simp add: rows_of_def)
  ultimately show ?thesis unfolding hd using none(2) [OF assms(2)] by simp
qed

section \<open>What \<open>/config_dump\<close> shows of a live cluster\<close>

text \<open>An EDS cluster is shown with the endpoints that \<open>pick\<close> chooses from now, not with those of the configuration.\<close>

lemma dump_shows_live_endpoints:
  assumes "c \<in> set (all_clusters (Bootstrap.truncate (ah_bootstrap h)))" "cluster_type c = Eds" "load_assignment c = Some la"
    and "cm_get (ah_clusters h) (cc_name c) = Some cl"
  shows "\<exists>es. DumpEndpoints es \<in> set (config_dump_entries h t)
    \<and> (la_cluster_name la, if cl_endpoints cl = [] then [] else [map (ah_ip_port h) (cl_endpoints cl)]) \<in> set es"
proof -
  let ?row = "(la_cluster_name la, if cl_endpoints cl = [] then [] else [map (ah_ip_port h) (cl_endpoints cl)])"
  have "endpoint_snapshot h c = Some ?row" using assms(3,4) by (simp add: endpoint_snapshot_def reconstruct_def)
  with assms(1,2) have "?row \<in> set (endpoint_snapshots h)"
    by (force simp: endpoint_snapshots_def List.map_filter_def)
  moreover from this have "DumpEndpoints (endpoint_snapshots h) \<in> set (config_dump_entries h t)"
    by (auto simp: config_dump_entries_def Let_def)
  ultimately show ?thesis by blast
qed

end
