(* ===== verification/Xds_Load.thy ===== *)
theory Xds_Load
  imports Eds_Reload Routing
begin

text \<open>
  The configuration that lives in files beside the bootstrap: the merge of the cluster, listener, route and endpoint files at
  startup (\<open>load_dynamic_resources\<close> of \<open>envoy-config/src/lib.rs\<close>, with \<open>cds.rs\<close>, \<open>lds.rs\<close>, \<open>rds.rs\<close> and \<open>eds.rs\<close>), and
  the hot reload of a route file (\<open>rds.rs\<close> and \<open>envoy-http1/src/rds_watcher.rs\<close>). Reading a file is a function from paths;
  decoding YAML is a parameter per envelope. The validation of the merged whole that follows the merge at startup is that
  of \<open>Cluster_Config\<close> and \<open>Route_Config\<close>.
\<close>

section \<open>Listeners and files\<close>

record Rds =
  rds_path :: string
  route_config_name :: string

record HcmSource =
  hs_stat_prefix :: string
  hs_route_config :: "RouteConfiguration option"
  hs_rds :: "Rds option"

datatype NetworkFilter = HcmNetwork HcmSource | OtherNetwork

record XdsListener =
  xl_name :: string
  xl_filter_chains :: "NetworkFilter list list"


datatype xds_error =
    CdsFileError string | CdsParseError string
  | LdsFileError string | LdsParseError string
  | RdsFileError string | RdsParseError string | RdsRouteConfigNotFound string string
  | EdsFileError string | EdsParseError string | EdsClusterLoadAssignmentNotFound string string
  | MissingRouteSource string | AmbiguousRouteSource string
  | XdsConfig ConfigError

record xds_files =
  read_file :: "string \<Rightarrow> string option"
  yaml_cds :: "string \<Rightarrow> ClusterConfig list option"
  yaml_lds :: "string \<Rightarrow> XdsListener list option"
  yaml_rds :: "string \<Rightarrow> RouteConfiguration list option"
  yaml_eds :: "string \<Rightarrow> LoadAssignment list option"
  b64_engine :: "string \<Rightarrow> bytes option"



definition parse_rds_file :: "xds_files \<Rightarrow> string \<Rightarrow> string \<Rightarrow> xds_error + RouteConfiguration list" where
  "parse_rds_file fs path contents =
     (case yaml_rds fs contents of None \<Rightarrow> Inl (RdsParseError path) | Some rcs \<Rightarrow> Inr rcs)"

section \<open>The merge\<close>

text \<open>Static entries win over those of a file, and the first of a name in the file wins over the rest.\<close>

definition merge_new :: "('a \<Rightarrow> string) \<Rightarrow> 'a list \<Rightarrow> 'a list \<Rightarrow> 'a list" where
  "merge_new name static parsed =
     foldl (\<lambda>dynamic x. if list_ex (\<lambda>c. name c = name x) static \<or> list_ex (\<lambda>c. name c = name x) dynamic
        then dynamic else dynamic @ [x]) [] parsed"







section \<open>Filling in routes and endpoints\<close>

definition select_named :: "('a \<Rightarrow> string) \<Rightarrow> string \<Rightarrow> 'a list \<Rightarrow> 'a option" where
  "select_named name wanted xs = find (\<lambda>x. name x = wanted) xs"








section \<open>Hot reload of a route file\<close>

definition reload_route_check :: "(string \<Rightarrow> bool) \<Rightarrow> RuntimeSnapshot \<Rightarrow> string \<Rightarrow> Route \<Rightarrow> ConfigError + unit" where
  "reload_route_check known_cluster runtime path r =
     checks
       [validate_route_runtime_fraction (route_match r) runtime (''rds:'' @ path) (route_name r),
        (case route_action r of
           ActRoute ar \<Rightarrow> reject_if (\<not> known_cluster (ar_cluster ar)) (UnknownCluster (ar_cluster ar))
         | ActRedirect rd \<Rightarrow> validate_redirect_oneofs rd (''rds:'' @ path) (route_name r)
         | ActDirectResponse _ \<Rightarrow> Inr ())]"

definition reparse_and_select_route_config :: "xds_files \<Rightarrow> string \<Rightarrow> string \<Rightarrow> (string \<Rightarrow> bool) \<Rightarrow> RuntimeSnapshot
    \<Rightarrow> xds_error + RouteConfiguration" where
  "reparse_and_select_route_config fs path name known_cluster runtime =
     (case read_file fs path of
        None \<Rightarrow> Inl (RdsFileError path)
      | Some contents \<Rightarrow> (case parse_rds_file fs path contents of
          Inl e \<Rightarrow> Inl e
        | Inr parsed \<Rightarrow> (case select_named rc_name name parsed of
            None \<Rightarrow> Inl (RdsRouteConfigNotFound name path)
          | Some selected \<Rightarrow>
              (case checks (map (reload_route_check known_cluster runtime path)
                  (concat (map vh_routes (virtual_hosts selected)))) of
                 Inl e \<Rightarrow> Inl (XdsConfig e)
               | Inr _ \<Rightarrow> Inr selected))))"

record RdsCounters =
  rc_update_attempt :: nat
  rc_update_success :: nat
  rc_update_failure :: nat
  rc_update_rejected :: nat
  rc_config_reload :: nat

record 'addr RdsTarget =
  rt_path :: string
  rt_name :: string
  rt_clusters :: "'addr cluster_manager"
  rt_runtime :: RuntimeSnapshot
  rt_counters :: RdsCounters

text \<open>The counter that a failure ticks; \<open>None\<close> is the \<open>unreachable!\<close> arm.\<close>

definition failure_counter :: "RdsCounters \<Rightarrow> xds_error \<Rightarrow> nat option" where
  "failure_counter cs err =
     (case err of
        RdsFileError _ \<Rightarrow> Some (rc_update_failure cs)
      | RdsParseError _ \<Rightarrow> Some (rc_update_failure cs)
      | RdsRouteConfigNotFound _ _ \<Rightarrow> Some (rc_update_rejected cs)
      | XdsConfig (UnknownCluster _) \<Rightarrow> Some (rc_update_rejected cs)
      | XdsConfig (RedirectPathRewriteConflict _ _) \<Rightarrow> Some (rc_update_rejected cs)
      | XdsConfig (RedirectSchemeRewriteConflict _ _) \<Rightarrow> Some (rc_update_rejected cs)
      | XdsConfig (UnsupportedNonDeterministicRuntimeFraction _ _ _ _) \<Rightarrow> Some (rc_update_rejected cs)
      | XdsConfig (UnsupportedMapShapedRuntimeKey _ _ _) \<Rightarrow> Some (rc_update_rejected cs)
      | XdsConfig (UnsupportedNonDeterministicRuntimeFractionDefault _ _ _ _) \<Rightarrow> Some (rc_update_rejected cs)
      | _ \<Rightarrow> None)"

text \<open>One reload of the live table and the registry; \<open>None\<close> is a panic, and the build aborts the process on one.\<close>

definition rds_reload :: "'addr RdsTarget \<Rightarrow> xds_files \<Rightarrow> RouteConfiguration \<times> stats
    \<Rightarrow> ((xds_error + unit) \<times> RouteConfiguration \<times> stats) option" where
  "rds_reload t fs x =
     (let cs = rt_counters t; st = counter_add (rc_update_attempt cs) 1 (snd x) in
      case reparse_and_select_route_config fs (rt_path t) (rt_name t) (\<lambda>n. cm_get (rt_clusters t) n \<noteq> None) (rt_runtime t) of
        Inr new_rc \<Rightarrow>
          Some (Inr (), new_rc, counter_add (rc_config_reload cs) 1 (counter_add (rc_update_success cs) 1 st))
      | Inl err \<Rightarrow>
          (case failure_counter cs err of
             None \<Rightarrow> None
           | Some k \<Rightarrow> Some (Inl err, fst x, counter_add k 1 st)))"

section \<open>What the merge gives\<close>

lemma merge_new_append:
  "merge_new name static (xs @ [x]) =
     (let d = merge_new name static xs in
      if list_ex (\<lambda>c. name c = name x) static \<or> list_ex (\<lambda>c. name c = name x) d then d else d @ [x])"
  by (simp add: merge_new_def Let_def)

lemma merge_new_select:
  "select_named name n (merge_new name static parsed) = (if n \<in> name ` set static then None else select_named name n parsed)"
proof (induction parsed rule: rev_induct)
  case Nil
  then show ?case by (simp add: merge_new_def select_named_def)
next
  case (snoc x xs)
  have f: "find P (as @ [a]) = (case find P as of Some y \<Rightarrow> Some y | None \<Rightarrow> if P a then Some a else None)" for P as and a :: 'a
    by (induction as) auto
  have none: "select_named name k ys = None \<longleftrightarrow> \<not> list_ex (\<lambda>c. name c = k) ys" for k ys
    by (auto simp: select_named_def find_None_iff list_ex_iff)
  have st: "list_ex (\<lambda>c. name c = k) static \<longleftrightarrow> k \<in> name ` set static" for k by (auto simp: list_ex_iff)
  show ?case
    using snoc none [of n "merge_new name static xs"] none [of "name x" "merge_new name static xs"]
    unfolding merge_new_append Let_def st
    by (auto simp: select_named_def f split: option.splits)
qed
















text \<open>A static cluster, a cluster file with an EDS cluster, and a listener whose routes come from a file.\<close>

definition demo_files :: xds_files where
  "demo_files =
     \<lparr>read_file = Some,
      yaml_cds = (\<lambda>_. Some [(demo_cfg RoundRobin)\<lparr>cc_name := ''e'', cluster_type := Eds, load_assignment := None,
        eds_cluster_config := Some \<lparr>eds_config_path = ''eds.yaml'', service_name = Some ''c''\<rparr>\<rparr>, demo_cfg RoundRobin]),
      yaml_lds = (\<lambda>_. None),
      yaml_rds = (\<lambda>_. Some [demo_rc\<lparr>rc_name := ''other''\<rparr>, demo_rc\<lparr>rc_name := ''local''\<rparr>]),
      yaml_eds = (\<lambda>_. Some [demo_la [demo_lbe ''a'' ''1'']]),
      b64_engine = (\<lambda>_. None)\<rparr>"




section \<open>What a reload does\<close>

lemma reload_check_errors:
  assumes "reload_route_check known runtime path r = Inl e"
  shows "failure_counter cs (XdsConfig e) = Some (rc_update_rejected cs)"
proof -
  have "e \<in> {e. failure_counter cs (XdsConfig e) = Some (rc_update_rejected cs)}"
    using checks_err [OF assms [unfolded reload_route_check_def]]
    by (auto simp: validate_route_runtime_fraction_def validate_redirect_oneofs_def reject_if_def failure_counter_def
        split: option.splits sum.splits FractionGateError.splits RouteAction.splits if_splits dest!: checks_err)
  then show ?thesis by simp
qed

text \<open>The classifier knows every error that the reload can return: the \<open>unreachable!\<close> arm is unreachable.\<close>

lemma reload_never_panics: "rds_reload t fs x \<noteq> None"
proof -
  have "failure_counter (rt_counters t) e \<noteq> None"
    if "reparse_and_select_route_config fs path name known runtime = Inl e" for e path name known runtime
  proof -
    from that consider "e = RdsFileError path" | "e = RdsParseError path" | "e = RdsRouteConfigNotFound name path"
      | e' r where "e = XdsConfig e'" "reload_route_check known runtime path r = Inl e'"
      by (fastforce simp: reparse_and_select_route_config_def parse_rds_file_def split: option.splits sum.splits dest!: checks_err)
    then show ?thesis by cases (simp_all add: failure_counter_def [of _ "RdsFileError path"] failure_counter_def [of _ "RdsParseError path"]
      failure_counter_def [of _ "RdsRouteConfigNotFound name path"] reload_check_errors)
  qed
  note classified = this
  show ?thesis
  proof (cases "reparse_and_select_route_config fs (rt_path t) (rt_name t) (\<lambda>n. cm_get (rt_clusters t) n \<noteq> None) (rt_runtime t)")
    case (Inl e)
    with classified [OF Inl] show ?thesis by (auto simp: rds_reload_def Let_def)
  qed (simp add: rds_reload_def Let_def)
qed

text \<open>What a file gives at a reload, and the counter that tells.\<close>

definition rds_outcome :: "'addr RdsTarget \<Rightarrow> xds_files \<Rightarrow> xds_error + RouteConfiguration" where
  "rds_outcome t fs =
     reparse_and_select_route_config fs (rt_path t) (rt_name t) (\<lambda>n. cm_get (rt_clusters t) n \<noteq> None) (rt_runtime t)"

definition accepted_table :: "'addr RdsTarget \<Rightarrow> xds_files \<Rightarrow> RouteConfiguration option" where
  "accepted_table t fs = (case rds_outcome t fs of Inr rc \<Rightarrow> Some rc | Inl _ \<Rightarrow> None)"

definition unreadable :: "'addr RdsTarget \<Rightarrow> xds_files \<Rightarrow> bool" where
  "unreadable t fs \<longleftrightarrow> (\<exists>p. rds_outcome t fs = Inl (RdsFileError p) \<or> rds_outcome t fs = Inl (RdsParseError p))"

text \<open>The closure the watcher runs on every change of the file drops the result, and the watcher runs it from the poll loop.\<close>

definition rds_closure :: "'addr RdsTarget \<Rightarrow> xds_files \<Rightarrow> RouteConfiguration \<times> stats \<Rightarrow> RouteConfiguration \<times> stats" where
  "rds_closure t fs x = (case rds_reload t fs x of Some (_, y) \<Rightarrow> y | None \<Rightarrow> x)"

definition rds_watch :: "'addr RdsTarget \<Rightarrow> nat option \<Rightarrow> (nat option \<times> xds_files) list
    \<Rightarrow> RouteConfiguration \<times> stats \<Rightarrow> RouteConfiguration \<times> stats" where
  "rds_watch t seed ticks x = watch_loop (rds_closure t) seed ticks x"

definition rds_cells :: "RdsCounters \<Rightarrow> stats \<Rightarrow> bool" where
  "rds_cells cs st \<longleftrightarrow>
     (let hs = [rc_update_attempt cs, rc_update_success cs, rc_update_failure cs, rc_update_rejected cs, rc_config_reload cs] in
      distinct hs \<and> list_all (\<lambda>k. k < length (counters st)) hs)"

definition rds_counts :: "RdsCounters \<Rightarrow> stats \<Rightarrow> u64 list" where
  "rds_counts cs st = map (\<lambda>k. counters st ! k)
     [rc_update_attempt cs, rc_update_success cs, rc_config_reload cs, rc_update_failure cs, rc_update_rejected cs]"

definition tally :: "bool \<Rightarrow> u64" where
  "tally b = (if b then 1 else 0)"

lemma outcome_errors:
  assumes "rds_outcome t fs = Inl e"
  shows "failure_counter cs e = Some (if unreadable t fs then rc_update_failure cs else rc_update_rejected cs)"
proof -
  from assms consider "e = RdsFileError (rt_path t)" | "e = RdsParseError (rt_path t)" | "e = RdsRouteConfigNotFound (rt_name t) (rt_path t)"
    | e' r known where "e = XdsConfig e'" "reload_route_check known (rt_runtime t) (rt_path t) r = Inl e'"
    by (fastforce simp: rds_outcome_def reparse_and_select_route_config_def parse_rds_file_def
        split: option.splits sum.splits dest!: checks_err)
  then show ?thesis
    using assms by cases (simp_all add: unreadable_def reload_check_errors failure_counter_def [of _ "RdsFileError _"]
      failure_counter_def [of _ "RdsParseError _"] failure_counter_def [of _ "RdsRouteConfigNotFound _ _"])
qed

lemma rds_reload_one:
  assumes "rds_cells (rt_counters t) (snd x)"
  shows "\<exists>r st. rds_reload t fs x = Some (r, (case accepted_table t fs of Some rc \<Rightarrow> rc | None \<Rightarrow> fst x), st)
    \<and> rds_cells (rt_counters t) st
    \<and> rds_counts (rt_counters t) st = map2 (+) (rds_counts (rt_counters t) (snd x))
       [1, tally (accepted_table t fs \<noteq> None), tally (accepted_table t fs \<noteq> None), tally (unreadable t fs),
        tally (accepted_table t fs = None \<and> \<not> unreadable t fs)]"
proof (cases "rds_outcome t fs")
  case (Inl e)
  have a: "accepted_table t fs = None" using Inl by (simp add: accepted_table_def)
  show ?thesis
    unfolding rds_reload_def rds_outcome_def [symmetric] Let_def Inl a
    using assms outcome_errors [OF Inl, of "rt_counters t"]
    by (cases "unreadable t fs")
      (auto simp: rds_cells_def rds_counts_def tally_def counter_add_def counter_add_val_def Let_def nth_list_update)
next
  case (Inr rc)
  have a: "accepted_table t fs = Some rc" "\<not> unreadable t fs" using Inr by (simp_all add: accepted_table_def unreadable_def)
  show ?thesis
    unfolding rds_reload_def rds_outcome_def [symmetric] Let_def Inr a
    using assms a(2)
    by (auto simp: rds_cells_def rds_counts_def tally_def counter_add_def counter_add_val_def Let_def nth_list_update)
qed

definition count_files :: "('f \<Rightarrow> bool) \<Rightarrow> 'f list \<Rightarrow> u64" where
  "count_files P fss = of_nat (length (filter P fss))"

lemma count_files_Cons: "count_files P (f # fss) = tally (P f) + count_files P fss"
  by (simp add: count_files_def tally_def)

text \<open>The table and the counters after a sequence of reloads.\<close>

definition rds_after :: "'addr RdsTarget \<Rightarrow> xds_files list \<Rightarrow> RouteConfiguration \<times> stats \<Rightarrow> RouteConfiguration \<times> stats \<Rightarrow> bool" where
  "rds_after t fss x y \<longleftrightarrow>
     fst y = last (fst x # List.map_filter (accepted_table t) fss)
     \<and> rds_counts (rt_counters t) (snd y) = map2 (+) (rds_counts (rt_counters t) (snd x))
       [of_nat (length fss), count_files (\<lambda>fs. accepted_table t fs \<noteq> None) fss, count_files (\<lambda>fs. accepted_table t fs \<noteq> None) fss,
        count_files (unreadable t) fss, count_files (\<lambda>fs. accepted_table t fs = None \<and> \<not> unreadable t fs) fss]"

lemma rds_fold_after:
  assumes "rds_cells (rt_counters t) (snd x)"
  shows "rds_after t fss x (fold (rds_closure t) fss x)"
  using assms
proof (induction fss arbitrary: x)
  case Nil
  then show ?case by (simp add: rds_after_def rds_counts_def count_files_def List.map_filter_simps)
next
  case (Cons fs fss)
  obtain r st where r: "rds_reload t fs x = Some (r, (case accepted_table t fs of Some rc \<Rightarrow> rc | None \<Rightarrow> fst x), st)"
      "rds_cells (rt_counters t) st"
      "rds_counts (rt_counters t) st = map2 (+) (rds_counts (rt_counters t) (snd x))
       [1, tally (accepted_table t fs \<noteq> None), tally (accepted_table t fs \<noteq> None), tally (unreadable t fs),
        tally (accepted_table t fs = None \<and> \<not> unreadable t fs)]"
    using rds_reload_one [OF Cons.prems, of fs] by blast
  let ?y = "(case accepted_table t fs of Some rc \<Rightarrow> rc | None \<Rightarrow> fst x, st)"
  have "fold (rds_closure t) (fs # fss) x = fold (rds_closure t) fss ?y" by (simp add: rds_closure_def r(1))
  moreover have "last (fst ?y # List.map_filter (accepted_table t) fss) = last (fst x # List.map_filter (accepted_table t) (fs # fss))"
    by (cases "accepted_table t fs") (simp_all add: List.map_filter_simps)
  ultimately show ?case
    using Cons.IH [of ?y] r(2,3) by (simp add: rds_after_def rds_counts_def count_files_Cons)
qed

lemma accepted_routes_known:
  assumes "accepted_table t fs = Some rc" "vh \<in> set (virtual_hosts rc)" "r \<in> set (vh_routes vh)" "route_action r = ActRoute ar"
  shows "cm_get (rt_clusters t) (ar_cluster ar) \<noteq> None"
proof -
  have "checks (map (reload_route_check (\<lambda>n. cm_get (rt_clusters t) n \<noteq> None) (rt_runtime t) (rt_path t))
      (concat (map vh_routes (virtual_hosts rc)))) = Inr ()"
    using assms(1) by (auto simp: accepted_table_def rds_outcome_def reparse_and_select_route_config_def split: sum.splits option.splits)
  then have "reload_route_check (\<lambda>n. cm_get (rt_clusters t) n \<noteq> None) (rt_runtime t) (rt_path t) r = Inr ()" using assms(2,3) by auto
  with assms(4) show ?thesis by (simp add: reload_route_check_def)
qed

text \<open>
  Over any history of a route file, as the poll loop sees it: the file is read once per change of its modification time, the
  live table is the last one that was accepted (the boot table before), every reload ticks the attempt counter and exactly
  its outcome, and an accepted table routes to clusters that exist.
\<close>

theorem rds_watch_history:
  assumes "rds_cells (rt_counters t) (snd x)"
  shows "rds_after t (changed_inputs seed ticks) x (rds_watch t seed ticks x)
    \<and> (\<forall>fs rc. accepted_table t fs = Some rc \<longrightarrow> (\<forall>vh \<in> set (virtual_hosts rc). \<forall>r \<in> set (vh_routes vh). \<forall>ar.
         route_action r = ActRoute ar \<longrightarrow> cm_get (rt_clusters t) (ar_cluster ar) \<noteq> None))"
  using rds_fold_after [OF assms] accepted_routes_known by (auto simp: rds_watch_def watch_loop_def watch_fold)

section \<open>A reload can install a table that panics\<close>

text \<open>
  The route table of a file with one route that matches a header by a regular expression, as it comes out of the decoder:
  the expression is not compiled, which is what validation does at startup and a reload does not.
\<close>

definition regex_route :: "string \<Rightarrow> string \<Rightarrow> Route" where
  "regex_route header re =
     \<lparr>route_name = [], route_match = \<lparr>rm_prefix = Some ''/'', rm_path = None,
        rm_headers = [\<lparr>hm_name = header, hm_mode = SafeRegexMatch \<lparr>sr_regex = re, sr_compiled = None\<rparr>, hm_invert_match = False\<rparr>],
        rm_runtime_fraction = None\<rparr>,
      route_action = ActRedirect \<lparr>host_redirect = Some ''example.com'', port_redirect = None, path_redirect = None,
        prefix_rewrite = None, https_redirect = None, scheme_redirect = None, strip_query = False,
        response_code = MovedPermanently\<rparr>,
      typed_per_filter_config = bt_empty\<rparr>"

definition regex_table :: "string \<Rightarrow> string \<Rightarrow> string \<Rightarrow> RouteConfiguration" where
  "regex_table name header re =
     \<lparr>rc_name = name, virtual_hosts = [\<lparr>vh_name = ''v'', vh_domains = [''*''], vh_routes = [regex_route header re],
        include_attempt_count_in_response = False\<rparr>], validate_clusters = None\<rparr>"

lemma regex_table_outcome:
  assumes "read_file fs (rt_path t) = Some contents" "yaml_rds fs contents = Some [regex_table (rt_name t) header re]"
  shows "rds_outcome t fs = Inr (regex_table (rt_name t) header re)"
proof -
  have "reload_route_check known runtime path (regex_route header re) = Inr ()" for known runtime path
    by (simp add: reload_route_check_def regex_route_def validate_route_runtime_fraction_def validate_redirect_oneofs_def)
  then show ?thesis using assms
    by (simp add: rds_outcome_def reparse_and_select_route_config_def parse_rds_file_def select_named_def regex_table_def)
qed

lemma regex_table_panics:
  assumes "request_host req \<noteq> None" "find_header (req_headers req) header \<noteq> None" "starts_with (req_path req) ''/''"
  shows "resolve_route_in (regex_table name header re) req runtime = None"
  using assms
  by (auto simp: resolve_route_in_def regex_table_def regex_route_def vh_matches_def route_matches_def path_matches_def header_matches_def
        regex_is_match_def xor_invert_def Let_def)

lemma regex_table_valid:
  assumes "regex_new re \<noteq> None" "header \<noteq> []"
  shows "\<exists>rc. validate_route_config regex_new sc (regex_table name header re) = Inr rc"
proof -
  obtain h where h: "validate_header_matcher regex_new
      \<lparr>hm_name = header, hm_mode = SafeRegexMatch \<lparr>sr_regex = re, sr_compiled = None\<rparr>, hm_invert_match = False\<rparr> = Inr h"
    using assms by (auto simp: validate_header_matcher_def compile_safe_regex_def)
  have "\<exists>r. validate_route regex_new sc (regex_route header re) = Inr r"
    by (simp add: validate_route_def regex_route_def validate_route_match_cardinality_def validate_route_runtime_fraction_def
        validate_action_def validate_redirect_oneofs_def validate_per_filter_def validate_retry_policy_def Let_def h reject_if_def
        bt_keys_def bt_entries_def bt_empty_def)
  then show ?thesis
    by (auto simp: validate_route_config_def validate_virtual_host_def regex_table_def reject_if_def)
qed

text \<open>
  C36. Such a table is accepted by every reload and installed, and from then on every request that has a host and the header
  panics in the router, though the same file at startup gives a table that routes without panic.
\<close>

theorem rds_reload_installs_panic:
  assumes "read_file fs (rt_path t) = Some contents" "yaml_rds fs contents = Some [regex_table (rt_name t) header re]"
    and "regex_new re \<noteq> None" and header: "header \<noteq> []"
    and "request_host req \<noteq> None" "find_header (req_headers req) header \<noteq> None" "starts_with (req_path req) ''/''"
  shows "(\<exists>st. rds_reload t fs x = Some (Inr (), regex_table (rt_name t) header re, st))
    \<and> resolve_route_in (regex_table (rt_name t) header re) req (rt_runtime t) = None
    \<and> (\<exists>rc. validate_route_config regex_new sc (regex_table (rt_name t) header re) = Inr rc)"
  using regex_table_outcome [OF assms(1,2)] regex_table_panics [OF assms(5,6,7)] regex_table_valid [where regex_new = regex_new, OF assms(3) header]
  by (simp add: rds_reload_def rds_outcome_def Let_def)

definition demo_target :: "string RdsTarget" where
  "demo_target = \<lparr>rt_path = ''rds.yaml'', rt_name = ''local'', rt_clusters = bt_empty, rt_runtime = rs_runtime demo_scope,
     rt_counters = \<lparr>rc_update_attempt = 0, rc_update_success = 1, rc_update_failure = 2, rc_update_rejected = 3, rc_config_reload = 4\<rparr>\<rparr>"

theorem rds_reload_installs_panic_witness:
  "let fs = demo_files\<lparr>yaml_rds := (\<lambda>_. Some [regex_table ''local'' ''x-user'' ''a+''])\<rparr>;
       req = \<lparr>req_method = ''GET'', req_path = ''/x'', req_version = Http11,
         req_headers = [(''Host'', ''a.b''), (''x-user'', ''aa'')], req_bytes_consumed = 40, req_body = None\<rparr>
   in (\<exists>st. rds_reload demo_target fs (demo_rc, registry_new) = Some (Inr (), regex_table ''local'' ''x-user'' ''a+'', st))
    \<and> resolve_route_in (regex_table ''local'' ''x-user'' ''a+'') req (rt_runtime demo_target) = None
    \<and> (\<exists>rc. validate_route_config (\<lambda>_. Some (list_all ((=) CHR ''a''))) demo_scope (regex_table ''local'' ''x-user'' ''a+'') = Inr rc)"
proof -
  let ?fs = "demo_files\<lparr>yaml_rds := (\<lambda>_. Some [regex_table ''local'' ''x-user'' ''a+''])\<rparr>"
  let ?req = "\<lparr>req_method = ''GET'', req_path = ''/x'', req_version = Http11,
         req_headers = [(''Host'', ''a.b''), (''x-user'', ''aa'')], req_bytes_consumed = 40, req_body = None\<rparr>"
  have t: "rt_name demo_target = ''local''" by (simp add: demo_target_def)
  have f: "read_file ?fs (rt_path demo_target) = Some (rt_path demo_target)"
    "yaml_rds ?fs (rt_path demo_target) = Some [regex_table (rt_name demo_target) ''x-user'' ''a+'']"
    by (simp_all add: demo_files_def demo_target_def)
  have r: "(\<lambda>_. Some (list_all ((=) CHR ''a''))) ''a+'' \<noteq> None" "''x-user'' \<noteq> []" by simp_all
  have q: "request_host ?req \<noteq> None" "find_header (req_headers ?req) ''x-user'' \<noteq> None" "starts_with (req_path ?req) ''/''"
    by code_simp+
  show ?thesis
    using rds_reload_installs_panic [OF f r q, of "(demo_rc, registry_new)" demo_scope] unfolding Let_def t .
qed

end
