(* ===== verification/Spec2Isabelle.thy ===== *)
theory Spec2Isabelle
  imports Eds_Reload Filter_Handles H2_Pool H1_Connection Tcp_Proxy Health_Probe Admin Xds_Load
begin

text \<open>
  envoy-rust is a reimplementation of the Envoy proxy: a configuration crate that parses
  and validates a bootstrap (\<open>crates/envoy-config\<close>), a cluster crate that owns upstream
  endpoints and chooses among them (\<open>crates/envoy-cluster\<close>), HTTP/1 and HTTP/2 connection
  managers that route requests through a filter chain (\<open>crates/envoy-http1\<close>,
  \<open>crates/envoy-http2\<close>, \<open>crates/envoy-filter\<close>), and crates for statistics, health checks,
  TLS, access logs, administration and listeners. This development models the decisions
  those parts take as HOL functions and step relations, and proves what makes them correct.

  \<^bold>\<open>How the parts meet.\<close> A bootstrap is validated (\<open>Cluster_Config\<close>, \<open>Route_Config\<close>), the
  cluster manager builds one \<open>cluster\<close> per entry (\<open>Cluster_Manager\<close>), registering its
  statistics (\<open>Stats\<close>); a request is routed (\<open>Routing\<close>, with \<open>Matcher\<close> and \<open>Runtime\<close>) to a
  cluster, whose \<open>pick\<close> (\<open>Cluster_Pick\<close>) consults the subset index (\<open>Subset_Lb\<close>), the hash
  tables (\<open>Ring_Hash\<close>, \<open>Maglev_Table\<close>, \<open>Xxhash\<close>), the health and ejection state (\<open>Health\<close>,
  \<open>Outlier\<close>) and the round-robin cursor; budgets (\<open>Budget\<close>) bound retries and requests in
  flight, and the file watcher (\<open>Eds_Reload\<close>) replaces the endpoints while requests run.
  Before routing a request passes the filter chain (\<open>Filter_Pipeline\<close> over \<open>Http_Filters\<close>,
  \<open>Cdn_Loop\<close>, \<open>Rbac\<close>, \<open>Jwt\<close> and the token buckets of \<open>Token_Bucket\<close>). The proxy arm
  (\<open>Proxy\<close>) admits it under the request budget, then picks an endpoint, takes a connection
  from the pool (\<open>H1_Pool\<close>, \<open>H2_Pool\<close>, with the shared accounting of \<open>Conn_Pool\<close>), runs the
  exchange (\<open>Http1_Client\<close>) and decides on a retry. A finished request becomes an access-log
  record (\<open>H1_Log\<close>) that each sink filters (\<open>Log_Filter\<close>) and renders (\<open>Log_Render\<close>).
  \<open>H1_Connection\<close> composes all of this into the loop of one connection.
  Connections come from the accept loops of \<open>Listener\<close>, which end on the signal of \<open>Drain\<close>, and pass the network
  filters of \<open>Rbac\<close> on their first byte; \<open>Tcp_Proxy\<close> is the handler that relays bytes.
  \<open>Health_Probe\<close> starts the tasks whose probes (over \<open>Grpc_Health\<close> for gRPC) drive \<open>Health\<close>,
  and \<open>Admin\<close> shows the state of the others and writes that of \<open>Drain\<close>.

  \<^bold>\<open>Theories and sources.\<close>
  \<^item> \<open>Prelude\<close>: Rust's strings as byte lists, ASCII, prefix and substring search, splitting
    and trimming, integer formatting and parsing, early returns, generic list lemmas.
  \<^item> \<open>Ordered_Map\<close>: \<open>BTreeMap\<close>, as the locale \<open>ordered_map\<close> and its model.
  \<^item> \<open>Stats\<close>: \<open>envoy-stats\<close>; handles are indices into a store of cells.
  \<^item> \<open>Xxhash\<close>, \<open>Ring_Hash\<close>, \<open>Maglev_Table\<close>, \<open>Subset_Lb\<close>: the files of those names in
    \<open>envoy-cluster/src\<close>.
  \<^item> \<open>Edge_Gauge\<close>: the contract of a gauge bumped on the edges of per-endpoint flags, a
    locale interpreted for \<open>Health\<close> (\<open>health.rs\<close>) and \<open>Outlier\<close> (\<open>ejection.rs\<close>,
    \<open>outlier.rs\<close>, \<open>record_response\<close> of \<open>cluster.rs\<close>).
  \<^item> \<open>Budget\<close>: \<open>budget.rs\<close>, once as sequential functions and once as a step relation on
    the atomic operations of many threads.
  \<^item> \<open>Float64\<close>: the \<open>f64\<close> arithmetic of the percentages, as rounding of exact rationals.
  \<^item> \<open>Cluster_Pick\<close>: \<open>Cluster\<close> and \<open>pick\<close> of \<open>cluster.rs\<close>.
  \<^item> \<open>Lb_Config\<close>, \<open>Duration\<close>, \<open>Cluster_Config\<close>: the cluster schema of \<open>bootstrap.rs\<close> and
    \<open>validate_cluster\<close>.
  \<^item> \<open>Cluster_Manager\<close>: \<open>from_bootstrap\<close> of \<open>cluster.rs\<close>, every branch.
  \<^item> \<open>Eds_Reload\<close>: \<open>eds_reload.rs\<close> and the poll loop of \<open>xds_watch.rs\<close>.
  \<^item> \<open>Xds_Load\<close>: the merge of the discovery files at startup (\<open>load_dynamic_resources\<close> of \<open>envoy-config/src/lib.rs\<close>) and the
    hot reload of a route file (\<open>rds.rs\<close>, \<open>rds_watcher.rs\<close>): what a successful merge guarantees, the live table and the
    counters over any history of the file, and that a reload can install a table on which requests panic.
  \<^item> \<open>Matcher\<close>: \<open>matcher.rs\<close> and the validation of matchers in \<open>bootstrap.rs\<close>.
  \<^item> \<open>Runtime\<close>: \<open>runtime.rs\<close> and \<open>validate_layered_runtime\<close>.
  \<^item> \<open>Route_Config\<close>, \<open>Retry_Policy\<close>: the route schema, the route walk of \<open>validate_hcm\<close>, and
    \<open>RetryConfig\<close>.
  \<^item> \<open>Routing\<close>: route resolution, the response builder, redirects, synthesized responses and
    framing in \<open>envoy-http1/src/hcm.rs\<close>.
  \<^item> \<open>Filter_Types\<close>, \<open>Token_Bucket\<close>, \<open>Http_Filters\<close>, \<open>Cdn_Loop\<close>, \<open>Rbac\<close>, \<open>Jwt\<close>,
    \<open>Filter_Pipeline\<close>, \<open>Filter_Handles\<close>: \<open>envoy-filter\<close>, \<open>envoy-jwt\<close> and the validators of the
    filters in \<open>bootstrap.rs\<close>. \<open>Filter_Ready\<close> has no code of its own: it says which chains never panic.
  \<^item> \<open>Conn_Pool\<close>, \<open>H1_Pool\<close>, \<open>H2_Pool\<close>: \<open>envoy-http1/src/pool.rs\<close> and
    \<open>envoy-http2/src/pool.rs\<close>, sequentially and as step relations on their lock sections; the
    locale \<open>pool_account\<close> is the contract both interpret.
  \<^item> \<open>Proxy\<close>: \<open>construct_proxied_response\<close> of \<open>router.rs\<close>, \<open>run_attempt\<close> and the retry loop of
    \<open>hcm.rs\<close>.
  \<^item> \<open>Http1_Client\<close>: \<open>client.rs\<close> and \<open>response.rs\<close> of \<open>envoy-http1\<close>, on bytes.
  \<^item> \<open>Civil_Date\<close>: the calendar of \<open>date.rs\<close> and the one of \<open>default_format.rs\<close>.
  \<^item> \<open>Log_Format\<close>, \<open>Log_Render\<close>, \<open>Log_Json\<close>: the operator language, its evaluator and the JSON
    encoder of \<open>envoy-accesslog\<close>; \<open>Log_Json\<close> adds the JSON values and the reader they are
    judged by.
  \<^item> \<open>Log_Filter\<close>: the access-log schema and validators of \<open>bootstrap.rs\<close>, the compilation in
    \<open>hcm.rs\<close>, \<open>filter.rs\<close> and \<open>file_sink.rs\<close>.
  \<^item> \<open>H1_Log\<close>: \<open>grpc.rs\<close>, the record and the dispatch of \<open>hcm.rs\<close>.
  \<^item> \<open>H1_Connection\<close>: \<open>parse_request\<close> of \<open>codec.rs\<close> and \<open>serve_connection\<close> of \<open>hcm.rs\<close>, with the
    filters, the router, the proxy arm, the writer and the logs it calls.

  \<^item> \<open>Drain\<close>, \<open>Listener\<close>: \<open>drain.rs\<close> and \<open>lib.rs\<close> of \<open>envoy-listener\<close>, as functions and as step
    relations on the atomic operations and on the arms of the accept loops.
  \<^item> \<open>Tcp_Proxy\<close>: \<open>envoy-tcp/src/lib.rs\<close>.
  \<^item> \<open>Grpc_Health\<close>: \<open>grpc.rs\<close> of \<open>envoy-http2\<close>, the health-check codec on bytes and the call.
  \<^item> \<open>Health_Probe\<close>: \<open>probe.rs\<close> and \<open>scheduler.rs\<close> of \<open>envoy-health\<close>.
  \<^item> \<open>Admin\<close>: \<open>endpoint.rs\<close>, \<open>handler.rs\<close> and \<open>config.rs\<close> of \<open>envoy-admin\<close>.

  \<^bold>\<open>What the lemmas show.\<close> A pick never indexes out of bounds, never leaves its subset, and
  respects health and ejection except under panic routing; round robin is fair as long as the cursor does not
  wrap, and a ring key goes to its clockwise successor. The Maglev build terminates, balanced, for every size the validator accepts.
  Health is the hysteresis of the probe history, and the cluster gauges count flags under
  every interleaving. The ejection cap holds for sequential responses and fails for
  concurrent ones; the in-flight count never exceeds its cap under any
  interleaving, while its gauge can be left stale. Startup on a validated configuration whose
  rings are below \<open>2 ^ 59\<close> entries never panics or hangs and yields aligned clusters; reloads are accounted for, and a reload
  can leave a stale subset index. Under a validated route
  configuration routing never panics and picks the first match; resolution and response
  builder agree; the body length is unambiguous; framing headers are exclusive. The filter
  chain of a connection treats every request as a fresh chain would, and a validated one never panics unless it has
  regular expressions in fault, JWT, CORS or CSRF matchers; RBAC and JWT pass
  exactly what their policies allow; rate limits bound every window before which the bucket was not idle for \<open>2 ^ 32\<close>
  intervals. The pools never exceed
  their connection and stream limits under any interleaving of their own steps and their counters balance. A
  proxied request ends with a response after at most \<open>num_retries + 1\<close> attempts unless the client panics in an exchange,
  returns its budget slots and moves the request counters by what its attempts did. The client returns on every stream
  that announces no body or chunk of \<open>2 ^ 63\<close> bytes or more, and panics on some that do. For heads with at most one
  content-length row the zero-copy response path equals the owned one byte for byte,
  and the body readers do not depend on how the stream is cut into reads. The two calendars
  agree. An access-log format survives printing and parsing, a JSON line is one line that reads
  back as the record's values, and a validated filter keeps exactly what it configures. A
  connection takes exactly a head and its declared body per request, writes one response for
  it, ends, and never panics on a ready configuration with a client that does not; the body of a rejected chunked request
  is taken for the next request. A
  drain wakes every accept loop, but a drain call racing with a recovery can be lost and gauges
  can be left stale; the books of a listener are exact but for tasks that are aborted. The TCP
  relay delivers each direction in order and nothing that the network filters do not permit. The
  health checks of a validated configuration start one task per endpoint without panic, no
  network behaviour makes a task panic but for an HTTP client that does, a TCP probe finds its payloads wherever the reads are cut,
  and the gRPC codec reads back what any encoder writes. The administration requests answer whenever the JSON they ask for can be printed,
  only the accepted POSTs change the drain stage, \<open>/ready\<close> follows it, the statistics page reads
  back, and the endpoint dump shows the live endpoints.

  \<^bold>\<open>Conventions.\<close> A Rust string is its bytes. A panic and non-termination are values: an
  extra \<open>option\<close> or an outcome constructor. The loops of the Maglev build are
  \<open>partial_function (option)\<close> and their termination is proved. The only
  fuel is that of the JSON reader of \<open>Log_Json\<close>, for which the length of its input is enough.
  Counters keep their machine width where they can wrap; sizes read from YAML are naturals.
  Parameters stand for code outside the repository: the regex engine (\<open>regex_new\<close>), socket
  addresses and the resolver (the record \<open>net\<close>), the base64 decoder, the YAML reader, the
  JSON printer, the clock. The exchange of the proxy arm and of the HTTP probe is a parameter too, with the panic of the
  client as an outcome; \<open>client_exchange\<close> of \<open>Http1_Client\<close> is the one the program has. Concurrency is an interleaving of atomic steps of a step relation.

  \<^bold>\<open>Not modelled.\<close> Serde decoding, sockets, TLS, timers and task spawning, which are I/O or
  third-party code; the exhaustion of memory (an allocation fails only where its size cannot be addressed); the HTTP/2 codec, which is a third-party crate; the HTTP/2
  connection manager, the io_uring worker and the process start-up.
\<close>

end
